(* ===== verification/LN_Prelude.thy ===== *)
theory LN_Prelude
  imports Main "HOL-Library.Word" "HOL-Library.Monad_Syntax"
begin

section \<open>Types, memory accesses and shared lemmas\<close>

text \<open>
  What every component of the development shares: names for the machine integers, C memory
  accesses to a byte array with their bounds check, byte order, and the two polling loops
  \<open>while (put(x) != 0);\<close> and \<open>while (get(&x) != 0);\<close> of the queue clients.

  Convention: a model returns an \<open>option\<close> where the C code could do something the C standard
  leaves undefined. \<open>None\<close> is that undefined behaviour (an access outside an array, a null
  pointer read, a shift by the width of the type, a division by zero); it is never an error
  code of the program. The error codes of the program are values inside \<open>Some\<close>.
\<close>

unbundle bit_operations_syntax

type_synonym u8 = "8 word"
type_synonym u16 = "16 word"
type_synonym u32 = "32 word"
type_synonym u64 = "64 word"

named_theorems mem_simps \<open>reads and writes of byte arrays\<close>
named_theorems byte_simps \<open>splitting words into bytes and joining them\<close>

lemma neg_uint_less [simp]: "0 < k \<Longrightarrow> - uint (x :: 'a::len word) < k"
  using uint_ge_0 [of x] by linarith

subsection \<open>Bounds-checked accesses to an array\<close>

definition get_at :: "'a list \<Rightarrow> nat \<Rightarrow> 'a option" where
  "get_at xs i = (if i < length xs then Some (xs ! i) else None)"

definition set_at :: "'a list \<Rightarrow> nat \<Rightarrow> 'a \<Rightarrow> 'a list option" where
  "set_at xs i v = (if i < length xs then Some (xs[i := v]) else None)"

text \<open>\<open>memcpy(xs + i, ys, length ys)\<close> and reading \<open>n\<close> elements from \<open>xs + i\<close>.\<close>

definition put_block :: "'a list \<Rightarrow> nat \<Rightarrow> 'a list \<Rightarrow> 'a list option" where
  "put_block xs i ys =
     (if i + length ys \<le> length xs
      then Some (take i xs @ ys @ drop (i + length ys) xs) else None)"

definition get_block :: "'a list \<Rightarrow> nat \<Rightarrow> nat \<Rightarrow> 'a list option" where
  "get_block xs i n = (if i + n \<le> length xs then Some (take n (drop i xs)) else None)"

lemma get_at_Some [mem_simps]: "i < length xs \<Longrightarrow> get_at xs i = Some (xs ! i)"
  by (simp add: get_at_def)

lemma get_at_eq_None [mem_simps]: "get_at xs i = None \<longleftrightarrow> length xs \<le> i"
  by (auto simp: get_at_def)

lemma set_at_Some [mem_simps]: "i < length xs \<Longrightarrow> set_at xs i v = Some (xs[i := v])"
  by (simp add: set_at_def)

lemma put_block_Some [mem_simps]:
  "i + length ys \<le> length xs \<Longrightarrow>
     put_block xs i ys = Some (take i xs @ ys @ drop (i + length ys) xs)"
  by (simp add: put_block_def)

lemma get_block_Some [mem_simps]:
  "i + n \<le> length xs \<Longrightarrow> get_block xs i n = Some (take n (drop i xs))"
  by (simp add: get_block_def)

lemma put_block_length: "put_block xs i ys = Some zs \<Longrightarrow> length zs = length xs"
  by (auto simp: put_block_def split: if_splits)

lemma put_block_take:
  "put_block xs i ys = Some zs \<Longrightarrow> take (i + length ys) zs = take i xs @ ys"
  by (auto simp: put_block_def split: if_splits)

lemma get_block_length: "get_block xs i n = Some ys \<Longrightarrow> length ys = n"
  by (auto simp: get_block_def split: if_splits)

text \<open>Writing one byte after a prefix extends the prefix.\<close>

lemma take_Suc_update: "i < length xs \<Longrightarrow> take (Suc i) (xs[i := v]) = take i xs @ [v]"
  by (simp add: take_Suc_conv_app_nth)

subsection \<open>Bytes of 16-bit and 32-bit words\<close>

definition hi8 :: "u16 \<Rightarrow> u8" where
  "hi8 w = ucast (drop_bit 8 w)"

definition lo8 :: "u16 \<Rightarrow> u8" where
  "lo8 w = ucast w"

definition be16 :: "u8 \<Rightarrow> u8 \<Rightarrow> u16" where
  "be16 h l = push_bit 8 (ucast h) OR ucast l"

lemma be16_hi8_lo8 [byte_simps]: "be16 (hi8 w) (lo8 w) = w"
  by (rule bit_word_eqI) (auto simp: be16_def hi8_def lo8_def bit_simps)

lemma hi8_be16 [byte_simps]: "hi8 (be16 h l) = h"
  by (rule bit_word_eqI) (auto simp: be16_def hi8_def bit_simps dest: bit_imp_le_length)

lemma lo8_be16 [byte_simps]: "lo8 (be16 h l) = l"
  by (rule bit_word_eqI) (auto simp: be16_def lo8_def bit_simps)

text \<open>Casts of quotients and remainders of lengths.\<close>

lemma of_int_div_nat [byte_simps]:
  "(of_int (int n div numeral k) :: 'a::ring_1) = of_nat (n div numeral k)"
  by (metis of_int_of_nat_eq of_nat_numeral zdiv_int)

lemma of_int_mod_nat [byte_simps]:
  "(of_int (int n mod numeral k) :: 'a::ring_1) = of_nat (n mod numeral k)"
  by (metis of_int_of_nat_eq of_nat_numeral zmod_int)

text \<open>The bytes of a 32-bit value in memory: both targets are little-endian.\<close>

definition le_bytes :: "u32 \<Rightarrow> u8 list" where
  "le_bytes w = [ucast w, ucast (drop_bit 8 w), ucast (drop_bit 16 w), ucast (drop_bit 24 w)]"

lemma length_le_bytes [simp]: "length (le_bytes w) = 4"
  by (simp add: le_bytes_def)

lemma le_bytes_inj [byte_simps]: "le_bytes v = le_bytes w \<longleftrightarrow> v = w"
proof
  assume a: "le_bytes v = le_bytes w"
  show "v = w"
  proof (rule bit_word_eqI)
    fix n :: nat
    assume "n < LENGTH(32)"
    then have n: "n < 32" by simp
    have b0: "bit (ucast v :: u8) k = bit (ucast w :: u8) k" for k
      using a by (simp add: le_bytes_def)
    have b1: "bit (ucast (drop_bit 8 v) :: u8) k = bit (ucast (drop_bit 8 w) :: u8) k" for k
      using a by (simp add: le_bytes_def)
    have b2: "bit (ucast (drop_bit 16 v) :: u8) k = bit (ucast (drop_bit 16 w) :: u8) k" for k
      using a by (simp add: le_bytes_def)
    have b3: "bit (ucast (drop_bit 24 v) :: u8) k = bit (ucast (drop_bit 24 w) :: u8) k" for k
      using a by (simp add: le_bytes_def)
    consider "n < 8" | "8 \<le> n" "n < 16" | "16 \<le> n" "n < 24" | "24 \<le> n" by linarith
    then show "bit v n = bit w n"
    proof cases
      case 1 then show ?thesis using b0 [of n] by (simp add: bit_simps)
    next
      case 2 then show ?thesis using b1 [of "n - 8"] by (auto simp: bit_simps)
    next
      case 3 then show ?thesis using b2 [of "n - 16"] by (auto simp: bit_simps)
    next
      case 4 then show ?thesis using b3 [of "n - 24"] n by (auto simp: bit_simps)
    qed
  qed
qed simp

text \<open>\<open>htonl\<close> on a little-endian machine reverses the bytes; \<open>ntohl\<close> is the same function.\<close>

definition htonl :: "u32 \<Rightarrow> u32" where
  "htonl w = push_bit 24 (w AND 0xFF) OR push_bit 8 (w AND 0xFF00)
     OR (drop_bit 8 w AND 0xFF00) OR (drop_bit 24 w AND 0xFF)"

text \<open>The bytes of \<open>htonl w\<close>, bit by bit and as a number; it is its own inverse.\<close>


lemma unat_less_32: "unat (w :: u32) < 2 ^ 32"
  by (rule order_less_le_trans [OF unsigned_less]) simp

lemma mask_bytes: "(0xFF :: u32) = mask 8" "(0xFF00 :: u32) = push_bit 8 (mask 8)"
  by (simp_all add: mask_eq_exp_minus_1 push_bit_eq_mult)

lemma htonl_bit:
  assumes "k < 8"
  shows "bit (htonl w) k = bit w (24 + k)" "bit (htonl w) (8 + k) = bit w (16 + k)"
    "bit (htonl w) (16 + k) = bit w (8 + k)" "bit (htonl w) (24 + k) = bit w k"
  using assms unfolding htonl_def mask_bytes by (simp_all add: bit_simps add.commute)

lemma byte_cases:
  assumes "n < (32 :: nat)"
  obtains k where "k < 8" "n = k" | k where "k < 8" "n = 8 + k" | k where "k < 8" "n = 16 + k"
    | k where "k < 8" "n = 24 + k"
proof -
  consider "n < 8" | "8 \<le> n" "n < 16" | "16 \<le> n" "n < 24" | "24 \<le> n" by linarith
  then show ?thesis
    by cases (use assms that(1) [of n] that(2) [of "n - 8"] that(3) [of "n - 16"] that(4) [of "n - 24"] in auto)
qed

lemma htonl_htonl: "htonl (htonl w) = w"
proof (rule bit_word_eqI)
  fix n :: nat assume "n < LENGTH(32)"
  then have "n < 32" by simp
  then show "bit (htonl (htonl w)) n = bit w n"
    by (rule byte_cases) (simp_all add: htonl_bit)
qed

lemma unat_or_disjoint:
  fixes a b :: "'a::len word"
  assumes "a AND b = 0"
  shows "unat (a OR b) = unat a + unat b"
proof -
  have "unat a AND unat b = 0"
    using assms by (simp add: unsigned_and_eq [symmetric])
  then show ?thesis by (simp add: unsigned_or_eq disjunctive_add_eq_or)
qed

lemma htonl_bit':
  assumes "k < 8"
  shows "bit (htonl w) (k + 8) = bit w (k + 16)"
    "bit (htonl w) (k + 16) = bit w (k + 8)" "bit (htonl w) (k + 24) = bit w k"
  using htonl_bit [OF assms, of w] by (simp_all add: add.commute)

lemma unat_be16: "unat (be16 h l) = 256 * unat h + unat l"
proof -
  have d: "(push_bit 8 (ucast h) :: u16) AND ucast l = 0"
    by (rule bit_word_eqI) (auto simp: bit_simps dest: bit_imp_le_length)
  have b: "unat x < 2 ^ 8" for x :: u8 by (rule order_less_le_trans [OF unsigned_less]) simp
  have "unat (push_bit 8 (ucast h) :: u16) = 256 * unat h"
    unfolding unsigned_push_bit_eq using b [of h]
    by (simp add: unsigned_ucast_eq push_bit_eq_mult take_bit_eq_mod)
  moreover have "unat (ucast l :: u16) = unat l"
    using b [of l] by (simp add: unsigned_ucast_eq take_bit_eq_mod)
  ultimately show ?thesis unfolding be16_def unat_or_disjoint [OF d] by simp
qed

lemma unat_of_nat_8: "n < 256 \<Longrightarrow> unat (of_nat n :: u8) = n"
  by (simp add: unat_of_nat)

text \<open>A 16-bit number written as two bytes.\<close>

lemma be16_digits:
  "n < 65536 \<Longrightarrow> unat (be16 (of_nat (n div 256)) (of_nat (n mod 256))) = n"
  unfolding unat_be16 by (subst unat_of_nat_8, simp, subst unat_of_nat_8, simp_all)

lemma htonl_bytes:
  "htonl w = push_bit 24 (take_bit 8 w) OR (push_bit 16 (take_bit 8 (drop_bit 8 w))
     OR (push_bit 8 (take_bit 8 (drop_bit 16 w)) OR drop_bit 24 w))" (is "_ = ?r")
proof (rule bit_word_eqI)
  fix n :: nat assume "n < LENGTH(32)"
  then have "n < 32" by simp
  then show "bit (htonl w) n = bit ?r n"
    by (rule byte_cases) (auto simp: htonl_bit htonl_bit' bit_simps add.commute dest: bit_imp_le_length)
qed

lemma unat_push_byte: "k \<le> 24 \<Longrightarrow> unat (push_bit k (take_bit 8 (w :: u32))) = 2 ^ k * (unat w mod 2 ^ 8)"
proof -
  assume k: "k \<le> 24"
  have "unat w mod 2 ^ 8 * 2 ^ k < 2 ^ 8 * (2 ^ 24 :: nat)"
    using k by (intro mult_less_le_imp_less power_increasing) auto
  moreover have "unat (take_bit 8 w) = unat w mod 2 ^ 8"
    unfolding unsigned_take_bit_eq by (simp only: take_bit_eq_mod)
  ultimately show ?thesis
    unfolding unsigned_push_bit_eq by (simp add: push_bit_eq_mult take_bit_eq_mod mult.commute)
qed

lemma unat_drop_bit: "unat (drop_bit k w) = unat w div 2 ^ k" for w :: "'a::len word"
  unfolding unsigned_drop_bit_eq using unsigned_less [of w, where ?'a = nat] by (simp add: drop_bit_eq_div take_bit_eq_mod)

lemma unat_htonl:
  "unat (htonl w) = 2 ^ 24 * (unat w mod 2 ^ 8) + (2 ^ 16 * (unat w div 2 ^ 8 mod 2 ^ 8)
       + (2 ^ 8 * (unat w div 2 ^ 16 mod 2 ^ 8) + unat w div 2 ^ 24))"
proof -
  let ?a = "push_bit 24 (take_bit 8 w)" and ?b = "push_bit 16 (take_bit 8 (drop_bit 8 w))"
    and ?c = "push_bit 8 (take_bit 8 (drop_bit 16 w))" and ?d = "drop_bit 24 w"
  have 1: "?a AND (?b OR (?c OR ?d)) = 0" "?b AND (?c OR ?d) = 0" "?c AND ?d = 0"
    by (rule bit_word_eqI; auto simp: bit_simps dest: bit_imp_le_length)+
  show ?thesis
    unfolding htonl_bytes 1 [THEN unat_or_disjoint]
    by (simp only: unat_push_byte [OF order_refl] unat_push_byte [of 16] unat_push_byte [of 8] unat_drop_bit)
qed

subsection \<open>Arithmetic of C's 32-bit \<open>int\<close>\<close>

text \<open>A result outside the type is undefined; so is a left shift that loses bits of a non-negative value.\<close>

definition i32 :: "int \<Rightarrow> int option" where
  "i32 x = (if - (2 ^ 31) \<le> x \<and> x < 2 ^ 31 then Some x else None)"

definition shl32 :: "int \<Rightarrow> nat \<Rightarrow> int option" where
  "shl32 x k = (if k < 32 \<and> 0 \<le> x \<and> x * 2 ^ k < 2 ^ 31 then Some (x * 2 ^ k) else None)"

lemma i32_Some [mem_simps]: "- (2 ^ 31) \<le> x \<Longrightarrow> x < 2 ^ 31 \<Longrightarrow> i32 x = Some x"
  by (simp add: i32_def)

subsection \<open>Polling a queue until it accepts or delivers\<close>

text \<open>
  \<open>put_loop put q xs\<close> is \<open>for (i...) while (put(q, &xs[i]) != 0);\<close> in one thread: it returns the
  queue and the elements not yet accepted. If that rest is not empty, the thread polls on
  its first element until another thread takes something out of the queue.
\<close>

fun put_loop :: "('q \<Rightarrow> 'e \<Rightarrow> (int \<times> 'q) option) \<Rightarrow> 'q \<Rightarrow> 'e list \<Rightarrow> ('q \<times> 'e list) option" where
  "put_loop put q [] = Some (q, [])"
| "put_loop put q (x # xs) =
     (case put q x of
        None \<Rightarrow> None
      | Some (rc, q') \<Rightarrow> if rc = 0 then put_loop put q' xs else Some (q', x # xs))"

text \<open>
  \<open>get_loop get q n\<close> is \<open>while (n > 0) { while (get(q, &x) != 0); ...; n--; }\<close>: the queue, what was
  delivered, and how many elements are still waited for.
\<close>

fun get_loop :: "('q \<Rightarrow> (int \<times> 'e option \<times> 'q) option) \<Rightarrow> 'q \<Rightarrow> nat \<Rightarrow> ('q \<times> 'e list \<times> nat) option" where
  "get_loop get q 0 = Some (q, [], 0)"
| "get_loop get q (Suc n) =
     (case get q of
        None \<Rightarrow> None
      | Some (rc, x, q') \<Rightarrow>
          (case x of
             None \<Rightarrow> Some (q', [], Suc n)
           | Some e \<Rightarrow>
               (case get_loop get q' n of
                  None \<Rightarrow> None
                | Some (q'', es, m) \<Rightarrow> Some (q'', e # es, m))))"

end
