(* ===== verification/Ringbuf.thy ===== *)
theory Ringbuf
  imports LN_Prelude
begin

section \<open>The ring buffer of the MQTT client (\<open>espmqtt/ringbuf.c\<close>)\<close>

text \<open>
  \<open>RINGBUF\<close> is a record: the byte array behind \<open>p_o\<close>, the read and write pointers as offsets
  from \<open>p_o\<close>, and the three \<open>int32_t\<close> counters as integers (the invariant keeps
  them in \<open>0..size\<close>, so no counter can leave the range of its type). The refinement is to a FIFO
  list: \<open>rb_contents\<close> reads the filled slots in order. The interface other components rely
  on is the locale \<open>bounded_fifo\<close>, interpreted at the end for blocks of one byte, which is how
  \<open>mqtt_start\<close> sets the buffer up.
\<close>

record ringbuf =
  rb_arr :: "u8 list"
  p_r :: nat
  p_w :: nat
  fill_cnt :: int
  rb_size :: int
  block_size :: int

subsection \<open>Operations\<close>

text \<open>
  A null pointer is \<open>None\<close>. C's \<open>%\<close> and HOL's \<open>mod\<close> differ in sign only, which the test against 0
  does not see; a block size of 0 is a division by zero.
\<close>

definition rb_init :: "ringbuf option \<Rightarrow> u8 list option \<Rightarrow> int \<Rightarrow> int \<Rightarrow> (int \<times> ringbuf option) option" where
  "rb_init r buf sz block =
     (case (r, buf) of
        (Some q, Some b) \<Rightarrow>
          if sz < 2 then Some (-1, r)
          else if block = 0 then None
          else if sz mod block \<noteq> 0 then Some (-1, r)
          else Some (0, Some (q\<lparr>rb_arr := b, p_r := 0, p_w := 0, fill_cnt := 0,
                             rb_size := sz, block_size := block\<rparr>))
      | _ \<Rightarrow> Some (-1, r))"

text \<open>The copy loops of \<open>rb_put\<close> and \<open>rb_get\<close>, one byte per turn.\<close>

fun copy_in :: "nat \<Rightarrow> u8 list \<Rightarrow> nat \<Rightarrow> u8 list \<Rightarrow> (u8 list \<times> nat) option" where
  "copy_in 0 arr w data = Some (arr, w)"
| "copy_in (Suc n) arr w data =
     do { c \<leftarrow> get_at data 0; arr' \<leftarrow> set_at arr w c; copy_in n arr' (Suc w) (tl data) }"

fun copy_out :: "nat \<Rightarrow> u8 list \<Rightarrow> nat \<Rightarrow> (u8 list \<times> nat) option" where
  "copy_out 0 arr r = Some ([], r)"
| "copy_out (Suc n) arr r =
     do { c \<leftarrow> get_at arr r; (cs, r') \<leftarrow> copy_out n arr (Suc r); Some (c # cs, r') }"

definition rb_put :: "ringbuf \<Rightarrow> u8 list \<Rightarrow> (int \<times> ringbuf) option" where
  "rb_put r c =
     (if fill_cnt r \<ge> rb_size r then Some (-1, r)
      else do {
        (arr, w) \<leftarrow> copy_in (nat (block_size r)) (rb_arr r) (p_w r) c;
        Some (0, r\<lparr>fill_cnt := fill_cnt r + block_size r, rb_arr := arr,
                    p_w := (if int w \<ge> rb_size r then 0 else w)\<rparr>) })"

definition rb_get :: "ringbuf \<Rightarrow> (int \<times> u8 list option \<times> ringbuf) option" where
  "rb_get r =
     (if fill_cnt r \<le> 0 then Some (-1, None, r)
      else do {
        (cs, p) \<leftarrow> copy_out (nat (block_size r)) (rb_arr r) (p_r r);
        Some (0, Some cs, r\<lparr>fill_cnt := fill_cnt r - block_size r,
                             p_r := (if int p \<ge> rb_size r then 0 else p)\<rparr>) })"

definition rb_available :: "ringbuf \<Rightarrow> int" where
  "rb_available r = rb_size r - fill_cnt r"

text \<open>
  \<open>rb_write\<close> and \<open>rb_read\<close> move single bytes through \<open>rb_put\<close> and \<open>rb_get\<close> and poll while
  those refuse: the polling state is the returned rest (see \<open>put_loop\<close>, \<open>get_loop\<close>).
\<close>

definition rb_put1 :: "ringbuf \<Rightarrow> u8 \<Rightarrow> (int \<times> ringbuf) option" where
  "rb_put1 r c = rb_put r [c]"

definition rb_get1 :: "ringbuf \<Rightarrow> (int \<times> u8 option \<times> ringbuf) option" where
  "rb_get1 r =
     (case rb_get r of
        None \<Rightarrow> None
      | Some (rc, cs, r') \<Rightarrow>
          (case cs of
             None \<Rightarrow> Some (rc, None, r')
           | Some cs \<Rightarrow> (case cs of [c] \<Rightarrow> Some (rc, Some c, r') | _ \<Rightarrow> None)))"

definition rb_write :: "ringbuf \<Rightarrow> u8 list \<Rightarrow> (ringbuf \<times> u8 list) option" where
  "rb_write r buf = put_loop rb_put1 r buf"

definition rb_read :: "ringbuf \<Rightarrow> nat \<Rightarrow> (ringbuf \<times> u8 list \<times> nat) option" where
  "rb_read r len = get_loop rb_get1 r len"

subsection \<open>Abstraction and invariant\<close>

definition rb_contents :: "ringbuf \<Rightarrow> u8 list" where
  "rb_contents r = map (\<lambda>i. rb_arr r ! ((p_r r + i) mod nat (rb_size r))) [0..<nat (fill_cnt r)]"

definition rb_inv :: "ringbuf \<Rightarrow> bool" where
  "rb_inv r \<longleftrightarrow>
     0 < block_size r \<and> 0 < rb_size r \<and> rb_size r \<le> int (length (rb_arr r)) \<and>
     block_size r dvd rb_size r \<and> block_size r dvd int (p_r r) \<and> block_size r dvd fill_cnt r \<and>
     0 \<le> fill_cnt r \<and> fill_cnt r \<le> rb_size r \<and> int (p_r r) < rb_size r \<and>
     p_w r = (p_r r + nat (fill_cnt r)) mod nat (rb_size r)"

lemma copy_in_eq:
  "w + n \<le> length arr \<Longrightarrow> n \<le> length data \<Longrightarrow>
     copy_in n arr w data = Some (take w arr @ take n data @ drop (w + n) arr, w + n)"
proof (induction n arr w data rule: copy_in.induct)
  case (2 n arr w data)
  then obtain d ds where data: "data = d # ds" by (cases data) auto
  have w: "w < length arr" using 2 by simp
  have "copy_in n (arr[w := d]) (Suc w) ds =
      Some (take (Suc w) (arr[w := d]) @ take n ds @ drop (Suc w + n) (arr[w := d]), Suc w + n)"
    using "2.IH" [of d "arr[w := d]"] 2 data w by (simp add: mem_simps)
  with data w show ?case
    by (simp add: mem_simps take_Suc_update)
qed simp

lemma copy_out_eq:
  "r + n \<le> length arr \<Longrightarrow> copy_out n arr r = Some (take n (drop r arr), r + n)"
proof (induction n arr r rule: copy_out.induct)
  case (2 n arr r)
  then have "r < length arr" by simp
  then have "drop r arr = arr ! r # drop (Suc r) arr" by (simp add: Cons_nth_drop_Suc)
  with 2 show ?case by (simp add: mem_simps)
qed simp

lemma mod_add_inj:
  assumes "(p + i) mod N = (p + k) mod N" "i < N" "k < (N::nat)"
  shows "i = k"
proof -
  have "i mod N = k mod N"
    using assms(1) by (simp add: mod_eq_iff_dvd_symdiff_nat nat_mod_eq_iff)
  with assms(2,3) show ?thesis by simp
qed

lemma dvd_gap: "(b::nat) dvd x \<Longrightarrow> b dvd y \<Longrightarrow> x < y \<Longrightarrow> x + b \<le> y"
  by (auto simp: dvd_def) (metis add.commute less_mult_imp_div_less mult.commute mult_Suc_right mult_le_mono2 Suc_leI mult_less_cancel1)

text \<open>The invariant over natural numbers, as the proofs below use it.\<close>

lemma rb_invE:
  assumes "rb_inv r"
  obtains N b f where "rb_size r = int N" "block_size r = int b" "fill_cnt r = int f"
    "0 < b" "0 < N" "N \<le> length (rb_arr r)" "b dvd N" "b dvd p_r r" "b dvd f" "f \<le> N"
    "p_r r < N" "p_w r = (p_r r + f) mod N"
proof -
  have i: "rb_size r = int (nat (rb_size r))" "block_size r = int (nat (block_size r))"
    "fill_cnt r = int (nat (fill_cnt r))"
    using assms by (auto simp: rb_inv_def)
  show ?thesis
    using assms i by (intro that [OF i]) (auto simp: rb_inv_def nat_dvd_iff zle_int)
qed

lemma rb_contents_len: "length (rb_contents r) = nat (fill_cnt r)"
  by (simp add: rb_contents_def)

text \<open>Where the next block goes: inside the array, without wrapping, and off the filled slots.\<close>

lemma write_slot:
  assumes "0 < (b::nat)" "b dvd N" "b dvd p" "b dvd f" "f < N" "p < N"
  shows "(p + f) mod N + b \<le> N"
    and "\<And>j. j < b \<Longrightarrow> (p + (f + j)) mod N = (p + f) mod N + j"
    and "\<And>i. i < f \<Longrightarrow> \<not> ((p + f) mod N \<le> (p + i) mod N \<and> (p + i) mod N < (p + f) mod N + b)"
proof -
  let ?w = "(p + f) mod N"
  have "b dvd ?w" using assms by (simp add: dvd_mod)
  then show le: "?w + b \<le> N" using assms by (intro dvd_gap) auto
  show slot: "(p + (f + j)) mod N = ?w + j" if "j < b" for j
  proof -
    have "(p + (f + j)) mod N = (?w + j) mod N"
      by (metis add.assoc mod_add_left_eq)
    then show ?thesis using le that by simp
  qed
  have fb: "f + b \<le> N" using assms by (intro dvd_gap) auto
  show "\<not> (?w \<le> (p + i) mod N \<and> (p + i) mod N < ?w + b)" if "i < f" for i
  proof
    assume a: "?w \<le> (p + i) mod N \<and> (p + i) mod N < ?w + b"
    define j where "j = (p + i) mod N - ?w"
    have "j < b" "(p + i) mod N = ?w + j" using a by (auto simp: j_def)
    then have "(p + i) mod N = (p + (f + j)) mod N" using slot [of j] by simp
    moreover have "i < N" "f + j < N" using that fb \<open>j < b\<close> by auto
    ultimately have "i = f + j" by (rule mod_add_inj)
    with that show False by simp
  qed
qed

lemma step_wrap:
  assumes "(x + b \<le> N)" "0 < (b::nat)"
  shows "(if N \<le> x + b then 0 else x + b) = (x + b) mod N"
  using assms by (cases "x + b = N") auto

lemma rb_put_ok:
  assumes inv: "rb_inv r" and room: "fill_cnt r < rb_size r"
    and data: "nat (block_size r) \<le> length c"
  shows "\<exists>r'. rb_put r c = Some (0, r') \<and> rb_inv r' \<and> rb_size r' = rb_size r \<and>
    block_size r' = block_size r \<and>
    rb_contents r' = rb_contents r @ take (nat (block_size r)) c"
proof -
  obtain N b f where n: "rb_size r = int N" "block_size r = int b" "fill_cnt r = int f"
    and c0: "0 < b" "0 < N" "N \<le> length (rb_arr r)" "b dvd N" "b dvd p_r r" "b dvd f" "f \<le> N"
    "p_r r < N" "p_w r = (p_r r + f) mod N"
    using inv by (rule rb_invE)
  have fN: "f < N" using room n by simp
  note ws = write_slot [OF c0(1,4,5,6) fN c0(8), folded c0(9)]
  define arr where "arr = take (p_w r) (rb_arr r) @ take b c @ drop (p_w r + b) (rb_arr r)"
  define r' where "r' = r\<lparr>fill_cnt := fill_cnt r + block_size r, rb_arr := arr,
    p_w := (p_w r + b) mod N\<rparr>"
  have ci: "copy_in b (rb_arr r) (p_w r) c = Some (arr, p_w r + b)"
    unfolding arr_def using ws(1) c0 data n by (intro copy_in_eq) auto
  have put: "rb_put r c = Some (0, r')"
    using room n ci step_wrap [OF ws(1) c0(1)]
    by (simp add: rb_put_def r'_def split: if_splits)
  have len: "length arr = length (rb_arr r)"
    using ws(1) c0 data n by (simp add: arr_def)
  have fb: "f + b \<le> N" using c0 fN by (intro dvd_gap) auto
  have inv': "rb_inv r'"
    using c0 fb n len by (auto simp: rb_inv_def r'_def nat_add_distrib mod_simps add.assoc)
  have old: "arr ! ((p_r r + i) mod N) = rb_arr r ! ((p_r r + i) mod N)" if "i < f" for i
  proof -
    let ?k = "(p_r r + i) mod N"
    have "?k < N" using c0 by simp
    then show ?thesis
      using ws(3) [OF that] ws(1) c0 data n
      by (auto simp: arr_def nth_append not_le not_less min_def)
  qed
  have new: "arr ! ((p_r r + (f + j)) mod N) = c ! j" if "j < b" for j
    using ws(2) [OF that] ws(1) c0 data n that by (simp add: arr_def nth_append)
  have "rb_contents r' = rb_contents r @ take b c"
  proof (rule nth_equalityI)
    show "length (rb_contents r') = length (rb_contents r @ take b c)"
      using n data by (simp add: rb_contents_def r'_def nat_add_distrib)
    fix i assume "i < length (rb_contents r')"
    then have i: "i < f + b" using n by (simp add: rb_contents_len r'_def nat_add_distrib)
    show "rb_contents r' ! i = (rb_contents r @ take b c) ! i"
    proof (cases "i < f")
      case True
      then show ?thesis
        using old n i by (simp add: rb_contents_def r'_def nth_append nat_add_distrib)
    next
      case False
      then show ?thesis
        using new [of "i - f"] n i by (simp add: rb_contents_def r'_def nth_append nat_add_distrib)
    qed
  qed
  then show ?thesis using put inv' n by (auto simp: r'_def)
qed

lemma rb_put_full:
  assumes "rb_size r \<le> fill_cnt r"
  shows "rb_put r c = Some (-1, r)"
  using assms by (simp add: rb_put_def)

lemma rb_get_ok:
  assumes inv: "rb_inv r" and some: "0 < fill_cnt r"
  shows "\<exists>r' cs. rb_get r = Some (0, Some cs, r') \<and> rb_inv r' \<and> rb_size r' = rb_size r \<and>
    block_size r' = block_size r \<and> length cs = nat (block_size r) \<and>
    rb_contents r = cs @ rb_contents r'"
proof -
  obtain N b f where n: "rb_size r = int N" "block_size r = int b" "fill_cnt r = int f"
    and c0: "0 < b" "0 < N" "N \<le> length (rb_arr r)" "b dvd N" "b dvd p_r r" "b dvd f" "f \<le> N"
    "p_r r < N" "p_w r = (p_r r + f) mod N"
    using inv by (rule rb_invE)
  have f: "0 < f" using some n by simp
  have pb: "p_r r + b \<le> N" using c0 by (intro dvd_gap) auto
  have bf: "b \<le> f" using c0 f by (simp add: dvd_imp_le)
  define cs where "cs = take b (drop (p_r r) (rb_arr r))"
  define r' where "r' = r\<lparr>fill_cnt := fill_cnt r - block_size r, p_r := (p_r r + b) mod N\<rparr>"
  have co: "copy_out b (rb_arr r) (p_r r) = Some (cs, p_r r + b)"
    unfolding cs_def using pb c0 by (intro copy_out_eq) auto
  have get: "rb_get r = Some (0, Some cs, r')"
    using some n co step_wrap [OF pb c0(1)]
    by (simp add: rb_get_def r'_def split: if_splits)
  have fi: "nat (fill_cnt r') = f - b" using n bf by (simp add: r'_def nat_diff_distrib')
  have fi': "fill_cnt r' = int (f - b)" using n bf by (simp add: r'_def of_nat_diff)
  have pw: "((p_r r + b) mod N + (f - b)) mod N = (p_r r + f) mod N"
    using bf by (metis add.assoc le_add_diff_inverse mod_add_left_eq)
  have inv': "rb_inv r'"
    unfolding rb_inv_def fi fi'
    using c0 n bf pw by (auto simp: r'_def dvd_mod dvd_diff_nat of_nat_diff [symmetric] simp del: of_nat_diff)
  have len: "length cs = b" using pb c0 by (simp add: cs_def)
  have "rb_contents r = cs @ rb_contents r'"
  proof (rule nth_equalityI)
    show "length (rb_contents r) = length (cs @ rb_contents r')"
      using n bf fi len by (simp add: rb_contents_len)
    fix i assume "i < length (rb_contents r)"
    then have i: "i < f" using n by (simp add: rb_contents_len)
    show "rb_contents r ! i = (cs @ rb_contents r') ! i"
    proof (cases "i < b")
      case True
      then show ?thesis using n i pb c0 len by (simp add: rb_contents_def cs_def nth_append)
    next
      case False
      then have "((p_r r + b) mod N + (i - b)) mod N = (p_r r + i) mod N"
        by (metis add.assoc le_add_diff_inverse mod_add_left_eq not_less)
      then show ?thesis using False n i fi len
        by (simp add: rb_contents_def nth_append) (simp add: r'_def n)
    qed
  qed
  then show ?thesis using get inv' len n by (auto simp: r'_def)
qed

lemma rb_get_empty: "fill_cnt r \<le> 0 \<Longrightarrow> rb_get r = Some (-1, None, r)"
  by (simp add: rb_get_def)

subsection \<open>The interface the client relies on\<close>

text \<open>
  What a polling client needs of a byte queue: a capacity, the list of elements in it,
  and what \<open>put\<close> and \<open>get\<close> do when there is and when there is not room or data.
\<close>

locale bounded_fifo =
  fixes put :: "'q \<Rightarrow> 'e \<Rightarrow> (int \<times> 'q) option"
    and get :: "'q \<Rightarrow> (int \<times> 'e option \<times> 'q) option"
    and cont :: "'q \<Rightarrow> 'e list"
    and cap :: "'q \<Rightarrow> nat"
    and inv :: "'q \<Rightarrow> bool"
  assumes put_room: "inv q \<Longrightarrow> length (cont q) < cap q \<Longrightarrow>
      \<exists>q'. put q e = Some (0, q') \<and> inv q' \<and> cont q' = cont q @ [e] \<and> cap q' = cap q"
    and put_full: "inv q \<Longrightarrow> length (cont q) = cap q \<Longrightarrow> put q e = Some (-1, q)"
    and get_some: "inv q \<Longrightarrow> cont q = e # es \<Longrightarrow>
      \<exists>q'. get q = Some (0, Some e, q') \<and> inv q' \<and> cont q' = es \<and> cap q' = cap q"
    and get_none: "inv q \<Longrightarrow> cont q = [] \<Longrightarrow> get q = Some (-1, None, q)"
    and within_cap: "inv q \<Longrightarrow> length (cont q) \<le> cap q"
begin

text \<open>A write of any length: as much as fits is queued in order, and the rest is what is polled on.\<close>

lemma put_loop_cont:
  "inv q \<Longrightarrow> \<exists>q'. put_loop put q xs = Some (q', drop (cap q - length (cont q)) xs) \<and> inv q' \<and>
     cap q' = cap q \<and> cont q' = cont q @ take (cap q - length (cont q)) xs"
proof (induction xs arbitrary: q)
  case (Cons x xs)
  show ?case
  proof (cases "length (cont q) = cap q")
    case True
    then show ?thesis using Cons.prems put_full [of q x] by simp
  next
    case False
    with within_cap [OF Cons.prems] have lt: "length (cont q) < cap q" by simp
    obtain q1 where q1: "put q x = Some (0, q1)" "inv q1" "cont q1 = cont q @ [x]" "cap q1 = cap q"
      using put_room [OF Cons.prems lt] by blast
    obtain k where k: "cap q - length (cont q) = Suc k" "cap q - Suc (length (cont q)) = k"
      using lt by (metis Suc_diff_Suc)
    show ?thesis using Cons.IH [OF q1(2)] q1 k by auto
  qed
qed auto

lemma put_loop_all:
  assumes "inv q" "length (cont q) + length xs \<le> cap q"
  shows "\<exists>q'. put_loop put q xs = Some (q', []) \<and> inv q' \<and> cap q' = cap q \<and> cont q' = cont q @ xs"
  using put_loop_cont [OF assms(1), of xs] assms(2) by auto

text \<open>A read of \<open>n\<close> elements delivers the oldest ones and waits for those that are missing.\<close>

lemma get_loop_cont:
  "inv q \<Longrightarrow> \<exists>q'. get_loop get q n = Some (q', take n (cont q), n - length (cont q)) \<and> inv q' \<and>
     cap q' = cap q \<and> cont q' = drop n (cont q)"
proof (induction n arbitrary: q)
  case (Suc n)
  show ?case
  proof (cases "cont q")
    case Nil
    then show ?thesis using get_none [OF Suc.prems] Suc.prems by simp
  next
    case (Cons e es)
    obtain q1 where q1: "get q = Some (0, Some e, q1)" "inv q1" "cont q1 = es" "cap q1 = cap q"
      using get_some [OF Suc.prems Cons] by blast
    show ?thesis using Suc.IH [OF q1(2)] q1 Cons by auto
  qed
qed auto

text \<open>What is written is what is read, in order.\<close>

lemma write_read:
  assumes "inv q" "cont q = []" "length xs \<le> cap q"
  shows "\<exists>q' q''. put_loop put q xs = Some (q', []) \<and>
    get_loop get q' (length xs) = Some (q'', xs, 0) \<and> inv q'' \<and> cont q'' = []"
proof -
  obtain q' where q': "put_loop put q xs = Some (q', [])" "inv q'" "cont q' = xs"
    using put_loop_all [OF assms(1), of xs] assms by auto
  obtain q'' where "get_loop get q' (length xs) = Some (q'', xs, 0)" "inv q''" "cont q'' = []"
    using get_loop_cont [OF q'(2), of "length xs"] q'(3) by auto
  with q' show ?thesis by blast
qed

end

definition rb_inv1 :: "ringbuf \<Rightarrow> bool" where
  "rb_inv1 r \<longleftrightarrow> rb_inv r \<and> block_size r = 1"

interpretation rb: bounded_fifo rb_put1 rb_get1 rb_contents "\<lambda>r. nat (rb_size r)" rb_inv1
proof
  fix q e es
  assume i: "rb_inv1 q"
  then have inv: "rb_inv q" and b: "block_size q = 1" by (auto simp: rb_inv1_def)
  have fs: "0 \<le> fill_cnt q" "fill_cnt q \<le> rb_size q" using inv by (auto simp: rb_inv_def)
  show "length (rb_contents q) \<le> nat (rb_size q)" using fs by (simp add: rb_contents_len)
  show "\<exists>q'. rb_put1 q e = Some (0, q') \<and> rb_inv1 q' \<and> rb_contents q' = rb_contents q @ [e] \<and>
      nat (rb_size q') = nat (rb_size q)" if "length (rb_contents q) < nat (rb_size q)"
    using rb_put_ok [OF inv, of "[e]"] that b fs
    by (auto simp: rb_put1_def rb_inv1_def rb_contents_len)
  show "rb_put1 q e = Some (-1, q)" if "length (rb_contents q) = nat (rb_size q)"
    using rb_put_full [of q "[e]"] that fs by (simp add: rb_put1_def rb_contents_len)
  show "\<exists>q'. rb_get1 q = Some (0, Some e, q') \<and> rb_inv1 q' \<and> rb_contents q' = es \<and>
      nat (rb_size q') = nat (rb_size q)" if c: "rb_contents q = e # es"
  proof -
    have "0 < fill_cnt q" using c rb_contents_len [of q] by auto
    from rb_get_ok [OF inv this] obtain r' cs where
      r: "rb_get q = Some (0, Some cs, r')" "rb_inv r'" "rb_size r' = rb_size q"
      "block_size r' = block_size q" "length cs = nat (block_size q)" "rb_contents q = cs @ rb_contents r'"
      by blast
    then have "cs = [e]" using b c by (cases cs) auto
    then show ?thesis using r c b by (auto simp: rb_get1_def rb_inv1_def)
  qed
  show "rb_get1 q = Some (-1, None, q)" if c: "rb_contents q = []"
  proof -
    have "fill_cnt q \<le> 0" using rb_contents_len [of q] c by simp
    then show ?thesis by (simp add: rb_get1_def rb_get_empty)
  qed
qed

lemma rb_init_inv:
  assumes "rb_init (Some q) (Some b) sz 1 = Some (0, Some r)" "sz \<le> int (length b)"
  shows "rb_inv1 r \<and> rb_contents r = [] \<and> rb_size r = sz"
  using assms by (auto simp: rb_init_def rb_inv1_def rb_inv_def rb_contents_def split: if_splits)

subsection \<open>The buffer is a FIFO\<close>

text \<open>For blocks of any size, \<open>rb_put\<close> and \<open>rb_get\<close> are the operations of a bounded FIFO queue on the
  bytes of the buffer: a put appends a block or, when the buffer is full, refuses and changes nothing; a
  get removes the oldest block or, when it is empty, refuses and changes nothing; neither leaves the array.\<close>

theorem rb_block_fifo:
  assumes "rb_inv r" "length c = nat (block_size r)"
  shows "(if int (length (rb_contents r)) = rb_size r then rb_put r c = Some (-1, r)
      else \<exists>r'. rb_put r c = Some (0, r') \<and> rb_inv r' \<and> rb_contents r' = rb_contents r @ c) \<and>
    (if rb_contents r = [] then rb_get r = Some (-1, None, r)
      else \<exists>r' b. rb_get r = Some (0, Some b, r') \<and> rb_inv r' \<and> length b = nat (block_size r) \<and>
        rb_contents r = b @ rb_contents r')"
proof -
  have f: "0 \<le> fill_cnt r" "fill_cnt r \<le> rb_size r" using assms by (auto simp: rb_inv_def)
  have "rb_contents r = [] \<longleftrightarrow> fill_cnt r \<le> 0"
    using f by (metis length_0_conv nat_0_iff rb_contents_len)
  moreover have "int (length (rb_contents r)) = fill_cnt r" using f by (simp add: rb_contents_len)
  ultimately show ?thesis
    using rb_put_ok [of r c] rb_put_full [of r c] rb_get_ok [of r] rb_get_empty [of r] assms f
    by (cases "fill_cnt r = rb_size r"; cases "fill_cnt r \<le> 0") auto
qed

text \<open>A sequence of writes and reads, with what the writes got in and what the reads delivered.\<close>

datatype rb_op = WriteOp "u8 list" | ReadOp nat

fun rb_run :: "rb_op list \<Rightarrow> ringbuf \<Rightarrow> (ringbuf \<times> u8 list \<times> u8 list) option" where
  "rb_run [] r = Some (r, [], [])"
| "rb_run (WriteOp xs # ops) r = do {
     (r1, rest) \<leftarrow> rb_write r xs;
     (r2, w, d) \<leftarrow> rb_run ops r1;
     Some (r2, take (length xs - length rest) xs @ w, d) }"
| "rb_run (ReadOp n # ops) r = do {
     (r1, bs, missing) \<leftarrow> rb_read r n;
     (r2, w, d) \<leftarrow> rb_run ops r1;
     Some (r2, w, bs @ d) }"

text \<open>C20: whatever writes and reads follow each other, in whatever sizes, the bytes that come out are the bytes
  that went in, in order, with none lost or doubled: what was in the buffer and then written is what was
  read and then is in the buffer.\<close>

theorem rb_stream:
  assumes "rb_inv1 r"
  shows "\<exists>r' w d. rb_run ops r = Some (r', w, d) \<and> rb_inv1 r' \<and> rb_size r' = rb_size r \<and>
    rb_contents r @ w = d @ rb_contents r'"
  using assms
proof (induction ops arbitrary: r)
  case (Cons opn ops)
  have pos: "rb_inv1 q \<Longrightarrow> 0 < rb_size q" for q by (auto simp: rb_inv1_def rb_inv_def)
  show ?case
  proof (cases opn)
    case (WriteOp xs)
    let ?k = "nat (rb_size r) - length (rb_contents r)"
    obtain r1 where r1: "rb_write r xs = Some (r1, drop ?k xs)" "rb_inv1 r1"
      "nat (rb_size r1) = nat (rb_size r)" "rb_contents r1 = rb_contents r @ take ?k xs"
      using rb.put_loop_cont [OF Cons.prems, of xs] by (auto simp: rb_write_def)
    have sz: "rb_size r1 = rb_size r" using r1(2,3) pos Cons.prems by (metis eq_nat_nat_iff less_le)
    obtain r' w d where ih: "rb_run ops r1 = Some (r', w, d)" "rb_inv1 r'" "rb_size r' = rb_size r1"
      "rb_contents r1 @ w = d @ rb_contents r'" using Cons.IH [OF r1(2)] by blast
    have "take (length xs - length (drop ?k xs)) xs = take ?k xs" by (cases "?k \<le> length xs") auto
    then have "rb_run (opn # ops) r = Some (r', take ?k xs @ w, d)" using r1(1) ih(1) WriteOp by simp
    then show ?thesis using ih r1(4) sz by auto
  next
    case (ReadOp n)
    obtain r1 where r1: "rb_read r n = Some (r1, take n (rb_contents r), n - length (rb_contents r))" "rb_inv1 r1"
      "nat (rb_size r1) = nat (rb_size r)" "rb_contents r1 = drop n (rb_contents r)"
      using rb.get_loop_cont [OF Cons.prems, of n] by (auto simp: rb_read_def)
    have sz: "rb_size r1 = rb_size r" using r1(2,3) pos Cons.prems by (metis eq_nat_nat_iff less_le)
    obtain r' w d where ih: "rb_run ops r1 = Some (r', w, d)" "rb_inv1 r'" "rb_size r' = rb_size r1"
      "rb_contents r1 @ w = d @ rb_contents r'" using Cons.IH [OF r1(2)] by blast
    have "rb_contents r @ w = take n (rb_contents r) @ d @ rb_contents r'"
      using ih(4) r1(4) by (metis append_assoc append_take_drop_id)
    then show ?thesis using ih r1 sz ReadOp by auto
  qed
qed simp

definition sample_ring :: ringbuf where
  "sample_ring = \<lparr>rb_arr = [1, 2, 3, 4], p_r = 3, p_w = 1, fill_cnt = 2, rb_size = 4, block_size = 1\<rparr>"

lemma sample_ring_inv: "rb_inv1 sample_ring"
  by (simp add: sample_ring_def rb_inv1_def rb_inv_def)

lemma sample_ring_contents: "rb_contents sample_ring = [4, 1]"
  by code_simp

lemma rb_block_fifo_witness:
  "\<exists>r'. rb_put sample_ring [9] = Some (0, r') \<and> rb_contents r' = [4, 1, 9]"
proof -
  have "rb_inv sample_ring" "block_size sample_ring = 1" "rb_size sample_ring = 4"
    using sample_ring_inv by (auto simp: rb_inv1_def sample_ring_def)
  then show ?thesis
    using rb_block_fifo [of sample_ring "[9]"] by (auto simp: sample_ring_contents)
qed

lemma rb_stream_witness:
  "\<exists>r' w d. rb_run [WriteOp [7, 8, 9], ReadOp 3] sample_ring = Some (r', w, d) \<and> [4, 1] @ w = d @ rb_contents r'"
  using rb_stream [OF sample_ring_inv, of "[WriteOp [7, 8, 9], ReadOp 3]"]
  unfolding sample_ring_contents by blast

end
