(* ===== verification/Dhcp_Msg.thy ===== *)
theory Dhcp_Msg
  imports LN_Prelude
begin

section \<open>DHCP messages: layout, replies and option parsing (\<open>espconn/dhcpserver.c\<close>)\<close>

text \<open>
  \<open>struct dhcps_msg\<close> as a record and as the 548 bytes the C code copies in and out of packets;
  the functions that fill a reply (\<open>create_msg\<close>, \<open>add_msg_type\<close>, \<open>add_offer_options\<close>,
  \<open>add_end\<close>) and the option parser \<open>parse_options\<close>. A pointer into \<open>m->options\<close> is an
  index, and an access past the 312 option bytes is \<open>None\<close>.
\<close>

subsection \<open>Constants of \<open>dhcpserver.h\<close>\<close>

abbreviation (input) DHCP_REPLY :: u8 where "DHCP_REPLY \<equiv> 2"
abbreviation (input) DHCP_HTYPE_ETHERNET :: u8 where "DHCP_HTYPE_ETHERNET \<equiv> 1"

abbreviation (input) DHCPDISCOVER :: u8 where "DHCPDISCOVER \<equiv> 1"
abbreviation (input) DHCPOFFER :: u8 where "DHCPOFFER \<equiv> 2"
abbreviation (input) DHCPREQUEST :: u8 where "DHCPREQUEST \<equiv> 3"
abbreviation (input) DHCPDECLINE :: u8 where "DHCPDECLINE \<equiv> 4"
abbreviation (input) DHCPACK :: u8 where "DHCPACK \<equiv> 5"
abbreviation (input) DHCPNAK :: u8 where "DHCPNAK \<equiv> 6"
abbreviation (input) DHCPRELEASE :: u8 where "DHCPRELEASE \<equiv> 7"

abbreviation (input) DHCP_OPTION_SUBNET_MASK :: u8 where "DHCP_OPTION_SUBNET_MASK \<equiv> 1"
abbreviation (input) DHCP_OPTION_ROUTER :: u8 where "DHCP_OPTION_ROUTER \<equiv> 3"
abbreviation (input) DHCP_OPTION_DNS_SERVER :: u8 where "DHCP_OPTION_DNS_SERVER \<equiv> 6"
abbreviation (input) DHCP_OPTION_INTERFACE_MTU :: u8 where "DHCP_OPTION_INTERFACE_MTU \<equiv> 26"
abbreviation (input) DHCP_OPTION_BROADCAST_ADDRESS :: u8 where "DHCP_OPTION_BROADCAST_ADDRESS \<equiv> 28"
abbreviation (input) DHCP_OPTION_PERFORM_ROUTER_DISCOVERY :: u8
  where "DHCP_OPTION_PERFORM_ROUTER_DISCOVERY \<equiv> 31"
abbreviation (input) DHCP_OPTION_REQ_IPADDR :: u8 where "DHCP_OPTION_REQ_IPADDR \<equiv> 50"
abbreviation (input) DHCP_OPTION_LEASE_TIME :: u8 where "DHCP_OPTION_LEASE_TIME \<equiv> 51"
abbreviation (input) DHCP_OPTION_MSG_TYPE :: u8 where "DHCP_OPTION_MSG_TYPE \<equiv> 53"
abbreviation (input) DHCP_OPTION_SERVER_ID :: u8 where "DHCP_OPTION_SERVER_ID \<equiv> 54"
abbreviation (input) DHCP_OPTION_END :: u8 where "DHCP_OPTION_END \<equiv> 255"

text \<open>The values of \<open>struct dhcps_state.state\<close>.\<close>

abbreviation (input) DHCPS_STATE_OFFER :: int where "DHCPS_STATE_OFFER \<equiv> 1"
abbreviation (input) DHCPS_STATE_DECLINE :: int where "DHCPS_STATE_DECLINE \<equiv> 2"
abbreviation (input) DHCPS_STATE_ACK :: int where "DHCPS_STATE_ACK \<equiv> 3"
abbreviation (input) DHCPS_STATE_NAK :: int where "DHCPS_STATE_NAK \<equiv> 4"
abbreviation (input) DHCPS_STATE_IDLE :: int where "DHCPS_STATE_IDLE \<equiv> 5"
abbreviation (input) DHCPS_STATE_RELEASE :: int where "DHCPS_STATE_RELEASE \<equiv> 6"

subsection \<open>The message\<close>

record dhcps_msg =
  m_op :: u8
  m_htype :: u8
  m_hlen :: u8
  m_hops :: u8
  m_xid :: "u8 list"
  m_secs :: u16
  m_flags :: u16
  m_ciaddr :: "u8 list"
  m_yiaddr :: "u8 list"
  m_siaddr :: "u8 list"
  m_giaddr :: "u8 list"
  m_chaddr :: "u8 list"
  m_sname :: "u8 list"
  m_file :: "u8 list"
  m_options :: "u8 list"

text \<open>Field sizes of the struct; it has no padding, so it is 548 bytes long.\<close>

definition wf_msg :: "dhcps_msg \<Rightarrow> bool" where
  "wf_msg m \<longleftrightarrow>
     length (m_xid m) = 4 \<and> length (m_ciaddr m) = 4 \<and> length (m_yiaddr m) = 4 \<and>
     length (m_siaddr m) = 4 \<and> length (m_giaddr m) = 4 \<and> length (m_chaddr m) = 16 \<and>
     length (m_sname m) = 64 \<and> length (m_file m) = 128 \<and> length (m_options m) = 312"

abbreviation (input) sizeof_dhcps_msg :: nat where "sizeof_dhcps_msg \<equiv> 548"

text \<open>The cast \<open>(u8_t *) m\<close>: the bytes of the struct, 16-bit fields little-endian.\<close>

definition bytes_of_msg :: "dhcps_msg \<Rightarrow> u8 list" where
  "bytes_of_msg m =
     [m_op m, m_htype m, m_hlen m, m_hops m] @ m_xid m @
     [lo8 (m_secs m), hi8 (m_secs m), lo8 (m_flags m), hi8 (m_flags m)] @
     m_ciaddr m @ m_yiaddr m @ m_siaddr m @ m_giaddr m @ m_chaddr m @ m_sname m @ m_file m @
     m_options m"

definition msg_of_bytes :: "u8 list \<Rightarrow> dhcps_msg" where
  "msg_of_bytes b =
     \<lparr>m_op = b ! 0, m_htype = b ! 1, m_hlen = b ! 2, m_hops = b ! 3,
      m_xid = take 4 (drop 4 b),
      m_secs = be16 (b ! 9) (b ! 8), m_flags = be16 (b ! 11) (b ! 10),
      m_ciaddr = take 4 (drop 12 b), m_yiaddr = take 4 (drop 16 b),
      m_siaddr = take 4 (drop 20 b), m_giaddr = take 4 (drop 24 b),
      m_chaddr = take 16 (drop 28 b), m_sname = take 64 (drop 44 b),
      m_file = take 128 (drop 108 b), m_options = take 312 (drop 236 b)\<rparr>"

lemma length_bytes_of_msg: "wf_msg m \<Longrightarrow> length (bytes_of_msg m) = sizeof_dhcps_msg"
  by (simp add: bytes_of_msg_def wf_msg_def)

lemma wf_msg_of_bytes: "length b = sizeof_dhcps_msg \<Longrightarrow> wf_msg (msg_of_bytes b)"
  by (simp add: wf_msg_def msg_of_bytes_def)

lemma msg_of_bytes_of_msg: "wf_msg m \<Longrightarrow> msg_of_bytes (bytes_of_msg m) = m"
  by (simp add: msg_of_bytes_def bytes_of_msg_def wf_msg_def nth_append byte_simps)

subsection \<open>Filling a reply\<close>

text \<open>\<open>*optptr++ = c\<close> for a list of bytes, within the option array.\<close>

definition put_opts :: "u8 list \<Rightarrow> u8 list \<times> nat \<Rightarrow> (u8 list \<times> nat) option" where
  "put_opts bs p = (case p of (opts, i) \<Rightarrow>
     map_option (\<lambda>opts'. (opts', i + length bs)) (put_block opts i bs))"

definition add_msg_type :: "u8 list \<times> nat \<Rightarrow> u8 \<Rightarrow> (u8 list \<times> nat) option" where
  "add_msg_type p type = put_opts [DHCP_OPTION_MSG_TYPE, 1, type] p"

definition add_end :: "u8 list \<times> nat \<Rightarrow> (u8 list \<times> nat) option" where
  "add_end p = put_opts [DHCP_OPTION_END] p"

text \<open>
  \<open>((DHCPS_LEASE_TIMER * 60) >> k) & 0xFF\<close>: the lease time in seconds, big-endian, of a
  32-bit product that may wrap.
\<close>

definition lease_bytes :: "u32 \<Rightarrow> u8 list" where
  "lease_bytes t = rev (le_bytes (t * 60))"

text \<open>
  The options of an offer: the configuration built is the one without \<open>USE_CLASS_B_NET\<close> and
  with \<open>USE_DNS\<close>. \<open>ip4_addr1..4\<close> read the bytes of an address in memory order.
\<close>

abbreviation (input) OFFER_ROUTER :: u8 where "OFFER_ROUTER \<equiv> 1"

definition add_offer_options ::
    "u32 \<Rightarrow> u32 \<Rightarrow> u8 \<Rightarrow> u32 \<Rightarrow> u8 list \<times> nat \<Rightarrow> (u8 list \<times> nat) option" where
  "add_offer_options server lease_time offer gw p = do {
     p \<leftarrow> put_opts [DHCP_OPTION_SUBNET_MASK, 4, 255, 255, 255, 0] p;
     p \<leftarrow> put_opts ([DHCP_OPTION_LEASE_TIME, 4] @ lease_bytes lease_time) p;
     p \<leftarrow> put_opts ([DHCP_OPTION_SERVER_ID, 4] @ le_bytes server) p;
     p \<leftarrow> (if offer AND OFFER_ROUTER \<noteq> 0
          then put_opts ([DHCP_OPTION_ROUTER, 4] @ le_bytes gw) p else Some p);
     p \<leftarrow> put_opts ([DHCP_OPTION_DNS_SERVER, 4] @ le_bytes server) p;
     p \<leftarrow> put_opts ([DHCP_OPTION_BROADCAST_ADDRESS, 4] @ take 3 (le_bytes server) @ [255]) p;
     p \<leftarrow> put_opts [DHCP_OPTION_INTERFACE_MTU, 2, 0x02, 0x40] p;
     p \<leftarrow> put_opts [DHCP_OPTION_PERFORM_ROUTER_DISCOVERY, 1, 0] p;
     put_opts [43, 6, 0x01, 4, 0, 0, 0, 0x02] p }"

text \<open>\<open>magic_cookie = 0x63538263\<close>, stored little-endian: the bytes 99, 130, 83, 99.\<close>

definition magic_cookie :: u32 where
  "magic_cookie = 0x63538263"

definition create_msg :: "u32 \<Rightarrow> dhcps_msg \<Rightarrow> dhcps_msg" where
  "create_msg client m =
     m\<lparr>m_op := DHCP_REPLY, m_htype := DHCP_HTYPE_ETHERNET, m_hlen := 6, m_hops := 0,
       m_secs := 0, m_flags := 0x0080,
       m_yiaddr := le_bytes client, m_ciaddr := replicate 4 0, m_siaddr := replicate 4 0,
       m_giaddr := replicate 4 0, m_sname := replicate 64 0, m_file := replicate 128 0,
       m_options := le_bytes magic_cookie @ replicate 308 0\<rparr>"

lemma wf_create_msg: "wf_msg m \<Longrightarrow> wf_msg (create_msg client m)"
  by (simp add: wf_msg_def create_msg_def)

text \<open>
  The three replies: what is handed to \<open>udp_sendto\<close> is the bytes of the message, which the loop
  over the pbufs copies in full (\<open>pbuf_alloc\<close> was asked for \<open>sizeof(struct dhcps_msg)\<close>);
  \<open>pbuf\<close> says whether that allocation succeeds, and nothing is sent when it does not.
\<close>

definition send_pbuf :: "bool \<Rightarrow> dhcps_msg \<Rightarrow> u8 list list" where
  "send_pbuf pbuf m = (if pbuf then [bytes_of_msg m] else [])"

definition send_offer ::
    "u32 \<Rightarrow> u32 \<Rightarrow> u32 \<Rightarrow> u8 \<Rightarrow> u32 \<Rightarrow> bool \<Rightarrow> dhcps_msg \<Rightarrow> (dhcps_msg \<times> u8 list list) option" where
  "send_offer client server lease_time offer gw pbuf m = do {
     let m = create_msg client m;
     p \<leftarrow> add_msg_type (m_options m, 4) DHCPOFFER;
     p \<leftarrow> add_offer_options server lease_time offer gw p;
     p \<leftarrow> add_end p;
     let m = m\<lparr>m_options := fst p\<rparr>;
     Some (m, send_pbuf pbuf m) }"

definition send_nak :: "u32 \<Rightarrow> bool \<Rightarrow> dhcps_msg \<Rightarrow> (dhcps_msg \<times> u8 list list) option" where
  "send_nak client pbuf m = do {
     let m = create_msg client m;
     p \<leftarrow> add_msg_type (m_options m, 4) DHCPNAK;
     p \<leftarrow> add_end p;
     let m = m\<lparr>m_options := fst p\<rparr>;
     Some (m, send_pbuf pbuf m) }"

definition send_ack ::
    "u32 \<Rightarrow> u32 \<Rightarrow> u32 \<Rightarrow> u8 \<Rightarrow> u32 \<Rightarrow> bool \<Rightarrow> dhcps_msg \<Rightarrow> (dhcps_msg \<times> u8 list list) option" where
  "send_ack client server lease_time offer gw pbuf m = do {
     let m = create_msg client m;
     p \<leftarrow> add_msg_type (m_options m, 4) DHCPACK;
     p \<leftarrow> add_offer_options server lease_time offer gw p;
     p \<leftarrow> add_end p;
     let m = m\<lparr>m_options := fst p\<rparr>;
     Some (m, send_pbuf pbuf m) }"

subsection \<open>Parsing the options of a request\<close>

text \<open>
  The loop of \<open>parse_options\<close>: \<open>i\<close> is \<open>optptr\<close>, \<open>e\<close> is \<open>end\<close>, \<open>type\<close> the last message type seen
  and \<open>state\<close> the state of the reply so far. Every turn reads \<open>optptr[1]\<close> to move on, unless it saw the
  end option.
\<close>

function opt_loop :: "u8 list \<Rightarrow> u32 \<Rightarrow> nat \<Rightarrow> int \<Rightarrow> u8 \<Rightarrow> int \<Rightarrow> (u8 \<times> int) option" where
  "opt_loop opts client i e type state =
     (if int i < e then
        (case get_at opts i of
           None \<Rightarrow> None
         | Some c \<Rightarrow>
             if c = DHCP_OPTION_END then Some (type, state)
             else
               (case (if c = DHCP_OPTION_MSG_TYPE
                      then map_option (\<lambda>t. (t, state)) (get_at opts (i + 2))
                      else if c = DHCP_OPTION_REQ_IPADDR
                      then map_option (\<lambda>bs. (type, if le_bytes client = bs then DHCPS_STATE_ACK
                                                   else DHCPS_STATE_NAK))
                             (get_block opts (i + 2) 4)
                      else Some (type, state)) of
                  None \<Rightarrow> None
                | Some (type', state') \<Rightarrow>
                    (case get_at opts (i + 1) of
                       None \<Rightarrow> None
                     | Some l \<Rightarrow> opt_loop opts client (i + (unat l + 2)) e type' state')))
      else Some (type, state))"
  by pat_completeness auto
termination
  by (relation "measure (\<lambda>(_, _, i, e, _, _). nat (e - int i))") auto

declare opt_loop.simps [simp del]

definition reply_state :: "bool \<Rightarrow> u8 \<Rightarrow> int \<Rightarrow> int" where
  "reply_state renew type state =
     (if type = DHCPDISCOVER then DHCPS_STATE_OFFER
      else if type = DHCPREQUEST then
        (if \<not> (state = DHCPS_STATE_ACK \<or> state = DHCPS_STATE_NAK)
         then (if renew then DHCPS_STATE_ACK else DHCPS_STATE_NAK) else state)
      else if type = DHCPDECLINE then DHCPS_STATE_IDLE
      else if type = DHCPRELEASE then DHCPS_STATE_RELEASE
      else state)"

definition parse_options :: "u32 \<Rightarrow> bool \<Rightarrow> u8 list \<Rightarrow> int \<Rightarrow> int option" where
  "parse_options client renew opts len = do {
     (type, state) \<leftarrow> opt_loop opts client 4 (4 + len) 0 DHCPS_STATE_IDLE;
     Some (reply_state renew type state) }"

subsection \<open>Replies never leave the option array\<close>

lemma put_opts_append [mem_simps]:
  "length bs \<le> n \<Longrightarrow> i = length pre \<Longrightarrow>
     put_opts bs (pre @ replicate n 0, i) =
       Some ((pre @ bs) @ replicate (n - length bs) 0, length (pre @ bs))"
  by (simp add: put_opts_def put_block_def)

text \<open>What \<open>add_offer_options\<close> appends.\<close>

definition offer_options :: "u32 \<Rightarrow> u32 \<Rightarrow> u8 \<Rightarrow> u32 \<Rightarrow> u8 list" where
  "offer_options server lease_time offer gw =
     [1, 4, 255, 255, 255, 0] @ [51, 4] @ lease_bytes lease_time @ [54, 4] @ le_bytes server @
     (if offer AND 1 \<noteq> 0 then [3, 4] @ le_bytes gw else []) @
     [6, 4] @ le_bytes server @ [28, 4] @ take 3 (le_bytes server) @ [255] @
     [26, 2, 0x02, 0x40] @ [31, 1, 0] @ [43, 6, 0x01, 4, 0, 0, 0, 0x02]"

lemma length_lease_bytes [simp]: "length (lease_bytes t) = 4"
  by (simp add: lease_bytes_def)

lemma length_offer_options: "length (offer_options server t offer gw) \<le> 51"
  by (simp add: offer_options_def)

text \<open>Two writes in a row are one write of both.\<close>

lemma put_opts_bind: "put_opts a p \<bind> put_opts b = put_opts (a @ b) p"
  by (cases p) (auto simp: put_opts_def put_block_def min_def ac_simps)

lemma put_opts_bind2: "put_opts a p \<bind> (\<lambda>p. put_opts b p \<bind> f) = put_opts (a @ b) p \<bind> f"
  by (simp add: put_opts_bind [symmetric] bind_assoc)

lemma add_offer_options_eq:
  "add_offer_options server t offer gw p = put_opts (offer_options server t offer gw) p"
  by (cases "offer AND 1 = 0")
    (simp_all add: add_offer_options_def offer_options_def put_opts_bind put_opts_bind2)

lemma add_offer_options_append:
  assumes "51 \<le> n"
  shows "add_offer_options server t offer gw (pre @ replicate n 0, length pre) =
    Some ((pre @ offer_options server t offer gw) @
            replicate (n - length (offer_options server t offer gw)) 0,
          length (pre @ offer_options server t offer gw))"
  unfolding add_offer_options_eq
  by (rule put_opts_append) (use assms length_offer_options [of server t offer gw] in auto)

text \<open>A reply: header of \<open>create_msg\<close>, and the cookie, the options and zeros as option bytes.\<close>

definition reply_msg :: "u32 \<Rightarrow> u8 list \<Rightarrow> dhcps_msg \<Rightarrow> dhcps_msg" where
  "reply_msg client opts m =
     (create_msg client m)\<lparr>m_options := (le_bytes magic_cookie @ opts) @ replicate (308 - length opts) 0\<rparr>"

lemma wf_reply_msg: "wf_msg m \<Longrightarrow> length opts \<le> 308 \<Longrightarrow> wf_msg (reply_msg client opts m)"
  by (simp add: wf_msg_def create_msg_def reply_msg_def)

lemma put_opts_first:
  "length bs \<le> 308 \<Longrightarrow>
     put_opts bs (le_bytes magic_cookie @ replicate 308 0, 4) =
       Some ((le_bytes magic_cookie @ bs) @ replicate (308 - length bs) 0, 4 + length bs)"
  by (subst put_opts_append) auto

lemma send_nak_eq:
  "send_nak client pbuf m =
     Some (reply_msg client [53, 1, 6, 255] m, send_pbuf pbuf (reply_msg client [53, 1, 6, 255] m))"
  using put_opts_append [of "[255]" 305 7 "le_bytes magic_cookie @ [53, 1, 6]"]
  by (simp add: send_nak_def add_msg_type_def add_end_def create_msg_def put_opts_first
      reply_msg_def Let_def)

lemma offer_reply:
  "do { p \<leftarrow> add_msg_type (le_bytes magic_cookie @ replicate 308 0, 4) ty;
        p \<leftarrow> add_offer_options server t offer gw p;
        add_end p } =
   Some ((le_bytes magic_cookie @ [53, 1, ty] @ offer_options server t offer gw @ [255]) @
           replicate (304 - length (offer_options server t offer gw)) 0,
         8 + length (offer_options server t offer gw))"
proof -
  let ?pre = "le_bytes magic_cookie @ [53, 1, ty]"
  let ?off = "offer_options server t offer gw"
  have 1: "add_msg_type (le_bytes magic_cookie @ replicate 308 0, 4) ty =
      Some (?pre @ replicate 305 0, length ?pre)"
    by (simp add: add_msg_type_def put_opts_first)
  have 2: "add_offer_options server t offer gw (?pre @ replicate 305 0, length ?pre) =
      Some ((?pre @ ?off) @ replicate (305 - length ?off) 0, length (?pre @ ?off))"
    by (rule add_offer_options_append) simp
  have 3: "add_end ((?pre @ ?off) @ replicate (305 - length ?off) 0, length (?pre @ ?off)) =
      Some (((?pre @ ?off) @ [255]) @ replicate (305 - length ?off - length [255::u8]) 0,
        length ((?pre @ ?off) @ [255::u8]))"
    unfolding add_end_def
    by (rule put_opts_append) (use length_offer_options [of server t offer gw] in auto)
  show ?thesis by (simp only: 1 2 3 bind.bind_lunit) simp
qed

lemma send_offer_eq:
  fixes m client server t offer gw
  defines "r \<equiv> reply_msg client ([53, 1, 2] @ offer_options server t offer gw @ [255]) m"
  shows "send_offer client server t offer gw pbuf m = Some (r, send_pbuf pbuf r)"
proof -
  have o: "m_options (create_msg client m) = le_bytes magic_cookie @ replicate 308 0"
    by (simp add: create_msg_def)
  have "send_offer client server t offer gw pbuf m = do {
      p \<leftarrow> (do { p \<leftarrow> add_msg_type (le_bytes magic_cookie @ replicate 308 0, 4) DHCPOFFER;
                p \<leftarrow> add_offer_options server t offer gw p; add_end p });
      let r = (create_msg client m)\<lparr>m_options := fst p\<rparr>; Some (r, send_pbuf pbuf r) }"
    by (simp add: send_offer_def o Let_def)
  then show ?thesis
    by (simp add: offer_reply r_def reply_msg_def Let_def)
qed

lemma send_ack_eq:
  fixes m client server t offer gw
  defines "r \<equiv> reply_msg client ([53, 1, 5] @ offer_options server t offer gw @ [255]) m"
  shows "send_ack client server t offer gw pbuf m = Some (r, send_pbuf pbuf r)"
proof -
  have o: "m_options (create_msg client m) = le_bytes magic_cookie @ replicate 308 0"
    by (simp add: create_msg_def)
  have "send_ack client server t offer gw pbuf m = do {
      p \<leftarrow> (do { p \<leftarrow> add_msg_type (le_bytes magic_cookie @ replicate 308 0, 4) DHCPACK;
                p \<leftarrow> add_offer_options server t offer gw p; add_end p });
      let r = (create_msg client m)\<lparr>m_options := fst p\<rparr>; Some (r, send_pbuf pbuf r) }"
    by (simp add: send_ack_def o Let_def)
  then show ?thesis
    by (simp add: offer_reply r_def reply_msg_def Let_def)
qed

subsection \<open>What the option parser computes on well-formed options\<close>

text \<open>
  Options as a list of codes with their value, and their bytes. An option of the list is
  well-formed when it is not the end marker, its length fits its length byte, and the two options the
  server reads carry at least the bytes it reads.
\<close>

type_synonym tlv = "u8 \<times> u8 list"

fun enc_tlvs :: "tlv list \<Rightarrow> u8 list" where
  "enc_tlvs [] = []"
| "enc_tlvs ((c, v) # ts) = [c, of_nat (length v)] @ v @ enc_tlvs ts"

definition wf_tlv :: "tlv \<Rightarrow> bool" where
  "wf_tlv t \<longleftrightarrow> fst t \<noteq> DHCP_OPTION_END \<and> length (snd t) < 256 \<and>
     (fst t = DHCP_OPTION_MSG_TYPE \<longrightarrow> snd t \<noteq> []) \<and>
     (fst t = DHCP_OPTION_REQ_IPADDR \<longrightarrow> 4 \<le> length (snd t))"

text \<open>The specification: the last message type and the verdict on the last requested address.\<close>

fun scan_tlvs :: "u32 \<Rightarrow> tlv list \<Rightarrow> u8 \<times> int \<Rightarrow> u8 \<times> int" where
  "scan_tlvs client [] (type, state) = (type, state)"
| "scan_tlvs client ((c, v) # ts) (type, state) =
     scan_tlvs client ts
       (if c = DHCP_OPTION_MSG_TYPE then (hd v, state)
        else if c = DHCP_OPTION_REQ_IPADDR
        then (type, if le_bytes client = take 4 v then DHCPS_STATE_ACK else DHCPS_STATE_NAK)
        else (type, state))"

lemma length_enc_tlvs_Cons: "length (enc_tlvs ((c, v) # ts)) = length v + 2 + length (enc_tlvs ts)"
  by simp

lemma unat_of_nat_u8: "n < 256 \<Longrightarrow> unat (of_nat n :: u8) = n"
  by (simp add: unat_of_nat)

lemma opt_loop_tlvs:
  assumes "\<forall>t \<in> set ts. wf_tlv t" "int (length pre + length (enc_tlvs ts)) < e"
  shows "opt_loop (pre @ enc_tlvs ts @ [DHCP_OPTION_END] @ post) client (length pre) e type state =
    Some (scan_tlvs client ts (type, state))"
  using assms
proof (induction ts arbitrary: pre type state)
  case Nil
  then show ?case by (simp add: opt_loop.simps [where i = "length pre"] get_at_def)
next
  case (Cons t ts)
  obtain c v where t: "t = (c, v)" by (cases t)
  let ?opts = "pre @ enc_tlvs (t # ts) @ [DHCP_OPTION_END] @ post"
  let ?pre = "pre @ [c, of_nat (length v)] @ v"
  have wf: "wf_tlv t" and lt: "int (length pre) < e" using Cons.prems by (auto simp: t)
  have opts: "?opts = ?pre @ enc_tlvs ts @ [DHCP_OPTION_END] @ post" by (simp add: t)
  have IH: "opt_loop ?opts client (length ?pre) e ty st = Some (scan_tlvs client ts (ty, st))" for ty st
    unfolding opts using Cons.prems by (intro Cons.IH) (auto simp: t)
  have i2: "length pre + (unat (of_nat (length v) :: u8) + 2) = length ?pre"
    using wf by (simp add: wf_tlv_def t unat_of_nat_u8)
  have g0: "get_at ?opts (length pre) = Some c" "get_at ?opts (length pre + 1) = Some (of_nat (length v))"
    by (simp_all add: t get_at_def nth_append)
  have g2: "get_at ?opts (length pre + 2) = Some (hd v)" if "v \<noteq> []"
    using that by (cases v) (simp_all add: t get_at_def nth_append)
  have gb: "get_block ?opts (length pre + 2) 4 = Some (take 4 v)" if "4 \<le> length v"
    using that by (simp add: t get_block_def)
  show ?case
    using wf lt g0 g2 gb IH i2
    by (subst opt_loop.simps) (auto simp: wf_tlv_def t)
qed

lemma parse_options_tlvs:
  assumes "length pre = 4" "\<forall>t \<in> set ts. wf_tlv t" "int (length (enc_tlvs ts)) < len"
  shows "parse_options client renew (pre @ enc_tlvs ts @ [DHCP_OPTION_END] @ post) len =
    Some (case scan_tlvs client ts (0, DHCPS_STATE_IDLE) of (type, state) \<Rightarrow> reply_state renew type state)"
  using opt_loop_tlvs [OF assms(2), of pre "4 + len" post client 0 DHCPS_STATE_IDLE] assms
  by (simp add: parse_options_def split: prod.splits)

end
