(* ===== verification/Dhcp_Server.thy ===== *)
theory Dhcp_Server
  imports Dhcp_Msg
begin

section \<open>The DHCP server: address pool, leases and packet handler (\<open>espconn/dhcpserver.c\<close>)\<close>

text \<open>
  The static variables of the file as one record, the pool as the list of its nodes in chain
  order, and one definition per function. What comes from outside the file is the record
  \<open>dhcps_env\<close>: what \<open>malloc\<close> and \<open>pbuf_alloc\<close> return, the gateway of the access point, and
  \<open>wifi_softap_set_station_info\<close>. A node carries its address, because nodes are removed by
  pointer.
\<close>

subsection \<open>Data\<close>

record dhcps_pool =
  ip :: u32
  mac :: "u8 list"
  lease_timer :: u32

record list_node =
  node_addr :: nat
  pnode :: dhcps_pool

record dhcps_lease =
  enable :: bool
  start_ip :: u32
  end_ip :: u32

record dhcps =
  dhcps_pcb :: "nat option"
  server_address :: u32
  client_address :: u32
  client_address_plus :: u32
  lease :: dhcps_lease
  plist :: "list_node list"
  offer :: u8
  renew :: bool
  dhcps_lease_time :: u32

record dhcps_env =
  malloc_msg :: "u8 list option"
  malloc_pool :: bool
  malloc_node :: "nat option"
  pbuf_ok :: bool
  ap_gw :: u32
  set_station_info :: "u8 list \<Rightarrow> u32 \<Rightarrow> bool"

abbreviation (input) DHCPS_MAX_LEASE :: u32 where "DHCPS_MAX_LEASE \<equiv> 100"
abbreviation (input) MAX_STATION_NUM :: u8 where "MAX_STATION_NUM \<equiv> 8"
abbreviation (input) DHCPS_LEASE_TIME_DEF :: u32 where "DHCPS_LEASE_TIME_DEF \<equiv> 120"

abbreviation node_ip :: "list_node \<Rightarrow> u32" where "node_ip n \<equiv> ip (pnode n)"
abbreviation node_mac :: "list_node \<Rightarrow> u8 list" where "node_mac n \<equiv> mac (pnode n)"

text \<open>Static initialisation of the variables.\<close>

definition dhcps_0 :: dhcps where
  "dhcps_0 = \<lparr>dhcps_pcb = None, server_address = 0, client_address = 0, client_address_plus = 0,
     lease = \<lparr>enable = False, start_ip = 0, end_ip = 0\<rparr>, plist = [], offer = 0xFF,
     renew = False, dhcps_lease_time = DHCPS_LEASE_TIME_DEF\<rparr>"

subsection \<open>The list of nodes\<close>

fun insert_loop :: "list_node \<Rightarrow> list_node list \<Rightarrow> list_node list" where
  "insert_loop pinsert [] = [pinsert]"
| "insert_loop pinsert (q # qs) =
     (if node_ip pinsert < node_ip q then pinsert # q # qs else q # insert_loop pinsert qs)"

fun node_insert_to_list :: "list_node list \<Rightarrow> list_node \<Rightarrow> list_node list" where
  "node_insert_to_list [] pinsert = [pinsert]"
| "node_insert_to_list (p # ps) pinsert =
     (if node_ip pinsert < node_ip p then pinsert # p # ps else p # insert_loop pinsert ps)"

text \<open>
  The loop looks at \<open>plist->pnext\<close> and always advances: the node behind a removed one becomes
  \<open>plist\<close> without having been compared itself.
\<close>

fun remove_loop :: "list_node list \<Rightarrow> nat \<Rightarrow> list_node list" where
  "remove_loop [] pdelete = []"
| "remove_loop (q # qs) pdelete =
     (if node_addr q = pdelete
      then (case qs of [] \<Rightarrow> [] | r # rs \<Rightarrow> r # remove_loop rs pdelete)
      else q # remove_loop qs pdelete)"

fun node_remove_from_list_0 :: "list_node list \<Rightarrow> nat \<Rightarrow> list_node list" where
  "node_remove_from_list_0 [] pdelete = []"
| "node_remove_from_list_0 (p # ps) pdelete =
     (if node_addr p = pdelete then ps else p # remove_loop ps pdelete)"

subsection \<open>Handling a request\<close>

text \<open>\<open>addr_tmp = htonl(a); addr_tmp++; a = htonl(addr_tmp)\<close>: the next address.\<close>

definition next_ip :: "u32 \<Rightarrow> u32" where
  "next_ip a = htonl (htonl a + 1)"

text \<open>
  The search loop of \<open>parse_msg\<close>: a node of the same hardware address ends it (the \<open>goto\<close>), and
  until then \<open>client_address_plus\<close> steps over the addresses in use and \<open>first_address\<close> over the
  consecutive ones from the start.
\<close>

record scan =
  sc_plus :: u32
  sc_client :: u32
  sc_first :: u32
  sc_flag :: bool
  sc_renew :: bool
  sc_hit :: "list_node option"

definition scan_step :: "list_node \<Rightarrow> scan \<Rightarrow> scan" where
  "scan_step n sc =
     (let sc = (if node_ip n = sc_plus sc
                then sc\<lparr>sc_plus := next_ip (sc_plus sc), sc_client := next_ip (sc_plus sc)\<rparr> else sc)
      in if \<not> sc_flag sc
         then (if sc_first sc < node_ip n then sc\<lparr>sc_flag := True\<rparr>
               else sc\<lparr>sc_first := next_ip (sc_first sc)\<rparr>)
         else sc)"

fun pool_scan :: "u8 list \<Rightarrow> u8 list \<Rightarrow> u32 \<Rightarrow> list_node list \<Rightarrow> scan \<Rightarrow> list_node list \<times> scan" where
  "pool_scan chaddr ciaddr t [] sc = ([], sc)"
| "pool_scan chaddr ciaddr t (n # ns) sc =
     (if node_mac n = take 6 chaddr
      then (let n' = n\<lparr>pnode := (pnode n)\<lparr>lease_timer := t\<rparr>\<rparr>
            in (n' # ns,
                sc\<lparr>sc_renew := (le_bytes (node_ip n) = ciaddr), sc_client := node_ip n,
                   sc_hit := Some n'\<rparr>))
      else (case pool_scan chaddr ciaddr t ns (scan_step n sc) of
              (ns', sc') \<Rightarrow> (n # ns', sc')))"

text \<open>A client that is not in the pool: a new node, unless the addresses have run out.\<close>

definition pool_new ::
    "dhcps_env \<Rightarrow> u8 list \<Rightarrow> u32 \<Rightarrow> dhcps \<Rightarrow> (dhcps \<times> list_node option) option" where
  "pool_new env chaddr first s =
     (let s = (if end_ip (lease s) < client_address_plus s then s\<lparr>client_address := first\<rparr> else s)
      in if end_ip (lease s) < client_address s
         then Some (s\<lparr>client_address_plus := start_ip (lease s)\<rparr>, None)
         else if \<not> malloc_pool env then None
         else case malloc_node env of
           None \<Rightarrow> None
         | Some a \<Rightarrow>
             let n = \<lparr>node_addr = a,
                      pnode = \<lparr>ip = client_address s, mac = take 6 chaddr,
                               lease_timer = dhcps_lease_time s\<rparr>\<rparr>
             in Some (s\<lparr>plist := node_insert_to_list (plist s) n,
                        client_address_plus :=
                          (if client_address s = end_ip (lease s) then start_ip (lease s)
                           else next_ip (client_address s))\<rparr>,
                      Some n))"

definition remove_node :: "list_node option \<Rightarrow> dhcps \<Rightarrow> dhcps" where
  "remove_node pn s =
     (case pn of None \<Rightarrow> s
      | Some n \<Rightarrow> s\<lparr>plist := node_remove_from_list_0 (plist s) (node_addr n)\<rparr>)"

definition pool_check ::
    "dhcps_env \<Rightarrow> dhcps_msg \<Rightarrow> int \<Rightarrow> list_node option \<Rightarrow> dhcps \<Rightarrow> (dhcps \<times> int) option" where
  "pool_check env m len pn s =
     (if end_ip (lease s) < client_address s \<or> client_address s = 0
      then Some (remove_node pn s, 4)
      else do {
        ret \<leftarrow> parse_options (client_address s) (renew s) (m_options m) len;
        let s = (if ret = DHCPS_STATE_RELEASE then (remove_node pn s)\<lparr>client_address := 0\<rparr> else s);
        if \<not> set_station_info env (m_chaddr m) (client_address s) then Some (s, 0)
        else Some (s, ret) })"

text \<open>\<open>parse_msg\<close> up to the label \<open>POOL_CHECK\<close>, and as a whole.\<close>

definition pool_search :: "dhcps_env \<Rightarrow> dhcps_msg \<Rightarrow> dhcps \<Rightarrow> (dhcps \<times> list_node option) option" where
  "pool_search env m s =
     (let sc0 = \<lparr>sc_plus = client_address_plus s, sc_client = client_address_plus s,
                 sc_first = start_ip (lease s), sc_flag = False, sc_renew = False, sc_hit = None\<rparr>
      in case pool_scan (m_chaddr m) (m_ciaddr m) (dhcps_lease_time s) (plist s) sc0 of
           (ns, sc) \<Rightarrow>
             (let s = s\<lparr>plist := ns, client_address := sc_client sc,
                        client_address_plus := sc_plus sc, renew := sc_renew sc\<rparr>
              in case sc_hit sc of
                   Some n \<Rightarrow> Some (s, Some n)
                 | None \<Rightarrow> pool_new env (m_chaddr m) (sc_first sc) s))"

definition parse_msg :: "dhcps_env \<Rightarrow> dhcps_msg \<Rightarrow> u16 \<Rightarrow> dhcps \<Rightarrow> (dhcps \<times> int) option" where
  "parse_msg env m len s =
     (if take 4 (m_options m) = le_bytes magic_cookie then do {
        (s, pn) \<leftarrow> pool_search env m s;
        pool_check env m (sint len) pn s }
      else Some (s, 0))"

text \<open>
  \<open>handle_dhcp\<close> copies the first two pbufs of the packet over the allocated message (whose other
  bytes keep what was in memory) and answers by the result of \<open>parse_msg\<close>. The packet is the
  list of the payloads of its pbufs; the result is the new state and the datagrams sent.
\<close>

definition handle_dhcp ::
    "dhcps_env \<Rightarrow> u8 list list \<Rightarrow> dhcps \<Rightarrow> (dhcps \<times> u8 list list) option" where
  "handle_dhcp env p s =
     (if p = [] then Some (s, [])
      else case malloc_msg env of
        None \<Rightarrow> Some (s, [])
      | Some junk \<Rightarrow> do {
          mem \<leftarrow> put_block junk 0 (concat (take 2 p));
          let m = msg_of_bytes mem;
          let tlen = sint (of_nat (length (concat p)) :: u16);
          (s, ret) \<leftarrow> parse_msg env m (of_int (tlen - 240)) s;
          if ret = DHCPS_STATE_OFFER then do {
            (m, out) \<leftarrow> send_offer (client_address s) (server_address s) (dhcps_lease_time s)
                         (offer s) (ap_gw env) (pbuf_ok env) m;
            Some (s, out) }
          else if ret = DHCPS_STATE_ACK then do {
            (m, out) \<leftarrow> send_ack (client_address s) (server_address s) (dhcps_lease_time s)
                         (offer s) (ap_gw env) (pbuf_ok env) m;
            Some (s, out) }
          else if ret = DHCPS_STATE_NAK then do {
            (m, out) \<leftarrow> send_nak (client_address s) (pbuf_ok env) m;
            Some (s, out) }
          else Some (s, []) })"

subsection \<open>Address range, start and stop\<close>

definition wifi_softap_init_dhcps_lease :: "u32 \<Rightarrow> dhcps_lease \<Rightarrow> dhcps_lease" where
  "wifi_softap_init_dhcps_lease softap l =
     (let l = (if enable l then
                 (let softap_ip = htonl softap; st = htonl (start_ip l); en = htonl (end_ip l)
                  in if st \<le> softap_ip \<and> softap_ip \<le> en then l\<lparr>enable := False\<rparr>
                     else if drop_bit 8 st \<noteq> drop_bit 8 softap_ip \<or>
                             drop_bit 8 en \<noteq> drop_bit 8 softap_ip \<or> DHCPS_MAX_LEASE < en - st
                     then l\<lparr>enable := False\<rparr> else l)
               else l)
      in if \<not> enable l then
           (let local_ip = htonl softap AND 0xFF;
                softap_ip = htonl softap AND 0xFFFFFF00;
                local_ip = (if 0x80 \<le> local_ip then local_ip - DHCPS_MAX_LEASE else local_ip + 1)
            in \<lparr>enable = False, start_ip = htonl (softap_ip OR local_ip),
                end_ip = htonl (softap_ip OR (local_ip + DHCPS_MAX_LEASE - 1))\<rparr>)
         else l)"

text \<open>
  \<open>espconn_dhcps_start\<close>: \<open>udp_new\<close> is the handle of the new control block; a null \<open>info\<close> is
  reported and then dereferenced.
\<close>

definition espconn_dhcps_start :: "nat option \<Rightarrow> u32 option \<Rightarrow> dhcps \<Rightarrow> dhcps option" where
  "espconn_dhcps_start udp_new info s =
     (case info of
        None \<Rightarrow> None
      | Some a \<Rightarrow>
          let l = wifi_softap_init_dhcps_lease a (lease s)
          in Some (s\<lparr>dhcps_pcb := udp_new, server_address := a, lease := l,
                     client_address_plus := start_ip l\<rparr>))"

text \<open>The loop of \<open>espconn_dhcps_stop\<close> over the nodes, in the order of the chain.\<close>

fun stop_loop :: "nat list \<Rightarrow> list_node list \<Rightarrow> list_node list" where
  "stop_loop [] l = l"
| "stop_loop (a # as) l = stop_loop as (node_remove_from_list_0 l a)"

definition espconn_dhcps_stop :: "dhcps \<Rightarrow> dhcps" where
  "espconn_dhcps_stop s =
     s\<lparr>dhcps_pcb := None, plist := stop_loop (map node_addr (plist s)) (plist s)\<rparr>"

subsection \<open>Configuration\<close>

text \<open>
  \<open>opmode\<close> is what \<open>esp_wifi_get_mode\<close> leaves in the local variable and \<open>status\<close> what
  \<open>wifi_softap_dhcps_status\<close> returns. Both \<open>DHCP_STARTED\<close> and \<open>DHCP_STOPPED\<close> are 0xFF here.
\<close>

abbreviation (input) NULL_MODE :: u8 where "NULL_MODE \<equiv> 0xFF"
abbreviation (input) WIFI_MODE_STA :: u8 where "WIFI_MODE_STA \<equiv> 1"
abbreviation (input) DHCP_STARTED :: u8 where "DHCP_STARTED \<equiv> 0xFF"
abbreviation (input) DHCP_STOPPED :: u8 where "DHCP_STOPPED \<equiv> 0xFF"

definition wifi_softap_set_dhcps_lease ::
    "u8 \<Rightarrow> u8 \<Rightarrow> u32 \<Rightarrow> dhcps_lease option \<Rightarrow> dhcps \<Rightarrow> bool \<times> dhcps" where
  "wifi_softap_set_dhcps_lease opmode status ap_ip please s =
     (if opmode = WIFI_MODE_STA \<or> opmode = NULL_MODE then (False, s)
      else case please of
        None \<Rightarrow> (False, s)
      | Some l \<Rightarrow>
          if status = DHCP_STARTED then (False, s)
          else if enable l then
            (let softap_ip = htonl ap_ip; st = htonl (start_ip l); en = htonl (end_ip l)
             in if st \<le> softap_ip \<and> softap_ip \<le> en then (False, s)
                else if drop_bit 8 st \<noteq> drop_bit 8 softap_ip \<or>
                        drop_bit 8 en \<noteq> drop_bit 8 softap_ip then (False, s)
                else if DHCPS_MAX_LEASE < en - st then (False, s)
                else (True, s\<lparr>lease := \<lparr>enable = True, start_ip = start_ip l, end_ip = end_ip l\<rparr>\<rparr>))
          else (True, s\<lparr>lease := (lease s)\<lparr>enable := False\<rparr>\<rparr>))"

definition wifi_softap_get_dhcps_lease ::
    "u8 \<Rightarrow> u8 \<Rightarrow> dhcps_lease option \<Rightarrow> dhcps \<Rightarrow> bool \<times> dhcps_lease option" where
  "wifi_softap_get_dhcps_lease opmode status please s =
     (if opmode = WIFI_MODE_STA \<or> opmode = NULL_MODE then (False, please)
      else case please of
        None \<Rightarrow> (False, please)
      | Some l \<Rightarrow>
          if \<not> enable (lease s) \<and> status = DHCP_STOPPED then (False, please)
          else (True, Some (l\<lparr>start_ip := start_ip (lease s), end_ip := end_ip (lease s)\<rparr>)))"

text \<open>A null \<open>optarg\<close> is refused when the status is 0 and dereferenced otherwise.\<close>

definition wifi_softap_set_dhcps_offer_option ::
    "u8 \<Rightarrow> u8 \<Rightarrow> u8 option \<Rightarrow> dhcps \<Rightarrow> (bool \<times> dhcps) option" where
  "wifi_softap_set_dhcps_offer_option status level optarg s =
     (if optarg = None \<and> status = 0 then Some (False, s)
      else if level \<le> 0 \<or> 2 \<le> level then Some (False, s)
      else case optarg of None \<Rightarrow> None | Some b \<Rightarrow> Some (True, s\<lparr>offer := b AND 0x01\<rparr>))"

definition wifi_softap_set_dhcps_lease_time :: "u8 \<Rightarrow> u8 \<Rightarrow> u32 \<Rightarrow> dhcps \<Rightarrow> bool \<times> dhcps" where
  "wifi_softap_set_dhcps_lease_time opmode status minute s =
     (if opmode = WIFI_MODE_STA \<or> opmode = NULL_MODE then (False, s)
      else if status = DHCP_STARTED then (False, s)
      else if minute = 0 then (False, s)
      else (True, s\<lparr>dhcps_lease_time := minute\<rparr>))"

definition wifi_softap_reset_dhcps_lease_time :: "u8 \<Rightarrow> u8 \<Rightarrow> dhcps \<Rightarrow> bool \<times> dhcps" where
  "wifi_softap_reset_dhcps_lease_time opmode status s =
     (if opmode = WIFI_MODE_STA \<or> opmode = NULL_MODE then (False, s)
      else if status = DHCP_STARTED then (False, s)
      else (True, s\<lparr>dhcps_lease_time := DHCPS_LEASE_TIME_DEF\<rparr>))"

definition wifi_softap_get_dhcps_lease_time :: "dhcps \<Rightarrow> u32" where
  "wifi_softap_get_dhcps_lease_time s = dhcps_lease_time s"

subsection \<open>The coarse timer\<close>

text \<open>
  \<open>kill_oldest_dhcps_pool\<close> starts the search for the smallest timer at the second node: \<open>i\<close> is the
  position of \<open>p\<close>, \<open>minp\<close> that of the smallest so far. An empty list or a single node is a null
  pointer read.
\<close>

fun oldest_loop :: "list_node list \<Rightarrow> nat \<Rightarrow> u32 \<Rightarrow> nat \<Rightarrow> nat" where
  "oldest_loop [] i t minp = minp"
| "oldest_loop (p # ps) i t minp =
     (if lease_timer (pnode p) < t then oldest_loop ps (Suc i) (lease_timer (pnode p)) i
      else oldest_loop ps (Suc i) t minp)"

definition kill_oldest_dhcps_pool :: "list_node list \<Rightarrow> list_node list option" where
  "kill_oldest_dhcps_pool l =
     (case l of
        pre # p # ps \<Rightarrow>
          let minp = oldest_loop (p # ps) 1 (lease_timer (pnode p)) 1
          in Some (take minp l @ drop (Suc minp) l)
      | _ \<Rightarrow> None)"

definition set_timer :: "nat \<Rightarrow> u32 \<Rightarrow> list_node list \<Rightarrow> list_node list" where
  "set_timer a t l =
     map (\<lambda>n. if node_addr n = a then n\<lparr>pnode := (pnode n)\<lparr>lease_timer := t\<rparr>\<rparr> else n) l"

text \<open>The loop of \<open>dhcps_coarse_tmr\<close> over the nodes it started with.\<close>

fun tmr_loop :: "list_node list \<Rightarrow> list_node list \<Rightarrow> u8 \<Rightarrow> list_node list \<times> u8" where
  "tmr_loop [] l num = (l, num)"
| "tmr_loop (n # ns) l num =
     (let t = lease_timer (pnode n) - 1; l = set_timer (node_addr n) t l
      in if t = 0 then tmr_loop ns (node_remove_from_list_0 l (node_addr n)) num
         else tmr_loop ns l (num + 1))"

definition dhcps_coarse_tmr :: "dhcps \<Rightarrow> dhcps option" where
  "dhcps_coarse_tmr s =
     (case tmr_loop (plist s) (plist s) 0 of
        (l, num) \<Rightarrow>
          if MAX_STATION_NUM \<le> num
          then map_option (\<lambda>l. s\<lparr>plist := l\<rparr>) (kill_oldest_dhcps_pool l)
          else Some (s\<lparr>plist := l\<rparr>))"

end
