(* ===== verification/Dhcp_Addr.thy ===== *)
theory Dhcp_Addr
  imports Dhcp_Server
begin

section \<open>Addresses of one /24 network as host numbers\<close>

text \<open>
  The server compares addresses as they lie in memory: on a little-endian machine the last byte of a
  dotted address is the most significant one. Inside one /24 network that order is the order of the
  host numbers, and \<open>next_ip\<close> is the next host, up to host 255.
\<close>

definition host :: "u32 \<Rightarrow> nat" where
  "host a = unat a div 2 ^ 24"

definition net :: "u32 \<Rightarrow> nat" where
  "net a = unat a mod 2 ^ 24"

lemma host_net: "unat a = 2 ^ 24 * host a + net a"
  by (simp add: host_def net_def)

lemma host_less_256: "host a < 256"
  using unat_less_32 [of a] by (simp add: host_def div_less_iff_less_mult)

lemma addr_eqI: "net a = net b \<Longrightarrow> host a = host b \<Longrightarrow> a = b"
  by (metis host_net word_unat_eq_iff)

lemma addr_less_iff:
  assumes "net a = net b"
  shows "a < b \<longleftrightarrow> host a < host b"
proof -
  have "a < b \<longleftrightarrow> 2 ^ 24 * host a + net a < 2 ^ 24 * host b + net b"
    by (simp only: word_less_nat_alt host_net)
  then show ?thesis using assms by simp
qed

lemma next_ip_add: "unat a < 255 * 2 ^ 24 \<Longrightarrow> next_ip a = a + 2 ^ 24"
proof -
  assume a: "unat a < 255 * 2 ^ 24"
  have u: "unat (a + 2 ^ 24) = unat a + 2 ^ 24"
    using a by (simp add: unat_word_ariths)
  have "htonl (a + 2 ^ 24) = htonl a + 1"
  proof (rule word_unat_eq_iff [THEN iffD2])
    have d: "(unat a + 2 ^ 24) mod 2 ^ 8 = unat a mod 2 ^ 8"
      using mod_mult_self2 [of "unat a" "2 ^ 8" "2 ^ 16"] by simp
    have d1: "(unat a + 2 ^ 24) div 2 ^ 8 mod 2 ^ 8 = unat a div 2 ^ 8 mod 2 ^ 8"
      using div_mult_self2 [of "2 ^ 8" "unat a" "2 ^ 16"] mod_mult_self2 [of "unat a div 2 ^ 8" "2 ^ 8" "2 ^ 8"]
      by (simp add: add.commute)
    have d2: "(unat a + 2 ^ 24) div 2 ^ 16 mod 2 ^ 8 = unat a div 2 ^ 16 mod 2 ^ 8"
      using div_mult_self2 [of "2 ^ 16" "unat a" "2 ^ 8"] mod_mult_self2 [of "unat a div 2 ^ 16" "2 ^ 8" 1]
      by (simp add: add.commute)
    have d3: "(unat a + 2 ^ 24) div 2 ^ 24 = unat a div 2 ^ 24 + 1" by simp
    have e: "unat (htonl (a + 2 ^ 24)) = unat (htonl a) + 1"
      unfolding unat_htonl u d d1 d2 d3 by simp
    then show "unat (htonl (a + 2 ^ 24)) = unat (htonl a + 1)"
      using unat_less_32 [of "htonl (a + 2 ^ 24)"] by (simp add: unat_word_ariths)
  qed
  then show ?thesis by (metis next_ip_def htonl_htonl)
qed

lemma next_ip_host: "host a < 255 \<Longrightarrow> host (next_ip a) = Suc (host a)"
  and next_ip_net: "host a < 255 \<Longrightarrow> net (next_ip a) = net a"
proof -
  assume "host a < 255"
  then have lt: "unat a < 255 * 2 ^ 24" by (simp add: host_def div_less_iff_less_mult)
  then have u: "unat (next_ip a) = unat a + 2 ^ 24"
    by (simp add: next_ip_add unat_word_ariths)
  show "host (next_ip a) = Suc (host a)" unfolding host_def u by simp
  show "net (next_ip a) = net a" unfolding net_def u by simp
qed

lemma addr_le_iff: "net a = net b \<Longrightarrow> a \<le> b \<longleftrightarrow> host a \<le> host b"
  using addr_less_iff [of b a] by (auto simp: not_less [symmetric])

lemma addr_eq_iff: "net a = net b \<Longrightarrow> a = b \<longleftrightarrow> host a = host b"
  by (auto intro: addr_eqI)

text \<open>In the byte order of the wire: the first three bytes are the network, the last is the host.\<close>

definition rev24 :: "nat \<Rightarrow> nat" where
  "rev24 n = 2 ^ 16 * (n mod 2 ^ 8) + 2 ^ 8 * (n div 2 ^ 8 mod 2 ^ 8) + n div 2 ^ 16"

lemma rev24_digits:
  assumes "n < 2 ^ 24"
  shows "rev24 n mod 2 ^ 8 = n div 2 ^ 16" "rev24 n div 2 ^ 8 mod 2 ^ 8 = n div 2 ^ 8 mod 2 ^ 8"
    "rev24 n div 2 ^ 16 = n mod 2 ^ 8"
proof -
  define x y z where xyz: "x = n mod 2 ^ 8" "y = n div 2 ^ 8 mod 2 ^ 8" "z = n div 2 ^ 16"
  have z: "z < 256" using assms by (simp add: xyz div_less_iff_less_mult)
  have r: "rev24 n = (x * 256 + y) * 256 + z" by (simp add: rev24_def xyz)
  have y: "y < 256" by (simp add: xyz)
  have 1: "rev24 n mod 256 = z" "rev24 n div 256 = x * 256 + y"
    unfolding r using z mod_mult_self3 [of "x * 256 + y" 256 z] div_mult_self3 [of 256 "x * 256 + y" z]
    by simp_all
  have "rev24 n div 2 ^ 16 = rev24 n div 256 div 256" by (simp add: div_mult2_eq [symmetric])
  with 1 y show "rev24 n mod 2 ^ 8 = n div 2 ^ 16"
    "rev24 n div 2 ^ 8 mod 2 ^ 8 = n div 2 ^ 8 mod 2 ^ 8" "rev24 n div 2 ^ 16 = n mod 2 ^ 8"
    by (simp_all add: xyz)
qed

lemma rev24_inj:
  assumes "m < 2 ^ 24" "n < 2 ^ 24" "rev24 m = rev24 n"
  shows "m = n"
proof -
  have d: "k = (k div 2 ^ 16) * 2 ^ 16 + (k div 2 ^ 8 mod 2 ^ 8) * 2 ^ 8 + k mod 2 ^ 8" for k :: nat
  proof -
    have "k div 65536 = k div 256 div 256" by (simp add: div_mult2_eq [symmetric])
    then have "k = (k div 65536) * 65536 + (k div 256 mod 256) * 256 + k mod 256"
      using div_mult_mod_eq [of k 256] div_mult_mod_eq [of "k div 256" 256] by linarith
    then show ?thesis by simp
  qed
  show ?thesis using rev24_digits [OF assms(1)] rev24_digits [OF assms(2)] assms(3) d [of m] d [of n] by metis
qed

lemma net_less: "net a < 2 ^ 24"
  by (simp add: net_def)

lemma unat_htonl_host: "unat (htonl a) = 256 * rev24 (net a) + host a"
proof -
  have n: "unat a = net a + 2 ^ 24 * host a" using host_net [of a] by simp
  have 0: "unat a mod 2 ^ 8 = net a mod 2 ^ 8"
    unfolding n using mod_mult_self2 [of "net a" "2 ^ 8" "2 ^ 16 * host a"] by (simp add: mult.assoc [symmetric])
  have 1: "unat a div 2 ^ 8 mod 2 ^ 8 = net a div 2 ^ 8 mod 2 ^ 8"
  proof -
    have "unat a div 2 ^ 8 = net a div 2 ^ 8 + 2 ^ 8 * (2 ^ 8 * host a)"
      unfolding n using div_mult_self2 [of "2 ^ 8" "net a" "2 ^ 16 * host a"]
      by (simp add: mult.assoc [symmetric])
    then show ?thesis by (simp only: mod_mult_self2)
  qed
  have 2: "unat a div 2 ^ 16 mod 2 ^ 8 = net a div 2 ^ 16"
  proof -
    have "unat a div 2 ^ 16 = net a div 2 ^ 16 + 2 ^ 8 * host a"
      unfolding n using div_mult_self2 [of "2 ^ 16" "net a" "2 ^ 8 * host a"]
      by (simp add: mult.assoc [symmetric])
    moreover have "net a div 2 ^ 16 < 2 ^ 8"
      using net_less [of a] by (simp add: div_less_iff_less_mult)
    ultimately show ?thesis by simp
  qed
  show ?thesis unfolding unat_htonl 0 1 2 by (simp add: rev24_def host_def)
qed

lemma htonl_le_iff: "net a = net b \<Longrightarrow> htonl a \<le> htonl b \<longleftrightarrow> host a \<le> host b"
  by (simp add: word_le_nat_alt unat_htonl_host)

lemma htonl_segment: "drop_bit 8 (htonl a) = drop_bit 8 (htonl b) \<longleftrightarrow> net a = net b"
proof -
  have u: "unat (drop_bit 8 (htonl c)) = rev24 (net c)" for c
    using host_less_256 [of c] by (simp add: unat_drop_bit unat_htonl_host)
  show ?thesis
    using u [of a] u [of b] rev24_inj [OF net_less net_less, of a b] by (metis word_unat_eq_iff)
qed

lemma htonl_diff: "net a = net b \<Longrightarrow> host a \<le> host b \<Longrightarrow> unat (htonl b - htonl a) = host b - host a"
  by (simp add: unat_sub_if' word_le_nat_alt unat_htonl_host)

text \<open>Replacing the host part of an address.\<close>

definition mk_addr :: "nat \<Rightarrow> nat \<Rightarrow> u32" where
  "mk_addr N h = of_nat (2 ^ 24 * h + N)"

lemma mk_addr:
  assumes "N < 2 ^ 24" "h < 256"
  shows "host (mk_addr N h) = h" "net (mk_addr N h) = N"
proof -
  have "h \<le> 255" using assms by simp
  then have "2 ^ 24 * h \<le> 2 ^ 24 * 255" by (rule mult_le_mono2)
  then have "2 ^ 24 * h + N < 2 ^ 32" using assms by simp
  then have u: "unat (mk_addr N h) = 2 ^ 24 * h + N"
    unfolding mk_addr_def unsigned_of_nat of_nat_id by (intro take_bit_nat_eq_self) simp
  show "host (mk_addr N h) = h" "net (mk_addr N h) = N"
    using assms by (simp_all add: host_def net_def u)
qed

lemma and_high_24: "(w :: u32) AND 0xFFFFFF00 = push_bit 8 (drop_bit 8 w)"
proof -
  have m: "(0xFFFFFF00 :: u32) = NOT (mask 8)" by (simp add: mask_eq_exp_minus_1)
  show ?thesis unfolding m by (rule bit_word_eqI) (auto simp: bit_simps)
qed

lemma htonl_host_part:
  assumes "unat x < 256"
  shows "host (htonl ((htonl a AND 0xFFFFFF00) OR x)) = unat x"
    and "net (htonl ((htonl a AND 0xFFFFFF00) OR x)) = net a"
proof -
  let ?b = "mk_addr (net a) (unat x)"
  have b: "host ?b = unat x" "net ?b = net a" using mk_addr [OF net_less assms] by auto
  have "take_bit 8 x = x"
  proof (rule word_unat_eq_iff [THEN iffD2])
    show "unat (take_bit 8 x) = unat x"
      unfolding unsigned_take_bit_eq using assms by (simp add: take_bit_eq_mod)
  qed
  then have "\<not> bit x n" if "8 \<le> n" for n
    using that by (metis bit_take_bit_iff not_less)
  then have disj: "(htonl a AND 0xFFFFFF00) AND x = 0"
    unfolding and_high_24 by (intro bit_word_eqI) (auto simp: bit_simps)
  have hi: "unat (htonl a AND 0xFFFFFF00) = 256 * rev24 (net a)"
  proof -
    have d: "unat (drop_bit 8 (htonl a)) = rev24 (net a)"
      using host_less_256 [of a] by (simp add: unat_drop_bit unat_htonl_host)
    have "rev24 (net a) < 2 ^ 24" using unat_less_32 [of "htonl a"] by (simp add: unat_htonl_host)
    then show ?thesis
      unfolding and_high_24 unsigned_push_bit_eq d by (simp add: push_bit_eq_mult take_bit_eq_mod)
  qed
  have "(htonl a AND 0xFFFFFF00) OR x = htonl ?b"
    by (rule word_unat_eq_iff [THEN iffD2]) (simp only: unat_or_disjoint [OF disj] hi unat_htonl_host b)
  then show "host (htonl ((htonl a AND 0xFFFFFF00) OR x)) = unat x"
    and "net (htonl ((htonl a AND 0xFFFFFF00) OR x)) = net a"
    by (simp_all add: htonl_htonl b)
qed

lemma htonl_low: "unat (htonl a AND 0xFF) = host a"
proof -
  have m: "(0xFF :: u32) = mask 8" by (simp add: mask_eq_exp_minus_1)
  have "unat (take_bit 8 (htonl a)) = unat (htonl a) mod 2 ^ 8"
    unfolding unsigned_take_bit_eq by (simp only: take_bit_eq_mod)
  also have "\<dots> = host a" using host_less_256 [of a] by (simp add: unat_htonl_host)
  finally show ?thesis unfolding m by (simp only: take_bit_eq_mask)
qed

subsection \<open>The range the server chooses\<close>

text \<open>
  Whatever was configured, the range lies in the network of the access point and does not hold its
  address; it has at most 101 addresses.
\<close>

lemma init_lease:
  assumes "l' = wifi_softap_init_dhcps_lease a l"
  shows "net (start_ip l') = net a" "net (end_ip l') = net a" "host (start_ip l') \<le> host (end_ip l')"
    "host (end_ip l') - host (start_ip l') \<le> 100"
    "host a < host (start_ip l') \<or> host (end_ip l') < host a"
    "\<not> enable l' \<Longrightarrow> 0 < host (start_ip l') \<and> host (end_ip l') < 255"
    "enable l' \<Longrightarrow> l' = l"
proof -
  let ?good = "enable l \<and> \<not> (htonl (start_ip l) \<le> htonl a \<and> htonl a \<le> htonl (end_ip l)) \<and>
    net (start_ip l) = net a \<and> net (end_ip l) = net a \<and> htonl (end_ip l) - htonl (start_ip l) \<le> DHCPS_MAX_LEASE"
  have *: "net (start_ip l') = net a \<and> net (end_ip l') = net a \<and> host (start_ip l') \<le> host (end_ip l') \<and>
    host (end_ip l') - host (start_ip l') \<le> 100 \<and>
    (host a < host (start_ip l') \<or> host (end_ip l') < host a) \<and>
    (\<not> enable l' \<longrightarrow> 0 < host (start_ip l') \<and> host (end_ip l') < 255) \<and> (enable l' \<longrightarrow> l' = l)"
  proof (cases ?good)
    case True
    then have l': "l' = l" using assms
      by (auto simp: wifi_softap_init_dhcps_lease_def Let_def htonl_segment not_less)
    have nets: "net (start_ip l) = net a" "net (end_ip l) = net a" using True by auto
    have out: "\<not> (host (start_ip l) \<le> host a \<and> host a \<le> host (end_ip l))"
      using True nets by (simp add: htonl_le_iff)
    have se: "host (start_ip l) \<le> host (end_ip l)"
    proof (rule ccontr)
      assume "\<not> ?thesis"
      then have lt: "host (end_ip l) < host (start_ip l)" by simp
      have "unat (htonl (end_ip l) - htonl (start_ip l)) =
          2 ^ 32 + unat (htonl (end_ip l)) - unat (htonl (start_ip l))"
        using lt nets by (subst unat_sub_if') (simp add: unat_htonl_host)
      also have "\<dots> \<ge> 2 ^ 32 - 256"
        using nets host_less_256 [of "start_ip l"] by (simp add: unat_htonl_host)
      finally have "2 ^ 32 - 256 \<le> unat (htonl (end_ip l) - htonl (start_ip l))" .
      moreover have "unat (htonl (end_ip l) - htonl (start_ip l)) \<le> unat DHCPS_MAX_LEASE"
        using True by (simp only: word_le_nat_alt)
      ultimately show False by simp
    qed
    have "unat (htonl (end_ip l) - htonl (start_ip l)) \<le> unat DHCPS_MAX_LEASE"
      using True by (simp only: word_le_nat_alt)
    then have "host (end_ip l) - host (start_ip l) \<le> 100"
      using nets se by (simp add: htonl_diff)
    then show ?thesis using True out se l' nets by auto
  next
    case False
    define lo :: u32 where "lo = (if 0x80 \<le> htonl a AND 0xFF then (htonl a AND 0xFF) - 100
      else (htonl a AND 0xFF) + 1)"
    have l': "l' = \<lparr>enable = False, start_ip = htonl ((htonl a AND 0xFFFFFF00) OR lo),
        end_ip = htonl ((htonl a AND 0xFFFFFF00) OR (lo + 100 - 1))\<rparr>"
      using False assms
      by (auto simp: wifi_softap_init_dhcps_lease_def Let_def htonl_segment not_less lo_def)
    have h: "unat (htonl a AND 0xFF) = host a" "host a < 256" by (rule htonl_low, rule host_less_256)
    have c: "0x80 \<le> htonl a AND 0xFF \<longleftrightarrow> 128 \<le> host a"
      unfolding word_le_nat_alt h by simp
    have ulo: "unat lo = (if 128 \<le> host a then host a - 100 else host a + 1)"
      using h c by (auto simp: lo_def unat_sub_if' unat_word_ariths word_le_nat_alt)
    have uhi: "unat (lo + 100 - 1) = unat lo + 99"
    proof -
      have "lo + 100 - 1 = lo + 99" by simp
      then show ?thesis using ulo h by (simp add: unat_word_ariths)
    qed
    have "unat lo < 256" "unat (lo + 100 - 1) < 256" using ulo uhi h by (auto split: if_splits)
    then show ?thesis
      unfolding l' using htonl_host_part [of lo a] htonl_host_part [of "lo + 100 - 1" a] ulo uhi h
      by (auto split: if_splits)
  qed
  then show "net (start_ip l') = net a" "net (end_ip l') = net a" "host (start_ip l') \<le> host (end_ip l')"
    "host (end_ip l') - host (start_ip l') \<le> 100"
    "host a < host (start_ip l') \<or> host (end_ip l') < host a"
    "\<not> enable l' \<Longrightarrow> 0 < host (start_ip l') \<and> host (end_ip l') < 255"
    "enable l' \<Longrightarrow> l' = l" by blast+
qed

subsection \<open>The search over the pool\<close>

abbreviation nhost :: "list_node \<Rightarrow> nat" where "nhost n \<equiv> host (node_ip n)"

text \<open>The nodes of one network, in ascending order of host, none above host 254.\<close>

definition in_net :: "nat \<Rightarrow> list_node list \<Rightarrow> bool" where
  "in_net N ns \<longleftrightarrow> (\<forall>n \<in> set ns. net (node_ip n) = N \<and> nhost n < 255) \<and>
     sorted_wrt (\<lambda>m n. nhost m < nhost n) ns"

lemma in_net_Cons [simp]:
  "in_net N (n # ns) \<longleftrightarrow> net (node_ip n) = N \<and> nhost n < 255 \<and>
     (\<forall>m \<in> set ns. nhost n < nhost m) \<and> in_net N ns"
  by (auto simp: in_net_def)

lemma in_net_Nil [simp]: "in_net N []"
  by (simp add: in_net_def)

lemma in_net_append: "in_net N (xs @ ys) \<longleftrightarrow> in_net N xs \<and> in_net N ys \<and>
    (\<forall>x \<in> set xs. \<forall>y \<in> set ys. nhost x < nhost y)"
  by (auto simp: in_net_def sorted_wrt_append)

lemma scan_step_client: "sc_client sc = sc_plus sc \<Longrightarrow> sc_client (scan_step n sc) = sc_plus (scan_step n sc)"
  by (simp add: scan_step_def Let_def)

lemma scan_step_rest [simp]:
  "sc_hit (scan_step n sc) = sc_hit sc" "sc_renew (scan_step n sc) = sc_renew sc"
  by (simp_all add: scan_step_def Let_def)

lemma fold_scan_client: "sc_client sc = sc_plus sc \<Longrightarrow>
    sc_client (fold scan_step ns sc) = sc_plus (fold scan_step ns sc)"
  by (induction ns arbitrary: sc) (auto simp: scan_step_client)

lemma fold_scan_rest [simp]:
  "sc_hit (fold scan_step ns sc) = sc_hit sc" "sc_renew (fold scan_step ns sc) = sc_renew sc"
  by (induction ns arbitrary: sc) auto

text \<open>The candidate \<open>client_address_plus\<close>: it ends on an address no node has.\<close>

lemma fold_scan_plus:
  assumes "in_net N ns" "net (sc_plus sc) = N"
  shows "net (sc_plus (fold scan_step ns sc)) = N \<and>
    host (sc_plus sc) \<le> host (sc_plus (fold scan_step ns sc)) \<and>
    (host (sc_plus (fold scan_step ns sc)) = host (sc_plus sc) \<or>
     (\<exists>n \<in> set ns. host (sc_plus (fold scan_step ns sc)) = Suc (nhost n))) \<and>
    (\<forall>n \<in> set ns. node_ip n \<noteq> sc_plus (fold scan_step ns sc))"
  using assms
proof (induction ns arbitrary: sc)
  case (Cons n ns)
  let ?sc = "scan_step n sc"
  let ?r = "sc_plus (fold scan_step ns ?sc)"
  have n: "net (node_ip n) = N" "nhost n < 255" "in_net N ns" "\<forall>m \<in> set ns. nhost n < nhost m"
    using Cons.prems by auto
  show ?case
  proof (cases "node_ip n = sc_plus sc")
    case True
    then have p: "sc_plus ?sc = next_ip (node_ip n)" by (simp add: scan_step_def Let_def)
    then have h: "host (sc_plus ?sc) = Suc (nhost n)" "net (sc_plus ?sc) = N"
      using n by (simp_all add: next_ip_host next_ip_net)
    note IH = Cons.IH [OF n(3) h(2)]
    have "Suc (nhost n) \<le> host ?r" using IH h(1) by simp
    then have "node_ip n \<noteq> ?r" by auto
    then show ?thesis using IH True h(1) by (auto simp: Suc_le_eq)
  next
    case False
    then have p: "sc_plus ?sc = sc_plus sc" by (simp add: scan_step_def Let_def)
    note IH = Cons.IH [OF n(3), of ?sc]
    have IH': "net ?r = N" "host (sc_plus sc) \<le> host ?r"
      "host ?r = host (sc_plus sc) \<or> (\<exists>n \<in> set ns. host ?r = Suc (nhost n))"
      "\<forall>n \<in> set ns. node_ip n \<noteq> ?r"
      using IH Cons.prems by (simp_all add: p)
    have "node_ip n \<noteq> ?r"
    proof
      assume e: "node_ip n = ?r"
      from IH'(3) show False
      proof
        assume "host ?r = host (sc_plus sc)"
        then have "?r = sc_plus sc" using IH'(1) Cons.prems by (intro addr_eqI) auto
        with e False show False by simp
      next
        assume "\<exists>n \<in> set ns. host ?r = Suc (nhost n)"
        with e n(4) show False by auto
      qed
    qed
    then show ?thesis using IH' by auto
  qed
qed simp

text \<open>\<open>first_address\<close>: the lowest address from the start of the range that no node has.\<close>

lemma fold_scan_first:
  assumes "in_net N ns" "net (sc_first sc) = N"
    "\<not> sc_flag sc \<longrightarrow> (\<forall>n \<in> set ns. host (sc_first sc) \<le> nhost n)"
    "sc_flag sc \<longrightarrow> (\<forall>n \<in> set ns. host (sc_first sc) < nhost n)"
  shows "net (sc_first (fold scan_step ns sc)) = N \<and>
    host (sc_first sc) \<le> host (sc_first (fold scan_step ns sc)) \<and>
    (\<forall>h. host (sc_first sc) \<le> h \<and> h < host (sc_first (fold scan_step ns sc)) \<longrightarrow> h \<in> nhost ` set ns) \<and>
    (\<forall>n \<in> set ns. node_ip n \<noteq> sc_first (fold scan_step ns sc))"
  using assms
proof (induction ns arbitrary: sc)
  case (Cons n ns)
  let ?sc = "scan_step n sc"
  let ?r = "sc_first (fold scan_step ns ?sc)"
  have n: "net (node_ip n) = N" "nhost n < 255" "in_net N ns" "\<forall>m \<in> set ns. nhost n < nhost m"
    using Cons.prems by auto
  consider "sc_flag sc" | "\<not> sc_flag sc" "host (sc_first sc) < nhost n" | "\<not> sc_flag sc" "sc_first sc = node_ip n"
    using Cons.prems n by (metis addr_eqI le_neq_implies_less list.set_intros(1))
  then show ?case
  proof cases
    case 1
    then have f: "sc_first ?sc = sc_first sc" "sc_flag ?sc" by (auto simp: scan_step_def Let_def)
    have IH: "net ?r = N" "host (sc_first sc) \<le> host ?r"
      "\<forall>h. host (sc_first sc) \<le> h \<and> h < host ?r \<longrightarrow> h \<in> nhost ` set ns"
      "\<forall>n \<in> set ns. node_ip n \<noteq> ?r"
      using Cons.IH [OF n(3), of ?sc] Cons.prems f 1 by auto
    have "node_ip n \<noteq> ?r"
    proof
      assume "node_ip n = ?r"
      moreover have "host (sc_first sc) < nhost n" using Cons.prems 1 by auto
      ultimately have "host (sc_first sc) \<in> nhost ` set ns" using IH(3) by auto
      then show False using Cons.prems 1 by fastforce
    qed
    then show ?thesis using IH by auto
  next
    case 2
    then have "sc_first sc < node_ip n" using Cons.prems n by (simp add: addr_less_iff)
    with 2 have f: "sc_first ?sc = sc_first sc" "sc_flag ?sc" by (auto simp: scan_step_def Let_def)
    have lt: "\<forall>m \<in> set ns. host (sc_first sc) < nhost m" using n(4) 2 by (meson less_trans)
    have IH: "net ?r = N" "host (sc_first sc) \<le> host ?r"
      "\<forall>h. host (sc_first sc) \<le> h \<and> h < host ?r \<longrightarrow> h \<in> nhost ` set ns"
      "\<forall>n \<in> set ns. node_ip n \<noteq> ?r"
      using Cons.IH [OF n(3), of ?sc] Cons.prems f lt by auto
    have "host ?r = host (sc_first sc)"
    proof (rule ccontr)
      assume "host ?r \<noteq> host (sc_first sc)"
      then have "host (sc_first sc) \<in> nhost ` set ns" using IH(2,3) by auto
      then show False using lt by auto
    qed
    then show ?thesis using IH 2 by auto
  next
    case 3
    then have f: "sc_first ?sc = next_ip (node_ip n)" "\<not> sc_flag ?sc"
      by (auto simp: scan_step_def Let_def)
    then have h: "host (sc_first ?sc) = Suc (nhost n)" "net (sc_first ?sc) = N"
      using n by (simp_all add: next_ip_host next_ip_net)
    have IH: "net ?r = N" "Suc (nhost n) \<le> host ?r"
      "\<forall>h. Suc (nhost n) \<le> h \<and> h < host ?r \<longrightarrow> h \<in> nhost ` set ns"
      "\<forall>n \<in> set ns. node_ip n \<noteq> ?r"
      using Cons.IH [OF n(3) h(2)] f n(4) h by (auto simp: Suc_le_eq)
    have "node_ip n \<noteq> ?r" using IH(2) by auto
    moreover have "h \<in> nhost ` set (n # ns)" if "host (sc_first sc) \<le> h" "h < host ?r" for h
      using that IH(3) 3 by (cases "h = nhost n") auto
    ultimately show ?thesis using IH 3 by auto
  qed
qed simp

text \<open>The search of \<open>parse_msg\<close>, without and with a node of the client.\<close>

lemma pool_scan_miss:
  "\<forall>n \<in> set ns. node_mac n \<noteq> take 6 chaddr \<Longrightarrow>
     pool_scan chaddr ciaddr t ns sc = (ns, fold scan_step ns sc)"
  by (induction ns arbitrary: sc) auto

lemma pool_scan_hit:
  "\<forall>n \<in> set pre. node_mac n \<noteq> take 6 chaddr \<Longrightarrow> node_mac n = take 6 chaddr \<Longrightarrow>
     pool_scan chaddr ciaddr t (pre @ n # post) sc =
       (pre @ n\<lparr>pnode := (pnode n)\<lparr>lease_timer := t\<rparr>\<rparr> # post,
        (fold scan_step pre sc)\<lparr>sc_renew := (le_bytes (node_ip n) = ciaddr),
           sc_client := node_ip n, sc_hit := Some (n\<lparr>pnode := (pnode n)\<lparr>lease_timer := t\<rparr>\<rparr>)\<rparr>)"
  by (induction pre arbitrary: sc) (auto simp: Let_def)

end
