(* ===== verification/Dhcp_Inv.thy ===== *)
theory Dhcp_Inv
  imports Dhcp_Addr
begin

section \<open>The lease pool: invariant, packets and timer\<close>

text \<open>
  The invariant of the server and its preservation by every function that changes the pool; what
  a request is answered with, as a function of the bindings of the pool.
\<close>

subsection \<open>Insertion and removal of nodes\<close>

lemma insert_loop_eq:
  "insert_loop x ps = takeWhile (\<lambda>q. \<not> node_ip x < node_ip q) ps @ x # dropWhile (\<lambda>q. \<not> node_ip x < node_ip q) ps"
  by (induction ps) auto

lemma node_insert_eq:
  "node_insert_to_list ps x =
     takeWhile (\<lambda>q. \<not> node_ip x < node_ip q) ps @ x # dropWhile (\<lambda>q. \<not> node_ip x < node_ip q) ps"
  by (cases ps) (auto simp: insert_loop_eq)

lemma set_node_insert [simp]: "set (node_insert_to_list ps x) = insert x (set ps)"
  unfolding node_insert_eq
  by (metis Un_insert_right list.simps(15) set_append takeWhile_dropWhile_id)

lemma distinct_node_insert:
  "distinct (map f (node_insert_to_list ps x)) \<longleftrightarrow> f x \<notin> f ` set ps \<and> distinct (map f ps)"
proof -
  have "distinct (map f (xs @ x # ys)) \<longleftrightarrow> f x \<notin> f ` set (xs @ ys) \<and> distinct (map f (xs @ ys))" for xs ys
    by auto
  then show ?thesis unfolding node_insert_eq by (metis takeWhile_dropWhile_id)
qed

text \<open>A new address that no node has keeps the order.\<close>

lemma in_net_insert:
  assumes "in_net N ps" "net (node_ip x) = N" "nhost x < 255" "\<forall>n \<in> set ps. node_ip n \<noteq> node_ip x"
  shows "in_net N (node_insert_to_list ps x)"
proof -
  define xs where "xs = takeWhile (\<lambda>q. \<not> node_ip x < node_ip q) ps"
  define ys where "ys = dropWhile (\<lambda>q. \<not> node_ip x < node_ip q) ps"
  have ps: "ps = xs @ ys" by (simp add: xs_def ys_def)
  have x: "nhost q < nhost x" if "q \<in> set xs" for q
  proof -
    have "\<not> node_ip x < node_ip q" using that set_takeWhileD unfolding xs_def by fastforce
    moreover have "net (node_ip q) = N" "node_ip q \<noteq> node_ip x" "q \<in> set ps"
      using that assms by (auto simp: in_net_def ps)
    ultimately show ?thesis using assms(2) addr_less_iff addr_eqI by (metis linorder_neqE_nat)
  qed
  have y: "nhost x < nhost q" if q: "q \<in> set ys" for q
  proof -
    obtain z zs where ys: "ys = z # zs" using q by (cases ys) auto
    then have "node_ip x < node_ip z"
      using hd_dropWhile [of "\<lambda>q. \<not> node_ip x < node_ip q" ps] by (simp add: ys_def)
    moreover have "net (node_ip z) = N" using assms ys by (simp add: ps in_net_append)
    ultimately have "nhost x < nhost z" using assms(2) addr_less_iff by metis
    moreover have "q = z \<or> nhost z < nhost q" using q assms ys by (auto simp: ps in_net_append)
    ultimately show ?thesis by auto
  qed
  have "in_net N (xs @ x # ys)"
    using assms x y by (auto simp: ps in_net_append dest: less_trans)
  then show ?thesis by (simp add: node_insert_eq xs_def ys_def)
qed

lemma filter_other: "f q \<notin> f ` set qs \<Longrightarrow> filter (\<lambda>n. f n \<noteq> f q) qs = qs"
  by (induction qs) auto

lemma remove_loop_eq:
  "distinct (map node_addr ps) \<Longrightarrow> remove_loop ps a = filter (\<lambda>n. node_addr n \<noteq> a) ps"
proof (induction ps a rule: remove_loop.induct)
  case (2 q qs a)
  show ?case
  proof (cases qs)
    case Nil
    then show ?thesis by simp
  next
    case (Cons r rs)
    then show ?thesis using 2 filter_other [of node_addr q rs] by auto
  qed
qed simp

lemma node_remove_eq:
  assumes "distinct (map node_addr ps)"
  shows "node_remove_from_list_0 ps a = filter (\<lambda>n. node_addr n \<noteq> a) ps"
proof (cases ps)
  case (Cons q qs)
  then show ?thesis using assms filter_other [of node_addr q qs] by (auto simp: remove_loop_eq)
qed simp

lemma in_net_filter: "in_net N ps \<Longrightarrow> in_net N (filter P ps)"
  by (auto simp: in_net_def sorted_wrt_filter)

text \<open>Changing timers changes nothing the order or the range depend on.\<close>

definition same_nodes :: "list_node list \<Rightarrow> list_node list \<Rightarrow> bool" where
  "same_nodes ms ns \<longleftrightarrow>
     list_all2 (\<lambda>m n. node_addr m = node_addr n \<and> node_ip m = node_ip n \<and> node_mac m = node_mac n) ms ns"

lemma same_nodes_maps:
  assumes "same_nodes ms ns"
  shows "map node_addr ms = map node_addr ns" "map node_ip ms = map node_ip ns"
    "map node_mac ms = map node_mac ns"
  using assms unfolding same_nodes_def by (induction rule: list_all2_induct) auto

lemma in_net_map: "in_net N ns \<longleftrightarrow>
    (\<forall>a \<in> set (map node_ip ns). net a = N \<and> host a < 255) \<and> sorted_wrt (\<lambda>a b. host a < host b) (map node_ip ns)"
  by (auto simp: in_net_def sorted_wrt_map)

subsection \<open>The invariant\<close>

definition lease_ok :: "dhcps_lease \<Rightarrow> bool" where
  "lease_ok l \<longleftrightarrow> net (start_ip l) = net (end_ip l) \<and> host (start_ip l) \<le> host (end_ip l) \<and>
     host (end_ip l) < 255 \<and> start_ip l \<noteq> 0"

definition pool_ok :: "dhcps_lease \<Rightarrow> list_node list \<Rightarrow> bool" where
  "pool_ok l ns \<longleftrightarrow> in_net (net (start_ip l)) ns \<and>
     (\<forall>a \<in> set (map node_ip ns). host (start_ip l) \<le> host a \<and> host a \<le> host (end_ip l)) \<and>
     distinct (map node_mac ns) \<and> distinct (map node_addr ns) \<and>
     (\<forall>c \<in> set (map node_mac ns). length c = 6) \<and> (\<forall>n \<in> set ns. lease_timer (pnode n) \<noteq> 0)"

definition dhcps_inv :: "dhcps \<Rightarrow> bool" where
  "dhcps_inv s \<longleftrightarrow> lease_ok (lease s) \<and> pool_ok (lease s) (plist s) \<and>
     net (client_address_plus s) = net (start_ip (lease s)) \<and>
     host (start_ip (lease s)) \<le> host (client_address_plus s) \<and>
     host (client_address_plus s) \<le> Suc (host (end_ip (lease s))) \<and>
     dhcps_lease_time s \<noteq> 0"

text \<open>What \<open>malloc\<close> promises: a new node is none of those in the list.\<close>

definition fresh_node :: "dhcps_env \<Rightarrow> dhcps \<Rightarrow> bool" where
  "fresh_node env s \<longleftrightarrow> (\<forall>a. malloc_node env = Some a \<longrightarrow> a \<notin> node_addr ` set (plist s))"

text \<open>What a call leaves alone.\<close>

definition config_of :: "dhcps \<Rightarrow> nat option \<times> u32 \<times> dhcps_lease \<times> u8 \<times> u32" where
  "config_of s = (dhcps_pcb s, server_address s, lease s, offer s, dhcps_lease_time s)"

lemma pool_ok_same:
  assumes "pool_ok l ns" "same_nodes ms ns" "\<forall>n \<in> set ms. lease_timer (pnode n) \<noteq> 0"
  shows "pool_ok l ms"
  using assms(1,3) unfolding pool_ok_def in_net_map same_nodes_maps [OF assms(2)] by simp

lemma pool_ok_filter: "pool_ok l ns \<Longrightarrow> pool_ok l (filter P ns)"
  by (auto simp: pool_ok_def in_net_filter distinct_map_filter)

lemma remove_node_inv:
  assumes "dhcps_inv s"
  shows "dhcps_inv (remove_node pn s)" "config_of (remove_node pn s) = config_of s"
  using assms
  by (auto simp: remove_node_def dhcps_inv_def config_of_def node_remove_eq pool_ok_filter pool_ok_def [of _ "plist s"]
      split: option.splits intro: pool_ok_filter)

subsection \<open>Finding or making the binding of a client\<close>

text \<open>The hosts of the range that no node has.\<close>

definition free_hosts :: "dhcps \<Rightarrow> nat set" where
  "free_hosts s = {host (start_ip (lease s))..host (end_ip (lease s))} - nhost ` set (plist s)"

text \<open>A client in the pool: its own address again, its timer restarted.\<close>

lemma pool_search_hit:
  assumes inv: "dhcps_inv s" and n: "n \<in> set (plist s)" "node_mac n = take 6 (m_chaddr m)"
  shows "\<exists>s' n'. pool_search env m s = Some (s', Some n') \<and> dhcps_inv s' \<and>
    config_of s' = config_of s \<and> same_nodes (plist s') (plist s) \<and> n' \<in> set (plist s') \<and>
    node_addr n' = node_addr n \<and> node_ip n' = node_ip n \<and> node_mac n' = node_mac n \<and>
    lease_timer (pnode n') = dhcps_lease_time s \<and> client_address s' = node_ip n \<and>
    renew s' = (le_bytes (node_ip n) = m_ciaddr m)"
proof -
  have pool: "pool_ok (lease s) (plist s)" and lease: "lease_ok (lease s)"
    and plus: "net (client_address_plus s) = net (start_ip (lease s))"
      "host (start_ip (lease s)) \<le> host (client_address_plus s)"
      "host (client_address_plus s) \<le> Suc (host (end_ip (lease s)))"
    and t: "dhcps_lease_time s \<noteq> 0"
    using inv by (auto simp: dhcps_inv_def)
  obtain pre post where ps: "plist s = pre @ n # post" using n(1) by (meson split_list)
  have pre: "\<forall>k \<in> set pre. node_mac k \<noteq> take 6 (m_chaddr m)"
  proof -
    have "node_mac n \<notin> node_mac ` set pre" using pool by (simp add: ps pool_ok_def)
    with n(2) show ?thesis by (metis imageI)
  qed
  define sc0 where "sc0 = \<lparr>sc_plus = client_address_plus s, sc_client = client_address_plus s,
    sc_first = start_ip (lease s), sc_flag = False, sc_renew = False, sc_hit = None\<rparr>"
  define n' where "n' = n\<lparr>pnode := (pnode n)\<lparr>lease_timer := dhcps_lease_time s\<rparr>\<rparr>"
  define s' where "s' = s\<lparr>plist := pre @ n' # post, client_address := node_ip n,
    client_address_plus := sc_plus (fold scan_step pre sc0), renew := (le_bytes (node_ip n) = m_ciaddr m)\<rparr>"
  have r: "pool_search env m s = Some (s', Some n')"
    using pool_scan_hit [OF pre n(2), of "m_ciaddr m" "dhcps_lease_time s" post sc0]
    by (simp add: pool_search_def ps sc0_def Let_def s'_def n'_def)
  have same: "same_nodes (plist s') (plist s)"
    by (simp add: same_nodes_def s'_def ps n'_def list_all2_append list.rel_refl)
  have pool': "pool_ok (lease s) (plist s')"
    using pool t by (intro pool_ok_same [OF pool same]) (auto simp: s'_def n'_def ps pool_ok_def)
  have netpre: "in_net (net (start_ip (lease s))) pre"
    using pool by (auto simp: pool_ok_def ps in_net_append)
  have "net (sc_plus sc0) = net (start_ip (lease s))" using plus by (simp add: sc0_def)
  note fp = fold_scan_plus [OF netpre this]
  have "\<forall>k \<in> set pre. nhost k \<le> host (end_ip (lease s))"
    using pool by (auto simp: pool_ok_def ps)
  then have "dhcps_inv s'"
    using fp pool' lease plus t by (auto simp: dhcps_inv_def s'_def sc0_def)
  then show ?thesis using r same by (auto simp: s'_def n'_def config_of_def)
qed

text \<open>
  A new client gets an address that nobody has whenever there is one, and the pool grows by exactly
  its node; when there is none, the pool stays as it is.
\<close>

lemma pool_search_miss:
  assumes inv: "dhcps_inv s" and miss: "\<forall>n \<in> set (plist s). node_mac n \<noteq> take 6 (m_chaddr m)"
    and fresh: "fresh_node env s" and mem: "malloc_pool env" "malloc_node env = Some a"
    and len: "length (m_chaddr m) = 16"
  shows "\<exists>s' pn. pool_search env m s = Some (s', pn) \<and> dhcps_inv s' \<and>
    config_of s' = config_of s \<and> net (client_address s') = net (start_ip (lease s)) \<and> \<not> renew s' \<and>
    (if free_hosts s = {} then pn = None \<and> plist s' = plist s \<and>
       host (end_ip (lease s)) < host (client_address s')
     else \<exists>n. pn = Some n \<and> node_addr n = a \<and> node_mac n = take 6 (m_chaddr m) \<and>
       node_ip n = client_address s' \<and> lease_timer (pnode n) = dhcps_lease_time s \<and>
       host (client_address s') \<in> free_hosts s \<and>
       plist s' = node_insert_to_list (plist s) n)"
proof -
  let ?N = "net (start_ip (lease s))" and ?lo = "host (start_ip (lease s))" and ?hi = "host (end_ip (lease s))"
  have pool: "pool_ok (lease s) (plist s)" and lease: "lease_ok (lease s)"
    and plus: "net (client_address_plus s) = ?N" "?lo \<le> host (client_address_plus s)"
      "host (client_address_plus s) \<le> Suc ?hi"
    and t: "dhcps_lease_time s \<noteq> 0"
    using inv by (auto simp: dhcps_inv_def)
  have nt: "in_net ?N (plist s)" and rng: "\<forall>n \<in> set (plist s). ?lo \<le> nhost n \<and> nhost n \<le> ?hi"
    using pool by (auto simp: pool_ok_def)
  have l: "net (end_ip (lease s)) = ?N" "?lo \<le> ?hi" "?hi < 255" using lease by (auto simp: lease_ok_def)
  define sc0 where "sc0 = \<lparr>sc_plus = client_address_plus s, sc_client = client_address_plus s,
    sc_first = start_ip (lease s), sc_flag = False, sc_renew = False, sc_hit = None\<rparr>"
  define sc where "sc = fold scan_step (plist s) sc0"
  have scan: "pool_scan (m_chaddr m) (m_ciaddr m) (dhcps_lease_time s) (plist s) sc0 = (plist s, sc)"
    unfolding sc_def by (rule pool_scan_miss [OF miss])
  have sc1: "sc_client sc = sc_plus sc" "sc_hit sc = None" "\<not> sc_renew sc"
    by (simp_all add: sc_def fold_scan_client sc0_def)
  have p: "net (sc_plus sc) = ?N" "?lo \<le> host (sc_plus sc)" "host (sc_plus sc) \<le> Suc ?hi"
    "\<forall>n \<in> set (plist s). node_ip n \<noteq> sc_plus sc"
    using fold_scan_plus [OF nt, of sc0] plus rng by (auto simp: sc0_def sc_def)
  have f: "net (sc_first sc) = ?N" "?lo \<le> host (sc_first sc)"
    "\<forall>h. ?lo \<le> h \<and> h < host (sc_first sc) \<longrightarrow> h \<in> nhost ` set (plist s)"
    "\<forall>n \<in> set (plist s). node_ip n \<noteq> sc_first sc"
    using fold_scan_first [OF nt, of sc0] rng by (auto simp: sc0_def sc_def)
  define c where "c = (if end_ip (lease s) < sc_plus sc then sc_first sc else sc_plus sc)"
  have c: "net c = ?N" "?lo \<le> host c" "\<forall>n \<in> set (plist s). node_ip n \<noteq> c"
    using p f by (auto simp: c_def)
  have cnot: "host c \<notin> nhost ` set (plist s)"
  proof
    assume "host c \<in> nhost ` set (plist s)"
    then obtain k where k: "k \<in> set (plist s)" "nhost k = host c" by auto
    then have "net (node_ip k) = net c" using nt c(1) by (simp add: in_net_def)
    then have "node_ip k = c" using k(2) by (rule addr_eqI)
    then show False using k(1) c(3) by simp
  qed
  have lt: "end_ip (lease s) < x \<longleftrightarrow> ?hi < host x" if "net x = ?N" for x
    using that l by (simp add: addr_less_iff)
  show ?thesis
  proof (cases "?hi < host c")
    case True
    then have "end_ip (lease s) < sc_plus sc" using lt [OF p(1)] by (auto simp: c_def split: if_splits)
    then have cf: "c = sc_first sc" by (simp add: c_def)
    have free: "free_hosts s = {}"
      using f(3) True by (auto simp: free_hosts_def cf)
    define s' where "s' = s\<lparr>client_address := c, client_address_plus := start_ip (lease s), renew := False\<rparr>"
    have r: "pool_search env m s = Some (s', None)"
      using scan sc1 \<open>end_ip (lease s) < sc_plus sc\<close> lt [OF c(1)] True cf
      by (simp add: pool_search_def sc0_def [symmetric] Let_def pool_new_def s'_def)
    have "dhcps_inv s'" using inv by (auto simp: s'_def dhcps_inv_def lease_ok_def)
    then show ?thesis using r free True c by (auto simp: s'_def config_of_def)
  next
    case False
    then have "host c \<in> free_hosts s" using c cnot by (auto simp: free_hosts_def)
    then have free: "free_hosts s \<noteq> {}" by auto
    define n where "n = \<lparr>node_addr = a, pnode = \<lparr>ip = c, mac = take 6 (m_chaddr m),
      lease_timer = dhcps_lease_time s\<rparr>\<rparr>"
    define s' where "s' = s\<lparr>client_address := c, plist := node_insert_to_list (plist s) n,
      client_address_plus := (if c = end_ip (lease s) then start_ip (lease s) else next_ip c), renew := False\<rparr>"
    have r: "pool_search env m s = Some (s', Some n)"
      using scan sc1 lt [OF c(1)] lt [OF p(1)] False mem
      by (auto simp: pool_search_def sc0_def [symmetric] Let_def pool_new_def s'_def n_def c_def)
    have "pool_ok (lease s) (node_insert_to_list (plist s) n)"
      unfolding pool_ok_def
    proof (intro conjI)
      show "in_net ?N (node_insert_to_list (plist s) n)"
        using nt c False l by (intro in_net_insert) (auto simp: n_def)
      show "distinct (map node_mac (node_insert_to_list (plist s) n))"
        using pool miss by (auto simp: distinct_node_insert pool_ok_def n_def)
      show "distinct (map node_addr (node_insert_to_list (plist s) n))"
        using pool fresh mem by (auto simp: distinct_node_insert pool_ok_def n_def fresh_node_def)
    qed (use pool c False len t in \<open>auto simp: pool_ok_def n_def\<close>)
    moreover have "host c < ?hi" if "c \<noteq> end_ip (lease s)"
      using that False c(1) l(1) by (metis addr_eqI linorder_neqE_nat)
    ultimately have "dhcps_inv s'"
      using lease t c l False by (auto simp: dhcps_inv_def s'_def next_ip_host next_ip_net)
    then show ?thesis using r free c \<open>host c \<in> free_hosts s\<close>
      by (auto simp: s'_def config_of_def n_def)
  qed
qed

subsection \<open>A whole request\<close>

text \<open>What the allocations of one packet return: memory for the new node, and not one in use.\<close>

definition mem_ok :: "dhcps_env \<Rightarrow> dhcps \<Rightarrow> bool" where
  "mem_ok env s \<longleftrightarrow> malloc_pool env \<and> malloc_node env \<noteq> None \<and> fresh_node env s \<and>
     (\<forall>junk. malloc_msg env = Some junk \<longrightarrow> length junk = sizeof_dhcps_msg)"

text \<open>The bindings of the server.\<close>

definition bound :: "dhcps \<Rightarrow> u8 list \<Rightarrow> u32 \<Rightarrow> bool" where
  "bound s c a \<longleftrightarrow> (\<exists>n \<in> set (plist s). node_mac n = c \<and> node_ip n = a)"

lemma same_nodes_bound: "same_nodes (plist s') (plist s) \<Longrightarrow> bound s' c a \<longleftrightarrow> bound s c a"
proof -
  assume "same_nodes (plist s') (plist s)"
  then have "map (\<lambda>n. (node_mac n, node_ip n)) (plist s') = map (\<lambda>n. (node_mac n, node_ip n)) (plist s)"
    unfolding same_nodes_def by (induction rule: list_all2_induct) auto
  then have "(\<lambda>n. (node_mac n, node_ip n)) ` set (plist s') = (\<lambda>n. (node_mac n, node_ip n)) ` set (plist s)"
    by (simp only: list.set_map [symmetric])
  then have "(c, a) \<in> (\<lambda>n. (node_mac n, node_ip n)) ` set (plist s') \<longleftrightarrow>
      (c, a) \<in> (\<lambda>n. (node_mac n, node_ip n)) ` set (plist s)"
    by simp
  then show ?thesis by (simp add: bound_def image_iff Bex_def) metis
qed

text \<open>What \<open>pool_search\<close> leaves behind, in either case.\<close>

lemma pool_search_inv:
  assumes inv: "dhcps_inv s" and mem: "mem_ok env s" and len: "length (m_chaddr m) = 16"
  shows "\<exists>s' pn. pool_search env m s = Some (s', pn) \<and> dhcps_inv s' \<and> config_of s' = config_of s \<and>
    net (client_address s') = net (start_ip (lease s)) \<and>
    (case pn of
       None \<Rightarrow> host (end_ip (lease s)) < host (client_address s') \<and> plist s' = plist s \<and> free_hosts s = {}
     | Some n \<Rightarrow> n \<in> set (plist s') \<and> node_mac n = take 6 (m_chaddr m) \<and> node_ip n = client_address s')"
proof (cases "\<exists>n \<in> set (plist s). node_mac n = take 6 (m_chaddr m)")
  case True
  then obtain n where n: "n \<in> set (plist s)" "node_mac n = take 6 (m_chaddr m)" by auto
  have "net (node_ip n) = net (start_ip (lease s))"
    using n inv by (auto simp: dhcps_inv_def pool_ok_def in_net_def)
  moreover obtain s' n' where s': "pool_search env m s = Some (s', Some n')" "dhcps_inv s'"
    "config_of s' = config_of s" "n' \<in> set (plist s')" "node_ip n' = node_ip n" "node_mac n' = node_mac n"
    "client_address s' = node_ip n"
    using pool_search_hit [OF inv n] by blast
  ultimately show ?thesis using n by (intro exI [of _ s'] exI [of _ "Some n'"]) simp
next
  case False
  obtain a where a: "malloc_node env = Some a" using mem by (auto simp: mem_ok_def)
  obtain s' pn where s': "pool_search env m s = Some (s', pn)" "dhcps_inv s'" "config_of s' = config_of s"
    "net (client_address s') = net (start_ip (lease s))"
    "if free_hosts s = {} then pn = None \<and> plist s' = plist s \<and>
       host (end_ip (lease s)) < host (client_address s')
     else \<exists>n. pn = Some n \<and> node_addr n = a \<and> node_mac n = take 6 (m_chaddr m) \<and>
       node_ip n = client_address s' \<and> lease_timer (pnode n) = dhcps_lease_time s \<and>
       host (client_address s') \<in> free_hosts s \<and> plist s' = node_insert_to_list (plist s) n"
    using pool_search_miss [OF inv _ _ _ a len] False mem unfolding mem_ok_def by blast
  then show ?thesis
    by (intro exI [of _ s'] exI [of _ pn]) (auto split: if_splits)
qed

lemma le_bytes_0: "le_bytes 0 = [0, 0, 0, 0]"
  by (simp add: le_bytes_def)

lemma client_in_range:
  assumes "dhcps_inv s" "n \<in> set (plist s)"
  shows "\<not> end_ip (lease s) < node_ip n" "node_ip n \<noteq> 0"
proof -
  have l: "net (end_ip (lease s)) = net (start_ip (lease s))" "start_ip (lease s) \<noteq> 0"
    using assms by (auto simp: dhcps_inv_def lease_ok_def)
  have n: "net (node_ip n) = net (start_ip (lease s))" "nhost n \<le> host (end_ip (lease s))"
    "host (start_ip (lease s)) \<le> nhost n"
    using assms by (auto simp: dhcps_inv_def pool_ok_def in_net_def)
  show "\<not> end_ip (lease s) < node_ip n" using l n by (simp add: addr_less_iff)
  show "node_ip n \<noteq> 0"
  proof
    assume z: "node_ip n = 0"
    then have "start_ip (lease s) \<le> 0" using n addr_le_iff [of "start_ip (lease s)" "node_ip n"] by simp
    with l(2) show False by simp
  qed
qed

text \<open>After the search: refused, or answered by the options of the request.\<close>

lemma pool_check_some:
  assumes "dhcps_inv s" "n \<in> set (plist s)" "node_ip n = client_address s"
  shows "pool_check env m len (Some n) s = do {
    ret \<leftarrow> parse_options (client_address s) (renew s) (m_options m) len;
    let s = (if ret = DHCPS_STATE_RELEASE then (remove_node (Some n) s)\<lparr>client_address := 0\<rparr> else s);
    Some (s, if set_station_info env (m_chaddr m) (client_address s) then ret else 0) }"
  using client_in_range [OF assms(1,2)] assms(3)
  by (auto simp: pool_check_def Let_def split: option.splits bind_split)

lemma pool_check_none:
  assumes "dhcps_inv s" "net (client_address s) = net (start_ip (lease s))"
    "host (end_ip (lease s)) < host (client_address s)"
  shows "pool_check env m len None s = Some (s, DHCPS_STATE_NAK)"
proof -
  have "end_ip (lease s) < client_address s"
    using assms by (simp add: addr_less_iff dhcps_inv_def lease_ok_def)
  then show ?thesis by (simp add: pool_check_def remove_node_def)
qed

text \<open>
  The invariant survives any request, and whenever the result is an offer or an acknowledgement,
  \<open>client_address\<close> is the address bound to the client's hardware address.
\<close>

lemma parse_msg_inv:
  assumes inv: "dhcps_inv s" and mem: "mem_ok env s" and len: "length (m_chaddr m) = 16"
    and r: "parse_msg env m l s = Some (s', ret)"
  shows "dhcps_inv s' \<and> config_of s' = config_of s \<and>
    (ret = DHCPS_STATE_OFFER \<or> ret = DHCPS_STATE_ACK \<longrightarrow> bound s' (take 6 (m_chaddr m)) (client_address s'))"
proof (cases "take 4 (m_options m) = le_bytes magic_cookie")
  case False
  then show ?thesis using r inv by (auto simp: parse_msg_def)
next
  case True
  obtain s1 pn where s1: "pool_search env m s = Some (s1, pn)" "dhcps_inv s1" "config_of s1 = config_of s"
    "net (client_address s1) = net (start_ip (lease s))"
    "case pn of None \<Rightarrow> host (end_ip (lease s)) < host (client_address s1) \<and> plist s1 = plist s \<and> free_hosts s = {}
     | Some n \<Rightarrow> n \<in> set (plist s1) \<and> node_mac n = take 6 (m_chaddr m) \<and> node_ip n = client_address s1"
    using pool_search_inv [OF inv mem len] by blast
  have l: "lease s1 = lease s" using s1(3) by (simp add: config_of_def)
  have chk: "pool_check env m (sint l) pn s1 = Some (s', ret)"
    using r True s1(1) by (simp add: parse_msg_def)
  show ?thesis
  proof (cases pn)
    case None
    then show ?thesis
      using chk pool_check_none [OF s1(2)] s1 l by auto
  next
    case (Some n)
    then have n: "n \<in> set (plist s1)" "node_mac n = take 6 (m_chaddr m)" "node_ip n = client_address s1"
      using s1(5) by auto
    note chk' = chk [unfolded Some pool_check_some [OF s1(2) n(1,3)]]
    have rel: "dhcps_inv ((remove_node (Some n) s1)\<lparr>client_address := 0\<rparr>)"
      "config_of ((remove_node (Some n) s1)\<lparr>client_address := 0\<rparr>) = config_of s1"
      using remove_node_inv [OF s1(2), of "Some n"] by (auto simp: dhcps_inv_def config_of_def)
    have "bound s1 (take 6 (m_chaddr m)) (client_address s1)"
      using n by (auto simp: bound_def)
    then show ?thesis using chk' rel s1
      by (auto simp: Let_def split: bind_splits if_splits)
  qed
qed

subsection \<open>The timer\<close>

definition tick_node :: "list_node \<Rightarrow> list_node" where
  "tick_node n = n\<lparr>pnode := (pnode n)\<lparr>lease_timer := lease_timer (pnode n) - 1\<rparr>\<rparr>"

text \<open>The nodes that survive a tick.\<close>

definition live :: "list_node list \<Rightarrow> list_node list" where
  "live ns = filter (\<lambda>n. lease_timer (pnode n) \<noteq> 0) (map tick_node ns)"

lemma set_timer_other: "a \<notin> node_addr ` set ns \<Longrightarrow> set_timer a t ns = ns"
  by (induction ns) (auto simp: set_timer_def)

lemma set_timer_node:
  "distinct (map node_addr (ks @ n # ns)) \<Longrightarrow>
     set_timer (node_addr n) (lease_timer (pnode n) - 1) (ks @ n # ns) = ks @ tick_node n # ns"
  using set_timer_other [of "node_addr n" ks] set_timer_other [of "node_addr n" ns]
  by (auto simp: set_timer_def tick_node_def)

lemma node_addr_tick [simp]: "node_addr (tick_node n) = node_addr n" "pnode (tick_node n) =
    (pnode n)\<lparr>lease_timer := lease_timer (pnode n) - 1\<rparr>"
  by (simp_all add: tick_node_def)

lemma tmr_loop_eq:
  "distinct (map node_addr (ks @ ns)) \<Longrightarrow>
     tmr_loop ns (ks @ ns) k = (ks @ live ns, k + of_nat (length (live ns)))"
proof (induction ns arbitrary: ks k)
  case Nil
  then show ?case by (simp add: live_def)
next
  case (Cons n ns)
  have st: "set_timer (node_addr n) (lease_timer (pnode n) - 1) (ks @ n # ns) = ks @ tick_node n # ns"
    using Cons.prems by (rule set_timer_node)
  show ?case
  proof (cases "lease_timer (pnode n) - 1 = 0")
    case True
    have d: "distinct (map node_addr (ks @ tick_node n # ns))" using Cons.prems by simp
    have "node_remove_from_list_0 (ks @ tick_node n # ns) (node_addr n) = ks @ ns"
      unfolding node_remove_eq [OF d] using d filter_other [of node_addr n ks] filter_other [of node_addr n ns]
      by simp
    then show ?thesis using Cons.IH [of ks k] Cons.prems True st by (simp add: live_def Let_def)
  next
    case False
    have d: "distinct (map node_addr ((ks @ [tick_node n]) @ ns))" using Cons.prems by simp
    show ?thesis using Cons.IH [OF d, of "k + 1"] False st
      by (simp add: live_def Let_def add.commute add.left_commute)
  qed
qed

lemma oldest_loop_min:
  assumes "minp < i" "l ! minp = m0" "lease_timer (pnode m0) = t" "drop i l = ps" "1 \<le> minp" "i \<le> length l"
    "\<forall>k. 1 \<le> k \<and> k < i \<longrightarrow> t \<le> lease_timer (pnode (l ! k))"
  shows "1 \<le> oldest_loop ps i t minp \<and> oldest_loop ps i t minp < length l \<and>
    (\<forall>k. 1 \<le> k \<and> k < length l \<longrightarrow>
       lease_timer (pnode (l ! oldest_loop ps i t minp)) \<le> lease_timer (pnode (l ! k)))"
  using assms
proof (induction ps arbitrary: i t minp m0)
  case (Cons p ps)
  have i: "i < length l" "l ! i = p" "drop (Suc i) l = ps"
    using Cons.prems(4) by (metis drop_eq_Nil list.distinct(1) not_less,
      metis nth_via_drop, metis drop_Suc list.sel(3) drop_tl)
  show ?case
  proof (cases "lease_timer (pnode p) < t")
    case True
    have "\<forall>k. 1 \<le> k \<and> k < Suc i \<longrightarrow> lease_timer (pnode p) \<le> lease_timer (pnode (l ! k))"
      using Cons.prems(7) True i(2) by (auto simp: less_Suc_eq intro: order_trans [OF less_imp_le])
    then show ?thesis
      using Cons.IH [of i "Suc i" p "lease_timer (pnode p)"] i True Cons.prems by simp
  next
    case False
    have "\<forall>k. 1 \<le> k \<and> k < Suc i \<longrightarrow> t \<le> lease_timer (pnode (l ! k))"
      using Cons.prems(7) False i(2) by (auto simp: less_Suc_eq not_less)
    then show ?thesis
      using Cons.IH [of minp "Suc i" m0 t] i False Cons.prems by simp
  qed
qed auto

lemma kill_oldest:
  assumes "2 \<le> length l"
  shows "\<exists>j. 1 \<le> j \<and> j < length l \<and>
    (\<forall>k. 1 \<le> k \<and> k < length l \<longrightarrow> lease_timer (pnode (l ! j)) \<le> lease_timer (pnode (l ! k))) \<and>
    kill_oldest_dhcps_pool l = Some (take j l @ drop (Suc j) l)"
proof -
  obtain pre p ps where l: "l = pre # p # ps"
    using assms by (cases l; cases "tl l") auto
  have o: "oldest_loop (p # ps) 1 (lease_timer (pnode p)) 1 = oldest_loop ps 2 (lease_timer (pnode p)) 1"
    by (simp add: numeral_2_eq_2)
  have k: "kill_oldest_dhcps_pool l = Some (take (oldest_loop ps 2 (lease_timer (pnode p)) 1) l @
      drop (Suc (oldest_loop ps 2 (lease_timer (pnode p)) 1)) l)"
    unfolding l kill_oldest_dhcps_pool_def by (simp only: list.case Let_def o)
  have "1 \<le> oldest_loop ps 2 (lease_timer (pnode p)) 1 \<and> oldest_loop ps 2 (lease_timer (pnode p)) 1 < length l \<and>
    (\<forall>k. 1 \<le> k \<and> k < length l \<longrightarrow>
       lease_timer (pnode (l ! oldest_loop ps 2 (lease_timer (pnode p)) 1)) \<le> lease_timer (pnode (l ! k)))"
    by (rule oldest_loop_min [where ?m0.0 = p]) (auto simp: l less_2_cases_iff)
  then show ?thesis using k by blast
qed

lemma distinct_nhost: "in_net N ns \<Longrightarrow> distinct (map nhost ns)"
  by (induction ns) auto

lemma pool_length:
  assumes "in_net N ns"
  shows "length ns \<le> 255"
proof -
  have "distinct (map nhost ns)"
    using assms by (rule distinct_nhost)
  then have "length ns = card (nhost ` set ns)" by (metis distinct_card length_map set_map)
  also have "\<dots> \<le> card {..<255::nat}"
    using assms by (intro card_mono) (auto simp: in_net_def)
  finally show ?thesis by simp
qed

lemma same_nodes_tick: "same_nodes (map tick_node ns) ns"
  by (induction ns) (auto simp: same_nodes_def)

lemma pool_ok_live:
  assumes "pool_ok l ns"
  shows "pool_ok l (live ns)"
proof -
  have "pool_ok l ns \<Longrightarrow> in_net (net (start_ip l)) (map tick_node ns)"
    unfolding pool_ok_def in_net_map same_nodes_maps [OF same_nodes_tick [of ns]] by simp
  then show ?thesis using assms
    by (auto simp: pool_ok_def live_def in_net_filter distinct_map_filter comp_def)
qed

lemma pool_ok_drop_one: "pool_ok l ns \<Longrightarrow> pool_ok l (take j ns @ drop (Suc j) ns)"
proof (cases "j < length ns")
  case True
  assume ok: "pool_ok l ns"
  have ns: "ns = take j ns @ ns ! j # drop (Suc j) ns" using True by (rule id_take_nth_drop)
  show ?thesis using ok by (subst (asm) ns) (auto simp: pool_ok_def in_net_append)
qed simp

lemma coarse_tmr:
  assumes "dhcps_inv s"
  shows "\<exists>s'. dhcps_coarse_tmr s = Some s' \<and> dhcps_inv s' \<and> config_of s' = config_of s \<and>
    (if length (live (plist s)) < 8 then plist s' = live (plist s)
     else \<exists>j. 1 \<le> j \<and> j < length (live (plist s)) \<and>
       (\<forall>k. 1 \<le> k \<and> k < length (live (plist s)) \<longrightarrow>
          lease_timer (pnode (live (plist s) ! j)) \<le> lease_timer (pnode (live (plist s) ! k))) \<and>
       plist s' = take j (live (plist s)) @ drop (Suc j) (live (plist s)))"
proof -
  have pool: "pool_ok (lease s) (plist s)" using assms by (simp add: dhcps_inv_def)
  then have d: "distinct (map node_addr (plist s))" by (simp add: pool_ok_def)
  have t: "tmr_loop (plist s) (plist s) 0 = (live (plist s), of_nat (length (live (plist s))))"
    using tmr_loop_eq [of "[]" "plist s" 0] d by simp
  have lv: "pool_ok (lease s) (live (plist s))" using pool by (rule pool_ok_live)
  then have len: "length (live (plist s)) \<le> 255" using pool_length by (auto simp: pool_ok_def)
  have cmp: "MAX_STATION_NUM \<le> (of_nat (length (live (plist s))) :: u8) \<longleftrightarrow> 8 \<le> length (live (plist s))"
    using len by (simp add: word_le_nat_alt unat_of_nat_u8)
  show ?thesis
  proof (cases "length (live (plist s)) < 8")
    case True
    then show ?thesis
      using assms lv by (simp add: dhcps_coarse_tmr_def t cmp dhcps_inv_def config_of_def)
  next
    case False
    then obtain j where j: "1 \<le> j" "j < length (live (plist s))"
      "\<forall>k. 1 \<le> k \<and> k < length (live (plist s)) \<longrightarrow>
          lease_timer (pnode (live (plist s) ! j)) \<le> lease_timer (pnode (live (plist s) ! k))"
      "kill_oldest_dhcps_pool (live (plist s)) = Some (take j (live (plist s)) @ drop (Suc j) (live (plist s)))"
      using kill_oldest [of "live (plist s)"] by auto
    define s' where "s' = s\<lparr>plist := take j (live (plist s)) @ drop (Suc j) (live (plist s))\<rparr>"
    have "dhcps_coarse_tmr s = Some s'"
      using False j(4) by (simp add: dhcps_coarse_tmr_def t cmp s'_def)
    moreover have "dhcps_inv s'" "config_of s' = config_of s"
      using assms pool_ok_drop_one [OF lv] by (auto simp: s'_def dhcps_inv_def config_of_def)
    ultimately show ?thesis using False j(1-3) by (auto simp: s'_def)
  qed
qed

end
