(* ===== verification/Dhcp_Props.thy ===== *)
theory Dhcp_Props
  imports Dhcp_Inv
begin

section \<open>What the DHCP server promises its clients\<close>

text \<open>
  The properties of the server: how one packet changes the pool and what is answered, for each kind of
  request; the states it can reach; the timer; the range it serves.
\<close>

subsection \<open>The answer to a packet\<close>

definition answer_opts :: "dhcps_env \<Rightarrow> dhcps \<Rightarrow> int \<Rightarrow> u8 list option" where
  "answer_opts env s ret =
     (let offer_opts = offer_options (server_address s) (dhcps_lease_time s) (offer s) (ap_gw env)
      in if ret = DHCPS_STATE_OFFER then Some ([53, 1, DHCPOFFER] @ offer_opts @ [255])
         else if ret = DHCPS_STATE_ACK then Some ([53, 1, DHCPACK] @ offer_opts @ [255])
         else if ret = DHCPS_STATE_NAK then Some ([53, 1, DHCPNAK] @ [255])
         else None)"

definition answer :: "dhcps_env \<Rightarrow> dhcps_msg \<Rightarrow> dhcps \<Rightarrow> int \<Rightarrow> u8 list list" where
  "answer env m s ret =
     (case answer_opts env s ret of
        None \<Rightarrow> []
      | Some opts \<Rightarrow> send_pbuf (pbuf_ok env) (reply_msg (client_address s) opts m))"

lemma answer_opts_Some:
  assumes "answer_opts env s ret = Some opts"
  shows "length opts \<le> 308"
    "\<exists>ty os. opts = [53, 1, ty] @ os \<and> (ty = DHCPOFFER \<and> ret = DHCPS_STATE_OFFER \<or>
       ty = DHCPACK \<and> ret = DHCPS_STATE_ACK \<or> ty = DHCPNAK \<and> ret = DHCPS_STATE_NAK)"
  using assms length_offer_options [of "server_address s" "dhcps_lease_time s" "offer s" "ap_gw env"]
  by (auto simp: answer_opts_def Let_def split: if_splits)

text \<open>The message the server sees: the received bytes over what was in memory.\<close>

definition received :: "u8 list \<Rightarrow> u8 list list \<Rightarrow> dhcps_msg" where
  "received junk p = msg_of_bytes (concat (take 2 p) @ drop (length (concat (take 2 p))) junk)"

text \<open>\<open>tlen - 240\<close> as it is passed to \<open>parse_msg\<close>.\<close>

definition opts_len :: "u8 list list \<Rightarrow> u16" where
  "opts_len p = of_int (sint (of_nat (length (concat p)) :: u16) - 240)"

lemma sint_opts_len:
  assumes "length (concat p) \<le> sizeof_dhcps_msg"
  shows "sint (opts_len p) = int (length (concat p)) - 240"
proof -
  have s1: "sint (of_nat (length (concat p)) :: u16) = int (length (concat p))"
    using assms by (simp add: signed_of_nat signed_take_bit_int_eq_self)
  show ?thesis
    unfolding opts_len_def s1 using assms by (simp only: signed_of_int) (simp add: signed_take_bit_int_eq_self)
qed

lemma handle_dhcp_eq:
  assumes "p \<noteq> []" "malloc_msg env = Some junk" "length (concat (take 2 p)) \<le> length junk"
  shows "handle_dhcp env p s =
    map_option (\<lambda>(s', ret). (s', answer env (received junk p) s' ret))
      (parse_msg env (received junk p) (opts_len p) s)"
  using assms unfolding handle_dhcp_def send_offer_eq send_ack_eq send_nak_eq answer_def answer_opts_def
  by (auto simp: put_block_def Let_def received_def opts_len_def split: option.splits bind_splits)

lemma handle_dhcp_overflow:
  assumes "p \<noteq> []" "malloc_msg env = Some junk" "length junk < length (concat (take 2 p))"
  shows "handle_dhcp env p s = None"
  using assms by (simp add: handle_dhcp_def put_block_def)

lemma wf_received:
  "length junk = sizeof_dhcps_msg \<Longrightarrow> length (concat (take 2 p)) \<le> length junk \<Longrightarrow> wf_msg (received junk p)"
  unfolding received_def by (rule wf_msg_of_bytes) auto

text \<open>Any packet that is handled came from one of these two cases.\<close>

lemma handle_dhcp_cases:
  assumes "handle_dhcp env p s = Some (s', out)" "mem_ok env s"
  obtains "s' = s" "out = []" | junk ret where "p \<noteq> []" "malloc_msg env = Some junk" "length junk = sizeof_dhcps_msg"
    "length (concat (take 2 p)) \<le> sizeof_dhcps_msg" "wf_msg (received junk p)"
    "parse_msg env (received junk p) (opts_len p) s = Some (s', ret)"
    "out = answer env (received junk p) s' ret"
proof (cases "p = [] \<or> malloc_msg env = None")
  case True
  then have "s' = s \<and> out = []" using assms by (cases "p = []") (auto simp: handle_dhcp_def)
  then show ?thesis using that(1) by simp
next
  case False
  then obtain junk where junk: "malloc_msg env = Some junk" by auto
  then have len: "length junk = sizeof_dhcps_msg" using assms(2) by (simp add: mem_ok_def)
  have "length (concat (take 2 p)) \<le> length junk"
    using handle_dhcp_overflow [of p env junk s] False junk assms(1) by (auto simp: not_le [symmetric])
  then show ?thesis
    using that(2) [of junk] assms(1) False junk len handle_dhcp_eq [of p env junk s] wf_received [of junk p]
    by (auto simp: eq_commute [of "Some (s', out)"])
qed

subsection \<open>Every packet keeps the pool in order\<close>

text \<open>C2: any packet that is handled, from any client, leaves the server in a state that satisfies its
  invariant: hardware addresses and addresses of the pool are distinct and in order, every address is in the
  configured range and every lease runs; and it changes none of the configuration.\<close>

theorem dhcp_packet_inv:
  assumes "dhcps_inv s" "mem_ok env s" "handle_dhcp env p s = Some (s', out)"
  shows "dhcps_inv s' \<and> config_of s' = config_of s"
  using assms(3,2)
proof (cases rule: handle_dhcp_cases)
  case 1
  then show ?thesis using assms by simp
next
  case (2 junk ret)
  then show ?thesis
    using parse_msg_inv [OF assms(1,2) _ 2(6)] by (auto simp: wf_msg_def)
qed

lemma answer_bytes:
  assumes "wf_msg m" "b \<in> set (answer env m s ret)"
  shows "length b = sizeof_dhcps_msg" "b ! 0 = DHCP_REPLY" "take 4 (drop 4 b) = m_xid m"
    "take 4 (drop 16 b) = le_bytes (client_address s)" "take 16 (drop 28 b) = m_chaddr m"
    "b ! 242 = DHCPOFFER \<and> ret = DHCPS_STATE_OFFER \<or> b ! 242 = DHCPACK \<and> ret = DHCPS_STATE_ACK \<or>
     b ! 242 = DHCPNAK \<and> ret = DHCPS_STATE_NAK"
proof -
  obtain opts where opts: "answer_opts env s ret = Some opts" and b: "b = bytes_of_msg (reply_msg (client_address s) opts m)"
    using assms(2) by (cases "answer_opts env s ret") (auto simp: answer_def send_pbuf_def split: if_splits)
  note o = answer_opts_Some(1) [OF opts] b answer_opts_Some(2) [OF opts]
  have wf: "wf_msg (reply_msg (client_address s) opts m)" using assms(1) o(1) by (rule wf_reply_msg)
  show "length b = sizeof_dhcps_msg" using length_bytes_of_msg [OF wf] o(2) by simp
  have x: "length (m_xid m) = 4" "length (m_chaddr m) = 16" using assms(1) by (auto simp: wf_msg_def)
  show "b ! 0 = DHCP_REPLY" "take 4 (drop 4 b) = m_xid m"
    "take 4 (drop 16 b) = le_bytes (client_address s)" "take 16 (drop 28 b) = m_chaddr m"
    using x by (simp_all add: o(2) bytes_of_msg_def reply_msg_def create_msg_def)
  show "b ! 242 = DHCPOFFER \<and> ret = DHCPS_STATE_OFFER \<or> b ! 242 = DHCPACK \<and> ret = DHCPS_STATE_ACK \<or>
     b ! 242 = DHCPNAK \<and> ret = DHCPS_STATE_NAK"
    using o(3) x by (auto simp: o(2) bytes_of_msg_def reply_msg_def create_msg_def nth_append)
qed

text \<open>C3: every datagram the server sends is one BOOTREPLY of 548 bytes; if it is an offer or an
  acknowledgement, the address in its \<open>yiaddr\<close> field is the one the pool binds to the hardware
  address in its \<open>chaddr\<close> field.\<close>

theorem dhcp_reply_bound:
  assumes "dhcps_inv s" "mem_ok env s" "handle_dhcp env p s = Some (s', out)" "b \<in> set out"
  shows "length b = sizeof_dhcps_msg \<and> b ! 0 = DHCP_REPLY \<and> b ! 242 \<in> {DHCPOFFER, DHCPACK, DHCPNAK} \<and>
    (b ! 242 \<noteq> DHCPNAK \<longrightarrow>
      (\<exists>a. take 4 (drop 16 b) = le_bytes a \<and> bound s' (take 6 (drop 28 b)) a))"
  using assms(3,2)
proof (cases rule: handle_dhcp_cases)
  case 1
  then show ?thesis using assms by simp
next
  case (2 junk ret)
  have b: "b \<in> set (answer env (received junk p) s' ret)" using assms(4) 2(7) by simp
  note a = answer_bytes [OF 2(5) b]
  have "take 6 (drop 28 b) = take 6 (m_chaddr (received junk p))"
    using arg_cong [OF a(5), of "take 6"] by simp
  then show ?thesis
    using parse_msg_inv [OF assms(1,2) _ 2(6)] 2(5) a by (auto simp: wf_msg_def)
qed

subsection \<open>What each kind of request does\<close>

text \<open>
  A request whose options are well-formed: the received bytes hold the cookie, the options \<open>ts\<close> and the
  end marker. The rest of the packet and of the memory is arbitrary.
\<close>

definition valid_request :: "dhcps_env \<Rightarrow> u8 list list \<Rightarrow> tlv list \<Rightarrow> dhcps_msg \<Rightarrow> bool" where
  "valid_request env p ts m \<longleftrightarrow> p \<noteq> [] \<and> length p \<le> 2 \<and> length (concat p) \<le> sizeof_dhcps_msg \<and>
     (case malloc_msg env of
        None \<Rightarrow> False
      | Some junk \<Rightarrow> length junk = sizeof_dhcps_msg \<and> m = received junk p) \<and>
     take (4 + length (enc_tlvs ts) + 1) (m_options m) = le_bytes magic_cookie @ enc_tlvs ts @ [DHCP_OPTION_END] \<and>
     (\<forall>t \<in> set ts. wf_tlv t) \<and> 240 + length (enc_tlvs ts) < length (concat p)"

text \<open>The verdict of the options for a client of address \<open>a\<close>.\<close>

definition verdict :: "u32 \<Rightarrow> bool \<Rightarrow> tlv list \<Rightarrow> int" where
  "verdict a ren ts =
     (case scan_tlvs a ts (0, DHCPS_STATE_IDLE) of (type, state) \<Rightarrow> reply_state ren type state)"

definition msg_type :: "tlv list \<Rightarrow> u8" where
  "msg_type ts = fst (scan_tlvs 0 ts (0, DHCPS_STATE_IDLE))"

lemma scan_tlvs_type: "fst (scan_tlvs a ts (ty, st)) = fst (scan_tlvs b ts (ty, st'))"
proof (induction ts arbitrary: ty st st')
  case (Cons t ts)
  then show ?case by (cases t) auto
qed simp

lemma msg_type: "fst (scan_tlvs a ts (0, DHCPS_STATE_IDLE)) = msg_type ts"
  unfolding msg_type_def by (rule scan_tlvs_type)

lemma valid_request_wf: "valid_request env p ts m \<Longrightarrow> wf_msg m"
  using wf_received by (fastforce simp: valid_request_def split: option.splits)

lemma parse_valid:
  assumes "valid_request env p ts m"
  shows "parse_options a ren (m_options m) (sint (opts_len p)) =
    Some (verdict a ren ts)"
proof -
  let ?n = "length (concat p)"
  have n: "?n \<le> 548" "240 + length (enc_tlvs ts) < ?n" using assms by (auto simp: valid_request_def)
  obtain post where "m_options m = le_bytes magic_cookie @ enc_tlvs ts @ [DHCP_OPTION_END] @ post"
    using assms unfolding valid_request_def
    by (metis append_assoc append_take_drop_id)
  then show ?thesis
    using parse_options_tlvs [of "le_bytes magic_cookie" ts "int ?n - 240" a ren post] n assms
    by (simp add: sint_opts_len verdict_def valid_request_def)
qed

lemma handle_valid:
  assumes "valid_request env p ts m"
  shows "handle_dhcp env p s = map_option (\<lambda>(s', ret). (s', answer env m s' ret))
    (do { (s, pn) \<leftarrow> pool_search env m s;
          pool_check env m (sint (opts_len p)) pn s })"
proof -
  obtain junk where j: "malloc_msg env = Some junk" "length junk = sizeof_dhcps_msg" "m = received junk p"
    using assms by (auto simp: valid_request_def split: option.splits)
  have p: "take 2 p = p" "p \<noteq> []" "length (concat p) \<le> 548" using assms by (auto simp: valid_request_def)
  have "take 4 (take (4 + length (enc_tlvs ts) + 1) (m_options m)) = le_bytes magic_cookie"
    using assms by (simp add: valid_request_def)
  then have "take 4 (m_options m) = le_bytes magic_cookie" by (simp add: min_def)
  then show ?thesis
    using handle_dhcp_eq [of p env junk s] p j by (simp add: parse_msg_def)
qed

text \<open>For a client with a node, the pool check is the verdict of its options.\<close>

lemma check_valid:
  assumes "valid_request env p ts m" "dhcps_inv s" "n \<in> set (plist s)" "node_ip n = client_address s"
  shows "pool_check env m (sint (opts_len p)) (Some n) s =
    (let ret = verdict (client_address s) (renew s) ts;
         s' = (if ret = DHCPS_STATE_RELEASE then (remove_node (Some n) s)\<lparr>client_address := 0\<rparr> else s)
     in Some (s', if set_station_info env (m_chaddr m) (client_address s') then ret else 0))"
  using assms by (simp add: pool_check_some parse_valid Let_def)

lemma handle_hit:
  assumes v: "valid_request env p ts m" and inv: "dhcps_inv s" and b: "bound s (take 6 (m_chaddr m)) a"
  shows "\<exists>s1 n. dhcps_inv s1 \<and> config_of s1 = config_of s \<and> client_address s1 = a \<and>
    (\<forall>c x. bound s1 c x = bound s c x) \<and> n \<in> set (plist s1) \<and> node_mac n = take 6 (m_chaddr m) \<and>
    (let ret = verdict a (le_bytes a = m_ciaddr m) ts;
         s' = (if ret = DHCPS_STATE_RELEASE then (remove_node (Some n) s1)\<lparr>client_address := 0\<rparr> else s1)
     in handle_dhcp env p s =
       Some (s', answer env m s' (if set_station_info env (m_chaddr m) (client_address s') then ret else 0)))"
proof -
  obtain n where n: "n \<in> set (plist s)" "node_mac n = take 6 (m_chaddr m)" "node_ip n = a"
    using b by (auto simp: bound_def)
  obtain s1 n' where s1: "pool_search env m s = Some (s1, Some n')" "dhcps_inv s1" "config_of s1 = config_of s"
    "same_nodes (plist s1) (plist s)" "n' \<in> set (plist s1)" "node_ip n' = a"
    "node_mac n' = take 6 (m_chaddr m)" "client_address s1 = a" "renew s1 = (le_bytes a = m_ciaddr m)"
    using pool_search_hit [OF inv n(1,2), of env] n(2,3) by auto
  have c: "node_ip n' = client_address s1" using s1 by simp
  show ?thesis
    using s1 same_nodes_bound [OF s1(4)] check_valid [OF v s1(2,5) c]
    by (intro exI [of _ s1] exI [of _ n']) (simp add: handle_valid [OF v] Let_def)
qed

lemma bound_insert:
  "bound (s\<lparr>plist := node_insert_to_list ps n\<rparr>) c a \<longleftrightarrow> c = node_mac n \<and> a = node_ip n \<or> bound (s\<lparr>plist := ps\<rparr>) c a"
  by (auto simp: bound_def)

lemma verdict_discover: "msg_type ts = DHCPDISCOVER \<Longrightarrow> verdict a ren ts = DHCPS_STATE_OFFER"
  using msg_type [of a ts] by (auto simp: verdict_def reply_state_def split: prod.splits)


text \<open>C4: let the server be in a state of its invariant (\<open>dhcps_inv\<close>: above all, its range does not end in
  host 255), let the memory for the message and for a new node be there (\<open>valid_request\<close>, \<open>mem_ok\<close>) and
  let the packet be a well-formed DHCPDISCOVER. If the client has an address or one of the range is free, the client
  keeps its address if it has one and otherwise gets one that nobody has, and no other binding changes; the answer is an
  offer of that address when \<open>wifi_softap_set_station_info\<close> accepts it, and nothing is sent when it does not (the
  binding stays). A client that is new when the range is exhausted is refused, and then no binding changes.\<close>

theorem dhcp_discover:
  assumes v: "valid_request env p ts m" and inv: "dhcps_inv s" and mem: "mem_ok env s"
    and ty: "msg_type ts = DHCPDISCOVER"
  shows "\<exists>s' out. handle_dhcp env p s = Some (s', out) \<and>
    (if (\<exists>a. bound s (take 6 (m_chaddr m)) a) \<or> free_hosts s \<noteq> {} then
       (\<exists>a. bound s' (take 6 (m_chaddr m)) a \<and>
          (bound s (take 6 (m_chaddr m)) a \<or>
             host a \<in> free_hosts s \<and> (\<forall>x. \<not> bound s (take 6 (m_chaddr m)) x)) \<and>
          (\<forall>c x. c \<noteq> take 6 (m_chaddr m) \<longrightarrow> bound s' c x = bound s c x) \<and>
          out = (if set_station_info env (m_chaddr m) a
             then send_pbuf (pbuf_ok env) (reply_msg a ([53, 1, DHCPOFFER] @
               offer_options (server_address s) (dhcps_lease_time s) (offer s) (ap_gw env) @ [255]) m)
             else []))
     else (\<forall>c x. bound s' c x = bound s c x) \<and>
       out = send_pbuf (pbuf_ok env) (reply_msg (client_address s') [53, 1, DHCPNAK, 255] m))"
proof (cases "\<exists>a. bound s (take 6 (m_chaddr m)) a")
  case True
  then obtain a where a: "bound s (take 6 (m_chaddr m)) a" by auto
  obtain s1 n where s1: "config_of s1 = config_of s" "client_address s1 = a" "\<forall>c x. bound s1 c x = bound s c x"
    "handle_dhcp env p s = Some (s1, answer env m s1
       (if set_station_info env (m_chaddr m) a then DHCPS_STATE_OFFER else 0))"
    using handle_hit [OF v inv a] by (auto simp: verdict_discover [OF ty])
  then show ?thesis using a
    by (intro exI [of _ s1] exI [of _ "answer env m s1
        (if set_station_info env (m_chaddr m) a then DHCPS_STATE_OFFER else 0)"])
      (auto simp: answer_def answer_opts_def config_of_def Let_def)
next
  case False
  then have miss: "\<forall>n \<in> set (plist s). node_mac n \<noteq> take 6 (m_chaddr m)" by (auto simp: bound_def)
  have len: "length (m_chaddr m) = 16" using valid_request_wf [OF v] by (simp add: wf_msg_def)
  obtain a0 where m: "fresh_node env s" "malloc_pool env" "malloc_node env = Some a0"
    using mem by (auto simp: mem_ok_def)
  obtain s1 pn where s1: "pool_search env m s = Some (s1, pn)" "dhcps_inv s1" "config_of s1 = config_of s"
    "net (client_address s1) = net (start_ip (lease s))"
    "if free_hosts s = {} then pn = None \<and> plist s1 = plist s \<and>
       host (end_ip (lease s)) < host (client_address s1)
     else \<exists>n. pn = Some n \<and> node_addr n = a0 \<and> node_mac n = take 6 (m_chaddr m) \<and>
       node_ip n = client_address s1 \<and> lease_timer (pnode n) = dhcps_lease_time s \<and>
       host (client_address s1) \<in> free_hosts s \<and> plist s1 = node_insert_to_list (plist s) n"
    using pool_search_miss [OF inv miss m len] by blast
  have l: "lease s1 = lease s" "server_address s1 = server_address s" "offer s1 = offer s"
    "dhcps_lease_time s1 = dhcps_lease_time s"
    using s1(3) by (auto simp: config_of_def)
  show ?thesis
  proof (cases "free_hosts s = {}")
    case True
    then have p: "pn = None" "plist s1 = plist s" "host (end_ip (lease s)) < host (client_address s1)"
      using s1(5) by auto
    have "handle_dhcp env p s = Some (s1, answer env m s1 DHCPS_STATE_NAK)"
      using pool_check_none [OF s1(2)] s1(1,4) p l by (simp add: handle_valid [OF v])
    then show ?thesis using True False p
      by (auto simp: answer_def answer_opts_def Let_def bound_def)
  next
    case ne: False
    then obtain n where n: "pn = Some n" "node_mac n = take 6 (m_chaddr m)" "node_ip n = client_address s1"
      "host (client_address s1) \<in> free_hosts s" "plist s1 = node_insert_to_list (plist s) n"
      using s1(5) by auto
    have mem_n: "n \<in> set (plist s1)" using n(5) by simp
    have "handle_dhcp env p s = Some (s1, answer env m s1
        (if set_station_info env (m_chaddr m) (client_address s1) then DHCPS_STATE_OFFER else 0))"
      using check_valid [OF v s1(2) mem_n n(3)] s1(1) n(1)
      by (simp add: handle_valid [OF v] verdict_discover [OF ty])
    moreover have "bound s1 c x \<longleftrightarrow> c = node_mac n \<and> x = node_ip n \<or> bound s c x" for c x
      using n(5) by (auto simp: bound_def)
    ultimately show ?thesis using ne False n l
      by (intro exI [of _ s1] exI [of _ "answer env m s1
          (if set_station_info env (m_chaddr m) (client_address s1) then DHCPS_STATE_OFFER else 0)"])
        (auto simp: answer_def answer_opts_def Let_def)
  qed
qed

text \<open>The last address the options ask for.\<close>

definition requested :: "tlv list \<Rightarrow> u8 list option" where
  "requested ts = (case filter (\<lambda>t. fst t = DHCP_OPTION_REQ_IPADDR) ts of
     [] \<Rightarrow> None | r # rs \<Rightarrow> Some (take 4 (snd (last (r # rs)))))"

lemma scan_tlvs_state:
  "snd (scan_tlvs a ts (ty, st)) =
     (case requested ts of None \<Rightarrow> st
      | Some r \<Rightarrow> if le_bytes a = r then DHCPS_STATE_ACK else DHCPS_STATE_NAK)"
proof (induction ts arbitrary: ty st)
  case (Cons t ts)
  then show ?case by (cases t) (auto simp: requested_def split: list.splits)
qed (simp add: requested_def)

lemma verdict_request:
  "msg_type ts = DHCPREQUEST \<Longrightarrow>
     verdict a ren ts =
       (case requested ts of
          None \<Rightarrow> if ren then DHCPS_STATE_ACK else DHCPS_STATE_NAK
        | Some r \<Rightarrow> if le_bytes a = r then DHCPS_STATE_ACK else DHCPS_STATE_NAK)"
  using msg_type [of a ts] scan_tlvs_state [of a ts 0 DHCPS_STATE_IDLE]
  by (auto simp: verdict_def reply_state_def split: prod.splits option.splits)

text \<open>C5: let the server be in a state of its invariant (its range does not end in host 255) and the memory for
  the message be there. When \<open>wifi_softap_set_station_info\<close> accepts the client with its address \<open>a\<close>, a
  well-formed DHCPREQUEST of the client is acknowledged with \<open>a\<close> if the last address its options ask for is
  \<open>a\<close>, or, when they ask for none, if it names \<open>a\<close> as its own (a renewal), and refused otherwise; when
  that call returns false nothing is sent. In every case no binding changes.\<close>

theorem dhcp_request:
  assumes "valid_request env p ts m" "dhcps_inv s" "bound s (take 6 (m_chaddr m)) a"
    "msg_type ts = DHCPREQUEST"
  shows "\<exists>s' out. handle_dhcp env p s = Some (s', out) \<and> (\<forall>c x. bound s' c x = bound s c x) \<and>
    out = (if \<not> set_station_info env (m_chaddr m) a then []
      else send_pbuf (pbuf_ok env) (reply_msg a
        (if (case requested ts of None \<Rightarrow> m_ciaddr m | Some r \<Rightarrow> r) = le_bytes a
         then [53, 1, DHCPACK] @
           offer_options (server_address s) (dhcps_lease_time s) (offer s) (ap_gw env) @ [255]
         else [53, 1, DHCPNAK, 255]) m))"
proof -
  define ret where "ret = verdict a (le_bytes a = m_ciaddr m) ts"
  have ret: "ret = (if (case requested ts of None \<Rightarrow> m_ciaddr m | Some r \<Rightarrow> r) = le_bytes a
      then DHCPS_STATE_ACK else DHCPS_STATE_NAK)"
    by (auto simp: ret_def verdict_request [OF assms(4)] split: option.splits)
  obtain s1 where s1: "config_of s1 = config_of s" "client_address s1 = a" "\<forall>c x. bound s1 c x = bound s c x"
    "handle_dhcp env p s =
       Some (s1, answer env m s1 (if set_station_info env (m_chaddr m) a then ret else 0))"
    using handle_hit [OF assms(1-3)] ret by (auto simp: ret_def [symmetric] Let_def split: if_splits)
  have "answer env m s1 ret = send_pbuf (pbuf_ok env) (reply_msg a
      (if (case requested ts of None \<Rightarrow> m_ciaddr m | Some r \<Rightarrow> r) = le_bytes a
       then [53, 1, DHCPACK] @
         offer_options (server_address s) (dhcps_lease_time s) (offer s) (ap_gw env) @ [255]
       else [53, 1, DHCPNAK, 255]) m)" "answer env m s1 0 = []"
    using s1(1,2) by (simp_all add: answer_def answer_opts_def Let_def config_of_def ret)
  then show ?thesis using s1(3,4) by (cases "set_station_info env (m_chaddr m) a") auto
qed

text \<open>A DHCPRELEASE is not answered; it removes the binding of the client that sent it and no other.\<close>

lemma dhcp_release:
  assumes "valid_request env p ts m" "dhcps_inv s" "bound s (take 6 (m_chaddr m)) a"
    "msg_type ts = DHCPRELEASE"
  shows "\<exists>s'. handle_dhcp env p s = Some (s', []) \<and>
    (\<forall>c x. bound s' c x \<longleftrightarrow> bound s c x \<and> c \<noteq> take 6 (m_chaddr m))"
proof -
  have "verdict a (le_bytes a = m_ciaddr m) ts = DHCPS_STATE_RELEASE"
    using msg_type [of a ts] assms(4) by (auto simp: verdict_def reply_state_def split: prod.splits)
  then obtain s1 n where s1: "dhcps_inv s1" "\<forall>c x. bound s1 c x = bound s c x" "n \<in> set (plist s1)"
    "node_mac n = take 6 (m_chaddr m)"
    "handle_dhcp env p s = Some ((remove_node (Some n) s1)\<lparr>client_address := 0\<rparr>, [])"
    using handle_hit [OF assms(1-3)] by (auto simp: Let_def answer_def answer_opts_def)
  have d: "distinct (map node_addr (plist s1))" "distinct (map node_mac (plist s1))"
    using s1(1) by (auto simp: dhcps_inv_def pool_ok_def)
  have "node_addr k \<noteq> node_addr n \<longleftrightarrow> node_mac k \<noteq> node_mac n" if "k \<in> set (plist s1)" for k
    using d that s1(3) by (metis distinct_map inj_onD)
  then have "bound ((remove_node (Some n) s1)\<lparr>client_address := 0\<rparr>) c x \<longleftrightarrow> bound s1 c x \<and> c \<noteq> node_mac n" for c x
    by (auto simp: bound_def remove_node_def node_remove_eq [OF d(1)])
  then show ?thesis using s1(2,4,5) by auto
qed

subsection \<open>All reachable states\<close>


inductive dhcps_reach :: "(dhcps_lease \<Rightarrow> bool) \<Rightarrow> bool \<Rightarrow> dhcps \<Rightarrow> bool" for cfg :: "dhcps_lease \<Rightarrow> bool" where
  boot: "dhcps_reach cfg False dhcps_0"
| set_lease: "dhcps_reach cfg False s \<Longrightarrow>
     wifi_softap_set_dhcps_lease opmode status a please s = (r, s') \<Longrightarrow> dhcps_reach cfg False s'"
| start: "dhcps_reach cfg False s \<Longrightarrow>
     enable (lease s) \<longrightarrow> cfg (lease s) \<Longrightarrow>
     espconn_dhcps_start pcb (Some a) s = Some s' \<Longrightarrow> dhcps_reach cfg True s'"
| packet: "dhcps_reach cfg True s \<Longrightarrow> mem_ok env s \<Longrightarrow> handle_dhcp env p s = Some (s', out) \<Longrightarrow>
     dhcps_reach cfg True s'"
| tick: "dhcps_reach cfg True s \<Longrightarrow> dhcps_coarse_tmr s = Some s' \<Longrightarrow> dhcps_reach cfg True s'"
| set_offer: "dhcps_reach cfg run s \<Longrightarrow>
     wifi_softap_set_dhcps_offer_option status level optarg s = Some (r, s') \<Longrightarrow> dhcps_reach cfg run s'"
| set_time: "dhcps_reach cfg run s \<Longrightarrow>
     wifi_softap_set_dhcps_lease_time opmode status minute s = (r, s') \<Longrightarrow> dhcps_reach cfg run s'"
| reset_time: "dhcps_reach cfg run s \<Longrightarrow>
     wifi_softap_reset_dhcps_lease_time opmode status s = (r, s') \<Longrightarrow> dhcps_reach cfg run s'"
| stop: "dhcps_reach cfg True s \<Longrightarrow> dhcps_reach cfg False (espconn_dhcps_stop s)"








subsection \<open>Timer, range and option parser\<close>

text \<open>C21: a tick of the coarse timer keeps the invariant; it takes one minute from every lease, drops the leases
  that have run out, and, if eight or more are left, drops one more: one with the least time left among all but the first.\<close>

theorem dhcp_tick:
  assumes "dhcps_inv s"
  shows "\<exists>s'. dhcps_coarse_tmr s = Some s' \<and> dhcps_inv s' \<and>
    (if length (live (plist s)) < 8 then plist s' = live (plist s)
     else \<exists>j. 1 \<le> j \<and> j < length (live (plist s)) \<and>
       (\<forall>k. 1 \<le> k \<and> k < length (live (plist s)) \<longrightarrow>
          lease_timer (pnode (live (plist s) ! j)) \<le> lease_timer (pnode (live (plist s) ! k))) \<and>
       plist s' = take j (live (plist s)) @ drop (Suc j) (live (plist s)))"
  using coarse_tmr [OF assms] by blast

text \<open>whatever range was configured, the range the server starts with is in the network of the access point,
  does not hold its address, and has between 1 and 101 addresses; a configured range that is not such a range is
  replaced by the default one.\<close>

lemma dhcp_range:
  fixes a :: u32 and l :: dhcps_lease
  defines "l' \<equiv> wifi_softap_init_dhcps_lease a l"
  shows "net (start_ip l') = net a \<and> net (end_ip l') = net a \<and> host (start_ip l') \<le> host (end_ip l') \<and>
    host (end_ip l') \<le> host (start_ip l') + 100 \<and>
    \<not> (host (start_ip l') \<le> host a \<and> host a \<le> host (end_ip l')) \<and> (enable l' \<longrightarrow> l' = l)"
  using init_lease [of l' a l] by (auto simp: l'_def)

text \<open>C22: on well-formed options followed by the end marker, \<open>parse_options\<close> stays within the option bytes and
  returns the state that the last message type and the last requested address determine, whatever follows the
  marker.\<close>

theorem dhcp_parse_options:
  assumes "\<forall>t \<in> set ts. wf_tlv t" "int (length (enc_tlvs ts)) < len"
  shows "parse_options client ren (le_bytes magic_cookie @ enc_tlvs ts @ [DHCP_OPTION_END] @ post) len =
    Some (reply_state ren (msg_type ts)
      (case requested ts of None \<Rightarrow> DHCPS_STATE_IDLE
       | Some r \<Rightarrow> if le_bytes client = r then DHCPS_STATE_ACK else DHCPS_STATE_NAK))"
  using parse_options_tlvs [of "le_bytes magic_cookie" ts len client ren post] assms
    msg_type [of client ts] scan_tlvs_state [of client ts 0 DHCPS_STATE_IDLE]
  by (cases "scan_tlvs client ts (0, DHCPS_STATE_IDLE)") simp

subsection \<open>A concrete server\<close>

text \<open>
  The access point 192.168.4.1 as \<open>espconn_dhcps_start\<close> sets it up, one client that is bound to
  192.168.4.2, and the packets it sends.
\<close>

definition sample_env :: dhcps_env where
  "sample_env = \<lparr>malloc_msg = Some (replicate 548 0), malloc_pool = True, malloc_node = Some 8,
     pbuf_ok = True, ap_gw = 0x0104A8C0, set_station_info = (\<lambda>_ _. True)\<rparr>"

definition sample_server :: dhcps where
  "sample_server = dhcps_0\<lparr>server_address := 0x0104A8C0,
     lease := \<lparr>enable = False, start_ip = 0x0204A8C0, end_ip = 0x6504A8C0\<rparr>,
     client_address_plus := 0x0304A8C0,
     plist := [\<lparr>node_addr = 7, pnode = \<lparr>ip = 0x0204A8C0, mac = [10, 11, 12, 13, 14, 15], lease_timer = 120\<rparr>\<rparr>]\<rparr>"

definition sample_msg :: "u8 list \<Rightarrow> u8 list \<Rightarrow> dhcps_msg" where
  "sample_msg client opts = \<lparr>m_op = 1, m_htype = 1, m_hlen = 6, m_hops = 0, m_xid = [1, 2, 3, 4], m_secs = 0,
     m_flags = 0, m_ciaddr = replicate 4 0, m_yiaddr = replicate 4 0, m_siaddr = replicate 4 0,
     m_giaddr = replicate 4 0, m_chaddr = client @ replicate 10 0, m_sname = replicate 64 0,
     m_file = replicate 128 0,
     m_options = [99, 130, 83, 99] @ opts @ [255] @ replicate (307 - length opts) 0\<rparr>"

abbreviation sample_discover :: dhcps_msg where
  "sample_discover \<equiv> sample_msg [20, 21, 22, 23, 24, 25] [53, 1, 1]"

abbreviation sample_request :: dhcps_msg where
  "sample_request \<equiv> sample_msg [10, 11, 12, 13, 14, 15] [53, 1, 3, 50, 4, 192, 168, 4, 2]"

abbreviation sample_release :: dhcps_msg where
  "sample_release \<equiv> sample_msg [10, 11, 12, 13, 14, 15] [53, 1, 7]"

lemma sample_inv: "dhcps_inv sample_server"
  by (simp add: dhcps_inv_def lease_ok_def pool_ok_def sample_server_def dhcps_0_def host_def net_def)

lemma sample_mem: "mem_ok sample_env sample_server"
  by (simp add: mem_ok_def sample_env_def sample_server_def fresh_node_def dhcps_0_def)

lemma sample_bound: "bound sample_server [10, 11, 12, 13, 14, 15] 0x0204A8C0"
  by (simp add: bound_def sample_server_def)

lemma wf_sample: "length c = 6 \<Longrightarrow> length opts \<le> 307 \<Longrightarrow> wf_msg (sample_msg c opts)"
  by (simp add: wf_msg_def sample_msg_def)

lemma received_msg: "wf_msg m \<Longrightarrow> received junk [bytes_of_msg m] = m" if "length junk = sizeof_dhcps_msg"
  using that by (simp add: received_def length_bytes_of_msg msg_of_bytes_of_msg)

lemma sample_valid:
  assumes "length c = 6" "length (enc_tlvs ts) \<le> 307" "\<forall>t \<in> set ts. wf_tlv t"
  shows "valid_request sample_env [bytes_of_msg (sample_msg c (enc_tlvs ts))] ts (sample_msg c (enc_tlvs ts))"
proof -
  have wf: "wf_msg (sample_msg c (enc_tlvs ts))" using assms by (intro wf_sample)
  have j: "length (replicate 548 (0 :: u8)) = sizeof_dhcps_msg" by simp
  have c: "le_bytes magic_cookie = [99, 130, 83, 99]" by (simp add: le_bytes_def magic_cookie_def)
  let ?X = "le_bytes magic_cookie @ enc_tlvs ts @ [255]"
  have "m_options (sample_msg c (enc_tlvs ts)) = ?X @ replicate (307 - length (enc_tlvs ts)) 0"
    by (simp add: sample_msg_def c)
  then have "take (4 + length (enc_tlvs ts) + 1) (m_options (sample_msg c (enc_tlvs ts))) = ?X"
    by simp
  then show ?thesis
    using assms received_msg [OF j wf] length_bytes_of_msg [OF wf]
    by (simp add: valid_request_def sample_env_def)
qed

lemma sample_valid_discover: "valid_request sample_env [bytes_of_msg sample_discover] [(53, [1])] sample_discover"
  using sample_valid [of "[20, 21, 22, 23, 24, 25]" "[(53, [1])]"] by (simp add: wf_tlv_def)

lemma sample_valid_request: "valid_request sample_env [bytes_of_msg sample_request]
    [(53, [3]), (50, [192, 168, 4, 2])] sample_request"
  using sample_valid [of "[10, 11, 12, 13, 14, 15]" "[(53, [3]), (50, [192, 168, 4, 2])]"]
  by (simp add: wf_tlv_def)

lemma sample_valid_release: "valid_request sample_env [bytes_of_msg sample_release] [(53, [7])] sample_release"
  using sample_valid [of "[10, 11, 12, 13, 14, 15]" "[(53, [7])]"] by (simp add: wf_tlv_def)

lemma sample_chaddr: "length c = 6 \<Longrightarrow> take 6 (m_chaddr (sample_msg c opts)) = c"
  by (simp add: sample_msg_def)

lemma sample_handled: "\<exists>s' b. handle_dhcp sample_env [bytes_of_msg sample_request] sample_server = Some (s', [b])"
proof -
  have b: "bound sample_server (take 6 (m_chaddr sample_request)) 0x0204A8C0"
    using sample_bound by (simp add: sample_chaddr)
  have t: "msg_type [(53, [3]), (50, [192, 168, 4, 2])] = 3" by (simp add: msg_type_def)
  have l: "le_bytes 0x0204A8C0 = [192, 168, 4, 2]" by (simp add: le_bytes_def)
  show ?thesis
    using handle_hit [OF sample_valid_request sample_inv b]
    by (auto simp: verdict_request [OF t] requested_def l answer_def answer_opts_def send_pbuf_def
        sample_env_def Let_def)
qed

subsection \<open>The properties at that server\<close>

lemma dhcp_packet_inv_witness:
  "\<exists>s' out. handle_dhcp sample_env [bytes_of_msg sample_request] sample_server = Some (s', out) \<and> dhcps_inv s'"
  using sample_handled dhcp_packet_inv [OF sample_inv sample_mem, of "[bytes_of_msg sample_request]"] by blast

lemma dhcp_reply_bound_witness:
  "\<exists>s' b. handle_dhcp sample_env [bytes_of_msg sample_request] sample_server = Some (s', [b]) \<and> length b = 548 \<and>
     b ! 0 = 2"
  using sample_handled dhcp_reply_bound [OF sample_inv sample_mem, of "[bytes_of_msg sample_request]"] by fastforce

lemma dhcp_discover_witness:
  "\<exists>s' out. handle_dhcp sample_env [bytes_of_msg sample_discover] sample_server = Some (s', out) \<and>
     (\<exists>a. bound s' [20, 21, 22, 23, 24, 25] a)"
proof -
  have "3 \<in> free_hosts sample_server" by (simp add: free_hosts_def sample_server_def host_def)
  then have free: "free_hosts sample_server \<noteq> {}" by auto
  have "msg_type [(53, [1])] = 1" by (simp add: msg_type_def)
  from dhcp_discover [OF sample_valid_discover sample_inv sample_mem this] free
  show ?thesis by (auto simp: sample_chaddr)
qed

lemma dhcp_request_witness:
  "\<exists>s'. handle_dhcp sample_env [bytes_of_msg sample_request] sample_server =
     Some (s', [bytes_of_msg (reply_msg 0x0204A8C0 ([53, 1, 5] @
        offer_options 0x0104A8C0 120 0xFF 0x0104A8C0 @ [255]) sample_request)])"
proof -
  have b: "bound sample_server (take 6 (m_chaddr sample_request)) 0x0204A8C0"
    using sample_bound by (simp add: sample_chaddr)
  have t: "msg_type [(53, [3]), (50, [192, 168, 4, 2])] = 3" by (simp add: msg_type_def)
  have l: "le_bytes 0x0204A8C0 = [192, 168, 4, 2]" by (simp add: le_bytes_def)
  show ?thesis
    using dhcp_request [OF sample_valid_request sample_inv b t]
    by (auto simp: requested_def l send_pbuf_def sample_env_def sample_server_def dhcps_0_def)
qed

lemma dhcp_release_witness:
  "\<exists>s'. handle_dhcp sample_env [bytes_of_msg sample_release] sample_server = Some (s', []) \<and>
     \<not> bound s' [10, 11, 12, 13, 14, 15] 0x0204A8C0"
proof -
  have b: "bound sample_server (take 6 (m_chaddr sample_release)) 0x0204A8C0"
    using sample_bound by (simp add: sample_chaddr)
  have t: "msg_type [(53, [7])] = 7" by (simp add: msg_type_def)
  show ?thesis
    using dhcp_release [OF sample_valid_release sample_inv b t] by (auto simp: sample_chaddr)
qed


lemma dhcp_tick_witness:
  "\<exists>s'. dhcps_coarse_tmr sample_server = Some s' \<and> map (\<lambda>n. lease_timer (pnode n)) (plist s') = [119]"
  using dhcp_tick [OF sample_inv] by (auto simp: live_def sample_server_def)

lemma dhcp_parse_options_witness:
  "parse_options 0x0204A8C0 False (le_bytes magic_cookie @ enc_tlvs [(53, [3]), (50, [192, 168, 4, 2])] @ [255] @ [9, 9]) 20 =
     Some 3"
proof -
  have l: "le_bytes 0x0204A8C0 = [192, 168, 4, 2]" by (simp add: le_bytes_def)
  show ?thesis
    by (subst dhcp_parse_options)
      (simp_all add: wf_tlv_def msg_type_def requested_def reply_state_def l)
qed

lemma dhcp_range_witness:
  "host (start_ip (wifi_softap_init_dhcps_lease 0x0104A8C0 \<lparr>enable = True, start_ip = 0x6404A8C0, end_ip = 0x7804A8C0\<rparr>)) \<le>
     host (end_ip (wifi_softap_init_dhcps_lease 0x0104A8C0 \<lparr>enable = True, start_ip = 0x6404A8C0, end_ip = 0x7804A8C0\<rparr>))"
  using dhcp_range [of "0x0104A8C0" "\<lparr>enable = True, start_ip = 0x6404A8C0, end_ip = 0x7804A8C0\<rparr>"] by blast

subsection \<open>A range that ends in host 255\<close>

text \<open>
  \<open>wifi_softap_set_dhcps_lease\<close> accepts the range 192.168.4.255 to 192.168.4.255. The address after
  its last one is 192.168.5.0, and the test against the end of the range compares the words as they are in memory, the
  host byte in the highest place, so 192.168.5.0 counts as before the end. The second client that asks for an address is
  bound to it: outside the range and outside the network of the access point. So \<open>servable\<close> cannot be dropped
  from \<open>dhcp_no_conflict\<close>.
\<close>

definition edge_lease :: dhcps_lease where
  "edge_lease = \<lparr>enable = True, start_ip = 0xFF04A8C0, end_ip = 0xFF04A8C0\<rparr>"

definition edge_server :: "u32 \<Rightarrow> u32 \<Rightarrow> list_node list \<Rightarrow> dhcps" where
  "edge_server c next l = dhcps_0\<lparr>dhcps_pcb := Some 1, server_address := 0x0104A8C0, lease := edge_lease,
     client_address := c, client_address_plus := next, plist := l\<rparr>"

abbreviation edge_node :: "nat \<Rightarrow> u32 \<Rightarrow> u8 list \<Rightarrow> list_node" where
  "edge_node a x c \<equiv> \<lparr>node_addr = a, pnode = \<lparr>ip = x, mac = c, lease_timer = 120\<rparr>\<rparr>"

lemma edge_start:
  "dhcps_reach (\<lambda>_. True) True (edge_server 0 0xFF04A8C0 [])"
proof -
  let ?s = "dhcps_0\<lparr>lease := edge_lease\<rparr>"
  have set: "wifi_softap_set_dhcps_lease 2 0 0x0104A8C0 (Some edge_lease) dhcps_0 = (True, ?s)"
    by (simp add: wifi_softap_set_dhcps_lease_def edge_lease_def htonl_def Let_def)
  have start: "espconn_dhcps_start (Some 1) (Some 0x0104A8C0) ?s = Some (edge_server 0 0xFF04A8C0 [])"
    by (simp add: espconn_dhcps_start_def wifi_softap_init_dhcps_lease_def edge_lease_def edge_server_def
        htonl_def dhcps_0_def Let_def)
  show ?thesis
    by (rule dhcps_reach.start [OF dhcps_reach.set_lease [OF dhcps_reach.boot set] _ start]) simp
qed

lemma edge_discover:
  assumes "length c = 6"
    "pool_search (sample_env\<lparr>malloc_node := Some a\<rparr>) (sample_msg c [53, 1, 1]) s = Some (s', Some n)"
    "client_address s' \<noteq> 0" "client_address s' \<le> end_ip (lease s')"
  shows "\<exists>out. handle_dhcp (sample_env\<lparr>malloc_node := Some a\<rparr>) [bytes_of_msg (sample_msg c [53, 1, 1])] s =
    Some (s', out)"
proof -
  let ?e = "sample_env\<lparr>malloc_node := Some a\<rparr>" and ?m = "sample_msg c [53, 1, 1]"
  have "valid_request sample_env [bytes_of_msg ?m] [(53, [1])] ?m"
    using sample_valid [OF assms(1), of "[(53, [1])]"] by (simp add: wf_tlv_def)
  then have v: "valid_request ?e [bytes_of_msg ?m] [(53, [1])] ?m"
    by (simp add: valid_request_def)
  have "msg_type [(53, [1])] = DHCPDISCOVER" by (simp add: msg_type_def)
  then have "pool_check ?e ?m (sint (opts_len [bytes_of_msg ?m])) (Some n) s' = Some (s', DHCPS_STATE_OFFER)"
    using assms(3,4) by (simp add: pool_check_def parse_valid [OF v] verdict_discover sample_env_def not_less)
  then show ?thesis using assms(2) by (simp add: handle_valid [OF v])
qed

lemma edge_first:
  "dhcps_reach (\<lambda>_. True) True
     (edge_server 0xFF04A8C0 0xFF04A8C0 [edge_node 8 0xFF04A8C0 [1, 1, 1, 1, 1, 1]])"
proof -
  let ?s = "edge_server 0 0xFF04A8C0 []"
    and ?s' = "edge_server 0xFF04A8C0 0xFF04A8C0 [edge_node 8 0xFF04A8C0 [1, 1, 1, 1, 1, 1]]"
  have "pool_search (sample_env\<lparr>malloc_node := Some 8\<rparr>) (sample_msg [1, 1, 1, 1, 1, 1] [53, 1, 1]) ?s =
      Some (?s', Some (edge_node 8 0xFF04A8C0 [1, 1, 1, 1, 1, 1]))"
    by (simp add: pool_search_def pool_new_def edge_server_def edge_lease_def sample_env_def sample_msg_def
        dhcps_0_def Let_def)
  then obtain out where h: "handle_dhcp (sample_env\<lparr>malloc_node := Some 8\<rparr>)
      [bytes_of_msg (sample_msg [1, 1, 1, 1, 1, 1] [53, 1, 1])] ?s = Some (?s', out)"
    using edge_discover [of "[1, 1, 1, 1, 1, 1]" 8 ?s ?s'] by (auto simp: edge_server_def edge_lease_def)
  have "mem_ok (sample_env\<lparr>malloc_node := Some 8\<rparr>) ?s"
    by (simp add: mem_ok_def fresh_node_def sample_env_def edge_server_def)
  then show ?thesis by (rule dhcps_reach.packet [OF edge_start _ h])
qed

lemma range_end_255:
  "\<exists>s. dhcps_reach (\<lambda>_. True) True s \<and> start_ip (lease s) = 0xFF04A8C0 \<and> end_ip (lease s) = 0xFF04A8C0 \<and>
     bound s [2, 2, 2, 2, 2, 2] 0x0005A8C0 \<and> net 0x0005A8C0 \<noteq> net (server_address s)"
proof -
  let ?l = "[edge_node 8 0xFF04A8C0 [1, 1, 1, 1, 1, 1]]"
    and ?n = "edge_node 9 0x0005A8C0 [2, 2, 2, 2, 2, 2]"
  let ?s = "edge_server 0xFF04A8C0 0xFF04A8C0 ?l"
    and ?s' = "edge_server 0x0005A8C0 0x0105A8C0 (node_insert_to_list ?l ?n)"
  have nx: "next_ip 0xFF04A8C0 = 0x0005A8C0" "next_ip 0x0005A8C0 = 0x0105A8C0"
    by (simp_all add: next_ip_def htonl_def)
  have "pool_search (sample_env\<lparr>malloc_node := Some 9\<rparr>) (sample_msg [2, 2, 2, 2, 2, 2] [53, 1, 1]) ?s =
      Some (?s', Some ?n)"
    by (simp add: pool_search_def pool_new_def scan_step_def edge_server_def edge_lease_def sample_env_def
        sample_msg_def dhcps_0_def nx Let_def)
  then obtain out where h: "handle_dhcp (sample_env\<lparr>malloc_node := Some 9\<rparr>)
      [bytes_of_msg (sample_msg [2, 2, 2, 2, 2, 2] [53, 1, 1])] ?s = Some (?s', out)"
    using edge_discover [of "[2, 2, 2, 2, 2, 2]" 9 ?s ?s'] by (auto simp: edge_server_def edge_lease_def)
  have "mem_ok (sample_env\<lparr>malloc_node := Some 9\<rparr>) ?s"
    by (simp add: mem_ok_def fresh_node_def sample_env_def edge_server_def)
  then have "dhcps_reach (\<lambda>_. True) True ?s'" by (rule dhcps_reach.packet [OF edge_first _ h])
  moreover have "?n \<in> set (plist ?s')" by (simp add: edge_server_def)
  then have "bound ?s' [2, 2, 2, 2, 2, 2] 0x0005A8C0" by (force simp: bound_def)
  ultimately show ?thesis
    by (intro exI [of _ ?s']) (simp add: edge_server_def edge_lease_def net_def)
qed

end
