(* ===== verification/Mqtt_Msg.thy ===== *)
theory Mqtt_Msg
  imports LN_Prelude
begin

section \<open>MQTT packets: building and reading them (\<open>espmqtt/mqtt_msg.c\<close>)\<close>

text \<open>
  \<open>mqtt_connection_t\<close> as a record: the output buffer with its length, the packet under
  construction (\<open>message.data\<close> is the offset into the buffer, \<open>message.length\<close> a 16-bit counter)
  and the last packet identifier. The builders write through bounds-checked accesses; the
  readers take the received bytes and a length and return \<open>None\<close> for a read outside the bytes or
  a left shift that C leaves undefined. The configuration built is MQTT 3.1.1.
\<close>

subsection \<open>Types and inline readers of \<open>mqtt_msg.h\<close>\<close>

abbreviation (input) MQTT_MSG_TYPE_CONNECT :: int where "MQTT_MSG_TYPE_CONNECT \<equiv> 1"
abbreviation (input) MQTT_MSG_TYPE_CONNACK :: int where "MQTT_MSG_TYPE_CONNACK \<equiv> 2"
abbreviation (input) MQTT_MSG_TYPE_PUBLISH :: int where "MQTT_MSG_TYPE_PUBLISH \<equiv> 3"
abbreviation (input) MQTT_MSG_TYPE_PUBACK :: int where "MQTT_MSG_TYPE_PUBACK \<equiv> 4"
abbreviation (input) MQTT_MSG_TYPE_PUBREC :: int where "MQTT_MSG_TYPE_PUBREC \<equiv> 5"
abbreviation (input) MQTT_MSG_TYPE_PUBREL :: int where "MQTT_MSG_TYPE_PUBREL \<equiv> 6"
abbreviation (input) MQTT_MSG_TYPE_PUBCOMP :: int where "MQTT_MSG_TYPE_PUBCOMP \<equiv> 7"
abbreviation (input) MQTT_MSG_TYPE_SUBSCRIBE :: int where "MQTT_MSG_TYPE_SUBSCRIBE \<equiv> 8"
abbreviation (input) MQTT_MSG_TYPE_SUBACK :: int where "MQTT_MSG_TYPE_SUBACK \<equiv> 9"
abbreviation (input) MQTT_MSG_TYPE_UNSUBSCRIBE :: int where "MQTT_MSG_TYPE_UNSUBSCRIBE \<equiv> 10"
abbreviation (input) MQTT_MSG_TYPE_UNSUBACK :: int where "MQTT_MSG_TYPE_UNSUBACK \<equiv> 11"
abbreviation (input) MQTT_MSG_TYPE_PINGREQ :: int where "MQTT_MSG_TYPE_PINGREQ \<equiv> 12"
abbreviation (input) MQTT_MSG_TYPE_PINGRESP :: int where "MQTT_MSG_TYPE_PINGRESP \<equiv> 13"
abbreviation (input) MQTT_MSG_TYPE_DISCONNECT :: int where "MQTT_MSG_TYPE_DISCONNECT \<equiv> 14"

record mqtt_connection =
  msg_off :: nat
  msg_length :: u16
  message_id :: u16
  buffer :: "u8 list"
  buffer_length :: u16

text \<open>Strings are null-terminated in C; a null pointer is \<open>None\<close>.\<close>

record mqtt_connect_info =
  client_id :: "u8 list option"
  username :: "u8 list option"
  password :: "u8 list option"
  will_topic :: "u8 list option"
  will_message :: "u8 list option"
  keepalive :: int
  will_qos :: int
  will_retain :: bool
  clean_session :: bool

definition mqtt_get_type :: "u8 list \<Rightarrow> int option" where
  "mqtt_get_type b = map_option (\<lambda>x. uint (drop_bit 4 (x AND 0xF0))) (get_at b 0)"

definition mqtt_get_connect_return_code :: "u8 list \<Rightarrow> int option" where
  "mqtt_get_connect_return_code b = map_option uint (get_at b 3)"

definition mqtt_get_dup :: "u8 list \<Rightarrow> int option" where
  "mqtt_get_dup b = map_option (\<lambda>x. uint (drop_bit 3 (x AND 0x08))) (get_at b 0)"

definition mqtt_get_qos :: "u8 list \<Rightarrow> int option" where
  "mqtt_get_qos b = map_option (\<lambda>x. uint (drop_bit 1 (x AND 0x06))) (get_at b 0)"

definition mqtt_get_retain :: "u8 list \<Rightarrow> int option" where
  "mqtt_get_retain b = map_option (\<lambda>x. uint (x AND 0x01)) (get_at b 0)"

subsection \<open>Building a packet\<close>

abbreviation (input) MQTT_MAX_FIXED_HEADER_SIZE :: u16 where "MQTT_MAX_FIXED_HEADER_SIZE \<equiv> 3"

definition append_string :: "mqtt_connection \<Rightarrow> u8 list \<Rightarrow> (int \<times> mqtt_connection) option" where
  "append_string c s =
     (let len = int (length s)
      in if uint (msg_length c) + len + 2 > uint (buffer_length c) then Some (-1, c)
         else do {
           b \<leftarrow> set_at (buffer c) (unat (msg_length c)) (of_int (len div 256));
           b \<leftarrow> set_at b (unat (msg_length c + 1)) (of_int (len mod 256));
           b \<leftarrow> put_block b (unat (msg_length c + 1 + 1)) s;
           Some (len + 2, c\<lparr>buffer := b, msg_length := msg_length c + 1 + 1 + of_int len\<rparr>) })"

text \<open>\<open>while (message_id == 0) message_id = ++connection->message_id;\<close>\<close>

function id_loop :: "u16 \<Rightarrow> u16 \<Rightarrow> u16 \<times> u16" where
  "id_loop mid cid = (if mid = 0 then id_loop (cid + 1) (cid + 1) else (mid, cid))"
  by pat_completeness auto
termination
  by (relation "measure (\<lambda>(mid, cid). if mid \<noteq> 0 then 0 else if cid + 1 \<noteq> 0 then 1 else 2)") auto

declare id_loop.simps [simp del]

definition append_message_id :: "mqtt_connection \<Rightarrow> u16 \<Rightarrow> (u16 \<times> mqtt_connection) option" where
  "append_message_id c mid =
     (case id_loop mid (message_id c) of
        (mid, cid) \<Rightarrow>
          let c = c\<lparr>message_id := cid\<rparr>
          in if uint (msg_length c) + 2 > uint (buffer_length c) then Some (0, c)
             else do {
               b \<leftarrow> set_at (buffer c) (unat (msg_length c)) (hi8 mid);
               b \<leftarrow> set_at b (unat (msg_length c + 1)) (lo8 mid);
               Some (mid, c\<lparr>buffer := b, msg_length := msg_length c + 1 + 1\<rparr>) })"

definition init_message :: "mqtt_connection \<Rightarrow> mqtt_connection" where
  "init_message c = c\<lparr>msg_length := MQTT_MAX_FIXED_HEADER_SIZE\<rparr>"

definition fail_message :: "mqtt_connection \<Rightarrow> mqtt_connection" where
  "fail_message c = c\<lparr>msg_off := 0, msg_length := 0\<rparr>"

definition fixed_header :: "int \<Rightarrow> int \<Rightarrow> int \<Rightarrow> int \<Rightarrow> u8" where
  "fixed_header type dup qos retain =
     of_int (push_bit 4 (type AND 0x0F) OR push_bit 3 (dup AND 1) OR push_bit 1 (qos AND 3) OR (retain AND 1))"

definition fini_message :: "mqtt_connection \<Rightarrow> int \<Rightarrow> int \<Rightarrow> int \<Rightarrow> int \<Rightarrow> mqtt_connection option" where
  "fini_message c type dup qos retain =
     (let remaining_length = uint (msg_length c) - 3
      in if remaining_length > 127 then do {
           b \<leftarrow> set_at (buffer c) 0 (fixed_header type dup qos retain);
           b \<leftarrow> set_at b 1 (0x80 OR of_int (remaining_length mod 128));
           b \<leftarrow> set_at b 2 (of_int (remaining_length div 128));
           Some (c\<lparr>buffer := b, msg_length := of_int (remaining_length + 3), msg_off := 0\<rparr>) }
         else do {
           b \<leftarrow> set_at (buffer c) 1 (fixed_header type dup qos retain);
           b \<leftarrow> set_at b 2 (of_int remaining_length);
           Some (c\<lparr>buffer := b, msg_length := of_int (remaining_length + 2), msg_off := 1\<rparr>) })"

definition mqtt_msg_init :: "u8 list \<Rightarrow> u16 \<Rightarrow> mqtt_connection" where
  "mqtt_msg_init buf buf_len =
     \<lparr>msg_off = 0, msg_length = 0, message_id = 0, buffer = buf, buffer_length = buf_len\<rparr>"

text \<open>
  \<open>mqtt_msg_connect\<close>: the ten bytes of the variable header (protocol name, level 4, flags, keep alive)
  are written at once; \<open>flags\<close> is byte 7 of them and is updated in place as the
  optional fields are added. A will topic without a message is a null pointer read.
\<close>

definition or_flag :: "nat \<Rightarrow> u8 \<Rightarrow> mqtt_connection \<Rightarrow> mqtt_connection option" where
  "or_flag i f c = do {
     x \<leftarrow> get_at (buffer c) i;
     b \<leftarrow> set_at (buffer c) i (x OR f);
     Some (c\<lparr>buffer := b\<rparr>) }"

definition connect_will :: "nat \<Rightarrow> mqtt_connect_info \<Rightarrow> mqtt_connection \<Rightarrow> (bool \<times> mqtt_connection) option" where
  "connect_will fl info c =
     (case will_topic info of
        None \<Rightarrow> Some (True, c)
      | Some [] \<Rightarrow> Some (True, c)
      | Some t \<Rightarrow> do {
          (n, c) \<leftarrow> append_string c t;
          if n < 0 then Some (False, c)
          else do {
            msg \<leftarrow> will_message info;
            (n, c) \<leftarrow> append_string c msg;
            if n < 0 then Some (False, c)
            else do {
              c \<leftarrow> or_flag fl 0x04 c;
              c \<leftarrow> (if will_retain info then or_flag fl 0x20 c else Some c);
              c \<leftarrow> or_flag fl (of_int (push_bit 3 (will_qos info AND 3))) c;
              Some (True, c) } } })"

text \<open>The user name and the password are handled alike, with different flags.\<close>

definition connect_field ::
    "nat \<Rightarrow> u8 list option \<Rightarrow> u8 \<Rightarrow> mqtt_connection \<Rightarrow> (bool \<times> mqtt_connection) option" where
  "connect_field fl s flag c =
     (case s of
        None \<Rightarrow> Some (True, c)
      | Some [] \<Rightarrow> Some (True, c)
      | Some t \<Rightarrow> do {
          (n, c) \<leftarrow> append_string c t;
          if n < 0 then Some (False, c)
          else do { c \<leftarrow> or_flag fl flag c; Some (True, c) } })"

definition mqtt_msg_connect :: "mqtt_connection \<Rightarrow> mqtt_connect_info \<Rightarrow> mqtt_connection option" where
  "mqtt_msg_connect c info =
     (let c = init_message c
      in if uint (msg_length c) + 10 > uint (buffer_length c) then Some (fail_message c)
         else do {
           let pos = unat (msg_length c);
           let fl = pos + 7;
           b \<leftarrow> put_block (buffer c) pos
                 [0, 4, 77, 81, 84, 84, 4, 0, of_int (keepalive info div 256), of_int (keepalive info)];
           let c = c\<lparr>buffer := b, msg_length := msg_length c + 10\<rparr>;
           c \<leftarrow> (if clean_session info then or_flag fl 0x02 c else Some c);
           case client_id info of
             None \<Rightarrow> Some (fail_message c)
           | Some [] \<Rightarrow> Some (fail_message c)
           | Some cid \<Rightarrow> do {
               (n, c) \<leftarrow> append_string c cid;
               if n < 0 then Some (fail_message c)
               else do {
                 (ok, c) \<leftarrow> connect_will fl info c;
                 if \<not> ok then Some (fail_message c)
                 else do {
                   (ok, c) \<leftarrow> connect_field fl (username info) 0x80 c;
                   if \<not> ok then Some (fail_message c)
                   else do {
                     (ok, c) \<leftarrow> connect_field fl (password info) 0x40 c;
                     if \<not> ok then Some (fail_message c)
                     else fini_message c MQTT_MSG_TYPE_CONNECT 0 0 0 } } } } })"

text \<open>
  The other packets. A builder that reports a packet identifier returns it with the connection; when it fails
  before it assigned one, the caller's variable keeps its value (\<open>old\<close>).
\<close>

definition mqtt_msg_publish ::
    "mqtt_connection \<Rightarrow> u8 list option \<Rightarrow> u8 list \<Rightarrow> int \<Rightarrow> int \<Rightarrow> u16 \<Rightarrow> (mqtt_connection \<times> u16) option" where
  "mqtt_msg_publish c topic data qos retain old =
     (let c = init_message c
      in case topic of
           None \<Rightarrow> Some (fail_message c, old)
         | Some [] \<Rightarrow> Some (fail_message c, old)
         | Some t \<Rightarrow> do {
             (n, c) \<leftarrow> append_string c t;
             if n < 0 then Some (fail_message c, old)
             else do {
               (mid, c) \<leftarrow> (if qos > 0 then append_message_id c 0 else Some (0, c));
               if qos > 0 \<and> mid = 0 then Some (fail_message c, mid)
               else if uint (msg_length c) + int (length data) > uint (buffer_length c)
               then Some (fail_message c, mid)
               else do {
                 b \<leftarrow> put_block (buffer c) (unat (msg_length c)) data;
                 let c = c\<lparr>buffer := b, msg_length := msg_length c + of_nat (length data)\<rparr>;
                 c \<leftarrow> fini_message c MQTT_MSG_TYPE_PUBLISH 0 qos retain;
                 Some (c, mid) } } })"

definition msg_ack :: "int \<Rightarrow> int \<Rightarrow> mqtt_connection \<Rightarrow> u16 \<Rightarrow> mqtt_connection option" where
  "msg_ack type qos c mid = do {
     (r, c) \<leftarrow> append_message_id (init_message c) mid;
     if r = 0 then Some (fail_message c) else fini_message c type 0 qos 0 }"

definition mqtt_msg_puback :: "mqtt_connection \<Rightarrow> u16 \<Rightarrow> mqtt_connection option" where
  "mqtt_msg_puback = msg_ack MQTT_MSG_TYPE_PUBACK 0"

definition mqtt_msg_pubrec :: "mqtt_connection \<Rightarrow> u16 \<Rightarrow> mqtt_connection option" where
  "mqtt_msg_pubrec = msg_ack MQTT_MSG_TYPE_PUBREC 0"

definition mqtt_msg_pubrel :: "mqtt_connection \<Rightarrow> u16 \<Rightarrow> mqtt_connection option" where
  "mqtt_msg_pubrel = msg_ack MQTT_MSG_TYPE_PUBREL 1"

definition mqtt_msg_pubcomp :: "mqtt_connection \<Rightarrow> u16 \<Rightarrow> mqtt_connection option" where
  "mqtt_msg_pubcomp = msg_ack MQTT_MSG_TYPE_PUBCOMP 0"

definition mqtt_msg_subscribe ::
    "mqtt_connection \<Rightarrow> u8 list option \<Rightarrow> int \<Rightarrow> u16 \<Rightarrow> (mqtt_connection \<times> u16) option" where
  "mqtt_msg_subscribe c topic qos old =
     (let c = init_message c
      in case topic of
           None \<Rightarrow> Some (fail_message c, old)
         | Some [] \<Rightarrow> Some (fail_message c, old)
         | Some t \<Rightarrow> do {
             (mid, c) \<leftarrow> append_message_id c 0;
             if mid = 0 then Some (fail_message c, mid)
             else do {
               (n, c) \<leftarrow> append_string c t;
               if n < 0 then Some (fail_message c, mid)
               else if uint (msg_length c) + 1 > uint (buffer_length c) then Some (fail_message c, mid)
               else do {
                 b \<leftarrow> set_at (buffer c) (unat (msg_length c)) (of_int qos);
                 c \<leftarrow> fini_message (c\<lparr>buffer := b, msg_length := msg_length c + 1\<rparr>) MQTT_MSG_TYPE_SUBSCRIBE 0 1 0;
                 Some (c, mid) } } })"

definition mqtt_msg_unsubscribe ::
    "mqtt_connection \<Rightarrow> u8 list option \<Rightarrow> u16 \<Rightarrow> (mqtt_connection \<times> u16) option" where
  "mqtt_msg_unsubscribe c topic old =
     (let c = init_message c
      in case topic of
           None \<Rightarrow> Some (fail_message c, old)
         | Some [] \<Rightarrow> Some (fail_message c, old)
         | Some t \<Rightarrow> do {
             (mid, c) \<leftarrow> append_message_id c 0;
             if mid = 0 then Some (fail_message c, mid)
             else do {
               (n, c) \<leftarrow> append_string c t;
               if n < 0 then Some (fail_message c, mid)
               else do {
                 c \<leftarrow> fini_message c MQTT_MSG_TYPE_UNSUBSCRIBE 0 1 0;
                 Some (c, mid) } } })"

definition mqtt_msg_pingreq :: "mqtt_connection \<Rightarrow> mqtt_connection option" where
  "mqtt_msg_pingreq c = fini_message (init_message c) MQTT_MSG_TYPE_PINGREQ 0 0 0"

definition mqtt_msg_pingresp :: "mqtt_connection \<Rightarrow> mqtt_connection option" where
  "mqtt_msg_pingresp c = fini_message (init_message c) MQTT_MSG_TYPE_PINGRESP 0 0 0"

definition mqtt_msg_disconnect :: "mqtt_connection \<Rightarrow> mqtt_connection option" where
  "mqtt_msg_disconnect c = fini_message (init_message c) MQTT_MSG_TYPE_DISCONNECT 0 0 0"

subsection \<open>Reading a packet\<close>

text \<open>
  The loop over the bytes of the remaining length, common to the three functions that compute it: \<open>i\<close> is the
  position and \<open>tot\<close> the sum so far; the result has both after the loop.
\<close>

function len_loop :: "u8 list \<Rightarrow> nat \<Rightarrow> nat \<Rightarrow> int \<Rightarrow> (nat \<times> int) option" where
  "len_loop b len i tot =
     (if i < len then
        (case get_at b i of
           None \<Rightarrow> None
         | Some x \<Rightarrow>
             (case shl32 (uint (x AND 0x7F)) (7 * (i - 1)) of
                None \<Rightarrow> None
              | Some v \<Rightarrow>
                  (case i32 (tot + v) of
                     None \<Rightarrow> None
                   | Some t \<Rightarrow> if x AND 0x80 = 0 then Some (Suc i, t) else len_loop b len (Suc i) t)))
      else Some (i, tot))"
  by pat_completeness auto
termination
  by (relation "measure (\<lambda>(b, len, i, tot). len - i)") auto

text \<open>The same loop without the sum, in \<open>mqtt_get_id\<close>.\<close>

function skip_loop :: "u8 list \<Rightarrow> nat \<Rightarrow> nat \<Rightarrow> nat option" where
  "skip_loop b len i =
     (if i < len then
        (case get_at b i of
           None \<Rightarrow> None
         | Some x \<Rightarrow> if x AND 0x80 = 0 then Some (Suc i) else skip_loop b len (Suc i))
      else Some i)"
  by pat_completeness auto
termination
  by (relation "measure (\<lambda>(b, len, i). len - i)") auto

declare len_loop.simps [simp del] skip_loop.simps [simp del]

definition mqtt_get_total_length :: "u8 list \<Rightarrow> u16 \<Rightarrow> int option" where
  "mqtt_get_total_length b len = do {
     (i, tot) \<leftarrow> len_loop b (unat len) 1 0;
     i32 (tot + int i) }"

text \<open>The topic: its offset in the buffer and its length, or \<open>None\<close> inside \<open>Some\<close> for the null pointer.\<close>

definition mqtt_get_publish_topic :: "u8 list \<Rightarrow> u16 \<Rightarrow> (nat \<times> u16) option option" where
  "mqtt_get_publish_topic b len = do {
     (i, tot) \<leftarrow> len_loop b (unat len) 1 0;
     tot \<leftarrow> i32 (tot + int i);
     if i + 2 \<ge> unat len then Some None
     else do {
       h \<leftarrow> get_at b i;
       l \<leftarrow> get_at b (i + 1);
       let topiclen = unat (be16 h l);
       if i + 2 + topiclen > unat len then Some None
       else Some (Some (i + 2, of_nat topiclen)) } }"

text \<open>The payload: offset and length; the length is also set to 0 when there is none.\<close>

definition mqtt_get_publish_data :: "u8 list \<Rightarrow> u16 \<Rightarrow> (nat option \<times> u16) option" where
  "mqtt_get_publish_data b len = do {
     let blength = unat len;
     (i, tot) \<leftarrow> len_loop b blength 1 0;
     totlen \<leftarrow> i32 (tot + int i);
     if i + 2 \<ge> blength then Some (None, 0)
     else do {
       h \<leftarrow> get_at b i;
       l \<leftarrow> get_at b (i + 1);
       let i = i + 2;
       let topiclen = unat (be16 h l);
       if i + topiclen \<ge> blength then Some (None, 0)
       else do {
         let i = i + topiclen;
         qos \<leftarrow> mqtt_get_qos b;
         if qos > 0 \<and> i + 2 \<ge> blength then Some (None, 0)
         else do {
           let i = (if qos > 0 then i + 2 else i);
           if totlen < int i then Some (None, 0)
           else if totlen \<le> int blength then Some (Some i, of_int (totlen - int i))
           else Some (Some i, of_int (int blength - int i)) } } } }"

definition mqtt_get_id :: "u8 list \<Rightarrow> u16 \<Rightarrow> u16 option" where
  "mqtt_get_id b n = do {
     let len = unat n;
     if len < 1 then Some 0
     else do {
       type \<leftarrow> mqtt_get_type b;
       if type = MQTT_MSG_TYPE_PUBLISH then do {
         i \<leftarrow> skip_loop b len 1;
         if i + 2 \<ge> len then Some 0
         else do {
           h \<leftarrow> get_at b i;
           l \<leftarrow> get_at b (i + 1);
           let i = i + 2;
           let topiclen = unat (be16 h l);
           if i + topiclen \<ge> len then Some 0
           else do {
             let i = i + topiclen;
             qos \<leftarrow> mqtt_get_qos b;
             if qos > 0 then
               (if i + 2 \<ge> len then Some 0
                else do { h \<leftarrow> get_at b i; l \<leftarrow> get_at b (i + 1); Some (be16 h l) })
             else Some 0 } } }
       else if type \<in> {MQTT_MSG_TYPE_PUBACK, MQTT_MSG_TYPE_PUBREC, MQTT_MSG_TYPE_PUBREL,
                       MQTT_MSG_TYPE_PUBCOMP, MQTT_MSG_TYPE_SUBACK, MQTT_MSG_TYPE_UNSUBACK,
                       MQTT_MSG_TYPE_SUBSCRIBE} then
         (if len < 4 then Some 0
          else do {
            x \<leftarrow> get_at b 1;
            if x AND 0x80 = 0 then do { h \<leftarrow> get_at b 2; l \<leftarrow> get_at b 3; Some (be16 h l) }
            else Some 0 })
       else Some 0 } }"

subsection \<open>What the builders put into the buffer\<close>

text \<open>
  A connection during construction: the buffer has the recorded length and room for the fixed header, and
  \<open>content\<close> is what was appended after those three bytes.
\<close>

definition conn_ok :: "mqtt_connection \<Rightarrow> bool" where
  "conn_ok c \<longleftrightarrow> length (buffer c) = unat (buffer_length c) \<and> 3 \<le> unat (buffer_length c)"

definition building :: "mqtt_connection \<Rightarrow> bool" where
  "building c \<longleftrightarrow> conn_ok c \<and> 3 \<le> unat (msg_length c) \<and> unat (msg_length c) \<le> unat (buffer_length c)"

definition content :: "mqtt_connection \<Rightarrow> u8 list" where
  "content c = drop 3 (take (unat (msg_length c)) (buffer c))"

text \<open>The finished packet; \<open>msg_ok\<close> says that it lies in the buffer.\<close>

definition msg_data :: "mqtt_connection \<Rightarrow> u8 list" where
  "msg_data c = take (unat (msg_length c)) (drop (msg_off c) (buffer c))"

definition msg_ok :: "mqtt_connection \<Rightarrow> bool" where
  "msg_ok c \<longleftrightarrow> conn_ok c \<and> msg_off c + unat (msg_length c) \<le> length (buffer c)"

lemma msg_data_length: "msg_ok c \<Longrightarrow> length (msg_data c) = unat (msg_length c)"
  by (auto simp: msg_ok_def msg_data_def)

definition enc_str :: "u8 list \<Rightarrow> u8 list" where
  "enc_str s = [of_nat (length s div 256), of_nat (length s mod 256)] @ s"

definition rem_len :: "nat \<Rightarrow> u8 list" where
  "rem_len n = (if n > 127 then [0x80 OR of_nat (n mod 128), of_nat (n div 128)] else [of_nat n])"

text \<open>The room left, in bytes.\<close>

definition room :: "mqtt_connection \<Rightarrow> nat" where
  "room c = unat (buffer_length c) - unat (msg_length c)"

lemma u16_add:
  fixes w :: u16
  assumes "unat w + n < 2 ^ 16"
  shows "unat (w + of_nat n) = unat w + n"
  using assms by (simp add: unat_word_ariths unat_of_nat)

lemma unat_less_16: "unat (w :: u16) < 2 ^ 16"
  by (rule order_less_le_trans [OF unsigned_less]) simp

lemma building_init: "conn_ok c \<Longrightarrow> building (init_message c) \<and> content (init_message c) = [] \<and>
    room (init_message c) = unat (buffer_length c) - 3 \<and> message_id (init_message c) = message_id c \<and>
    buffer_length (init_message c) = buffer_length c"
  by (simp add: building_def conn_ok_def init_message_def content_def room_def)

text \<open>The test of the builders for the room that is left.\<close>

lemma room_test:
  assumes "building c"
  shows "uint (msg_length c) + int n > uint (buffer_length c) \<longleftrightarrow> room c < n"
proof -
  have "uint (msg_length c) = int (unat (msg_length c))" "uint (buffer_length c) = int (unat (buffer_length c))"
    by simp_all
  then show ?thesis using assms unfolding building_def room_def by linarith
qed

text \<open>Writing a block at the end of the message.\<close>

lemma append_block:
  assumes b: "building c" and fit: "length bs \<le> room c"
  shows "\<exists>buf. put_block (buffer c) (unat (msg_length c)) bs = Some buf \<and>
    (let c' = c\<lparr>buffer := buf, msg_length := msg_length c + of_nat (length bs)\<rparr>
     in building c' \<and> content c' = content c @ bs \<and> room c' = room c - length bs \<and>
        unat (msg_length c') = unat (msg_length c) + length bs)"
proof -
  let ?n = "unat (msg_length c)"
  have le: "?n + length bs \<le> length (buffer c)" "3 \<le> ?n" "length (buffer c) = unat (buffer_length c)"
    using b fit by (auto simp: building_def conn_ok_def room_def)
  have u: "unat (msg_length c + of_nat (length bs)) = ?n + length bs"
    using le unat_less_16 [of "buffer_length c"] by (intro u16_add) linarith
  show ?thesis
    using le b by (auto simp: put_block_def Let_def u building_def conn_ok_def content_def room_def)
qed

text \<open>Single stores one after the other are one block.\<close>

lemma set_at_block:
  "set_at b i x \<bind> (\<lambda>b. set_at b (Suc i) y) = put_block b i [x, y]"
proof (cases "Suc i < length b")
  case True
  then have "b[i := x, Suc i := y] = take i b @ [x, y] @ drop (Suc (Suc i)) b"
    by (simp add: upd_conv_take_nth_drop take_Suc_conv_app_nth [symmetric] nth_append)
  with True show ?thesis by (simp add: set_at_def put_block_def)
qed (auto simp: set_at_def put_block_def)

lemma set_at_put_block:
  "put_block b i xs \<bind> (\<lambda>b. put_block b (i + length xs) ys) = put_block b i (xs @ ys)"
  by (auto simp: put_block_def ac_simps min_def)

lemma set_at_block2: "set_at b i x \<bind> (\<lambda>b. set_at b (Suc i) y \<bind> f) = put_block b i [x, y] \<bind> f"
  by (simp add: set_at_block [symmetric] bind_assoc)

lemma set_at_block3:
  "set_at b i x \<bind> (\<lambda>b. set_at b (Suc i) y \<bind> (\<lambda>b. put_block b (Suc (Suc i)) zs \<bind> f)) =
     put_block b i ([x, y] @ zs) \<bind> f"
proof -
  have "put_block b i ([x, y] @ zs) = put_block b i [x, y] \<bind> (\<lambda>b. put_block b (Suc (Suc i)) zs)"
    using set_at_put_block [of b i "[x, y]" zs] by simp
  then show ?thesis by (simp add: set_at_block2 bind_assoc)
qed

text \<open>The connection after \<open>bs\<close> was appended, with nothing else changed.\<close>

definition appended :: "mqtt_connection \<Rightarrow> u8 list \<Rightarrow> mqtt_connection \<Rightarrow> bool" where
  "appended c bs c' \<longleftrightarrow> building c' \<and> content c' = content c @ bs \<and> room c' = room c - length bs \<and>
     message_id c' = message_id c \<and> buffer_length c' = buffer_length c"

lemma append_block_app:
  assumes "building c" "length bs \<le> room c"
  shows "\<exists>buf. put_block (buffer c) (unat (msg_length c)) bs = Some buf \<and>
    appended c bs (c\<lparr>buffer := buf, msg_length := msg_length c + of_nat (length bs)\<rparr>)"
  using append_block [OF assms] by (auto simp: appended_def Let_def)

lemma next_pos:
  assumes "building c" "2 \<le> room c"
  shows "unat (msg_length c + 1) = Suc (unat (msg_length c))"
    "unat (msg_length c + 1 + 1) = Suc (Suc (unat (msg_length c)))"
  using u16_add [of "msg_length c" 1] u16_add [of "msg_length c" 2] assms unat_less_16 [of "buffer_length c"]
  by (auto simp: building_def room_def add.assoc)

lemma append_string_ok:
  assumes "building c" "length s + 2 \<le> room c"
  shows "\<exists>c'. append_string c s = Some (int (length s) + 2, c') \<and> appended c (enc_str s) c'"
proof -
  have "length (enc_str s) \<le> room c" using assms by (simp add: enc_str_def)
  then obtain buf where buf: "put_block (buffer c) (unat (msg_length c)) (enc_str s) = Some buf"
    "appended c (enc_str s) (c\<lparr>buffer := buf, msg_length := msg_length c + of_nat (length (enc_str s))\<rparr>)"
    using append_block_app [OF assms(1)] by blast
  have r: "\<not> uint (msg_length c) + int (length s) + 2 > uint (buffer_length c)"
    using room_test [OF assms(1), of "length s + 2"] assms(2) by simp
  have l: "msg_length c + 1 + 1 + of_int (int (length s)) = msg_length c + of_nat (length (enc_str s))"
    by (simp add: enc_str_def add.assoc)
  have b: "put_block (buffer c) (unat (msg_length c))
      ([of_nat (length s div 256), of_nat (length s mod 256)] @ s) = Some buf"
    using buf(1) by (simp only: enc_str_def)
  have p: "2 \<le> room c" using assms by simp
  have "append_string c s = Some (int (length s) + 2,
      c\<lparr>buffer := buf, msg_length := msg_length c + of_nat (length (enc_str s))\<rparr>)"
    unfolding append_string_def Let_def next_pos [OF assms(1) p] of_int_div_nat of_int_mod_nat
      set_at_block3 b l using r by simp
  then show ?thesis using buf(2) by blast
qed

lemma append_string_full:
  assumes "building c" "room c < length s + 2"
  shows "append_string c s = Some (-1, c)"
  using room_test [OF assms(1), of "length s + 2"] assms(2) by (simp add: append_string_def add.assoc)

lemma id_loop_nz: "mid \<noteq> 0 \<Longrightarrow> id_loop mid cid = (mid, cid)"
  by (simp add: id_loop.simps)

lemma id_loop_0: "id_loop 0 cid = (if cid + 1 = 0 then (1, 1) else (cid + 1, cid + 1))"
  by (simp add: id_loop.simps [of 0] id_loop.simps [of "cid + 1"]) (simp add: id_loop.simps)

lemma append_message_id_ok:
  assumes "building c" "2 \<le> room c" "id_loop mid (message_id c) = (r, cid)"
  shows "\<exists>c'. append_message_id c mid = Some (r, c') \<and> appended (c\<lparr>message_id := cid\<rparr>) [hi8 r, lo8 r] c'"
proof -
  let ?c = "c\<lparr>message_id := cid\<rparr>"
  have b: "building ?c" "room ?c = room c" using assms by (auto simp: building_def conn_ok_def room_def)
  obtain buf where buf: "put_block (buffer c) (unat (msg_length c)) [hi8 r, lo8 r] = Some buf"
    "appended ?c [hi8 r, lo8 r] (?c\<lparr>buffer := buf, msg_length := msg_length c + 2\<rparr>)"
    using append_block_app [OF b(1), of "[hi8 r, lo8 r]"] assms b(2) by auto
  have "\<not> uint (msg_length c) + 2 > uint (buffer_length c)"
    using room_test [OF assms(1), of 2] assms(2) by simp
  then have "append_message_id c mid = Some (r, ?c\<lparr>buffer := buf, msg_length := msg_length c + 2\<rparr>)"
    using buf(1) next_pos [OF assms(1,2)]
    by (simp add: append_message_id_def assms(3) set_at_block2 add.assoc)
  then show ?thesis using buf(2) by blast
qed

lemma append_message_id_full:
  assumes "building c" "room c < 2" "id_loop mid (message_id c) = (r, cid)"
  shows "append_message_id c mid = Some (0, c\<lparr>message_id := cid\<rparr>)"
  using room_test [OF assms(1), of 2] assms(2,3) by (simp add: append_message_id_def)

lemma fini_message_ok:
  assumes "building c"
  shows "\<exists>c'. fini_message c type dup qos retain = Some c' \<and> msg_ok c' \<and>
    msg_data c' = [fixed_header type dup qos retain] @ rem_len (length (content c)) @ content c \<and>
    message_id c' = message_id c \<and> buffer_length c' = buffer_length c"
proof -
  let ?n = "length (content c)" and ?L = "unat (msg_length c)" and ?h = "fixed_header type dup qos retain"
  have b: "3 \<le> ?L" "?L \<le> length (buffer c)" "length (buffer c) = unat (buffer_length c)"
    using assms by (auto simp: building_def conn_ok_def)
  have n: "?L = ?n + 3" using b by (simp add: content_def)
  have nb: "Suc (Suc (Suc ?n)) \<le> unat (buffer_length c)" using n b(2,3) by linarith
  have r: "uint (msg_length c) - 3 = int ?n"
  proof -
    have "uint (msg_length c) = int ?L" by simp
    with n show ?thesis by linarith
  qed
  have lt: "?n + 3 < 2 ^ 16" using n unat_less_16 [of "msg_length c"] by simp
  obtain x y z buf where buf: "buffer c = x # y # z # buf"
    using b(1,2) by (cases "buffer c"; cases "tl (buffer c)"; cases "tl (tl (buffer c))") auto
  have c1: "content c = take (?L - 3) buf"
    using b(1) by (simp add: content_def buf take_Cons' numeral_3_eq_3)
  have c2: "?L - 3 = ?n" using n by linarith
  have con: "take ?n buf = content c" by (rule c1 [unfolded c2, symmetric])
  show ?thesis
  proof (cases "?n > 127")
    case True
    have "unat (of_int (int ?n + 3) :: u16) = Suc (Suc (Suc ?n))"
      using lt by (simp add: unat_word_ariths unat_of_nat)
    then show ?thesis
      using True b con nb
      by (simp add: fini_message_def r buf set_at_def msg_ok_def conn_ok_def msg_data_def rem_len_def
          of_int_div_nat of_int_mod_nat)
  next
    case False
    have "unat (of_int (int ?n + 2) :: u16) = Suc (Suc ?n)"
      using lt by (simp add: unat_word_ariths unat_of_nat)
    then show ?thesis
      using False b con nb
      by (simp add: fini_message_def r buf set_at_def msg_ok_def conn_ok_def msg_data_def rem_len_def)
  qed
qed

end
