(* ===== verification/Mqtt_Packet.thy ===== *)
theory Mqtt_Packet
  imports Mqtt_Msg
begin

section \<open>MQTT packets: specification and round trips\<close>

text \<open>
  The bytes of each packet as a function of its fields, the theorems that the builders of
  \<open>Mqtt_Msg\<close> produce exactly those bytes (or an empty message when they do not fit), and that the readers
  give the fields back. The remaining length is written in at most two bytes, so a round trip needs a body of at
  most 16383 bytes; a buffer of that size cannot hold more.
\<close>

subsection \<open>The packets\<close>

definition packet :: "int \<Rightarrow> int \<Rightarrow> int \<Rightarrow> int \<Rightarrow> u8 list \<Rightarrow> u8 list" where
  "packet type dup qos retain body = [fixed_header type dup qos retain] @ rem_len (length body) @ body"

definition enc_id :: "u16 \<Rightarrow> u8 list" where
  "enc_id i = [hi8 i, lo8 i]"

definition next_id :: "mqtt_connection \<Rightarrow> u16" where
  "next_id c = (if message_id c + 1 = 0 then 1 else message_id c + 1)"

definition publish_body :: "u8 list \<Rightarrow> int \<Rightarrow> u16 \<Rightarrow> u8 list \<Rightarrow> u8 list" where
  "publish_body t qos i data = enc_str t @ (if qos > 0 then enc_id i else []) @ data"

lemma length_enc_str [simp]: "length (enc_str s) = length s + 2"
  by (simp add: enc_str_def)

lemma length_enc_id [simp]: "length (enc_id i) = 2"
  by (simp add: enc_id_def)

lemma id_loop_next: "id_loop 0 (message_id c) = (next_id c, next_id c)"
  by (simp add: id_loop_0 next_id_def)

lemma next_id_nz: "next_id c \<noteq> 0"
  by (simp add: next_id_def)

lemma fini_packet:
  assumes "building c"
  shows "\<exists>c'. fini_message c type dup qos retain = Some c' \<and> msg_ok c' \<and>
    msg_data c' = packet type dup qos retain (content c) \<and>
    message_id c' = message_id c \<and> buffer_length c' = buffer_length c"
  using fini_message_ok [OF assms] by (simp add: packet_def)

lemma fail_ok: "building c \<Longrightarrow> msg_ok (fail_message c) \<and> msg_data (fail_message c) = [] \<and>
    message_id (fail_message c) = message_id c \<and> buffer_length (fail_message c) = buffer_length c"
  by (simp add: building_def msg_ok_def conn_ok_def fail_message_def msg_data_def)

lemma appended_building: "appended c bs c' \<Longrightarrow> building c'"
  by (simp add: appended_def)

lemma building_id: "building c \<Longrightarrow> building (c\<lparr>message_id := i\<rparr>)"
  by (simp add: building_def conn_ok_def)

text \<open>The outcome of a builder: the packet if it fits, an empty message if it does not.\<close>

definition built :: "mqtt_connection \<Rightarrow> int \<Rightarrow> int \<Rightarrow> int \<Rightarrow> u8 list \<Rightarrow> mqtt_connection \<Rightarrow> bool" where
  "built c type qos retain body c' \<longleftrightarrow> msg_ok c' \<and> buffer_length c' = buffer_length c \<and>
     msg_data c' = (if 3 + length body \<le> unat (buffer_length c) then packet type 0 qos retain body else [])"

lemma init_room: "conn_ok c \<Longrightarrow> 3 + n \<le> unat (buffer_length c) \<longleftrightarrow> n \<le> room (init_message c)"
  using building_init [of c] by (auto simp: conn_ok_def)

lemma built_fail:
  assumes "building c'" "buffer_length c' = buffer_length c" "conn_ok c" "room (init_message c) < length body"
  shows "built c type qos retain body (fail_message c')"
proof -
  have "\<not> 3 + length body \<le> unat (buffer_length c)"
    using init_room [OF assms(3), of "length body"] assms(4) by simp
  then show ?thesis using fail_ok [OF assms(1)] assms(2) unfolding built_def by simp
qed

lemma built_ok:
  assumes "msg_ok c'" "buffer_length c' = buffer_length c" "msg_data c' = packet type 0 qos retain body"
    "conn_ok c" "length body \<le> room (init_message c)"
  shows "built c type qos retain body c'"
  using assms init_room [OF assms(4), of "length body"] unfolding built_def by simp

subsection \<open>The builders\<close>

lemma publish_built:
  assumes "conn_ok c" "t \<noteq> []"
  shows "\<exists>c' i. mqtt_msg_publish c (Some t) data qos retain old = Some (c', i) \<and>
    built c MQTT_MSG_TYPE_PUBLISH qos retain (publish_body t qos (next_id c) data) c' \<and>
    (msg_data c' \<noteq> [] \<longrightarrow> i = (if qos > 0 then next_id c else 0))"
proof -
  obtain x xs where t: "t = x # xs" using assms(2) by (cases t) auto
  let ?c0 = "init_message c"
  have b0: "building ?c0" "content ?c0 = []" "message_id ?c0 = message_id c" "buffer_length ?c0 = buffer_length c"
    using building_init [OF assms(1)] by auto
  let ?body = "publish_body t qos (next_id c) data"
  have fit: "3 + length ?body \<le> unat (buffer_length c) \<longleftrightarrow> length ?body \<le> room ?c0"
    by (rule init_room [OF assms(1)])
  show ?thesis
  proof (cases "length t + 2 \<le> room ?c0")
    case False
    then have "append_string ?c0 t = Some (-1, ?c0)" using b0 by (intro append_string_full) auto
    moreover have "\<not> length ?body \<le> room ?c0" using False by (simp add: publish_body_def)
    ultimately show ?thesis
      using fail_ok [OF b0(1)] b0 fit by (auto simp: mqtt_msg_publish_def t built_def)
  next
    case True
    obtain c1 where c1: "append_string ?c0 t = Some (int (length t) + 2, c1)" "appended ?c0 (enc_str t) c1"
      using append_string_ok [OF b0(1) True] by blast
    have b1: "building c1" "room c1 = room ?c0 - (length t + 2)" "content c1 = enc_str t"
      "message_id c1 = message_id c" "buffer_length c1 = buffer_length c"
      using c1(2) b0 by (auto simp: appended_def)
    define ids where "ids = (if qos > 0 then enc_id (next_id c) else [])"
    have body: "?body = enc_str t @ ids @ data" by (simp add: publish_body_def ids_def)
    show ?thesis
    proof (cases "length ids \<le> room c1")
      case False
      then have q: "qos > 0" "room c1 < 2" by (auto simp: ids_def split: if_splits)
      have "append_message_id c1 0 = Some (0, c1\<lparr>message_id := next_id c\<rparr>)"
        by (rule append_message_id_full [OF b1(1) q(2)]) (use b1(4) id_loop_next in simp)
      moreover have "\<not> length ?body \<le> room ?c0" using False b1(2) by (simp add: body)
      ultimately show ?thesis
        using fail_ok [OF building_id [OF b1(1)]] b1 fit q c1(1)
        by (auto simp: mqtt_msg_publish_def t built_def)
    next
      case True
      obtain c2 where c2: "(if qos > 0 then append_message_id c1 0 else Some (0, c1)) =
          Some (if qos > 0 then next_id c else 0, c2)"
        "building c2" "content c2 = enc_str t @ ids" "room c2 = room c1 - length ids"
        "buffer_length c2 = buffer_length c"
      proof (cases "qos > 0")
        case q: True
        have "2 \<le> room c1" using True q by (simp add: ids_def)
        then obtain c2 where "append_message_id c1 0 = Some (next_id c, c2)"
          "appended (c1\<lparr>message_id := next_id c\<rparr>) [hi8 (next_id c), lo8 (next_id c)] c2"
          using append_message_id_ok [OF b1(1), of 0 "next_id c" "next_id c"] b1(4) id_loop_next [of c] by auto
        then show ?thesis using q b1
          by (intro that [of c2]) (auto simp: appended_def ids_def enc_id_def content_def room_def)
      next
        case False
        then show ?thesis using b1 by (intro that [of c1]) (auto simp: ids_def)
      qed
      note test = room_test [OF c2(2), of "length data"]
      show ?thesis
      proof (cases "length data \<le> room c2")
        case f: False
        have "\<not> length ?body \<le> room ?c0" using f c2(4) b1(2) by (simp add: body)
        then show ?thesis
          using fail_ok [OF c2(2)] c2 fit c1(1) f test next_id_nz [of c]
          by (auto simp: mqtt_msg_publish_def t built_def)
      next
        case f: True
        obtain buf where buf: "put_block (buffer c2) (unat (msg_length c2)) data = Some buf"
          "appended c2 data (c2\<lparr>buffer := buf, msg_length := msg_length c2 + of_nat (length data)\<rparr>)"
          using append_block_app [OF c2(2) f] by blast
        let ?c3 = "c2\<lparr>buffer := buf, msg_length := msg_length c2 + of_nat (length data)\<rparr>"
        obtain c4 where c4: "fini_message ?c3 MQTT_MSG_TYPE_PUBLISH 0 qos retain = Some c4" "msg_ok c4"
          "msg_data c4 = packet MQTT_MSG_TYPE_PUBLISH 0 qos retain (content ?c3)" "buffer_length c4 = buffer_length ?c3"
          using fini_packet [OF appended_building [OF buf(2)]] by blast
        have con: "content ?c3 = ?body" using buf(2) c2(3) by (simp add: appended_def body)
        have "length ?body \<le> room ?c0"
          using f c2(4) b1(2) \<open>length t + 2 \<le> room ?c0\<close> \<open>length ids \<le> room c1\<close> by (simp add: body)
        then show ?thesis
          using c4 con c2 fit c1(1) f test next_id_nz [of c] buf(1)
          by (auto simp: mqtt_msg_publish_def t built_def)
      qed
    qed
  qed
qed

text \<open>C7: on a connection with a buffer, \<open>mqtt_msg_publish\<close> never leaves the buffer; if the packet fits it
  produces the bytes of the PUBLISH packet with a fresh non-zero identifier for QoS above 0, and
  otherwise an empty message.\<close>

theorem publish_bytes:
  assumes "conn_ok c" "t \<noteq> []"
  shows "\<exists>c' i. mqtt_msg_publish c (Some t) data qos retain old = Some (c', i) \<and>
    built c MQTT_MSG_TYPE_PUBLISH qos retain (publish_body t qos (next_id c) data) c' \<and>
    (msg_data c' \<noteq> [] \<longrightarrow> i = (if qos > 0 then next_id c else 0))"
  using publish_built [OF assms] .

text \<open>Identifier and topic, the common start of SUBSCRIBE and UNSUBSCRIBE.\<close>

lemma id_topic:
  fixes c :: mqtt_connection and t :: "u8 list"
  assumes "conn_ok c"
  defines "body \<equiv> enc_id (next_id c) @ enc_str t"
  shows "if length body \<le> room (init_message c) then
      \<exists>c1 c2. append_message_id (init_message c) 0 = Some (next_id c, c1) \<and>
        append_string c1 t = Some (int (length t) + 2, c2) \<and> building c2 \<and> content c2 = body \<and>
        room c2 = room (init_message c) - length body \<and> buffer_length c2 = buffer_length c
    else (\<exists>c1. append_message_id (init_message c) 0 = Some (0, c1) \<and> building c1 \<and> buffer_length c1 = buffer_length c) \<or>
      (\<exists>c1. append_message_id (init_message c) 0 = Some (next_id c, c1) \<and>
        append_string c1 t = Some (-1, c1) \<and> building c1 \<and> buffer_length c1 = buffer_length c)"
proof -
  let ?c0 = "init_message c"
  have b0: "building ?c0" "content ?c0 = []" "message_id ?c0 = message_id c" "buffer_length ?c0 = buffer_length c"
    using building_init [OF assms(1)] by auto
  have loop: "id_loop 0 (message_id ?c0) = (next_id c, next_id c)" using b0 id_loop_next by simp
  show ?thesis
  proof (cases "2 \<le> room ?c0")
    case False
    then have "append_message_id ?c0 0 = Some (0, ?c0\<lparr>message_id := next_id c\<rparr>)"
      by (intro append_message_id_full [OF b0(1) _ loop]) simp
    then show ?thesis using False b0 building_id [OF b0(1)] by (auto simp: body_def)
  next
    case True
    obtain c1 where c1: "append_message_id ?c0 0 = Some (next_id c, c1)"
      "appended (?c0\<lparr>message_id := next_id c\<rparr>) [hi8 (next_id c), lo8 (next_id c)] c1"
      using append_message_id_ok [OF b0(1) True loop] by blast
    have b1: "building c1" "content c1 = enc_id (next_id c)" "room c1 = room ?c0 - 2" "buffer_length c1 = buffer_length c"
      using c1(2) b0 by (auto simp: appended_def enc_id_def content_def room_def)
    show ?thesis
    proof (cases "length t + 2 \<le> room c1")
      case False
      then have "append_string c1 t = Some (-1, c1)" by (intro append_string_full [OF b1(1)]) simp
      then show ?thesis using False c1 b1 by (auto simp: body_def)
    next
      case f: True
      obtain c2 where c2: "append_string c1 t = Some (int (length t) + 2, c2)" "appended c1 (enc_str t) c2"
        using append_string_ok [OF b1(1) f] by blast
      have "length body \<le> room ?c0" using f True b1(3) by (simp add: body_def)
      then show ?thesis using c1(1) c2 b1 by (auto simp: appended_def body_def)
    qed
  qed
qed

lemma subscribe_built:
  assumes "conn_ok c" "t \<noteq> []"
  shows "(\<exists>c' i. mqtt_msg_subscribe c (Some t) qos old = Some (c', i) \<and>
      built c MQTT_MSG_TYPE_SUBSCRIBE 1 0 (enc_id (next_id c) @ enc_str t @ [of_int qos]) c' \<and>
      (msg_data c' \<noteq> [] \<longrightarrow> i = next_id c)) \<and>
    (\<exists>c' i. mqtt_msg_unsubscribe c (Some t) old = Some (c', i) \<and>
      built c MQTT_MSG_TYPE_UNSUBSCRIBE 1 0 (enc_id (next_id c) @ enc_str t) c' \<and>
      (msg_data c' \<noteq> [] \<longrightarrow> i = next_id c))"
proof -
  obtain x xs where t: "t = x # xs" using assms(2) by (cases t) auto
  let ?body = "enc_id (next_id c) @ enc_str t" and ?c0 = "init_message c"
  note start = id_topic [OF assms(1), of t]
  have fit: "3 + n \<le> unat (buffer_length c) \<longleftrightarrow> n \<le> room ?c0" for n
    by (rule init_room [OF assms(1)])
  show ?thesis
  proof (cases "length ?body \<le> room ?c0")
    case False
    have "\<not> 3 + length (?body @ [of_int qos]) \<le> unat (buffer_length c)" "\<not> 3 + length ?body \<le> unat (buffer_length c)"
      using False unfolding fit by simp_all
    then show ?thesis
      using start False fail_ok next_id_nz [of c]
      by (auto simp: mqtt_msg_subscribe_def mqtt_msg_unsubscribe_def t built_def)
  next
    case True
    obtain c1 c2 where c: "append_message_id ?c0 0 = Some (next_id c, c1)"
      "append_string c1 t = Some (int (length t) + 2, c2)" "building c2" "content c2 = ?body"
      "room c2 = room ?c0 - length ?body" "buffer_length c2 = buffer_length c"
      using start True by auto
    obtain c3 where c3: "fini_message c2 MQTT_MSG_TYPE_UNSUBSCRIBE 0 1 0 = Some c3" "msg_ok c3"
      "msg_data c3 = packet MQTT_MSG_TYPE_UNSUBSCRIBE 0 1 0 ?body" "buffer_length c3 = buffer_length c"
      using fini_packet [OF c(3), of MQTT_MSG_TYPE_UNSUBSCRIBE 0 1 0] c by auto
    have un: "\<exists>c' i. mqtt_msg_unsubscribe c (Some t) old = Some (c', i) \<and>
      built c MQTT_MSG_TYPE_UNSUBSCRIBE 1 0 ?body c' \<and> (msg_data c' \<noteq> [] \<longrightarrow> i = next_id c)"
      using c c3 next_id_nz [of c] True fit [of "length ?body"]
      by (auto simp: mqtt_msg_unsubscribe_def t built_def)
    note test = room_test [OF c(3), of 1]
    have sub: "\<exists>c' i. mqtt_msg_subscribe c (Some t) qos old = Some (c', i) \<and>
      built c MQTT_MSG_TYPE_SUBSCRIBE 1 0 (?body @ [of_int qos]) c' \<and> (msg_data c' \<noteq> [] \<longrightarrow> i = next_id c)"
    proof (cases "1 \<le> room c2")
      case False
      have "\<not> length (?body @ [of_int qos]) \<le> room ?c0" using False c(5) True by simp
      then show ?thesis
        using c False test fail_ok [OF c(3)] next_id_nz [of c] fit [of "length (?body @ [of_int qos])"]
        by (auto simp: mqtt_msg_subscribe_def t built_def)
    next
      case r: True
      obtain buf where buf: "put_block (buffer c2) (unat (msg_length c2)) [of_int qos] = Some buf"
        "appended c2 [of_int qos] (c2\<lparr>buffer := buf, msg_length := msg_length c2 + 1\<rparr>)"
        using append_block_app [OF c(3), of "[of_int qos]"] r by auto
      have st: "set_at (buffer c2) (unat (msg_length c2)) (of_int qos) = Some buf"
        using buf(1) by (auto simp: set_at_def put_block_def upd_conv_take_nth_drop split: if_splits)
      let ?c3 = "c2\<lparr>buffer := buf, msg_length := msg_length c2 + 1\<rparr>"
      obtain c4 where c4: "fini_message ?c3 MQTT_MSG_TYPE_SUBSCRIBE 0 1 0 = Some c4" "msg_ok c4"
        "msg_data c4 = packet MQTT_MSG_TYPE_SUBSCRIBE 0 1 0 (content ?c3)" "buffer_length c4 = buffer_length ?c3"
        using fini_packet [OF appended_building [OF buf(2)]] by blast
      have con: "content ?c3 = ?body @ [of_int qos]" using buf(2) c(4) by (simp add: appended_def)
      have "length (?body @ [of_int qos]) \<le> room ?c0" using r c(5) True by simp
      then show ?thesis
        using c c4 con r test st next_id_nz [of c] fit [of "length (?body @ [of_int qos])"]
        by (auto simp: mqtt_msg_subscribe_def t built_def)
    qed
    show ?thesis using un sub by auto
  qed
qed

text \<open>\<open>mqtt_msg_subscribe\<close> and \<open>mqtt_msg_unsubscribe\<close> never leave the buffer; what they build, if it
  fits, is the packet with a fresh identifier, the topic and, for a subscription, the QoS wanted.\<close>

lemma subscribe_bytes:
  assumes "conn_ok c" "t \<noteq> []"
  shows "(\<exists>c' i. mqtt_msg_subscribe c (Some t) qos old = Some (c', i) \<and>
      built c MQTT_MSG_TYPE_SUBSCRIBE 1 0 (enc_id (next_id c) @ enc_str t @ [of_int qos]) c' \<and>
      (msg_data c' \<noteq> [] \<longrightarrow> i = next_id c)) \<and>
    (\<exists>c' i. mqtt_msg_unsubscribe c (Some t) old = Some (c', i) \<and>
      built c MQTT_MSG_TYPE_UNSUBSCRIBE 1 0 (enc_id (next_id c) @ enc_str t) c' \<and>
      (msg_data c' \<noteq> [] \<longrightarrow> i = next_id c))"
  using subscribe_built [OF assms] .

text \<open>An acknowledgement; for the identifier 0 the builder takes a fresh one instead.\<close>

lemma msg_ack_bytes:
  assumes "conn_ok c" "5 \<le> unat (buffer_length c)"
  shows "\<exists>c'. msg_ack type qos c i = Some c' \<and> msg_ok c' \<and> buffer_length c' = buffer_length c \<and>
    msg_data c' = packet type 0 qos 0 (enc_id (if i = 0 then next_id c else i))"
proof -
  let ?c0 = "init_message c" and ?r = "if i = 0 then next_id c else i"
  have b0: "building ?c0" "content ?c0 = []" "buffer_length ?c0 = buffer_length c" "2 \<le> room ?c0"
    "message_id ?c0 = message_id c"
    using building_init [OF assms(1)] assms(2) by auto
  obtain cid where loop: "id_loop i (message_id ?c0) = (?r, cid)"
    using id_loop_next [of c] id_loop_nz [of i "message_id c"] b0(5) by (cases "i = 0") auto
  obtain c1 where c1: "append_message_id ?c0 i = Some (?r, c1)"
    "appended (?c0\<lparr>message_id := cid\<rparr>) [hi8 ?r, lo8 ?r] c1"
    using append_message_id_ok [OF b0(1,4) loop] by blast
  have "content c1 = enc_id ?r" "building c1" "buffer_length c1 = buffer_length c"
    using c1(2) b0 by (auto simp: appended_def enc_id_def content_def)
  moreover have "?r \<noteq> 0" using next_id_nz by simp
  ultimately show ?thesis
    using fini_packet [of c1 type 0 qos 0] c1(1) by (auto simp: msg_ack_def)
qed

text \<open>The packets without a body always fit.\<close>

lemma ping_bytes:
  assumes "conn_ok c"
  shows "\<exists>c'. fini_message (init_message c) type 0 0 0 = Some c' \<and> msg_ok c' \<and>
    buffer_length c' = buffer_length c \<and> msg_data c' = packet type 0 0 0 []"
  using fini_packet [of "init_message c" type 0 0 0] building_init [OF assms] by auto

subsection \<open>CONNECT\<close>

definition field :: "u8 list option \<Rightarrow> u8 list" where
  "field s = (case s of None \<Rightarrow> [] | Some t \<Rightarrow> if t = [] then [] else enc_str t)"

definition present :: "u8 list option \<Rightarrow> bool" where
  "present s \<longleftrightarrow> s \<noteq> None \<and> s \<noteq> Some []"

definition will_field :: "mqtt_connect_info \<Rightarrow> u8 list" where
  "will_field info = (if present (will_topic info)
     then enc_str (the (will_topic info)) @ enc_str (the (will_message info)) else [])"

definition will_flags :: "mqtt_connect_info \<Rightarrow> u8" where
  "will_flags info = (if present (will_topic info)
     then 0x04 OR (if will_retain info then 0x20 else 0) OR of_int (push_bit 3 (will_qos info AND 3)) else 0)"

definition connect_flags :: "mqtt_connect_info \<Rightarrow> u8" where
  "connect_flags info = (if clean_session info then 0x02 else 0) OR will_flags info OR
     (if present (username info) then 0x80 else 0) OR (if present (password info) then 0x40 else 0)"

definition connect_body :: "mqtt_connect_info \<Rightarrow> u8 list" where
  "connect_body info =
     [0, 4, 77, 81, 84, 84, 4, connect_flags info, of_int (keepalive info div 256), of_int (keepalive info)] @
     field (client_id info) @ will_field info @ field (username info) @ field (password info)"

text \<open>The connection while CONNECT is built: the flags so far, the fields so far and the room left.\<close>

definition con :: "u8 \<Rightarrow> u8 \<Rightarrow> u8 \<Rightarrow> u8 list \<Rightarrow> nat \<Rightarrow> u16 \<Rightarrow> mqtt_connection \<Rightarrow> bool" where
  "con k1 k2 f rest r bl c \<longleftrightarrow> building c \<and> content c = [0, 4, 77, 81, 84, 84, 4, f, k1, k2] @ rest \<and>
     room c = r \<and> buffer_length c = bl"

lemma con_building: "con k1 k2 f rest r bl c \<Longrightarrow> building c \<and> buffer_length c = bl"
  by (simp add: con_def)

lemma or_flag_con:
  assumes "con k1 k2 f rest r bl c"
  shows "\<exists>c'. or_flag 10 g c = Some c' \<and> con k1 k2 (f OR g) rest r bl c'"
proof -
  have c: "building c" "content c = [0, 4, 77, 81, 84, 84, 4, f, k1, k2] @ rest" using assms by (auto simp: con_def)
  have len: "length (content c) = unat (msg_length c) - 3" "unat (msg_length c) \<le> length (buffer c)"
    using c(1) by (auto simp: content_def building_def conn_ok_def)
  then have L: "13 \<le> unat (msg_length c)" using c(2) by simp
  have "content c ! 7 = buffer c ! 10" using L len by (simp add: content_def)
  then have b: "buffer c ! 10 = f" using c(2) by simp
  let ?c = "c\<lparr>buffer := (buffer c)[10 := f OR g]\<rparr>"
  have "content ?c = (content c)[7 := f OR g]"
    using L len by (simp add: content_def take_update_swap drop_update_swap)
  then have "con k1 k2 (f OR g) rest r bl ?c"
    using assms c by (auto simp: con_def building_def conn_ok_def room_def)
  then show ?thesis using L len b by (auto simp: or_flag_def get_at_def set_at_def)
qed

lemma append_con:
  assumes "con k1 k2 f rest r bl c"
  shows "if length t + 2 \<le> r then
      \<exists>c'. append_string c t = Some (int (length t) + 2, c') \<and> con k1 k2 f (rest @ enc_str t) (r - (length t + 2)) bl c'
    else append_string c t = Some (-1, c)"
  using append_string_ok [of c t] append_string_full [of c t] assms by (auto simp: con_def appended_def)

lemma connect_field_con:
  assumes "con k1 k2 f rest r bl c"
  shows "if length (field s) \<le> r then
      \<exists>c'. connect_field 10 s g c = Some (True, c') \<and>
        con k1 k2 (f OR (if present s then g else 0)) (rest @ field s) (r - length (field s)) bl c'
    else \<exists>c'. connect_field 10 s g c = Some (False, c') \<and> building c' \<and> buffer_length c' = bl"
proof (cases "present s")
  case True
  then obtain x xs where s: "s = Some (x # xs)" by (metis neq_Nil_conv option.exhaust present_def)
  have fl: "field (Some (x # xs)) = enc_str (x # xs)" by (simp add: field_def)
  note a = append_con [OF assms, of "x # xs"]
  show ?thesis
  proof (cases "length (x # xs) + 2 \<le> r")
    case r: True
    then obtain c1 where c1: "append_string c (x # xs) = Some (int (length (x # xs)) + 2, c1)"
      "con k1 k2 f (rest @ enc_str (x # xs)) (r - (length (x # xs) + 2)) bl c1" using a by auto
    then show ?thesis using or_flag_con [OF c1(2), of g] True r by (auto simp: connect_field_def s fl)
  next
    case False
    then show ?thesis using a con_building [OF assms] by (auto simp: connect_field_def s fl)
  qed
next
  case False
  then have "connect_field 10 s g c = Some (True, c)" "field s = []"
    by (auto simp: connect_field_def field_def present_def split: option.splits list.splits)
  then show ?thesis using False assms by simp
qed

lemma connect_will_con:
  assumes "con k1 k2 f rest r bl c" "present (will_topic info) \<longrightarrow> will_message info \<noteq> None"
  shows "if length (will_field info) \<le> r then
      \<exists>c'. connect_will 10 info c = Some (True, c') \<and>
        con k1 k2 (f OR will_flags info) (rest @ will_field info) (r - length (will_field info)) bl c'
    else \<exists>c'. connect_will 10 info c = Some (False, c') \<and> building c' \<and> buffer_length c' = bl"
proof (cases "present (will_topic info)")
  case True
  then obtain x xs msg where s: "will_topic info = Some (x # xs)" "will_message info = Some msg"
    using assms(2) by (metis neq_Nil_conv option.exhaust present_def)
  have fl: "will_field info = enc_str (x # xs) @ enc_str msg" using True by (simp add: will_field_def s)
  note a = append_con [OF assms(1), of "x # xs"]
  show ?thesis
  proof (cases "length (x # xs) + 2 \<le> r")
    case False
    then show ?thesis using a con_building [OF assms(1)] by (auto simp: connect_will_def s fl)
  next
    case r: True
    then obtain c1 where c1: "append_string c (x # xs) = Some (int (length (x # xs)) + 2, c1)"
      "con k1 k2 f (rest @ enc_str (x # xs)) (r - (length (x # xs) + 2)) bl c1" using a by auto
    note a2 = append_con [OF c1(2), of msg]
    show ?thesis
    proof (cases "length msg + 2 \<le> r - (length (x # xs) + 2)")
      case False
      then show ?thesis using a2 c1 r con_building [OF c1(2)] by (auto simp: connect_will_def s fl)
    next
      case m: True
      then obtain c2 where c2: "append_string c1 msg = Some (int (length msg) + 2, c2)"
        "con k1 k2 f (rest @ will_field info) (r - length (will_field info)) bl c2"
        using a2 by (auto simp: fl add.commute)
      obtain c3 where c3: "or_flag 10 0x04 c2 = Some c3"
        "con k1 k2 (f OR 0x04) (rest @ will_field info) (r - length (will_field info)) bl c3"
        using or_flag_con [OF c2(2)] by blast
      obtain c4 where c4: "(if will_retain info then or_flag 10 0x20 c3 else Some c3) = Some c4"
        "con k1 k2 (f OR 0x04 OR (if will_retain info then 0x20 else 0)) (rest @ will_field info)
          (r - length (will_field info)) bl c4"
        using or_flag_con [OF c3(2), of "0x20"] c3(2) by (cases "will_retain info") (auto simp: or.assoc)
      obtain c5 where c5: "or_flag 10 (of_int (push_bit 3 (will_qos info AND 3))) c4 = Some c5"
        "con k1 k2 (f OR will_flags info) (rest @ will_field info) (r - length (will_field info)) bl c5"
        using or_flag_con [OF c4(2), of "of_int (push_bit 3 (will_qos info AND 3))"] True
        by (auto simp: will_flags_def or.assoc)
      have "connect_will 10 info c = Some (True, c5)"
        using c1(1) c2(1) c3(1) c4(1) c5(1) by (simp add: connect_will_def s)
      then show ?thesis using c5(2) r m by (auto simp: fl)
    qed
  qed
next
  case False
  then have "connect_will 10 info c = Some (True, c)" "will_field info = []" "will_flags info = 0"
    by (auto simp: connect_will_def will_field_def will_flags_def present_def split: option.splits list.splits)
  then show ?thesis using assms(1) by simp
qed

lemma connect_start:
  assumes "conn_ok c" "10 \<le> room (init_message c)"
  shows "\<exists>b c2. put_block (buffer (init_message c)) 3 [0, 4, 77, 81, 84, 84, 4, 0, k1, k2] = Some b \<and>
    (if clean then or_flag 10 0x02 ((init_message c)\<lparr>buffer := b, msg_length := msg_length (init_message c) + 10\<rparr>)
     else Some ((init_message c)\<lparr>buffer := b, msg_length := msg_length (init_message c) + 10\<rparr>)) = Some c2 \<and>
    con k1 k2 (if clean then 0x02 else 0) [] (room (init_message c) - 10) (buffer_length c) c2"
proof -
  let ?bs = "[0, 4, 77, 81, 84, 84, 4, 0, k1, k2] :: u8 list" and ?c0 = "init_message c"
  have b0: "building ?c0" "content ?c0 = []" "buffer_length ?c0 = buffer_length c" "unat (msg_length ?c0) = 3"
    using building_init [OF assms(1)] by (auto simp: init_message_def)
  obtain buf where buf: "put_block (buffer ?c0) (unat (msg_length ?c0)) ?bs = Some buf"
    "appended ?c0 ?bs (?c0\<lparr>buffer := buf, msg_length := msg_length ?c0 + of_nat (length ?bs)\<rparr>)"
    using append_block_app [OF b0(1), of ?bs] assms(2) by auto
  let ?c1 = "?c0\<lparr>buffer := buf, msg_length := msg_length ?c0 + 10\<rparr>"
  have c1: "con k1 k2 0 [] (room ?c0 - 10) (buffer_length c) ?c1"
    using buf(2) b0 by (simp add: appended_def con_def)
  have p: "put_block (buffer ?c0) 3 ?bs = Some buf" using buf(1) b0(4) by simp
  show ?thesis
    using p c1 or_flag_con [OF c1, of "0x02"] by (cases clean) auto
qed

lemma connect_built:
  assumes "conn_ok c" "client_id info = Some (x # xs)"
    "present (will_topic info) \<longrightarrow> will_message info \<noteq> None"
  shows "\<exists>c'. mqtt_msg_connect c info = Some c' \<and> built c MQTT_MSG_TYPE_CONNECT 0 0 (connect_body info) c'"
proof -
  let ?c0 = "init_message c" and ?bl = "buffer_length c"
  let ?k1 = "of_int (keepalive info div 256) :: u8" and ?k2 = "of_int (keepalive info) :: u8"
  have b0: "building ?c0" "unat (msg_length ?c0) = 3" "buffer_length ?c0 = ?bl"
    using building_init [OF assms(1)] by (auto simp: init_message_def)
  have test: "uint (msg_length ?c0) + 10 > uint (buffer_length ?c0) \<longleftrightarrow> room ?c0 < 10"
    using room_test [OF b0(1), of 10] by simp
  have cidf: "field (client_id info) = enc_str (x # xs)" by (simp add: field_def assms(2))
  show ?thesis
  proof (cases "10 \<le> room ?c0")
    case False
    then have "mqtt_msg_connect c info = Some (fail_message ?c0)"
      using test by (simp add: mqtt_msg_connect_def Let_def)
    then show ?thesis using built_fail [OF b0(1,3) assms(1)] False by (simp add: connect_body_def)
  next
    case True
    obtain b c2 where c1: "put_block (buffer ?c0) 3 [0, 4, 77, 81, 84, 84, 4, 0, ?k1, ?k2] = Some b"
      "(if clean_session info then or_flag 10 0x02 (?c0\<lparr>buffer := b, msg_length := msg_length ?c0 + 10\<rparr>)
        else Some (?c0\<lparr>buffer := b, msg_length := msg_length ?c0 + 10\<rparr>)) = Some c2"
      "con ?k1 ?k2 (if clean_session info then 0x02 else 0) [] (room ?c0 - 10) ?bl c2"
      using connect_start [OF assms(1) True] by blast
    note c1 = c1(1) c1(2) c1(2) c1(3)
    have step: "mqtt_msg_connect c info = do {
        (n, c) \<leftarrow> append_string c2 (x # xs);
        if n < 0 then Some (fail_message c)
        else do {
          (ok, c) \<leftarrow> connect_will 10 info c;
          if \<not> ok then Some (fail_message c)
          else do {
            (ok, c) \<leftarrow> connect_field 10 (username info) 0x80 c;
            if \<not> ok then Some (fail_message c)
            else do {
              (ok, c) \<leftarrow> connect_field 10 (password info) 0x40 c;
              if \<not> ok then Some (fail_message c)
              else fini_message c MQTT_MSG_TYPE_CONNECT 0 0 0 } } } }"
    proof -
      have t: "(uint (msg_length ?c0) + 10 > uint (buffer_length ?c0)) = False" using True test by simp
      have p: "3 + 7 = (10 :: nat)" by simp
      show ?thesis
        unfolding mqtt_msg_connect_def Let_def t if_False b0(2) p c1(1) bind.bind_lunit c1(2) assms(2) by simp
    qed
    show ?thesis
    proof (cases "length (x # xs) + 2 \<le> room ?c0 - 10")
      case False
      then have "mqtt_msg_connect c info = Some (fail_message c2)"
        using append_con [OF c1(4), of "x # xs"] by (simp add: step)
      then show ?thesis using built_fail [OF _ _ assms(1)] con_building [OF c1(4)] False
        by (simp add: connect_body_def cidf)
    next
      case r1: True
      obtain c3 where c3: "append_string c2 (x # xs) = Some (int (length (x # xs)) + 2, c3)"
        "con ?k1 ?k2 (if clean_session info then 0x02 else 0) ([] @ enc_str (x # xs))
          (room ?c0 - 10 - (length (x # xs) + 2)) ?bl c3"
        using append_con [OF c1(4), of "x # xs"] r1 by auto
      note w = connect_will_con [OF c3(2) assms(3)]
      show ?thesis
      proof (cases "length (will_field info) \<le> room ?c0 - 10 - (length (x # xs) + 2)")
        case False
        then obtain c4 where "connect_will 10 info c3 = Some (False, c4)" "building c4" "buffer_length c4 = ?bl"
          using w by auto
        then show ?thesis using built_fail [of c4, OF _ _ assms(1)] False c3(1)
            by (simp add: step connect_body_def cidf)
      next
        case r2: True
        obtain c4 where c4: "connect_will 10 info c3 = Some (True, c4)"
          "con ?k1 ?k2 ((if clean_session info then 0x02 else 0) OR will_flags info)
            (([] @ enc_str (x # xs)) @ will_field info)
            (room ?c0 - 10 - (length (x # xs) + 2) - length (will_field info)) ?bl c4"
          using w r2 by auto
        note u = connect_field_con [OF c4(2), of "username info" "0x80"]
        show ?thesis
        proof (cases "length (field (username info)) \<le> room ?c0 - 10 - (length (x # xs) + 2) - length (will_field info)")
          case False
          then obtain c5 where "connect_field 10 (username info) 0x80 c4 = Some (False, c5)" "building c5"
            "buffer_length c5 = ?bl" using u by auto
          then show ?thesis using built_fail [of c5, OF _ _ assms(1)] False c3(1) c4(1)
            by (simp add: step connect_body_def cidf)
        next
          case r3: True
          obtain c5 where c5: "connect_field 10 (username info) 0x80 c4 = Some (True, c5)"
            "con ?k1 ?k2 (((if clean_session info then 0x02 else 0) OR will_flags info) OR
               (if present (username info) then 0x80 else 0))
              ((([] @ enc_str (x # xs)) @ will_field info) @ field (username info))
              (room ?c0 - 10 - (length (x # xs) + 2) - length (will_field info) - length (field (username info))) ?bl c5"
            using u r3 by auto
          note p = connect_field_con [OF c5(2), of "password info" "0x40"]
          show ?thesis
          proof (cases "length (field (password info)) \<le>
              room ?c0 - 10 - (length (x # xs) + 2) - length (will_field info) - length (field (username info))")
            case False
            then obtain c6 where "connect_field 10 (password info) 0x40 c5 = Some (False, c6)" "building c6"
              "buffer_length c6 = ?bl" using p by auto
            then show ?thesis using built_fail [of c6, OF _ _ assms(1)] False c3(1) c4(1) c5(1)
            by (simp add: step connect_body_def cidf)
          next
            case r4: True
            obtain c6 where c6: "connect_field 10 (password info) 0x40 c5 = Some (True, c6)" "building c6"
              "content c6 = connect_body info" "buffer_length c6 = ?bl"
              using p r4 by (auto simp: con_def connect_body_def connect_flags_def cidf or.assoc)
            have "length (connect_body info) \<le> room ?c0"
              using True r1 r2 r3 r4 by (simp add: connect_body_def cidf)
            then show ?thesis
              using fini_packet [OF c6(2), of MQTT_MSG_TYPE_CONNECT 0 0 0] c6 c3(1) c4(1) c5(1)
                built_ok [OF _ _ _ assms(1)] by (auto simp: step)
          qed
        qed
      qed
    qed
  qed
qed

text \<open>C8: for a client identifier that is not empty and a will message wherever there is a will topic,
  \<open>mqtt_msg_connect\<close> never leaves the buffer; if it fits, it builds the CONNECT packet of MQTT 3.1.1 with
  exactly the flags of the fields that are present, and otherwise an empty message.\<close>

theorem connect_bytes:
  assumes "conn_ok c" "client_id info = Some (x # xs)"
    "present (will_topic info) \<longrightarrow> will_message info \<noteq> None"
  shows "\<exists>c'. mqtt_msg_connect c info = Some c' \<and> built c MQTT_MSG_TYPE_CONNECT 0 0 (connect_body info) c'"
  using connect_built [OF assms] .

subsection \<open>Reading back\<close>

text \<open>The seven-bit digits of the remaining length, with and without the continuation bit.\<close>

lemma seven_bits:
  "n < 128 \<Longrightarrow> uint ((of_nat n :: u8) AND 0x7F) = int n \<and> (of_nat n :: u8) AND 0x80 = 0 \<and>
     uint ((0x80 OR of_nat n :: u8) AND 0x7F) = int n \<and> (0x80 OR of_nat n :: u8) AND 0x80 \<noteq> 0"
proof -
  have "\<forall>n \<in> set [0..<128]. uint ((of_nat n :: u8) AND 0x7F) = int n \<and> (of_nat n :: u8) AND 0x80 = 0 \<and>
     uint ((0x80 OR of_nat n :: u8) AND 0x7F) = int n \<and> (0x80 OR of_nat n :: u8) AND 0x80 \<noteq> 0"
    by code_simp
  then show "n < 128 \<Longrightarrow> ?thesis" by simp
qed

lemma len_loop_rem:
  assumes "n \<le> 16383" "1 + length (rem_len n) \<le> len" "b = [h] @ rem_len n @ tail"
  shows "len_loop b len 1 0 = Some (1 + length (rem_len n), int n)"
    and "skip_loop b len 1 = Some (1 + length (rem_len n))"
proof -
  have "len_loop b len 1 0 = Some (1 + length (rem_len n), int n) \<and>
    skip_loop b len 1 = Some (1 + length (rem_len n))"
  proof (cases "n > 127")
    case False
    then have "n < 128" by simp
    note d = seven_bits [OF this]
    have b: "b = [h, of_nat n] @ tail" "1 < len" using assms False by (auto simp: rem_len_def)
    have "len_loop b len 1 0 = Some (2, int n)"
      using d b False by (subst len_loop.simps) (simp add: get_at_def shl32_def i32_def)
    moreover have "skip_loop b len 1 = Some 2"
      using d b False by (subst skip_loop.simps) (simp add: get_at_def)
    ultimately show ?thesis using False by (simp add: rem_len_def)
  next
    case True
    have lo: "n mod 128 < 128" and hi: "n div 128 < 128" using assms(1) by auto
    note d1 = seven_bits [OF lo] and d2 = seven_bits [OF hi]
    have b: "b = [h, 0x80 OR of_nat (n mod 128), of_nat (n div 128)] @ tail" "2 < len"
      using assms True by (auto simp: rem_len_def)
    have n: "int (n mod 128) + int (n div 128) * 128 = int n"
      by (metis add.commute div_mult_mod_eq of_nat_add of_nat_mult of_nat_numeral)
    have sh: "shl32 (int m) 0 = Some (int m)" "shl32 (int m) 7 = Some (int m * 128)"
      "i32 (int m) = Some (int m)" if "m < 128" for m
      using that by (auto simp: shl32_def i32_def)
    have sn: "i32 (int n) = Some (int n)" using assms(1) by (simp add: i32_def)
    have s2: "len_loop b len 2 (int (n mod 128)) = Some (3, int n)"
      using d2 b n sn sh(2) [OF hi] by (subst len_loop.simps) (simp add: get_at_def)
    have s1: "len_loop b len 1 0 = len_loop b len 2 (int (n mod 128))"
      using d1 b sh(1,3) [OF lo] by (subst len_loop.simps) (simp add: get_at_def numeral_2_eq_2)
    have t2: "skip_loop b len 2 = Some 3"
      using d2 b by (subst skip_loop.simps) (simp add: get_at_def)
    have t1: "skip_loop b len 1 = skip_loop b len 2"
      using d1 b by (subst skip_loop.simps) (simp add: get_at_def numeral_2_eq_2)
    show ?thesis using s1 s2 t1 t2 True by (simp add: rem_len_def)
  qed
  then show "len_loop b len 1 0 = Some (1 + length (rem_len n), int n)"
    and "skip_loop b len 1 = Some (1 + length (rem_len n))" by auto
qed

lemma header_fields:
  assumes "type \<in> {0..15}" "qos \<in> {0..3}" "retain \<in> {0, 1}" "b = fixed_header type 0 qos retain # bs"
  shows "mqtt_get_type b = Some type" "mqtt_get_qos b = Some qos" "mqtt_get_retain b = Some retain"
    "mqtt_get_dup b = Some 0"
proof -
  have "\<forall>type \<in> set [0..15]. \<forall>qos \<in> set [0..3]. \<forall>retain \<in> set [0..1].
      mqtt_get_type [fixed_header type 0 qos retain] = Some type \<and>
      mqtt_get_qos [fixed_header type 0 qos retain] = Some qos \<and>
      mqtt_get_retain [fixed_header type 0 qos retain] = Some retain \<and>
      mqtt_get_dup [fixed_header type 0 qos retain] = Some 0"
    by code_simp
  moreover have "type \<in> set [0..15]" "qos \<in> set [0..3]" "retain \<in> set [0..1]" using assms by auto
  ultimately have "mqtt_get_type [fixed_header type 0 qos retain] = Some type \<and>
      mqtt_get_qos [fixed_header type 0 qos retain] = Some qos \<and>
      mqtt_get_retain [fixed_header type 0 qos retain] = Some retain \<and>
      mqtt_get_dup [fixed_header type 0 qos retain] = Some 0" by blast
  then show "mqtt_get_type b = Some type" "mqtt_get_qos b = Some qos" "mqtt_get_retain b = Some retain"
    "mqtt_get_dup b = Some 0"
    by (simp_all add: assms(4) mqtt_get_type_def mqtt_get_qos_def mqtt_get_retain_def mqtt_get_dup_def get_at_def)
qed

lemma length_rem_len: "length (rem_len n) \<in> {1, 2}"
  by (simp add: rem_len_def)

lemma get_at_app: "get_at (xs @ y # ys) (length xs) = Some y"
  by (simp add: get_at_def)

lemma publish_read:
  assumes b: "b = packet MQTT_MSG_TYPE_PUBLISH 0 qos retain (publish_body t qos i data) @ rest"
    and f: "qos \<in> {0..3}" "retain \<in> {0, 1}" "t \<noteq> []"
    and n: "length (publish_body t qos i data) \<le> 16383"
    and len: "length b - length rest \<le> unat len" "unat len \<le> length b" "data \<noteq> [] \<or> length b - length rest < unat len"
  shows "mqtt_get_type b = Some MQTT_MSG_TYPE_PUBLISH \<and> mqtt_get_qos b = Some qos \<and> mqtt_get_retain b = Some retain \<and>
    mqtt_get_total_length b len = Some (int (length b - length rest)) \<and>
    mqtt_get_id b len = Some (if qos > 0 then i else 0) \<and>
    (\<exists>p. mqtt_get_publish_topic b len = Some (Some (p, of_nat (length t))) \<and> take (length t) (drop p b) = t) \<and>
    (\<exists>p. mqtt_get_publish_data b len = Some (Some p, of_nat (length data)) \<and> take (length data) (drop p b) = data)"
proof -
  define body where "body = publish_body t qos i data"
  define h where "h = fixed_header MQTT_MSG_TYPE_PUBLISH 0 qos retain"
  define r where "r = length (rem_len (length body))"
  define ids where "ids = (if qos > 0 then enc_id i else [])"
  have body: "body = enc_str t @ ids @ data" by (simp add: body_def publish_body_def ids_def)
  have b1: "b = [h] @ rem_len (length body) @ body @ rest"
    using b by (simp add: packet_def h_def body_def)
  have hd: "mqtt_get_type b = Some 3" "mqtt_get_qos b = Some qos" "mqtt_get_retain b = Some retain"
    using header_fields [of 3 qos retain b] f b1 by (simp_all add: h_def)
  have tot: "length b - length rest = 1 + r + length body" by (simp add: b1 r_def)
  have r12: "r = 1 \<or> r = 2" using length_rem_len [of "length body"] by (simp add: r_def)
  have t1: "1 \<le> length t" using f(3) by (simp add: Suc_leI)
  have blen: "length body = length t + 2 + length ids + length data" "length body \<le> 16383"
    using n by (simp_all add: body body_def [symmetric])
  have loops: "len_loop b (unat len) 1 0 = Some (1 + r, int (length body))"
    "skip_loop b (unat len) 1 = Some (1 + r)"
    using len_loop_rem [of "length body" "unat len" b h "body @ rest"] n len(1) b1 tot
    by (simp_all add: body_def [symmetric] r_def)
  have ti: "i32 (int (length body) + int (1 + r)) = Some (int (1 + r + length body))"
    using n r12 by (intro mem_simps [THEN trans]) (auto simp: i32_def body_def)
  let ?x = "of_nat (length t div 256) :: u8" and ?y = "of_nat (length t mod 256) :: u8"
  have "length t \<le> 16383" using n by (simp add: publish_body_def)
  then have tl: "unat (be16 ?x ?y) = length t" by (intro be16_digits) simp
  let ?pre = "[h] @ rem_len (length body)"
  have b2: "b = ?pre @ ?x # ?y # t @ ids @ data @ rest" by (simp add: b1 body enc_str_def)
  have pre: "length ?pre = 1 + r" by (simp add: r_def)
  have g1: "get_at b (1 + r) = Some ?x"
    using get_at_app [of ?pre ?x "?y # t @ ids @ data @ rest"] unfolding pre b2 [symmetric] by simp
  have g2: "get_at b (1 + r + 1) = Some ?y"
    using get_at_app [of "?pre @ [?x]" ?y "t @ ids @ data @ rest"] pre b2 by simp
  have lenb: "length b = 1 + r + 2 + length t + length ids + length data + length rest"
    by (simp add: b2 r_def)
  have room: "1 + r + 2 < unat len" "1 + r + 2 + length t \<le> unat len"
    using len(1) tot blen t1 by linarith+
  have room2: "1 + r + 2 + length t + length ids < unat len"
    using len(1,3) tot blen by (cases data) auto
  have topic: "mqtt_get_publish_topic b len = Some (Some (1 + r + 2, of_nat (length t)))"
    unfolding mqtt_get_publish_topic_def loops bind.bind_lunit case_prod_conv ti g1 g2 Let_def tl
    using room by simp
  have td: "take (length t) (drop (1 + r + 2) b) = t"
  proof -
    have "b = (?pre @ [?x, ?y]) @ t @ ids @ data @ rest" by (simp add: b2)
    moreover have "length (?pre @ [?x, ?y]) = 1 + r + 2" using pre by simp
    ultimately show ?thesis by (metis append_eq_conv_conj)
  qed
  let ?k = "1 + r + 2 + length t"
  have idlen: "length ids = (if qos > 0 then 2 else 0)" by (simp add: ids_def)
  have data: "mqtt_get_publish_data b len = Some (Some (?k + length ids), of_nat (length data))"
  proof -
    have "int (1 + r + length body) - int (?k + length ids) = int (length data)" using blen by simp
    moreover have "int (1 + r + length body) \<le> int (unat len)" using len(1) tot by linarith
    moreover have "\<not> int (1 + r + length body) < int (?k + length ids)" using blen by linarith
    ultimately show ?thesis
      unfolding mqtt_get_publish_data_def Let_def loops bind.bind_lunit case_prod_conv ti g1 g2 tl hd
      using room room2 idlen by (auto simp: algebra_simps)
  qed
  have dd: "take (length data) (drop (?k + length ids) b) = data"
  proof -
    have "b = (?pre @ [?x, ?y] @ t @ ids) @ data @ rest" by (simp add: b2)
    moreover have "length (?pre @ [?x, ?y] @ t @ ids) = ?k + length ids" using pre by simp
    ultimately show ?thesis by (metis append_eq_conv_conj)
  qed
  have gid: "get_at b ?k = Some (hi8 i)" "get_at b (?k + 1) = Some (lo8 i)" if "qos > 0"
  proof -
    have q: "b = (?pre @ [?x, ?y] @ t) @ hi8 i # lo8 i # data @ rest"
      "b = (?pre @ [?x, ?y] @ t @ [hi8 i]) @ lo8 i # data @ rest"
      using that by (simp_all add: b2 ids_def enc_id_def)
    have l: "length (?pre @ [?x, ?y] @ t) = ?k" "length (?pre @ [?x, ?y] @ t @ [hi8 i]) = ?k + 1"
      using pre by simp_all
    show "get_at b ?k = Some (hi8 i)" using get_at_app [of "?pre @ [?x, ?y] @ t"] q(1) l(1) by metis
    show "get_at b (?k + 1) = Some (lo8 i)" using get_at_app [of "?pre @ [?x, ?y] @ t @ [hi8 i]"] q(2) l(2) by metis
  qed
  have id: "mqtt_get_id b len = Some (if qos > 0 then i else 0)"
    unfolding mqtt_get_id_def Let_def hd bind.bind_lunit loops g1 g2 tl
    using room room2 idlen gid by (auto simp: be16_hi8_lo8)
  show ?thesis
  proof -
    have "mqtt_get_total_length b len = Some (int (length b - length rest))"
      unfolding mqtt_get_total_length_def loops bind.bind_lunit case_prod_conv ti tot ..
    then show ?thesis using hd topic td data dd id by blast
  qed
qed

text \<open>C6: what \<open>mqtt_msg_publish\<close> writes, the readers read: from a received PUBLISH packet that is not a
  duplicate (dup = 0), with a topic of at least one byte, at most 16383 bytes after the fixed header, and a payload of at least
  one byte or some byte after the packet, they return its total length, type, QoS and retain flag, and its topic, payload and
  identifier at their places in the buffer. (For an empty payload at the very end of the bytes \<open>mqtt_get_id\<close> gives
  0 instead of the identifier.)\<close>

theorem publish_roundtrip:
  assumes b: "b = packet MQTT_MSG_TYPE_PUBLISH 0 qos retain (publish_body t qos i data) @ rest"
    and f: "qos \<in> {0..3}" "retain \<in> {0, 1}" "t \<noteq> []"
    and n: "length (publish_body t qos i data) \<le> 16383"
    and len: "length b - length rest \<le> unat len" "unat len \<le> length b" "data \<noteq> [] \<or> length b - length rest < unat len"
  shows "mqtt_get_type b = Some MQTT_MSG_TYPE_PUBLISH \<and> mqtt_get_qos b = Some qos \<and> mqtt_get_retain b = Some retain \<and>
    mqtt_get_total_length b len = Some (int (length b - length rest)) \<and>
    mqtt_get_id b len = Some (if qos > 0 then i else 0) \<and>
    (\<exists>p. mqtt_get_publish_topic b len = Some (Some (p, of_nat (length t))) \<and> take (length t) (drop p b) = t) \<and>
    (\<exists>p. mqtt_get_publish_data b len = Some (Some p, of_nat (length data)) \<and> take (length data) (drop p b) = data)"
  using publish_read [OF b f n len] .

text \<open>the acknowledgements PUBACK, PUBREC, PUBREL and PUBCOMP are built as their four bytes, and reading
  them gives back the packet type and the identifier that is acknowledged.\<close>

lemma ack_roundtrip:
  assumes "conn_ok c" "i \<noteq> 0" "5 \<le> unat (buffer_length c)"
    "(f, type) \<in> {(mqtt_msg_puback, MQTT_MSG_TYPE_PUBACK), (mqtt_msg_pubrec, MQTT_MSG_TYPE_PUBREC),
       (mqtt_msg_pubrel, MQTT_MSG_TYPE_PUBREL), (mqtt_msg_pubcomp, MQTT_MSG_TYPE_PUBCOMP)}"
  shows "\<exists>c'. f c i = Some c' \<and> msg_ok c' \<and> buffer_length c' = buffer_length c \<and> length (msg_data c') = 4 \<and>
    mqtt_get_type (msg_data c') = Some type \<and> mqtt_get_id (msg_data c') 4 = Some i"
proof -
  obtain qos where q: "f = msg_ack type qos" "type \<in> {4..7}" "qos \<in> {0..3}"
    using assms(4) by (auto simp: mqtt_msg_puback_def mqtt_msg_pubrec_def mqtt_msg_pubrel_def mqtt_msg_pubcomp_def)
  obtain c' where c': "msg_ack type qos c i = Some c'" "msg_ok c'" "buffer_length c' = buffer_length c"
    "msg_data c' = packet type 0 qos 0 (enc_id i)"
    using msg_ack_bytes [OF assms(1,3), of type qos i] assms(2) by auto
  have p: "packet type 0 qos 0 (enc_id i) = [fixed_header type 0 qos 0, 2, hi8 i, lo8 i]"
    by (simp add: packet_def rem_len_def enc_id_def)
  have ty: "mqtt_get_type [fixed_header type 0 qos 0, 2, hi8 i, lo8 i] = Some type"
    using q by (intro header_fields(1)) auto
  then have "mqtt_get_id [fixed_header type 0 qos 0, 2, hi8 i, lo8 i] 4 = Some i"
    using q(2) by (auto simp: mqtt_get_id_def get_at_def be16_hi8_lo8)
  then show ?thesis using c' p ty q(1) by auto
qed

subsection \<open>Reading bytes of an untrusted sender\<close>

text \<open>
  The readers shift the remaining length by 7 bits for every byte that has its top bit set; after four
  such bytes the shift is undefined. \<open>short_length\<close> excludes just that.
\<close>

definition short_length :: "u8 list \<Rightarrow> nat \<Rightarrow> bool" where
  "short_length b len \<longleftrightarrow> len \<le> 5 \<or> (\<exists>j \<in> {1..4}. b ! j AND 0x80 = 0)"

lemma and_7F_less: "uint ((x :: u8) AND 0x7F) < 128"
proof -
  have "(0x7F :: u8) = mask 7" by (simp add: mask_eq_exp_minus_1)
  then have "uint (x AND 0x7F) = uint (take_bit 7 x)" by (simp add: take_bit_eq_mask)
  also have "\<dots> = take_bit 7 (uint x)" by (rule unsigned_take_bit_eq)
  also have "\<dots> < 2 ^ 7" by (rule take_bit_int_less_exp)
  finally show ?thesis by simp
qed

lemma len_loop_safe:
  assumes "1 \<le> i" "i \<le> 5" "0 \<le> tot" "tot < 2 ^ (7 * (i - 1))" "len \<le> length b"
    "len \<le> 5 \<or> (\<exists>j. i \<le> j \<and> j \<le> 4 \<and> b ! j AND 0x80 = 0)"
  shows "\<exists>k t. len_loop b len i tot = Some (k, t) \<and> 1 \<le> k \<and> (k \<le> len \<or> k = i) \<and> k \<le> 5 \<and> 0 \<le> t \<and> t < 2 ^ 28"
  using assms
proof (induction "5 - i" arbitrary: i tot)
  case 0
  then have "i = 5" "len \<le> 5" by auto
  then show ?case using 0 by (subst len_loop.simps) simp
next
  case (Suc d)
  show ?case
  proof (cases "i < len")
    case False
    have "(2::int) ^ (7 * (i - 1)) \<le> 2 ^ 28" using Suc.prems by (intro power_increasing) auto
    then show ?thesis using False Suc.prems by (subst len_loop.simps) auto
  next
    case True
    let ?x = "b ! i" and ?p = "(2::int) ^ (7 * (i - 1))"
    have x: "get_at b i = Some ?x" using True Suc.prems by (simp add: get_at_def)
    have v: "0 \<le> uint (?x AND 0x7F)" "uint (?x AND 0x7F) \<le> 127" using and_7F_less [of ?x] by auto
    have i4: "i \<le> 4" using Suc.hyps by simp
    have p21: "?p \<le> 2 ^ 21" using i4 by (intro power_increasing) auto
    have vp: "uint (?x AND 0x7F) * ?p \<le> 127 * ?p" using v by (intro mult_right_mono) auto
    have p0: "0 < ?p" by simp
    have sh: "shl32 (uint (?x AND 0x7F)) (7 * (i - 1)) = Some (uint (?x AND 0x7F) * ?p)"
    proof -
      have "127 * ?p < 2 ^ 31" using p21 by simp
      then have "uint (?x AND 0x7F) * ?p < 2 ^ 31" using vp by (rule order.strict_trans1 [rotated])
      moreover have "7 * (i - 1) < 32" using i4 by linarith
      ultimately show ?thesis unfolding shl32_def using v by simp
    qed
    let ?t = "tot + uint (?x AND 0x7F) * ?p"
    have t0: "0 \<le> ?t" using Suc.prems(3) v p0 by (intro add_nonneg_nonneg mult_nonneg_nonneg) auto
    have "?t < ?p + 127 * ?p" using Suc.prems(4) vp by (rule add_less_le_mono)
    then have t: "0 \<le> ?t" "?t < 128 * ?p" using t0 by auto
    have p7: "128 * ?p = 2 ^ (7 * (Suc i - 1))"
    proof -
      have "7 * (Suc i - 1) = 7 + 7 * (i - 1)" using Suc.prems by simp
      then show ?thesis by (simp add: power_add)
    qed
    have i32t: "i32 ?t = Some ?t" using t p21 by (simp add: i32_def)
    show ?thesis
    proof (cases "?x AND 0x80 = 0")
      case e: True
      have "?t < 2 ^ 28" using t p21 by simp
      then show ?thesis using x sh i32t e True t Suc.prems i4 by (subst len_loop.simps) auto
    next
      case False
      have next_ok: "len \<le> 5 \<or> (\<exists>j. Suc i \<le> j \<and> j \<le> 4 \<and> b ! j AND 0x80 = 0)"
        using Suc.prems(6) False by (metis le_neq_implies_less Suc_leI)
      obtain k u where k: "len_loop b len (Suc i) ?t = Some (k, u)" "1 \<le> k" "k \<le> len \<or> k = Suc i" "k \<le> 5" "0 \<le> u" "u < 2 ^ 28"
      proof -
        have d: "d = 5 - Suc i" using Suc.hyps(2) by simp
        have t7: "?t < 2 ^ (7 * (Suc i - 1))" using t(2) p7 by simp
        have "\<exists>k u. len_loop b len (Suc i) ?t = Some (k, u) \<and> 1 \<le> k \<and> (k \<le> len \<or> k = Suc i) \<and> k \<le> 5 \<and>
            0 \<le> u \<and> u < 2 ^ 28"
          by (rule Suc.hyps(1) [OF d _ _ t(1) t7 Suc.prems(5) next_ok]) (use i4 in auto)
        then show ?thesis using that by blast
      qed
      have "len_loop b len i tot = Some (k, u)"
        using x sh i32t False True k(1) by (subst len_loop.simps) simp
      then show ?thesis using k True by auto
    qed
  qed
qed

lemma skip_loop_safe:
  "1 \<le> i \<Longrightarrow> len \<le> length b \<Longrightarrow> \<exists>k. skip_loop b len i = Some k \<and> i \<le> k \<and> (k \<le> len \<or> k = i)"
proof (induction b len i rule: skip_loop.induct)
  case (1 b len i)
  show ?case
  proof (cases "i < len")
    case False
    then show ?thesis by (subst skip_loop.simps) simp
  next
    case True
    then have x: "get_at b i = Some (b ! i)" using 1 by (simp add: get_at_def)
    show ?thesis
    proof (cases "b ! i AND 0x80 = 0")
      case True
      then show ?thesis using x \<open>i < len\<close> by (subst skip_loop.simps) auto
    next
      case False
      obtain k where "skip_loop b len (Suc i) = Some k" "Suc i \<le> k" "k \<le> len \<or> k = Suc i"
        using "1.IH" [OF True x False] 1 by auto
      then show ?thesis using x \<open>i < len\<close> False by (subst skip_loop.simps) auto
    qed
  qed
qed

lemma get_fields_safe: "b \<noteq> [] \<Longrightarrow> mqtt_get_type b \<noteq> None \<and> mqtt_get_qos b \<noteq> None"
  by (simp add: mqtt_get_type_def mqtt_get_qos_def get_at_def)

lemma get_id_safe:
  assumes "unat len \<le> length b"
  shows "mqtt_get_id b len \<noteq> None"
proof (cases "1 \<le> unat len")
  case True
  have q: "\<exists>q. mqtt_get_qos b = Some q" "\<exists>ty. mqtt_get_type b = Some ty"
    using assms True by (auto simp: mqtt_get_qos_def mqtt_get_type_def get_at_def)
  have g: "k < unat len \<Longrightarrow> get_at b k = Some (b ! k)" for k using assms by (simp add: get_at_def)
  obtain k where k: "skip_loop b (unat len) 1 = Some k" using skip_loop_safe [of 1 "unat len" b] assms by auto
  show ?thesis using q True k g by (auto simp: mqtt_get_id_def Let_def)
next
  case False
  then show ?thesis by (simp add: mqtt_get_id_def)
qed

lemma reading_in_bounds:
  assumes "unat len \<le> length b" "1 \<le> unat len"
  shows "mqtt_get_id b len \<noteq> None \<and>
    (short_length b (unat len) \<longrightarrow>
      (\<exists>n. mqtt_get_total_length b len = Some n \<and> 0 < n) \<and>
      (case mqtt_get_publish_topic b len of
         None \<Rightarrow> False
       | Some None \<Rightarrow> True
       | Some (Some (p, n)) \<Rightarrow> p + unat n \<le> unat len) \<and>
      (case mqtt_get_publish_data b len of
         None \<Rightarrow> False
       | Some (None, n) \<Rightarrow> n = 0
       | Some (Some p, n) \<Rightarrow> p + unat n \<le> unat len))"
proof -
  have q: "\<exists>q. mqtt_get_qos b = Some q" "\<exists>ty. mqtt_get_type b = Some ty"
    using assms by (auto simp: mqtt_get_qos_def mqtt_get_type_def get_at_def)
  have g: "k < unat len \<Longrightarrow> get_at b k = Some (b ! k)" for k using assms by (simp add: get_at_def)
  have "mqtt_get_id b len \<noteq> None" using assms(1) by (rule get_id_safe)
  moreover have "(\<exists>n. mqtt_get_total_length b len = Some n \<and> 0 < n) \<and>
      (case mqtt_get_publish_topic b len of None \<Rightarrow> False | Some None \<Rightarrow> True
       | Some (Some (p, n)) \<Rightarrow> p + unat n \<le> unat len) \<and>
      (case mqtt_get_publish_data b len of None \<Rightarrow> False | Some (None, n) \<Rightarrow> n = 0
       | Some (Some p, n) \<Rightarrow> p + unat n \<le> unat len)" if s: "short_length b (unat len)"
  proof -
    have "unat len \<le> 5 \<or> (\<exists>j. 1 \<le> j \<and> j \<le> 4 \<and> b ! j AND 0x80 = 0)"
      using s unfolding short_length_def by auto
    then obtain i t where l: "len_loop b (unat len) 1 0 = Some (i, t)" "1 \<le> i" "i \<le> 5" "0 \<le> t" "t < 2 ^ 28"
      using len_loop_safe [of 1 0 "unat len" b] assms(1) by auto
    have it: "i32 (t + int i) = Some (t + int i)" using l by (simp add: i32_def)
    obtain qos where qos: "mqtt_get_qos b = Some qos" using q by auto
    have "\<exists>n. mqtt_get_total_length b len = Some n \<and> 0 < n"
      unfolding mqtt_get_total_length_def l(1) bind.bind_lunit case_prod_conv it using l by auto
    moreover have "case mqtt_get_publish_topic b len of None \<Rightarrow> False | Some None \<Rightarrow> True
       | Some (Some (p, n)) \<Rightarrow> p + unat n \<le> unat len"
    proof (cases "i + 2 < unat len")
      case False
      then show ?thesis
        unfolding mqtt_get_publish_topic_def l(1) bind.bind_lunit case_prod_conv it by simp
    next
      case True
      define n where "n = unat (be16 (b ! i) (b ! (i + 1)))"
      have g2: "get_at b i = Some (b ! i)" "get_at b (i + 1) = Some (b ! (i + 1))"
        using True by (auto intro!: g)
      have u: "unat (of_nat n :: u16) = n" by (simp add: n_def)
      show ?thesis
        unfolding mqtt_get_publish_topic_def l(1) bind.bind_lunit case_prod_conv it g2 Let_def n_def [symmetric]
        using True u by simp
    qed
    moreover have "case mqtt_get_publish_data b len of None \<Rightarrow> False | Some (None, n) \<Rightarrow> n = 0
       | Some (Some p, n) \<Rightarrow> p + unat n \<le> unat len"
    proof (cases "i + 2 < unat len")
      case False
      then show ?thesis
        unfolding mqtt_get_publish_data_def l(1) bind.bind_lunit case_prod_conv it Let_def by simp
    next
      case True
      define n where "n = unat (be16 (b ! i) (b ! (i + 1)))"
      have g2: "get_at b i = Some (b ! i)" "get_at b (i + 1) = Some (b ! (i + 1))"
        using True by (auto intro!: g)
      define j where "j = (if qos > 0 then i + 2 + n + 2 else i + 2 + n)"
      have small: "unat (of_int x :: u16) = nat x" if "0 \<le> x" "x \<le> int (unat len)" for x
      proof -
        have "uint len < 2 ^ LENGTH(16)" by (rule unsigned_less)
        then have "x < 2 ^ 16" using that(2) by simp
        then show ?thesis using that(1) by (simp add: unsigned_of_int take_bit_int_eq_self)
      qed
      have A: "j + unat (of_int (t + int i - int j) :: u16) \<le> unat len"
        if "t + int i \<le> int (unat len)" "\<not> t + int i < int j"
        using small [of "t + int i - int j"] that by linarith
      have B: "j + unat (of_int (int (unat len) - int j) :: u16) \<le> unat len" if "j < unat len"
        using small [of "int (unat len) - int j"] that by linarith
      have C: "j < unat len" if "\<not> i + 2 + n \<ge> unat len" "\<not> (qos > 0 \<and> i + 2 + n + 2 \<ge> unat len)"
        using that by (auto simp: j_def)
      have "mqtt_get_publish_data b len =
        (if i + 2 + n \<ge> unat len \<or> (qos > 0 \<and> i + 2 + n + 2 \<ge> unat len) \<or> t + int i < int j then Some (None, 0)
         else if t + int i \<le> int (unat len) then Some (Some j, of_int (t + int i - int j))
         else Some (Some j, of_int (int (unat len) - int j)))"
        unfolding mqtt_get_publish_data_def l(1) bind.bind_lunit case_prod_conv it g2 Let_def n_def [symmetric] qos
          j_def [symmetric]
        using True by (simp split del: if_split) (simp split: if_split)
      then show ?thesis using A B C
        by (simp split del: if_split del: of_int_diff of_int_add) (simp split: if_split del: of_int_diff of_int_add)
    qed
    ultimately show ?thesis by blast
  qed
  ultimately show ?thesis by blast
qed

text \<open>C9: whatever bytes a broker sends, the readers stay within the bytes received: the identifier is always
  read safely, and, unless the remaining length is continued past its fourth byte, the topic and the payload that
  are returned lie inside the received bytes.\<close>

theorem reading_safe:
  assumes "unat len \<le> length b" "1 \<le> unat len"
  shows "mqtt_get_id b len \<noteq> None \<and>
    (short_length b (unat len) \<longrightarrow>
      (\<exists>n. mqtt_get_total_length b len = Some n \<and> 0 < n) \<and>
      (case mqtt_get_publish_topic b len of
         None \<Rightarrow> False
       | Some None \<Rightarrow> True
       | Some (Some (p, n)) \<Rightarrow> p + unat n \<le> unat len) \<and>
      (case mqtt_get_publish_data b len of
         None \<Rightarrow> False
       | Some (None, n) \<Rightarrow> n = 0
       | Some (Some p, n) \<Rightarrow> p + unat n \<le> unat len))"
  using reading_in_bounds [OF assms] .

subsection \<open>The properties on concrete packets\<close>

definition sample_conn :: mqtt_connection where
  "sample_conn = mqtt_msg_init (replicate 64 0) 64"

lemma sample_conn_ok: "conn_ok sample_conn" "buffer_length sample_conn = 64" "message_id sample_conn = 0"
  by (simp_all add: sample_conn_def mqtt_msg_init_def conn_ok_def)

lemma publish_bytes_witness:
  "\<exists>c' i. mqtt_msg_publish sample_conn (Some [97, 98]) [1, 2, 3] 1 0 0 = Some (c', i) \<and> i = 1 \<and>
     msg_data c' = [0x32, 9, 0, 2, 97, 98, 0, 1, 1, 2, 3]"
proof -
  have n: "next_id sample_conn = 1" by (simp add: next_id_def sample_conn_ok)
  have "packet 3 0 1 0 (publish_body [97, 98] 1 1 [1, 2, 3]) = [0x32, 9, 0, 2, 97, 98, 0, 1, 1, 2, 3]"
    by code_simp
  then show ?thesis
    using publish_bytes [OF sample_conn_ok(1), of "[97, 98]" "[1, 2, 3]" 1 0 0]
    by (auto simp: n built_def sample_conn_ok publish_body_def)
qed

lemma subscribe_bytes_witness:
  "\<exists>c' i. mqtt_msg_subscribe sample_conn (Some [97]) 1 0 = Some (c', i) \<and> i = 1 \<and>
     msg_data c' = [0x82, 6, 0, 1, 0, 1, 97, 1]"
proof -
  have n: "next_id sample_conn = 1" by (simp add: next_id_def sample_conn_ok)
  have "packet 8 0 1 0 (enc_id 1 @ enc_str [97] @ [of_int 1]) = [0x82, 6, 0, 1, 0, 1, 97, 1]"
    by code_simp
  then show ?thesis
    using subscribe_bytes [OF sample_conn_ok(1), of "[97]" 1 0]
    by (auto simp: n built_def sample_conn_ok)
qed

definition sample_info :: mqtt_connect_info where
  "sample_info = \<lparr>client_id = Some [120], username = Some [117], password = None, will_topic = Some [116],
     will_message = Some [109], keepalive = 300, will_qos = 1, will_retain = True, clean_session = True\<rparr>"

lemma connect_bytes_witness:
  "\<exists>c'. mqtt_msg_connect sample_conn sample_info = Some c' \<and>
     msg_data c' = [0x10, 22, 0, 4, 77, 81, 84, 84, 4, 0xAE, 1, 44, 0, 1, 120, 0, 1, 116, 0, 1, 109, 0, 1, 117]"
proof -
  have "packet 1 0 0 0 (connect_body sample_info) =
      [0x10, 22, 0, 4, 77, 81, 84, 84, 4, 0xAE, 1, 44, 0, 1, 120, 0, 1, 116, 0, 1, 109, 0, 1, 117]"
    "length (connect_body sample_info) = 22"
    by code_simp+
  then show ?thesis
    using connect_bytes [OF sample_conn_ok(1), of sample_info 120 "[]"]
    by (auto simp: built_def sample_conn_ok) (auto simp: sample_info_def)
qed

lemma publish_roundtrip_witness:
  "mqtt_get_id (packet 3 0 2 1 (publish_body [97, 98] 2 0x1234 [7]) @ [9, 9]) 11 = Some 0x1234"
proof -
  have len: "length (packet 3 0 2 1 (publish_body [97, 98] 2 0x1234 [7])) = 9"
    "length (publish_body [97, 98] 2 0x1234 [7]) = 7"
    by code_simp+
  show ?thesis
    using publish_roundtrip [OF refl, of 2 1 "[97, 98]" "0x1234" "[7]" "[9, 9]" 11] len by simp
qed

lemma ack_roundtrip_witness:
  "\<exists>c'. mqtt_msg_pubrel sample_conn 0x0102 = Some c' \<and> mqtt_get_id (msg_data c') 4 = Some 0x0102"
  using ack_roundtrip [OF sample_conn_ok(1), of "0x0102" mqtt_msg_pubrel 6] by (auto simp: sample_conn_ok)

lemma reading_safe_witness:
  "mqtt_get_id [0x32, 0xFF, 0xFF, 0xFF] 4 \<noteq> None \<and>
   (\<exists>n. mqtt_get_total_length [0x32, 0xFF, 0xFF, 0xFF] 4 = Some n \<and> 0 < n)"
proof -
  have "short_length [0x32, 0xFF, 0xFF, 0xFF] (unat (4 :: u16))" by (simp add: short_length_def)
  then show ?thesis using reading_safe [of 4 "[0x32, 0xFF, 0xFF, 0xFF]"] by simp
qed

end
