(* ===== verification/Mqtt_Client.thy ===== *)
theory Mqtt_Client
  imports Ringbuf Mqtt_Packet
begin

section \<open>The MQTT client: queueing, sending and receiving (\<open>espmqtt/mqtt.c\<close>)\<close>

text \<open>
  The client's state and one definition per function of \<open>mqtt.c\<close> that changes it. The FreeRTOS queue of
  message lengths is a parameter: \<open>qsend\<close> and \<open>qrecv\<close> stand for \<open>xQueueSend\<close> with no waiting
  and \<open>xQueueReceive\<close>. The socket is the list of bytes handed to \<open>write\<close>; what \<open>read\<close> returns is an
  argument, as the pair of its result and the bytes. The definitions are the sequential code of each
  function; how the Lua task, \<open>mqtt_task\<close> and the sending task interleave is the run relation of
  \<open>Mqtt_Session\<close>.

  The output buffer is one array that no lock protects: \<open>mqtt_connect\<close> hands it to the message builders as the
  buffer of the connection, the calls, the replies and the PINGREQ of the sending task build in it, and the sending task
  reads messages out of the ring buffer into it.
\<close>

abbreviation (input) BUFFER_SIZE :: nat where "BUFFER_SIZE \<equiv> 1024"
abbreviation (input) RING_SIZE :: nat where "RING_SIZE \<equiv> 4096"

record event_data =
  ev_topic :: "nat option"
  ev_topic_length :: u16
  ev_data :: "nat option"
  ev_data_length :: u16
  ev_data_offset :: u16
  ev_data_total_length :: u16
  ev_message :: "u8 list"

record 'q mqtt_client =
  socket_out :: "u8 list"
  in_buffer :: "u8 list"
  conn :: mqtt_connection
  message_length :: u16
  message_length_read :: u16
  pending_msg_id :: u16
  pending_msg_type :: int
  sending_queue :: 'q
  send_rb :: ringbuf
  keepalive_tick :: u32
  keepalive_setting :: u32

subsection \<open>Queueing a message\<close>

text \<open>
  \<open>mqtt_queue\<close>: the bytes of the outbound message go into the ring buffer and then its length into the queue.
  If the ring buffer is full, \<open>rb_write\<close> polls until the sending task has made room; the second
  component is what it still has to write then. The queue item is read as 32 bits from a 16-bit
  field whose padding \<open>mqtt_msg_init\<close> cleared.
\<close>

definition mqtt_queue :: "('q \<Rightarrow> u32 \<Rightarrow> 'q) \<Rightarrow> 'q mqtt_client \<Rightarrow> ('q mqtt_client \<times> u8 list) option" where
  "mqtt_queue qsend c = do {
     (rb, rest) \<leftarrow> rb_write (send_rb c) (msg_data (conn c));
     let c = c\<lparr>send_rb := rb\<rparr>;
     Some (if rest = [] then c\<lparr>sending_queue := qsend (sending_queue c) (ucast (msg_length (conn c)))\<rparr> else c,
           rest) }"

definition mqtt_publish ::
    "('q \<Rightarrow> u32 \<Rightarrow> 'q) \<Rightarrow> 'q mqtt_client \<Rightarrow> u8 list option \<Rightarrow> u8 list \<Rightarrow> int \<Rightarrow> int \<Rightarrow>
       ('q mqtt_client \<times> u8 list) option" where
  "mqtt_publish qsend c topic data qos retain = do {
     (cn, i) \<leftarrow> mqtt_msg_publish (conn c) topic data qos retain (pending_msg_id c);
     mqtt_queue qsend (c\<lparr>conn := cn, pending_msg_id := i\<rparr>) }"

definition mqtt_subscribe ::
    "('q \<Rightarrow> u32 \<Rightarrow> 'q) \<Rightarrow> 'q mqtt_client \<Rightarrow> u8 list option \<Rightarrow> u8 \<Rightarrow> ('q mqtt_client \<times> u8 list) option" where
  "mqtt_subscribe qsend c topic qos = do {
     (cn, i) \<leftarrow> mqtt_msg_subscribe (conn c) topic (uint qos) (pending_msg_id c);
     mqtt_queue qsend (c\<lparr>conn := cn, pending_msg_id := i\<rparr>) }"

definition mqtt_unsubscribe :: "'q mqtt_client \<Rightarrow> u8 list option \<Rightarrow> 'q mqtt_client option" where
  "mqtt_unsubscribe c topic = do {
     (cn, i) \<leftarrow> mqtt_msg_unsubscribe (conn c) topic (pending_msg_id c);
     Some (c\<lparr>conn := cn, pending_msg_id := i\<rparr>) }"

subsection \<open>The sending task\<close>

text \<open>
  The bytes of one queued message, in portions of at most the output buffer. The second component is
  how many bytes \<open>rb_read\<close> still polls for.
\<close>

definition outbound :: "mqtt_connection \<Rightarrow> u8 list" where
  "outbound cn = drop (msg_off cn) (buffer cn)"

function send_loop :: "nat \<Rightarrow> 'q mqtt_client \<Rightarrow> ('q mqtt_client \<times> nat) option" where
  "send_loop msg_len c =
     (if msg_len = 0 then Some (c, 0)
      else (case rb_read (send_rb c) (min msg_len BUFFER_SIZE) of
              None \<Rightarrow> None
            | Some (rb, bs, missing) \<Rightarrow>
                (case put_block (buffer (conn c)) 0 bs of
                   None \<Rightarrow> None
                 | Some ob \<Rightarrow>
                     (let c = c\<lparr>send_rb := rb, conn := (conn c)\<lparr>buffer := ob\<rparr>\<rparr>
                      in if missing > 0 then Some (c, missing)
                         else (case mqtt_get_type ob of
                                 None \<Rightarrow> None
                               | Some ty \<Rightarrow>
                                   (case mqtt_get_id ob (of_nat (min msg_len BUFFER_SIZE)) of
                                      None \<Rightarrow> None
                                    | Some i \<Rightarrow>
                                        (case get_block ob 0 (min msg_len BUFFER_SIZE) of
                                           None \<Rightarrow> None
                                         | Some out \<Rightarrow>
                                             send_loop (msg_len - min msg_len BUFFER_SIZE)
                                               (c\<lparr>pending_msg_type := ty, pending_msg_id := i,
                                                  socket_out := socket_out c @ out\<rparr>))))))))"
  by pat_completeness auto
termination
  by (relation "measure (\<lambda>(n, c). n)") auto

declare send_loop.simps [simp del]

definition sending_step ::
    "('q \<Rightarrow> (u32 \<times> 'q) option) \<Rightarrow> 'q mqtt_client \<Rightarrow> ('q mqtt_client \<times> nat) option" where
  "sending_step qrecv c =
     (case qrecv (sending_queue c) of
        Some (msg_len, q) \<Rightarrow> do {
          (c, missing) \<leftarrow> send_loop (unat msg_len) (c\<lparr>sending_queue := q\<rparr>);
          Some (if missing = 0 then c\<lparr>keepalive_tick := keepalive_setting c div 2\<rparr> else c, missing) }
      | None \<Rightarrow>
          if keepalive_tick c > 0 then Some (c\<lparr>keepalive_tick := keepalive_tick c - 1\<rparr>, 0)
          else do {
            cn \<leftarrow> mqtt_msg_pingreq (conn c);
            ty \<leftarrow> mqtt_get_type (outbound cn);
            i \<leftarrow> mqtt_get_id (outbound cn) (msg_length cn);
            Some (c\<lparr>conn := cn, keepalive_tick := keepalive_setting c div 2, pending_msg_type := ty,
                    pending_msg_id := i, socket_out := socket_out c @ msg_data cn\<rparr>, 0) })"

subsection \<open>Connecting\<close>

text \<open>
  The handshake of \<open>mqtt_connect\<close> on an open socket: \<open>resp\<close> is what \<open>read\<close> returns. A negative
  result leaves the buffer as it was.
\<close>

definition read_into :: "u8 list \<Rightarrow> int \<times> u8 list \<Rightarrow> u8 list option" where
  "read_into buf r = (if fst r < 0 then Some buf else put_block buf 0 (snd r))"

definition mqtt_connect ::
    "mqtt_connect_info \<Rightarrow> int \<times> u8 list \<Rightarrow> 'q mqtt_client \<Rightarrow> ('q mqtt_client \<times> bool) option" where
  "mqtt_connect info resp c = do {
     cn \<leftarrow> mqtt_msg_connect (mqtt_msg_init (buffer (conn c)) (of_nat BUFFER_SIZE)) info;
     ty \<leftarrow> mqtt_get_type (outbound cn);
     i \<leftarrow> mqtt_get_id (outbound cn) (msg_length cn);
     buf \<leftarrow> read_into (in_buffer c) resp;
     let c = c\<lparr>conn := cn, pending_msg_type := ty, pending_msg_id := i,
               socket_out := socket_out c @ msg_data cn, in_buffer := buf\<rparr>;
     if fst resp < 0 then Some (c, False)
     else do {
       ty \<leftarrow> mqtt_get_type (in_buffer c);
       if ty \<noteq> MQTT_MSG_TYPE_CONNACK then Some (c, False)
       else do {
         code \<leftarrow> mqtt_get_connect_return_code (in_buffer c);
         Some (c, code = 0) } } }"

subsection \<open>Delivering a PUBLISH\<close>

text \<open>
  One turn of the loop of \<open>deliver_publish\<close>: \<open>len\<close> is its argument \<open>length\<close>, \<open>tot\<close>, \<open>off\<close> and
  \<open>len_read\<close> its variables. The result is the event, the new total and offset, and whether the loop ends.
\<close>

definition deliver_turn ::
    "'q mqtt_client \<Rightarrow> int \<Rightarrow> int \<Rightarrow> int \<Rightarrow> int \<Rightarrow> (event_data \<times> int \<times> int \<times> bool) option" where
  "deliver_turn c len tot off len_read = do {
     topic \<leftarrow> mqtt_get_publish_topic (in_buffer c) (of_int len);
     (data, dlen) \<leftarrow> mqtt_get_publish_data (in_buffer c) (of_int len);
     let (tot, mqtt_len) =
       (if tot = 0
        then (uint (message_length c) - uint (message_length_read c) + uint dlen, uint dlen)
        else (tot, len_read));
     let ev = \<lparr>ev_topic = map_option fst topic,
               ev_topic_length = (case topic of None \<Rightarrow> of_int len | Some (_, n) \<Rightarrow> n),
               ev_data = data, ev_data_length = of_int mqtt_len, ev_data_offset = of_int off,
               ev_data_total_length = of_int tot, ev_message = in_buffer c\<rparr>;
     Some (ev, tot, off + mqtt_len, message_length c \<le> message_length_read c) }"

text \<open>
  The loop: \<open>reads\<close> are the results of the calls of \<open>read\<close>; the flag tells whether the loop ended or waits in a
  further \<open>read\<close>.
\<close>

definition deliver_read :: "int \<times> u8 list \<Rightarrow> 'q mqtt_client \<Rightarrow> 'q mqtt_client option" where
  "deliver_read r c = do {
     buf \<leftarrow> read_into (in_buffer c) r;
     Some (c\<lparr>in_buffer := buf, message_length_read := message_length_read c + of_int (fst r)\<rparr>) }"

fun deliver_loop ::
    "(int \<times> u8 list) list \<Rightarrow> 'q mqtt_client \<Rightarrow> int \<Rightarrow> int \<Rightarrow> int \<Rightarrow> int \<Rightarrow>
       ('q mqtt_client \<times> event_data list \<times> bool) option" where
  "deliver_loop [] c len tot off len_read = do {
     (ev, tot, off, stop) \<leftarrow> deliver_turn c len tot off len_read;
     Some (c, [ev], stop) }"
| "deliver_loop (r # rs) c len tot off len_read = do {
     (ev, tot, off, stop) \<leftarrow> deliver_turn c len tot off len_read;
     if stop then Some (c, [ev], True)
     else do {
       c \<leftarrow> deliver_read r c;
       (c, evs, stop) \<leftarrow> deliver_loop rs c len tot off (fst r);
       Some (c, ev # evs, stop) } }"

definition deliver_publish ::
    "(int \<times> u8 list) list \<Rightarrow> 'q mqtt_client \<Rightarrow> int \<Rightarrow> ('q mqtt_client \<times> event_data list \<times> bool) option" where
  "deliver_publish reads c len = deliver_loop reads c len 0 0 0"

subsection \<open>The receive loop\<close>

text \<open>
  One turn of \<open>mqtt_start_receive_schedule\<close> after a \<open>read\<close> that did not return 0. What a turn does besides
  the state: the events delivered, whether a subscription was reported, and the bytes of a
  reply that did not fit into the ring buffer yet.
\<close>

record turn_out =
  to_events :: "event_data list"
  to_subscribed :: bool
  to_rest :: "u8 list"

definition quiet :: turn_out where
  "quiet = \<lparr>to_events = [], to_subscribed = False, to_rest = []\<rparr>"

definition reply ::
    "('q \<Rightarrow> u32 \<Rightarrow> 'q) \<Rightarrow> mqtt_connection option \<Rightarrow> 'q mqtt_client \<Rightarrow> ('q mqtt_client \<times> turn_out) option" where
  "reply qsend m c = do {
     cn \<leftarrow> m;
     (c, rest) \<leftarrow> mqtt_queue qsend (c\<lparr>conn := cn\<rparr>);
     Some (c, quiet\<lparr>to_rest := rest\<rparr>) }"

definition receive_turn ::
    "('q \<Rightarrow> u32 \<Rightarrow> 'q) \<Rightarrow> int \<times> u8 list \<Rightarrow> (int \<times> u8 list) list \<Rightarrow> 'q mqtt_client \<Rightarrow>
       ('q mqtt_client \<times> turn_out) option" where
  "receive_turn qsend r reads c = do {
     buf \<leftarrow> read_into (in_buffer c) r;
     let c = c\<lparr>in_buffer := buf\<rparr>;
     type \<leftarrow> mqtt_get_type buf;
     qos \<leftarrow> mqtt_get_qos buf;
     i \<leftarrow> mqtt_get_id buf (of_nat BUFFER_SIZE);
     if type = MQTT_MSG_TYPE_SUBACK then
       Some (c, quiet\<lparr>to_subscribed := (pending_msg_type c = MQTT_MSG_TYPE_SUBSCRIBE \<and> pending_msg_id c = i)\<rparr>)
     else if type = MQTT_MSG_TYPE_PUBLISH then do {
       (c, out) \<leftarrow> (if qos = 1 then reply qsend (mqtt_msg_puback (conn c) i) c
                    else if qos = 2 then reply qsend (mqtt_msg_pubrec (conn c) i) c
                    else Some (c, quiet));
       if to_rest out \<noteq> [] then Some (c, out)
       else do {
         let c = c\<lparr>message_length_read := of_int (fst r)\<rparr>;
         tot \<leftarrow> mqtt_get_total_length buf (message_length_read c);
         let c = c\<lparr>message_length := of_int tot\<rparr>;
         (c, evs, stop) \<leftarrow> deliver_publish reads c (uint (message_length_read c));
         Some (c, out\<lparr>to_events := evs\<rparr>) } }
     else if type = MQTT_MSG_TYPE_PUBREC then reply qsend (mqtt_msg_pubrel (conn c) i) c
     else if type = MQTT_MSG_TYPE_PUBREL then reply qsend (mqtt_msg_pubcomp (conn c) i) c
     else if type = MQTT_MSG_TYPE_PINGREQ then reply qsend (mqtt_msg_pingresp (conn c)) c
     else Some (c, quiet) }"

subsection \<open>Starting\<close>

text \<open>
  \<open>mqtt_start\<close> after its allocations: the buffers hold whatever memory held, \<open>q\<close> is the new queue, and the
  state was zeroed.
\<close>

definition mqtt_start :: "u8 list \<Rightarrow> u8 list \<Rightarrow> u8 list \<Rightarrow> 'q \<Rightarrow> u32 \<Rightarrow> 'q mqtt_client option" where
  "mqtt_start in_buf out_buf rb_buf q ka = do {
     (rc, rb) \<leftarrow> rb_init (Some \<lparr>rb_arr = [], p_r = 0, p_w = 0, fill_cnt = 0, rb_size = 0, block_size = 0\<rparr>)
                  (Some rb_buf) (int RING_SIZE) 1;
     rb \<leftarrow> rb;
     Some \<lparr>socket_out = [], in_buffer = in_buf, conn = mqtt_msg_init out_buf (of_nat BUFFER_SIZE),
           message_length = 0, message_length_read = 0, pending_msg_id = 0, pending_msg_type = 0,
           sending_queue = q, send_rb = rb, keepalive_tick = ka div 2, keepalive_setting = ka\<rparr> }"

end
