(* ===== verification/Mqtt_Client_Props.thy ===== *)
theory Mqtt_Client_Props
  imports Mqtt_Client
begin

section \<open>The MQTT client: what each step queues and sends\<close>

text \<open>
  The queue of lengths and the ring buffer hold the same messages: lengths in one, bytes in the other. The
  invariant says so and is kept by every step; every packet that must be answered is answered. \<open>Mqtt_Session\<close> puts
  the steps together.
\<close>

text \<open>What FreeRTOS documents of a queue of \<open>cap\<close> items.\<close>

definition queue_laws ::
    "('q \<Rightarrow> u32 \<Rightarrow> 'q) \<Rightarrow> ('q \<Rightarrow> (u32 \<times> 'q) option) \<Rightarrow> ('q \<Rightarrow> u32 list) \<Rightarrow> nat \<Rightarrow> bool" where
  "queue_laws qsend qrecv cont cap \<longleftrightarrow>
     (\<forall>q x. length (cont q) < cap \<longrightarrow> cont (qsend q x) = cont q @ [x]) \<and>
     (\<forall>q x. cap \<le> length (cont q) \<longrightarrow> cont (qsend q x) = cont q) \<and>
     (\<forall>q. cont q = [] \<longrightarrow> qrecv q = None) \<and>
     (\<forall>q x xs. cont q = x # xs \<longrightarrow> (\<exists>q'. qrecv q = Some (x, q') \<and> cont q' = xs))"

subsection \<open>The invariant\<close>

definition client_ok :: "'q mqtt_client \<Rightarrow> bool" where
  "client_ok c \<longleftrightarrow> conn_ok (conn c) \<and> unat (buffer_length (conn c)) = BUFFER_SIZE \<and>
     length (in_buffer c) = BUFFER_SIZE \<and> rb_inv1 (send_rb c) \<and> rb_size (send_rb c) = int RING_SIZE"

definition pending :: "('q \<Rightarrow> u32 list) \<Rightarrow> 'q mqtt_client \<Rightarrow> u8 list list \<Rightarrow> bool" where
  "pending cont c pend \<longleftrightarrow> rb_contents (send_rb c) = concat pend \<and>
     cont (sending_queue c) = map (\<lambda>m. of_nat (length m)) pend \<and> (\<forall>m \<in> set pend. length m \<le> BUFFER_SIZE)"

lemma rb_write_spec:
  assumes "rb_inv1 r"
  shows "\<exists>r'. rb_write r xs = Some (r', drop (nat (rb_size r) - length (rb_contents r)) xs) \<and> rb_inv1 r' \<and>
    rb_size r' = rb_size r \<and> rb_contents r' = rb_contents r @ take (nat (rb_size r) - length (rb_contents r)) xs"
proof -
  have pos: "rb_inv1 q \<Longrightarrow> 0 < rb_size q" for q by (auto simp: rb_inv1_def rb_inv_def)
  obtain r' where r': "put_loop rb_put1 r xs = Some (r', drop (nat (rb_size r) - length (rb_contents r)) xs)" "rb_inv1 r'"
    "nat (rb_size r') = nat (rb_size r)"
    "rb_contents r' = rb_contents r @ take (nat (rb_size r) - length (rb_contents r)) xs"
    using rb.put_loop_cont [OF assms, of xs] by blast
  then show ?thesis using pos [OF assms] pos [OF r'(2)] by (auto simp: rb_write_def eq_nat_nat_iff)
qed

lemma rb_read_spec:
  assumes "rb_inv1 r" "rb_contents r = xs @ ys" "length xs = n"
  shows "\<exists>r'. rb_read r n = Some (r', xs, 0) \<and> rb_inv1 r' \<and> rb_size r' = rb_size r \<and> rb_contents r' = ys"
proof -
  have pos: "rb_inv1 q \<Longrightarrow> 0 < rb_size q" for q by (auto simp: rb_inv1_def rb_inv_def)
  obtain r' where r': "get_loop rb_get1 r n = Some (r', take n (rb_contents r), n - length (rb_contents r))" "rb_inv1 r'"
    "nat (rb_size r') = nat (rb_size r)" "rb_contents r' = drop n (rb_contents r)"
    using rb.get_loop_cont [OF assms(1), of n] by blast
  then show ?thesis using pos [OF assms(1)] pos [OF r'(2)] assms by (auto simp: rb_read_def eq_nat_nat_iff)
qed

text \<open>Queueing a message that fits, and what it leaves alone.\<close>

lemma mqtt_queue_ok:
  assumes laws: "queue_laws qsend qrecv cont cap" and room: "length (cont (sending_queue c)) < cap"
    and ok: "client_ok c" and p: "pending cont c pend"
    and m: "msg_ok (conn c)" and r: "mqtt_queue qsend c = Some (c', [])"
  shows "client_ok c' \<and> pending cont c' (pend @ [msg_data (conn c)]) \<and> conn c' = conn c \<and>
    socket_out c' = socket_out c"
proof -
  have rb: "rb_inv1 (send_rb c)" "rb_size (send_rb c) = int RING_SIZE" using ok by (auto simp: client_ok_def)
  let ?k = "nat (rb_size (send_rb c)) - length (rb_contents (send_rb c))"
  obtain rb' where rb': "rb_write (send_rb c) (msg_data (conn c)) = Some (rb', drop ?k (msg_data (conn c)))" "rb_inv1 rb'"
    "rb_size rb' = rb_size (send_rb c)"
    "rb_contents rb' = rb_contents (send_rb c) @ take ?k (msg_data (conn c))"
    using rb_write_spec [OF rb(1)] by blast
  have fit: "drop ?k (msg_data (conn c)) = []" using r rb'(1) by (simp add: mqtt_queue_def Let_def)
  then have all: "take ?k (msg_data (conn c)) = msg_data (conn c)" by simp
  have c': "c' = c\<lparr>send_rb := rb', sending_queue := qsend (sending_queue c) (ucast (msg_length (conn c)))\<rparr>"
    using r rb'(1) fit by (simp add: mqtt_queue_def Let_def)
  have len: "length (msg_data (conn c)) = unat (msg_length (conn c))" using m by (rule msg_data_length)
  then have "ucast (msg_length (conn c)) = (of_nat (length (msg_data (conn c))) :: u32)"
    by (metis of_nat_unat ucast_id)
  moreover have "length (msg_data (conn c)) \<le> BUFFER_SIZE"
    using m ok len by (auto simp: msg_ok_def client_ok_def conn_ok_def)
  ultimately show ?thesis
    using ok p rb' all laws room by (auto simp: c' client_ok_def pending_def queue_laws_def)
qed

lemma client_ok_conn:
  assumes "client_ok c" "msg_ok cn" "buffer_length cn = buffer_length (conn c)"
  shows "client_ok (c\<lparr>conn := cn\<rparr>)"
  using assms by (simp add: client_ok_def msg_ok_def)

text \<open>Sending one message of at most a buffer's length.\<close>

lemma send_one:
  assumes ok: "client_ok c" and p: "rb_contents (send_rb c) = m @ ms" and len: "length m \<le> BUFFER_SIZE"
  shows "\<exists>c'. send_loop (length m) c = Some (c', 0) \<and> client_ok c' \<and> rb_contents (send_rb c') = ms \<and>
    sending_queue c' = sending_queue c \<and> socket_out c' = socket_out c @ m \<and>
    buffer_length (conn c') = buffer_length (conn c)"
proof (cases "m = []")
  case True
  then show ?thesis using ok p by (simp add: send_loop.simps)
next
  case False
  have rb: "rb_inv1 (send_rb c)" using ok by (simp add: client_ok_def)
  obtain rb' where rb': "rb_read (send_rb c) (length m) = Some (rb', m, 0)" "rb_inv1 rb'"
    "rb_size rb' = rb_size (send_rb c)" "rb_contents rb' = ms"
    using rb_read_spec [OF rb p refl] by blast
  have lb: "length (buffer (conn c)) = BUFFER_SIZE" using ok by (simp add: client_ok_def conn_ok_def)
  let ?ob = "m @ drop (length m) (buffer (conn c))"
  have pb: "put_block (buffer (conn c)) 0 m = Some ?ob" using lb len by (simp add: put_block_def)
  have lob: "length ?ob = BUFFER_SIZE" using lb len by simp
  have gb: "get_block ?ob 0 (length m) = Some m" by (simp add: get_block_def)
  obtain ty where ty: "mqtt_get_type ?ob = Some ty" using lob get_fields_safe [of ?ob] by fastforce
  have "unat (of_nat (length m) :: u16) \<le> length ?ob"
    using len lob by (simp add: unat_of_nat)
  from get_id_safe [OF this] obtain i where i: "mqtt_get_id ?ob (of_nat (length m)) = Some i" by auto
  have mn: "min (length m) BUFFER_SIZE = length m" using len by simp
  define c' where "c' = c\<lparr>send_rb := rb', conn := (conn c)\<lparr>buffer := ?ob\<rparr>, pending_msg_type := ty,
    pending_msg_id := i, socket_out := socket_out c @ m\<rparr>"
  have "send_loop (length m) c = send_loop 0 c'"
    using False rb'(1) pb ty i gb by (subst send_loop.simps) (simp add: mn c'_def)
  also have "\<dots> = Some (c', 0)" by (simp add: send_loop.simps)
  finally show ?thesis
    using ok rb' lob by (auto simp: c'_def client_ok_def conn_ok_def)
qed

text \<open>A turn of the sending task.\<close>

definition ping_packet :: "u8 list" where
  "ping_packet = [0xC0, 0]"

lemma ping_packet: "packet MQTT_MSG_TYPE_PINGREQ 0 0 0 [] = ping_packet"
  by code_simp

lemma sending_step_ok:
  assumes laws: "queue_laws qsend qrecv cont cap" and ok: "client_ok c" and p: "pending cont c pend"
  shows "\<exists>c'. sending_step qrecv c = Some (c', 0) \<and> client_ok c' \<and> pending cont c' (tl pend) \<and>
    (case pend of
       m # ms \<Rightarrow> socket_out c' = socket_out c @ m
     | [] \<Rightarrow> socket_out c' = socket_out c @ (if keepalive_tick c > 0 then [] else ping_packet))"
proof (cases pend)
  case (Cons m ms)
  then have "cont (sending_queue c) = of_nat (length m) # map (\<lambda>m. of_nat (length m)) ms"
    using p by (simp add: pending_def)
  then obtain q where q: "qrecv (sending_queue c) = Some (of_nat (length m), q)" "cont q = map (\<lambda>m. of_nat (length m)) ms"
    using laws unfolding queue_laws_def by blast
  have len: "length m \<le> BUFFER_SIZE" using p Cons by (simp add: pending_def)
  let ?c = "c\<lparr>sending_queue := q\<rparr>"
  have ok': "client_ok ?c" using ok by (simp add: client_ok_def)
  have con: "rb_contents (send_rb ?c) = m @ concat ms" using p Cons by (simp add: pending_def)
  obtain c1 where c1: "send_loop (length m) ?c = Some (c1, 0)" "client_ok c1" "rb_contents (send_rb c1) = concat ms"
    "sending_queue c1 = q" "socket_out c1 = socket_out c @ m"
    using send_one [OF ok' con len] by auto
  have "unat (of_nat (length m) :: u32) = length m" using len by (simp add: unat_of_nat)
  then have "sending_step qrecv c = Some (c1\<lparr>keepalive_tick := keepalive_setting c1 div 2\<rparr>, 0)"
    using c1(1) by (simp add: sending_step_def q(1))
  then show ?thesis using c1 p q(2) Cons by (auto simp: client_ok_def pending_def)
next
  case Nil
  then have q: "qrecv (sending_queue c) = None" using laws p by (simp add: queue_laws_def pending_def)
  show ?thesis
  proof (cases "keepalive_tick c > 0")
    case True
    then show ?thesis using ok p Nil by (auto simp: sending_step_def q client_ok_def pending_def)
  next
    case False
    have cok: "conn_ok (conn c)" using ok by (simp add: client_ok_def)
    obtain cn where cn: "mqtt_msg_pingreq (conn c) = Some cn" "msg_ok cn" "buffer_length cn = buffer_length (conn c)"
      "msg_data cn = ping_packet"
      using ping_bytes [OF cok, of MQTT_MSG_TYPE_PINGREQ] by (auto simp: mqtt_msg_pingreq_def ping_packet)
    have l2: "unat (msg_length cn) = 2" using msg_data_length [OF cn(2)] cn(4) by (simp add: ping_packet_def)
    have lo: "2 \<le> length (outbound cn)" using cn(2) l2 by (auto simp: outbound_def msg_ok_def)
    obtain ty where ty: "mqtt_get_type (outbound cn) = Some ty"
      using lo get_fields_safe [of "outbound cn"] by fastforce
    obtain i where i: "mqtt_get_id (outbound cn) (msg_length cn) = Some i"
      using get_id_safe [of "msg_length cn" "outbound cn"] lo l2 by auto
    show ?thesis
      using False Nil p client_ok_conn [OF ok cn(2,3)] cn ty i
      by (auto simp: sending_step_def q pending_def client_ok_def)
  qed
qed

subsection \<open>What a turn of the receive loop and a call queue\<close>

text \<open>The packets that are answered.\<close>

definition must_reply :: "u8 list \<Rightarrow> bool" where
  "must_reply buf \<longleftrightarrow>
     (mqtt_get_type buf = Some MQTT_MSG_TYPE_PUBLISH \<and> mqtt_get_qos buf \<in> {Some 1, Some 2}) \<or>
     mqtt_get_type buf \<in> {Some MQTT_MSG_TYPE_PUBREC, Some MQTT_MSG_TYPE_PUBREL, Some MQTT_MSG_TYPE_PINGREQ}"

text \<open>Delivering touches only the input buffer and its counter.\<close>

definition same_output :: "'q mqtt_client \<Rightarrow> 'q mqtt_client \<Rightarrow> bool" where
  "same_output c c' \<longleftrightarrow> conn c' = conn c \<and> send_rb c' = send_rb c \<and> sending_queue c' = sending_queue c \<and>
     socket_out c' = socket_out c \<and> length (in_buffer c') = length (in_buffer c)"

lemma same_output_refl: "same_output c c"
  by (simp add: same_output_def)

lemma same_output_trans: "same_output a b \<Longrightarrow> same_output b c \<Longrightarrow> same_output a c"
  by (simp add: same_output_def)

lemma read_into_length: "read_into buf r = Some buf' \<Longrightarrow> length buf' = length buf"
  by (auto simp: read_into_def put_block_length split: if_splits)

lemma deliver_read_same: "deliver_read r c = Some c' \<Longrightarrow> same_output c c'"
  by (auto simp: deliver_read_def same_output_def read_into_length split: bind_splits)

lemma deliver_loop_same: "deliver_loop rs c len t off lr = Some (c', evs, stop) \<Longrightarrow> same_output c c'"
proof (induction rs arbitrary: c t off lr evs)
  case Nil
  then show ?case by (auto simp: same_output_refl split: bind_splits)
next
  case (Cons r rs)
  show ?case using Cons.prems
    by (auto simp: same_output_refl split: bind_splits if_splits
        dest!: Cons.IH deliver_read_same intro: same_output_trans)
qed

lemma same_output_inv:
  "same_output c c' \<Longrightarrow> client_ok c \<Longrightarrow> pending cont c pend \<Longrightarrow> client_ok c' \<and> pending cont c' pend"
  by (simp add: same_output_def client_ok_def pending_def)

text \<open>Queueing what a builder made.\<close>

lemma queue_built:
  assumes "queue_laws qsend qrecv cont cap" "length (cont (sending_queue c)) < cap"
    and "client_ok c" "pending cont c pend"
    and "msg_ok cn" "buffer_length cn = buffer_length (conn c)"
    and "mqtt_queue qsend (c\<lparr>conn := cn, pending_msg_id := i\<rparr>) = Some (c', [])"
  shows "client_ok c' \<and> pending cont c' (pend @ [msg_data (conn c')]) \<and> conn c' = cn \<and> socket_out c' = socket_out c"
proof -
  let ?c = "c\<lparr>conn := cn, pending_msg_id := i\<rparr>"
  have "client_ok ?c" "pending cont ?c pend" "length (cont (sending_queue ?c)) < cap"
    using assms by (auto simp: client_ok_def pending_def msg_ok_def)
  from mqtt_queue_ok [OF assms(1) this(3,1,2) _ assms(7)] assms(5) show ?thesis by simp
qed

lemma publish_step:
  assumes "queue_laws qsend qrecv cont cap" "length (cont (sending_queue c)) < cap"
    "client_ok c" "pending cont c pend" "t \<noteq> []" "mqtt_publish qsend c (Some t) data qos retain = Some (c', [])"
  shows "client_ok c' \<and> pending cont c' (pend @ [msg_data (conn c')]) \<and> socket_out c' = socket_out c"
proof -
  have cok: "conn_ok (conn c)" using assms(3) by (simp add: client_ok_def)
  obtain cn i where cn: "mqtt_msg_publish (conn c) (Some t) data qos retain (pending_msg_id c) = Some (cn, i)"
    "msg_ok cn" "buffer_length cn = buffer_length (conn c)"
    using publish_built [OF cok assms(5), of data qos retain "pending_msg_id c"] by (auto simp: built_def)
  then show ?thesis using queue_built [OF assms(1-4) cn(2,3)] assms(6) by (auto simp: mqtt_publish_def)
qed

lemma subscribe_step:
  assumes "queue_laws qsend qrecv cont cap" "length (cont (sending_queue c)) < cap"
    "client_ok c" "pending cont c pend" "t \<noteq> []" "mqtt_subscribe qsend c (Some t) sqos = Some (c', [])"
  shows "client_ok c' \<and> pending cont c' (pend @ [msg_data (conn c')]) \<and> socket_out c' = socket_out c"
proof -
  have cok: "conn_ok (conn c)" using assms(3) by (simp add: client_ok_def)
  obtain cn i where cn: "mqtt_msg_subscribe (conn c) (Some t) (uint sqos) (pending_msg_id c) = Some (cn, i)"
    "msg_ok cn" "buffer_length cn = buffer_length (conn c)"
    using subscribe_built [OF cok assms(5), of "uint sqos" "pending_msg_id c"] by (auto simp: built_def)
  then show ?thesis using queue_built [OF assms(1-4) cn(2,3)] assms(6) by (auto simp: mqtt_subscribe_def)
qed

text \<open>What is queued in answer to a packet.\<close>

definition reply_packet :: "u8 list \<Rightarrow> mqtt_connection \<Rightarrow> u16 \<Rightarrow> u8 list" where
  "reply_packet buf cn i =
     (let ack = (\<lambda>type qos. packet type 0 qos 0 (enc_id (if i = 0 then next_id cn else i)))
      in if mqtt_get_type buf = Some MQTT_MSG_TYPE_PUBLISH
         then (if mqtt_get_qos buf = Some 1 then ack MQTT_MSG_TYPE_PUBACK 0 else ack MQTT_MSG_TYPE_PUBREC 0)
         else if mqtt_get_type buf = Some MQTT_MSG_TYPE_PUBREC then ack MQTT_MSG_TYPE_PUBREL 1
         else if mqtt_get_type buf = Some MQTT_MSG_TYPE_PUBREL then ack MQTT_MSG_TYPE_PUBCOMP 0
         else packet MQTT_MSG_TYPE_PINGRESP 0 0 0 [])"

lemma reply_step:
  assumes "queue_laws qsend qrecv cont cap" "length (cont (sending_queue c)) < cap"
    "client_ok c" "pending cont c pend"
    "msg_ok cn" "buffer_length cn = buffer_length (conn c)"
    "reply qsend (Some cn) c = Some (c', o')" "to_rest o' = []"
  shows "client_ok c' \<and> pending cont c' (pend @ [msg_data cn]) \<and> conn c' = cn \<and> socket_out c' = socket_out c"
proof -
  have "mqtt_queue qsend (c\<lparr>conn := cn, pending_msg_id := pending_msg_id c\<rparr>) = Some (c', [])"
    using assms(7,8) by (auto simp: reply_def quiet_def split: bind_splits)
  from queue_built [OF assms(1-6) this] show ?thesis by auto
qed

lemma receive_step:
  assumes laws: "queue_laws qsend qrecv cont cap" and room: "length (cont (sending_queue c)) < cap"
    and ok: "client_ok c" and p: "pending cont c pend"
    and buf: "read_into (in_buffer c) r = Some buf" "mqtt_get_id buf (of_nat BUFFER_SIZE) = Some i"
    and t: "receive_turn qsend r reads c = Some (c', o')" and rest: "to_rest o' = []"
  shows "client_ok c' \<and> socket_out c' = socket_out c \<and>
    (if must_reply buf then msg_data (conn c') = reply_packet buf (conn c) i \<and>
       pending cont c' (pend @ [reply_packet buf (conn c) i])
     else pending cont c' pend)"
proof -
  let ?c = "c\<lparr>in_buffer := buf\<rparr>"
  have lb: "length buf = BUFFER_SIZE" using read_into_length [OF buf(1)] ok by (simp add: client_ok_def)
  have ok1: "client_ok ?c" "pending cont ?c pend" "length (cont (sending_queue ?c)) < cap"
    using ok p room lb by (auto simp: client_ok_def pending_def)
  have cok: "conn_ok (conn ?c)" "5 \<le> unat (buffer_length (conn ?c))" using ok by (auto simp: client_ok_def)
  obtain ty qos where f: "mqtt_get_type buf = Some ty" "mqtt_get_qos buf = Some qos"
    using get_fields_safe [of buf] lb by fastforce
  let ?a = "\<lambda>type qos. packet type 0 qos 0 (enc_id (if i = 0 then next_id (conn c) else i))"
  define cn where "cn = (\<lambda>type q. the (msg_ack type q (conn ?c) i))"
  have ack: "msg_ack type q (conn ?c) i = Some (cn type q)" "msg_ok (cn type q)"
    "buffer_length (cn type q) = buffer_length (conn ?c)" "msg_data (cn type q) = ?a type q" for type q
    using msg_ack_bytes [OF cok, of type q i] by (auto simp: cn_def)
  obtain cp where ping: "mqtt_msg_pingresp (conn ?c) = Some cp" "msg_ok cp"
    "buffer_length cp = buffer_length (conn ?c)" "msg_data cp = packet MQTT_MSG_TYPE_PINGRESP 0 0 0 []"
    using ping_bytes [OF cok(1), of MQTT_MSG_TYPE_PINGRESP] by (auto simp: mqtt_msg_pingresp_def)
  note rs = reply_step [OF laws ok1(3,1,2)]
  note builders = mqtt_msg_puback_def mqtt_msg_pubrec_def mqtt_msg_pubrel_def mqtt_msg_pubcomp_def
  consider "ty = MQTT_MSG_TYPE_PUBLISH" | "ty = MQTT_MSG_TYPE_PUBREC" | "ty = MQTT_MSG_TYPE_PUBREL"
    | "ty = MQTT_MSG_TYPE_PINGREQ"
    | "ty \<notin> {MQTT_MSG_TYPE_PUBLISH, MQTT_MSG_TYPE_PUBREC, MQTT_MSG_TYPE_PUBREL, MQTT_MSG_TYPE_PINGREQ}"
    by auto
  then show ?thesis
  proof cases
    case 1
    let ?first = "if qos = 1 then reply qsend (mqtt_msg_puback (conn ?c) i) ?c
      else if qos = 2 then reply qsend (mqtt_msg_pubrec (conn ?c) i) ?c else Some (?c, quiet)"
    obtain c1 o1 where c1: "?first = Some (c1, o1)"
      using t f 1 buf by (cases ?first) (auto simp: receive_turn_def Let_def)
    have r1: "to_rest o1 = []" and same: "same_output c1 c'"
      using t f 1 buf c1 rest
      by (auto simp: receive_turn_def Let_def deliver_publish_def split: if_splits bind_splits
          dest!: deliver_loop_same simp: same_output_def)
    have "client_ok c1 \<and> socket_out c1 = socket_out c \<and>
      (if must_reply buf then msg_data (conn c1) = reply_packet buf (conn c) i \<and>
         pending cont c1 (pend @ [reply_packet buf (conn c) i]) else pending cont c1 pend)"
    proof (cases "qos = 1 \<or> qos = 2")
      case True
      then show ?thesis
        using c1 r1 f 1 rs [OF ack(2,3), of _ _ c1 o1] ack(1,4)
        by (auto simp: must_reply_def reply_packet_def builders Let_def)
    next
      case False
      then show ?thesis using c1 f 1 ok1 by (auto simp: must_reply_def)
    qed
    then show ?thesis using same same_output_inv [OF same]
      by (auto simp: same_output_def split: if_splits)
  next
    case 2
    then have "reply qsend (Some (cn MQTT_MSG_TYPE_PUBREL 1)) ?c = Some (c', o')"
      using t f buf ack(1) by (simp add: receive_turn_def Let_def builders)
    from rs [OF ack(2,3) this rest] show ?thesis
      using f 2 ack(4) by (simp add: must_reply_def reply_packet_def Let_def)
  next
    case 3
    then have "reply qsend (Some (cn MQTT_MSG_TYPE_PUBCOMP 0)) ?c = Some (c', o')"
      using t f buf ack(1) by (simp add: receive_turn_def Let_def builders)
    from rs [OF ack(2,3) this rest] show ?thesis
      using f 3 ack(4) by (simp add: must_reply_def reply_packet_def Let_def)
  next
    case 4
    then have "reply qsend (Some cp) ?c = Some (c', o')"
      using t f buf ping(1) by (simp add: receive_turn_def Let_def)
    from rs [OF ping(2,3) this rest] show ?thesis
      using f 4 ping(4) by (simp add: must_reply_def reply_packet_def)
  next
    case 5
    then have "c' = ?c" using t f buf by (auto simp: receive_turn_def Let_def split: if_splits)
    then show ?thesis using 5 f ok1 by (auto simp: must_reply_def)
  qed
qed

subsection \<open>Connecting\<close>

lemma start_ok:
  assumes "mqtt_start in_buf out_buf rb_buf q ka = Some c" "length in_buf = BUFFER_SIZE"
    "length out_buf = BUFFER_SIZE" "length rb_buf = RING_SIZE"
  shows "client_ok c \<and> rb_contents (send_rb c) = [] \<and> sending_queue c = q \<and> socket_out c = []"
proof -
  let ?q = "\<lparr>rb_arr = [], p_r = 0, p_w = 0, fill_cnt = 0, rb_size = 0, block_size = 0\<rparr>"
  obtain r where r: "rb_init (Some ?q) (Some rb_buf) (int RING_SIZE) 1 = Some (0, Some r)"
    by (simp add: rb_init_def)
  have "rb_inv1 r \<and> rb_contents r = [] \<and> rb_size r = int RING_SIZE"
    using rb_init_inv [OF r] assms(4) by simp
  moreover have "c = \<lparr>socket_out = [], in_buffer = in_buf, conn = mqtt_msg_init out_buf (of_nat BUFFER_SIZE),
           message_length = 0, message_length_read = 0, pending_msg_id = 0, pending_msg_type = 0,
           sending_queue = q, send_rb = r, keepalive_tick = ka div 2, keepalive_setting = ka\<rparr>"
    using assms(1) r by (simp add: mqtt_start_def)
  ultimately show ?thesis using assms(2,3) by (simp add: client_ok_def conn_ok_def mqtt_msg_init_def)
qed

definition connect_out :: "mqtt_connect_info \<Rightarrow> u8 list" where
  "connect_out info = (if 3 + length (connect_body info) \<le> BUFFER_SIZE
     then packet MQTT_MSG_TYPE_CONNECT 0 0 0 (connect_body info) else [])"

lemma connect_step:
  assumes "client_ok c" "client_id info = Some (x # xs)"
    "present (will_topic info) \<longrightarrow> will_message info \<noteq> None" "length bs \<le> BUFFER_SIZE"
  shows "\<exists>c' ok. mqtt_connect info (n, bs) c = Some (c', ok) \<and> client_ok c' \<and> send_rb c' = send_rb c \<and>
    sending_queue c' = sending_queue c \<and> socket_out c' = socket_out c @ connect_out info \<and>
    (4 \<le> length bs \<and> n = int (length bs) \<longrightarrow> (ok \<longleftrightarrow> drop_bit 4 (bs ! 0 AND 0xF0) = 2 \<and> bs ! 3 = 0)) \<and> (n < 0 \<longrightarrow> \<not> ok)"
proof -
  let ?cn0 = "mqtt_msg_init (buffer (conn c)) (of_nat BUFFER_SIZE)"
  have lb: "length (buffer (conn c)) = BUFFER_SIZE" using assms(1) by (simp add: client_ok_def conn_ok_def)
  have bl: "unat (of_nat BUFFER_SIZE :: u16) = BUFFER_SIZE" by simp
  have cok: "conn_ok ?cn0" using lb by (simp add: conn_ok_def mqtt_msg_init_def)
  obtain cn where cn: "mqtt_msg_connect ?cn0 info = Some cn" "msg_ok cn" "buffer_length cn = buffer_length ?cn0"
    "msg_data cn = connect_out info"
    using connect_built [OF cok assms(2,3)] bl
    by (auto simp: built_def connect_out_def mqtt_msg_init_def)
  have ln: "length (buffer cn) = BUFFER_SIZE" using cn(2,3) by (simp add: msg_ok_def conn_ok_def mqtt_msg_init_def)
  have off: "msg_off cn \<le> 1"
  proof -
    have "msg_off cn = 0 \<or> msg_off cn = 1"
      using cn(1) by (auto simp: mqtt_msg_connect_def fail_message_def fini_message_def Let_def
        split: if_splits option.splits list.splits bind_splits)
    then show ?thesis by auto
  qed
  have lo: "length (outbound cn) \<ge> unat (msg_length cn)" "outbound cn \<noteq> []"
    using cn(2) ln off by (auto simp: outbound_def msg_ok_def)
  obtain ty where ty: "mqtt_get_type (outbound cn) = Some ty" using get_fields_safe [OF lo(2)] by auto
  obtain i where i: "mqtt_get_id (outbound cn) (msg_length cn) = Some i" using get_id_safe [OF lo(1)] by auto
  have li: "length (in_buffer c) = BUFFER_SIZE" using assms(1) by (simp add: client_ok_def)
  obtain buf where buf: "read_into (in_buffer c) (n, bs) = Some buf"
    using li assms(4) by (cases "n < 0") (auto simp: read_into_def put_block_def)
  have lbuf: "length buf = BUFFER_SIZE" using read_into_length [OF buf] li by simp
  obtain ty' where ty': "mqtt_get_type buf = Some ty'" using lbuf get_fields_safe [of buf] by fastforce
  have code: "mqtt_get_connect_return_code buf = Some (uint (buf ! 3))"
    using lbuf by (simp add: mqtt_get_connect_return_code_def get_at_def)
  let ?c = "c\<lparr>conn := cn, pending_msg_type := ty, pending_msg_id := i,
    socket_out := socket_out c @ msg_data cn, in_buffer := buf\<rparr>"
  have r: "mqtt_connect info (n, bs) c = Some (?c, 0 \<le> n \<and> ty' = MQTT_MSG_TYPE_CONNACK \<and> uint (buf ! 3) = 0)"
    unfolding mqtt_connect_def cn(1) bind.bind_lunit ty i buf Let_def by (auto simp: ty' code)
  have ok: "client_ok ?c" using cn lbuf assms(1) by (simp add: client_ok_def msg_ok_def mqtt_msg_init_def)
  have verdict: "ty' = 2 \<and> uint (buf ! 3) = 0 \<longleftrightarrow> drop_bit 4 (bs ! 0 AND 0xF0) = 2 \<and> bs ! 3 = 0"
    if "4 \<le> length bs" "n = int (length bs)"
  proof -
    have b: "buf = bs @ drop (length bs) (in_buffer c)"
      using buf that by (simp add: read_into_def put_block_def split: if_splits)
    have ne: "bs \<noteq> []" using that(1) by auto
    then have "buf ! 0 = bs ! 0" "buf \<noteq> []" using b by (auto simp: nth_append)
    then have "uint (drop_bit 4 (bs ! 0 AND 0xF0)) = ty'"
      using ty' by (auto simp: mqtt_get_type_def get_at_def)
    then have "ty' = 2 \<longleftrightarrow> drop_bit 4 (bs ! 0 AND 0xF0) = 2" by (auto simp: word_uint_eq_iff)
    then show ?thesis using that b by (simp add: nth_append word_uint_eq_iff)
  qed
  show ?thesis
    using r ok cn(4) verdict
    by (intro exI [of _ ?c] exI [of _ "0 \<le> n \<and> ty' = MQTT_MSG_TYPE_CONNACK \<and> uint (buf ! 3) = 0"]) auto
qed

text \<open>\<open>mqtt_connect\<close> writes exactly one CONNECT packet (or nothing, if its fields do not fit the buffer) and reports
  success exactly when the broker's answer is a CONNACK with return code 0.\<close>

lemma mqtt_handshake:
  assumes "client_ok c" "client_id info = Some (x # xs)"
    "present (will_topic info) \<longrightarrow> will_message info \<noteq> None" "4 \<le> length bs" "length bs \<le> BUFFER_SIZE"
  shows "\<exists>c'. mqtt_connect info (int (length bs), bs) c =
      Some (c', drop_bit 4 (bs ! 0 AND 0xF0) = 2 \<and> bs ! 3 = 0) \<and> client_ok c' \<and>
    socket_out c' = socket_out c @ (if 3 + length (connect_body info) \<le> BUFFER_SIZE
      then packet MQTT_MSG_TYPE_CONNECT 0 0 0 (connect_body info) else [])"
  using connect_step [OF assms(1-3,5), of "int (length bs)"] assms(4) by (auto simp: connect_out_def)

subsection \<open>Replies\<close>

text \<open>C11: a turn of the receive loop that returns, and for which the queue and the ring buffer have room, answers every
  packet that asks for an answer by exactly one queued message: PUBLISH of QoS 1 by PUBACK, of QoS 2
  by PUBREC, PUBREC by PUBREL, PUBREL by PUBCOMP, each with the identifier received, or with the next identifier of the
  client's own when the one received is 0, and PINGREQ by PINGRESP; any other packet queues nothing.\<close>

theorem mqtt_replies:
  assumes "queue_laws qsend qrecv cont cap" "length (cont (sending_queue c)) < cap"
    and "client_ok c" "pending cont c pend"
    and "read_into (in_buffer c) r = Some buf" "mqtt_get_id buf (of_nat BUFFER_SIZE) = Some i"
    and "receive_turn qsend r reads c = Some (c', o')" "to_rest o' = []"
  shows "let a = (if i = 0 then next_id (conn c) else i) in pending cont c' (pend @
    (case (mqtt_get_type buf, mqtt_get_qos buf) of
       (Some ty, Some qos) \<Rightarrow>
         if ty = MQTT_MSG_TYPE_PUBLISH \<and> qos = 1 then [[0x40, 2, hi8 a, lo8 a]]
         else if ty = MQTT_MSG_TYPE_PUBLISH \<and> qos = 2 then [[0x50, 2, hi8 a, lo8 a]]
         else if ty = MQTT_MSG_TYPE_PUBREC then [[0x62, 2, hi8 a, lo8 a]]
         else if ty = MQTT_MSG_TYPE_PUBREL then [[0x70, 2, hi8 a, lo8 a]]
         else if ty = MQTT_MSG_TYPE_PINGREQ then [[0xD0, 0]]
         else []))"
proof -
  have h: "fixed_header 4 0 0 0 = 0x40" "fixed_header 5 0 0 0 = 0x50" "fixed_header 6 0 1 0 = 0x62"
    "fixed_header 7 0 0 0 = 0x70" "fixed_header 13 0 0 0 = 0xD0" by code_simp+
  have lb: "length buf = BUFFER_SIZE"
    using read_into_length [OF assms(5)] assms(3) by (simp add: client_ok_def)
  obtain ty qos where f: "mqtt_get_type buf = Some ty" "mqtt_get_qos buf = Some qos"
    using get_fields_safe [of buf] lb by fastforce
  have p: "if must_reply buf then pending cont c' (pend @ [reply_packet buf (conn c) i]) else pending cont c' pend"
    using receive_step [OF assms] by auto
  show ?thesis
  proof (cases "must_reply buf")
    case True
    then show ?thesis using p f
      by (auto simp: must_reply_def reply_packet_def Let_def packet_def rem_len_def enc_id_def h)
  next
    case False
    then show ?thesis using p f by (auto simp: must_reply_def Let_def)
  qed
qed

subsection \<open>A concrete client\<close>

text \<open>A queue of 64 lengths as a list.\<close>

definition list_send :: "u32 list \<Rightarrow> u32 \<Rightarrow> u32 list" where
  "list_send q x = (if length q < 64 then q @ [x] else q)"

definition list_recv :: "u32 list \<Rightarrow> (u32 \<times> u32 list) option" where
  "list_recv q = (case q of [] \<Rightarrow> None | x # xs \<Rightarrow> Some (x, xs))"

lemma list_queue_laws: "queue_laws list_send list_recv (\<lambda>q. q) 64"
  by (auto simp: queue_laws_def list_send_def list_recv_def)

lemma sample_started: "\<exists>c. mqtt_start (replicate 1024 0) (replicate 1024 0) (replicate 4096 0) ([] :: u32 list) 60 = Some c \<and>
    client_ok c \<and> pending (\<lambda>q. q) c [] \<and> sending_queue c = [] \<and> socket_out c = []"
proof -
  obtain c where c: "mqtt_start (replicate 1024 0) (replicate 1024 0) (replicate 4096 0) ([] :: u32 list) 60 = Some c"
    by (simp add: mqtt_start_def rb_init_def)
  show ?thesis using start_ok [OF c] c by (auto simp: pending_def)
qed

lemma sample_info_connects: "client_id sample_info = Some [120]"
  "present (will_topic sample_info) \<longrightarrow> will_message sample_info \<noteq> None"
  by (simp_all add: sample_info_def)

lemma mqtt_handshake_witness:
  "\<exists>c c'. mqtt_start (replicate 1024 0) (replicate 1024 0) (replicate 4096 0) ([] :: u32 list) 60 = Some c \<and>
     mqtt_connect sample_info (4, [0x20, 2, 0, 0]) c = Some (c', True)"
proof -
  obtain c where c: "mqtt_start (replicate 1024 0) (replicate 1024 0) (replicate 4096 0) ([] :: u32 list) 60 = Some c"
    "client_ok c" using sample_started by auto
  show ?thesis
    using mqtt_handshake [OF c(2) sample_info_connects, of "[0x20, 2, 0, 0]"] c(1) by auto
qed

text \<open>A turn of it on a PUBREC or a PINGREQ.\<close>

lemma sample_turn:
  assumes "client_ok c" "pending (\<lambda>q. q) c []" "read_into (in_buffer c) r = Some buf"
    "mqtt_get_type buf = Some ty" "mqtt_get_qos buf = Some q" "mqtt_get_id buf (of_nat BUFFER_SIZE) = Some i"
    "ty \<in> {MQTT_MSG_TYPE_PUBREC, MQTT_MSG_TYPE_PINGREQ}"
  shows "\<exists>c'. receive_turn list_send r [] c = Some (c', quiet) \<and> msg_ok (conn c')"
proof -
  let ?c = "c\<lparr>in_buffer := buf\<rparr>"
  have cok: "conn_ok (conn c)" "5 \<le> unat (buffer_length (conn c))" using assms(1) by (auto simp: client_ok_def)
  have rb: "rb_inv1 (send_rb c)" "rb_contents (send_rb c) = []" "rb_size (send_rb c) = 4096"
    using assms(1,2) by (auto simp: client_ok_def pending_def)
  have queued: "\<exists>c'. mqtt_queue list_send (?c\<lparr>conn := cn\<rparr>) = Some (c', []) \<and> conn c' = cn" if "length (msg_data cn) \<le> 4" for cn
    using rb_write_spec [OF rb(1), of "msg_data cn"] rb that by (auto simp: mqtt_queue_def Let_def)
  obtain rel where rel: "msg_ack MQTT_MSG_TYPE_PUBREL 1 (conn c) i = Some rel" "length (msg_data rel) = 4" "msg_ok rel"
    using msg_ack_bytes [OF cok, of MQTT_MSG_TYPE_PUBREL 1 i] by (auto simp: packet_def rem_len_def enc_id_def)
  obtain resp where resp: "mqtt_msg_pingresp (conn c) = Some resp" "length (msg_data resp) = 2" "msg_ok resp"
    using ping_bytes [OF cok(1), of MQTT_MSG_TYPE_PINGRESP]
    by (auto simp: mqtt_msg_pingresp_def packet_def rem_len_def)
  have quiet: "quiet\<lparr>to_rest := []\<rparr> = quiet" by (simp add: quiet_def)
  obtain c1 c2 where "mqtt_queue list_send (?c\<lparr>conn := rel\<rparr>) = Some (c1, [])" "conn c1 = rel"
    "mqtt_queue list_send (?c\<lparr>conn := resp\<rparr>) = Some (c2, [])" "conn c2 = resp"
    using queued [of rel] queued [of resp] rel(2) resp(2) by auto
  then show ?thesis
    using rel(1,3) resp(1,3) assms(7) quiet
    unfolding receive_turn_def assms(3) bind.bind_lunit Let_def assms(4-6)
    by (auto simp: reply_def mqtt_msg_pubrel_def)
qed

text \<open>It answers a PUBREC of identifier 0x0102 and, in the state it started in, a PINGREQ.\<close>

lemma mqtt_replies_witness:
  "\<exists>c c' d'. mqtt_start (replicate 1024 0) (replicate 1024 0) (replicate 4096 0) ([] :: u32 list) 60 = Some c \<and>
     receive_turn list_send (4, [0x50, 2, 1, 2]) [] c = Some (c', quiet) \<and> pending (\<lambda>q. q) c' [[0x62, 2, 1, 2]] \<and>
     receive_turn list_send (2, [0xC0, 0]) [] c = Some (d', quiet) \<and> pending (\<lambda>q. q) d' [[0xD0, 0]]"
proof -
  obtain c where c: "mqtt_start (replicate 1024 0) (replicate 1024 0) (replicate 4096 0) ([] :: u32 list) 60 = Some c"
    "client_ok c" "pending (\<lambda>q. q) c []" "sending_queue c = []" using sample_started by auto
  have ib: "in_buffer c = replicate 1024 0" using c(1) by (auto simp: mqtt_start_def split: bind_splits)
  let ?rec = "[0x50, 2, 1, 2] @ replicate 1020 (0 :: u8)" and ?ping = "[0xC0, 0] @ replicate 1022 (0 :: u8)"
  have b: "be16 1 2 = 0x0102" by code_simp
  have rec: "read_into (in_buffer c) (4, [0x50, 2, 1, 2]) = Some ?rec" "mqtt_get_type ?rec = Some 5"
    "mqtt_get_qos ?rec = Some 0" "mqtt_get_id ?rec (of_nat BUFFER_SIZE) = Some 0x0102"
    by (simp_all add: ib read_into_def put_block_def mqtt_get_type_def mqtt_get_qos_def mqtt_get_id_def get_at_def b)
  have ping: "read_into (in_buffer c) (2, [0xC0, 0]) = Some ?ping" "mqtt_get_type ?ping = Some 12"
    "mqtt_get_qos ?ping = Some 0" "mqtt_get_id ?ping (of_nat BUFFER_SIZE) = Some 0"
    by (simp_all add: ib read_into_def put_block_def mqtt_get_type_def mqtt_get_qos_def mqtt_get_id_def get_at_def)
  have hl: "hi8 0x0102 = 1" "lo8 0x0102 = 2" by code_simp+
  have room: "length ((\<lambda>q. q) (sending_queue c)) < 64" using c(4) by simp
  have quiet: "to_rest quiet = []" by (simp add: quiet_def)
  obtain c' d' where turns: "receive_turn list_send (4, [0x50, 2, 1, 2]) [] c = Some (c', quiet)"
    "receive_turn list_send (2, [0xC0, 0]) [] c = Some (d', quiet)"
    using sample_turn [OF c(2,3) rec] sample_turn [OF c(2,3) ping] by auto
  note replies = mqtt_replies [OF list_queue_laws room c(2,3)]
  show ?thesis
    using c(1) turns replies [OF rec(1,4) turns(1) quiet] replies [OF ping(1,4) turns(2) quiet] rec(2,3) ping(2,3)
    by (auto simp: hl)
qed

end
