(* ===== verification/Mqtt_Session.thy ===== *)
theory Mqtt_Session
  imports Mqtt_Client_Props
begin

section \<open>The MQTT client: its tasks over many connections (\<open>espmqtt/mqtt.c\<close>)\<close>

text \<open>
  \<open>mqtt_task\<close> connects, runs the receive loop until the connection ends and connects again; the sending task
  exists while the receive loop runs. Name resolution, sockets and \<open>read\<close> are arguments: what each call
  returned. The definitions are the sequential code of the functions. In a run a turn of \<open>mqtt_task\<close> or of
  the sending task is one step; that a message is taken from the ring buffer
  and written in one step is how the tasks run, since the sending task has the higher priority and can only be
  deleted while it waits, that is between messages or after it handed the message over.

  The code does not lock the buffer the messages are built in, and the Lua task, \<open>mqtt_task\<close> and the sending task
  (for its PINGREQ) all build in it. A run has a parameter that says whether the Lua task may be preempted
  between building a message and queueing it. The framing of the messages is proved for runs where it is
  not, that is where the calls and the turns exclude each other; \<open>mqtt_race\<close> is a run
  where it is, and the message that was published is lost.
\<close>

subsection \<open>Connecting to the host\<close>

text \<open>One turn of the loop of \<open>client_connect\<close>: the answers to the calls that are made.\<close>

record attempt =
  aton :: "u32 option"
  host_entry :: "u32 list option"
  sock_res :: int
  connect_res :: int

datatype net_call = Socket int | Connect int u32 u16 | Close int | Task_delay nat

definition resolve_dns :: "u32 list option \<Rightarrow> u32 option" where
  "resolve_dns he =
     (case he of
        None \<Rightarrow> None
      | Some addr_list \<Rightarrow> (case addr_list of [] \<Rightarrow> None | a # _ \<Rightarrow> Some a))"

text \<open>None: the attempts are used up and it goes on trying.\<close>

fun client_connect :: "u16 \<Rightarrow> attempt list \<Rightarrow> (int \<times> net_call list) option" where
  "client_connect port [] = None"
| "client_connect port (a # as) =
     (let again = (\<lambda>calls. map_option (\<lambda>(fd, later). (fd, calls @ later)) (client_connect port as))
      in case (case aton a of Some ip \<Rightarrow> Some ip | None \<Rightarrow> resolve_dns (host_entry a)) of
           None \<Rightarrow> again [Task_delay 1000]
         | Some ip \<Rightarrow>
             if sock_res a = - 1 then again [Socket (- 1)]
             else if connect_res a \<noteq> 0
             then again [Socket (sock_res a), Connect (sock_res a) ip port, Close (sock_res a), Task_delay 1000]
             else Some (sock_res a, [Socket (sock_res a), Connect (sock_res a) ip port]))"

subsection \<open>The task\<close>

datatype task_pc = Connecting | Receiving

text \<open>The bytes of \<open>socket_out\<close> are those written to the current socket.\<close>

record 'q mqtt_sys =
  client :: "'q mqtt_client"
  pc :: task_pc
  sending :: bool
  socket_fd :: int
  open_socks :: "int list"

definition mqtt_task_connect ::
    "mqtt_connect_info \<Rightarrow> u16 \<Rightarrow> attempt list \<Rightarrow> int \<times> u8 list \<Rightarrow> 'q mqtt_sys \<Rightarrow> ('q mqtt_sys \<times> bool) option" where
  "mqtt_task_connect info port as resp s = do {
     (fd, _) \<leftarrow> client_connect port as;
     let s = s\<lparr>socket_fd := fd, open_socks := fd # open_socks s\<rparr>;
     (c, ok) \<leftarrow> mqtt_connect info resp ((client s)\<lparr>socket_out := []\<rparr>);
     let s = s\<lparr>client := c\<rparr>;
     Some (if ok then s\<lparr>sending := True, pc := Receiving\<rparr> else s, ok) }"

text \<open>The receive loop ends when \<open>read\<close> returns 0.\<close>

definition mqtt_task_receive ::
    "('q \<Rightarrow> u32 \<Rightarrow> 'q) \<Rightarrow> int \<times> u8 list \<Rightarrow> (int \<times> u8 list) list \<Rightarrow> 'q mqtt_sys \<Rightarrow>
       ('q mqtt_sys \<times> turn_out option) option" where
  "mqtt_task_receive qsend r reads s =
     (if fst r = 0
      then Some (s\<lparr>open_socks := remove1 (socket_fd s) (open_socks s), sending := False, pc := Connecting\<rparr>, None)
      else do {
        (c, o') \<leftarrow> receive_turn qsend r reads (client s);
        Some (s\<lparr>client := c\<rparr>, Some o') })"

text \<open>
  The functions of the settings that are called for a turn. Those for a lost connection and for a new one after
  it are called nowhere.
\<close>

datatype mqtt_event = Connected | Subscribed | Data event_data | Published event_data

definition connect_events :: "bool \<Rightarrow> mqtt_event list" where
  "connect_events ok = (if ok then [Connected] else [])"

definition turn_events :: "turn_out \<Rightarrow> mqtt_event list" where
  "turn_events o' = (if to_subscribed o' then [Subscribed] else []) @
     concat (map (\<lambda>e. [Data e, Published e]) (to_events o'))"

subsection \<open>Starting and destroying\<close>

text \<open>
  The one client the module allows, the handle \<open>xMqttTask\<close> and whether the task runs. \<open>mqtt_start\<close> gives NULL,
  here False, when the handle is set. \<open>mqtt_destroy\<close> frees the client and deletes the task of the handle; the
  sending task, if there is one, goes on with freed memory.
\<close>

record 'q mqtt_module =
  instance_of :: "'q mqtt_sys option"
  xMqttTask :: bool
  task_runs :: bool

definition module_start ::
    "u8 list \<Rightarrow> u8 list \<Rightarrow> u8 list \<Rightarrow> 'q \<Rightarrow> u32 \<Rightarrow> 'q mqtt_module \<Rightarrow> ('q mqtt_module \<times> bool) option" where
  "module_start in_buf out_buf rb_buf q ka m =
     (if xMqttTask m then Some (m, False)
      else do {
        c \<leftarrow> mqtt_start in_buf out_buf rb_buf q ka;
        Some (m\<lparr>instance_of := Some \<lparr>client = c, pc = Connecting, sending = False, socket_fd = 0, open_socks = []\<rparr>,
                xMqttTask := True, task_runs := True\<rparr>, True) })"

definition mqtt_destroy :: "'q mqtt_module \<Rightarrow> 'q mqtt_module option" where
  "mqtt_destroy m = do {
     s \<leftarrow> instance_of m;
     Some (m\<lparr>instance_of := None, task_runs := False\<rparr>) }"

lemma no_restart:
  assumes "mqtt_destroy m = Some m'" "xMqttTask m"
  shows "module_start ib ob rb q ka m' = Some (m', False)"
  using assms by (auto simp: mqtt_destroy_def module_start_def split: bind_splits)

subsection \<open>Sockets\<close>

text \<open>Every socket that is opened is closed again, except the one returned, which was connected.\<close>

fun open_after :: "net_call list \<Rightarrow> int list \<Rightarrow> int list" where
  "open_after [] fds = fds"
| "open_after (c # cs) fds = open_after cs
     (case c of Socket fd \<Rightarrow> if fd = - 1 then fds else fd # fds | Close fd \<Rightarrow> remove1 fd fds | _ \<Rightarrow> fds)"

lemma client_connect_sockets:
  "client_connect port as = Some (fd, calls) \<Longrightarrow> open_after calls fds = fd # fds \<and> (\<exists>ip. Connect fd ip port \<in> set calls)"
proof (induction as arbitrary: fd calls)
  case (Cons a as)
  show ?case
  proof (cases "case aton a of Some ip \<Rightarrow> Some ip | None \<Rightarrow> resolve_dns (host_entry a)")
    case None
    then obtain later where "client_connect port as = Some (fd, later)" "calls = Task_delay 1000 # later"
      using Cons.prems by (auto simp: Let_def)
    then show ?thesis using Cons.IH by auto
  next
    case (Some ip)
    consider "sock_res a = - 1" | "sock_res a \<noteq> - 1" "connect_res a \<noteq> 0" | "sock_res a \<noteq> - 1" "connect_res a = 0" by blast
    then show ?thesis
      using Cons Some by cases (auto simp: Let_def)
  qed
qed simp

subsection \<open>Calls of the API\<close>

text \<open>A call for which the ring buffer and the queue had room, with the messages it queued.\<close>

inductive client_call ::
    "('q \<Rightarrow> u32 \<Rightarrow> 'q) \<Rightarrow> ('q \<Rightarrow> u32 list) \<Rightarrow> nat \<Rightarrow> 'q mqtt_client \<Rightarrow> u8 list list \<Rightarrow> 'q mqtt_client \<Rightarrow> bool"
  for qsend cont cap c where
  publish: "t \<noteq> [] \<Longrightarrow> length (cont (sending_queue c)) < cap \<Longrightarrow>
     mqtt_publish qsend c (Some t) data qos retain = Some (c', []) \<Longrightarrow> client_call qsend cont cap c [msg_data (conn c')] c'"
| subscribe: "t \<noteq> [] \<Longrightarrow> length (cont (sending_queue c)) < cap \<Longrightarrow>
     mqtt_subscribe qsend c (Some t) sqos = Some (c', []) \<Longrightarrow> client_call qsend cont cap c [msg_data (conn c')] c'"
| unsubscribe: "t \<noteq> [] \<Longrightarrow> mqtt_unsubscribe c (Some t) = Some c' \<Longrightarrow> client_call qsend cont cap c [] c'"




subsection \<open>Runs\<close>

text \<open>The first half of \<open>mqtt_publish\<close> and of \<open>mqtt_subscribe\<close>: the message is built and not yet queued.\<close>

inductive client_build :: "'q mqtt_client \<Rightarrow> 'q mqtt_client \<Rightarrow> bool" for c where
  publish: "t \<noteq> [] \<Longrightarrow>
     mqtt_msg_publish (conn c) (Some t) data qos retain (pending_msg_id c) = Some (cn, i) \<Longrightarrow>
     client_build c (c\<lparr>conn := cn, pending_msg_id := i\<rparr>)"
| subscribe: "t \<noteq> [] \<Longrightarrow>
     mqtt_msg_subscribe (conn c) (Some t) sqos (pending_msg_id c) = Some (cn, i) \<Longrightarrow>
     client_build c (c\<lparr>conn := cn, pending_msg_id := i\<rparr>)"

text \<open>
  A run from the start of the client: calls, connections that are accepted or refused, received packets, ends of
  connections and turns of the sending task. \<open>qd\<close> is the list of the messages queued so far. The log has one
  entry for each connection, the latest first: the bytes written to its socket, and what each turn of the sending
  task wrote, with a mark for the turns that found the queue empty. Under \<open>preempt\<close> a call may also stop after
  it built its message, which \<open>mid\<close> then holds, and go on after steps of the other tasks: what is queued then is
  what the buffer holds.
\<close>

type_synonym conn_log = "u8 list \<times> (bool \<times> u8 list) list"

inductive mqtt_session ::
    "bool \<Rightarrow> ('q \<Rightarrow> u32 \<Rightarrow> 'q) \<Rightarrow> ('q \<Rightarrow> (u32 \<times> 'q) option) \<Rightarrow> ('q \<Rightarrow> u32 list) \<Rightarrow> nat \<Rightarrow> mqtt_connect_info \<Rightarrow>
       'q mqtt_sys \<Rightarrow> u8 list option \<Rightarrow> u8 list list \<Rightarrow> conn_log list \<Rightarrow> bool"
  for preempt qsend qrecv cont cap info where
  start: "module_start in_buf out_buf rb_buf q ka m0 = Some (m, True) \<Longrightarrow> length in_buf = BUFFER_SIZE \<Longrightarrow>
     length out_buf = BUFFER_SIZE \<Longrightarrow> length rb_buf = RING_SIZE \<Longrightarrow> cont q = [] \<Longrightarrow> instance_of m = Some s \<Longrightarrow>
     mqtt_session preempt qsend qrecv cont cap info s None [] []"
| call: "mqtt_session preempt qsend qrecv cont cap info s None qd log \<Longrightarrow>
     client_call qsend cont cap (client s) ms c' \<Longrightarrow>
     mqtt_session preempt qsend qrecv cont cap info (s\<lparr>client := c'\<rparr>) None (qd @ ms) log"
| preempted: "preempt \<Longrightarrow> mqtt_session preempt qsend qrecv cont cap info s None qd log \<Longrightarrow>
     client_build (client s) c' \<Longrightarrow>
     mqtt_session preempt qsend qrecv cont cap info (s\<lparr>client := c'\<rparr>) (Some (msg_data (conn c'))) qd log"
| resumed: "mqtt_session preempt qsend qrecv cont cap info s (Some m) qd log \<Longrightarrow>
     length (cont (sending_queue (client s))) < cap \<Longrightarrow> mqtt_queue qsend (client s) = Some (c', []) \<Longrightarrow>
     mqtt_session preempt qsend qrecv cont cap info (s\<lparr>client := c'\<rparr>) None (qd @ [m]) log"
| connect: "mqtt_session preempt qsend qrecv cont cap info s mid qd log \<Longrightarrow> pc s = Connecting \<Longrightarrow>
     mqtt_task_connect info port as resp s = Some (s', ok) \<Longrightarrow>
     mqtt_session preempt qsend qrecv cont cap info s' mid qd ((socket_out (client s'), []) # log)"
| receive: "mqtt_session preempt qsend qrecv cont cap info s mid qd log \<Longrightarrow> pc s = Receiving \<Longrightarrow>
     length (cont (sending_queue (client s))) < cap \<Longrightarrow> read_into (in_buffer (client s)) r = Some buf \<Longrightarrow>
     mqtt_task_receive qsend r reads s = Some (s', Some o') \<Longrightarrow> to_rest o' = [] \<Longrightarrow>
     mqtt_session preempt qsend qrecv cont cap info s' mid
       (if must_reply buf then qd @ [msg_data (conn (client s'))] else qd) log"
| disconnect: "mqtt_session preempt qsend qrecv cont cap info s mid qd log \<Longrightarrow> pc s = Receiving \<Longrightarrow>
     mqtt_task_receive qsend r reads s = Some (s', None) \<Longrightarrow>
     mqtt_session preempt qsend qrecv cont cap info s' mid qd log"
| send: "mqtt_session preempt qsend qrecv cont cap info s mid qd ((bs, out) # log) \<Longrightarrow> sending s \<Longrightarrow>
     sending_step qrecv (client s) = Some (c', n) \<Longrightarrow> socket_out c' = bs @ new \<Longrightarrow>
     mqtt_session preempt qsend qrecv cont cap info (s\<lparr>client := c'\<rparr>) mid qd
       ((socket_out c', out @ [(cont (sending_queue (client s)) = [], new)]) # log)"

text \<open>The messages a connection carried, and all of them in the order they were written.\<close>

definition carried :: "conn_log \<Rightarrow> u8 list list" where
  "carried l = map snd (filter (\<lambda>o'. \<not> fst o') (snd l))"

definition all_carried :: "conn_log list \<Rightarrow> u8 list list" where
  "all_carried log = concat (map carried (rev log))"

lemma all_carried_Cons [simp]: "all_carried (l # log) = all_carried log @ carried l"
  by (simp add: all_carried_def)











subsection \<open>A call that is preempted\<close>

text \<open>A client that has connected and queued nothing, in a run of either kind.\<close>

lemma sample_connected:
  "\<exists>s. mqtt_session preempt list_send list_recv (\<lambda>q. q) 64 sample_info s None [] [(connect_out sample_info, [])] \<and>
     pc s = Receiving \<and> client_ok (client s) \<and> pending (\<lambda>q. q) (client s) [] \<and> sending_queue (client s) = []"
proof -
  let ?run = "\<lambda>s. mqtt_session preempt list_send list_recv (\<lambda>q. q) 64 sample_info s None"
  obtain c where c: "mqtt_start (replicate 1024 0) (replicate 1024 0) (replicate 4096 0) ([] :: u32 list) 60 = Some c"
    "client_ok c" "pending (\<lambda>q. q) c []" "sending_queue c = []" using sample_started by auto
  let ?s = "\<lparr>client = c, pc = Connecting, sending = False, socket_fd = 0, open_socks = []\<rparr>"
  have "module_start (replicate 1024 0) (replicate 1024 0) (replicate 4096 0) [] 60 \<lparr>instance_of = None, xMqttTask = False, task_runs = False\<rparr>
      = Some (\<lparr>instance_of = Some ?s, xMqttTask = True, task_runs = True\<rparr>, True)"
    by (simp add: module_start_def c(1))
  then have s0: "?run ?s [] []" by (rule mqtt_session.start) simp_all
  have ok: "client_ok (c\<lparr>socket_out := []\<rparr>)" using c(2) by (simp add: client_ok_def)
  obtain d where d: "mqtt_connect sample_info (4, [0x20, 2, 0, 0]) (c\<lparr>socket_out := []\<rparr>) = Some (d, True)"
    "client_ok d" "send_rb d = send_rb c" "sending_queue d = sending_queue c" "socket_out d = connect_out sample_info"
    using connect_step [OF ok sample_info_connects, of "[0x20, 2, 0, 0]" 4] by auto
  let ?a = "[\<lparr>aton = Some 0x0100007F, host_entry = None, sock_res = 5, connect_res = 0\<rparr>]"
  let ?s' = "\<lparr>client = d, pc = Receiving, sending = True, socket_fd = 5, open_socks = [5]\<rparr>"
  have "?run ?s' [] [(connect_out sample_info, [])]"
    using mqtt_session.connect [OF s0, of 1883 ?a "(4, [0x20, 2, 0, 0])" ?s' True] d
    by (simp add: mqtt_task_connect_def)
  moreover have "pending (\<lambda>q. q) d []" using c(3) d by (simp add: pending_def)
  ultimately show ?thesis using c(4) d by (intro exI [of _ ?s']) simp
qed

text \<open>
  The Lua task builds a PUBLISH and is preempted; \<open>mqtt_task\<close> reads a PUBREC, builds the PUBREL in the same buffer and
  queues it; then the Lua task queues what the buffer holds. Both messages should have been queued, in this order; the
  ring buffer has the PUBREL twice and the PUBLISH is lost.
\<close>

lemma mqtt_race:
  "\<exists>s. mqtt_session True list_send list_recv (\<lambda>q. q) 64 sample_info s None [[0x62, 2, 1, 2], [0x30, 4, 0, 1, 116, 1]]
       [(connect_out sample_info, [])] \<and>
     rb_contents (send_rb (client s)) = [0x62, 2, 1, 2, 0x62, 2, 1, 2]"
proof -
  let ?run = "mqtt_session True list_send list_recv (\<lambda>q. q) 64 sample_info"
    and ?m = "[0x30, 4, 0, 1, 116, 1] :: u8 list" and ?rel = "[0x62, 2, 1, 2] :: u8 list"
    and ?log = "[(connect_out sample_info, [])]"
  obtain s where s: "?run s None [] ?log" "pc s = Receiving" "client_ok (client s)"
    "pending (\<lambda>q. q) (client s) []" "sending_queue (client s) = []"
    using sample_connected by blast
  have h: "fixed_header 3 0 0 0 = 0x30" "fixed_header 6 0 1 0 = 0x62" by code_simp+
  have hl: "hi8 1 = 0" "lo8 1 = 1" "hi8 0x0102 = 1" "lo8 0x0102 = 2" "be16 1 2 = 0x0102" by code_simp+
  have cok: "conn_ok (conn (client s))" using s(3) by (simp add: client_ok_def)
  obtain cn i where cn: "mqtt_msg_publish (conn (client s)) (Some [116]) [1] 0 0 (pending_msg_id (client s)) = Some (cn, i)"
    "msg_ok cn" "buffer_length cn = buffer_length (conn (client s))" "msg_data cn = ?m"
    using publish_built [OF cok, of "[116]" "[1]" 0 0 "pending_msg_id (client s)"] s(3)
    by (auto simp: built_def client_ok_def publish_body_def enc_str_def packet_def rem_len_def h hl)
  let ?c1 = "(client s)\<lparr>conn := cn, pending_msg_id := i\<rparr>"
  have s1: "?run (s\<lparr>client := ?c1\<rparr>) (Some ?m) [] ?log"
    using mqtt_session.preempted [OF TrueI s(1) client_build.publish [OF _ cn(1)]] cn(4) by simp
  have c1: "client_ok ?c1" "pending (\<lambda>q. q) ?c1 []" using s(3,4) cn by (auto simp: client_ok_def pending_def msg_ok_def)
  let ?buf = "[0x50, 2, 1, 2] @ drop 4 (in_buffer (client s))" and ?r = "(4, [0x50, 2, 1, 2]) :: int \<times> u8 list"
  have "length (in_buffer (client s)) = 1024" using s(3) by (simp add: client_ok_def)
  then have buf: "read_into (in_buffer ?c1) ?r = Some ?buf"
    by (simp add: read_into_def put_block_def numeral_eq_Suc)
  have f: "mqtt_get_type ?buf = Some 5" "mqtt_get_qos ?buf = Some 0"
    "mqtt_get_id ?buf (of_nat BUFFER_SIZE) = Some 0x0102"
    by (simp_all add: mqtt_get_type_def mqtt_get_qos_def mqtt_get_id_def get_at_def hl)
  obtain c2 where c2: "receive_turn list_send ?r [] ?c1 = Some (c2, quiet)" "msg_ok (conn c2)"
    using sample_turn [OF c1 buf f] by auto
  have quiet: "to_rest quiet = []" by (simp add: quiet_def)
  have room: "length (sending_queue ?c1) < 64" using s(5) by simp
  have must: "must_reply ?buf" using f(1) by (simp add: must_reply_def)
  have rel: "reply_packet ?buf (conn ?c1) 0x0102 = ?rel"
    using f(1) by (simp add: reply_packet_def packet_def rem_len_def enc_id_def h hl)
  have st: "client_ok c2" "msg_data (conn c2) = ?rel" "pending (\<lambda>q. q) c2 [?rel]"
    using receive_step [OF list_queue_laws room c1 buf f(3) c2(1) quiet] must unfolding rel by auto
  have t: "mqtt_task_receive list_send ?r [] (s\<lparr>client := ?c1\<rparr>) = Some (s\<lparr>client := c2\<rparr>, Some quiet)"
    using c2(1) by (simp add: mqtt_task_receive_def)
  have "?run (s\<lparr>client := c2\<rparr>) (Some ?m)
      (if must_reply ?buf then [] @ [msg_data (conn (client (s\<lparr>client := c2\<rparr>)))] else []) ?log"
    by (rule mqtt_session.receive [OF s1 _ _ _ t quiet]) (use s(2) room buf in simp_all)
  then have s2: "?run (s\<lparr>client := c2\<rparr>) (Some ?m) [?rel] ?log" using must st(2) by simp
  have rb: "rb_inv1 (send_rb c2)" "rb_contents (send_rb c2) = ?rel" "rb_size (send_rb c2) = 4096"
    "length (sending_queue c2) < 64"
    using st(1,3) by (auto simp: client_ok_def pending_def)
  have "\<exists>c3. mqtt_queue list_send c2 = Some (c3, [])"
    using rb_write_spec [OF rb(1), of "msg_data (conn c2)"] rb st(2) by (auto simp: mqtt_queue_def Let_def)
  then obtain c3 where c3: "mqtt_queue list_send c2 = Some (c3, [])" ..
  then have q: "pending (\<lambda>q. q) c3 ([?rel] @ [msg_data (conn c3)])" "conn c3 = conn c2"
    using queue_built [OF list_queue_laws rb(4) st(1,3) c2(2) refl, of "pending_msg_id c2" c3] by auto
  then have "rb_contents (send_rb c3) = ?rel @ ?rel" using st(2) by (simp add: pending_def)
  moreover have "?run (s\<lparr>client := c3\<rparr>) None ([?rel] @ [?m]) ?log"
    using mqtt_session.resumed [OF s2, of c3] c3 rb(4) by simp
  ultimately show ?thesis by (intro exI [of _ "s\<lparr>client := c3\<rparr>"]) simp
qed

end
