(* ===== verification/Lua_Api.thy ===== *)
theory Lua_Api
  imports LN_Prelude
begin

text \<open>
  What the modules for Lua use of the interpreter: the values a script passes and gets, the errors
  it raises, and the registry that keeps a reference to each callback. The text of a number and the
  choice of a new reference are parameters. A function is known by a number, a userdata by its
  address.

  A Lua number is a double (luaconf.h). Its finite values are the integers and the fractions
  Lua_fraction m n, which stands for m / 2^n and not for an integer; the infinities and NaN are left
  out. The text of a number is a function of m and n, with n = 0 for an integer.
\<close>

datatype lua_value =
  Lua_nil
| Lua_boolean bool
| Lua_integer int
| Lua_fraction int nat
| Lua_string string
| Lua_table "(string \<times> int) list"
| Lua_function nat
| Lua_userdata nat

datatype lua_error = Arg_error nat string | Lua_error string

type_synonym number_format = "int \<times> nat \<Rightarrow> string"

text \<open>The cast of a double to an integer type that holds the result: towards zero.\<close>

definition lua_trunc :: "int \<Rightarrow> nat \<Rightarrow> int" where
  "lua_trunc m n = (if m < 0 then - ((- m) div 2 ^ n) else m div 2 ^ n)"

definition lua_tolstring :: "number_format \<Rightarrow> lua_value \<Rightarrow> string option" where
  "lua_tolstring text v =
     (case v of
        Lua_string s \<Rightarrow> Some s
      | Lua_integer n \<Rightarrow> Some (text (n, 0))
      | Lua_fraction m n \<Rightarrow> Some (text (m, n))
      | _ \<Rightarrow> None)"

definition luaL_optstring :: "number_format \<Rightarrow> lua_value \<Rightarrow> string \<Rightarrow> string option" where
  "luaL_optstring text v d = (if v = Lua_nil then Some d else lua_tolstring text v)"

text \<open>
  A number as an integer argument: a fraction is truncated, and a string that reads as a number is
  converted, by num.
\<close>

definition luaL_checkinteger :: "(string \<Rightarrow> int option) \<Rightarrow> lua_value \<Rightarrow> int option" where
  "luaL_checkinteger num v =
     (case v of
        Lua_integer n \<Rightarrow> Some n
      | Lua_fraction m n \<Rightarrow> Some (lua_trunc m n)
      | Lua_string t \<Rightarrow> num t
      | _ \<Rightarrow> None)"

text \<open>An optional number, as a long of 32 bits.\<close>

definition luaL_optlong :: "(string \<Rightarrow> int option) \<Rightarrow> lua_value \<Rightarrow> int \<Rightarrow> int option" where
  "luaL_optlong num v d =
     (if v = Lua_nil then Some d else map_option (\<lambda>n. sint (word_of_int n :: u32)) (luaL_checkinteger num v))"

text \<open>The part of a Lua string that C code sees as a string.\<close>

definition c_string :: "string \<Rightarrow> string" where
  "c_string s = takeWhile (\<lambda>c. c \<noteq> CHR 0x00) s"

lemma c_string_full: "length (c_string t) = length t \<longleftrightarrow> CHR 0x00 \<notin> set t"
  unfolding c_string_def by (induction t) auto

lemma c_string_id: "CHR 0x00 \<notin> set t \<Longrightarrow> c_string t = t"
  unfolding c_string_def by (subst takeWhile_eq_all_conv) auto

lemma c_string_no_zero: "CHR 0x00 \<notin> set (c_string t)"
  unfolding c_string_def by (auto dest: set_takeWhileD)

text \<open>The argument at a position counted from 1; there is none beyond the last.\<close>

definition lua_arg :: "lua_value list \<Rightarrow> nat \<Rightarrow> lua_value" where
  "lua_arg args i = (if 0 < i \<and> i \<le> length args then args ! (i - 1) else Lua_nil)"

lemma lua_arg_Cons [simp]: "lua_arg (a # args) (Suc i) = (if i = 0 then a else lua_arg args i)"
  by (auto simp: lua_arg_def)

end
