(* ===== verification/Lua_Registry.thy ===== *)
theory Lua_Registry
  imports LN_Prelude
begin

text \<open>
  The registry in which Lua keeps the callbacks that C code refers to, in two views. The table is
  what lauxlib.c keeps: the slots 1, 2, ..., each a value or, once freed, the number of the next free slot,
  and the first free slot at index 0 (FREELIST_REF), 0 for none. The live view is a map from the
  references in use to their values, with the choice of a new reference as a parameter; the modules
  that never pass the reference 0 to luaL_unref use it, and the lemmas here show that the table gives it.
\<close>

section \<open>The table of references\<close>

datatype 'f slot = Value 'f | Next_free int

record 'f ref_table =
  free_list :: int
  slots :: "'f slot list"

text \<open>
  luaL_ref of a value that is not nil: the head of the list of free slots, or a slot after the last.
  A head that is not a slot, or whose slot is not free, is outside the model.
\<close>

definition table_ref :: "'f \<Rightarrow> 'f ref_table \<Rightarrow> (int \<times> 'f ref_table) option" where
  "table_ref f t =
     (let ref = free_list t
      in if ref \<noteq> 0 then
           if ref < 0 then None
           else do {
             x \<leftarrow> get_at (slots t) (nat ref - 1);
             case x of
               Value g \<Rightarrow> None
             | Next_free k \<Rightarrow> Some (ref, t \<lparr>free_list := k, slots := (slots t)[nat ref - 1 := Value f]\<rparr>)
           }
         else Some (int (length (slots t)) + 1, t \<lparr>slots := slots t @ [Value f]\<rparr>))"

text \<open>
  luaL_unref: t[ref] = t[0]; t[0] = ref. For the reference 0 both are the assignment of 0 to the head,
  which drops the list.
\<close>

definition table_unref :: "int \<Rightarrow> 'f ref_table \<Rightarrow> 'f ref_table option" where
  "table_unref r t =
     (if r < 0 then Some t
      else if r = 0 then Some (t \<lparr>free_list := 0\<rparr>)
      else do {
        sl \<leftarrow> set_at (slots t) (nat r - 1) (Next_free (free_list t));
        Some (t \<lparr>free_list := r, slots := sl\<rparr>)
      })"

text \<open>What lua_rawgeti finds at a reference, if it is a value.\<close>

definition live :: "'f ref_table \<Rightarrow> int \<rightharpoonup> 'f" where
  "live t r = (if 1 \<le> r \<and> nat r \<le> length (slots t) then
       (case slots t ! (nat r - 1) of Value f \<Rightarrow> Some f | Next_free k \<Rightarrow> None) else None)"

text \<open>The list of free slots from k on, in order.\<close>

fun free_chain :: "'f slot list \<Rightarrow> nat list \<Rightarrow> int \<Rightarrow> bool" where
  "free_chain sl [] k \<longleftrightarrow> k = 0"
| "free_chain sl (p # ps) k \<longleftrightarrow> k = int p + 1 \<and> p < length sl \<and> p \<notin> set ps \<and>
     (case sl ! p of Value f \<Rightarrow> False | Next_free k' \<Rightarrow> free_chain sl ps k')"

definition table_ok :: "'f ref_table \<Rightarrow> bool" where
  "table_ok t \<longleftrightarrow> (\<exists>ps. free_chain (slots t) ps (free_list t))"

lemma nat_slot: "nat (int p + 1) - Suc 0 = p"
  by (simp add: nat_add_distrib)

lemma table_okI: "free_chain sl ps k \<Longrightarrow> table_ok (t \<lparr>free_list := k, slots := sl\<rparr>)"
  by (auto simp: table_ok_def)

lemma chain_frame: "free_chain sl ps k \<Longrightarrow> i \<notin> set ps \<Longrightarrow> free_chain (sl[i := x]) ps k"
  by (induction ps arbitrary: k) (auto split: slot.splits)

lemma chain_append: "free_chain sl ps k \<Longrightarrow> free_chain (sl @ xs) ps k"
  by (induction ps arbitrary: k) (auto simp: nth_append split: slot.splits)

lemma chain_free: "free_chain sl ps k \<Longrightarrow> p \<in> set ps \<Longrightarrow> \<exists>k'. sl ! p = Next_free k'"
  by (induction ps arbitrary: k) (auto split: slot.splits)

lemma table_ref_ok:
  assumes "table_ok t"
  shows "\<exists>r t'. table_ref f t = Some (r, t') \<and> 0 < r \<and> live t r = None \<and> live t' = (live t)(r \<mapsto> f) \<and> table_ok t'"
proof -
  obtain ps where ps: "free_chain (slots t) ps (free_list t)" using assms by (auto simp: table_ok_def)
  show ?thesis
  proof (cases ps)
    case Nil
    with ps have "free_list t = 0" by simp
    moreover have "free_chain (slots t @ [Value f]) [] (0 :: int)" by simp
    ultimately show ?thesis
      by (intro exI [of _ "int (length (slots t)) + 1"] exI [of _ "t \<lparr>slots := slots t @ [Value f]\<rparr>"])
        (auto simp: table_ref_def live_def table_ok_def fun_eq_iff nth_append nat_eq_iff intro: exI [of _ "[]"])
  next
    case (Cons p qs)
    with ps obtain k where p: "free_list t = int p + 1" "p < length (slots t)" "p \<notin> set qs" "slots t ! p = Next_free k"
      "free_chain (slots t) qs k" by (auto split: slot.splits)
    have "table_ref f t = Some (int p + 1, t \<lparr>free_list := k, slots := (slots t)[p := Value f]\<rparr>)"
      using p by (simp add: table_ref_def Let_def nat_slot mem_simps)
    moreover have "live (t \<lparr>free_list := k, slots := (slots t)[p := Value f]\<rparr>) = (live t)(int p + 1 \<mapsto> f)"
    proof
      fix r
      show "live (t \<lparr>free_list := k, slots := (slots t)[p := Value f]\<rparr>) r = ((live t)(int p + 1 \<mapsto> f)) r"
        using p(2) by (cases "r = int p + 1") (auto simp: live_def nth_list_update)
    qed
    moreover have "live t (int p + 1) = None" using p by (simp add: live_def nat_slot)
    moreover have "table_ok (t \<lparr>free_list := k, slots := (slots t)[p := Value f]\<rparr>)"
      using chain_frame [OF p(5,3)] by (rule table_okI)
    ultimately show ?thesis by force
  qed
qed

lemma table_unref_ok:
  assumes "table_ok t" "live t r \<noteq> None"
  shows "\<exists>t'. table_unref r t = Some t' \<and> live t' = (live t)(r := None) \<and> table_ok t'"
proof -
  obtain ps where ps: "free_chain (slots t) ps (free_list t)" using assms(1) by (auto simp: table_ok_def)
  define p where "p = nat r - 1"
  have r: "r = int p + 1" "p < length (slots t)" and v: "\<exists>f. slots t ! p = Value f"
    using assms(2) by (auto simp: live_def p_def split: if_splits slot.splits)
  let ?t = "t \<lparr>free_list := r, slots := (slots t)[p := Next_free (free_list t)]\<rparr>"
  have "table_unref r t = Some ?t" using r by (simp add: table_unref_def nat_slot mem_simps)
  moreover have "live ?t = (live t)(r := None)"
  proof
    fix q
    show "live ?t q = ((live t)(r := None)) q" using r by (cases "q = r") (auto simp: live_def nth_list_update)
  qed
  moreover have "p \<notin> set ps" using chain_free [OF ps] v by fastforce
  then have "free_chain ((slots t)[p := Next_free (free_list t)]) (p # ps) r"
    using r chain_frame [OF ps] by simp
  then have "table_ok ?t" by (rule table_okI)
  ultimately show ?thesis by blast
qed

text \<open>Releasing the reference 0 keeps what is live; the slots that were free are not used again.\<close>

lemma table_unref_zero:
  "table_unref 0 t = Some (t \<lparr>free_list := 0\<rparr>)" "live (t \<lparr>free_list := 0\<rparr>) = live t" "table_ok (t \<lparr>free_list := 0\<rparr>)"
  by (auto simp: table_unref_def live_def table_ok_def fun_eq_iff intro: exI [of _ "[]"])

lemma live_positive: "live t r = Some f \<Longrightarrow> 0 < r"
  by (auto simp: live_def split: if_splits)

lemma live_finite: "finite (dom (live t))"
proof -
  have "dom (live t) \<subseteq> {1 .. int (length (slots t))}" by (auto simp: live_def split: if_splits)
  then show ?thesis by (rule finite_subset) simp
qed

section \<open>The live view\<close>

text \<open>
  luaL_ref adds a value under a new reference, chosen here from what is live (the table's choice
  depends on its free list as well), and luaL_unref removes one. A negative number is no reference and is
  ignored; 0, the index of the list of free slots, is never one in the modules that use this view.
\<close>

abbreviation (input) LUA_NOREF :: int where "LUA_NOREF \<equiv> - 2"

definition luaL_ref :: "((int \<rightharpoonup> 'f) \<Rightarrow> int) \<Rightarrow> 'f \<Rightarrow> (int \<rightharpoonup> 'f) \<Rightarrow> int \<times> (int \<rightharpoonup> 'f)" where
  "luaL_ref new_ref f reg = (new_ref reg, reg(new_ref reg \<mapsto> f))"

definition luaL_unref :: "int \<Rightarrow> (int \<rightharpoonup> 'f) \<Rightarrow> (int \<rightharpoonup> 'f)" where
  "luaL_unref r reg = (if 0 \<le> r then reg(r := None) else reg)"

text \<open>A new reference is positive and free, as long as the registry is finite.\<close>

definition new_ref_laws :: "((int \<rightharpoonup> 'f) \<Rightarrow> int) \<Rightarrow> bool" where
  "new_ref_laws nr \<longleftrightarrow> (\<forall>reg. finite (dom reg) \<longrightarrow> 0 < nr reg \<and> reg (nr reg) = None)"

text \<open>One such choice: the next number.\<close>

definition next_ref :: "(int \<rightharpoonup> 'f) \<Rightarrow> int" where
  "next_ref reg = Max (insert 0 (dom reg)) + 1"

lemma next_ref_laws: "new_ref_laws next_ref"
  unfolding new_ref_laws_def
proof (intro allI impI conjI)
  fix reg :: "int \<rightharpoonup> 'f" assume f: "finite (dom reg)"
  have le: "x \<in> insert 0 (dom reg) \<Longrightarrow> x \<le> Max (insert 0 (dom reg))" for x using f by simp
  show "0 < next_ref reg" using le [of 0] by (simp add: next_ref_def)
  have "next_ref reg \<notin> dom reg" using le [of "next_ref reg"] by (auto simp: next_ref_def)
  then show "reg (next_ref reg) = None" by auto
qed

end
