(* ===== verification/Lua_Mqtt.thy ===== *)
theory Lua_Mqtt
  imports Mqtt_Session Lua_Api Lua_Registry
begin

text \<open>
  The Lua module of modules/mqtt.c: its table of clients with their callbacks, the functions a
  script calls and the functions the client calls. The allocator, the registry's choice of a
  reference and the conversions of numbers are parameters. A pointer is a number and 0 is NULL; the
  one client there can be is found at its address until it is destroyed, and the value None is the
  use of any other address, an index outside the table or an access outside a buffer.
\<close>

section \<open>The code\<close>

abbreviation (input) MAX_MQTT_NUM :: nat where "MAX_MQTT_NUM \<equiv> 3"
abbreviation (input) TOPIC_BUFF_SIZE :: nat where "TOPIC_BUFF_SIZE \<equiv> 64"
abbreviation (input) DATA_BUFF_SIZE :: nat where "DATA_BUFF_SIZE \<equiv> 768"
abbreviation (input) MAX_HOST_LEN :: nat where "MAX_HOST_LEN \<equiv> 64"
abbreviation (input) MAX_FIELD_LEN :: nat where "MAX_FIELD_LEN \<equiv> 32"

record mqtt_t =
  pClient :: nat
  cb_ref_data :: int
  cb_ref_connect :: int
  cb_ref_disconnect :: int
  cb_ref_publish :: int
  cb_ref_reconnect :: int
  cb_ref_subscribe :: int

text \<open>The settings: the fields that follow each other in memory as their bytes.\<close>

record mqtt_settings =
  host :: "u8 list"
  port :: u32
  set_client_id :: "u8 list"
  set_username :: "u8 list"
  set_password :: "u8 list"
  lwt_topic :: "u8 list"
  lwt_msg :: "u8 list"
  set_keepalive :: u32

record 'q lmqtt_state =
  handle :: "mqtt_t list"
  registry :: "int \<rightharpoonup> nat"
  topic_buf :: "u8 list"
  data_buf :: "u8 list"
  module :: "'q mqtt_module"
  client_at :: nat
  settings :: "mqtt_settings option"
  unsent :: "u8 list"

record 'q lmqtt_env =
  new_ref :: "(int \<rightharpoonup> nat) \<Rightarrow> int"
  num_text :: number_format
  text_num :: "string \<Rightarrow> int option"
  qsend :: "'q \<Rightarrow> u32 \<Rightarrow> 'q"
  new_queue :: 'q
  settings_malloc :: bool
  client_malloc :: "nat option"
  in_mem :: "u8 list"
  out_mem :: "u8 list"
  ring_mem :: "u8 list"
  beyond :: "string \<Rightarrow> u8 list"

type_synonym 'q lmqtt_result = "((lua_error + lua_value list) \<times> 'q lmqtt_state) option"

definition bytes_of :: "string \<Rightarrow> u8 list" where
  "bytes_of s = map (\<lambda>c. of_nat (of_char c)) s"

definition string_of :: "u8 list \<Rightarrow> string" where
  "string_of bs = map (\<lambda>b. char_of (unat b)) bs"

text \<open>An argument that must be a string, as luaL_checklstring gives it.\<close>

definition with_string ::
    "'q lmqtt_env \<Rightarrow> lua_value list \<Rightarrow> nat \<Rightarrow> 'q lmqtt_state \<Rightarrow> (string \<Rightarrow> 'q lmqtt_result) \<Rightarrow> 'q lmqtt_result" where
  "with_string env args i s f =
     (case lua_tolstring (num_text env) (lua_arg args i) of
        None \<Rightarrow> Some (Inl (Arg_error i ''string expected''), s)
      | Some t \<Rightarrow> f t)"

text \<open>An integer, as an unsigned number of 32 bits.\<close>

definition with_unsigned ::
    "'q lmqtt_env \<Rightarrow> lua_value list \<Rightarrow> nat \<Rightarrow> 'q lmqtt_state \<Rightarrow> (u32 \<Rightarrow> 'q lmqtt_result) \<Rightarrow> 'q lmqtt_result" where
  "with_unsigned env args i s f =
     (case luaL_checkinteger (text_num env) (lua_arg args i) of
        None \<Rightarrow> Some (Inl (Arg_error i ''number expected''), s)
      | Some n \<Rightarrow> f (word_of_int n))"

subsection \<open>The functions the client calls\<close>

text \<open>The entry of a client, and the function called with its arguments, if one is.\<close>

type_synonym lua_call = "(nat option \<times> lua_value list) option"

definition callback ::
    "(mqtt_t \<Rightarrow> int) \<Rightarrow> nat \<Rightarrow> lua_value list option \<Rightarrow> 'q lmqtt_state \<Rightarrow> lua_call option" where
  "callback ref self args s =
     (case List.find (\<lambda>h. pClient h = self) (handle s) of
        None \<Rightarrow> Some None
      | Some h \<Rightarrow> if ref h \<noteq> LUA_NOREF then map_option (\<lambda>a. Some (registry s (ref h), a)) args else Some None)"

definition connected_cb :: "nat \<Rightarrow> 'q lmqtt_state \<Rightarrow> lua_call option" where
  "connected_cb self s = callback cb_ref_connect self (Some []) s"

definition disconnected_cb :: "nat \<Rightarrow> 'q lmqtt_state \<Rightarrow> lua_call option" where
  "disconnected_cb self s = callback cb_ref_disconnect self (Some []) s"

definition reconnect_cb :: "nat \<Rightarrow> 'q lmqtt_state \<Rightarrow> lua_call option" where
  "reconnect_cb self s = callback cb_ref_reconnect self (Some []) s"

definition subscribe_cb :: "nat \<Rightarrow> 'q lmqtt_state \<Rightarrow> lua_call option" where
  "subscribe_cb self s = callback cb_ref_subscribe self (Some []) s"

text \<open>memcpy from the message and a zero after it; a NULL pointer is not allowed even for no bytes.\<close>

definition copy_text :: "u8 list \<Rightarrow> u8 list \<Rightarrow> nat option \<Rightarrow> u16 \<Rightarrow> u8 list option" where
  "copy_text buf msg start n = do {
     off \<leftarrow> start;
     bs \<leftarrow> get_block msg off (unat n);
     put_block buf 0 (bs @ [0]) }"

text \<open>What is common to publish_cb and data_cb.\<close>

definition message_cb ::
    "(mqtt_t \<Rightarrow> int) \<Rightarrow> nat \<Rightarrow> event_data \<Rightarrow> 'q lmqtt_state \<Rightarrow> (lua_call \<times> 'q lmqtt_state) option" where
  "message_cb ref self e s = do {
     topic \<leftarrow> (if ev_data_offset e = 0 then copy_text (topic_buf s) (ev_message e) (ev_topic e) (ev_topic_length e)
              else Some (topic_buf s));
     data \<leftarrow> copy_text (data_buf s) (ev_message e) (ev_data e) (ev_data_length e);
     let s = s\<lparr>topic_buf := topic, data_buf := data\<rparr>;
     let args = do {
       t \<leftarrow> get_block topic 0 (unat (ev_topic_length e));
       d \<leftarrow> get_block data 0 (unat (ev_data_length e));
       Some [Lua_string (string_of t), Lua_string (string_of d)] };
     called \<leftarrow> callback ref self args s;
     Some (called, s) }"

definition publish_cb :: "nat \<Rightarrow> event_data \<Rightarrow> 'q lmqtt_state \<Rightarrow> (lua_call \<times> 'q lmqtt_state) option" where
  "publish_cb self e s = message_cb cb_ref_publish self e s"

definition data_cb :: "nat \<Rightarrow> event_data \<Rightarrow> 'q lmqtt_state \<Rightarrow> (lua_call \<times> 'q lmqtt_state) option" where
  "data_cb self e s = message_cb cb_ref_data self e s"

subsection \<open>The functions a script calls\<close>

text \<open>The old reference is given up before the new one is made.\<close>

definition drop_ref :: "int \<Rightarrow> (int \<rightharpoonup> nat) \<Rightarrow> (int \<rightharpoonup> nat)" where
  "drop_ref r reg = (if r \<noteq> LUA_NOREF then luaL_unref r reg else reg)"

definition replace_ref :: "'q lmqtt_env \<Rightarrow> int \<Rightarrow> nat \<Rightarrow> (int \<rightharpoonup> nat) \<Rightarrow> int \<times> (int \<rightharpoonup> nat)" where
  "replace_ref env old f reg = luaL_ref (new_ref env) f (drop_ref old reg)"

text \<open>A text that fits the field, without its zero, over the zeros of memset.\<close>

definition fill_field :: "string \<Rightarrow> u8 list" where
  "fill_field t = (if length t \<le> MAX_FIELD_LEN then bytes_of t @ replicate (MAX_FIELD_LEN - length t) 0
     else replicate MAX_FIELD_LEN 0)"

text \<open>
  memcpy takes all the bytes of the field from the host name, also those beyond its end. The port is
  that of a connection without TLS.
\<close>

definition make_settings ::
    "'q lmqtt_env \<Rightarrow> string \<Rightarrow> string \<Rightarrow> u32 \<Rightarrow> string option \<Rightarrow> string option \<Rightarrow> mqtt_settings" where
  "make_settings env hst clientid ka user pass = \<lparr>
     host = (if length hst \<le> MAX_HOST_LEN then take MAX_HOST_LEN (bytes_of hst @ [0] @ beyond env hst)
             else replicate MAX_HOST_LEN 0),
     port = 1883, set_client_id = fill_field clientid,
     set_username = (case user of Some u \<Rightarrow> fill_field u | None \<Rightarrow> replicate MAX_FIELD_LEN 0),
     set_password = (case pass of Some p \<Rightarrow> fill_field p | None \<Rightarrow> replicate MAX_FIELD_LEN 0),
     lwt_topic = replicate MAX_FIELD_LEN 0, lwt_msg = replicate MAX_FIELD_LEN 0, set_keepalive = ka\<rparr>"

text \<open>The client in the module of the client, mqtt_start in it, and the pointer returned.\<close>

definition start_client :: "'q lmqtt_env \<Rightarrow> mqtt_settings \<Rightarrow> 'q lmqtt_state \<Rightarrow> (nat \<times> 'q lmqtt_state) option" where
  "start_client env st s =
     (if xMqttTask (module s) then Some (0, s)
      else case client_malloc env of
        None \<Rightarrow> Some (0, s)
      | Some a \<Rightarrow> do {
          (m, _) \<leftarrow> module_start (in_mem env) (out_mem env) (ring_mem env) (new_queue env) (set_keepalive st) (module s);
          Some (a, s\<lparr>module := m, client_at := a, settings := Some st\<rparr>) })"

text \<open>The first entry without a client.\<close>

fun free_slot :: "mqtt_t list \<Rightarrow> nat option" where
  "free_slot [] = None"
| "free_slot (h # hs) = (if pClient h = 0 then Some 0 else map_option Suc (free_slot hs))"

definition no_refs :: "mqtt_t \<Rightarrow> mqtt_t" where
  "no_refs h = h\<lparr>cb_ref_data := LUA_NOREF, cb_ref_connect := LUA_NOREF, cb_ref_disconnect := LUA_NOREF,
     cb_ref_publish := LUA_NOREF, cb_ref_reconnect := LUA_NOREF, cb_ref_subscribe := LUA_NOREF\<rparr>"

definition lmqtt_new :: "'q lmqtt_env \<Rightarrow> lua_value list \<Rightarrow> 'q lmqtt_state \<Rightarrow> 'q lmqtt_result" where
  "lmqtt_new env args s =
     with_string env args 1 s (\<lambda>hst. with_string env args 2 s (\<lambda>clientid. with_unsigned env args 3 s (\<lambda>ka.
       case free_slot (handle s) of
         None \<Rightarrow> Some (Inl (Lua_error ''Max MQTT Number is reached''), s)
       | Some idx \<Rightarrow>
           let h = no_refs (handle s ! idx);
               (h, reg) = (case lua_arg args 4 of
                   Lua_function f \<Rightarrow>
                     (case replace_ref env (cb_ref_connect h) f (registry s) of (r, reg) \<Rightarrow> (h\<lparr>cb_ref_connect := r\<rparr>, reg))
                 | _ \<Rightarrow> (h\<lparr>cb_ref_connect := LUA_NOREF\<rparr>, registry s));
               s = s\<lparr>handle := (handle s)[idx := h], registry := reg\<rparr>;
               finish = (\<lambda>user pass.
                 if \<not> settings_malloc env then None
                 else do {
                   (a, s) \<leftarrow> start_client env
                     (make_settings env (c_string hst) (c_string clientid) ka (map_option c_string user) (map_option c_string pass)) s;
                   Some (Inr [Lua_integer (int idx)], s\<lparr>handle := (handle s)[idx := h\<lparr>pClient := a\<rparr>]\<rparr>) })
           in if length args > 4
              then with_string env args 5 s (\<lambda>user. with_string env args 6 s (\<lambda>pass. finish (Some user) (Some pass)))
              else finish None None)))"

text \<open>The client a pointer refers to.\<close>

definition deref :: "nat \<Rightarrow> 'q lmqtt_state \<Rightarrow> 'q mqtt_sys option" where
  "deref a s = (if a = client_at s then instance_of (module s) else None)"

definition lmqtt_close :: "'q lmqtt_env \<Rightarrow> lua_value list \<Rightarrow> 'q lmqtt_state \<Rightarrow> 'q lmqtt_result" where
  "lmqtt_close env args s =
     with_unsigned env args 1 s (\<lambda>n.
       if n \<ge> 3 then Some (Inl (Lua_error ''mqttClt arg is wrong!''), s)
       else do {
         h \<leftarrow> get_at (handle s) (unat n);
         if pClient h \<noteq> 0 then do {
           let reg = registry s;
           let reg = drop_ref (cb_ref_data h) reg;
           let reg = drop_ref (cb_ref_disconnect h) reg;
           let reg = drop_ref (cb_ref_reconnect h) reg;
           let reg = drop_ref (cb_ref_publish h) reg;
           let reg = drop_ref (cb_ref_connect h) reg;
           let reg = drop_ref (cb_ref_subscribe h) reg;
           let s = s\<lparr>registry := reg, handle := (handle s)[unat n := no_refs h]\<rparr>;
           _ \<leftarrow> deref (pClient h) s;
           m \<leftarrow> mqtt_destroy (module s);
           Some (Inr [], s\<lparr>settings := None, module := m\<rparr>)
         } else Some (Inr [], s)
       })"

text \<open>handle is read at the index before the index is compared with its size.\<close>

definition with_client ::
    "'q lmqtt_env \<Rightarrow> lua_value list \<Rightarrow> 'q lmqtt_state \<Rightarrow> (nat \<Rightarrow> mqtt_t \<Rightarrow> 'q lmqtt_result) \<Rightarrow> 'q lmqtt_result" where
  "with_client env args s f =
     with_unsigned env args 1 s (\<lambda>n. do {
       h \<leftarrow> get_at (handle s) (unat n);
       if pClient h = 0 \<or> n \<ge> 3 then Some (Inl (Lua_error ''mqttClt arg is wrong!''), s)
       else f (unat n) h })"

text \<open>A call on the client; unsent is what it still has to put into the ring buffer.\<close>

definition on_client ::
    "nat \<Rightarrow> ('q mqtt_client \<Rightarrow> ('q mqtt_client \<times> u8 list) option) \<Rightarrow> 'q lmqtt_state \<Rightarrow> 'q lmqtt_result" where
  "on_client a f s = do {
     sys \<leftarrow> deref a s;
     (c, rest) \<leftarrow> f (client sys);
     Some (Inr [], s\<lparr>module := (module s)\<lparr>instance_of := Some (sys\<lparr>client := c\<rparr>)\<rparr>, unsent := rest\<rparr>) }"

definition lmqtt_subscribe :: "'q lmqtt_env \<Rightarrow> lua_value list \<Rightarrow> 'q lmqtt_state \<Rightarrow> 'q lmqtt_result" where
  "lmqtt_subscribe env args s =
     with_client env args s (\<lambda>_ h. with_string env args 2 s (\<lambda>topic. with_unsigned env args 3 s (\<lambda>qos.
       if \<not> (qos = 0 \<or> qos = 1 \<or> qos = 2) then Some (Inl (Lua_error ''QoS wrong arg type''), s)
       else on_client (pClient h) (\<lambda>c. mqtt_subscribe (qsend env) c (Some (bytes_of (c_string topic))) (ucast qos)) s)))"

definition lmqtt_unsubscribe :: "'q lmqtt_env \<Rightarrow> lua_value list \<Rightarrow> 'q lmqtt_state \<Rightarrow> 'q lmqtt_result" where
  "lmqtt_unsubscribe env args s =
     with_client env args s (\<lambda>_ h. with_string env args 2 s (\<lambda>topic.
       on_client (pClient h) (\<lambda>c. map_option (\<lambda>c. (c, [])) (mqtt_unsubscribe c (Some (bytes_of (c_string topic))))) s))"

text \<open>The length of the data is that of a C string.\<close>

definition lmqtt_publish :: "'q lmqtt_env \<Rightarrow> lua_value list \<Rightarrow> 'q lmqtt_state \<Rightarrow> 'q lmqtt_result" where
  "lmqtt_publish env args s =
     with_client env args s (\<lambda>_ h. with_string env args 2 s (\<lambda>topic. with_string env args 3 s (\<lambda>data.
       on_client (pClient h)
         (\<lambda>c. mqtt_publish (qsend env) c (Some (bytes_of (c_string topic))) (bytes_of (c_string data)) 0 0) s)))"

definition lmqtt_on :: "'q lmqtt_env \<Rightarrow> lua_value list \<Rightarrow> 'q lmqtt_state \<Rightarrow> 'q lmqtt_result" where
  "lmqtt_on env args s =
     with_client env args s (\<lambda>i h. with_string env args 2 s (\<lambda>meth.
       case lua_arg args 3 of
         Lua_function f \<Rightarrow>
           let set_cb = (\<lambda>old upd. case replace_ref env old f (registry s) of (r, reg) \<Rightarrow>
                 Some (Inr [], s\<lparr>registry := reg, handle := (handle s)[i := upd r]\<rparr>))
           in if meth = ''data'' then set_cb (cb_ref_data h) (\<lambda>r. h\<lparr>cb_ref_data := r\<rparr>)
              else if meth = ''disconnect'' then set_cb (cb_ref_disconnect h) (\<lambda>r. h\<lparr>cb_ref_disconnect := r\<rparr>)
              else if meth = ''publish'' then set_cb (cb_ref_publish h) (\<lambda>r. h\<lparr>cb_ref_publish := r\<rparr>)
              else if meth = ''reconnect'' then set_cb (cb_ref_reconnect h) (\<lambda>r. h\<lparr>cb_ref_reconnect := r\<rparr>)
              else if meth = ''connect'' then set_cb (cb_ref_connect h) (\<lambda>r. h\<lparr>cb_ref_connect := r\<rparr>)
              else if meth = ''subscribe'' then set_cb (cb_ref_subscribe h) (\<lambda>r. h\<lparr>cb_ref_subscribe := r\<rparr>)
              else Some (Inl (Lua_error ''wrong method''), s)
       | _ \<Rightarrow> Some (Inl (Lua_error ''callback function needed''), s)))"

text \<open>The connect information that mqtt_start points into the settings: C strings, ended by the next zero.\<close>

definition c_bytes :: "u8 list \<Rightarrow> u8 list" where "c_bytes m = takeWhile (\<lambda>b. b \<noteq> 0) m"

definition settings_info :: "mqtt_settings \<Rightarrow> mqtt_connect_info" where
  "settings_info st =
     (let wl = lwt_topic st @ lwt_msg st
      in \<lparr>client_id = Some (c_bytes (set_client_id st @ set_username st @ set_password st @ wl)),
          username = Some (c_bytes (set_username st @ set_password st @ wl)),
          password = Some (c_bytes (set_password st @ wl)),
          will_topic = Some (c_bytes wl), will_message = Some (c_bytes (lwt_msg st)),
          keepalive = uint (set_keepalive st), will_qos = 0, will_retain = False, clean_session = False\<rparr>)"

end
