(* ===== verification/Lua_Mqtt_Props.thy ===== *)
theory Lua_Mqtt_Props
  imports Lua_Mqtt
begin

text \<open>
  Properties of the Lua MQTT module: which function each event of the client calls, whatever calls
  the script made before, and the way of a message from a script through the packet to the callback
  of another.
\<close>

section \<open>The callbacks\<close>

datatype cb_event = On_data | On_connect | On_disconnect | On_publish | On_reconnect | On_subscribe

fun cb_ref :: "cb_event \<Rightarrow> mqtt_t \<Rightarrow> int" where
  "cb_ref On_data h = cb_ref_data h"
| "cb_ref On_connect h = cb_ref_connect h"
| "cb_ref On_disconnect h = cb_ref_disconnect h"
| "cb_ref On_publish h = cb_ref_publish h"
| "cb_ref On_reconnect h = cb_ref_reconnect h"
| "cb_ref On_subscribe h = cb_ref_subscribe h"

fun set_cb :: "cb_event \<Rightarrow> int \<Rightarrow> mqtt_t \<Rightarrow> mqtt_t" where
  "set_cb On_data r h = h\<lparr>cb_ref_data := r\<rparr>"
| "set_cb On_connect r h = h\<lparr>cb_ref_connect := r\<rparr>"
| "set_cb On_disconnect r h = h\<lparr>cb_ref_disconnect := r\<rparr>"
| "set_cb On_publish r h = h\<lparr>cb_ref_publish := r\<rparr>"
| "set_cb On_reconnect r h = h\<lparr>cb_ref_reconnect := r\<rparr>"
| "set_cb On_subscribe r h = h\<lparr>cb_ref_subscribe := r\<rparr>"

fun event_name :: "cb_event \<Rightarrow> string" where
  "event_name On_data = ''data''"
| "event_name On_connect = ''connect''"
| "event_name On_disconnect = ''disconnect''"
| "event_name On_publish = ''publish''"
| "event_name On_reconnect = ''reconnect''"
| "event_name On_subscribe = ''subscribe''"

definition events :: "cb_event list" where
  "events = [On_data, On_connect, On_disconnect, On_publish, On_reconnect, On_subscribe]"

definition event_of :: "string \<Rightarrow> cb_event option" where
  "event_of meth = List.find (\<lambda>ev. event_name ev = meth) events"

lemma cb_ref_set [simp]: "cb_ref ev (set_cb ev' r h) = (if ev = ev' then r else cb_ref ev h)"
  by (cases ev; cases ev') simp_all

lemma pClient_set [simp]: "pClient (set_cb ev r h) = pClient h"
  by (cases ev) simp_all

lemma cb_ref_none [simp]: "cb_ref ev (no_refs h) = LUA_NOREF"
  by (cases ev) (simp_all add: no_refs_def)

lemma pClient_none [simp]: "pClient (no_refs h) = pClient h"
  by (simp add: no_refs_def)

lemma cb_ref_pClient [simp]: "cb_ref ev (h\<lparr>pClient := a\<rparr>) = cb_ref ev h"
  by (cases ev) simp_all

lemma set_cb_none [simp]: "set_cb ev LUA_NOREF (no_refs h) = no_refs h"
  by (cases ev) (simp_all add: no_refs_def)

declare set_cb.simps [simp del]

text \<open>mqtt.on, with its six branches in one.\<close>

lemma lmqtt_on_eq:
  "lmqtt_on env args s =
     with_client env args s (\<lambda>i h. with_string env args 2 s (\<lambda>meth.
       case lua_arg args 3 of
         Lua_function f \<Rightarrow>
           (case event_of meth of
              None \<Rightarrow> Some (Inl (Lua_error ''wrong method''), s)
            | Some ev \<Rightarrow> (case replace_ref env (cb_ref ev h) f (registry s) of (r, reg) \<Rightarrow>
                Some (Inr [], s\<lparr>registry := reg, handle := (handle s)[i := set_cb ev r h]\<rparr>)))
       | _ \<Rightarrow> Some (Inl (Lua_error ''callback function needed''), s)))"
  unfolding lmqtt_on_def event_of_def events_def Let_def
  by (intro arg_cong [where f = "with_client env args s"] ext arg_cong [where f = "with_string env args 2 s"])
     (auto simp: set_cb.simps split: lua_value.split)

subsection \<open>The specification\<close>

datatype lmqtt_op =
  New "lua_value list" | Close "lua_value list" | On "lua_value list"
| Subscribe "lua_value list" | Unsubscribe "lua_value list" | Publish "lua_value list"

definition lmqtt_do :: "'q lmqtt_env \<Rightarrow> lmqtt_op \<Rightarrow> 'q lmqtt_state \<Rightarrow> 'q lmqtt_result" where
  "lmqtt_do env op s =
     (case op of
        New args \<Rightarrow> lmqtt_new env args s
      | Close args \<Rightarrow> lmqtt_close env args s
      | On args \<Rightarrow> lmqtt_on env args s
      | Subscribe args \<Rightarrow> lmqtt_subscribe env args s
      | Unsubscribe args \<Rightarrow> lmqtt_unsubscribe env args s
      | Publish args \<Rightarrow> lmqtt_publish env args s)"

definition fn_arg :: "lua_value \<Rightarrow> nat option" where
  "fn_arg v = (case v of Lua_function f \<Rightarrow> Some f | _ \<Rightarrow> None)"

text \<open>
  What a script expects: for each handle and event the function given last. A new client, made says
  whether there is one, starts with its function for the connection; a closed one has none.
\<close>

type_synonym callbacks = "nat \<Rightarrow> cb_event \<Rightarrow> nat option"

definition arg_handle :: "'q lmqtt_env \<Rightarrow> lua_value list \<Rightarrow> nat" where
  "arg_handle env args = (case luaL_checkinteger (text_num env) (lua_arg args 1) of
     Some n \<Rightarrow> unat (word_of_int n :: u32) | None \<Rightarrow> 0)"

definition arg_text :: "'q lmqtt_env \<Rightarrow> lua_value list \<Rightarrow> nat \<Rightarrow> string" where
  "arg_text env args i = (case lua_tolstring (num_text env) (lua_arg args i) of Some t \<Rightarrow> t | None \<Rightarrow> [])"

definition spec_step ::
    "'q lmqtt_env \<Rightarrow> lmqtt_op \<Rightarrow> lua_error + lua_value list \<Rightarrow> bool \<Rightarrow> callbacks \<Rightarrow> callbacks" where
  "spec_step env op r made cbs =
     (case (op, r) of
        (New args, Inr [Lua_integer j]) \<Rightarrow>
          if made then cbs(nat j := (\<lambda>ev. if ev = On_connect then fn_arg (lua_arg args 4) else None)) else cbs
      | (Close args, Inr _) \<Rightarrow> cbs(arg_handle env args := (\<lambda>ev. None))
      | (On args, Inr _) \<Rightarrow>
          (case event_of (arg_text env args 2) of
             Some ev \<Rightarrow> cbs(arg_handle env args := (cbs (arg_handle env args))(ev := fn_arg (lua_arg args 3)))
           | None \<Rightarrow> cbs)
      | _ \<Rightarrow> cbs)"

definition env_ok :: "'q lmqtt_env \<Rightarrow> bool" where
  "env_ok env \<longleftrightarrow> new_ref_laws (new_ref env) \<and> (\<forall>a. client_malloc env = Some a \<longrightarrow> a \<noteq> 0)"

text \<open>The module as the C runtime leaves it, with the references other modules hold.\<close>

definition lmqtt_boot :: "(int \<rightharpoonup> nat) \<Rightarrow> 'q lmqtt_state" where
  "lmqtt_boot reg0 = \<lparr>handle = replicate MAX_MQTT_NUM \<lparr>pClient = 0, cb_ref_data = 0, cb_ref_connect = 0, cb_ref_disconnect = 0,
     cb_ref_publish = 0, cb_ref_reconnect = 0, cb_ref_subscribe = 0\<rparr>, registry = reg0,
     topic_buf = replicate TOPIC_BUFF_SIZE 0, data_buf = replicate DATA_BUFF_SIZE 0,
     module = \<lparr>instance_of = None, xMqttTask = False, task_runs = False\<rparr>, client_at = 0, settings = None, unsent = []\<rparr>"

text \<open>
  A run: calls of the script, messages handed to the callbacks, and the client's own tasks, which
  change nothing here but the client. Only calls that return are part of it; a call that uses the client after
  mqtt.close destroyed it does not.
\<close>

inductive lmqtt_run :: "(int \<rightharpoonup> nat) \<Rightarrow> 'q lmqtt_state \<Rightarrow> callbacks \<Rightarrow> bool" for reg0 where
  boot: "lmqtt_run reg0 (lmqtt_boot reg0) (\<lambda>i ev. None)"
| call: "lmqtt_run reg0 s cbs \<Longrightarrow> env_ok env \<Longrightarrow> lmqtt_do env op s = Some (r, s') \<Longrightarrow>
     lmqtt_run reg0 s' (spec_step env op r (xMqttTask (module s') \<and> \<not> xMqttTask (module s)) cbs)"
| message: "lmqtt_run reg0 s cbs \<Longrightarrow> message_cb ref a e s = Some (called, s') \<Longrightarrow> lmqtt_run reg0 s' cbs"
| client: "lmqtt_run reg0 s cbs \<Longrightarrow> instance_of (module s) = Some sys \<Longrightarrow>
     lmqtt_run reg0 (s\<lparr>module := (module s)\<lparr>instance_of := Some sys'\<rparr>\<rparr>) cbs"

subsection \<open>The invariant\<close>

definition live :: "(int \<rightharpoonup> nat) \<Rightarrow> int \<Rightarrow> nat option" where
  "live reg r = (if r = LUA_NOREF then None else reg r)"

definition refs_ok :: "(int \<rightharpoonup> nat) \<Rightarrow> (int \<rightharpoonup> nat) \<Rightarrow> mqtt_t \<Rightarrow> bool" where
  "refs_ok reg0 reg h \<longleftrightarrow>
     (\<forall>ev. cb_ref ev h \<noteq> LUA_NOREF \<longrightarrow> 0 < cb_ref ev h \<and> reg (cb_ref ev h) \<noteq> None \<and> reg0 (cb_ref ev h) = None \<and>
        (\<forall>ev'. ev' \<noteq> ev \<longrightarrow> cb_ref ev' h \<noteq> cb_ref ev h))"

definition lmqtt_inv :: "(int \<rightharpoonup> nat) \<Rightarrow> 'q lmqtt_state \<Rightarrow> callbacks \<Rightarrow> bool" where
  "lmqtt_inv reg0 s cbs \<longleftrightarrow> length (handle s) = MAX_MQTT_NUM \<and> reg0 \<subseteq>\<^sub>m registry s \<and> finite (dom (registry s)) \<and>
     (\<forall>i < 3. pClient (handle s ! i) \<noteq> 0 \<longrightarrow> xMqttTask (module s) \<and> pClient (handle s ! i) = client_at s \<and>
        refs_ok reg0 (registry s) (handle s ! i) \<and> (\<forall>j < 3. pClient (handle s ! j) \<noteq> 0 \<longrightarrow> j = i)) \<and>
     (\<forall>i ev. cbs i ev = (if i < 3 \<and> pClient (handle s ! i) \<noteq> 0 then live (registry s) (cb_ref ev (handle s ! i)) else None))"

subsection \<open>References\<close>

lemma drop_ref_eq: "drop_ref r reg = (if 0 \<le> r then reg(r := None) else reg)"
  by (simp add: drop_ref_def luaL_unref_def)

lemma replace_ref_fresh:
  assumes "env_ok env" "finite (dom reg)" "replace_ref env old f reg = (r, reg')"
  shows "0 < r \<and> drop_ref old reg r = None \<and> reg' = (drop_ref old reg)(r \<mapsto> f)"
proof -
  have "finite (dom (drop_ref old reg))" using assms(2) by (simp add: drop_ref_eq)
  then show ?thesis using assms(1,3) by (auto simp: replace_ref_def luaL_ref_def env_ok_def new_ref_laws_def)
qed

lemma refs_replaced:
  fixes f :: nat
  assumes h: "refs_ok reg0 reg h" and le: "reg0 \<subseteq>\<^sub>m reg" and r: "0 < r" "drop_ref (cb_ref ev h) reg r = None"
  defines "reg' \<equiv> (drop_ref (cb_ref ev h) reg)(r \<mapsto> f)"
  shows "refs_ok reg0 reg' (set_cb ev r h)" "reg0 \<subseteq>\<^sub>m reg'"
    "live reg' (cb_ref ev' (set_cb ev r h)) = (if ev' = ev then Some f else live reg (cb_ref ev' h))"
proof -
  have le': "reg0 \<subseteq>\<^sub>m drop_ref (cb_ref ev h) reg"
  proof (cases "cb_ref ev h = LUA_NOREF")
    case False
    then have "reg0 (cb_ref ev h) = None" using h by (simp add: refs_ok_def)
    then show ?thesis using le by (auto simp: drop_ref_eq map_le_def dom_def)
  qed (use le in \<open>simp add: drop_ref_eq\<close>)
  have r0: "reg0 r = None" using le' r(2) by (metis domIff map_le_implies_dom_le subsetD)
  show "reg0 \<subseteq>\<^sub>m reg'" using le' r0 by (auto simp: reg'_def map_le_def dom_def)
  have keep: "reg' x = reg x" "x \<noteq> r" if "cb_ref e h = x" "x \<noteq> LUA_NOREF" "e \<noteq> ev" for e x
  proof -
    have "cb_ref ev h \<noteq> x" "reg x \<noteq> None" using h that unfolding refs_ok_def by metis+
    then show "x \<noteq> r" using r(2) by (auto simp: drop_ref_eq split: if_splits)
    then show "reg' x = reg x" using \<open>cb_ref ev h \<noteq> x\<close> by (auto simp: reg'_def drop_ref_eq)
  qed
  show "live reg' (cb_ref ev' (set_cb ev r h)) = (if ev' = ev then Some f else live reg (cb_ref ev' h))"
    using keep(1) [of ev'] r(1) by (auto simp: live_def reg'_def)
  show "refs_ok reg0 reg' (set_cb ev r h)"
    unfolding refs_ok_def
  proof (intro allI impI)
    fix e assume e: "cb_ref e (set_cb ev r h) \<noteq> LUA_NOREF"
    show "0 < cb_ref e (set_cb ev r h) \<and> reg' (cb_ref e (set_cb ev r h)) \<noteq> None \<and> reg0 (cb_ref e (set_cb ev r h)) = None \<and>
        (\<forall>ev'. ev' \<noteq> e \<longrightarrow> cb_ref ev' (set_cb ev r h) \<noteq> cb_ref e (set_cb ev r h))"
    proof (cases "e = ev")
      case True
      have "cb_ref e' h \<noteq> r" if "e' \<noteq> ev" for e' using keep(2) [OF refl _ that] r(1) by auto
      then show ?thesis using True r r0 by (auto simp: reg'_def)
    next
      case False
      then have "cb_ref e h \<noteq> LUA_NOREF" using e by simp
      then show ?thesis using False h keep [OF refl _ False] unfolding refs_ok_def by auto
    qed
  qed
qed

text \<open>What leaves the table, the registry and the handle of the task alone keeps the invariant.\<close>

definition frame :: "'q lmqtt_state \<Rightarrow> 'q lmqtt_state \<Rightarrow> bool" where
  "frame s s' \<longleftrightarrow> handle s' = handle s \<and> registry s' = registry s \<and> client_at s' = client_at s \<and>
     xMqttTask (module s') = xMqttTask (module s)"

lemma inv_frame: "frame s s' \<Longrightarrow> lmqtt_inv reg0 s cbs \<Longrightarrow> lmqtt_inv reg0 s' cbs"
  unfolding frame_def lmqtt_inv_def by (elim conjE) (simp only:, blast)

lemma frame_refl [simp]: "frame s s"
  by (simp add: frame_def)

lemma with_string_Some:
  "with_string env args i s f = Some (r, s') \<Longrightarrow>
     (r = Inl (Arg_error i ''string expected'') \<and> s' = s) \<or> f (arg_text env args i) = Some (r, s')"
  by (auto simp: with_string_def arg_text_def split: option.splits)

lemma with_unsigned_Some:
  "with_unsigned env args i s f = Some (r, s') \<Longrightarrow>
     (r = Inl (Arg_error i ''number expected'') \<and> s' = s) \<or> (\<exists>n. f n = Some (r, s'))"
  by (auto simp: with_unsigned_def split: option.splits)

lemma with_client_Some:
  "with_client env args s f = Some (r, s') \<Longrightarrow>
     (isl r \<and> s' = s) \<or> (\<exists>h. arg_handle env args < 3 \<and> get_at (handle s) (arg_handle env args) = Some h \<and> pClient h \<noteq> 0 \<and>
        f (arg_handle env args) h = Some (r, s'))"
  by (auto simp: with_client_def with_unsigned_def arg_handle_def word_le_nat_alt split: option.splits if_splits bind_splits)

lemma on_client_frame: "on_client a f s = Some (r, s') \<Longrightarrow> frame s s' \<and> r = Inr []"
  by (auto simp: on_client_def frame_def split: bind_splits)

lemma client_calls_frame:
  "lmqtt_subscribe env args s = Some (r, s') \<Longrightarrow> frame s s'"
  "lmqtt_unsubscribe env args s = Some (r, s') \<Longrightarrow> frame s s'"
  "lmqtt_publish env args s = Some (r, s') \<Longrightarrow> frame s s'"
  unfolding lmqtt_subscribe_def lmqtt_unsubscribe_def lmqtt_publish_def
  by (auto dest!: with_client_Some with_string_Some with_unsigned_Some on_client_frame split: if_splits)

subsection \<open>Every call keeps the invariant and does what is expected\<close>

lemma spec_step_error [simp]: "isl r \<Longrightarrow> spec_step env op r made cbs = cbs"
  by (cases r) (simp_all add: spec_step_def split: lmqtt_op.split)

lemma lmqtt_invD:
  assumes "lmqtt_inv reg0 s cbs"
  shows "length (handle s) = 3" "reg0 \<subseteq>\<^sub>m registry s" "finite (dom (registry s))"
    "i < 3 \<Longrightarrow> pClient (handle s ! i) \<noteq> 0 \<Longrightarrow> xMqttTask (module s)"
    "i < 3 \<Longrightarrow> pClient (handle s ! i) \<noteq> 0 \<Longrightarrow> pClient (handle s ! i) = client_at s"
    "i < 3 \<Longrightarrow> pClient (handle s ! i) \<noteq> 0 \<Longrightarrow> refs_ok reg0 (registry s) (handle s ! i)"
    "i < 3 \<Longrightarrow> pClient (handle s ! i) \<noteq> 0 \<Longrightarrow> j < 3 \<Longrightarrow> pClient (handle s ! j) \<noteq> 0 \<Longrightarrow> j = i"
    "cbs i ev = (if i < 3 \<and> pClient (handle s ! i) \<noteq> 0 then live (registry s) (cb_ref ev (handle s ! i)) else None)"
  using assms unfolding lmqtt_inv_def by (elim conjE; blast)+

text \<open>Changing the one entry that has a client.\<close>

lemma lmqtt_inv_update:
  assumes inv: "lmqtt_inv reg0 s cbs" and i: "i < 3" "pClient (handle s ! i) \<noteq> 0"
    and h: "pClient h = pClient (handle s ! i)" "refs_ok reg0 reg h"
    and reg: "reg0 \<subseteq>\<^sub>m reg" "finite (dom reg)"
    and cb: "\<And>ev. c ev = live reg (cb_ref ev h)"
    and s': "handle s' = (handle s)[i := h]" "registry s' = reg" "client_at s' = client_at s"
      "xMqttTask (module s') = xMqttTask (module s)"
  shows "lmqtt_inv reg0 s' (cbs(i := c))"
proof -
  note len = lmqtt_invD(1) [OF inv] and one = lmqtt_invD(7) [OF inv i] and c = lmqtt_invD(8) [OF inv]
    and x = lmqtt_invD(4,5) [OF inv i]
  have used: "pClient (handle s' ! j) \<noteq> 0 \<longleftrightarrow> j = i" if "j < 3" for j
  proof (cases "j = i")
    case True
    then show ?thesis using len i h(1) by (simp add: s'(1))
  next
    case False
    then have "pClient (handle s ! j) = 0" using one [OF that] by blast
    then show ?thesis using False by (simp add: s'(1))
  qed
  have hi: "handle s' ! i = h" using len i(1) s'(1) by simp
  show ?thesis
    unfolding lmqtt_inv_def s'(2-4)
  proof (intro conjI allI impI)
    fix j ev
    show "(cbs(i := c)) j ev = (if j < 3 \<and> pClient (handle s' ! j) \<noteq> 0 then live reg (cb_ref ev (handle s' ! j)) else None)"
    proof (cases "j = i")
      case True
      then show ?thesis using i(1) used [OF i(1)] hi cb by simp
    next
      case False
      then have "cbs j ev = None" using c [of j ev] one by auto
      then show ?thesis using False used [of j] by auto
    qed
  next
    fix j assume j: "j < 3" "pClient (handle s' ! j) \<noteq> 0"
    then have ji: "j = i" using used by blast
    show "xMqttTask (module s)" by (rule x(1))
    show "pClient (handle s' ! j) = client_at s" using ji hi h(1) x(2) by simp
    show "refs_ok reg0 reg (handle s' ! j)" using ji hi h(2) by simp
    fix k assume "k < 3" "pClient (handle s' ! k) \<noteq> 0"
    then show "k = j" using used ji by blast
  qed (use len reg in \<open>simp_all add: s'(1)\<close>)
qed

lemma on_inv:
  assumes inv: "lmqtt_inv reg0 s cbs" and env: "env_ok env" and r: "lmqtt_on env args s = Some (r, s')"
  shows "lmqtt_inv reg0 s' (spec_step env (On args) r made cbs)"
proof (cases "isl r \<and> s' = s")
  case True
  then show ?thesis using inv by simp
next
  case False
  let ?i = "arg_handle env args"
  from with_client_Some [OF r [unfolded lmqtt_on_eq]] False
  obtain h where i: "?i < 3" and h: "get_at (handle s) ?i = Some h" "pClient h \<noteq> 0" and
    r1: "with_string env args 2 s (\<lambda>meth.
       case lua_arg args 3 of
         Lua_function f \<Rightarrow>
           (case event_of meth of
              None \<Rightarrow> Some (Inl (Lua_error ''wrong method''), s)
            | Some ev \<Rightarrow> (case replace_ref env (cb_ref ev h) f (registry s) of (r, reg) \<Rightarrow>
                Some (Inr [], s\<lparr>registry := reg, handle := (handle s)[?i := set_cb ev r h]\<rparr>)))
       | _ \<Rightarrow> Some (Inl (Lua_error ''callback function needed''), s)) = Some (r, s')"
    by auto
  from with_string_Some [OF r1] False obtain f ev where f: "lua_arg args 3 = Lua_function f"
    and ev: "event_of (arg_text env args 2) = Some ev"
    and r2: "(case replace_ref env (cb_ref ev h) f (registry s) of (r, reg) \<Rightarrow>
                Some (Inr [], s\<lparr>registry := reg, handle := (handle s)[?i := set_cb ev r h]\<rparr>)) = Some (r, s')"
    by (auto split: lua_value.splits option.splits)
  obtain q reg where q: "replace_ref env (cb_ref ev h) f (registry s) = (q, reg)" by fastforce
  have hi: "handle s ! ?i = h" using h(1) by (auto simp: get_at_def split: if_splits)
  have ok: "refs_ok reg0 (registry s) h" "reg0 \<subseteq>\<^sub>m registry s" "finite (dom (registry s))"
    using lmqtt_invD(2,3,6) [OF inv] i h(2) hi by metis+
  have fr: "0 < q" "drop_ref (cb_ref ev h) (registry s) q = None" "reg = (drop_ref (cb_ref ev h) (registry s))(q \<mapsto> f)"
    using replace_ref_fresh [OF env ok(3) q] by auto
  note new = refs_replaced [OF ok(1,2) fr(1,2), of f, folded fr(3)]
  have fin: "finite (dom reg)" using ok(3) by (simp add: fr(3) drop_ref_eq)
  have old: "cbs ?i e = live (registry s) (cb_ref e h)" for e
    using lmqtt_invD(8) [OF inv, of ?i e] i h(2) hi by simp
  have r': "r = Inr []" and s': "s' = s\<lparr>registry := reg, handle := (handle s)[?i := set_cb ev q h]\<rparr>"
    using r2 q by auto
  have "lmqtt_inv reg0 s' (cbs(?i := (cbs ?i)(ev := Some f)))"
    by (rule lmqtt_inv_update [OF inv i, where h = "set_cb ev q h" and reg = reg]) (use h new fin hi s' old in auto)
  then show ?thesis using r' f ev by (simp add: spec_step_def fn_arg_def)
qed

lemma drops:
  assumes "\<forall>r \<in> set rs. 0 \<le> r \<longrightarrow> reg0 r = None" "reg0 \<subseteq>\<^sub>m reg" "finite (dom reg)"
  shows "reg0 \<subseteq>\<^sub>m fold drop_ref rs reg \<and> finite (dom (fold drop_ref rs reg))"
  using assms
proof (induction rs arbitrary: reg)
  case (Cons r rs)
  have "reg0 \<subseteq>\<^sub>m drop_ref r reg" using Cons.prems by (auto simp: drop_ref_eq map_le_def dom_def)
  moreover have "finite (dom (drop_ref r reg))" using Cons.prems by (simp add: drop_ref_eq)
  ultimately show ?case using Cons by simp
qed simp

lemma close_cases:
  assumes "lmqtt_close env args s = Some (r, s')"
  shows "(isl r \<and> s' = s) \<or>
    (\<exists>h. arg_handle env args < 3 \<and> get_at (handle s) (arg_handle env args) = Some h \<and> r = Inr [] \<and>
       (pClient h = 0 \<and> s' = s \<or>
        pClient h \<noteq> 0 \<and> handle s' = (handle s)[arg_handle env args := no_refs h] \<and> client_at s' = client_at s \<and>
        xMqttTask (module s') = xMqttTask (module s) \<and>
        registry s' = fold drop_ref [cb_ref_data h, cb_ref_disconnect h, cb_ref_reconnect h, cb_ref_publish h,
          cb_ref_connect h, cb_ref_subscribe h] (registry s)))"
proof (cases "luaL_checkinteger (text_num env) (lua_arg args 1)")
  case None
  then show ?thesis using assms by (auto simp: lmqtt_close_def with_unsigned_def)
next
  case (Some n)
  show ?thesis
  proof (cases "(word_of_int n :: u32) \<ge> 3")
    case True
    then show ?thesis using assms Some by (auto simp: lmqtt_close_def with_unsigned_def)
  next
    case False
    then have lt: "arg_handle env args < 3" and i: "unat (word_of_int n :: u32) = arg_handle env args"
      using Some by (simp_all add: arg_handle_def word_le_nat_alt)
    obtain h where h: "get_at (handle s) (arg_handle env args) = Some h"
      using assms Some False i by (auto simp: lmqtt_close_def with_unsigned_def split: bind_splits)
    show ?thesis
    proof (cases "pClient h = 0")
      case True
      then show ?thesis using assms Some False i h lt by (simp add: lmqtt_close_def with_unsigned_def)
    next
      case used: False
      then show ?thesis using assms Some False i h lt
        by (auto simp: lmqtt_close_def with_unsigned_def mqtt_destroy_def Let_def split: bind_splits)
    qed
  qed
qed

lemma close_inv:
  assumes inv: "lmqtt_inv reg0 s cbs" and r: "lmqtt_close env args s = Some (r, s')"
  shows "lmqtt_inv reg0 s' (spec_step env (Close args) r made cbs)"
proof (cases "isl r \<and> s' = s")
  case True
  then show ?thesis using inv by simp
next
  case False
  let ?i = "arg_handle env args"
  from close_cases [OF r] False obtain h where i: "?i < 3" and h: "get_at (handle s) ?i = Some h" and r': "r = Inr []"
    and st: "pClient h = 0 \<and> s' = s \<or>
        pClient h \<noteq> 0 \<and> handle s' = (handle s)[?i := no_refs h] \<and> client_at s' = client_at s \<and>
        xMqttTask (module s') = xMqttTask (module s) \<and>
        registry s' = fold drop_ref [cb_ref_data h, cb_ref_disconnect h, cb_ref_reconnect h, cb_ref_publish h,
          cb_ref_connect h, cb_ref_subscribe h] (registry s)" by blast
  have hi: "handle s ! ?i = h" using h by (auto simp: get_at_def split: if_splits)
  have spec: "spec_step env (Close args) r made cbs = cbs(?i := (\<lambda>ev. None))" by (simp add: spec_step_def r')
  show ?thesis
  proof (cases "pClient h = 0")
    case True
    then have "cbs ?i = (\<lambda>ev. None)" using lmqtt_invD(8) [OF inv, of ?i] hi by (simp add: fun_eq_iff)
    then show ?thesis using True st inv spec by (metis fun_upd_triv)
  next
    case used: False
    let ?rs = "[cb_ref_data h, cb_ref_disconnect h, cb_ref_reconnect h, cb_ref_publish h, cb_ref_connect h, cb_ref_subscribe h]"
    have ok: "refs_ok reg0 (registry s) h" using lmqtt_invD(6) [OF inv i] hi used by simp
    have none: "0 \<le> cb_ref ev h \<Longrightarrow> reg0 (cb_ref ev h) = None" for ev using ok unfolding refs_ok_def by fastforce
    have "\<forall>r \<in> set ?rs. 0 \<le> r \<longrightarrow> reg0 r = None"
      using none [of On_data] none [of On_disconnect] none [of On_reconnect] none [of On_publish] none [of On_connect]
        none [of On_subscribe] by simp
    from drops [OF this lmqtt_invD(2,3) [OF inv]] have reg: "reg0 \<subseteq>\<^sub>m registry s'" "finite (dom (registry s'))"
      using st used by simp_all
    have "lmqtt_inv reg0 s' (cbs(?i := (\<lambda>ev. None)))"
      by (rule lmqtt_inv_update [OF inv i, where h = "no_refs h" and reg = "registry s'"])
         (use used hi reg st in \<open>simp_all add: refs_ok_def live_def\<close>)
    then show ?thesis by (simp add: spec)
  qed
qed

lemma free_slot_Some: "free_slot hs = Some i \<Longrightarrow> i < length hs \<and> pClient (hs ! i) = 0"
  by (induction hs arbitrary: i) (auto split: if_splits)

text \<open>The entry and the registry before the client is started.\<close>

definition new_entry :: "'q lmqtt_env \<Rightarrow> lua_value \<Rightarrow> mqtt_t \<Rightarrow> (int \<rightharpoonup> nat) \<Rightarrow> mqtt_t \<times> (int \<rightharpoonup> nat)" where
  "new_entry env v h reg =
     (case v of
        Lua_function f \<Rightarrow> (case replace_ref env (cb_ref On_connect (no_refs h)) f reg of (r, reg) \<Rightarrow> (set_cb On_connect r (no_refs h), reg))
      | _ \<Rightarrow> (set_cb On_connect LUA_NOREF (no_refs h), reg))"

lemma new_entry_ok:
  assumes env: "env_ok env" and reg: "reg0 \<subseteq>\<^sub>m reg" "finite (dom reg)" and n: "new_entry env v h reg = (h', reg')"
  shows "pClient h' = pClient h" "refs_ok reg0 reg' h'" "reg0 \<subseteq>\<^sub>m reg'" "finite (dom reg')" "reg \<subseteq>\<^sub>m reg'"
    "live reg' (cb_ref ev h') = (if ev = On_connect then fn_arg v else None)"
proof -
  have r0: "refs_ok reg0 reg (no_refs h)" by (simp add: refs_ok_def)
  have "pClient h' = pClient h \<and> refs_ok reg0 reg' h' \<and> reg0 \<subseteq>\<^sub>m reg' \<and> finite (dom reg') \<and> reg \<subseteq>\<^sub>m reg' \<and>
    live reg' (cb_ref ev h') = (if ev = On_connect then fn_arg v else None)"
  proof (cases "fn_arg v")
    case None
    then have "h' = no_refs h" "reg' = reg"
      using n by (auto simp: fn_arg_def new_entry_def split: lua_value.splits)
    then show ?thesis using None reg by (auto simp: refs_ok_def live_def)
  next
    case (Some f)
    then have v: "v = Lua_function f" by (auto simp: fn_arg_def split: lua_value.splits)
    obtain r where r: "replace_ref env (cb_ref On_connect (no_refs h)) f reg = (r, reg')" "h' = set_cb On_connect r (no_refs h)"
      using n v by (auto simp: new_entry_def split: prod.splits)
    have fr: "0 < r" "drop_ref (cb_ref On_connect (no_refs h)) reg r = None"
      "reg' = (drop_ref (cb_ref On_connect (no_refs h)) reg)(r \<mapsto> f)"
      using replace_ref_fresh [OF env reg(2) r(1)] by auto
    note new = refs_replaced [OF r0 reg(1) fr(1,2), of f, folded fr(3)]
    have "reg r = None" "reg' = reg(r \<mapsto> f)" using fr(2,3) by (simp_all add: drop_ref_eq)
    then have "reg \<subseteq>\<^sub>m reg'" "finite (dom reg')" using reg(2) by (auto simp: map_le_def)
    then show ?thesis using new Some r(2) by (auto simp: live_def)
  qed
  then show "pClient h' = pClient h" "refs_ok reg0 reg' h'" "reg0 \<subseteq>\<^sub>m reg'" "finite (dom reg')" "reg \<subseteq>\<^sub>m reg'"
    "live reg' (cb_ref ev h') = (if ev = On_connect then fn_arg v else None)" by blast+
qed

lemma refs_ok_mono: "refs_ok reg0 reg h \<Longrightarrow> reg \<subseteq>\<^sub>m reg' \<Longrightarrow> refs_ok reg0 reg' h"
  unfolding refs_ok_def map_le_def by (metis domIff)

lemma live_mono: "refs_ok reg0 reg h \<Longrightarrow> reg \<subseteq>\<^sub>m reg' \<Longrightarrow> live reg' (cb_ref ev h) = live reg (cb_ref ev h)"
  unfolding refs_ok_def map_le_def live_def by (metis domIff)

text \<open>Changing an entry that has no client.\<close>

lemma inv_unused:
  assumes inv: "lmqtt_inv reg0 s cbs" and i: "pClient (handle s ! i) = 0" "pClient h = 0"
    and reg: "reg0 \<subseteq>\<^sub>m reg" "finite (dom reg)" "registry s \<subseteq>\<^sub>m reg"
    and s': "handle s' = (handle s)[i := h]" "registry s' = reg" "client_at s' = client_at s"
      "xMqttTask (module s') = xMqttTask (module s)"
  shows "lmqtt_inv reg0 s' cbs"
proof -
  have p: "pClient (handle s' ! j) = pClient (handle s ! j)" if "j < 3" for j
    using that i s'(1) lmqtt_invD(1) [OF inv] by (cases "j = i") simp_all
  have same: "handle s' ! j = handle s ! j" if "j < 3" "pClient (handle s ! j) \<noteq> 0" for j
    using that i(1) s'(1) by (metis nth_list_update_neq)
  show ?thesis
    unfolding lmqtt_inv_def s'(2-4)
  proof (intro conjI allI impI)
    fix j ev
    show "cbs j ev = (if j < 3 \<and> pClient (handle s' ! j) \<noteq> 0 then live reg (cb_ref ev (handle s' ! j)) else None)"
    proof (cases "j < 3 \<and> pClient (handle s ! j) \<noteq> 0")
      case True
      then show ?thesis
        using lmqtt_invD(8) [OF inv, of j ev] live_mono [OF lmqtt_invD(6) [OF inv] reg(3), of j ev] same p by simp
    next
      case False
      then show ?thesis using lmqtt_invD(8) [OF inv, of j ev] p by auto
    qed
  next
    fix j assume j: "j < 3" "pClient (handle s' ! j) \<noteq> 0"
    then have u: "pClient (handle s ! j) \<noteq> 0" using p by simp
    show "xMqttTask (module s)" by (rule lmqtt_invD(4) [OF inv j(1) u])
    show "pClient (handle s' ! j) = client_at s" using lmqtt_invD(5) [OF inv j(1) u] p [OF j(1)] by simp
    show "refs_ok reg0 reg (handle s' ! j)"
      using refs_ok_mono [OF lmqtt_invD(6) [OF inv j(1) u] reg(3)] same [OF j(1) u] by simp
    fix k assume "k < 3" "pClient (handle s' ! k) \<noteq> 0"
    then show "k = j" using lmqtt_invD(7) [OF inv j(1) u] p by simp
  qed (use lmqtt_invD(1) [OF inv] reg in \<open>simp_all add: s'(1)\<close>)
qed

text \<open>mqtt.new, with the entry and the rest of the call.\<close>

definition new_finish ::
    "'q lmqtt_env \<Rightarrow> nat \<Rightarrow> mqtt_t \<Rightarrow> string \<Rightarrow> string \<Rightarrow> u32 \<Rightarrow> string option \<Rightarrow> string option \<Rightarrow> 'q lmqtt_state \<Rightarrow> 'q lmqtt_result" where
  "new_finish env idx h hst clientid ka user pass s =
     (if \<not> settings_malloc env then None
      else do {
        (a, s) \<leftarrow> start_client env
          (make_settings env (c_string hst) (c_string clientid) ka (map_option c_string user) (map_option c_string pass)) s;
        Some (Inr [Lua_integer (int idx)], s\<lparr>handle := (handle s)[idx := h\<lparr>pClient := a\<rparr>]\<rparr>) })"

lemma lmqtt_new_eq:
  "lmqtt_new env args s =
     with_string env args 1 s (\<lambda>hst. with_string env args 2 s (\<lambda>clientid. with_unsigned env args 3 s (\<lambda>ka.
       case free_slot (handle s) of
         None \<Rightarrow> Some (Inl (Lua_error ''Max MQTT Number is reached''), s)
       | Some idx \<Rightarrow>
           (case new_entry env (lua_arg args 4) (handle s ! idx) (registry s) of (h, reg) \<Rightarrow>
              (let s = s\<lparr>handle := (handle s)[idx := h], registry := reg\<rparr>
               in if length args > 4
                  then with_string env args 5 s (\<lambda>user. with_string env args 6 s (\<lambda>pass.
                    new_finish env idx h hst clientid ka (Some user) (Some pass) s))
                  else new_finish env idx h hst clientid ka None None s)))))"
proof -
  have n: "(case v of
                   Lua_function f \<Rightarrow>
                     (case replace_ref env (cb_ref_connect (no_refs h)) f reg of (r, reg) \<Rightarrow> ((no_refs h)\<lparr>cb_ref_connect := r\<rparr>, reg))
                 | _ \<Rightarrow> ((no_refs h)\<lparr>cb_ref_connect := LUA_NOREF\<rparr>, reg)) = new_entry env v h reg" for v h reg
    by (cases v) (simp_all add: new_entry_def set_cb.simps no_refs_def)
  show ?thesis
    unfolding lmqtt_new_def Let_def n new_finish_def
    by (intro arg_cong [where f = "with_string env args 1 s"] arg_cong [where f = "with_string env args 2 s"]
        arg_cong [where f = "with_unsigned env args 3 s"] ext) (auto split: option.split)
qed

text \<open>The first four arguments of the call are right and there is a free entry, or it fails at once.\<close>

lemma lmqtt_new_Some:
  assumes "lmqtt_new env args s = Some (r, s')"
  shows "(isl r \<and> s' = s) \<or>
    (\<exists>idx h reg s1. free_slot (handle s) = Some idx \<and> new_entry env (lua_arg args 4) (handle s ! idx) (registry s) = (h, reg) \<and>
       s1 = s\<lparr>handle := (handle s)[idx := h], registry := reg\<rparr> \<and>
       ((isl r \<and> s' = s1) \<or> (\<exists>hst clientid ka user pass. new_finish env idx h hst clientid ka user pass s1 = Some (r, s'))))"
proof -
  let ?rest = "\<lambda>hst clientid ka. (case free_slot (handle s) of
         None \<Rightarrow> Some (Inl (Lua_error ''Max MQTT Number is reached''), s)
       | Some idx \<Rightarrow>
           (case new_entry env (lua_arg args 4) (handle s ! idx) (registry s) of (h, reg) \<Rightarrow>
              (let s = s\<lparr>handle := (handle s)[idx := h], registry := reg\<rparr>
               in if length args > 4
                  then with_string env args 5 s (\<lambda>user. with_string env args 6 s (\<lambda>pass.
                    new_finish env idx h hst clientid ka (Some user) (Some pass) s))
                  else new_finish env idx h hst clientid ka None None s)))"
  have "(isl r \<and> s' = s) \<or> (\<exists>hst clientid ka. ?rest hst clientid ka = Some (r, s'))"
    using assms unfolding lmqtt_new_eq
    by (auto dest!: with_string_Some with_unsigned_Some)
  then show ?thesis
  proof
    assume "\<exists>hst clientid ka. ?rest hst clientid ka = Some (r, s')"
    then obtain hst clientid ka where c: "?rest hst clientid ka = Some (r, s')" by blast
    show ?thesis
    proof (cases "free_slot (handle s)")
      case None
      then show ?thesis using c by auto
    next
      case (Some idx)
      obtain h reg where n: "new_entry env (lua_arg args 4) (handle s ! idx) (registry s) = (h, reg)" by fastforce
      let ?s1 = "s\<lparr>handle := (handle s)[idx := h], registry := reg\<rparr>"
      have "(isl r \<and> s' = ?s1) \<or> (\<exists>hst clientid ka user pass. new_finish env idx h hst clientid ka user pass ?s1 = Some (r, s'))"
        using c Some n by (auto simp: Let_def split: if_splits dest!: with_string_Some)
      then show ?thesis using Some n by blast
    qed
  qed blast
qed

lemma new_inv:
  assumes inv: "lmqtt_inv reg0 s cbs" and env: "env_ok env" and r: "lmqtt_new env args s = Some (r, s')"
  shows "lmqtt_inv reg0 s' (spec_step env (New args) r (xMqttTask (module s') \<and> \<not> xMqttTask (module s)) cbs)"
proof (cases "isl r \<and> s' = s")
  case True
  then show ?thesis using inv by simp
next
  case False
  from lmqtt_new_Some [OF r] False
  obtain idx h reg s1 where slot: "free_slot (handle s) = Some idx" and
    n: "new_entry env (lua_arg args 4) (handle s ! idx) (registry s) = (h, reg)" and
    s1: "s1 = s\<lparr>handle := (handle s)[idx := h], registry := reg\<rparr>" and
    out: "(isl r \<and> s' = s1) \<or> (\<exists>hst clientid ka user pass. new_finish env idx h hst clientid ka user pass s1 = Some (r, s'))"
    by blast
  have idx: "idx < 3" "pClient (handle s ! idx) = 0" using free_slot_Some [OF slot] lmqtt_invD(1) [OF inv] by simp_all
  note h = new_entry_ok [OF env lmqtt_invD(2,3) [OF inv] n]
  have inv1: "lmqtt_inv reg0 s1 cbs"
    by (rule inv_unused [OF inv, where i = idx and h = h and reg = reg]) (use idx h in \<open>simp_all add: s1\<close>)
  show ?thesis
  proof (cases "isl r \<and> s' = s1")
    case True
    then show ?thesis using inv1 by simp
  next
    case False
    with out obtain st a s2 where st: "start_client env st s1 = Some (a, s2)" and r': "r = Inr [Lua_integer (int idx)]"
      and s': "s' = s2\<lparr>handle := (handle s2)[idx := h\<lparr>pClient := a\<rparr>]\<rparr>"
      by (auto simp: new_finish_def split: if_splits bind_splits)
    show ?thesis
    proof (cases "xMqttTask (module s) \<or> client_malloc env = None")
      case True
      then have a: "a = 0" "s2 = s1" using st by (auto simp: start_client_def s1 split: if_splits)
      have "pClient h = 0" using h(1) idx(2) by simp
      then have hh: "h\<lparr>pClient := 0\<rparr> = h" by simp
      have "s' = s1" using s' a idx hh lmqtt_invD(1) [OF inv] by (simp add: s1)
      then show ?thesis using inv1 r' by (simp add: s1 spec_step_def)
    next
      case False
      then obtain p where p: "client_malloc env = Some p" "p \<noteq> 0" and x: "\<not> xMqttTask (module s)"
        using env by (auto simp: env_ok_def)
      have s2: "a = p" "client_at s2 = p" "xMqttTask (module s2)" "handle s2 = handle s1" "registry s2 = registry s1"
        using st p x by (auto simp: start_client_def module_start_def s1 split: bind_splits)
      have unused: "pClient (handle s ! j) = 0" if "j < 3" for j using lmqtt_invD(4) [OF inv that] x by blast
      then have "cbs j ev = None" for j ev using lmqtt_invD(8) [OF inv, of j ev] by auto
      then have cbs: "cbs = (\<lambda>j ev. None)" by (simp add: fun_eq_iff)
      have hs: "handle s' = (handle s)[idx := h\<lparr>pClient := p\<rparr>]" "registry s' = reg" "client_at s' = p" "xMqttTask (module s')"
        using s' s2 by (simp_all add: s1)
      have used: "pClient (handle s' ! j) \<noteq> 0 \<longleftrightarrow> j = idx" if "j < 3" for j
        using unused [OF that] idx(1) p(2) lmqtt_invD(1) [OF inv] hs(1) by (cases "j = idx") simp_all
      have hi: "handle s' ! idx = h\<lparr>pClient := p\<rparr>" using idx(1) lmqtt_invD(1) [OF inv] hs(1) by simp
      have ok: "refs_ok reg0 reg (h\<lparr>pClient := p\<rparr>)" using h(2) by (simp add: refs_ok_def)
      have "lmqtt_inv reg0 s' (cbs(idx := (\<lambda>ev. if ev = On_connect then fn_arg (lua_arg args 4) else None)))"
        unfolding lmqtt_inv_def hs(2,3) cbs
      proof (intro conjI allI impI)
        fix j ev
        show "((\<lambda>j ev. None)(idx := (\<lambda>ev. if ev = On_connect then fn_arg (lua_arg args 4) else None))) j ev =
          (if j < 3 \<and> pClient (handle s' ! j) \<noteq> 0 then live reg (cb_ref ev (handle s' ! j)) else None)"
          using used [of j] idx(1) hi h(6) [of ev] by (cases "j = idx") auto
      next
        fix j assume "j < 3" "pClient (handle s' ! j) \<noteq> 0"
        then have j: "j = idx" using used by blast
        show "xMqttTask (module s')" by (rule hs(4))
        show "pClient (handle s' ! j) = p" using j hi by simp
        show "refs_ok reg0 reg (handle s' ! j)" using j hi ok by simp
        fix k assume "k < 3" "pClient (handle s' ! k) \<noteq> 0"
        then show "k = j" using used j by blast
      qed (use lmqtt_invD(1) [OF inv] h in \<open>simp_all add: hs(1)\<close>)
      then show ?thesis using x hs(4) r' by (simp add: spec_step_def)
    qed
  qed
qed

lemma lmqtt_boot_inv: "finite (dom reg0) \<Longrightarrow> lmqtt_inv reg0 (lmqtt_boot reg0) (\<lambda>i ev. None)"
  by (auto simp: lmqtt_inv_def lmqtt_boot_def nth_Cons' numeral_3_eq_3 less_Suc_eq)

lemma message_frame: "message_cb ref a e s = Some (called, s') \<Longrightarrow> frame s s'"
  by (auto simp: message_cb_def frame_def Let_def split: bind_splits if_splits)

lemma call_inv:
  assumes inv: "lmqtt_inv reg0 s cbs" and env: "env_ok env" and r: "lmqtt_do env op s = Some (r, s')"
  shows "lmqtt_inv reg0 s' (spec_step env op r (xMqttTask (module s') \<and> \<not> xMqttTask (module s)) cbs)"
proof -
  have same: "spec_step env op r m cbs = cbs" if "op = Subscribe a \<or> op = Unsubscribe a \<or> op = Publish a" for a m
    using that by (auto simp: spec_step_def)
  show ?thesis
    using r new_inv [OF inv env] close_inv [OF inv] on_inv [OF inv env] inv_frame [OF client_calls_frame(1) inv]
      inv_frame [OF client_calls_frame(2) inv] inv_frame [OF client_calls_frame(3) inv] same
    by (cases op) (simp_all add: lmqtt_do_def)
qed

lemma lmqtt_run_inv:
  assumes "finite (dom reg0)" "lmqtt_run reg0 s cbs"
  shows "lmqtt_inv reg0 s cbs"
  using assms(2)
proof induction
  case boot
  show ?case by (rule lmqtt_boot_inv [OF assms(1)])
next
  case (call s cbs env op r s')
  then show ?case using call_inv by blast
next
  case (message s cbs ref a e called s')
  then show ?case using inv_frame [OF message_frame] by blast
next
  case (client s cbs sys sys')
  have "frame s (s\<lparr>module := (module s)\<lparr>instance_of := Some sys'\<rparr>\<rparr>)" by (simp add: frame_def)
  then show ?case using inv_frame client.IH by blast
qed

lemma callback_expected:
  assumes inv: "lmqtt_inv reg0 s cbs" and i: "i < 3" "pClient (handle s ! i) \<noteq> 0"
  shows "callback (cb_ref ev) (pClient (handle s ! i)) args s =
    (case cbs i ev of None \<Rightarrow> Some None | Some f \<Rightarrow> map_option (\<lambda>a. Some (Some f, a)) args)"
proof -
  let ?P = "\<lambda>h. pClient h = pClient (handle s ! i)"
  have "List.find ?P (handle s) = Some (handle s ! i)"
    unfolding find_Some_iff using i lmqtt_invD(1) [OF inv] lmqtt_invD(7) [OF inv i]
    by (intro exI [of _ i]) (metis less_trans order_less_irrefl)
  then show ?thesis
    using lmqtt_invD(8) [OF inv, of i ev] lmqtt_invD(6) [OF inv i] i
    by (auto simp: callback_def live_def refs_ok_def split: option.splits)
qed

text \<open>C13: Whatever a script did with the module before, every event of a client calls the function the script gave
  last for that handle and event, and no function if it gave none or closed the client; messages reach the functions
  for data and for publish alike; the references that other modules hold in the registry keep their functions.\<close>

theorem lua_mqtt_callbacks:
  assumes "finite (dom reg0)" "lmqtt_run reg0 s cbs"
  shows "(\<forall>r f. reg0 r = Some f \<longrightarrow> registry s r = Some f) \<and>
    (\<forall>i < 3. pClient (handle s ! i) \<noteq> 0 \<longrightarrow>
       connected_cb (pClient (handle s ! i)) s = Some (map_option (\<lambda>f. (Some f, [])) (cbs i On_connect)) \<and>
       subscribe_cb (pClient (handle s ! i)) s = Some (map_option (\<lambda>f. (Some f, [])) (cbs i On_subscribe)) \<and>
       (\<forall>e called s'. data_cb (pClient (handle s ! i)) e s = Some (called, s') \<longrightarrow>
          map_option fst called = map_option Some (cbs i On_data)) \<and>
       (\<forall>e called s'. publish_cb (pClient (handle s ! i)) e s = Some (called, s') \<longrightarrow>
          map_option fst called = map_option Some (cbs i On_publish)))"
proof -
  have inv: "lmqtt_inv reg0 s cbs" by (rule lmqtt_run_inv [OF assms])
  have refs: "cb_ref_data = cb_ref On_data" "cb_ref_connect = cb_ref On_connect" "cb_ref_subscribe = cb_ref On_subscribe"
    "cb_ref_publish = cb_ref On_publish" by (simp_all add: fun_eq_iff)
  have call: "connected_cb a s = Some (map_option (\<lambda>f. (Some f, [])) (cbs i On_connect))"
    "subscribe_cb a s = Some (map_option (\<lambda>f. (Some f, [])) (cbs i On_subscribe))"
    if "i < 3" "a = pClient (handle s ! i)" "a \<noteq> 0" for i a
    using callback_expected [OF inv that(1), of _ "Some []"] that
    by (simp_all add: connected_cb_def subscribe_cb_def refs split: option.splits)
  have msg: "map_option fst called = map_option Some (cbs i ev)"
    if i: "i < 3" "pClient (handle s ! i) \<noteq> 0" and m: "message_cb (cb_ref ev) (pClient (handle s ! i)) e s = Some (called, s')"
    for i ev e called s'
  proof -
    obtain t d args where s1: "callback (cb_ref ev) (pClient (handle s ! i)) args (s\<lparr>topic_buf := t, data_buf := d\<rparr>) = Some called"
      using m by (auto simp: message_cb_def Let_def split: bind_splits)
    then have "callback (cb_ref ev) (pClient (handle s ! i)) args s = Some called" by (simp add: callback_def cong: if_cong option.case_cong)
    then show ?thesis using callback_expected [OF inv i, of ev args] by (auto split: option.splits)
  qed
  have "reg0 \<subseteq>\<^sub>m registry s" by (rule lmqtt_invD(2) [OF inv])
  then have "\<forall>r f. reg0 r = Some f \<longrightarrow> registry s r = Some f" by (auto simp: map_le_def dom_def)
  then show ?thesis using call msg by (simp add: data_cb_def publish_cb_def refs)
qed

text \<open>An environment with enough memory.\<close>

definition sample_env :: "u32 list lmqtt_env" where
  "sample_env = \<lparr>new_ref = next_ref, num_text = (\<lambda>n. ''0''), text_num = (\<lambda>t. None), qsend = list_send, new_queue = [],
     settings_malloc = True, client_malloc = Some 100, in_mem = replicate 1024 0, out_mem = replicate 1024 0,
     ring_mem = replicate 4096 0, beyond = (\<lambda>h. replicate 64 0)\<rparr>"

lemma sample_env_ok: "env_ok sample_env"
  by (simp add: env_ok_def sample_env_def next_ref_laws)

definition sample_new :: "lua_value list" where
  "sample_new = [Lua_string ''broker'', Lua_string ''node'', Lua_integer 60, Lua_function 7]"

definition sample_on :: "lua_value list" where
  "sample_on = [Lua_integer 0, Lua_string ''data'', Lua_function 9]"

text \<open>The state after these two calls, in which the client is c.\<close>

definition sample_entry :: mqtt_t where
  "sample_entry = \<lparr>pClient = 100, cb_ref_data = 2, cb_ref_connect = 1, cb_ref_disconnect = LUA_NOREF, cb_ref_publish = LUA_NOREF,
     cb_ref_reconnect = LUA_NOREF, cb_ref_subscribe = LUA_NOREF\<rparr>"

definition sample_lua :: "u32 list mqtt_client \<Rightarrow> mqtt_settings \<Rightarrow> u32 list lmqtt_state" where
  "sample_lua c st = (lmqtt_boot Map.empty)\<lparr>handle := (handle (lmqtt_boot Map.empty :: u32 list lmqtt_state))[0 := sample_entry],
     registry := [1 \<mapsto> 7, 2 \<mapsto> 9], client_at := 100, settings := Some st,
     module := \<lparr>instance_of = Some \<lparr>client = c, pc = Connecting, sending = False, socket_fd = 0, open_socks = []\<rparr>,
       xMqttTask = True, task_runs = True\<rparr>\<rparr>"

lemma sample_calls:
  "\<exists>c st s1. mqtt_start (replicate 1024 0) (replicate 1024 0) (replicate 4096 0) ([] :: u32 list) 60 = Some c \<and>
     lmqtt_new sample_env sample_new (lmqtt_boot Map.empty) = Some (Inr [Lua_integer 0], s1) \<and>
     lmqtt_on sample_env sample_on s1 = Some (Inr [], sample_lua c st) \<and> xMqttTask (module s1)"
proof -
  obtain c where c: "mqtt_start (replicate 1024 0) (replicate 1024 0) (replicate 4096 0) ([] :: u32 list) 60 = Some c"
    using sample_started by auto
  have n: "next_ref (Map.empty :: int \<rightharpoonup> nat) = 1" "next_ref [1 \<mapsto> 7 :: nat] = 2" by (simp_all add: next_ref_def)
  let ?st = "make_settings sample_env ''broker'' ''node'' 60 None None"
  let ?s1 = "(sample_lua c ?st)\<lparr>handle := (handle (lmqtt_boot Map.empty :: u32 list lmqtt_state))[0 := sample_entry\<lparr>cb_ref_data := LUA_NOREF\<rparr>],
    registry := [1 \<mapsto> 7]\<rparr>"
  let ?h = "sample_entry\<lparr>cb_ref_data := LUA_NOREF\<rparr>"
  let ?s0 = "(lmqtt_boot Map.empty)\<lparr>handle := (handle (lmqtt_boot Map.empty :: u32 list lmqtt_state))[0 := ?h\<lparr>pClient := 0\<rparr>],
    registry := [1 \<mapsto> 7]\<rparr>"
  have e: "new_entry sample_env (Lua_function 7) (handle (lmqtt_boot Map.empty :: u32 list lmqtt_state) ! 0) Map.empty = (?h\<lparr>pClient := 0\<rparr>, [1 \<mapsto> 7])"
    by (simp add: new_entry_def replace_ref_def luaL_ref_def drop_ref_def set_cb.simps sample_env_def n lmqtt_boot_def
        no_refs_def sample_entry_def numeral_3_eq_3)
  have f: "free_slot (handle (lmqtt_boot Map.empty :: u32 list lmqtt_state)) = Some 0" by (simp add: lmqtt_boot_def numeral_3_eq_3)
  have m: "settings_malloc sample_env" "client_malloc sample_env = Some 100" "in_mem sample_env = replicate 1024 0"
    "out_mem sample_env = replicate 1024 0" "ring_mem sample_env = replicate 4096 0" "new_queue sample_env = []"
    by (simp_all add: sample_env_def)
  have st: "set_keepalive ?st = 60" by (simp add: make_settings_def)
  have b: "module (lmqtt_boot Map.empty :: u32 list lmqtt_state) = \<lparr>instance_of = None, xMqttTask = False, task_runs = False\<rparr>"
    "registry (lmqtt_boot Map.empty :: u32 list lmqtt_state) = Map.empty"
    by (simp_all add: lmqtt_boot_def)
  have fin: "new_finish sample_env 0 (?h\<lparr>pClient := 0\<rparr>) ''broker'' ''node'' 60 None None ?s0 = Some (Inr [Lua_integer 0], ?s1)"
    by (simp add: new_finish_def start_client_def m b module_start_def c st c_string_def sample_lua_def sample_entry_def)
  have "lmqtt_new sample_env sample_new (lmqtt_boot Map.empty) = Some (Inr [Lua_integer 0], ?s1)"
    unfolding lmqtt_new_eq f using e fin
    by (simp add: sample_new_def with_string_def with_unsigned_def lua_tolstring_def luaL_checkinteger_def b lua_arg_def)
  moreover have "lmqtt_on sample_env sample_on ?s1 = Some (Inr [], sample_lua c ?st)"
    by (simp add: lmqtt_on_def sample_on_def with_client_def with_string_def with_unsigned_def lua_tolstring_def
        luaL_checkinteger_def lmqtt_boot_def sample_entry_def sample_lua_def replace_ref_def luaL_ref_def drop_ref_def
        sample_env_def n get_at_def lua_arg_def)
  ultimately show ?thesis using c by (intro exI [of _ c] exI [of _ ?st] exI [of _ ?s1]) (simp add: sample_lua_def)
qed

lemma lua_mqtt_callbacks_witness:
  "\<exists>s cbs. lmqtt_run Map.empty (s :: u32 list lmqtt_state) cbs \<and> connected_cb 100 s = Some (Some (Some 7, [])) \<and> cbs 0 On_data = Some 9"
proof -
  obtain c st s1 where c: "lmqtt_new sample_env sample_new (lmqtt_boot Map.empty) = Some (Inr [Lua_integer 0], s1)"
    "lmqtt_on sample_env sample_on s1 = Some (Inr [], sample_lua c st)" "xMqttTask (module s1)"
    using sample_calls by blast
  let ?cb1 = "(\<lambda>(i :: nat) ev. None)(0 := (\<lambda>ev. if ev = On_connect then Some (7 :: nat) else None))"
  let ?cb2 = "?cb1(0 := (?cb1 0)(On_data := Some 9))"
  have a: "fn_arg (lua_arg sample_new 4) = Some 7" "\<not> xMqttTask (module (lmqtt_boot Map.empty :: u32 list lmqtt_state))"
    "fn_arg (lua_arg sample_on 3) = Some 9" "arg_handle sample_env sample_on = 0"
    "event_of (arg_text sample_env sample_on 2) = Some On_data"
    by (simp_all add: sample_new_def sample_on_def fn_arg_def lua_arg_def lmqtt_boot_def arg_handle_def arg_text_def
        luaL_checkinteger_def lua_tolstring_def event_of_def events_def)
  have r1: "lmqtt_run Map.empty s1 ?cb1"
    using lmqtt_run.call [OF lmqtt_run.boot [of Map.empty] sample_env_ok, where op = "New sample_new" and r = "Inr [Lua_integer 0]" and s' = s1] c(1,3)
    by (simp add: lmqtt_do_def spec_step_def a cong: if_cong)
  have r2: "lmqtt_run Map.empty (sample_lua c st) ?cb2"
    using lmqtt_run.call [OF r1 sample_env_ok, where op = "On sample_on" and r = "Inr []" and s' = "sample_lua c st"] c(2)
    by (simp add: lmqtt_do_def spec_step_def a cong: if_cong)
  have h: "pClient (handle (sample_lua c st) ! 0) = 100" by (simp add: sample_lua_def lmqtt_boot_def sample_entry_def)
  from lua_mqtt_callbacks [OF _ r2] have "connected_cb 100 (sample_lua c st) = Some (Some (Some 7, []))"
    using h by fastforce
  with r2 show ?thesis by fastforce
qed

section \<open>From script to script\<close>

lemma string_of_bytes [simp]: "string_of (bytes_of t) = t"
proof -
  have "char_of (unat (of_nat (of_char c) :: u8)) = c" for c
    by (simp add: unat_of_nat)
  then show ?thesis by (simp add: string_of_def bytes_of_def o_def)
qed

lemma length_bytes_of [simp]: "length (bytes_of t) = length t"
  by (simp add: bytes_of_def)







end
