(* ===== verification/Utils_Crc.thy ===== *)
theory Utils_Crc
  imports LN_Prelude
begin

unbundle bit_operations_syntax

text \<open>
  The checksums of utils/crc16.c and utils/crc8.c. The definitions are the table driven loops of the
  code; the reference is division by the generator polynomial, one bit at a time, with no table.
  Reading outside the buffer is the value None.
\<close>

section \<open>The code\<close>

definition crc16tab :: "u16 list" where
  "crc16tab = [
     0x0000, 0x1021, 0x2042, 0x3063, 0x4084, 0x50a5, 0x60c6, 0x70e7,
     0x8108, 0x9129, 0xa14a, 0xb16b, 0xc18c, 0xd1ad, 0xe1ce, 0xf1ef,
     0x1231, 0x0210, 0x3273, 0x2252, 0x52b5, 0x4294, 0x72f7, 0x62d6,
     0x9339, 0x8318, 0xb37b, 0xa35a, 0xd3bd, 0xc39c, 0xf3ff, 0xe3de,
     0x2462, 0x3443, 0x0420, 0x1401, 0x64e6, 0x74c7, 0x44a4, 0x5485,
     0xa56a, 0xb54b, 0x8528, 0x9509, 0xe5ee, 0xf5cf, 0xc5ac, 0xd58d,
     0x3653, 0x2672, 0x1611, 0x0630, 0x76d7, 0x66f6, 0x5695, 0x46b4,
     0xb75b, 0xa77a, 0x9719, 0x8738, 0xf7df, 0xe7fe, 0xd79d, 0xc7bc,
     0x48c4, 0x58e5, 0x6886, 0x78a7, 0x0840, 0x1861, 0x2802, 0x3823,
     0xc9cc, 0xd9ed, 0xe98e, 0xf9af, 0x8948, 0x9969, 0xa90a, 0xb92b,
     0x5af5, 0x4ad4, 0x7ab7, 0x6a96, 0x1a71, 0x0a50, 0x3a33, 0x2a12,
     0xdbfd, 0xcbdc, 0xfbbf, 0xeb9e, 0x9b79, 0x8b58, 0xbb3b, 0xab1a,
     0x6ca6, 0x7c87, 0x4ce4, 0x5cc5, 0x2c22, 0x3c03, 0x0c60, 0x1c41,
     0xedae, 0xfd8f, 0xcdec, 0xddcd, 0xad2a, 0xbd0b, 0x8d68, 0x9d49,
     0x7e97, 0x6eb6, 0x5ed5, 0x4ef4, 0x3e13, 0x2e32, 0x1e51, 0x0e70,
     0xff9f, 0xefbe, 0xdfdd, 0xcffc, 0xbf1b, 0xaf3a, 0x9f59, 0x8f78,
     0x9188, 0x81a9, 0xb1ca, 0xa1eb, 0xd10c, 0xc12d, 0xf14e, 0xe16f,
     0x1080, 0x00a1, 0x30c2, 0x20e3, 0x5004, 0x4025, 0x7046, 0x6067,
     0x83b9, 0x9398, 0xa3fb, 0xb3da, 0xc33d, 0xd31c, 0xe37f, 0xf35e,
     0x02b1, 0x1290, 0x22f3, 0x32d2, 0x4235, 0x5214, 0x6277, 0x7256,
     0xb5ea, 0xa5cb, 0x95a8, 0x8589, 0xf56e, 0xe54f, 0xd52c, 0xc50d,
     0x34e2, 0x24c3, 0x14a0, 0x0481, 0x7466, 0x6447, 0x5424, 0x4405,
     0xa7db, 0xb7fa, 0x8799, 0x97b8, 0xe75f, 0xf77e, 0xc71d, 0xd73c,
     0x26d3, 0x36f2, 0x0691, 0x16b0, 0x6657, 0x7676, 0x4615, 0x5634,
     0xd94c, 0xc96d, 0xf90e, 0xe92f, 0x99c8, 0x89e9, 0xb98a, 0xa9ab,
     0x5844, 0x4865, 0x7806, 0x6827, 0x18c0, 0x08e1, 0x3882, 0x28a3,
     0xcb7d, 0xdb5c, 0xeb3f, 0xfb1e, 0x8bf9, 0x9bd8, 0xabbb, 0xbb9a,
     0x4a75, 0x5a54, 0x6a37, 0x7a16, 0x0af1, 0x1ad0, 0x2ab3, 0x3a92,
     0xfd2e, 0xed0f, 0xdd6c, 0xcd4d, 0xbdaa, 0xad8b, 0x9de8, 0x8dc9,
     0x7c26, 0x6c07, 0x5c64, 0x4c45, 0x3ca2, 0x2c83, 0x1ce0, 0x0cc1,
     0xef1f, 0xff3e, 0xcf5d, 0xdf7c, 0xaf9b, 0xbfba, 0x8fd9, 0x9ff8,
     0x6e17, 0x7e36, 0x4e55, 0x5e74, 0x2e93, 0x3eb2, 0x0ed1, 0x1ef0]"

definition crc16_step :: "u16 \<Rightarrow> u8 \<Rightarrow> u16" where
  "crc16_step crc b = push_bit 8 crc XOR crc16tab ! unat (ucast (drop_bit 8 crc) XOR b)"

definition crc16_ccitt :: "u16 \<Rightarrow> u8 list \<Rightarrow> int \<Rightarrow> u16 option" where
  "crc16_ccitt initial_crc buf len =
     (if nat len \<le> length buf then Some (fold (\<lambda>b crc. crc16_step crc b) (take (nat len) buf) initial_crc) else None)"

definition crc8_small_table :: "u8 list" where
  "crc8_small_table = [0x00, 0x07, 0x0e, 0x09, 0x1c, 0x1b, 0x12, 0x15,
     0x38, 0x3f, 0x36, 0x31, 0x24, 0x23, 0x2a, 0x2d]"

definition crc8_init :: u8 where
  "crc8_init = 0xff"

definition crc8_step :: "u8 \<Rightarrow> u8 \<Rightarrow> u8" where
  "crc8_step val b =
     (let v = val XOR b;
          v = push_bit 4 v XOR crc8_small_table ! unat (drop_bit 4 v)
      in push_bit 4 v XOR crc8_small_table ! unat (drop_bit 4 v))"

definition crc8_calc :: "u8 \<Rightarrow> u8 list \<Rightarrow> int \<Rightarrow> u8 option" where
  "crc8_calc val buf cnt =
     (if nat cnt \<le> length buf then Some (fold (\<lambda>b v. crc8_step v b) (take (nat cnt) buf) val) else None)"

section \<open>The reference: bit by bit division\<close>

definition crc_shift :: "'a::len word \<Rightarrow> 'a word \<Rightarrow> 'a word" where
  "crc_shift poly c = (if bit c (LENGTH('a) - 1) then push_bit 1 c XOR poly else push_bit 1 c)"

lemma crc_shift_xor: "crc_shift p (a XOR b) = crc_shift p a XOR crc_shift p b"
  by (rule bit_word_eqI) (auto simp: crc_shift_def bit_simps)

lemma crc_shift_pow_xor: "(crc_shift p ^^ n) (a XOR b) = (crc_shift p ^^ n) a XOR (crc_shift p ^^ n) b"
  by (induction n arbitrary: a b) (simp_all add: crc_shift_xor)

lemma crc_shift_low:
  assumes "\<And>i. i < LENGTH('a) \<Longrightarrow> LENGTH('a) - n \<le> i \<Longrightarrow> \<not> bit (c :: 'a::len word) i"
  shows "(crc_shift p ^^ n) c = push_bit n c"
  using assms
proof (induction n)
  case (Suc n)
  have "(crc_shift p ^^ n) c = push_bit n c" by (rule Suc.IH) (use Suc.prems in auto)
  moreover have "\<not> bit (push_bit n c) (LENGTH('a) - 1)"
    using Suc.prems [of "LENGTH('a) - Suc n"] by (auto simp: bit_simps)
  ultimately show ?case
    unfolding funpow.simps comp_apply crc_shift_def [of p "(crc_shift p ^^ n) c"] by (simp only: push_bit_push_bit) simp
qed simp

lemma crc_shift_inj:
  assumes "bit p 0" shows "inj (crc_shift p :: 'a::len word \<Rightarrow> 'a word)"
proof (rule injI)
  fix a b :: "'a word" assume e: "crc_shift p a = crc_shift p b"
  have z: "bit (crc_shift p c) 0 = bit c (LENGTH('a) - 1)" for c :: "'a word"
    using assms unfolding crc_shift_def by (simp only: bit_xor_iff bit_push_bit_iff split: if_split) simp
  have top: "bit a (LENGTH('a) - 1) = bit b (LENGTH('a) - 1)" using z [of a] z [of b] e by simp
  have sh: "push_bit 1 a = push_bit 1 b"
  proof -
    have "push_bit 1 c = crc_shift p c XOR (if bit c (LENGTH('a) - 1) then p else 0)" for c :: "'a word"
      by (simp add: crc_shift_def xor.assoc)
    then show ?thesis using e top by metis
  qed
  show "a = b"
  proof (rule bit_word_eqI)
    fix n assume n: "n < LENGTH('a)"
    show "bit a n = bit b n"
    proof (cases "n = LENGTH('a) - 1")
      case False
      with n have "bit (push_bit 1 a) (Suc n) = bit (push_bit 1 b) (Suc n)" by (simp only: sh)
      then show ?thesis using False n by (simp only: bit_push_bit_iff possible_bit_word) auto
    qed (use top in simp)
  qed
qed


definition crc_bit :: "'a::len word \<Rightarrow> bool \<Rightarrow> 'a word \<Rightarrow> 'a word" where
  "crc_bit poly b c = (if bit c (LENGTH('a) - 1) \<noteq> b then push_bit 1 c XOR poly else push_bit 1 c)"

definition msb_bits :: "u8 \<Rightarrow> bool list" where
  "msb_bits b = map (bit b) [7, 6, 5, 4, 3, 2, 1, 0]"

lemma length_msb_bits [simp]: "length (msb_bits b) = 8"
  by (simp add: msb_bits_def)

fun top_word :: "bool list \<Rightarrow> 'a::len word" where
  "top_word [] = 0"
| "top_word (b # bs) = (if b then push_bit (LENGTH('a) - 1) 1 else 0) XOR drop_bit 1 (top_word bs)"

lemma bit_top_word:
  "length bs \<le> LENGTH('a) \<Longrightarrow> bit (top_word bs :: 'a::len word) n \<longleftrightarrow>
     n < LENGTH('a) \<and> LENGTH('a) - 1 - n < length bs \<and> bs ! (LENGTH('a) - 1 - n)"
proof (induction bs arbitrary: n)
  case (Cons b bs)
  have IH: "bit (top_word bs :: 'a word) m \<longleftrightarrow>
     m < LENGTH('a) \<and> LENGTH('a) - 1 - m < length bs \<and> bs ! (LENGTH('a) - 1 - m)" for m
    using Cons.IH [of m] Cons.prems by simp
  show ?case
  proof (cases "n = LENGTH('a) - 1")
    case True
    then show ?thesis using IH [of "Suc n"] by (auto simp: bit_simps bit_1_iff)
  next
    case False
    then show ?thesis using IH [of "Suc n"] bit_imp_le_length [of "top_word bs :: 'a word" "Suc n"]
      bit_imp_le_length [of "top_word (b # bs) :: 'a word" n]
      by (cases "n < LENGTH('a)") (auto simp: bit_simps bit_1_iff nth_Cons' diff_right_commute)
  qed
qed simp

lemma crc_bit_shift:
  "crc_bit p b c = crc_shift p (c XOR (if b then push_bit (LENGTH('a) - 1) 1 else 0))" (is "_ = crc_shift p ?c")
  for c :: "'a::len word"
proof -
  have "push_bit 1 (c XOR push_bit (LENGTH('a) - 1) 1) = push_bit 1 c"
    by (rule bit_word_eqI) (auto simp only: bit_push_bit_iff bit_xor_iff bit_1_iff)
  then show ?thesis by (auto simp: crc_bit_def crc_shift_def bit_simps bit_1_iff)
qed

lemma crc_shift_top:
  "length bs \<le> LENGTH('a) \<Longrightarrow> (crc_shift p ^^ length bs) (c XOR top_word bs) = fold (crc_bit p) bs c"
  for c :: "'a::len word"
proof (induction bs arbitrary: c)
  case (Cons b bs)
  let ?t = "if b then push_bit (LENGTH('a) - 1) 1 else 0 :: 'a word" and ?w = "top_word bs :: 'a word"
  have w: "bit ?w n \<longleftrightarrow> n < LENGTH('a) \<and> LENGTH('a) - 1 - n < length bs \<and> bs ! (LENGTH('a) - 1 - n)" for n
    using bit_top_word [of bs n, where ?'a = 'a] Cons.prems by simp
  have "\<not> bit (drop_bit 1 ?w) (LENGTH('a) - 1)" using bit_imp_le_length by (fastforce simp: bit_simps)
  then have "crc_shift p (drop_bit 1 ?w) = push_bit 1 (drop_bit 1 ?w)" by (simp add: crc_shift_def)
  also have "\<dots> = ?w"
  proof (rule bit_word_eqI)
    fix n assume n: "n < LENGTH('a)"
    have "\<not> bit ?w 0" using w [of 0] Cons.prems by auto
    then show "bit (push_bit 1 (drop_bit 1 ?w)) n = bit ?w n" using n
      by (cases n) (simp_all only: bit_push_bit_iff bit_drop_bit_eq comp_apply possible_bit_word, simp_all)
  qed
  finally have "crc_shift p (c XOR top_word (b # bs)) = crc_bit p b c XOR ?w"
    by (simp add: crc_bit_shift crc_shift_xor flip: xor.assoc)
  moreover have "(crc_shift p ^^ Suc (length bs)) x = (crc_shift p ^^ length bs) (crc_shift p x)" for x
    by (simp only: funpow_Suc_right comp_apply)
  ultimately show ?case using Cons.IH [of "crc_bit p b c"] Cons.prems by simp
qed simp

lemma set_upt_16:
  "n \<in> set [0..<16] \<Longrightarrow> (n = 0 \<Longrightarrow> P) \<Longrightarrow> (n = 1 \<Longrightarrow> P) \<Longrightarrow> (n = 2 \<Longrightarrow> P) \<Longrightarrow> (n = 3 \<Longrightarrow> P) \<Longrightarrow> (n = 4 \<Longrightarrow> P) \<Longrightarrow>
    (n = 5 \<Longrightarrow> P) \<Longrightarrow> (n = 6 \<Longrightarrow> P) \<Longrightarrow> (n = 7 \<Longrightarrow> P) \<Longrightarrow> (n = 8 \<Longrightarrow> P) \<Longrightarrow> (n = 9 \<Longrightarrow> P) \<Longrightarrow> (n = 10 \<Longrightarrow> P) \<Longrightarrow>
    (n = 11 \<Longrightarrow> P) \<Longrightarrow> (n = 12 \<Longrightarrow> P) \<Longrightarrow> (n = 13 \<Longrightarrow> P) \<Longrightarrow> (n = 14 \<Longrightarrow> P) \<Longrightarrow> (n = 15 \<Longrightarrow> P) \<Longrightarrow> P"
  by (simp add: upt_rec numeral_nat) blast

lemma top_word_msb_16: "top_word (msb_bits b) = (push_bit 8 (ucast b) :: u16)"
proof (rule bit_word_eqI)
  fix n assume "n < LENGTH(16)"
  then have "n \<in> set [0..<16]" by simp
  then show "bit (top_word (msb_bits b) :: u16) n = bit (push_bit 8 (ucast b) :: u16) n"
    by (subst bit_top_word, simp add: msb_bits_def)
      (elim set_upt_16, simp_all only: bit_push_bit_iff bit_ucast_iff possible_bit_word msb_bits_def, simp_all)
qed

lemma top_word_msb_8: "top_word (msb_bits b) = b"
proof (rule bit_word_eqI)
  fix n assume "n < LENGTH(8)"
  then have "n \<in> set [0..<8]" by simp
  then show "bit (top_word (msb_bits b) :: u8) n = bit b n"
    by (subst bit_top_word) (auto simp: msb_bits_def bit_simps upt_rec numeral_nat)
qed

section \<open>The tables are the reference\<close>

text \<open>The table of k+1 bit numbers is made from that of k bit numbers: shift each entry, without and with one more bit.\<close>

definition crc_double :: "'a::len word \<Rightarrow> 'a word list \<Rightarrow> 'a word list" where
  "crc_double p cs = concat (map (\<lambda>c. [crc_shift p c, crc_shift p c XOR p]) cs)"

definition crc_entry :: "'a::len word \<Rightarrow> nat \<Rightarrow> nat \<Rightarrow> 'a word" where
  "crc_entry p k n = (crc_shift p ^^ k) (push_bit (LENGTH('a) - k) (of_nat n))"

lemma crc_entry_even: "k < LENGTH('a) \<Longrightarrow> crc_entry p (Suc k) (2 * n) = crc_shift p (crc_entry p k n)"
  for p :: "'a::len word"
proof -
  assume k: "k < LENGTH('a)"
  have "push_bit (LENGTH('a) - Suc k) (of_nat (2 * n) :: 'a word) = push_bit (LENGTH('a) - Suc k) (push_bit 1 (of_nat n))"
    by (simp add: mult.commute)
  also have "\<dots> = push_bit (LENGTH('a) - k) (of_nat n)"
    using k by (simp only: push_bit_push_bit) (simp add: Suc_diff_Suc)
  finally show ?thesis by (simp add: crc_entry_def)
qed

lemma crc_entry_odd:
  fixes p :: "'a::len word"
  assumes "k < LENGTH('a)"
  shows "crc_entry p (Suc k) (2 * n + 1) = crc_shift p (crc_entry p k n) XOR p"
proof -
  have n: "of_nat (2 * n + 1) = (of_nat (2 * n) XOR 1 :: 'a word)"
    by (rule bit_word_eqI) (auto simp: bit_simps bit_1_iff bit_double_iff even_bit_succ_iff)
  have "crc_entry p (Suc k) 1 = p"
  proof -
    have "(crc_shift p ^^ k) (push_bit (LENGTH('a) - Suc k) 1) = push_bit k (push_bit (LENGTH('a) - Suc k) (1 :: 'a word))"
      using assms by (intro crc_shift_low) (auto simp: bit_simps bit_1_iff)
    also have "\<dots> = push_bit (LENGTH('a) - 1) 1"
      using assms by (simp only: push_bit_push_bit) simp
    finally have "crc_entry p (Suc k) 1 = crc_shift p (push_bit (LENGTH('a) - 1) 1)"
      unfolding crc_entry_def by simp
    moreover have "push_bit 1 (push_bit (LENGTH('a) - 1) 1) = (0 :: 'a word)"
      by (rule bit_word_eqI) (auto simp only: bit_push_bit_iff bit_1_iff bit_0_eq bot_apply bot_bool_def)
    ultimately show ?thesis
      unfolding crc_shift_def by (simp only: bit_push_bit_iff bit_1_iff possible_bit_word) simp
  qed
  moreover have "crc_entry p (Suc k) (2 * n + 1) = crc_entry p (Suc k) (2 * n) XOR crc_entry p (Suc k) 1"
    unfolding crc_entry_def n push_bit_xor crc_shift_pow_xor by simp
  ultimately show ?thesis using crc_entry_even [OF assms] by simp
qed

lemma crc_entry_double:
  fixes p :: "'a::len word"
  assumes "k < LENGTH('a)"
  shows "map (crc_entry p (Suc k)) [0..<2 * m] = crc_double p (map (crc_entry p k) [0..<m])"
proof (induction m)
  case (Suc m)
  have "[0..<2 * Suc m] = [0..<2 * m] @ [2 * m, 2 * m + 1]" by simp
  then show ?case using Suc crc_entry_even [OF assms, of p m] crc_entry_odd [OF assms, of p m]
    by (simp add: crc_double_def)
qed (simp add: crc_double_def)

lemma crc_table:
  fixes p :: "'a::len word"
  shows "k \<le> LENGTH('a) \<Longrightarrow> map (crc_entry p k) [0..<2 ^ k] = (crc_double p ^^ k) [0]"
proof (induction k)
  case (Suc k)
  then show ?case using crc_entry_double [of k p "2 ^ k"] by simp
qed (simp add: crc_entry_def)

lemma pow8: "(f ^^ 8) x = f (f (f (f (f (f (f (f x)))))))"
  by (simp add: numeral_nat)

lemma crc16tab_entry: "map (crc_entry 0x1021 8) [0..<256] = crc16tab"
proof -
  have "(crc_double 0x1021 ^^ 8) [0] = crc16tab"
    by (simp add: pow8 crc_double_def crc_shift_def crc16tab_def)
  then show ?thesis using crc_table [of 8 "0x1021 :: u16"] by simp
qed

lemma crc8_table_entry: "map (crc_entry 7 4) [0..<16] = crc8_small_table"
  using crc_table [of 4 "7 :: u8"] by (simp add: numeral_nat crc_double_def crc_shift_def crc8_small_table_def)


lemma crc16_split: "c XOR push_bit 8 (ucast (b :: u8)) = push_bit 8 (ucast ((ucast (drop_bit 8 c) XOR b) :: u8)) XOR (c AND 0xFF)"
  for c :: u16
proof (rule bit_word_eqI)
  fix n assume "n < LENGTH(16)"
  then have "n \<in> set [0..<16]" by simp
  then show "bit (c XOR push_bit 8 (ucast b)) n =
      bit (push_bit 8 (ucast ((ucast (drop_bit 8 c) XOR b) :: u8)) XOR (c AND 0xFF)) n"
    by (elim set_upt_16, simp_all add: bit_simps)
qed

lemma crc16_step_shift: "crc16_step c b = (crc_shift 0x1021 ^^ 8) (c XOR push_bit 8 (ucast b))"
proof -
  let ?i = "ucast (drop_bit 8 c) XOR b :: u8"
  have "(crc_shift 0x1021 ^^ 8) (c AND 0xFF) = push_bit 8 (c AND 0xFF)"
  proof (rule crc_shift_low)
    fix i assume "i < LENGTH(16)" "LENGTH(16) - 8 \<le> i"
    then show "\<not> bit (c AND 0xFF) i" using bit_take_bit_iff [of 8 c i] by (simp add: take_bit_eq_mask mask_numeral)
  qed
  moreover have "push_bit 8 (c AND 0xFF) = push_bit 8 c"
  proof (rule bit_word_eqI)
    fix n assume "n < LENGTH(16)"
    then have "n \<in> set [0..<16]" by simp
    then show "bit (push_bit 8 (c AND 0xFF)) n = bit (push_bit 8 c) n"
      by (elim set_upt_16, simp_all add: bit_simps)
  qed
  moreover have "crc16tab ! unat ?i = (crc_shift 0x1021 ^^ 8) (push_bit 8 (ucast ?i))"
  proof -
    have "unat ?i < 256" using unsigned_less [of ?i, where ?'a = nat] by simp
    then have "crc16tab ! unat ?i = crc_entry 0x1021 8 (unat ?i)" unfolding crc16tab_entry [symmetric] by simp
    then show ?thesis by (simp add: crc_entry_def)
  qed
  ultimately show ?thesis unfolding crc16_split crc_shift_pow_xor crc16_step_def by (simp add: xor.commute)
qed

lemma crc16_step_bits: "crc16_step c b = fold (crc_bit 0x1021) (msb_bits b) c"
  using crc_shift_top [of "msb_bits b" "0x1021 :: u16" c] by (simp add: crc16_step_shift top_word_msb_16)

lemma crc8_half: "push_bit 4 v XOR crc8_small_table ! unat (drop_bit 4 v) = (crc_shift 7 ^^ 4) v" for v :: u8
proof -
  let ?i = "unat (drop_bit 4 v)"
  have "?i < 16" using unsigned_less [of v, where ?'a = nat] unfolding unat_drop_bit by simp
  then have "crc8_small_table ! ?i = crc_entry 7 4 ?i" unfolding crc8_table_entry [symmetric] by simp
  then have t: "crc8_small_table ! ?i = (crc_shift 7 ^^ 4) (push_bit 4 (drop_bit 4 v))" by (simp add: crc_entry_def)
  have "(crc_shift 7 ^^ 4) (take_bit 4 v) = push_bit 4 (take_bit 4 v)"
    by (rule crc_shift_low) (simp add: bit_simps)
  moreover have "push_bit 4 (take_bit 4 v) = push_bit 4 v"
    by (rule bit_word_eqI) (auto simp: bit_simps)
  moreover have "v = take_bit 4 v XOR push_bit 4 (drop_bit 4 v)"
    by (rule bit_word_eqI) (auto simp: bit_simps)
  ultimately show ?thesis using t crc_shift_pow_xor [of 4 7 "take_bit 4 v" "push_bit 4 (drop_bit 4 v)"] by simp
qed

lemma crc8_step_shift: "crc8_step c b = (crc_shift 7 ^^ 8) (c XOR b)"
proof -
  have "(crc_shift 7 ^^ 8) (c XOR b) = (crc_shift 7 ^^ 4) ((crc_shift 7 ^^ 4) (c XOR b))"
    using funpow_add [of 4 4 "crc_shift (7 :: u8)"] by simp
  then show ?thesis by (simp add: crc8_step_def Let_def crc8_half)
qed

lemma crc8_step_bits: "crc8_step c b = fold (crc_bit 7) (msb_bits b) c"
  using crc_shift_top [of "msb_bits b" "7 :: u8" c] by (simp add: crc8_step_shift top_word_msb_8)


section \<open>What a checksum promises\<close>

text \<open>
  A register that takes one byte at a time, where neither the register nor the byte can be changed
  without changing the result.
\<close>

locale checksum =
  fixes step :: "'c \<Rightarrow> u8 \<Rightarrow> 'c"
  assumes inj_register: "step c b = step c' b \<Longrightarrow> c = c'"
    and inj_byte: "step c b = step c b' \<Longrightarrow> b = b'"
begin

definition run :: "'c \<Rightarrow> u8 list \<Rightarrow> 'c" where
  "run c bs = fold (\<lambda>b c. step c b) bs c"

lemma run_append: "run c (xs @ ys) = run (run c xs) ys"
  by (simp add: run_def)

lemma run_inj: "run c xs = run c' xs \<Longrightarrow> c = c'"
  by (induction xs arbitrary: c c') (auto simp: run_def dest: inj_register)

lemma run_detects: "run c (xs @ [b] @ ys) = run c (xs @ [b'] @ ys) \<longleftrightarrow> b = b'"
proof
  assume "run c (xs @ [b] @ ys) = run c (xs @ [b'] @ ys)"
  then have "run (run c xs) [b] = run (run c xs) [b']" unfolding run_append by (rule run_inj)
  then show "b = b'" by (auto simp: run_def dest: inj_byte)
qed simp

end

lemma funpow_inj: "inj f \<Longrightarrow> inj (f ^^ n)" for f :: "'a \<Rightarrow> 'a"
proof (induction n)
  case (Suc n)
  then show ?case using inj_compose [of f "f ^^ n"] by (simp add: comp_def)
qed simp

lemma xor_cancel: "a XOR b = a XOR c \<longleftrightarrow> b = c" "b XOR a = c XOR a \<longleftrightarrow> b = c" for a b c :: "'a::len word"
  by (metis xor.assoc xor_self_eq xor.left_neutral, metis xor.assoc xor_self_eq xor.right_neutral)

lemma crc16_shift_inj: "(crc_shift 0x1021 ^^ n) a = (crc_shift 0x1021 ^^ n) b \<Longrightarrow> a = (b :: u16)"
  using funpow_inj [OF crc_shift_inj [of "0x1021 :: u16"], of n] by (auto simp: inj_def)

lemma crc8_shift_inj: "(crc_shift 7 ^^ n) a = (crc_shift 7 ^^ n) b \<Longrightarrow> a = (b :: u8)"
  using funpow_inj [OF crc_shift_inj [of "7 :: u8"], of n] by (auto simp: inj_def)

lemma push_ucast_inj: "push_bit 8 (ucast b :: u16) = push_bit 8 (ucast b') \<Longrightarrow> b = (b' :: u8)"
proof (rule bit_word_eqI)
  fix n assume e: "push_bit 8 (ucast b :: u16) = push_bit 8 (ucast b')" and n: "n < LENGTH(8)"
  have "bit (push_bit 8 (ucast b) :: u16) (n + 8) = bit (push_bit 8 (ucast b') :: u16) (n + 8)" by (simp only: e)
  then show "bit b n = bit b' n" using n by (simp only: bit_push_bit_iff bit_ucast_iff possible_bit_word) auto
qed

interpretation c16: checksum crc16_step
  by unfold_locales (auto simp: crc16_step_shift xor_cancel dest!: crc16_shift_inj dest: push_ucast_inj)

interpretation c8: checksum crc8_step
  by unfold_locales (auto simp: crc8_step_shift xor_cancel dest!: crc8_shift_inj)

lemma crc16_run: "crc16_ccitt c xs (int (length xs)) = Some (c16.run c xs)"
  by (simp add: crc16_ccitt_def c16.run_def)

lemma crc8_run: "crc8_calc c xs (int (length xs)) = Some (c8.run c xs)"
  by (simp add: crc8_calc_def c8.run_def)

lemma c16_bits: "c16.run c xs = fold (crc_bit 0x1021) (concat (map msb_bits xs)) c"
  by (induction xs arbitrary: c) (simp_all add: c16.run_def crc16_step_bits)

lemma c8_bits: "c8.run c xs = fold (crc_bit 7) (concat (map msb_bits xs)) c"
  by (induction xs arbitrary: c) (simp_all add: c8.run_def crc8_step_bits)

lemma be16_xor: "be16 a b = push_bit 8 (ucast a) XOR ucast b"
  by (rule bit_word_eqI) (auto simp: be16_def bit_simps dest: bit_imp_le_length)

lemma c16_pair: "c16.run c [a, b] = (crc_shift 0x1021 ^^ 16) (c XOR be16 a b)"
proof -
  have "push_bit 8 (ucast b :: u16) = (crc_shift 0x1021 ^^ 8) (ucast b)"
    by (rule crc_shift_low [symmetric]) (auto simp: bit_simps dest: bit_imp_le_length)
  then have "c16.run c [a, b] = (crc_shift 0x1021 ^^ 8) ((crc_shift 0x1021 ^^ 8) (c XOR push_bit 8 (ucast a) XOR ucast b))"
    by (simp add: c16.run_def crc16_step_shift crc_shift_pow_xor xor.assoc)
  also have "\<dots> = (crc_shift 0x1021 ^^ 16) (c XOR push_bit 8 (ucast a) XOR ucast b)"
    using funpow_add [of 8 8 "crc_shift (0x1021 :: u16)"] by simp
  finally show ?thesis by (simp add: be16_xor xor.assoc)
qed

lemma c16_pair_detects:
  assumes "length e = 2" "length e' = 2"
  shows "c16.run c (xs @ e @ ys) = c16.run c (xs @ e' @ ys) \<longleftrightarrow> e = e'"
proof
  assume "c16.run c (xs @ e @ ys) = c16.run c (xs @ e' @ ys)"
  then have r: "c16.run (c16.run c xs) e = c16.run (c16.run c xs) e'"
    unfolding c16.run_append by (rule c16.run_inj)
  obtain a b a' b' where e: "e = [a, b]" "e' = [a', b']"
    using assms by (auto simp: length_Suc_conv numeral_2_eq_2)
  have "be16 a b = be16 a' b'" using r unfolding e c16_pair by (auto simp: xor_cancel dest!: crc16_shift_inj)
  then show "e = e'" unfolding e by (metis hi8_be16 lo8_be16)
qed simp

lemma c16_residue: "c16.run c [hi8 c, lo8 c] = 0"
proof -
  have "(crc_shift p ^^ n) 0 = 0" for n and p :: u16
    by (induction n) (simp_all add: crc_shift_def)
  then show ?thesis by (simp add: c16_pair be16_hi8_lo8)
qed

lemma c8_residue: "c8.run c [c] = 0"
proof -
  have "(crc_shift p ^^ n) 0 = 0" for n and p :: u8
    by (induction n) (simp_all add: crc_shift_def)
  then show ?thesis by (simp add: c8.run_def crc8_step_shift)
qed

section \<open>Properties\<close>

text \<open>C28: With a buffer of at least len bytes crc16_ccitt is the division of the len bytes, most significant bit
  first, by x^16 + x^12 + x^5 + 1; the table holds exactly the remainders it needs, and a shorter buffer is read out of bounds.\<close>

theorem crc16_division:
  "crc16_ccitt c buf len =
     (if nat len \<le> length buf then Some (fold (crc_bit 0x1021) (concat (map msb_bits (take (nat len) buf))) c) else None)"
proof (cases "nat len \<le> length buf")
  case True
  then have "crc16_ccitt c buf len = Some (c16.run c (take (nat len) buf))" by (simp add: crc16_ccitt_def c16.run_def)
  then show ?thesis using True by (simp add: c16_bits)
qed (simp add: crc16_ccitt_def)

text \<open>The checksum of a frame may be computed in parts, a frame followed by its own checksum (high byte first)
  has the checksum 0, and a change of any one or two neighbouring bytes changes the checksum.\<close>

lemma crc16_frame:
  "\<exists>r. crc16_ccitt c xs (int (length xs)) = Some r \<and>
     crc16_ccitt c (xs @ ys) (int (length (xs @ ys))) = crc16_ccitt r ys (int (length ys)) \<and>
     crc16_ccitt c (xs @ [hi8 r, lo8 r]) (int (length xs + 2)) = Some 0 \<and>
     (crc16_ccitt c (xs @ [a, b] @ ys) (int (length xs + 2 + length ys)) =
        crc16_ccitt c (xs @ [a', b'] @ ys) (int (length xs + 2 + length ys)) \<longleftrightarrow> a = a' \<and> b = b')"
  using crc16_run [of c xs] crc16_run [of c "xs @ ys"] crc16_run [of "c16.run c xs" ys]
    crc16_run [of c "xs @ [hi8 (c16.run c xs), lo8 (c16.run c xs)]"] c16_residue [of "c16.run c xs"]
    crc16_run [of c "xs @ [a, b] @ ys"] crc16_run [of c "xs @ [a', b'] @ ys"] c16_pair_detects [of "[a, b]" "[a', b']" c xs ys]
  by (simp add: c16.run_append add.assoc)

text \<open>crc8_calc is the division by x^8 + x^2 + x + 1, can be computed in parts, gives 0 on a frame followed by its
  own checksum, and any change of one byte changes it.\<close>

theorem crc8_frame:
  "\<exists>r. crc8_calc c xs (int (length xs)) = Some r \<and> r = fold (crc_bit 7) (concat (map msb_bits xs)) c \<and>
     crc8_calc c (xs @ ys) (int (length (xs @ ys))) = crc8_calc r ys (int (length ys)) \<and>
     crc8_calc c (xs @ [r]) (int (length xs + 1)) = Some 0 \<and>
     (crc8_calc c (xs @ [b] @ ys) (int (length xs + 1 + length ys)) =
        crc8_calc c (xs @ [b'] @ ys) (int (length xs + 1 + length ys)) \<longleftrightarrow> b = b')"
  using crc8_run [of c xs] crc8_run [of c "xs @ ys"] crc8_run [of "c8.run c xs" ys] c8_bits [of c xs]
    crc8_run [of c "xs @ [c8.run c xs]"] c8_residue [of "c8.run c xs"]
    crc8_run [of c "xs @ [b] @ ys"] crc8_run [of c "xs @ [b'] @ ys"] c8.run_detects [of c xs b ys b']
  by (simp add: c8.run_append add.assoc)

end
