(* ===== verification/Utils_Base64.thy ===== *)
theory Utils_Base64
  imports LN_Prelude "HOL-Library.Signed_Division"
begin

unbundle bit_operations_syntax

text \<open>
  utils/base64.c. A C string is the list of its characters before the terminating zero, a buffer that
  is written is the list of what is written to it. The 32 bit accumulator of token_decode keeps its
  wrap-around, which a character outside the alphabet reaches.
\<close>

section \<open>The code\<close>

definition base64_chars :: string where
  "base64_chars = ''ABCDEFGHIJKLMNOPQRSTUVWXYZabcdefghijklmnopqrstuvwxyz0123456789+/''"

fun pos_loop :: "string \<Rightarrow> int \<Rightarrow> char \<Rightarrow> int" where
  "pos_loop [] i c = - 1"
| "pos_loop (p # ps) i c = (if p = c then i else pos_loop ps (i + 1) c)"

definition pos :: "char \<Rightarrow> int" where
  "pos c = pos_loop base64_chars 0 c"

definition char_at :: "int \<Rightarrow> char" where
  "char_at n = base64_chars ! nat n"

definition encode_quad :: "int \<Rightarrow> string" where
  "encode_quad c =
     [char_at (drop_bit 18 (c AND 0x00fc0000)), char_at (drop_bit 12 (c AND 0x0003f000)),
      char_at (drop_bit 6 (c AND 0x00000fc0)), char_at (c AND 0x0000003f)]"

definition byte_or_0 :: "u8 list \<Rightarrow> nat \<Rightarrow> nat \<Rightarrow> int option" where
  "byte_or_0 q sz i = (if i < sz then map_option uint (get_at q i) else Some 0)"

function encode_loop :: "u8 list \<Rightarrow> nat \<Rightarrow> nat \<Rightarrow> string \<Rightarrow> (nat \<times> string) option" where
  "encode_loop q sz i p =
     (if i < sz then do {
        a \<leftarrow> byte_or_0 q sz i;
        b \<leftarrow> byte_or_0 q sz (i + 1);
        d \<leftarrow> byte_or_0 q sz (i + 2);
        encode_loop q sz (i + 3) (p @ encode_quad ((a * 256 + b) * 256 + d))
      } else Some (i, p))"
  by pat_completeness auto
termination by (relation "measure (\<lambda>(q, size, i, p). size - i)") auto

declare encode_loop.simps [simp del]

definition end_string :: "string \<Rightarrow> nat \<Rightarrow> string" where
  "end_string s n = (if n < length s then s[n := CHR 0x00] else s @ [CHR 0x00])"

definition base64_encode :: "u8 list \<Rightarrow> int \<Rightarrow> bool \<Rightarrow> (nat \<times> string) option" where
  "base64_encode data len should_pad = do {
     (i, s) \<leftarrow> encode_loop data (nat len) 0 [];
     let diff = i - nat len;
     let n = length s;
     Some (if should_pad then (n, end_string (take (n - diff) s @ replicate diff CHR ''='') n)
           else (n - diff, end_string s (n - diff)))
   }"

definition base64_pad :: "int \<Rightarrow> int \<times> string" where
  "base64_pad len =
     (let remainder = len smod 4
      in if remainder = 0 then (0, []) else (4 - remainder, replicate (nat (4 - remainder)) CHR ''=''))"

definition DECODE_ERROR :: u32 where
  "DECODE_ERROR = - 1"

fun token_loop :: "string \<Rightarrow> u32 \<Rightarrow> nat \<Rightarrow> (u32 \<times> nat) option" where
  "token_loop [] val marker = Some (val, marker)"
| "token_loop (c # cs) val marker =
     (if c = CHR ''='' then token_loop cs (val * 64) (marker + 1)
      else if marker > 0 then None
      else token_loop cs (val * 64 + of_int (pos c)) marker)"

definition token_decode :: "string \<Rightarrow> u32" where
  "token_decode token =
     (if length token < 4 then DECODE_ERROR
      else case token_loop (take 4 token) 0 0 of
        None \<Rightarrow> DECODE_ERROR
      | Some (val, marker) \<Rightarrow>
          if marker > 2 then DECODE_ERROR else push_bit 24 (of_nat marker) OR val)"

text \<open>The result is the value returned and the bytes written to data, those before an error included.\<close>

function decode_loop :: "string \<Rightarrow> u8 list \<Rightarrow> int \<times> u8 list" where
  "decode_loop p q =
     (if p \<noteq> [] \<and> (hd p = CHR ''='' \<or> hd p \<in> set base64_chars) then
        let val = token_decode p;
            marker = drop_bit 24 val AND 0xff
        in if val = DECODE_ERROR then (- 1, q)
           else decode_loop (drop 4 p)
             (q @ [ucast (drop_bit 16 val AND 0xff)]
                @ (if marker < 2 then [ucast (drop_bit 8 val AND 0xff)] else [])
                @ (if marker < 1 then [ucast (val AND 0xff)] else []))
      else (int (length q), q))"
  by pat_completeness auto
termination by (relation "measure (\<lambda>(p, q). length p)") auto

declare decode_loop.simps [simp del]

definition base64_decode :: "string \<Rightarrow> int \<times> u8 list" where
  "base64_decode str = decode_loop str []"

text \<open>
  The length is a number without bound; in C it is an int, and len * 3 overflows beyond 715827882
  characters before the padding, more than the device has memory for.
\<close>

definition base64_decode_len :: "string \<Rightarrow> nat" where
  "base64_decode_len str = length (dropWhile (\<lambda>c. c = CHR ''='') (rev str)) * 3 div 4"

section \<open>The alphabet\<close>

lemma length_chars [simp]: "length base64_chars = 64"
  by (simp add: base64_chars_def)

lemma distinct_chars: "distinct base64_chars"
  by (simp add: base64_chars_def)

lemma no_pad_char: "CHR ''='' \<notin> set base64_chars"
  by (simp add: base64_chars_def)

lemma pos_loop_nth: "distinct cs \<Longrightarrow> k < length cs \<Longrightarrow> pos_loop cs i (cs ! k) = i + int k"
proof (induction cs arbitrary: k i)
  case (Cons c cs)
  then show ?case by (cases k) auto
qed simp

lemma pos_char_at: "0 \<le> n \<Longrightarrow> n < 64 \<Longrightarrow> pos (char_at n) = n"
  using pos_loop_nth [OF distinct_chars, of "nat n" 0] by (simp add: pos_def char_at_def)

lemma char_at_in: "0 \<le> n \<Longrightarrow> n < 64 \<Longrightarrow> char_at n \<in> set base64_chars"
  by (simp add: char_at_def)

lemma char_at_not_pad: "0 \<le> n \<Longrightarrow> n < 64 \<Longrightarrow> char_at n \<noteq> CHR ''=''"
  using char_at_in [of n] no_pad_char by auto

lemma sextet: "drop_bit k (c AND push_bit k (mask 6)) = (c div 2 ^ k) mod 64" for c :: int
proof -
  have "drop_bit k (c AND push_bit k (mask 6)) = take_bit 6 (drop_bit k c)"
    by (rule bit_eqI) (auto simp: bit_simps)
  then show ?thesis by (simp add: take_bit_eq_mod drop_bit_eq_div)
qed

lemma encode_quad_div:
  "encode_quad c = [char_at (c div 2 ^ 18 mod 64), char_at (c div 2 ^ 12 mod 64), char_at (c div 2 ^ 6 mod 64), char_at (c mod 64)]"
proof -
  have m: "push_bit 18 (mask 6) = (0x00fc0000 :: int)" "push_bit 12 (mask 6) = (0x0003f000 :: int)"
    "push_bit 6 (mask 6) = (0x00000fc0 :: int)" "push_bit 0 (mask 6) = (0x0000003f :: int)"
    by (simp_all add: mask_eq_exp_minus_1 push_bit_eq_mult)
  show ?thesis
    using sextet [of 18 c] sextet [of 12 c] sextet [of 6 c] sextet [of 0 c]
    unfolding encode_quad_def m drop_bit_0 id_apply power_0 div_by_1 by (simp only:)
qed


section \<open>Encoding, three bytes at a time\<close>

definition quad :: "u8 \<Rightarrow> u8 \<Rightarrow> u8 \<Rightarrow> string" where
  "quad a b c = encode_quad ((uint a * 256 + uint b) * 256 + uint c)"

lemma length_quad [simp]: "length (quad a b c) = 4"
  by (simp add: quad_def encode_quad_def)

fun enc_list :: "u8 list \<Rightarrow> string" where
  "enc_list (a # b # c # bs) = quad a b c @ enc_list bs"
| "enc_list [a, b] = quad a b 0"
| "enc_list [a] = quad a 0 0"
| "enc_list [] = []"

lemma div_3: "(5 + n) div 3 = Suc (Suc (Suc n) div 3)"
  using div_add_self1 [of 3 "Suc (Suc n)"] by simp

lemma length_enc_list: "length (enc_list bs) = 4 * ((length bs + 2) div 3)"
  by (induction bs rule: enc_list.induct) (simp_all add: div_3)

lemma byte_or_0_drop:
  "length data = sz \<Longrightarrow> drop i data = xs \<Longrightarrow>
     byte_or_0 data sz (i + k) = Some (if k < length xs then uint (xs ! k) else 0)"
  by (auto simp: byte_or_0_def get_at_def)

lemma encode_loop_list:
  "length data = sz \<Longrightarrow> drop i data = xs \<Longrightarrow> i \<le> sz \<Longrightarrow>
     encode_loop data sz i p = Some (i + 3 * ((length xs + 2) div 3), p @ enc_list xs)"
proof (induction xs arbitrary: i p rule: enc_list.induct)
  case (1 a b c bs)
  note rd = byte_or_0_drop [OF 1(2,3), of 0] byte_or_0_drop [OF 1(2,3), of 1] byte_or_0_drop [OF 1(2,3), of 2]
  have l: "i + 3 \<le> sz" using arg_cong [OF 1(3), of length] 1(2) by simp
  have "drop (i + 3) data = bs" using 1(3) by (metis add.commute drop_drop drop_Suc_Cons drop0 numeral_3_eq_3)
  then show ?case using l 1(1) [of "i + 3" "p @ quad a b c"] 1(2) rd
    by (subst encode_loop.simps) (simp add: quad_def div_3)
next
  case (2 a b)
  note rd = byte_or_0_drop [OF 2(1,2), of 0] byte_or_0_drop [OF 2(1,2), of 1] byte_or_0_drop [OF 2(1,2), of 2]
  have l: "sz = i + 2" using arg_cong [OF 2(2), of length] 2(1,3) by simp
  then show ?case using rd by (subst encode_loop.simps, subst encode_loop.simps) (simp add: quad_def)
next
  case (3 a)
  note rd = byte_or_0_drop [OF 3(1,2), of 0] byte_or_0_drop [OF 3(1,2), of 1] byte_or_0_drop [OF 3(1,2), of 2]
  have l: "sz = i + 1" using arg_cong [OF 3(2), of length] 3(1,3) by simp
  then show ?case using rd by (subst encode_loop.simps, subst encode_loop.simps) (simp add: quad_def)
next
  case 4
  then have "i = sz" by simp
  then show ?case by (subst encode_loop.simps) simp
qed

definition fill :: "nat \<Rightarrow> nat" where
  "fill n = 3 * ((n + 2) div 3) - n"

lemma fill_le: "fill n \<le> 2"
  unfolding fill_def by linarith

definition body_text :: "u8 list \<Rightarrow> string" where
  "body_text bs = take (length (enc_list bs) - fill (length bs)) (enc_list bs)"

definition padded :: "u8 list \<Rightarrow> string" where
  "padded bs = body_text bs @ replicate (fill (length bs)) CHR ''=''"

lemma length_body: "length (body_text bs) + fill (length bs) = 4 * ((length bs + 2) div 3)"
  using fill_le [of "length bs"] unfolding body_text_def length_take length_enc_list fill_def by linarith

lemma encode_padded:
  "base64_encode bs (int (length bs)) True = Some (4 * ((length bs + 2) div 3), padded bs @ [CHR 0x00])"
  using encode_loop_list [of bs "length bs" 0 bs "[]"] length_body [of bs]
  by (simp add: base64_encode_def end_string_def padded_def body_text_def length_enc_list fill_def)

lemma encode_unpadded:
  "\<exists>rest. base64_encode bs (int (length bs)) False = Some (length (body_text bs), body_text bs @ CHR 0x00 # rest)"
proof (cases "fill (length bs) = 0")
  case True
  then show ?thesis using encode_loop_list [of bs "length bs" 0 bs "[]"]
    by (simp add: base64_encode_def end_string_def body_text_def fill_def)
next
  case False
  define n where "n = length (enc_list bs) - fill (length bs)"
  have "bs \<noteq> []" using False by (auto simp: fill_def)
  then have n: "n < length (enc_list bs)" using False
    by (cases bs) (auto simp: n_def length_enc_list)
  have "base64_encode bs (int (length bs)) False = Some (n, (enc_list bs)[n := CHR 0x00])"
    using encode_loop_list [of bs "length bs" 0 bs "[]"] n
    by (simp add: base64_encode_def end_string_def n_def fill_def Let_def)
  moreover have "length (body_text bs) = n" using n by (simp add: body_text_def n_def)
  ultimately show ?thesis using upd_conv_take_nth_drop [OF n, of "CHR 0x00"] by (simp add: body_text_def n_def)
qed


section \<open>Decoding\<close>

lemma byte_at: "M < 2 ^ 32 \<Longrightarrow> (ucast (drop_bit k (of_nat M :: u32) AND 0xff) :: u8) = of_nat (M div 2 ^ k)"
proof -
  assume M: "M < 2 ^ 32"
  then have M': "M mod 4294967296 = M" by simp
  have m: "ucast (w AND 0xff) = (ucast w :: u8)" for w :: u32
  proof -
    have "w AND 0xff = take_bit 8 w" by (simp add: take_bit_eq_mask mask_eq_exp_minus_1)
    then show ?thesis by (auto intro!: bit_word_eqI simp: bit_simps)
  qed
  show ?thesis unfolding m
    by (rule word_unat_eq_iff [THEN iffD2])
      (simp add: unat_drop_bit unsigned_ucast_eq unat_of_nat take_bit_eq_mod M')
qed

definition decoded :: "u8 \<Rightarrow> u8 \<Rightarrow> u8 \<Rightarrow> nat \<Rightarrow> u8 list" where
  "decoded a b c m = take (3 - m) [a, b, c]"

lemma token_loop_plain:
  "CHR ''='' \<notin> set cs \<Longrightarrow>
     token_loop (cs @ ds) v 0 = token_loop ds (foldl (\<lambda>v c. v * 64 + of_int (pos c)) v cs) 0"
  by (induction cs arbitrary: v) auto

lemma token_loop_pads: "token_loop (replicate m CHR ''='') v k = Some (v * 64 ^ m, k + m)"
  by (induction m arbitrary: v k) (simp_all add: mult.assoc)

lemma sextets:
  fixes n :: int
  assumes "0 \<le> n" "n < 2 ^ 24"
  shows "n = ((n div 2 ^ 18 mod 64 * 64 + n div 2 ^ 12 mod 64) * 64 + n div 2 ^ 6 mod 64) * 64 + n mod 64"
proof -
  have d: "n div 2 ^ 12 = n div 2 ^ 6 div 64" "n div 2 ^ 18 = n div 2 ^ 12 div 64"
    by (simp_all flip: zdiv_zmult2_eq)
  have "n div 2 ^ 18 mod 64 = n div 2 ^ 18" using assms by simp
  moreover have "x = x div 64 * 64 + x mod 64" for x :: int by simp
  ultimately show ?thesis unfolding d by simp
qed

lemma of_int_sextets:
  assumes "0 \<le> n" "n < 2 ^ 24"
  shows "((of_int (n div 2 ^ 18 mod 64) * 64 + of_int (n div 2 ^ 12 mod 64)) * 64 + of_int (n div 2 ^ 6 mod 64)) * 64
    + of_int (n mod 64) = (of_int n :: u32)"
  using arg_cong [OF sextets [OF assms], of "of_int :: int \<Rightarrow> u32"] by (simp only: of_int_add of_int_mult of_int_numeral)

lemma token_loop_quad:
  assumes n: "0 \<le> n" "n < 2 ^ 24" and m: "m \<le> 2" "n mod 64 ^ m = 0"
  shows "token_loop (take (4 - m) (encode_quad n) @ replicate m CHR ''='') 0 0 = Some (of_int n, m)"
proof -
  have c: "CHR ''='' \<notin> set (take (4 - m) (encode_quad n))"
    unfolding encode_quad_div by (auto dest!: in_set_takeD) (simp_all add: char_at_not_pad [symmetric])
  have p: "pos (char_at (x mod 64)) = x mod 64" for x by (rule pos_char_at) auto
  have v: "foldl (\<lambda>v c. v * 64 + of_int (pos c)) 0 (take (4 - m) (encode_quad n)) * 64 ^ m = (of_int n :: u32)"
  proof -
    have "m = 2 \<Longrightarrow> 64 * (n div 64 mod 64) + n mod 64 = 0" using m(2) zmod_zmult2_eq [of 64 n 64] by simp
    then have "m = 2 \<Longrightarrow> n mod 64 = 0 \<and> n div 64 mod 64 = 0"
      using add_nonneg_eq_0_iff [of "64 * (n div 64 mod 64)" "n mod 64"] by auto
    then consider "m = 0" | "m = 1" "n mod 64 = 0" | "m = 2" "n mod 64 = 0" "n div 64 mod 64 = 0"
      using m by fastforce
    then show ?thesis
      using of_int_sextets [OF n] unfolding encode_quad_div
      by cases (simp_all add: p numeral_nat mult.commute)
  qed
  show ?thesis unfolding token_loop_plain [OF c] token_loop_pads v by simp
qed


lemma token_value:
  assumes n: "n < 2 ^ 24" and m: "m \<le> 2"
  shows "push_bit 24 (of_nat m) OR of_int (int n) = (of_nat (m * 2 ^ 24 + n) :: u32)"
    and "(of_nat (m * 2 ^ 24 + n) :: u32) \<noteq> DECODE_ERROR"
proof -
  have M: "m * 2 ^ 24 + n < 2 ^ 26" using assms by simp
  then have u: "unat (of_nat (m * 2 ^ 24 + n) :: u32) = m * 2 ^ 24 + n"
    unfolding unat_of_nat by simp
  then show "(of_nat (m * 2 ^ 24 + n) :: u32) \<noteq> DECODE_ERROR" using M by (auto simp: DECODE_ERROR_def unsigned_minus_1_eq_mask mask_eq_exp_minus_1)
  have "(push_bit 24 (of_nat m) :: u32) AND of_nat n = 0"
  proof (rule bit_word_eqI)
    fix i assume "i < LENGTH(32)"
    have "\<not> bit n i" if "24 \<le> i"
      using n that bit_take_bit_iff [of 24 n i] by (simp add: take_bit_eq_mod)
    then show "bit ((push_bit 24 (of_nat m) :: u32) AND of_nat n) i = bit (0 :: u32) i" by (auto simp: bit_simps)
  qed
  from unat_or_disjoint [OF this]
  have "unat (push_bit 24 (of_nat m) OR of_nat n :: u32) = unat (push_bit 24 (of_nat m) :: u32) + unat (of_nat n :: u32)" .
  also have "push_bit 24 (of_nat m) = (of_nat (m * 2 ^ 24) :: u32)" by (simp add: push_bit_eq_mult)
  also have "unat (of_nat (m * 2 ^ 24) :: u32) = m * 2 ^ 24" unfolding unat_of_nat using m by simp
  also have "unat (of_nat n :: u32) = n" unfolding unat_of_nat using n by simp
  finally show "push_bit 24 (of_nat m) OR of_int (int n) = (of_nat (m * 2 ^ 24 + n) :: u32)"
    using u by (simp only: of_int_of_nat_eq word_unat_eq_iff push_bit_eq_mult of_nat_mult of_nat_power of_nat_numeral)
qed

lemma quad_value: "(uint (a :: u8) * 256 + uint b) * 256 + uint c = int ((unat a * 256 + unat b) * 256 + unat c)"
  for b c :: u8
  by (simp flip: uint_nat)

lemma quad_bound: "(unat (a :: u8) * 256 + unat b) * 256 + unat c < 2 ^ 24" for b c :: u8
  using unsigned_less [of a, where ?'a = nat] unsigned_less [of b, where ?'a = nat] unsigned_less [of c, where ?'a = nat]
  by simp

lemma token_decode_quad:
  assumes m: "m \<le> 2" "1 \<le> m \<longrightarrow> c = 0" "2 \<le> m \<longrightarrow> b = 0"
  shows "token_decode (take (4 - m) (quad a b c) @ replicate m CHR ''='' @ rest)
    = of_nat (m * 2 ^ 24 + ((unat a * 256 + unat b) * 256 + unat c))"
proof -
  let ?n = "(unat a * 256 + unat b) * 256 + unat c"
  have z: "int ?n mod 64 ^ m = 0"
  proof -
    have d2: "int ((x * 256 + 0) * 256 + 0) mod 64 ^ 2 = 0" for x by simp
    have d1: "int ((x * 256 + y) * 256 + 0) mod 64 ^ 1 = 0" for x y by simp
    consider "m = 0" | "m = 1" "c = 0" | "m = 2" "b = 0" "c = 0" using m by fastforce
    then show ?thesis by cases (simp_all add: d1 [simplified] d2 [simplified])
  qed
  have l: "length (take (4 - m) (quad a b c) @ replicate m CHR ''='') = 4" using m by simp
  then have t: "take 4 ((take (4 - m) (quad a b c) @ replicate m CHR ''='') @ rest)
      = take (4 - m) (quad a b c) @ replicate m CHR ''=''" by simp
  have "int ?n < 2 ^ 24" using quad_bound [of a b c] by (metis of_nat_less_iff of_nat_numeral of_nat_power)
  from token_loop_quad [OF _ this m(1) z]
  have "token_loop (take (4 - m) (quad a b c) @ replicate m CHR ''='') 0 0 = Some (of_int (int ?n), m)"
    unfolding quad_def quad_value by simp
  then show ?thesis using t l m(1) token_value(1) [OF quad_bound m(1), of a b c]
    unfolding token_decode_def append_assoc [symmetric] t by simp
qed

lemma bytes_of_quad:
  "of_nat (((unat a * 256 + unat b) * 256 + unat c + k * 2 ^ 24) div 2 ^ 16) = (a :: u8)"
  "of_nat (((unat a * 256 + unat b) * 256 + unat c + k * 2 ^ 24) div 2 ^ 8) = (b :: u8)"
  "of_nat ((unat a * 256 + unat b) * 256 + unat c + k * 2 ^ 24) = (c :: u8)"
proof -
  have l: "unat a < 256" "unat b < 256" "unat c < 256"
    using unsigned_less [of a, where ?'a = nat] unsigned_less [of b, where ?'a = nat] unsigned_less [of c, where ?'a = nat]
    by simp_all
  have w: "(of_nat n :: u8) = x" if "n mod 256 = unat x" for n and x :: u8
    using that by (simp add: word_unat_eq_iff unat_of_nat)
  let ?N = "(unat a * 256 + unat b) * 256 + unat c + k * 2 ^ 24"
  have n: "?N = (y * 256 + unat b * 256 + unat c) + (unat a + k * 256) * 2 ^ 16"
     "?N = unat c + (unat b + (unat a + k * 256) * 256) * 2 ^ 8" if "y = 0" for y :: nat
    using that by simp_all
  have "?N div 2 ^ 16 = unat a + k * 256"
    unfolding n(1) [OF refl] using l by (subst div_mult_self1) simp_all
  then show "of_nat (?N div 2 ^ 16) = a" using l by (intro w) simp
  have "?N div 2 ^ 8 = unat b + (unat a + k * 256) * 256"
    unfolding n(2) [OF refl] using l by (subst div_mult_self1) simp_all
  then have "?N div 2 ^ 8 mod 256 = unat b" using l by (simp only: mod_mult_self1) simp
  then show "of_nat (?N div 2 ^ 8) = b" by (rule w)
  have "?N mod 256 = unat c"
    using l mod_mult_self1 [of "unat c" "unat b + (unat a + k * 256) * 256" 256] unfolding n(2) [OF refl] by simp
  then show "of_nat ?N = c" by (rule w)
qed

lemma decode_quad:
  assumes m: "m \<le> 2" "1 \<le> m \<longrightarrow> c = 0" "2 \<le> m \<longrightarrow> b = 0"
  shows "decode_loop (take (4 - m) (quad a b c) @ replicate m CHR ''='' @ rest) q
    = decode_loop rest (q @ take (3 - m) [a, b, c])"
proof -
  let ?p = "take (4 - m) (quad a b c) @ replicate m CHR ''='' @ rest"
  let ?n = "(unat a * 256 + unat b) * 256 + unat c"
  have v: "token_decode ?p = of_nat (?n + m * 2 ^ 24)" using token_decode_quad [OF m] by (simp add: add.commute)
  have M: "?n + m * 2 ^ 24 < 2 ^ 32" using quad_bound [of a b c] m(1) by simp
  have b0: "ucast (of_nat (?n + m * 2 ^ 24) AND 0xff :: u32) = c"
    using byte_at [OF M, of 0] bytes_of_quad(3) [of a b c m] by simp
  have mk: "drop_bit 24 (of_nat (?n + m * 2 ^ 24) :: u32) AND 0xff = of_nat m"
  proof -
    have "(?n + m * 2 ^ 24) div 2 ^ 24 = m" using quad_bound [of a b c] by simp
    then have "unat (drop_bit 24 (of_nat (?n + m * 2 ^ 24) :: u32)) = m"
      using M unfolding unat_drop_bit unat_of_nat by simp
    then have "of_nat (unat (drop_bit 24 (of_nat (?n + m * 2 ^ 24) :: u32))) = (of_nat m :: u32)" by (rule arg_cong)
    then have "drop_bit 24 (of_nat (?n + m * 2 ^ 24) :: u32) = of_nat m" by (simp only: of_nat_unat ucast_id)
    moreover have "m \<in> {0, 1, 2}" using m(1) by auto
    ultimately show ?thesis by auto
  qed
  have h: "hd ?p \<in> set base64_chars" "drop 4 ?p = rest"
    using m(1) char_at_in by (auto simp: quad_def encode_quad_div)
  have ne: "(of_nat (?n + m * 2 ^ 24) :: u32) \<noteq> DECODE_ERROR" "?p \<noteq> []"
    using token_value(2) [OF quad_bound m(1), of a b c] m(1) by (simp_all add: add.commute quad_def encode_quad_def)
  have "(of_nat m < (2 :: u32)) = (m < 2)" "(of_nat m < (1 :: u32)) = (m < 1)"
  proof -
    have "m \<in> {0, 1, 2}" using m(1) by auto
    then show "(of_nat m < (2 :: u32)) = (m < 2)" "(of_nat m < (1 :: u32)) = (m < 1)" by auto
  qed
  then have "decode_loop ?p q = decode_loop rest (q @ [a] @ (if m < 2 then [b] else []) @ (if m < 1 then [c] else []))"
    by (subst decode_loop.simps)
      (simp only: h ne v Let_def mk b0 byte_at [OF M] bytes_of_quad simp_thms if_True if_False)
  moreover have "[a] @ (if m < 2 then [b] else []) @ (if m < 1 then [c] else []) = take (3 - m) [a, b, c]"
  proof -
    have "m \<in> {0, 1, 2}" using m(1) by auto
    then show ?thesis by auto
  qed
  ultimately show ?thesis by simp
qed


lemma padded_simps [simp]:
  "padded (a # b # c # bs) = quad a b c @ padded bs"
  "padded [a, b] = take 3 (quad a b 0) @ [CHR ''='']"
  "padded [a] = take 2 (quad a 0 0) @ [CHR ''='', CHR ''='']"
  "padded [] = []"
proof -
  have "fill (length (a # b # c # bs)) = fill (length bs)" by (simp add: fill_def div_3)
  moreover have "4 * ((length bs + 2) div 3) \<ge> fill (length bs)"
    using length_body [of bs] by simp
  ultimately show "padded (a # b # c # bs) = quad a b c @ padded bs"
    by (simp add: padded_def body_text_def length_enc_list)
qed (simp_all add: padded_def body_text_def fill_def numeral_2_eq_2)

lemma decode_padded: "decode_loop (padded bs) q = (int (length q + length bs), q @ bs)"
proof (induction bs arbitrary: q rule: enc_list.induct)
  case (1 a b c bs)
  show ?case using decode_quad [of 0 c b a "padded bs" q] 1 by simp
next
  case (2 a b)
  show ?case using decode_quad [of 1 0 b a "[]" q] by (simp add: decode_loop.simps [of "[]"])
next
  case (3 a)
  show ?case using decode_quad [of 2 0 0 a "[]" q] by (simp add: decode_loop.simps [of "[]"] numeral_2_eq_2)
next
  case 4
  show ?case by (simp add: decode_loop.simps)
qed

lemma body_chars: "set (body_text bs) \<subseteq> set base64_chars"
proof -
  have "set (quad a b c) \<subseteq> set base64_chars" for a b c
    using char_at_in by (auto simp: quad_def encode_quad_div)
  then have "set (enc_list bs) \<subseteq> set base64_chars"
    by (induction bs rule: enc_list.induct) auto
  then show ?thesis by (auto simp: body_text_def dest: in_set_takeD)
qed

lemma decode_len_text:
  "CHR ''='' \<notin> set t \<Longrightarrow> base64_decode_len (t @ replicate k CHR ''='') = length t * 3 div 4"
proof -
  assume n: "CHR ''='' \<notin> set t"
  have "dropWhile (\<lambda>c. c = CHR ''='') (rev (t @ replicate k CHR ''='')) = dropWhile (\<lambda>c. c = CHR ''='') (rev t)"
    by (induction k) (simp_all add: dropWhile_append)
  also have "\<dots> = rev t" using n by (cases t rule: rev_cases) auto
  finally show ?thesis by (simp add: base64_decode_len_def)
qed

lemma thirds:
  fixes n :: nat
  obtains k where "n = 3 * k" "(n + 2) div 3 = k" | k where "n = 3 * k + 1" "(n + 2) div 3 = k + 1"
    | k where "n = 3 * k + 2" "(n + 2) div 3 = k + 1"
proof -
  have "n mod 3 = 0 \<or> n mod 3 = 1 \<or> n mod 3 = 2" by linarith
  moreover have "n = 3 * (n div 3) + n mod 3" by simp
  moreover have "(n + 2) div 3 = (if n mod 3 = 0 then n div 3 else n div 3 + 1)" by presburger
  ultimately show thesis using that by (metis add.right_neutral)
qed

lemma decode_len_padded: "base64_decode_len (padded bs) = length bs"
proof -
  have "base64_decode_len (padded bs) = length (body_text bs) * 3 div 4"
    unfolding padded_def using body_chars no_pad_char by (intro decode_len_text) auto
  moreover have "length (body_text bs) = 4 * ((length bs + 2) div 3) - fill (length bs)" using length_body [of bs] by simp
  moreover have "(4 * ((n + 2) div 3) - (3 * ((n + 2) div 3) - n)) * 3 div 4 = n" for n :: nat
    by (cases rule: thirds [of n]) simp_all
  ultimately show ?thesis by (simp only: fill_def)
qed

lemma encode_pad: "base64_pad (int (length (body_text bs))) = (int (fill (length bs)), replicate (fill (length bs)) CHR ''='')"
proof -
  have l: "length (body_text bs) = 4 * ((length bs + 2) div 3) - fill (length bs)" using length_body [of bs] by simp
  have "(4 * ((n + 2) div 3) - (3 * ((n + 2) div 3) - n)) mod 4 = (4 - (3 * ((n + 2) div 3) - n)) mod 4" for n :: nat
  proof -
    have "Suc (Suc (4 * k)) mod 4 = 2" "Suc (Suc (Suc (4 * k))) mod 4 = 3" for k :: nat
      using mod_mult_self2 [of 2 4 k] mod_mult_self2 [of 3 4 k] by (simp_all only: add_2_eq_Suc numeral_3_eq_3 add_Suc add_0) simp_all
    then show ?thesis by (cases rule: thirds [of n]) simp_all
  qed
  then have m: "length (body_text bs) mod 4 = (4 - fill (length bs)) mod 4" unfolding l fill_def .
  have s: "int n smod 4 = int (n mod 4)" for n
    by (cases "n = 0") (simp_all add: signed_modulo_int_def zmod_int)
  consider "fill (length bs) = 0" | "fill (length bs) = 1" | "fill (length bs) = 2" using fill_le [of "length bs"] by linarith
  then show ?thesis unfolding base64_pad_def s m by cases (simp_all add: Let_def)
qed


section \<open>The decoder writes no more than base64_decode_len promises\<close>

lemma token_loop_shape:
  "token_loop cs v k = Some (v', m) \<Longrightarrow>
     \<exists>t j. cs = t @ replicate j CHR ''='' \<and> m = k + j \<and> CHR ''='' \<notin> set t \<and> (k > 0 \<longrightarrow> t = [])"
proof (induction cs arbitrary: v k)
  case (Cons c cs)
  show ?case
  proof (cases "c = CHR ''=''")
    case True
    then obtain t j where "cs = t @ replicate j CHR ''=''" "m = k + 1 + j" "t = []"
      using Cons.IH [of "v * 64" "k + 1"] Cons.prems by auto
    then show ?thesis using True by (intro exI [of _ "[]"] exI [of _ "Suc j"]) simp
  next
    case False
    then have k: "k = 0" using Cons.prems by (auto split: if_splits)
    with False Cons.prems have "token_loop cs (v * 64 + of_int (pos c)) 0 = Some (v', m)" by simp
    from Cons.IH [OF this] obtain t j where "cs = t @ replicate j CHR ''=''" "m = j" "CHR ''='' \<notin> set t" by auto
    then show ?thesis using False k by (intro exI [of _ "c # t"] exI [of _ j]) auto
  qed
qed simp

lemma token_decode_shape:
  assumes "token_decode p \<noteq> DECODE_ERROR"
  obtains t m val where "p = t @ replicate m CHR ''='' @ drop 4 p" "length t + m = 4" "m \<le> 2" "CHR ''='' \<notin> set t"
    "token_decode p = push_bit 24 (of_nat m) OR val"
proof -
  have l: "4 \<le> length p" using assms by (auto simp: token_decode_def split: if_splits)
  obtain v m where v: "token_loop (take 4 p) 0 0 = Some (v, m)"
    using assms by (cases "token_loop (take 4 p) 0 0") (auto simp: token_decode_def split: if_splits)
  with assms l have m: "m \<le> 2" "token_decode p = push_bit 24 (of_nat m) OR v"
    by (auto simp: token_decode_def split: if_splits)
  from token_loop_shape [OF v] obtain t where t: "take 4 p = t @ replicate m CHR ''=''" "CHR ''='' \<notin> set t" by auto
  have "p = t @ replicate m CHR ''='' @ drop 4 p" using t(1) by (metis append_assoc append_take_drop_id)
  moreover have "length t + m = 4" using arg_cong [OF t(1), of length] l by simp
  ultimately show thesis using that t(2) m by blast
qed

lemma bit_lower: "bit (w :: u32) k \<Longrightarrow> 2 ^ k \<le> unat w"
proof (rule ccontr)
  assume "bit w k" "\<not> 2 ^ k \<le> unat w"
  then have "unat (drop_bit k w) = 0" by (simp add: unat_drop_bit)
  then have "drop_bit k w = 0" by (simp add: word_unat_eq_iff)
  then have "\<not> bit (drop_bit k w) 0" by simp
  then show False using \<open>bit w k\<close> by (simp add: bit_drop_bit_eq)
qed

lemma marker_lower:
  assumes "m \<le> 2" shows "m \<le> unat (drop_bit 24 (push_bit 24 (of_nat m) OR val) AND 0xff :: u32)"
    (is "_ \<le> unat ?w")
proof -
  have ff: "(0xff :: u32) = mask 8" by (simp add: mask_eq_exp_minus_1)
  have "m = 1 \<Longrightarrow> bit ?w 0" "m = 2 \<Longrightarrow> bit ?w 1"
    unfolding ff by (auto simp: bit_simps)
  then have "m = 1 \<Longrightarrow> 1 \<le> unat ?w" "m = 2 \<Longrightarrow> 2 \<le> unat ?w"
    using bit_lower [of ?w 0] bit_lower [of ?w 1] by simp_all
  moreover have "m = 0 \<or> m = 1 \<or> m = 2" using assms by linarith
  ultimately show ?thesis by fastforce
qed


definition strip :: "string \<Rightarrow> nat" where
  "strip s = length (dropWhile (\<lambda>c. c = CHR ''='') (rev s))"

lemma strip_append:
  "strip (s @ t) = (if set t \<subseteq> {CHR ''=''} then strip s else length s + strip t)"
proof (cases "set t \<subseteq> {CHR ''=''}")
  case True
  then have "dropWhile (\<lambda>c. c = CHR ''='') (rev t @ rev s) = dropWhile (\<lambda>c. c = CHR ''='') (rev s)"
    by (intro dropWhile_append2) auto
  then show ?thesis using True by (simp add: strip_def)
next
  case False
  then obtain x where x: "x \<in> set (rev t)" "x \<noteq> CHR ''=''" by auto
  have "dropWhile (\<lambda>c. c = CHR ''='') (rev t @ rev s) = dropWhile (\<lambda>c. c = CHR ''='') (rev t) @ rev s"
    by (rule dropWhile_append1 [OF x(1)]) (use x(2) in simp)
  with False show ?thesis by (simp add: strip_def)
qed

lemma strip_token: "CHR ''='' \<notin> set t \<Longrightarrow> strip (t @ replicate m CHR ''='') = length t"
proof -
  assume t: "CHR ''='' \<notin> set t"
  then have "strip t = length t" unfolding strip_def by (cases t rule: rev_cases) auto
  moreover have "set (replicate m CHR ''='') \<subseteq> {CHR ''=''}" by auto
  ultimately show ?thesis unfolding strip_append by simp
qed

definition token_bytes :: "u32 \<Rightarrow> u8 list" where
  "token_bytes val =
     (let marker = drop_bit 24 val AND 0xff
      in [ucast (drop_bit 16 val AND 0xff)] @ (if marker < 2 then [ucast (drop_bit 8 val AND 0xff)] else [])
           @ (if marker < 1 then [ucast (val AND 0xff)] else []))"

definition goes_on :: "string \<Rightarrow> bool" where
  "goes_on p \<longleftrightarrow> p \<noteq> [] \<and> (hd p = CHR ''='' \<or> hd p \<in> set base64_chars) \<and> token_decode p \<noteq> DECODE_ERROR"

lemma decode_loop_step: "goes_on p \<Longrightarrow> decode_loop p q = decode_loop (drop 4 p) (q @ token_bytes (token_decode p))"
  unfolding goes_on_def by (subst decode_loop.simps) (simp add: Let_def token_bytes_def)

lemma decode_loop_stop: "\<not> goes_on p \<Longrightarrow> decode_loop p q \<in> {(- 1, q), (int (length q), q)}"
  unfolding goes_on_def by (subst decode_loop.simps) (auto simp: Let_def)

lemma decode_induct [case_names stop step]:
  assumes "\<And>p q. \<not> goes_on p \<Longrightarrow> P p q"
    and "\<And>p q. goes_on p \<Longrightarrow> P (drop 4 p) (q @ token_bytes (token_decode p)) \<Longrightarrow> P p q"
  shows "P p q"
proof (induction p arbitrary: q rule: length_induct)
  case (1 p)
  show ?case
  proof (cases "goes_on p")
    case True
    then have "p \<noteq> []" by (simp add: goes_on_def)
    then have "length (drop 4 p) < length p" by (cases p) simp_all
    then show ?thesis using 1 assms(2) [OF True] by blast
  qed (rule assms(1))
qed

lemma decode_loop_result:
  "\<exists>w. snd (decode_loop p q) = q @ w \<and> fst (decode_loop p q) \<in> {- 1, int (length q + length w)}"
proof (induction p q rule: decode_induct)
  case (stop p q)
  then show ?case using decode_loop_stop [of p q] by auto
next
  case (step p q)
  then show ?case unfolding decode_loop_step [OF step(1)] by auto
qed

lemma length_token_bytes:
  assumes "m \<le> 2" shows "length (token_bytes (push_bit 24 (of_nat m) OR val)) \<le> 3 - m"
  using marker_lower [OF assms, of val] assms by (auto simp: token_bytes_def Let_def word_less_nat_alt)

lemma decode_loop_pads: "set p \<subseteq> {CHR ''=''} \<Longrightarrow> snd (decode_loop p q) = q"
proof (cases "p = []")
  case False
  assume p: "set p \<subseteq> {CHR ''=''}"
  have "token_decode p = DECODE_ERROR"
  proof (rule ccontr)
    assume "token_decode p \<noteq> DECODE_ERROR"
    then obtain t m val where "p = t @ replicate m CHR ''='' @ drop 4 p" "length t + m = 4" "m \<le> 2" "CHR ''='' \<notin> set t"
      by (rule token_decode_shape)
    then have "set t \<subseteq> {CHR ''=''}" "2 \<le> length t" using p by (metis Un_subset_iff set_append, linarith)
    then show False using \<open>CHR ''='' \<notin> set t\<close> by (cases t) auto
  qed
  then show ?thesis using decode_loop_stop [of p q] by (auto simp: goes_on_def)
qed (subst decode_loop.simps, simp)

lemma decode_loop_bound:
  "snd (decode_loop p q) = q @ w \<Longrightarrow> length w \<le> strip p * 3 div 4"
proof (induction p q arbitrary: w rule: decode_induct)
  case (stop p q)
  then show ?case using decode_loop_stop [of p q] by auto
next
  case (step p q)
  let ?out = "token_bytes (token_decode p)"
  obtain t m val where p: "p = t @ replicate m CHR ''='' @ drop 4 p" "length t + m = 4" "m \<le> 2" "CHR ''='' \<notin> set t"
    "token_decode p = push_bit 24 (of_nat m) OR val"
    using token_decode_shape step(1) unfolding goes_on_def by blast
  have out: "length ?out \<le> 3 - m" unfolding p(5) by (rule length_token_bytes [OF p(3)])
  obtain w' where w': "snd (decode_loop (drop 4 p) (q @ ?out)) = (q @ ?out) @ w'" using decode_loop_result by blast
  then have w: "w = ?out @ w'" using step(3) unfolding decode_loop_step [OF step(1)] by simp
  show ?case
  proof (cases "set (drop 4 p) \<subseteq> {CHR ''=''}")
    case pads: True
    have "w' = []" using decode_loop_pads [OF pads, of "q @ ?out"] w' by simp
    moreover have "strip p = length t"
      by (subst p(1)) (simp only: append_assoc [symmetric] strip_append [of _ "drop 4 p"] pads if_True strip_token [OF p(4)])
    moreover have "length t = 4 - m" "m = 0 \<or> m = 1 \<or> m = 2" using p(2,3) by linarith+
    ultimately show ?thesis using out w by auto
  next
    case more: False
    have "strip p = 4 + strip (drop 4 p)"
      by (subst p(1)) (use more p(2) in \<open>simp only: append_assoc [symmetric] strip_append [of _ "drop 4 p"] if_False length_append length_replicate\<close>)
    then show ?thesis using step(2) [OF w'] out w by simp
  qed
qed

section \<open>Properties\<close>

text \<open>C29: Encoding with padding writes one character for every six bits, a whole number of quadruples, and the
  terminating zero, which fit the size BASE64_ENCODE_SIZE computes; the text has no zero inside, decoding it gives the
  data back, and base64_decode_len tells their number.\<close>

theorem base64_roundtrip:
  "\<exists>s. base64_encode bs (int (length bs)) True = Some (length s, s @ [CHR 0x00]) \<and>
     length s = 4 * ((length bs + 2) div 3) \<and> length s + 1 \<le> length bs * 4 div 3 + 4 \<and>
     set s \<subseteq> set base64_chars \<union> {CHR ''=''} \<and> CHR 0x00 \<notin> set s \<and>
     base64_decode s = (int (length bs), bs) \<and> base64_decode_len s = length bs"
proof (intro exI conjI)
  show l: "length (padded bs) = 4 * ((length bs + 2) div 3)" using length_body [of bs] by (simp add: padded_def)
  show "base64_encode bs (int (length bs)) True = Some (length (padded bs), padded bs @ [CHR 0x00])"
    unfolding l by (rule encode_padded)
  show "length (padded bs) + 1 \<le> length bs * 4 div 3 + 4"
    unfolding l by (cases rule: thirds [of "length bs"]) simp_all
  show s: "set (padded bs) \<subseteq> set base64_chars \<union> {CHR ''=''}"
    using body_chars [of bs] by (auto simp: padded_def)
  have "CHR 0x00 \<notin> set base64_chars \<union> {CHR ''=''}" by (simp add: base64_chars_def)
  then show "CHR 0x00 \<notin> set (padded bs)" using s by blast
  show "base64_decode (padded bs) = (int (length bs), bs)" using decode_padded [of bs "[]"] by (simp add: base64_decode_def)
  show "base64_decode_len (padded bs) = length bs" by (rule decode_len_padded)
qed

text \<open>Encoding without padding and then calling base64_pad at the end of the text gives the text that
  encoding with padding gives.\<close>

theorem base64_pad_completes:
  "\<exists>t rest. base64_encode bs (int (length bs)) False = Some (length t, t @ CHR 0x00 # rest) \<and>
     base64_encode bs (int (length bs)) True =
       Some (length t + length (snd (base64_pad (int (length t)))), t @ snd (base64_pad (int (length t))) @ [CHR 0x00]) \<and>
     fst (base64_pad (int (length t))) = int (length (snd (base64_pad (int (length t)))))"
  using encode_unpadded [of bs] encode_padded [of bs] encode_pad [of bs] length_body [of bs]
  by (fastforce simp: padded_def)

text \<open>C30: Whatever string it is given, base64_decode writes at most base64_decode_len bytes and returns -1 or
  their number. (The product in base64_decode_len is not cut to an int: strings of up to 715827882 characters.)\<close>

theorem base64_decode_bounded:
  "length (snd (base64_decode str)) \<le> base64_decode_len str \<and>
   fst (base64_decode str) \<in> {- 1, int (length (snd (base64_decode str)))}"
  using decode_loop_result [of str "[]"] decode_loop_bound [of str "[]"]
  by (auto simp: base64_decode_def base64_decode_len_def strip_def)

end
