(* ===== verification/Task_Queue.thy ===== *)
theory Task_Queue
  imports LN_Prelude
begin

unbundle bit_operations_syntax

text \<open>
  task/task.c: the message pump of the firmware, three event queues by priority and a table of
  callbacks addressed by handles. The FreeRTOS queue is a parameter (a record of its three calls),
  and so is realloc; queue_laws states the documented behaviour the code relies on. The binary
  semaphore is a flag, None before task_pump_messages creates it.
\<close>

section \<open>The code\<close>

definition TASK_PRIORITY_COUNT :: nat where "TASK_PRIORITY_COUNT = 3"
definition TASK_HANDLE_MONIKER :: u32 where "TASK_HANDLE_MONIKER = 0x68680000"
definition TASK_HANDLE_MASK :: u32 where "TASK_HANDLE_MASK = 0xFFF80000"
definition TASK_HANDLE_UNMASK :: u32 where "TASK_HANDLE_UNMASK = NOT TASK_HANDLE_MASK"
definition TASK_HANDLE_ALLOCATION_BRICK :: nat where "TASK_HANDLE_ALLOCATION_BRICK = 4"
definition TASK_DEFAULT_QUEUE_LEN :: nat where "TASK_DEFAULT_QUEUE_LEN = 8"

record task_event =
  sig :: u32
  par :: u32

record 'q rtos =
  q_create :: "nat \<Rightarrow> 'q option"
  q_send :: "'q \<Rightarrow> task_event \<Rightarrow> bool \<times> 'q"
  q_receive :: "'q \<Rightarrow> (task_event \<times> 'q) option"

record ('q, 'f) task_sys =
  task_Q :: "nat \<Rightarrow> 'q option"
  sem_pending :: "bool option"
  task_func :: "'f option list option"
  task_count :: nat

definition task_init_handler :: "'q rtos \<Rightarrow> nat \<Rightarrow> nat \<Rightarrow> ('q, 'f) task_sys \<Rightarrow> bool \<times> ('q, 'f) task_sys" where
  "task_init_handler os priority qlen s =
     (if priority \<ge> TASK_PRIORITY_COUNT then (False, s)
      else if task_Q s priority = None then
        (let q = q_create os qlen
         in (q \<noteq> None, s\<lparr>task_Q := (task_Q s)(priority := q)\<rparr>))
      else (False, s))"

text \<open>The lazy creation of the queues from p on; False is the early return of the CHECK.\<close>

fun init_queues :: "'q rtos \<Rightarrow> nat list \<Rightarrow> ('q, 'f) task_sys \<Rightarrow> bool \<times> ('q, 'f) task_sys" where
  "init_queues os [] s = (True, s)"
| "init_queues os (p # ps) s =
     (if task_Q s p = None then
        (case task_init_handler os p TASK_DEFAULT_QUEUE_LEN s of
           (ok, s') \<Rightarrow> if ok then init_queues os ps s' else (False, s'))
      else init_queues os ps s)"

text \<open>realloc of the callback table: None is NULL; memset clears the four new entries.\<close>

definition grow ::
    "('f option list option \<Rightarrow> nat \<Rightarrow> 'f option list option) \<Rightarrow> ('q, 'f) task_sys \<Rightarrow> ('f option list option) option" where
  "grow ralloc s =
     (case ralloc (task_func s) (task_count s + TASK_HANDLE_ALLOCATION_BRICK) of
        None \<Rightarrow> Some None
      | Some a \<Rightarrow> map_option Some (put_block a (task_count s) (replicate TASK_HANDLE_ALLOCATION_BRICK None)))"

definition task_get_id ::
    "'q rtos \<Rightarrow> ('f option list option \<Rightarrow> nat \<Rightarrow> 'f option list option) \<Rightarrow> 'f \<Rightarrow> ('q, 'f) task_sys \<Rightarrow>
       (u32 \<times> ('q, 'f) task_sys) option" where
  "task_get_id os ralloc t s =
     (case init_queues os [0..<TASK_PRIORITY_COUNT] s of
        (False, s) \<Rightarrow> Some (0, s)
      | (True, s) \<Rightarrow> do {
          s \<leftarrow> (if task_count s mod TASK_HANDLE_ALLOCATION_BRICK = 0
                then map_option (\<lambda>a. s\<lparr>task_func := a\<rparr>) (grow ralloc s) else Some s);
          if task_count s mod TASK_HANDLE_ALLOCATION_BRICK = 0 \<and> task_func s = None then Some (0, s)
          else do {
            a \<leftarrow> task_func s;
            a \<leftarrow> set_at a (task_count s) (Some t);
            Some (TASK_HANDLE_MONIKER OR of_nat (task_count s),
              s\<lparr>task_func := Some a, task_count := task_count s + 1\<rparr>)
          }
        })"

definition post_accepts :: "('q, 'f) task_sys \<Rightarrow> nat \<Rightarrow> u32 \<Rightarrow> bool" where
  "post_accepts s priority handle \<longleftrightarrow>
     priority < TASK_PRIORITY_COUNT \<and> task_Q s priority \<noteq> None \<and> handle AND TASK_HANDLE_MASK = TASK_HANDLE_MONIKER"

definition post_send :: "'q rtos \<Rightarrow> nat \<Rightarrow> task_event \<Rightarrow> ('q, 'f) task_sys \<Rightarrow> bool \<times> ('q, 'f) task_sys" where
  "post_send os priority ev s =
     (case task_Q s priority of
        None \<Rightarrow> (False, s)
      | Some q \<Rightarrow> (case q_send os q ev of (res, q') \<Rightarrow> (res, s\<lparr>task_Q := (task_Q s)(priority := Some q')\<rparr>)))"

definition post_give :: "('q, 'f) task_sys \<Rightarrow> ('q, 'f) task_sys" where
  "post_give s = (if sem_pending s \<noteq> None then s\<lparr>sem_pending := Some True\<rparr> else s)"

definition task_post :: "'q rtos \<Rightarrow> nat \<Rightarrow> u32 \<Rightarrow> u32 \<Rightarrow> ('q, 'f) task_sys \<Rightarrow> bool \<times> ('q, 'f) task_sys" where
  "task_post os priority handle param s =
     (if \<not> post_accepts s priority handle then (False, s)
      else case post_send os priority \<lparr>sig = handle, par = param\<rparr> s of (res, s) \<Rightarrow> (res, post_give s))"

definition look :: "'q rtos \<Rightarrow> nat \<Rightarrow> ('q, 'f) task_sys \<Rightarrow> (task_event \<times> ('q, 'f) task_sys) option" where
  "look os p s = do {
     q \<leftarrow> task_Q s p;
     (ev, q') \<leftarrow> q_receive os q;
     Some (ev, s\<lparr>task_Q := (task_Q s)(p := Some q')\<rparr>)
   }"

fun next_loop :: "'q rtos \<Rightarrow> nat \<Rightarrow> ('q, 'f) task_sys \<Rightarrow> (task_event \<times> nat \<times> ('q, 'f) task_sys) option" where
  "next_loop os 0 s = None"
| "next_loop os (Suc p) s =
     (case look os p s of Some (ev, s') \<Rightarrow> Some (ev, p, s') | None \<Rightarrow> next_loop os p s)"

definition next_event :: "'q rtos \<Rightarrow> ('q, 'f) task_sys \<Rightarrow> (task_event \<times> nat \<times> ('q, 'f) task_sys) option" where
  "next_event os s = next_loop os TASK_PRIORITY_COUNT s"

text \<open>The call that is made, if any: the callback, its parameter and the priority.\<close>

definition dispatch :: "('q, 'f) task_sys \<Rightarrow> task_event \<Rightarrow> nat \<Rightarrow> ('f option \<times> u32 \<times> nat) option option" where
  "dispatch s e prio =
     (if sig e AND TASK_HANDLE_MASK = TASK_HANDLE_MONIKER then
        let entry = (ucast (sig e AND TASK_HANDLE_UNMASK) :: u16)
        in case task_func s of
             None \<Rightarrow> Some None
           | Some a \<Rightarrow> if unat entry < task_count s
                       then map_option (\<lambda>f. Some (f, par e, prio)) (get_at a (unat entry)) else Some None
      else Some None)"

definition sem_take :: "('q, 'f) task_sys \<Rightarrow> ('q, 'f) task_sys option" where
  "sem_take s = (if sem_pending s = Some True then Some (s\<lparr>sem_pending := Some False\<rparr>) else None)"

text \<open>One turn of task_pump_messages: the call made, or Inr False when it has to wait for the semaphore.\<close>

definition pump_turn ::
    "'q rtos \<Rightarrow> ('q, 'f) task_sys \<Rightarrow> ((('f option \<times> u32 \<times> nat) option + bool) \<times> ('q, 'f) task_sys) option" where
  "pump_turn os s =
     (case next_event os s of
        Some (ev, prio, s') \<Rightarrow> map_option (\<lambda>c. (Inl c, s')) (dispatch s' ev prio)
      | None \<Rightarrow> (case sem_take s of Some s' \<Rightarrow> Some (Inr True, s') | None \<Rightarrow> Some (Inr False, s)))"

section \<open>What the queue promises\<close>

definition rtos_laws :: "'q rtos \<Rightarrow> ('q \<Rightarrow> task_event list) \<Rightarrow> ('q \<Rightarrow> nat) \<Rightarrow> bool" where
  "rtos_laws os cont cap \<longleftrightarrow>
     (\<forall>n q. q_create os n = Some q \<longrightarrow> cont q = [] \<and> cap q = n) \<and>
     (\<forall>q e. length (cont q) < cap q \<longrightarrow> (\<exists>q'. q_send os q e = (True, q') \<and> cont q' = cont q @ [e] \<and> cap q' = cap q)) \<and>
     (\<forall>q e. cap q \<le> length (cont q) \<longrightarrow> (\<exists>q'. q_send os q e = (False, q') \<and> cont q' = cont q \<and> cap q' = cap q)) \<and>
     (\<forall>q. cont q = [] \<longrightarrow> q_receive os q = None) \<and>
     (\<forall>q x xs. cont q = x # xs \<longrightarrow> (\<exists>q'. q_receive os q = Some (x, q') \<and> cont q' = xs \<and> cap q' = cap q))"

definition queued :: "('q \<Rightarrow> task_event list) \<Rightarrow> ('q, 'f) task_sys \<Rightarrow> nat \<Rightarrow> task_event list" where
  "queued cont s p = (case task_Q s p of None \<Rightarrow> [] | Some q \<Rightarrow> cont q)"

lemma look_none: "rtos_laws os cont cap \<Longrightarrow> look os p s = None \<longleftrightarrow> queued cont s p = []"
  by (cases "task_Q s p"; cases "cont (the (task_Q s p))") (fastforce simp: look_def queued_def rtos_laws_def split: bind_splits)+

lemma look_some:
  assumes "rtos_laws os cont cap" "look os p s = Some (e, s')"
  shows "queued cont s p = e # queued cont s' p" "p' \<noteq> p \<Longrightarrow> queued cont s' p' = queued cont s p'"
    "task_func s' = task_func s" "task_count s' = task_count s" "sem_pending s' = sem_pending s"
proof -
  obtain q q' where q: "task_Q s p = Some q" "q_receive os q = Some (e, q')" "s' = s\<lparr>task_Q := (task_Q s)(p := Some q')\<rparr>"
    using assms(2) by (auto simp: look_def split: bind_splits)
  have "cont q = e # cont q'" using assms(1) q(2) unfolding rtos_laws_def by (cases "cont q") fastforce+
  then show "queued cont s p = e # queued cont s' p" using q by (simp add: queued_def)
qed (use assms(2) in \<open>auto simp: look_def queued_def split: bind_splits\<close>)

lemma next_loop_none: "rtos_laws os cont cap \<Longrightarrow> next_loop os n s = None \<longleftrightarrow> (\<forall>p < n. queued cont s p = [])"
proof (induction n)
  case (Suc n)
  then show ?case using look_none [OF Suc.prems, of n s]
    by (cases "look os n s") (auto simp: less_Suc_eq)
qed simp

lemma next_loop_some:
  "rtos_laws os cont cap \<Longrightarrow> next_loop os n s = Some (e, p, s') \<Longrightarrow>
     p < n \<and> look os p s = Some (e, s') \<and> (\<forall>p'. p < p' \<and> p' < n \<longrightarrow> queued cont s p' = [])"
proof (induction n)
  case (Suc n)
  then show ?case using look_none [OF Suc.prems(1), of n s]
    by (cases "look os n s") (auto simp: less_Suc_eq)
qed simp


lemma next_event_some:
  assumes "rtos_laws os cont cap" "next_event os s = Some (e, p, s')"
  shows "look os p s = Some (e, s')"
  using next_loop_some [OF assms(1)] assms(2) unfolding next_event_def by blast

section \<open>Handles\<close>

definition realloc_laws :: "('f option list option \<Rightarrow> nat \<Rightarrow> 'f option list option) \<Rightarrow> bool" where
  "realloc_laws ralloc \<longleftrightarrow>
     (\<forall>old n a. ralloc old n = Some a \<longrightarrow> length a = n \<and> (\<forall>b. old = Some b \<and> length b \<le> n \<longrightarrow> take (length b) a = b))"

definition handle_of :: "nat \<Rightarrow> u32" where
  "handle_of i = TASK_HANDLE_MONIKER OR of_nat i"

text \<open>The table holds the callbacks fs, in the order they were registered.\<close>

definition table :: "('q, 'f) task_sys \<Rightarrow> 'f list \<Rightarrow> bool" where
  "table s fs \<longleftrightarrow> task_count s = length fs \<and>
     (fs \<noteq> [] \<longrightarrow> (\<exists>a. task_func s = Some a \<and> length a = 4 * ((length fs + 3) div 4) \<and> take (length fs) a = map Some fs))"

lemma unmask_16: "TASK_HANDLE_UNMASK = mask 19"
  by (simp add: TASK_HANDLE_UNMASK_def TASK_HANDLE_MASK_def mask_eq_exp_minus_1)

lemma handle_entry:
  assumes "i < 65536"
  shows "unat (ucast (handle_of i AND TASK_HANDLE_UNMASK) :: u16) = i"
    and "handle_of i AND TASK_HANDLE_MASK = TASK_HANDLE_MONIKER" and "handle_of i \<noteq> 0"
proof -
  have hi: "\<not> bit i k" if "16 \<le> k" for k
    using assms that bit_take_bit_iff [of 16 i k] by (simp add: take_bit_eq_mod)
  have mon: "(TASK_HANDLE_MONIKER :: u32) = push_bit 19 0xD0D"
    by (simp add: TASK_HANDLE_MONIKER_def push_bit_eq_mult)
  have msk: "(TASK_HANDLE_MASK :: u32) = push_bit 19 (mask 13)"
    by (simp add: TASK_HANDLE_MASK_def push_bit_eq_mult mask_eq_exp_minus_1)
  have e: "(ucast ((push_bit 19 x OR of_nat i) AND mask 19 :: u32) :: u16) = of_nat i" for x
    by (rule bit_word_eqI) (auto simp: bit_simps)
  have "(ucast (handle_of i AND TASK_HANDLE_UNMASK) :: u16) = of_nat i"
    unfolding unmask_16 handle_of_def mon by (rule e)
  then show "unat (ucast (handle_of i AND TASK_HANDLE_UNMASK) :: u16) = i"
    using assms by (simp add: unat_of_nat)
  have z: "of_nat i AND push_bit 19 m = (0 :: u32)" for m
    by (rule bit_word_eqI) (auto simp: bit_simps hi)
  have "push_bit 19 0xD0D AND push_bit 19 (mask 13) = (push_bit 19 0xD0D :: u32)"
    by (simp add: push_bit_eq_mult mask_eq_exp_minus_1)
  then show m: "handle_of i AND TASK_HANDLE_MASK = TASK_HANDLE_MONIKER"
    unfolding handle_of_def msk mon bit.conj_disj_distrib2 z by simp
  show "handle_of i \<noteq> 0"
  proof
    assume "handle_of i = 0"
    then have "TASK_HANDLE_MONIKER = 0" using m by simp
    then show False by (simp add: TASK_HANDLE_MONIKER_def)
  qed
qed

lemma handle_of_inj: "i < 65536 \<Longrightarrow> j < 65536 \<Longrightarrow> handle_of i = handle_of j \<longleftrightarrow> i = j"
  using handle_entry(1) by metis

lemma dispatch_registered:
  assumes "table s fs" "length fs \<le> 65536" "i < length fs"
  shows "dispatch s \<lparr>sig = handle_of i, par = v\<rparr> prio = Some (Some (Some (fs ! i), v, prio))"
proof -
  obtain a where a: "task_func s = Some a" "length a = 4 * ((length fs + 3) div 4)" "take (length fs) a = map Some fs"
    using assms(1,3) unfolding table_def by fastforce
  have "a ! i = Some (fs ! i)" using arg_cong [OF a(3), of "\<lambda>l. l ! i"] assms(3) by simp
  moreover have "i < length a" using a(2) assms(3) by linarith
  moreover have "task_count s = length fs" using assms(1) by (simp add: table_def)
  ultimately show ?thesis
    using handle_entry [of i] assms(2,3) a(1) by (simp add: dispatch_def Let_def get_at_def)
qed

lemma init_queues_spec:
  assumes "rtos_laws os cont cap" "init_queues os ps s = (ok, s')" "set ps \<subseteq> {..<TASK_PRIORITY_COUNT}"
  shows "queued cont s' = queued cont s \<and> task_func s' = task_func s \<and> task_count s' = task_count s \<and>
     sem_pending s' = sem_pending s \<and> (ok \<longrightarrow> (\<forall>p \<in> set ps. task_Q s' p \<noteq> None)) \<and> (\<forall>p. task_Q s p \<noteq> None \<longrightarrow> task_Q s' p \<noteq> None)"
  using assms(2,3)
proof (induction ps arbitrary: s)
  case (Cons p ps)
  show ?case
  proof (cases "task_Q s p")
    case None
    define s1 where "s1 = s\<lparr>task_Q := (task_Q s)(p := q_create os TASK_DEFAULT_QUEUE_LEN)\<rparr>"
    have h: "task_init_handler os p TASK_DEFAULT_QUEUE_LEN s = (q_create os TASK_DEFAULT_QUEUE_LEN \<noteq> None, s1)"
      using None Cons.prems(2) by (simp add: task_init_handler_def s1_def Let_def)
    have create: "q_create os n = Some q \<Longrightarrow> cont q = []" for n q using assms(1) by (simp add: rtos_laws_def)
    have s1: "queued cont s1 = queued cont s" "task_func s1 = task_func s" "task_count s1 = task_count s"
        "sem_pending s1 = sem_pending s" "\<forall>p'. task_Q s p' \<noteq> None \<longrightarrow> task_Q s1 p' \<noteq> None"
        "q_create os TASK_DEFAULT_QUEUE_LEN \<noteq> None \<longrightarrow> task_Q s1 p \<noteq> None"
      using None create by (auto simp: s1_def queued_def fun_eq_iff split: option.split)
    show ?thesis
    proof (cases "q_create os TASK_DEFAULT_QUEUE_LEN")
      case None
      then show ?thesis using s1 Cons.prems(1) h \<open>task_Q s p = None\<close> by simp
    next
      case (Some q)
      then have "init_queues os ps s1 = (ok, s')" using Cons.prems(1) h \<open>task_Q s p = None\<close> by simp
      then show ?thesis using Cons.IH [of s1] s1 Some Cons.prems(2) by auto
    qed
  next
    case (Some q)
    then show ?thesis using Cons by auto
  qed
qed simp


lemma register_step:
  assumes laws: "rtos_laws os cont cap" and ral: "realloc_laws ralloc" and t: "table s fs"
    and r: "task_get_id os ralloc f s = Some (h, s')" and h: "h \<noteq> 0"
  shows "h = handle_of (length fs)" "table s' (fs @ [f])" "queued cont s' = queued cont s"
    "sem_pending s' = sem_pending s" "p < 3 \<Longrightarrow> task_Q s' p \<noteq> None"
proof -
  obtain ok s1 where s1: "init_queues os [0..<TASK_PRIORITY_COUNT] s = (ok, s1)" by fastforce
  have "set [0..<TASK_PRIORITY_COUNT] \<subseteq> {..<TASK_PRIORITY_COUNT}" by auto
  note i = init_queues_spec [OF laws s1 this]
  have ok: ok using r h s1 by (auto simp: task_get_id_def split: bool.splits)
  have same: "queued cont s1 = queued cont s" "task_func s1 = task_func s" "task_count s1 = length fs"
    "sem_pending s1 = sem_pending s" and Q: "p < 3 \<Longrightarrow> task_Q s1 p \<noteq> None" for p
    using i ok t by (auto simp: TASK_PRIORITY_COUNT_def table_def)
  let ?n = "length fs"
  have "\<exists>a s2. a = the (task_func s2) \<and> task_func s2 = Some a \<and> length a = 4 * ((?n + 4) div 4) \<and> take ?n a = map Some fs \<and>
     s2 = s1\<lparr>task_func := Some a\<rparr> \<and> h = handle_of ?n \<and>
     set_at a ?n (Some f) \<noteq> None \<and> s' = s2\<lparr>task_func := set_at a ?n (Some f), task_count := ?n + 1\<rparr>"
  proof (cases "?n mod 4 = 0")
    case True
    have g: "\<exists>a. grow ralloc s1 = Some (Some a) \<and> length a = ?n + 4 \<and> take ?n a = map Some fs"
      if g0: "grow ralloc s1 \<noteq> Some None"
    proof -
      obtain b where b: "ralloc (task_func s) (?n + 4) = Some b"
        using g0 same by (cases "ralloc (task_func s) (?n + 4)") (auto simp: grow_def TASK_HANDLE_ALLOCATION_BRICK_def)
      have l: "length b = ?n + 4" using ral b unfolding realloc_laws_def by blast
      have "take ?n b = map Some fs"
      proof (cases "fs = []")
        case False
        then obtain a where a: "task_func s = Some a" "length a = 4 * ((?n + 3) div 4)" "take ?n a = map Some fs"
          using t unfolding table_def by blast
        have "4 * ((?n + 3) div 4) = ?n" using True by presburger
        then have l: "length a = ?n" using a(2) by simp
        then have "task_func s = Some a \<and> length a \<le> ?n + 4" using a(1) by simp
        then have "take (length a) b = a" using ral b unfolding realloc_laws_def by metis
        then show ?thesis using a(3) l by simp
      qed simp
      then show ?thesis using b l same
        by (simp add: grow_def TASK_HANDLE_ALLOCATION_BRICK_def put_block_def)
    qed
    then obtain a where a: "grow ralloc s1 = Some (Some a)" "length a = ?n + 4" "take ?n a = map Some fs"
      using r h s1 ok True same by (cases "grow ralloc s1")
        (auto simp: task_get_id_def TASK_HANDLE_ALLOCATION_BRICK_def split: bind_splits)
    have "?n + 4 = 4 * ((?n + 4) div 4)" using True by presburger
    then show ?thesis using r h s1 ok True same a
      by (intro exI [of _ a] exI [of _ "s1\<lparr>task_func := Some a\<rparr>"])
        (auto simp: task_get_id_def TASK_HANDLE_ALLOCATION_BRICK_def handle_of_def split: bind_splits)
  next
    case False
    then obtain a where a: "task_func s = Some a" "length a = 4 * ((?n + 3) div 4)" "take ?n a = map Some fs"
      using t by (cases "fs = []") (auto simp: table_def)
    have "(?n + 3) div 4 = (?n + 4) div 4" using False by presburger
    then show ?thesis using r s1 ok False same a
      by (intro exI [of _ a] exI [of _ "s1\<lparr>task_func := Some a\<rparr>"])
        (auto simp: task_get_id_def TASK_HANDLE_ALLOCATION_BRICK_def handle_of_def split: bind_splits)
  qed
  then obtain a where a: "length a = 4 * ((?n + 4) div 4)" "take ?n a = map Some fs" "h = handle_of ?n"
    "s' = s1\<lparr>task_func := Some (a[?n := Some f]), task_count := ?n + 1\<rparr>"
    by (auto simp: set_at_def split: if_splits)
  show "h = handle_of ?n" by (rule a(3))
  have "?n < length a" using a(1) by simp
  then have "take (Suc ?n) (a[?n := Some f]) = map Some (fs @ [f])"
    using a(2) by (simp add: take_Suc_conv_app_nth)
  then show "table s' (fs @ [f])" using a(1,4) by (simp add: table_def)
  show "queued cont s' = queued cont s" using a(4) same(1) by (simp add: queued_def fun_eq_iff)
  show "sem_pending s' = sem_pending s" using a(4) same by simp
  show "p < 3 \<Longrightarrow> task_Q s' p \<noteq> None" using a(4) Q by simp
qed


section \<open>Posts and the pump\<close>

lemma post_spec:
  assumes laws: "rtos_laws os cont cap" and p: "task_post os p h v s = (ok, s')"
  shows "queued cont s' p' = (if ok \<and> p' = p then queued cont s p @ [\<lparr>sig = h, par = v\<rparr>] else queued cont s p')"
    and "task_func s' = task_func s" and "task_count s' = task_count s"
    and "ok \<Longrightarrow> p < 3 \<and> h AND TASK_HANDLE_MASK = TASK_HANDLE_MONIKER"
proof -
  have send: "(\<exists>q'. q_send os q e = (True, q') \<and> cont q' = cont q @ [e]) \<or> (\<exists>q'. q_send os q e = (False, q') \<and> cont q' = cont q)" for q e
    using laws unfolding rtos_laws_def by (cases "length (cont q) < cap q") (fastforce simp: not_less)+
  have g: "task_Q (post_give x) = task_Q x" "task_func (post_give x) = task_func x" "task_count (post_give x) = task_count x"
    for x :: "('a, 'b) task_sys" by (simp_all add: post_give_def)
  show "queued cont s' p' = (if ok \<and> p' = p then queued cont s p @ [\<lparr>sig = h, par = v\<rparr>] else queued cont s p')"
  proof (cases "post_accepts s p h")
    case True
    then obtain q where "task_Q s p = Some q" by (auto simp: post_accepts_def)
    then show ?thesis using send [of q "\<lparr>sig = h, par = v\<rparr>"] p True
      by (auto simp: task_post_def post_send_def queued_def g)
  qed (use p in \<open>auto simp: task_post_def\<close>)
  show "task_func s' = task_func s" "task_count s' = task_count s"
    using p by (auto simp: task_post_def post_send_def g split: if_splits option.splits prod.splits)
  show "ok \<Longrightarrow> p < 3 \<and> h AND TASK_HANDLE_MASK = TASK_HANDLE_MONIKER"
    using p by (auto simp: task_post_def post_accepts_def TASK_PRIORITY_COUNT_def split: if_splits)
qed

text \<open>
  The log of a run: the callbacks registered, the events accepted at each priority and the calls made.
  The runs are those whose registrations succeed and whose posts are to registered handles.
\<close>

type_synonym 'f call = "nat \<times> task_event \<times> ('f option \<times> u32 \<times> nat) option"

inductive task_run ::
    "'q rtos \<Rightarrow> ('f option list option \<Rightarrow> nat \<Rightarrow> 'f option list option) \<Rightarrow>
       ('q, 'f) task_sys \<Rightarrow> 'f list \<Rightarrow> (nat \<times> task_event) list \<Rightarrow> 'f call list \<Rightarrow> bool" for os ralloc where
  boot: "task_run os ralloc \<lparr>task_Q = \<lambda>_. None, sem_pending = None, task_func = None, task_count = 0\<rparr> [] [] []"
| create: "task_run os ralloc s fs ps cs \<Longrightarrow> task_run os ralloc (s\<lparr>sem_pending := Some True\<rparr>) fs ps cs"
| register: "task_run os ralloc s fs ps cs \<Longrightarrow> task_get_id os ralloc f s = Some (h, s') \<Longrightarrow> h \<noteq> 0 \<Longrightarrow>
    length fs < 65536 \<Longrightarrow> task_run os ralloc s' (fs @ [f]) ps cs"
| post: "task_run os ralloc s fs ps cs \<Longrightarrow> i < length fs \<Longrightarrow> task_post os p (handle_of i) v s = (ok, s') \<Longrightarrow>
    task_run os ralloc s' fs (if ok then ps @ [(p, \<lparr>sig = handle_of i, par = v\<rparr>)] else ps) cs"
| handle: "task_run os ralloc s fs ps cs \<Longrightarrow> next_event os s = Some (e, p, s') \<Longrightarrow> pump_turn os s = Some (Inl c, s'') \<Longrightarrow>
    task_run os ralloc s'' fs ps (cs @ [(p, e, c)])"
| sleep: "task_run os ralloc s fs ps cs \<Longrightarrow> pump_turn os s = Some (Inr b, s') \<Longrightarrow> task_run os ralloc s' fs ps cs"

definition at_prio :: "nat \<Rightarrow> (nat \<times> 'a) list \<Rightarrow> 'a list" where
  "at_prio p xs = map snd (filter (\<lambda>x. fst x = p) xs)"

lemma at_prio_simps [simp]:
  "at_prio p [] = []" "at_prio p (xs @ ys) = at_prio p xs @ at_prio p ys" "at_prio p [(q, x)] = (if q = p then [x] else [])"
  by (simp_all add: at_prio_def)

definition call_ok :: "'f list \<Rightarrow> 'f call \<Rightarrow> bool" where
  "call_ok fs c \<longleftrightarrow> (\<exists>i < length fs. sig (fst (snd c)) = handle_of i \<and>
     snd (snd c) = Some (Some (fs ! i), par (fst (snd c)), fst c))"

lemma call_ok_mono: "call_ok fs c \<Longrightarrow> call_ok (fs @ gs) c"
proof -
  assume "call_ok fs c"
  then obtain i where "i < length fs" "sig (fst (snd c)) = handle_of i"
    "snd (snd c) = Some (Some (fs ! i), par (fst (snd c)), fst c)" by (auto simp: call_ok_def)
  then show ?thesis unfolding call_ok_def by (intro exI [of _ i]) (simp add: nth_append)
qed

definition known :: "'f list \<Rightarrow> task_event \<Rightarrow> bool" where
  "known fs e \<longleftrightarrow> (\<exists>i < length fs. sig e = handle_of i)"

lemma known_mono: "known fs e \<Longrightarrow> known (fs @ gs) e"
  by (auto simp: known_def intro: trans_less_add1)

lemma run_inv:
  assumes laws: "rtos_laws os cont cap" and ral: "realloc_laws ralloc" and run: "task_run os ralloc s fs ps cs"
  shows "table s fs \<and> length fs \<le> 65536 \<and> (\<forall>c \<in> set cs. call_ok fs c) \<and>
    (\<forall>p. at_prio p ps = map fst (at_prio p cs) @ queued cont s p) \<and>
    (\<forall>p. \<forall>e \<in> set (at_prio p ps). known fs e)"
  using run
proof induction
  case boot
  then show ?case by (simp add: table_def queued_def)
next
  case (create s fs ps cs)
  then show ?case by (simp add: table_def queued_def)
next
  case (register s fs ps cs f h s')
  have "table s fs" using register.IH by blast
  from register_step [OF laws ral this register(2,3)]
  have "table s' (fs @ [f])" "queued cont s' = queued cont s" by simp_all
  moreover have "\<forall>p. \<forall>e \<in> set (at_prio p ps). known (fs @ [f]) e" using register.IH known_mono by blast
  moreover have "\<forall>c \<in> set cs. call_ok (fs @ [f]) c" using register.IH call_ok_mono by blast
  ultimately show ?case using register.IH register(4) by (simp del: set_append)
next
  case (post s fs ps cs i p v ok s')
  note sp = post_spec [OF laws post(3)]
  have "table s' fs" using post.IH sp(2,3) by (simp add: table_def)
  moreover have "known fs \<lparr>sig = handle_of i, par = v\<rparr>" using post(2) by (auto simp: known_def)
  moreover have "\<forall>q. \<forall>e \<in> set (at_prio q ps). known fs e" using post.IH by blast
  ultimately have "\<forall>q. \<forall>e \<in> set (at_prio q (if ok then ps @ [(p, \<lparr>sig = handle_of i, par = v\<rparr>)] else ps)). known fs e"
    by auto
  moreover have "\<forall>q. at_prio q (if ok then ps @ [(p, \<lparr>sig = handle_of i, par = v\<rparr>)] else ps) = map fst (at_prio q cs) @ queued cont s' q"
    using post.IH by (simp add: sp(1))
  ultimately show ?case using post.IH \<open>table s' fs\<close> by blast
next
  case (handle s fs ps cs e p s' c s'')
  have d: "dispatch s' e p = Some c" "s'' = s'" using handle(2,3) by (auto simp: pump_turn_def)
  have lk: "look os p s = Some (e, s')" using next_event_some [OF laws handle(2)] .
  note l = look_some [OF laws lk]
  have "e \<in> set (at_prio p ps)" using handle.IH l(1) by simp
  then obtain i where i: "i < length fs" "sig e = handle_of i" using handle.IH unfolding known_def by blast
  have t: "table s' fs" using handle.IH l(3,4) by (simp add: table_def)
  have "dispatch s' \<lparr>sig = handle_of i, par = par e\<rparr> p = Some (Some (Some (fs ! i), par e, p))"
    using dispatch_registered [OF t _ i(1)] handle.IH by blast
  then have "c = Some (Some (fs ! i), par e, p)" using d(1) i(2) by (metis option.inject task_event.surjective old.unit.exhaust)
  then have "call_ok fs (p, e, c)" using i by (auto simp: call_ok_def)
  moreover have "queued cont s' q = (if q = p then tl (queued cont s p) else queued cont s q)" for q
    using l(1,2) by simp
  ultimately show ?case using handle.IH t l(1) d(2) by auto
next
  case (sleep s fs ps cs b s')
  have "task_Q s' = task_Q s" "task_func s' = task_func s" "task_count s' = task_count s"
    using sleep(2) by (auto simp: pump_turn_def sem_take_def split: option.splits prod.splits if_splits)
  then have "table s' fs = table s fs" "queued cont s' = queued cont s" by (simp_all add: table_def queued_def fun_eq_iff)
  then show ?case using sleep.IH by simp
qed


section \<open>The pump never sleeps on a queued event\<close>

text \<open>
  The pump's loop and the two halves of a post interleave: the queues are asked one by one, and an
  event is in its queue before the semaphore is given. A posts count is the posts in between.
\<close>

datatype pump_pc = Look nat | Dispatch task_event nat | Take

inductive pump_step ::
    "'q rtos \<Rightarrow> pump_pc \<times> nat \<times> ('q, 'f) task_sys \<Rightarrow> pump_pc \<times> nat \<times> ('q, 'f) task_sys \<Rightarrow> bool" for os where
  send: "post_accepts s p h \<Longrightarrow> post_send os p \<lparr>sig = h, par = v\<rparr> s = (ok, s') \<Longrightarrow>
    pump_step os (pc, k, s) (pc, k + 1, s')"
| give: "pump_step os (pc, Suc k, s) (pc, k, post_give s)"
| found: "look os p s = Some (e, s') \<Longrightarrow> pump_step os (Look (Suc p), k, s) (Dispatch e p, k, s')"
| empty: "look os p s = None \<Longrightarrow> pump_step os (Look (Suc p), k, s) (Look p, k, s)"
| none_left: "pump_step os (Look 0, k, s) (Take, k, s)"
| call: "dispatch s e p = Some c \<Longrightarrow> pump_step os (Dispatch e p, k, s) (Look TASK_PRIORITY_COUNT, k, s)"
| taken: "sem_take s = Some s' \<Longrightarrow> pump_step os (Take, k, s) (Look TASK_PRIORITY_COUNT, k, s')"

inductive pumping :: "'q rtos \<Rightarrow> pump_pc \<times> nat \<times> ('q, 'f) task_sys \<Rightarrow> bool" for os where
  start: "sem_pending s = Some True \<Longrightarrow> pumping os (Look TASK_PRIORITY_COUNT, k, s)"
| step: "pumping os x \<Longrightarrow> pump_step os x y \<Longrightarrow> pumping os y"

inductive_cases pump_stepE: "pump_step os (pc, k, s) y"

fun awake :: "('q \<Rightarrow> task_event list) \<Rightarrow> pump_pc \<times> nat \<times> ('q, 'f) task_sys \<Rightarrow> bool" where
  "awake cont (pc, k, s) \<longleftrightarrow> sem_pending s \<noteq> None \<and>
     (sem_pending s = Some True \<or> 0 < k \<or>
      (case pc of Look j \<Rightarrow> \<forall>p. j \<le> p \<and> p < TASK_PRIORITY_COUNT \<longrightarrow> queued cont s p = []
       | Dispatch e p \<Rightarrow> True
       | Take \<Rightarrow> \<forall>p < TASK_PRIORITY_COUNT. queued cont s p = []))"

lemma awake_step:
  assumes laws: "rtos_laws os cont cap"
  shows "pump_step os x y \<Longrightarrow> awake cont x \<Longrightarrow> awake cont y"
proof (induction rule: pump_step.induct)
  case (send s p h v ok s' pc k)
  then show ?case by (auto simp: post_send_def split: option.splits prod.splits)
next
  case (found p s e s' k)
  then show ?case using look_some(5) [OF laws found(1)] by auto
next
  case (empty p s k)
  then have "queued cont s p = []" using look_none [OF laws] by blast
  then show ?case using empty by (auto simp: le_Suc_eq Suc_le_eq) (metis le_antisym not_less)+
qed (auto simp: post_give_def sem_take_def split: if_splits)

section \<open>Properties\<close>

text \<open>
  C33: In every run in which the program creates the semaphore, registers callbacks with success (at most
  65536 of them), posts to handles it was given, and turns the pump, in any order: the events accepted by
  task_post at a priority are, in order, those handed to callbacks at that priority followed by those still
  queued, so none is lost, doubled or overtaken; and every call made is the one callback whose handle was
  posted, with the posted parameter and the priority. The queues and realloc keep their laws. Not
  covered: a registration that fails (a realloc that fails loses the table with all callbacks), posts to
  other handles, and callbacks beyond the 65536 that a 16-bit index can name.
\<close>

theorem task_delivery:
  assumes "rtos_laws os cont cap" "realloc_laws ralloc" "task_run os ralloc s fs ps cs"
  shows "at_prio p ps = map fst (at_prio p cs) @ queued cont s p \<and>
    (\<forall>(q, e, c) \<in> set cs. \<exists>i < length fs. sig e = handle_of i \<and> c = Some (Some (fs ! i), par e, q))"
proof -
  note r = run_inv [OF assms]
  have "call_ok fs (q, e, c)" if "(q, e, c) \<in> set cs" for q e c using r that by blast
  then have "\<forall>(q, e, c) \<in> set cs. \<exists>i < length fs. sig e = handle_of i \<and> c = Some (Some (fs ! i), par e, q)"
    by (fastforce simp: call_ok_def)
  then show ?thesis using r by blast
qed

text \<open>A turn of the pump takes the oldest event of the highest priority that has one, leaves the other queues, and
  turns to the semaphore only when all three queues are empty.\<close>

lemma task_priority:
  assumes "rtos_laws os cont cap"
  shows "case next_event os s of
      Some (e, p, s') \<Rightarrow> p < 3 \<and> queued cont s p = e # queued cont s' p \<and>
        (\<forall>p'. p < p' \<and> p' < 3 \<longrightarrow> queued cont s p' = []) \<and> (\<forall>p'. p' \<noteq> p \<longrightarrow> queued cont s' p' = queued cont s p')
    | None \<Rightarrow> \<forall>p < 3. queued cont s p = []"
proof (cases "next_event os s")
  case None
  then show ?thesis using next_loop_none [OF assms, of 3 s] by (simp add: next_event_def TASK_PRIORITY_COUNT_def)
next
  case (Some r)
  obtain e p s' where r: "r = (e, p, s')" by (cases r)
  have n: "p < 3 \<and> look os p s = Some (e, s') \<and> (\<forall>p'. p < p' \<and> p' < 3 \<longrightarrow> queued cont s p' = [])"
    using next_loop_some [OF assms, of 3 s e p s'] Some r by (simp add: next_event_def TASK_PRIORITY_COUNT_def)
  then have "look os p s = Some (e, s')" by blast
  from look_some(1,2) [OF assms this] show ?thesis using Some r n by simp
qed

text \<open>A registration gives a new handle, distinct from the earlier ones; it keeps what is queued and every earlier
  callback, and an event posted with a handle given out is dispatched to the callback registered for it.\<close>

lemma task_registration:
  assumes "rtos_laws os cont cap" "realloc_laws ralloc" "table s fs" "length fs < 65536"
    and "task_get_id os ralloc f s = Some (h, s')" "h \<noteq> 0"
  shows "h = handle_of (length fs) \<and> (\<forall>i < length fs. h \<noteq> handle_of i) \<and> queued cont s' = queued cont s \<and>
    (\<forall>i \<le> length fs. \<forall>v prio. dispatch s' \<lparr>sig = handle_of i, par = v\<rparr> prio = Some (Some (Some ((fs @ [f]) ! i), v, prio))) \<and>
    (\<forall>p < 3. post_accepts s' p h)"
proof -
  note r = register_step [OF assms(1-3,5,6)]
  have "\<forall>i < length fs. h \<noteq> handle_of i" using r(1) handle_of_inj [of "length fs"] assms(4) by auto
  moreover have "\<forall>i \<le> length fs. \<forall>v prio. dispatch s' \<lparr>sig = handle_of i, par = v\<rparr> prio =
      Some (Some (Some ((fs @ [f]) ! i), v, prio))"
    using dispatch_registered [OF r(2)] assms(4) by simp
  moreover have "\<forall>p < 3. post_accepts s' p h"
    using r(1,5) handle_entry(2) [OF assms(4)] by (simp add: post_accepts_def TASK_PRIORITY_COUNT_def)
  ultimately show ?thesis using r(1,3) by blast
qed

text \<open>C34: However posts from interrupts interleave with the pump's loop, the pump is never left waiting for the
  semaphore while an event is queued and no poster is about to give it.\<close>

theorem task_no_lost_wakeup:
  assumes "rtos_laws os cont cap" "pumping os (Take, 0, s)" "sem_take s = None" "p < 3"
  shows "queued cont s p = []"
proof -
  have "awake cont x" if "pumping os x" for x :: "pump_pc \<times> nat \<times> ('a, 'c) task_sys"
    using that by induction (simp_all add: TASK_PRIORITY_COUNT_def, use awake_step [OF assms(1)] in blast)
  from this [OF assms(2)] show ?thesis
    using assms(3,4) by (auto simp: sem_take_def TASK_PRIORITY_COUNT_def split: if_splits)
qed


section \<open>Witnesses\<close>

text \<open>A bounded list as a queue, a block that is copied as realloc, and a run that registers a callback, posts an event
  to it and hands it over.\<close>

definition list_rtos :: "(nat \<times> task_event list) rtos" where
  "list_rtos = \<lparr>q_create = \<lambda>n. Some (n, []),
     q_send = \<lambda>(n, es) e. if length es < n then (True, (n, es @ [e])) else (False, (n, es)),
     q_receive = \<lambda>(n, es). case es of [] \<Rightarrow> None | e # es \<Rightarrow> Some (e, (n, es))\<rparr>"

lemma list_rtos_laws: "rtos_laws list_rtos snd fst"
  by (auto simp: rtos_laws_def list_rtos_def split: list.splits)

definition copy_realloc :: "nat option list option \<Rightarrow> nat \<Rightarrow> nat option list option" where
  "copy_realloc old n = Some (take n (case old of None \<Rightarrow> [] | Some b \<Rightarrow> b)
     @ replicate (n - (case old of None \<Rightarrow> 0 | Some b \<Rightarrow> length b)) (Some 99))"

lemma copy_realloc_laws: "realloc_laws copy_realloc"
  by (auto simp: realloc_laws_def copy_realloc_def split: option.splits)

lemma replicate_4: "replicate 4 x = [x, x, x, x]"
  by (simp add: numeral_eq_Suc)

definition booted :: "(nat \<times> task_event list, nat) task_sys" where
  "booted = \<lparr>task_Q = \<lambda>_. None, sem_pending = None, task_func = None, task_count = 0\<rparr>"

definition one_task :: "(nat \<times> task_event list, nat) task_sys" where
  "one_task = snd (the (task_get_id list_rtos copy_realloc 7 booted))"

lemma register_one: "task_get_id list_rtos copy_realloc 7 booted = Some (0x68680000, one_task)"
  by (simp add: one_task_def task_get_id_def booted_def task_init_handler_def TASK_PRIORITY_COUNT_def numeral_3_eq_3
      list_rtos_def TASK_DEFAULT_QUEUE_LEN_def Let_def grow_def copy_realloc_def TASK_HANDLE_ALLOCATION_BRICK_def
      put_block_def set_at_def TASK_HANDLE_MONIKER_def)

lemma one_task_eq:
  "task_Q one_task p = (if p < 3 then Some (8, []) else None)" "sem_pending one_task = None"
  "task_func one_task = Some [Some 7, None, None, None]" "task_count one_task = 1"
  by (simp_all add: one_task_def task_get_id_def booted_def task_init_handler_def TASK_PRIORITY_COUNT_def numeral_3_eq_3
      list_rtos_def TASK_DEFAULT_QUEUE_LEN_def Let_def grow_def copy_realloc_def TASK_HANDLE_ALLOCATION_BRICK_def
      put_block_def set_at_def TASK_HANDLE_MONIKER_def less_Suc_eq numeral_2_eq_2 replicate_4)

lemma handle_of_0: "handle_of 0 = 0x68680000"
  by (simp add: handle_of_def TASK_HANDLE_MONIKER_def)

lemma table_booted: "table booted []"
  by (simp add: table_def booted_def)

lemma task_registration_witness:
  "dispatch one_task \<lparr>sig = 0x68680000, par = 5\<rparr> 2 = Some (Some (Some 7, 5, 2)) \<and> post_accepts one_task 2 0x68680000"
  using task_registration [OF list_rtos_laws copy_realloc_laws table_booted _ register_one] handle_of_0 by fastforce

definition posted :: "(nat \<times> task_event list, nat) task_sys" where
  "posted = snd (task_post list_rtos 1 (handle_of 0) 5 one_task)"

lemma post_one: "task_post list_rtos 1 (handle_of 0) 5 one_task = (True, posted)"
  by (simp add: posted_def task_post_def post_accepts_def TASK_PRIORITY_COUNT_def one_task_eq handle_of_0
      TASK_HANDLE_MASK_def TASK_HANDLE_MONIKER_def post_send_def list_rtos_def)

lemma queued_posted: "queued snd posted 1 = [\<lparr>sig = handle_of 0, par = 5\<rparr>]" "queued snd one_task p = []"
  using post_spec(1) [OF list_rtos_laws post_one, of 1] by (simp_all add: queued_def one_task_eq)

lemma task_delivery_witness:
  "\<exists>s cs. task_run list_rtos copy_realloc s [7] [(1, \<lparr>sig = handle_of 0, par = 5\<rparr>)] cs \<and>
     queued snd s 1 = [] \<and> map fst (at_prio 1 cs) = [\<lparr>sig = handle_of 0, par = 5\<rparr>]"
proof -
  have "task_run list_rtos copy_realloc booted [] [] []" unfolding booted_def by (rule boot)
  from task_run.register [OF this register_one] have "task_run list_rtos copy_realloc one_task [7] [] []" by simp
  from task_run.post [OF this _ post_one]
  have p: "task_run list_rtos copy_realloc posted [7] [(1, \<lparr>sig = handle_of 0, par = 5\<rparr>)] []" by simp
  have "next_event list_rtos posted \<noteq> None"
    using next_loop_none [OF list_rtos_laws, of 3 posted] queued_posted by (force simp: next_event_def TASK_PRIORITY_COUNT_def)
  then obtain e q s where n: "next_event list_rtos posted = Some (e, q, s)" by auto
  have q: "e = \<lparr>sig = handle_of 0, par = 5\<rparr> \<and> q = 1 \<and> queued snd s 1 = [] \<and> task_func s = task_func posted \<and> task_count s = task_count posted"
  proof -
    have l: "look list_rtos q posted = Some (e, s)" using next_event_some [OF list_rtos_laws n] .
    have "q = 1" using look_some(1) [OF list_rtos_laws l] post_spec(1) [OF list_rtos_laws post_one, of q]
      queued_posted(2) by (auto split: if_splits)
    then show ?thesis using look_some [OF list_rtos_laws l] queued_posted(1) by simp
  qed
  have "task_func posted = task_func one_task" "task_count posted = task_count one_task"
    using post_spec(2,3) [OF list_rtos_laws post_one] by simp_all
  then have "table s [7]" using q by (simp add: table_def one_task_eq)
  from dispatch_registered [OF this, of 0 5 1] obtain c where "dispatch s e q = Some c" using q by auto
  then have "pump_turn list_rtos posted = Some (Inl c, s)" using n by (simp add: pump_turn_def)
  from task_run.handle [OF p n this]
  have r: "task_run list_rtos copy_realloc s [7] [(1, \<lparr>sig = handle_of 0, par = 5\<rparr>)] [(q, e, c)]" by simp
  with q task_delivery [OF list_rtos_laws copy_realloc_laws r, of 1] show ?thesis by fastforce
qed

lemma task_priority_witness: "\<exists>e p s'. next_event list_rtos posted = Some (e, p, s') \<and> queued snd posted p = e # queued snd s' p"
proof (cases "next_event list_rtos posted")
  case None
  then show ?thesis using task_priority [OF list_rtos_laws, of posted] queued_posted(1) by (force split: option.splits)
next
  case (Some r)
  then show ?thesis using task_priority [OF list_rtos_laws, of posted] by (cases r) auto
qed

lemma task_no_lost_wakeup_witness:
  "\<exists>s :: (nat \<times> task_event list, nat) task_sys. pumping list_rtos (Take, 0, s) \<and> sem_take s = None \<and> queued snd s 1 = []"
proof -
  let ?s = "one_task\<lparr>sem_pending := Some True\<rparr>" and ?t = "one_task\<lparr>sem_pending := Some False\<rparr>"
  have k: "look list_rtos p s = None" if "s = ?s \<or> s = ?t" for p s
    using look_none [OF list_rtos_laws, of p s] that queued_posted(2) by (auto simp: queued_def)
  have e: "pumping list_rtos (Look 3, 0, s) \<Longrightarrow> pumping list_rtos (Take, 0, s)" if "s = ?s \<or> s = ?t" for s
  proof -
    assume "pumping list_rtos (Look 3, 0, s)"
    then have "pumping list_rtos (Look (Suc (Suc (Suc 0))), 0, s)" by (simp add: numeral_3_eq_3)
    then have "pumping list_rtos (Look (Suc (Suc 0)), 0, s)" using k [OF that] by (blast intro: pumping.step pump_step.empty)
    then have "pumping list_rtos (Look (Suc 0), 0, s)" using k [OF that] by (blast intro: pumping.step pump_step.empty)
    then have "pumping list_rtos (Look 0, 0, s)" using k [OF that] by (blast intro: pumping.step pump_step.empty)
    then show ?thesis by (blast intro: pumping.step pump_step.none_left)
  qed
  have "pumping list_rtos (Look 3, 0, ?s)" using pumping.start [of ?s list_rtos 0] by (simp add: TASK_PRIORITY_COUNT_def)
  from e [OF _ this] have "pumping list_rtos (Take, 0, ?s)" by simp
  moreover have "sem_take ?s = Some ?t" by (simp add: sem_take_def)
  ultimately have "pumping list_rtos (Look 3, 0, ?t)"
    using pump_step.taken [of ?s ?t list_rtos 0] by (auto simp: TASK_PRIORITY_COUNT_def intro: pumping.step)
  from e [OF _ this] have "pumping list_rtos (Take, 0, ?t)" "sem_take ?t = None" by (simp_all add: sem_take_def)
  from task_no_lost_wakeup [OF list_rtos_laws this, of 1] this show ?thesis by - (rule exI [of _ ?t], simp)
qed

end
