(* ===== verification/Utils_Datetime.thy ===== *)
theory Utils_Datetime
  imports LN_Prelude "HOL-Library.Signed_Division"
begin

unbundle bit_operations_syntax

text \<open>
  utils/datetime.c: POSIX seconds, calendar dates and RFC 3339 text. Overflow of a C int in the sums
  of days is the outer value None, the error return -1 the inner one; the conversion of the 64 bit
  quotient to an int wraps. The int64_t sums of tv_sec are integers (they are exact except within a
  week of the limits of the type). Strings are the characters before the zero.
\<close>

section \<open>The code\<close>

record clocktime =
  ct_year :: int
  ct_mon :: int
  ct_day :: int
  ct_hour :: int
  ct_min :: int
  ct_sec :: int
  ct_dow :: int
  ct_usec :: int

record os_timeval =
  tv_sec :: int
  tv_usec :: int

record os_timezone =
  tz_minuteswest :: int
  tz_dsttime :: int

definition leapyear :: "int \<Rightarrow> int" where
  "leapyear year =
     (let rv = 0
      in if year AND 3 = 0 then
           (let rv = 1
            in if year smod 100 = 0 then
                 (let rv = 0 in if year smod 400 = 0 then 1 else rv)
               else rv)
         else rv)"

definition isLeapyear :: "int \<Rightarrow> int" where
  "isLeapyear year = leapyear year"

definition days_in_year :: "int \<Rightarrow> int" where
  "days_in_year y = (if leapyear y \<noteq> 0 then 366 else 365)"

definition month_days :: "int list" where
  "month_days = [31, 28, 31, 30, 31, 30, 31, 31, 30, 31, 30, 31]"

definition days_in_month :: "int \<Rightarrow> int \<Rightarrow> int option" where
  "days_in_month y m =
     (if m < 1 then None else map_option (\<lambda>d. d + (if m = 2 then leapyear y else 0)) (get_at month_days (nat (m - 1))))"

definition day_of_week :: "int \<Rightarrow> int" where
  "day_of_week days = (days + 4) smod 7"

definition POSIX_BASE_YEAR :: int where "POSIX_BASE_YEAR = 1970"
definition SECDAY :: int where "SECDAY = 24 * 60 * 60"

function sum_years :: "int \<Rightarrow> int \<Rightarrow> int \<Rightarrow> int option" where
  "sum_years i year days =
     (if i < year then do { days \<leftarrow> i32 (days + days_in_year i); sum_years (i + 1) year days } else Some days)"
  by pat_completeness auto
termination by (relation "measure (\<lambda>(i, year, days). nat (year - i))") auto

function sum_months :: "int \<Rightarrow> int \<Rightarrow> int \<Rightarrow> int \<Rightarrow> int option" where
  "sum_months year i mon days =
     (if i < mon then do {
        n \<leftarrow> days_in_month year i;
        days \<leftarrow> i32 (days + n);
        sum_months year (i + 1) mon days
      } else Some days)"
  by pat_completeness auto
termination by (relation "measure (\<lambda>(year, i, mon, days). nat (mon - i))") auto

declare sum_years.simps [simp del] sum_months.simps [simp del]

definition clocktime_ok :: "clocktime \<Rightarrow> bool option" where
  "clocktime_ok ct =
     (if ct_year ct < POSIX_BASE_YEAR \<or> ct_mon ct < 1 \<or> ct_mon ct > 12 \<or> ct_day ct < 1 then Some False
      else do {
        n \<leftarrow> days_in_month (ct_year ct) (ct_mon ct);
        Some (\<not> (ct_day ct > n \<or> ct_hour ct < 0 \<or> ct_hour ct > 23 \<or> ct_min ct < 0 \<or> ct_min ct > 59 \<or>
          ct_sec ct < 0 \<or> ct_sec ct > 59 \<or> ct_usec ct < 0 \<or> ct_usec ct > 999999))
      })"

definition clocktime_to_timeval :: "clocktime \<Rightarrow> os_timeval option option" where
  "clocktime_to_timeval ct = do {
     ok \<leftarrow> clocktime_ok ct;
     if \<not> ok then Some None
     else do {
       days \<leftarrow> sum_years POSIX_BASE_YEAR (ct_year ct) 0;
       days \<leftarrow> sum_months (ct_year ct) 1 (ct_mon ct) days;
       days \<leftarrow> i32 (days + (ct_day ct - 1));
       Some (Some \<lparr>tv_sec = ((days * 24 + ct_hour ct) * 60 + ct_min ct) * 60 + ct_sec ct, tv_usec = ct_usec ct\<rparr>)
     }
   }"

text \<open>Conversion of an integer to a C int.\<close>

definition to_int :: "int \<Rightarrow> int" where
  "to_int x = (x + 2 ^ 31) mod 2 ^ 32 - 2 ^ 31"

function year_loop :: "int \<Rightarrow> int \<Rightarrow> int \<times> int" where
  "year_loop year days =
     (if days \<ge> days_in_year year then year_loop (year + 1) (days - days_in_year year) else (year, days))"
  by pat_completeness auto
termination by (relation "measure (\<lambda>(year, days). nat days)") (auto simp: days_in_year_def split: if_splits)

function month_loop :: "int \<Rightarrow> int \<Rightarrow> int \<Rightarrow> (int \<times> int) option" where
  "month_loop year i days =
     (case days_in_month year i of
        None \<Rightarrow> None
      | Some n \<Rightarrow> if days \<ge> n then month_loop year (i + 1) (days - n) else Some (i, days))"
  by pat_completeness auto
termination
  by (relation "measure (\<lambda>(year, i, days). nat (13 - i))")
    (auto simp: days_in_month_def get_at_def month_days_def split: if_splits)

declare year_loop.simps [simp del] month_loop.simps [simp del]

definition timeval_to_clocktime :: "os_timeval \<Rightarrow> os_timezone option \<Rightarrow> clocktime option option" where
  "timeval_to_clocktime tv tz =
     (let secs = tv_sec tv;
          secs = (case tz of None \<Rightarrow> secs
            | Some z \<Rightarrow> (secs - tz_minuteswest z * 60) + (if tz_dsttime z \<noteq> 0 then 3600 else 0))
      in if secs < 0 \<or> tv_usec tv < 0 \<or> tv_usec tv > 999999 then Some None
         else
           let days = to_int (secs div SECDAY);
               rsec = secs mod SECDAY;
               dow = day_of_week days;
               (year, days) = year_loop POSIX_BASE_YEAR days
           in do {
             (i, days) \<leftarrow> month_loop year 1 days;
             let hour = rsec div 3600;
             let rsec = rsec mod 3600;
             let minute = rsec div 60;
             let rsec = rsec mod 60;
             Some (Some \<lparr>ct_year = year, ct_mon = i, ct_day = days + 1, ct_hour = hour, ct_min = minute,
               ct_sec = rsec, ct_dow = dow, ct_usec = tv_usec tv\<rparr>)
           })"

definition isdigit :: "char \<Rightarrow> bool" where
  "isdigit c \<longleftrightarrow> 48 \<le> (of_char c :: nat) \<and> (of_char c :: nat) \<le> 57"

text \<open>The number and what follows it; a zero at the end of the string is no digit.\<close>

fun parse_number :: "string \<Rightarrow> nat \<Rightarrow> int \<Rightarrow> (int \<times> string) option" where
  "parse_number cs 0 val = Some (val, cs)"
| "parse_number [] (Suc n) val = None"
| "parse_number (c # cs) (Suc n) val = (if isdigit c then parse_number cs n (val * 10 + (int (of_char c) - 48)) else None)"

definition expect :: "char \<Rightarrow> string \<Rightarrow> string option" where
  "expect c cs = (case cs of [] \<Rightarrow> None | x # xs \<Rightarrow> if x = c then Some xs else None)"

text \<open>The fraction of a second, as microseconds.\<close>

definition parse_usec :: "string \<Rightarrow> (int \<times> string) option" where
  "parse_usec cp =
     (case cp of
        CHR ''.'' # cp \<Rightarrow>
          let digits = length (takeWhile isdigit cp)
          in if digits \<le> 0 \<or> digits > 6 then None
             else do { (u, cp) \<leftarrow> parse_number cp digits 0; Some (u * 10 ^ (6 - digits), cp) }
      | _ \<Rightarrow> Some (0, cp))"

definition parse_zone :: "string \<Rightarrow> (int \<times> string) option" where
  "parse_zone cp =
     (case cp of
        c # cp' \<Rightarrow>
          if c = CHR ''Z'' \<or> c = CHR ''z'' then Some (0, cp')
          else if c = CHR ''+'' \<or> c = CHR ''-'' then do {
            (off_hour, cp) \<leftarrow> parse_number cp' 2 0;
            cp \<leftarrow> expect CHR '':'' cp;
            (off_min, cp) \<leftarrow> parse_number cp 2 0;
            if off_hour < 0 \<or> off_hour > 23 \<or> off_min < 0 \<or> off_min > 59 then None
            else let minuteswest = off_hour * 60 + off_min
                 in if minuteswest > 18 * 60 then None
                    else Some (if c = CHR ''+'' then - minuteswest else minuteswest, cp)
          }
          else Some (0, cp)
      | [] \<Rightarrow> Some (0, cp))"

definition parse_datetime :: "string \<Rightarrow> (os_timeval \<times> os_timezone) option option" where
  "parse_datetime input =
     (case (do {
        (year, cp) \<leftarrow> parse_number input 4 0;
        cp \<leftarrow> expect CHR ''-'' cp;
        (mon, cp) \<leftarrow> parse_number cp 2 0;
        cp \<leftarrow> expect CHR ''-'' cp;
        (day, cp) \<leftarrow> parse_number cp 2 0;
        cp \<leftarrow> expect CHR ''T'' cp;
        (hour, cp) \<leftarrow> parse_number cp 2 0;
        cp \<leftarrow> expect CHR '':'' cp;
        (minute, cp) \<leftarrow> parse_number cp 2 0;
        cp \<leftarrow> expect CHR '':'' cp;
        (sec, cp) \<leftarrow> parse_number cp 2 0;
        (usec, cp) \<leftarrow> parse_usec cp;
        (minuteswest, cp) \<leftarrow> parse_zone cp;
        if cp \<noteq> [] then None
        else Some (\<lparr>ct_year = year, ct_mon = mon, ct_day = day, ct_hour = hour, ct_min = minute, ct_sec = sec,
               ct_dow = 0, ct_usec = usec\<rparr>, \<lparr>tz_minuteswest = minuteswest, tz_dsttime = 0\<rparr>)
      }) of
        None \<Rightarrow> Some None
      | Some (ct, tz) \<Rightarrow> do {
          r \<leftarrow> clocktime_to_timeval ct;
          Some (map_option (\<lambda>tv. (tv\<lparr>tv_sec := (tv_sec tv + tz_minuteswest tz * 60)
            - (if tz_dsttime tz \<noteq> 0 then 3600 else 0)\<rparr>, tz)) r)
        })"

text \<open>printf's %0wd for an int.\<close>

fun decimal :: "nat \<Rightarrow> string" where
  "decimal n = (if n < 10 then [] else decimal (n div 10)) @ [char_of (48 + n mod 10)]"

declare decimal.simps [simp del]

definition print_0d :: "nat \<Rightarrow> int \<Rightarrow> string" where
  "print_0d w n =
     (let s = decimal (nat \<bar>n\<bar>)
      in if n < 0 then CHR ''-'' # replicate (w - 1 - length s) CHR ''0'' @ s else replicate (w - length s) CHR ''0'' @ s)"

text \<open>snprintf at the end of what has been written: the text and the room that is left, if it fits.\<close>

definition snprintf :: "string \<Rightarrow> string \<times> int \<Rightarrow> (string \<times> int) option" where
  "snprintf text out =
     (if snd out - int (length text) \<le> 0 then None else Some (fst out @ text, snd out - int (length text)))"

definition format_clock :: "clocktime \<Rightarrow> string" where
  "format_clock ct = print_0d 4 (ct_year ct) @ CHR ''-'' # print_0d 2 (ct_mon ct) @ CHR ''-'' # print_0d 2 (ct_day ct)
     @ CHR ''T'' # print_0d 2 (ct_hour ct) @ CHR '':'' # print_0d 2 (ct_min ct) @ CHR '':'' # print_0d 2 (ct_sec ct)"

definition minutes_west :: "os_timezone option \<Rightarrow> int" where
  "minutes_west tz = (case tz of None \<Rightarrow> 0
     | Some z \<Rightarrow> if tz_dsttime z \<noteq> 0 then tz_minuteswest z - 60 else tz_minuteswest z)"

definition format_datetime :: "os_timeval \<Rightarrow> os_timezone option \<Rightarrow> int \<Rightarrow> string option option" where
  "format_datetime tv tz olen = do {
     r \<leftarrow> timeval_to_clocktime tv tz;
     Some (case r of
       None \<Rightarrow> None
     | Some ct \<Rightarrow> do {
         out \<leftarrow> snprintf (format_clock ct) ([], olen);
         out \<leftarrow> (if ct_usec ct \<noteq> 0 then snprintf (CHR ''.'' # print_0d 6 (ct_usec ct)) out else Some out);
         let minswest = minutes_west tz;
         let sign = (if minswest < 0 then CHR ''+'' else CHR ''-'');
         let minswest = (if minswest < 0 then - minswest else minswest);
         let off_hour = minswest div 60;
         let off_min = minswest mod 60;
         out \<leftarrow> (if off_hour \<noteq> 0 \<or> off_min \<noteq> 0
                then snprintf (sign # print_0d 2 off_hour @ CHR '':'' # print_0d 2 off_min) out else Some out);
         Some (fst out)
       })
   }"

section \<open>The calendar\<close>

lemma leapyear_gregorian:
  "leapyear y = (if 4 dvd y \<and> (\<not> 100 dvd y \<or> 400 dvd y) then 1 else 0)"
proof -
  have a: "y AND 3 = 0 \<longleftrightarrow> 4 dvd y"
    using take_bit_eq_mask [of 2 y] by (simp add: mask_eq_exp_minus_1 take_bit_eq_mod dvd_eq_mod_eq_0)
  have s: "y smod n = 0 \<longleftrightarrow> n dvd y" if "0 < n" for n
    using that by (auto simp: signed_modulo_int_def sgn_if simp flip: dvd_eq_mod_eq_0)
  show ?thesis using s [of 100] s [of 400] by (auto simp: leapyear_def a Let_def)
qed

lemma days_in_year_bounds: "365 \<le> days_in_year y" "days_in_year y \<le> 366" "0 < days_in_year y"
  by (simp_all add: days_in_year_def)

definition month_len :: "int \<Rightarrow> int \<Rightarrow> int" where
  "month_len y m = month_days ! nat (m - 1) + (if m = 2 then leapyear y else 0)"

lemma days_in_month_len: "1 \<le> m \<Longrightarrow> m \<le> 12 \<Longrightarrow> days_in_month y m = Some (month_len y m)"
  by (auto simp: days_in_month_def month_len_def get_at_def month_days_def)

text \<open>Days before a year and before a month of a year.\<close>

definition year_start :: "int \<Rightarrow> int" where
  "year_start y = sum_list (map (\<lambda>k. days_in_year (1970 + int k)) [0..<nat (y - 1970)])"

definition month_start :: "int \<Rightarrow> int \<Rightarrow> int" where
  "month_start y m = sum_list (map (\<lambda>k. month_len y (1 + int k)) [0..<nat (m - 1)])"

lemma year_start_Suc: "1970 \<le> y \<Longrightarrow> year_start (y + 1) = year_start y + days_in_year y"
proof -
  assume "1970 \<le> y"
  then have "nat (y + 1 - 1970) = Suc (nat (y - 1970))" by simp
  then show ?thesis using \<open>1970 \<le> y\<close> by (simp add: year_start_def)
qed

lemma month_start_Suc: "1 \<le> m \<Longrightarrow> month_start y (m + 1) = month_start y m + month_len y m"
proof -
  assume "1 \<le> m"
  then have "nat (m + 1 - 1) = Suc (nat (m - 1))" by simp
  then show ?thesis using \<open>1 \<le> m\<close> by (simp add: month_start_def)
qed

lemma start_1 [simp]: "year_start 1970 = 0" "month_start y 1 = 0"
  by (simp_all add: year_start_def month_start_def)

lemma month_start_13: "month_start y 13 = days_in_year y"
  by (simp add: month_start_def month_len_def month_days_def upt_rec days_in_year_def leapyear_gregorian)


lemma month_len_bounds: "1 \<le> m \<Longrightarrow> m \<le> 12 \<Longrightarrow> 28 \<le> month_len y m" "1 \<le> m \<Longrightarrow> m \<le> 12 \<Longrightarrow> month_len y m \<le> 31"
proof -
  have c: "1 \<le> m \<Longrightarrow> m \<le> 12 \<Longrightarrow> m = 1 \<or> m = 2 \<or> m = 3 \<or> m = 4 \<or> m = 5 \<or> m = 6 \<or> m = 7 \<or> m = 8 \<or> m = 9 \<or> m = 10 \<or> m = 11 \<or> m = 12"
    by presburger
  have l: "leapyear y = 0 \<or> leapyear y = 1" by (simp add: leapyear_gregorian)
  show "1 \<le> m \<Longrightarrow> m \<le> 12 \<Longrightarrow> 28 \<le> month_len y m" "1 \<le> m \<Longrightarrow> m \<le> 12 \<Longrightarrow> month_len y m \<le> 31"
    using c l by (auto simp: month_len_def month_days_def)
qed

lemma sum_years_spec:
  "1970 \<le> i \<Longrightarrow> i \<le> year \<Longrightarrow> 0 \<le> days \<Longrightarrow> days + 366 * (year - i) < 2 ^ 31 \<Longrightarrow>
     sum_years i year days = Some (days + year_start year - year_start i)"
proof (induction i year days rule: sum_years.induct)
  case (1 i year days)
  show ?case
  proof (cases "i < year")
    case True
    have b: "366 * (year - i) = 366 * (year - (i + 1)) + 366" by simp
    have i: "i32 (days + days_in_year i) = Some (days + days_in_year i)"
      using 1(4,5) True days_in_year_bounds [of i] by (simp add: i32_def)
    have "sum_years (i + 1) year (days + days_in_year i) = Some (days + days_in_year i + year_start year - year_start (i + 1))"
      using 1(2-5) True i b days_in_year_bounds [of i] by (intro 1(1)) auto
    then show ?thesis using True i year_start_Suc [OF 1(2)] by (subst sum_years.simps) simp
  next
    case False
    then show ?thesis using 1(3) by (subst sum_years.simps) simp
  qed
qed

lemma sum_months_spec:
  "1 \<le> i \<Longrightarrow> i \<le> mon \<Longrightarrow> mon \<le> 13 \<Longrightarrow> 0 \<le> days \<Longrightarrow> days + 31 * (mon - i) < 2 ^ 31 \<Longrightarrow>
     sum_months year i mon days = Some (days + month_start year mon - month_start year i)"
proof (induction year i mon days rule: sum_months.induct)
  case (1 year i mon days)
  show ?case
  proof (cases "i < mon")
    case True
    have b: "31 * (mon - i) = 31 * (mon - (i + 1)) + 31" by simp
    have m: "28 \<le> month_len year i" "month_len year i \<le> 31" using month_len_bounds 1 True by simp_all
    have d: "days_in_month year i = Some (month_len year i)" using days_in_month_len 1 True by simp
    have i: "i32 (days + month_len year i) = Some (days + month_len year i)"
      using 1(5,6) True m by (simp add: i32_def)
    have "sum_months year (i + 1) mon (days + month_len year i) =
        Some (days + month_len year i + month_start year mon - month_start year (i + 1))"
      using 1(2-6) True i b m d by (intro 1(1)) auto
    then show ?thesis using True i d month_start_Suc [OF 1(2)] by (subst sum_months.simps) simp
  next
    case False
    then show ?thesis using 1(3) by (subst sum_months.simps) simp
  qed
qed

lemma year_loop_spec:
  "1970 \<le> y \<Longrightarrow> 0 \<le> d \<Longrightarrow> year_loop y d = (y', d') \<Longrightarrow>
     y \<le> y' \<and> 0 \<le> d' \<and> d' < days_in_year y' \<and> year_start y' + d' = year_start y + d"
proof (induction y d rule: year_loop.induct)
  case (1 y d)
  show ?case
  proof (cases "days_in_year y \<le> d")
    case True
    then have "year_loop (y + 1) (d - days_in_year y) = (y', d')" using 1(4) by (subst (asm) year_loop.simps) simp
    with 1(1) [OF True] 1(2) True year_start_Suc [OF 1(2)] show ?thesis by simp
  next
    case False
    then show ?thesis using 1(3,4) by (subst (asm) year_loop.simps) simp
  qed
qed

lemma month_loop_spec:
  "1 \<le> i \<Longrightarrow> i \<le> 12 \<Longrightarrow> 0 \<le> d \<Longrightarrow> month_start y i + d < days_in_year y \<Longrightarrow>
     \<exists>i' d'. month_loop y i d = Some (i', d') \<and> i \<le> i' \<and> i' \<le> 12 \<and> 0 \<le> d' \<and> d' < month_len y i' \<and>
       month_start y i' + d' = month_start y i + d"
proof (induction y i d rule: month_loop.induct)
  case (1 y i d)
  have m: "days_in_month y i = Some (month_len y i)" using days_in_month_len 1(2,3) .
  note s = month_start_Suc [OF 1(2), of y]
  show ?case
  proof (cases "month_len y i \<le> d")
    case True
    have "i + 1 \<le> 12"
    proof (rule ccontr)
      assume "\<not> i + 1 \<le> 12"
      then have "i + 1 = 13" using 1(3) by simp
      then show False using True s month_start_13 [of y] 1(5) by simp
    qed
    from 1(1) [OF m True _ this] obtain i' d' where
      "month_loop y (i + 1) (d - month_len y i) = Some (i', d')" "i + 1 \<le> i'" "i' \<le> 12" "0 \<le> d'" "d' < month_len y i'"
      "month_start y i' + d' = month_start y (i + 1) + (d - month_len y i)"
      using 1(2-5) True s by auto
    then show ?thesis using True m s by (subst month_loop.simps) auto
  next
    case False
    then show ?thesis using 1 m by (subst month_loop.simps) auto
  qed
qed

lemma year_start_mono: "1970 \<le> a \<Longrightarrow> a \<le> b \<Longrightarrow> year_start a \<le> year_start b"
proof (induction "nat (b - a)" arbitrary: b)
  case (Suc n)
  then have "year_start a \<le> year_start (b - 1)" by simp
  moreover have "year_start (b - 1 + 1) = year_start (b - 1) + days_in_year (b - 1)" using Suc by (intro year_start_Suc) simp
  ultimately show ?case using days_in_year_bounds(3) [of "b - 1"] by simp
qed simp

lemma month_start_mono: "1 \<le> a \<Longrightarrow> a \<le> b \<Longrightarrow> b \<le> 13 \<Longrightarrow> month_start y a \<le> month_start y b"
proof (induction "nat (b - a)" arbitrary: b)
  case (Suc n)
  have "month_start y a \<le> month_start y (b - 1)"
    using Suc.hyps(2) Suc.prems by (intro Suc.hyps(1)) auto
  moreover have "month_start y (b - 1 + 1) = month_start y (b - 1) + month_len y (b - 1)" using Suc by (intro month_start_Suc) simp
  moreover have "a < b" using Suc.hyps(2) by linarith
  then have "0 \<le> month_len y (b - 1)" using month_len_bounds(1) [of "b - 1" y] Suc(3-5) by simp
  ultimately show ?case by simp
qed simp

lemma year_loop_unique:
  assumes "1970 \<le> y" "0 \<le> d" "d < days_in_year y"
  shows "year_loop 1970 (year_start y + d) = (y, d)"
proof -
  obtain y' d' where l: "year_loop 1970 (year_start y + d) = (y', d')" by fastforce
  have "0 \<le> year_start y" using year_start_mono [of 1970 y] assms(1) by simp
  then have s: "1970 \<le> y'" "0 \<le> d'" "d' < days_in_year y'" "year_start y' + d' = year_start y + d"
    using year_loop_spec [OF _ _ l] assms(2) by auto
  have "y' = y"
    using s assms year_start_mono [of "y + 1" y'] year_start_mono [of "y' + 1" y] year_start_Suc [of y] year_start_Suc [of y']
    by (cases y y' rule: linorder_cases) auto
  then show ?thesis using l s(4) by simp
qed

lemma month_loop_unique:
  assumes "1 \<le> m" "m \<le> 12" "0 \<le> d" "d < month_len y m"
  shows "month_loop y 1 (month_start y m + d) = Some (m, d)"
proof -
  have b: "0 \<le> month_start y m" "month_start y (m + 1) \<le> days_in_year y"
    using month_start_mono [of 1 m y] month_start_mono [of "m + 1" 13 y] assms(1,2) by (simp_all add: month_start_13)
  then obtain m' d' where l: "month_loop y 1 (month_start y m + d) = Some (m', d')"
    and s: "1 \<le> m'" "m' \<le> 12" "0 \<le> d'" "d' < month_len y m'" "month_start y m' + d' = month_start y m + d"
    using month_loop_spec [of 1 "month_start y m + d" y] month_start_Suc [OF assms(1), of y] assms by auto
  have "m' = m"
    using s assms month_start_mono [of "m + 1" m' y] month_start_mono [of "m' + 1" m y]
      month_start_Suc [of m y] month_start_Suc [of m' y]
    by (cases m m' rule: linorder_cases) auto
  then show ?thesis using l s(5) by simp
qed


section \<open>Between dates and seconds\<close>

definition valid_time :: "clocktime \<Rightarrow> bool" where
  "valid_time ct \<longleftrightarrow> 1970 \<le> ct_year ct \<and> 1 \<le> ct_mon ct \<and> ct_mon ct \<le> 12 \<and>
     1 \<le> ct_day ct \<and> ct_day ct \<le> month_len (ct_year ct) (ct_mon ct) \<and> 0 \<le> ct_hour ct \<and> ct_hour ct \<le> 23 \<and>
     0 \<le> ct_min ct \<and> ct_min ct \<le> 59 \<and> 0 \<le> ct_sec ct \<and> ct_sec ct \<le> 59 \<and> 0 \<le> ct_usec ct \<and> ct_usec ct \<le> 999999"

definition days_of :: "clocktime \<Rightarrow> int" where
  "days_of ct = year_start (ct_year ct) + month_start (ct_year ct) (ct_mon ct) + (ct_day ct - 1)"

definition seconds_of :: "clocktime \<Rightarrow> int" where
  "seconds_of ct = ((days_of ct * 24 + ct_hour ct) * 60 + ct_min ct) * 60 + ct_sec ct"

lemma clocktime_ok_valid: "clocktime_ok ct = Some (valid_time ct)"
proof (cases "ct_year ct < 1970 \<or> ct_mon ct < 1 \<or> ct_mon ct > 12 \<or> ct_day ct < 1")
  case False
  then show ?thesis using days_in_month_len [of "ct_mon ct" "ct_year ct"]
    by (auto simp: clocktime_ok_def valid_time_def POSIX_BASE_YEAR_def)
qed (auto simp: clocktime_ok_def valid_time_def POSIX_BASE_YEAR_def)

lemma year_start_bound: "1970 \<le> y \<Longrightarrow> 0 \<le> year_start y \<and> year_start y \<le> 366 * (y - 1970)"
proof (induction "nat (y - 1970)" arbitrary: y)
  case (Suc n)
  have "0 \<le> year_start (y - 1) \<and> year_start (y - 1) \<le> 366 * (y - 1 - 1970)"
    using Suc.hyps(2) Suc.prems by (intro Suc.hyps(1)) auto
  moreover have "year_start (y - 1 + 1) = year_start (y - 1) + days_in_year (y - 1)"
    using Suc.hyps(2) by (intro year_start_Suc) auto
  ultimately show ?case using days_in_year_bounds [of "y - 1"] by simp
qed simp

lemma days_of_bounds:
  assumes "valid_time ct"
  shows "0 \<le> days_of ct" "days_of ct < 366 * (ct_year ct - 1969)"
    "month_start (ct_year ct) (ct_mon ct) + (ct_day ct - 1) < days_in_year (ct_year ct)"
    "0 \<le> month_start (ct_year ct) (ct_mon ct)"
proof -
  let ?y = "ct_year ct" and ?m = "ct_mon ct"
  have v: "1970 \<le> ?y" "1 \<le> ?m" "?m \<le> 12" "1 \<le> ct_day ct" "ct_day ct \<le> month_len ?y ?m"
    using assms by (simp_all add: valid_time_def)
  show m: "0 \<le> month_start ?y ?m" using month_start_mono [of 1 ?m ?y] v by simp
  show d: "month_start ?y ?m + (ct_day ct - 1) < days_in_year ?y"
    using month_start_Suc [of ?m ?y] month_start_mono [of "?m + 1" 13 ?y] v by (simp add: month_start_13)
  show "0 \<le> days_of ct" using year_start_bound [of ?y] v m by (simp add: days_of_def)
  show "days_of ct < 366 * (ct_year ct - 1969)"
    using year_start_bound [of ?y] v d days_in_year_bounds [of ?y] by (simp add: days_of_def)
qed

lemma to_timeval:
  assumes "ct_year ct \<le> 9999"
  shows "clocktime_to_timeval ct =
    Some (if valid_time ct then Some \<lparr>tv_sec = seconds_of ct, tv_usec = ct_usec ct\<rparr> else None)"
proof (cases "valid_time ct")
  case True
  let ?y = "ct_year ct" and ?m = "ct_mon ct"
  have v: "1970 \<le> ?y" "1 \<le> ?m" "?m \<le> 12" using True by (simp_all add: valid_time_def)
  note b = days_of_bounds [OF True] year_start_bound [OF v(1)]
  have "sum_years 1970 ?y 0 = Some (year_start ?y)" using sum_years_spec [of 1970 ?y 0] v assms by simp
  moreover have "sum_months ?y 1 ?m (year_start ?y) = Some (year_start ?y + month_start ?y ?m)"
    using sum_months_spec [of 1 ?m "year_start ?y" ?y] v b assms by simp
  moreover have "i32 (year_start ?y + month_start ?y ?m + (ct_day ct - 1)) = Some (days_of ct)"
    using b assms by (simp add: i32_def days_of_def)
  ultimately show ?thesis using True
    by (simp add: clocktime_to_timeval_def clocktime_ok_valid POSIX_BASE_YEAR_def seconds_of_def)
qed (simp add: clocktime_to_timeval_def clocktime_ok_valid)

lemma div_mod_clock:
  assumes "0 \<le> h" "h \<le> 23" "0 \<le> m" "m \<le> 59" "0 \<le> s" "s \<le> (59 :: int)"
  shows "(((d * 24 + h) * 60 + m) * 60 + s) div 86400 = d" "(((d * 24 + h) * 60 + m) * 60 + s) mod 86400 = (h * 60 + m) * 60 + s"
    "((h * 60 + m) * 60 + s) div 3600 = h" "((h * 60 + m) * 60 + s) mod 3600 = m * 60 + s"
    "(m * 60 + s) div 60 = m" "(m * 60 + s) mod 60 = s"
proof -
  have e: "((d * 24 + h) * 60 + m) * 60 + s = d * 86400 + ((h * 60 + m) * 60 + s)" "(h * 60 + m) * 60 + s = h * 3600 + (m * 60 + s)"
    by (simp_all add: algebra_simps)
  have q: "(a * c + b) div c = a \<and> (a * c + b) mod c = b" if "0 \<le> b" "b < c" for a b c :: int
    using that by (simp add: div_pos_pos_trivial)
  show "(((d * 24 + h) * 60 + m) * 60 + s) div 86400 = d" "(((d * 24 + h) * 60 + m) * 60 + s) mod 86400 = (h * 60 + m) * 60 + s"
    unfolding e(1) using q [of "(h * 60 + m) * 60 + s" 86400 d] assms by simp_all
  show "((h * 60 + m) * 60 + s) div 3600 = h" "((h * 60 + m) * 60 + s) mod 3600 = m * 60 + s"
    unfolding e(2) using q [of "m * 60 + s" 3600 h] assms by simp_all
  show "(m * 60 + s) div 60 = m" "(m * 60 + s) mod 60 = s" using q [of s 60 m] assms by simp_all
qed

definition local_secs :: "os_timeval \<Rightarrow> os_timezone option \<Rightarrow> int" where
  "local_secs tv tz = (case tz of None \<Rightarrow> tv_sec tv
     | Some z \<Rightarrow> (tv_sec tv - tz_minuteswest z * 60) + (if tz_dsttime z \<noteq> 0 then 3600 else 0))"

lemma to_int_id: "- (2 ^ 31) \<le> x \<Longrightarrow> x < 2 ^ 31 \<Longrightarrow> to_int x = x"
  by (simp add: to_int_def)

lemma clock_bounds:
  fixes r :: int
  assumes "0 \<le> r" "r < 86400"
  shows "0 \<le> r div 3600" "r div 3600 \<le> 23" "0 \<le> r mod 3600 div 60" "r mod 3600 div 60 \<le> 59" "0 \<le> r mod 3600 mod 60"
    "r mod 3600 mod 60 \<le> 59" "((r div 3600) * 60 + r mod 3600 div 60) * 60 + r mod 3600 mod 60 = r"
proof -
  show "0 \<le> r div 3600" "r div 3600 \<le> 23" using assms zdiv_mono1 [of r 86399 3600] by (simp_all add: pos_imp_zdiv_nonneg_iff)
  show "0 \<le> r mod 3600 div 60" by (simp add: pos_imp_zdiv_nonneg_iff)
  show "r mod 3600 div 60 \<le> 59" using zdiv_mono1 [of "r mod 3600" 3599 60] by simp
  show "0 \<le> r mod 3600 mod 60" "r mod 3600 mod 60 \<le> 59" using pos_mod_bound [of 60 "r mod 3600"] by simp_all
  have "((r div 3600) * 60 + r mod 3600 div 60) * 60 + r mod 3600 mod 60
      = (r div 3600) * 3600 + ((r mod 3600 div 60) * 60 + r mod 3600 mod 60)" by (simp add: algebra_simps)
  then show "((r div 3600) * 60 + r mod 3600 div 60) * 60 + r mod 3600 mod 60 = r" by (simp only: div_mult_mod_eq)
qed

lemma from_timeval:
  assumes "0 \<le> local_secs tv tz" "local_secs tv tz < 2 ^ 31 * 86400" "0 \<le> tv_usec tv" "tv_usec tv \<le> 999999"
  shows "\<exists>ct. timeval_to_clocktime tv tz = Some (Some ct) \<and> valid_time ct \<and> seconds_of ct = local_secs tv tz \<and>
    ct_usec ct = tv_usec tv \<and> ct_dow ct = (local_secs tv tz div 86400 + 4) mod 7"
proof -
  let ?s = "local_secs tv tz" and ?d = "local_secs tv tz div 86400" and ?r = "local_secs tv tz mod 86400"
  have d: "0 \<le> ?d" "?d < 2 ^ 31" "to_int ?d = ?d" using assms(1,2) by (simp_all add: to_int_id div_less)
  obtain y e where y: "year_loop 1970 ?d = (y, e)" by fastforce
  have ys: "1970 \<le> y" "0 \<le> e" "e < days_in_year y" "year_start y + e = ?d" using year_loop_spec [OF _ d(1) y] by simp_all
  obtain m k where m: "month_loop y 1 e = Some (m, k)" "1 \<le> m" "m \<le> 12" "0 \<le> k" "k < month_len y m" "month_start y m + k = e"
    using month_loop_spec [of 1 e y] ys by auto
  have r: "0 \<le> ?r" "?r < 86400" by simp_all
  note cb = clock_bounds [OF r]
  define h mi sec where "h = ?r div 3600" and "mi = ?r mod 3600 div 60" and "sec = ?r mod 3600 mod 60"
  let ?ct = "\<lparr>ct_year = y, ct_mon = m, ct_day = k + 1, ct_hour = h, ct_min = mi,
    ct_sec = sec, ct_dow = day_of_week ?d, ct_usec = tv_usec tv\<rparr>"
  have "timeval_to_clocktime tv tz = Some (Some ?ct)"
    using assms y m(1) d(3)
    by (simp add: timeval_to_clocktime_def local_secs_def [symmetric] SECDAY_def POSIX_BASE_YEAR_def Let_def h_def mi_def sec_def)
  moreover have "valid_time ?ct"
    using ys(1) m(2-5) assms(3,4) cb(1-6) [folded h_def mi_def sec_def] by (simp add: valid_time_def)
  moreover have "seconds_of ?ct = ?s"
  proof -
    have "days_of ?ct = ?d" using ys m by (simp add: days_of_def)
    then have "seconds_of ?ct = ?d * 86400 + ((h * 60 + mi) * 60 + sec)" by (simp add: seconds_of_def algebra_simps)
    also have "\<dots> = ?s" unfolding cb(7) [folded h_def mi_def sec_def] by (rule div_mult_mod_eq)
    finally show ?thesis .
  qed
  moreover have "day_of_week ?d = (?d + 4) mod 7"
    using d by (simp add: day_of_week_def signed_modulo_int_def)
  ultimately show ?thesis by auto
qed


lemma from_timeval_unique:
  assumes v: "valid_time ct" and s: "local_secs tv tz = seconds_of ct" "ct_usec ct = tv_usec tv" and b: "days_of ct < 2 ^ 31"
  shows "timeval_to_clocktime tv tz = Some (Some (ct\<lparr>ct_dow := (days_of ct + 4) mod 7\<rparr>))"
proof -
  let ?y = "ct_year ct" and ?m = "ct_mon ct"
  have c: "0 \<le> ct_hour ct" "ct_hour ct \<le> 23" "0 \<le> ct_min ct" "ct_min ct \<le> 59" "0 \<le> ct_sec ct" "ct_sec ct \<le> 59"
    "0 \<le> ct_usec ct" "ct_usec ct \<le> 999999" "1970 \<le> ?y" "1 \<le> ?m" "?m \<le> 12" "1 \<le> ct_day ct" "ct_day ct \<le> month_len ?y ?m"
    using v by (simp_all add: valid_time_def)
  note e = div_mod_clock [OF c(1-6)]
  note d = days_of_bounds [OF v]
  have y: "year_loop 1970 (days_of ct) = (?y, month_start ?y ?m + (ct_day ct - 1))"
    using year_loop_unique [of ?y "month_start ?y ?m + (ct_day ct - 1)"] c d by (simp add: days_of_def add.assoc)
  have m: "month_loop ?y 1 (month_start ?y ?m + (ct_day ct - 1)) = Some (?m, ct_day ct - 1)"
    using month_loop_unique [of ?m "ct_day ct - 1" ?y] c by simp
  have w: "day_of_week (days_of ct) = (days_of ct + 4) mod 7" using d(1) by (simp add: day_of_week_def signed_modulo_int_def)
  have sg: "seconds_of ct = ((days_of ct * 24 + ct_hour ct) * 60 + ct_min ct) * 60 + ct_sec ct" by (simp add: seconds_of_def)
  have pos: "\<not> seconds_of ct < 0" using d(1) c unfolding sg by simp
  have q: "seconds_of ct div 86400 = days_of ct" "seconds_of ct mod 86400 = (ct_hour ct * 60 + ct_min ct) * 60 + ct_sec ct"
    unfolding sg by (rule e(1), rule e(2))
  have t: "to_int (days_of ct) = days_of ct" using b d(1) by (simp add: to_int_id)
  have sd: "24 * 60 * 60 = (86400 :: int)" by simp
  have g: "(seconds_of ct < 0 \<or> tv_usec tv < 0 \<or> 999999 < tv_usec tv) = False" using pos c(7,8) s(2) by auto
  have c60: "ct_sec ct mod 60 = ct_sec ct" using c(5,6) by simp
  have "timeval_to_clocktime tv tz = Some (Some \<lparr>ct_year = ?y, ct_mon = ?m, ct_day = ct_day ct - 1 + 1, ct_hour = ct_hour ct,
      ct_min = ct_min ct, ct_sec = ct_sec ct, ct_dow = (days_of ct + 4) mod 7, ct_usec = tv_usec tv\<rparr>)"
    unfolding timeval_to_clocktime_def local_secs_def [symmetric] s(1) SECDAY_def POSIX_BASE_YEAR_def Let_def sd
    by (simp only: g q t y m w e(3-6) c60 if_False if_True case_prod_conv bind.bind_lunit)
  moreover have "\<lparr>ct_year = ?y, ct_mon = ?m, ct_day = ct_day ct - 1 + 1, ct_hour = ct_hour ct,
      ct_min = ct_min ct, ct_sec = ct_sec ct, ct_dow = D, ct_usec = ct_usec ct\<rparr> = ct\<lparr>ct_dow := D\<rparr>" for D
    by simp
  ultimately show ?thesis unfolding s(2) by (simp only:)
qed


section \<open>Numbers in text\<close>

definition digit_value :: "int \<Rightarrow> char \<Rightarrow> int" where
  "digit_value v c = v * 10 + (int (of_char c) - 48)"

lemma parse_digits:
  "list_all isdigit ds \<Longrightarrow> parse_number (ds @ cs) (length ds) v = Some (foldl digit_value v ds, cs)"
  by (induction ds arbitrary: v) (simp_all add: digit_value_def)

lemma digit_char: "d < 10 \<Longrightarrow> isdigit (char_of (48 + d))" "d < 10 \<Longrightarrow> digit_value v (char_of (48 + d)) = v * 10 + int d"
  for d :: nat
  by (simp_all add: isdigit_def digit_value_def)

lemma decimal_digits: "list_all isdigit (decimal n)"
  by (induction n rule: decimal.induct) (subst decimal.simps, simp add: digit_char)

lemma decimal_value: "foldl digit_value 0 (decimal n) = int n"
proof (induction n rule: decimal.induct)
  case (1 n)
  then show ?case by (subst decimal.simps) (simp add: digit_char zdiv_int zmod_int)
qed

lemma decimal_length: "n < 10 ^ w \<Longrightarrow> 1 \<le> w \<Longrightarrow> length (decimal n) \<le> w"
proof (induction w arbitrary: n)
  case (Suc w)
  show ?case
  proof (cases "n < 10")
    case False
    with Suc.prems(1) have "w \<noteq> 0" by (cases w) auto
    moreover have "n div 10 < 10 ^ w" using Suc.prems(1) by (simp add: less_mult_imp_div_less mult.commute)
    ultimately have "length (decimal (n div 10)) \<le> w" using Suc.IH by simp
    then show ?thesis using False by (subst decimal.simps) simp
  qed (subst decimal.simps, simp)
qed simp

lemma print_0d:
  assumes "0 \<le> n" "n < 10 ^ w" "1 \<le> w"
  shows "length (print_0d w n) = w" "list_all isdigit (print_0d w n)" "foldl digit_value 0 (print_0d w n) = n"
proof -
  have "nat n < 10 ^ w" using assms by (simp add: nat_less_iff)
  then have l: "length (decimal (nat n)) \<le> w" using decimal_length assms(3) by blast
  have z: "isdigit CHR ''0''" "foldl digit_value 0 (replicate k CHR ''0'') = 0" for k
    by (simp add: isdigit_def, induction k) (simp_all add: digit_value_def)
  show "length (print_0d w n) = w" using assms(1) l by (simp add: print_0d_def Let_def)
  show "list_all isdigit (print_0d w n)" using assms(1) z decimal_digits by (auto simp: print_0d_def Let_def list_all_iff)
  show "foldl digit_value 0 (print_0d w n) = n" using assms(1) z decimal_value by (simp add: print_0d_def Let_def)
qed

lemma parse_print:
  assumes "0 \<le> n" "n < 10 ^ w" "1 \<le> w"
  shows "parse_number (print_0d w n @ cs) w 0 = Some (n, cs)"
  using parse_digits [OF print_0d(2) [OF assms], of cs 0] print_0d [OF assms] by simp

lemma parse_usec_print:
  assumes "0 \<le> u" "u \<le> 999999" "cs = [] \<or> \<not> isdigit (hd cs)" "cs = [] \<or> hd cs \<noteq> CHR ''.''"
  shows "parse_usec ((if u \<noteq> 0 then CHR ''.'' # print_0d 6 u else []) @ cs) = Some (u, cs)"
proof (cases "u = 0")
  case True
  then show ?thesis using assms(4) by (cases cs) (auto simp: parse_usec_def split: char.splits bool.splits)
next
  case False
  have u: "0 \<le> u" "u < 10 ^ 6" "1 \<le> (6 :: nat)" using assms by simp_all
  have "takeWhile isdigit (print_0d 6 u @ cs) = print_0d 6 u @ takeWhile isdigit cs"
    using print_0d(2) [OF u] by (simp add: takeWhile_append2 list_all_iff)
  also have "takeWhile isdigit cs = []" using assms(3) by (cases cs) auto
  finally have "length (takeWhile isdigit (print_0d 6 u @ cs)) = 6" using print_0d(1) [OF u] by simp
  moreover from this have "takeWhile isdigit (print_0d 6 u @ cs) \<noteq> []" by fastforce
  ultimately show ?thesis using False parse_print [OF u] by (simp add: parse_usec_def)
qed

definition zone_text :: "int \<Rightarrow> string" where
  "zone_text m = (if m = 0 then [] else (if m < 0 then CHR ''+'' else CHR ''-'') # print_0d 2 (\<bar>m\<bar> div 60) @ CHR '':'' # print_0d 2 (\<bar>m\<bar> mod 60))"

lemma parse_zone_text:
  assumes "\<bar>m\<bar> \<le> 18 * 60" shows "parse_zone (zone_text m) = Some (m, [])"
proof (cases "m = 0")
  case False
  define hh mm where "hh = \<bar>m\<bar> div 60" and "mm = \<bar>m\<bar> mod 60"
  have h: "0 \<le> hh" "hh < 10 ^ 2" "1 \<le> (2 :: nat)" "hh \<le> 23"
    using assms zdiv_mono1 [of "\<bar>m\<bar>" "18 * 60" 60] by (simp_all add: hh_def pos_imp_zdiv_nonneg_iff)
  have mi: "0 \<le> mm" "mm < 10 ^ 2" "mm \<le> 59" using pos_mod_bound [of 60 "\<bar>m\<bar>"] by (simp_all add: mm_def)
  have e: "hh * 60 + mm = \<bar>m\<bar>" unfolding hh_def mm_def by (rule div_mult_mod_eq)
  have z: "zone_text m = (if m < 0 then CHR ''+'' else CHR ''-'') # print_0d 2 hh @ CHR '':'' # print_0d 2 mm"
    using False by (simp add: zone_text_def hh_def mm_def)
  have "parse_zone (zone_text m) = (let w = hh * 60 + mm
      in if w > 18 * 60 then None else Some (if m < 0 then - w else w, []))"
    using h mi parse_print [OF h(1-3)] parse_print [OF mi(1,2) h(3), of "[]"]
    unfolding z by (simp add: parse_zone_def expect_def Let_def not_less)
  then show ?thesis unfolding e Let_def using assms by simp
qed (simp add: zone_text_def parse_zone_def)


definition usec_text :: "int \<Rightarrow> string" where
  "usec_text u = (if u \<noteq> 0 then CHR ''.'' # print_0d 6 u else [])"

lemma format_spec:
  assumes "timeval_to_clocktime tv tz = Some (Some ct)"
  shows "format_datetime tv tz olen =
    (let s = format_clock ct @ usec_text (ct_usec ct) @ zone_text (minutes_west tz)
     in Some (if int (length s) < olen then Some s else None))"
proof -
  let ?m = "minutes_west tz"
  have z: "(if (if ?m < 0 then - ?m else ?m) div 60 \<noteq> 0 \<or> (if ?m < 0 then - ?m else ?m) mod 60 \<noteq> 0
      then snprintf ((if ?m < 0 then CHR ''+'' else CHR ''-'') # print_0d 2 ((if ?m < 0 then - ?m else ?m) div 60)
        @ CHR '':'' # print_0d 2 ((if ?m < 0 then - ?m else ?m) mod 60)) out else Some out) =
      (if ?m \<noteq> 0 then snprintf (zone_text ?m) out else Some out)" for out
  proof -
    have a: "(if ?m < 0 then - ?m else ?m) = \<bar>?m\<bar>" by simp
    have "\<bar>?m\<bar> div 60 \<noteq> 0 \<or> \<bar>?m\<bar> mod 60 \<noteq> 0 \<longleftrightarrow> ?m \<noteq> 0"
      using div_mult_mod_eq [of "\<bar>?m\<bar>" 60] by auto
    then show ?thesis unfolding a by (simp add: zone_text_def)
  qed
  show ?thesis using assms
    unfolding format_datetime_def Let_def z
    by (simp add: snprintf_def usec_text_def, simp add: zone_text_def)
qed

lemma parse_clock:
  assumes "valid_time ct" "ct_year ct \<le> 9999"
  shows "parse_number (format_clock ct @ cs) 4 0 = Some (ct_year ct, drop 4 (format_clock ct @ cs)) \<and>
    drop 4 (format_clock ct @ cs) = CHR ''-'' # print_0d 2 (ct_mon ct) @ CHR ''-'' # print_0d 2 (ct_day ct)
      @ CHR ''T'' # print_0d 2 (ct_hour ct) @ CHR '':'' # print_0d 2 (ct_min ct) @ CHR '':'' # print_0d 2 (ct_sec ct) @ cs"
proof -
  have y: "0 \<le> ct_year ct" "ct_year ct < 10 ^ 4" "1 \<le> (4 :: nat)" using assms by (simp_all add: valid_time_def)
  show ?thesis using parse_print [OF y] print_0d(1) [OF y] by (simp add: format_clock_def)
qed

lemma two_digits:
  assumes "valid_time ct" shows
    "parse_number (print_0d 2 (ct_mon ct) @ cs) 2 0 = Some (ct_mon ct, cs)"
    "parse_number (print_0d 2 (ct_day ct) @ cs) 2 0 = Some (ct_day ct, cs)"
    "parse_number (print_0d 2 (ct_hour ct) @ cs) 2 0 = Some (ct_hour ct, cs)"
    "parse_number (print_0d 2 (ct_min ct) @ cs) 2 0 = Some (ct_min ct, cs)"
    "parse_number (print_0d 2 (ct_sec ct) @ cs) 2 0 = Some (ct_sec ct, cs)"
proof -
  have "ct_day ct \<le> 31" using assms month_len_bounds(2) [of "ct_mon ct" "ct_year ct"] by (simp add: valid_time_def)
  then show "parse_number (print_0d 2 (ct_day ct) @ cs) 2 0 = Some (ct_day ct, cs)"
    using assms by (intro parse_print) (simp_all add: valid_time_def)
qed (use assms in \<open>auto simp: valid_time_def intro!: parse_print\<close>)

lemma parse_text:
  assumes v: "valid_time ct" "ct_year ct \<le> 9999" and m: "\<bar>m\<bar> \<le> 18 * 60"
  shows "parse_datetime (format_clock ct @ usec_text (ct_usec ct) @ zone_text m) =
    Some (Some (\<lparr>tv_sec = seconds_of ct + m * 60, tv_usec = ct_usec ct\<rparr>, \<lparr>tz_minuteswest = m, tz_dsttime = 0\<rparr>))"
proof -
  have u: "parse_usec (usec_text (ct_usec ct) @ zone_text m) = Some (ct_usec ct, zone_text m)"
    unfolding usec_text_def using v(1)
    by (intro parse_usec_print) (simp_all add: valid_time_def zone_text_def isdigit_def)
  define ct' where "ct' = ct\<lparr>ct_dow := 0\<rparr>"
  have ct': "ct' = \<lparr>ct_year = ct_year ct, ct_mon = ct_mon ct, ct_day = ct_day ct, ct_hour = ct_hour ct, ct_min = ct_min ct,
      ct_sec = ct_sec ct, ct_dow = 0, ct_usec = ct_usec ct\<rparr>" by (simp add: ct'_def)
  have "clocktime_to_timeval ct' = Some (Some \<lparr>tv_sec = seconds_of ct, tv_usec = ct_usec ct\<rparr>)"
    using to_timeval [of ct'] v by (simp add: ct'_def valid_time_def seconds_of_def days_of_def)
  then show ?thesis
    using parse_clock [OF v, of "usec_text (ct_usec ct) @ zone_text m"] two_digits [OF v(1)] u parse_zone_text [OF m]
    by (simp add: parse_datetime_def expect_def flip: ct')
qed

section \<open>Properties\<close>

text \<open>C40: For years up to 9999, clocktime_to_timeval converts a valid date to its POSIX seconds (days counted by the
  Gregorian rule), which timeval_to_clocktime without a time zone converts back to the same date with the right day of
  the week; an invalid date is refused.\<close>

theorem datetime_calendar:
  assumes "ct_year ct \<le> 9999"
  shows "case clocktime_to_timeval ct of
      None \<Rightarrow> False
    | Some None \<Rightarrow> \<not> valid_time ct
    | Some (Some tv) \<Rightarrow> valid_time ct \<and> tv_sec tv = seconds_of ct \<and> tv_usec tv = ct_usec ct \<and>
        timeval_to_clocktime tv None = Some (Some (ct\<lparr>ct_dow := (days_of ct + 4) mod 7\<rparr>)) \<and>
        (\<forall>y. isLeapyear y = (if 4 dvd y \<and> (\<not> 100 dvd y \<or> 400 dvd y) then 1 else 0))"
proof (cases "valid_time ct")
  case True
  have "days_of ct < 2 ^ 31" using days_of_bounds(2) [OF True] assms by simp
  from from_timeval_unique [OF True _ _ this, of "\<lparr>tv_sec = seconds_of ct, tv_usec = ct_usec ct\<rparr>" None]
  show ?thesis using to_timeval [OF assms] True by (simp add: local_secs_def isLeapyear_def leapyear_gregorian)
qed (simp add: to_timeval [OF assms])

text \<open>timeval_to_clocktime returns for every time from 1970 on whose days fit an int, in any time zone: its loops end
  inside the month table, and the date is valid and stands for the local seconds.\<close>

lemma datetime_local:
  assumes "0 \<le> local_secs tv tz" "local_secs tv tz < 2 ^ 31 * 86400" "0 \<le> tv_usec tv" "tv_usec tv \<le> 999999"
  shows "\<exists>ct. timeval_to_clocktime tv tz = Some (Some ct) \<and> valid_time ct \<and> seconds_of ct = local_secs tv tz \<and>
    ct_usec ct = tv_usec tv \<and> ct_dow ct = (local_secs tv tz div 86400 + 4) mod 7"
  using from_timeval [OF assms] .

text \<open>C39: The text format_datetime prints for a year up to 9999 and a zone up to 18 hours from Greenwich is read by
  parse_datetime as the same time in that zone, and it fits its buffer with the terminating zero.\<close>

theorem datetime_text:
  assumes "format_datetime tv tz olen = Some (Some s)" "timeval_to_clocktime tv tz = Some (Some ct)" "ct_year ct \<le> 9999"
    and "\<bar>minutes_west tz\<bar> \<le> 18 * 60" "local_secs tv tz < 2 ^ 31 * 86400"
  shows "int (length s) < olen \<and> parse_datetime s = Some (Some (tv, \<lparr>tz_minuteswest = minutes_west tz, tz_dsttime = 0\<rparr>))"
proof -
  have s: "s = format_clock ct @ usec_text (ct_usec ct) @ zone_text (minutes_west tz)" "int (length s) < olen"
    using assms(1) unfolding format_spec [OF assms(2)] Let_def by (auto split: if_splits)
  have b: "0 \<le> local_secs tv tz" "0 \<le> tv_usec tv" "tv_usec tv \<le> 999999"
    using assms(2) by (auto simp: timeval_to_clocktime_def local_secs_def [symmetric] Let_def split: if_splits)
  from from_timeval [OF b(1) assms(5) b(2,3)]
  have ct: "valid_time ct" "seconds_of ct = local_secs tv tz" "ct_usec ct = tv_usec tv" using assms(2) by auto
  have "local_secs tv tz + minutes_west tz * 60 = tv_sec tv"
    by (simp add: local_secs_def minutes_west_def split: option.splits)
  then show ?thesis using parse_text [OF ct(1) assms(3,4)] s ct(2,3) by simp
qed


section \<open>Witnesses\<close>

lemma replicate_2: "replicate 2 x = [x, x]"
  by (simp add: numeral_2_eq_2)

definition sample_clock :: clocktime where
  "sample_clock = \<lparr>ct_year = 2016, ct_mon = 3, ct_day = 2, ct_hour = 22, ct_min = 44, ct_sec = 0, ct_dow = 0, ct_usec = 0\<rparr>"

lemma year_start_2016: "year_start 2016 = 16801"
  by (simp add: year_start_def upt_rec days_in_year_def leapyear_gregorian)

lemma month_start_2016: "month_start 2016 3 = 60"
  by (simp add: month_start_def month_len_def month_days_def upt_rec leapyear_gregorian)

lemma sample_clock_valid: "valid_time sample_clock" "days_of sample_clock = 16862" "seconds_of sample_clock = 1456958640"
  by (simp_all add: valid_time_def sample_clock_def month_len_def month_days_def days_of_def seconds_of_def
      year_start_2016 month_start_2016)

lemma sample_seconds: "clocktime_to_timeval sample_clock = Some (Some \<lparr>tv_sec = 1456958640, tv_usec = 0\<rparr>)"
  using to_timeval [of sample_clock] sample_clock_valid by (simp add: sample_clock_def)

lemma datetime_calendar_witness:
  "clocktime_to_timeval sample_clock = Some (Some \<lparr>tv_sec = 1456958640, tv_usec = 0\<rparr>) \<and>
   timeval_to_clocktime \<lparr>tv_sec = 1456958640, tv_usec = 0\<rparr> None =
     Some (Some (sample_clock\<lparr>ct_dow := (days_of sample_clock + 4) mod 7\<rparr>))"
  using datetime_calendar [of sample_clock] sample_seconds by (auto simp: sample_clock_def)

lemma datetime_local_witness:
  "\<exists>ct. timeval_to_clocktime \<lparr>tv_sec = 1456958640, tv_usec = 0\<rparr> (Some \<lparr>tz_minuteswest = 480, tz_dsttime = 0\<rparr>) = Some (Some ct) \<and>
     valid_time ct \<and> ct_dow ct = 3"
  using datetime_local [of "\<lparr>tv_sec = 1456958640, tv_usec = 0\<rparr>" "Some \<lparr>tz_minuteswest = 480, tz_dsttime = 0\<rparr>"]
  by (auto simp: local_secs_def)

lemma datetime_text_witness:
  "format_datetime \<lparr>tv_sec = 1456958640, tv_usec = 5000\<rparr> (Some \<lparr>tz_minuteswest = 480, tz_dsttime = 0\<rparr>) 33 =
     Some (Some ''2016-03-02T14:44:00.005000-08:00'') \<and>
   parse_datetime ''2016-03-02T14:44:00.005000-08:00'' =
     Some (Some (\<lparr>tv_sec = 1456958640, tv_usec = 5000\<rparr>, \<lparr>tz_minuteswest = 480, tz_dsttime = 0\<rparr>))"
proof -
  let ?tv = "\<lparr>tv_sec = 1456958640, tv_usec = 5000\<rparr>" and ?tz = "Some \<lparr>tz_minuteswest = 480, tz_dsttime = 0\<rparr>"
  let ?ct = "sample_clock\<lparr>ct_hour := 14, ct_usec := 5000\<rparr>"
  have v: "valid_time ?ct" "days_of ?ct = 16862" "seconds_of ?ct = 1456958640 - 28800"
    by (simp_all add: valid_time_def sample_clock_def month_len_def month_days_def days_of_def seconds_of_def
        year_start_2016 month_start_2016)
  have t: "timeval_to_clocktime ?tv ?tz = Some (Some (?ct\<lparr>ct_dow := 3\<rparr>))"
    using from_timeval_unique [OF v(1), of ?tv ?tz] v by (simp add: local_secs_def)
  have "format_clock (?ct\<lparr>ct_dow := 3\<rparr>) = ''2016-03-02T14:44:00''" "usec_text 5000 = ''.005000''"
    "zone_text 480 = ''-08:00''"
    by (simp_all add: format_clock_def usec_text_def zone_text_def print_0d_def decimal.simps sample_clock_def Let_def
        char_of_def replicate_2 bit_Suc_0_iff)
  then have f: "format_datetime ?tv ?tz 33 = Some (Some ''2016-03-02T14:44:00.005000-08:00'')"
    unfolding format_spec [OF t] by (simp add: minutes_west_def)
  show ?thesis using datetime_text [OF f t] f by (simp add: minutes_west_def local_secs_def sample_clock_def)
qed

end
