(* ===== verification/Utils_Md5.thy ===== *)
theory Utils_Md5
  imports LN_Prelude
begin

unbundle bit_operations_syntax

text \<open>
  utils/md5.c: MD5 over a message that arrives in pieces. A context is a record of its three arrays;
  the input and output buffers are lists of bytes and every access outside of one is the value None.
  The local arrays of MD5Transform and MD5Final are written before they are read, so their first
  contents (zero here) do not matter. A byte shifted into the top bit of an int is what GCC computes.
\<close>

section \<open>The code\<close>

record MD5_CTX =
  count :: "u32 list"
  state :: "u32 list"
  buffer :: "u8 list"

definition md5_F :: "u32 \<Rightarrow> u32 \<Rightarrow> u32 \<Rightarrow> u32" where "md5_F x y z = (x AND y) OR (NOT x AND z)"
definition md5_G :: "u32 \<Rightarrow> u32 \<Rightarrow> u32 \<Rightarrow> u32" where "md5_G x y z = (x AND z) OR (y AND NOT z)"
definition md5_H :: "u32 \<Rightarrow> u32 \<Rightarrow> u32 \<Rightarrow> u32" where "md5_H x y z = x XOR y XOR z"
definition md5_I :: "u32 \<Rightarrow> u32 \<Rightarrow> u32 \<Rightarrow> u32" where "md5_I x y z = y XOR (x OR NOT z)"

definition ROTATE_LEFT :: "u32 \<Rightarrow> nat \<Rightarrow> u32" where
  "ROTATE_LEFT x n = push_bit n x OR drop_bit (32 - n) x"

definition FF :: "u32 \<Rightarrow> u32 \<Rightarrow> u32 \<Rightarrow> u32 \<Rightarrow> u32 \<Rightarrow> nat \<Rightarrow> u32 \<Rightarrow> u32" where
  "FF a b c d x s ac = (let a = a + (md5_F b c d + x + ac); a = ROTATE_LEFT a s in a + b)"

definition GG :: "u32 \<Rightarrow> u32 \<Rightarrow> u32 \<Rightarrow> u32 \<Rightarrow> u32 \<Rightarrow> nat \<Rightarrow> u32 \<Rightarrow> u32" where
  "GG a b c d x s ac = (let a = a + (md5_G b c d + x + ac); a = ROTATE_LEFT a s in a + b)"

definition HH :: "u32 \<Rightarrow> u32 \<Rightarrow> u32 \<Rightarrow> u32 \<Rightarrow> u32 \<Rightarrow> nat \<Rightarrow> u32 \<Rightarrow> u32" where
  "HH a b c d x s ac = (let a = a + (md5_H b c d + x + ac); a = ROTATE_LEFT a s in a + b)"

definition II :: "u32 \<Rightarrow> u32 \<Rightarrow> u32 \<Rightarrow> u32 \<Rightarrow> u32 \<Rightarrow> nat \<Rightarrow> u32 \<Rightarrow> u32" where
  "II a b c d x s ac = (let a = a + (md5_I b c d + x + ac); a = ROTATE_LEFT a s in a + b)"

text \<open>The 64 steps of MD5Transform, in the order of the source.\<close>

definition md5_steps :: "u32 list \<Rightarrow> u32 \<Rightarrow> u32 \<Rightarrow> u32 \<Rightarrow> u32 \<Rightarrow> u32 \<times> u32 \<times> u32 \<times> u32" where
  "md5_steps x a b c d =
    (let a = FF a b c d (x ! 0) 7 0xd76aa478;
         d = FF d a b c (x ! 1) 12 0xe8c7b756;
         c = FF c d a b (x ! 2) 17 0x242070db;
         b = FF b c d a (x ! 3) 22 0xc1bdceee;
         a = FF a b c d (x ! 4) 7 0xf57c0faf;
         d = FF d a b c (x ! 5) 12 0x4787c62a;
         c = FF c d a b (x ! 6) 17 0xa8304613;
         b = FF b c d a (x ! 7) 22 0xfd469501;
         a = FF a b c d (x ! 8) 7 0x698098d8;
         d = FF d a b c (x ! 9) 12 0x8b44f7af;
         c = FF c d a b (x ! 10) 17 0xffff5bb1;
         b = FF b c d a (x ! 11) 22 0x895cd7be;
         a = FF a b c d (x ! 12) 7 0x6b901122;
         d = FF d a b c (x ! 13) 12 0xfd987193;
         c = FF c d a b (x ! 14) 17 0xa679438e;
         b = FF b c d a (x ! 15) 22 0x49b40821;
         a = GG a b c d (x ! 1) 5 0xf61e2562;
         d = GG d a b c (x ! 6) 9 0xc040b340;
         c = GG c d a b (x ! 11) 14 0x265e5a51;
         b = GG b c d a (x ! 0) 20 0xe9b6c7aa;
         a = GG a b c d (x ! 5) 5 0xd62f105d;
         d = GG d a b c (x ! 10) 9 0x2441453;
         c = GG c d a b (x ! 15) 14 0xd8a1e681;
         b = GG b c d a (x ! 4) 20 0xe7d3fbc8;
         a = GG a b c d (x ! 9) 5 0x21e1cde6;
         d = GG d a b c (x ! 14) 9 0xc33707d6;
         c = GG c d a b (x ! 3) 14 0xf4d50d87;
         b = GG b c d a (x ! 8) 20 0x455a14ed;
         a = GG a b c d (x ! 13) 5 0xa9e3e905;
         d = GG d a b c (x ! 2) 9 0xfcefa3f8;
         c = GG c d a b (x ! 7) 14 0x676f02d9;
         b = GG b c d a (x ! 12) 20 0x8d2a4c8a;
         a = HH a b c d (x ! 5) 4 0xfffa3942;
         d = HH d a b c (x ! 8) 11 0x8771f681;
         c = HH c d a b (x ! 11) 16 0x6d9d6122;
         b = HH b c d a (x ! 14) 23 0xfde5380c;
         a = HH a b c d (x ! 1) 4 0xa4beea44;
         d = HH d a b c (x ! 4) 11 0x4bdecfa9;
         c = HH c d a b (x ! 7) 16 0xf6bb4b60;
         b = HH b c d a (x ! 10) 23 0xbebfbc70;
         a = HH a b c d (x ! 13) 4 0x289b7ec6;
         d = HH d a b c (x ! 0) 11 0xeaa127fa;
         c = HH c d a b (x ! 3) 16 0xd4ef3085;
         b = HH b c d a (x ! 6) 23 0x4881d05;
         a = HH a b c d (x ! 9) 4 0xd9d4d039;
         d = HH d a b c (x ! 12) 11 0xe6db99e5;
         c = HH c d a b (x ! 15) 16 0x1fa27cf8;
         b = HH b c d a (x ! 2) 23 0xc4ac5665;
         a = II a b c d (x ! 0) 6 0xf4292244;
         d = II d a b c (x ! 7) 10 0x432aff97;
         c = II c d a b (x ! 14) 15 0xab9423a7;
         b = II b c d a (x ! 5) 21 0xfc93a039;
         a = II a b c d (x ! 12) 6 0x655b59c3;
         d = II d a b c (x ! 3) 10 0x8f0ccc92;
         c = II c d a b (x ! 10) 15 0xffeff47d;
         b = II b c d a (x ! 1) 21 0x85845dd1;
         a = II a b c d (x ! 8) 6 0x6fa87e4f;
         d = II d a b c (x ! 15) 10 0xfe2ce6e0;
         c = II c d a b (x ! 6) 15 0xa3014314;
         b = II b c d a (x ! 13) 21 0x4e0811a1;
         a = II a b c d (x ! 4) 6 0xf7537e82;
         d = II d a b c (x ! 11) 10 0xbd3af235;
         c = II c d a b (x ! 2) 15 0x2ad7d2bb;
         b = II b c d a (x ! 9) 21 0xeb86d391
     in (a, b, c, d))"

function encode_words :: "u8 list \<Rightarrow> u32 list \<Rightarrow> nat \<Rightarrow> nat \<Rightarrow> nat \<Rightarrow> u8 list option" where
  "encode_words output input len i j =
     (if j < len then do {
        v \<leftarrow> get_at input i;
        output \<leftarrow> set_at output j (ucast (v AND 0xFF));
        output \<leftarrow> set_at output (j + 1) (ucast (drop_bit 8 v AND 0xFF));
        output \<leftarrow> set_at output (j + 2) (ucast (drop_bit 16 v AND 0xFF));
        output \<leftarrow> set_at output (j + 3) (ucast (drop_bit 24 v AND 0xFF));
        encode_words output input len (i + 1) (j + 4)
      } else Some output)"
  by auto
termination by (relation "measure (\<lambda>(_, _, len, _, j). len - j)") auto

definition MD5Encode :: "u8 list \<Rightarrow> u32 list \<Rightarrow> nat \<Rightarrow> u8 list option" where
  "MD5Encode output input len = encode_words output input len 0 0"

function decode_words :: "u32 list \<Rightarrow> u8 list \<Rightarrow> nat \<Rightarrow> nat \<Rightarrow> nat \<Rightarrow> u32 list option" where
  "decode_words output input len i j =
     (if j < len then do {
        b0 \<leftarrow> get_at input j;
        b1 \<leftarrow> get_at input (j + 1);
        b2 \<leftarrow> get_at input (j + 2);
        b3 \<leftarrow> get_at input (j + 3);
        output \<leftarrow> set_at output i (ucast b0 OR push_bit 8 (ucast b1) OR push_bit 16 (ucast b2) OR push_bit 24 (ucast b3));
        decode_words output input len (i + 1) (j + 4)
      } else Some output)"
  by auto
termination by (relation "measure (\<lambda>(_, _, len, _, j). len - j)") auto

definition MD5Decode :: "u32 list \<Rightarrow> u8 list \<Rightarrow> nat \<Rightarrow> u32 list option" where
  "MD5Decode output input len = decode_words output input len 0 0"

declare encode_words.simps [simp del] decode_words.simps [simp del]

definition MD5Transform :: "u32 list \<Rightarrow> u8 list \<Rightarrow> u32 list option" where
  "MD5Transform st block = do {
     a0 \<leftarrow> get_at st 0;
     b0 \<leftarrow> get_at st 1;
     c0 \<leftarrow> get_at st 2;
     d0 \<leftarrow> get_at st 3;
     x \<leftarrow> MD5Decode (replicate 64 0) block 64;
     let (a, b, c, d) = md5_steps x a0 b0 c0 d0;
     Some [a0 + a, b0 + b, c0 + c, d0 + d]
   }"

definition MD5Init :: "MD5_CTX \<Rightarrow> MD5_CTX" where
  "MD5Init context = context \<lparr> count := [0, 0], state := [0x67452301, 0xEFCDAB89, 0x98BADCFE, 0x10325476] \<rparr>"

text \<open>
  The loop over whole blocks of the input; i and the sum \<open>i + 64\<close> are unsigned ints, so a length near
  \<open>2 ^ 32\<close> makes the sum wrap and the loop run on past the end.
\<close>

partial_function (option) update_loop :: "u32 list \<Rightarrow> u8 list \<Rightarrow> u32 \<Rightarrow> u32 \<Rightarrow> (u32 list \<times> u32) option" where
  "update_loop st input inputlen i =
     (if i + 64 \<le> inputlen then
        Option.bind (get_block input (unat i) 64) (\<lambda>block.
        Option.bind (MD5Transform st block) (\<lambda>st.
        update_loop st input inputlen (i + 64)))
      else Some (st, i))"

definition MD5Update :: "MD5_CTX \<Rightarrow> u8 list \<Rightarrow> u32 \<Rightarrow> MD5_CTX option" where
  "MD5Update context input inputlen = do {
     c0 \<leftarrow> get_at (count context) 0;
     c1 \<leftarrow> get_at (count context) 1;
     let index = drop_bit 3 c0 AND 0x3F;
     let partlen = 64 - index;
     let c0 = c0 + push_bit 3 inputlen;
     let c1 = (if c0 < push_bit 3 inputlen then c1 + 1 else c1);
     let c1 = c1 + drop_bit 29 inputlen;
     (buf, st, i, index) \<leftarrow>
       (if inputlen \<ge> partlen then do {
          part \<leftarrow> get_block input 0 (unat partlen);
          buf \<leftarrow> put_block (buffer context) (unat index) part;
          st \<leftarrow> MD5Transform (state context) buf;
          (st, i) \<leftarrow> update_loop st input inputlen partlen;
          Some (buf, st, i, 0)
        } else Some (buffer context, state context, 0, index));
     rest \<leftarrow> get_block input (unat i) (unat (inputlen - i));
     buf \<leftarrow> put_block buf (unat index) rest;
     Some (context \<lparr> count := [c0, c1], state := st, buffer := buf \<rparr>)
   }"

definition PADDING :: "u8 list" where "PADDING = 0x80 # replicate 63 0"

text \<open>What MD5Final writes to digest, and the context it leaves.\<close>

definition MD5Final :: "MD5_CTX \<Rightarrow> u8 list \<Rightarrow> (u8 list \<times> MD5_CTX) option" where
  "MD5Final context digest = do {
     c0 \<leftarrow> get_at (count context) 0;
     let index = drop_bit 3 c0 AND 0x3F;
     let padlen = (if index < 56 then 56 - index else 120 - index);
     bits \<leftarrow> MD5Encode (replicate 8 0) (count context) 8;
     context \<leftarrow> MD5Update context PADDING padlen;
     context \<leftarrow> MD5Update context bits 8;
     digest \<leftarrow> MD5Encode digest (state context) 16;
     Some (digest, context)
   }"

section \<open>RFC 1321\<close>

text \<open>
  The algorithm as the RFC describes it: the message is padded to whole blocks with a one bit, zeros
  and its length in bits (modulo \<open>2 ^ 64\<close>), and each block is worked into the four words by a loop
  whose step number gives the function, the word, the constant and the rotation.
\<close>

definition md5_T :: "u32 list" where
  "md5_T =
    [0xd76aa478, 0xe8c7b756, 0x242070db, 0xc1bdceee, 0xf57c0faf, 0x4787c62a,
     0xa8304613, 0xfd469501, 0x698098d8, 0x8b44f7af, 0xffff5bb1, 0x895cd7be,
     0x6b901122, 0xfd987193, 0xa679438e, 0x49b40821, 0xf61e2562, 0xc040b340,
     0x265e5a51, 0xe9b6c7aa, 0xd62f105d, 0x2441453, 0xd8a1e681, 0xe7d3fbc8,
     0x21e1cde6, 0xc33707d6, 0xf4d50d87, 0x455a14ed, 0xa9e3e905, 0xfcefa3f8,
     0x676f02d9, 0x8d2a4c8a, 0xfffa3942, 0x8771f681, 0x6d9d6122, 0xfde5380c,
     0xa4beea44, 0x4bdecfa9, 0xf6bb4b60, 0xbebfbc70, 0x289b7ec6, 0xeaa127fa,
     0xd4ef3085, 0x4881d05, 0xd9d4d039, 0xe6db99e5, 0x1fa27cf8, 0xc4ac5665,
     0xf4292244, 0x432aff97, 0xab9423a7, 0xfc93a039, 0x655b59c3, 0x8f0ccc92,
     0xffeff47d, 0x85845dd1, 0x6fa87e4f, 0xfe2ce6e0, 0xa3014314, 0x4e0811a1,
     0xf7537e82, 0xbd3af235, 0x2ad7d2bb, 0xeb86d391]"

definition md5_S :: "nat list" where
  "md5_S = [7, 12, 17, 22, 5, 9, 14, 20, 4, 11, 16, 23, 6, 10, 15, 21]"

definition rfc_step :: "u32 list \<Rightarrow> nat \<Rightarrow> u32 \<times> u32 \<times> u32 \<times> u32 \<Rightarrow> u32 \<times> u32 \<times> u32 \<times> u32" where
  "rfc_step w i = (\<lambda>(a, b, c, d).
     let r = i div 16;
         f = (if r = 0 then (b AND c) OR (NOT b AND d) else if r = 1 then (b AND d) OR (c AND NOT d)
              else if r = 2 then b XOR c XOR d else c XOR (b OR NOT d));
         g = (if r = 0 then i else if r = 1 then 5 * i + 1 else if r = 2 then 3 * i + 5 else 7 * i) mod 16
     in (d, b + ROTATE_LEFT (a + (f + w ! g + md5_T ! i)) (md5_S ! (4 * r + i mod 4)), b, c))"

definition le_word :: "u8 list \<Rightarrow> u32" where
  "le_word bs = ucast (bs ! 0) OR push_bit 8 (ucast (bs ! 1)) OR push_bit 16 (ucast (bs ! 2)) OR push_bit 24 (ucast (bs ! 3))"

definition block_words :: "u8 list \<Rightarrow> u32 list" where
  "block_words bs = map (\<lambda>k. le_word (take 4 (drop (4 * k) bs))) [0..<16]"

definition rfc_compress :: "u32 list \<Rightarrow> u8 list \<Rightarrow> u32 list" where
  "rfc_compress st bs =
     (case fold (rfc_step (block_words bs)) [0..<64] (st ! 0, st ! 1, st ! 2, st ! 3) of
        (a, b, c, d) \<Rightarrow> [st ! 0 + a, st ! 1 + b, st ! 2 + c, st ! 3 + d])"

fun blocks :: "u8 list \<Rightarrow> u8 list list" where
  "blocks xs = (if length xs < 64 then [] else take 64 xs # blocks (drop 64 xs))"

declare blocks.simps [simp del]

definition rfc_init :: "u32 list" where
  "rfc_init = [0x67452301, 0xEFCDAB89, 0x98BADCFE, 0x10325476]"

definition rfc_pad :: "nat \<Rightarrow> u8 list" where
  "rfc_pad n = 0x80 # replicate (nat ((55 - int n) mod 64)) 0 @ le_bytes (of_nat (8 * n)) @ le_bytes (of_nat (8 * n div 2 ^ 32))"

definition rfc_md5 :: "u8 list \<Rightarrow> u8 list" where
  "rfc_md5 m = concat (map le_bytes (foldl rfc_compress rfc_init (blocks (m @ rfc_pad (length m)))))"

section \<open>The unrolled steps are the loop\<close>

text \<open>Four steps of the source, which bring the names of the variables back to where they were.\<close>

definition md5_quad ::
    "(u32 \<Rightarrow> u32 \<Rightarrow> u32 \<Rightarrow> u32 \<Rightarrow> u32 \<Rightarrow> nat \<Rightarrow> u32 \<Rightarrow> u32) \<Rightarrow> u32 \<Rightarrow> nat \<Rightarrow> u32 \<Rightarrow> u32 \<Rightarrow> nat \<Rightarrow> u32 \<Rightarrow>
      u32 \<Rightarrow> nat \<Rightarrow> u32 \<Rightarrow> u32 \<Rightarrow> nat \<Rightarrow> u32 \<Rightarrow> u32 \<times> u32 \<times> u32 \<times> u32 \<Rightarrow> u32 \<times> u32 \<times> u32 \<times> u32" where
  "md5_quad R x0 s0 k0 x1 s1 k1 x2 s2 k2 x3 s3 k3 = (\<lambda>(a, b, c, d).
    (let a = R a b c d x0 s0 k0; d = R d a b c x1 s1 k1; c = R c d a b x2 s2 k2; b = R b c d a x3 s3 k3
     in (a, b, c, d)))"

lemma quad_let:
  "(let a = R a b c d x0 s0 k0; d = R d a b c x1 s1 k1; c = R c d a b x2 s2 k2; b = R b c d a x3 s3 k3 in P a b c d) =
   (case md5_quad R x0 s0 k0 x1 s1 k1 x2 s2 k2 x3 s3 k3 (a, b, c, d) of (a, b, c, d) \<Rightarrow> P a b c d)"
  by (simp add: md5_quad_def Let_def)

lemmas quad_lets = quad_let [where R = FF] quad_let [where R = GG] quad_let [where R = HH] quad_let [where R = II]

lemma step_FF: "i < 16 \<Longrightarrow>
    rfc_step x i (a, b, c, d) = (d, FF a b c d (x ! i) (md5_S ! (i mod 4)) (md5_T ! i), b, c)"
  by (simp add: rfc_step_def FF_def md5_F_def Let_def add.commute)

lemma step_GG: "16 \<le> i \<Longrightarrow> i < 32 \<Longrightarrow>
    rfc_step x i (a, b, c, d) = (d, GG a b c d (x ! ((5 * i + 1) mod 16)) (md5_S ! (4 + i mod 4)) (md5_T ! i), b, c)"
proof -
  assume "16 \<le> i" "i < 32"
  then have "i div 16 = 1" by simp
  then show ?thesis by (simp add: rfc_step_def GG_def md5_G_def Let_def add.commute)
qed

lemma step_HH: "32 \<le> i \<Longrightarrow> i < 48 \<Longrightarrow>
    rfc_step x i (a, b, c, d) = (d, HH a b c d (x ! ((3 * i + 5) mod 16)) (md5_S ! (8 + i mod 4)) (md5_T ! i), b, c)"
proof -
  assume "32 \<le> i" "i < 48"
  then have "i div 16 = 2" by simp
  then show ?thesis by (simp add: rfc_step_def HH_def md5_H_def Let_def add.commute)
qed

lemma step_II: "48 \<le> i \<Longrightarrow> i < 64 \<Longrightarrow>
    rfc_step x i (a, b, c, d) = (d, II a b c d (x ! (7 * i mod 16)) (md5_S ! (12 + i mod 4)) (md5_T ! i), b, c)"
proof -
  assume "48 \<le> i" "i < 64"
  then have "i div 16 = 3" by simp
  then show ?thesis by (simp add: rfc_step_def II_def md5_I_def Let_def add.commute)
qed

lemma quad_steps:
  assumes "\<And>j a b c d. i \<le> j \<Longrightarrow> j < i + 4 \<Longrightarrow> rfc_step x j (a, b, c, d) = (d, R a b c d (w j) (s j) (t j), b, c)"
  shows "md5_quad R (w i) (s i) (t i) (w (i + 1)) (s (i + 1)) (t (i + 1)) (w (i + 2)) (s (i + 2)) (t (i + 2))
     (w (i + 3)) (s (i + 3)) (t (i + 3)) p = fold (rfc_step x) [i, i + 1, i + 2, i + 3] p"
  by (cases p) (simp add: assms md5_quad_def Let_def)

lemma upt_Suc4: "i + 4 \<le> n \<Longrightarrow> [i..<n] = [i, i + 1, i + 2, i + 3] @ [i + 4..<n]"
  by (simp add: upt_conv_Cons numeral_eq_Suc)

lemma quad_FF: "i + 4 \<le> 16 \<Longrightarrow> fold (rfc_step x) [i, i + 1, i + 2, i + 3] p =
    md5_quad FF (x ! i) (md5_S ! (i mod 4)) (md5_T ! i) (x ! (i + 1)) (md5_S ! ((i + 1) mod 4)) (md5_T ! (i + 1))
     (x ! (i + 2)) (md5_S ! ((i + 2) mod 4)) (md5_T ! (i + 2)) (x ! (i + 3)) (md5_S ! ((i + 3) mod 4)) (md5_T ! (i + 3)) p"
  using quad_steps [of i x FF "\<lambda>i. x ! i" "\<lambda>i. md5_S ! (i mod 4)" "\<lambda>i. md5_T ! i" p] by (simp add: step_FF)

lemma quad_GG: "16 \<le> i \<Longrightarrow> i + 4 \<le> 32 \<Longrightarrow> fold (rfc_step x) [i, i + 1, i + 2, i + 3] p =
    md5_quad GG (x ! ((5 * i + 1) mod 16)) (md5_S ! (4 + i mod 4)) (md5_T ! i)
     (x ! ((5 * (i + 1) + 1) mod 16)) (md5_S ! (4 + (i + 1) mod 4)) (md5_T ! (i + 1))
     (x ! ((5 * (i + 2) + 1) mod 16)) (md5_S ! (4 + (i + 2) mod 4)) (md5_T ! (i + 2))
     (x ! ((5 * (i + 3) + 1) mod 16)) (md5_S ! (4 + (i + 3) mod 4)) (md5_T ! (i + 3)) p"
  using quad_steps [of i x GG "\<lambda>i. x ! ((5 * i + 1) mod 16)" "\<lambda>i. md5_S ! (4 + i mod 4)" "\<lambda>i. md5_T ! i" p] by (simp add: step_GG)

lemma quad_HH: "32 \<le> i \<Longrightarrow> i + 4 \<le> 48 \<Longrightarrow> fold (rfc_step x) [i, i + 1, i + 2, i + 3] p =
    md5_quad HH (x ! ((3 * i + 5) mod 16)) (md5_S ! (8 + i mod 4)) (md5_T ! i)
     (x ! ((3 * (i + 1) + 5) mod 16)) (md5_S ! (8 + (i + 1) mod 4)) (md5_T ! (i + 1))
     (x ! ((3 * (i + 2) + 5) mod 16)) (md5_S ! (8 + (i + 2) mod 4)) (md5_T ! (i + 2))
     (x ! ((3 * (i + 3) + 5) mod 16)) (md5_S ! (8 + (i + 3) mod 4)) (md5_T ! (i + 3)) p"
  using quad_steps [of i x HH "\<lambda>i. x ! ((3 * i + 5) mod 16)" "\<lambda>i. md5_S ! (8 + i mod 4)" "\<lambda>i. md5_T ! i" p] by (simp add: step_HH)

lemma quad_II: "48 \<le> i \<Longrightarrow> i + 4 \<le> 64 \<Longrightarrow> fold (rfc_step x) [i, i + 1, i + 2, i + 3] p =
    md5_quad II (x ! (7 * i mod 16)) (md5_S ! (12 + i mod 4)) (md5_T ! i)
     (x ! (7 * (i + 1) mod 16)) (md5_S ! (12 + (i + 1) mod 4)) (md5_T ! (i + 1))
     (x ! (7 * (i + 2) mod 16)) (md5_S ! (12 + (i + 2) mod 4)) (md5_T ! (i + 2))
     (x ! (7 * (i + 3) mod 16)) (md5_S ! (12 + (i + 3) mod 4)) (md5_T ! (i + 3)) p"
  using quad_steps [of i x II "\<lambda>i. x ! (7 * i mod 16)" "\<lambda>i. md5_S ! (12 + i mod 4)" "\<lambda>i. md5_T ! i" p] by (simp add: step_II)

lemma case4: "(case p of (a, b, c, d) \<Rightarrow> f (a, b, c, d)) = f p"
  by (cases p) simp

lemma upt_quads: "[0..<64] = [0, 1, 2, 3] @ [4, 5, 6, 7] @ [8, 9, 10, 11] @ [12, 13, 14, 15] @ [16, 17, 18, 19] @ [20, 21, 22, 23] @ [24, 25, 26, 27] @ [28, 29, 30, 31] @ [32, 33, 34, 35] @ [36, 37, 38, 39] @ [40, 41, 42, 43] @ [44, 45, 46, 47] @ [48, 49, 50, 51] @ [52, 53, 54, 55] @ [56, 57, 58, 59] @ [60, 61, 62, 63]"
  by (simp add: upt_rec)

lemmas quads = quad_FF [of 0, simplified, folded numeral_2_eq_2] quad_FF [of 4, simplified] quad_FF [of 8, simplified] quad_FF [of 12, simplified] quad_GG [of 16, simplified] quad_GG [of 20, simplified] quad_GG [of 24, simplified] quad_GG [of 28, simplified] quad_HH [of 32, simplified] quad_HH [of 36, simplified] quad_HH [of 40, simplified] quad_HH [of 44, simplified] quad_II [of 48, simplified] quad_II [of 52, simplified] quad_II [of 56, simplified] quad_II [of 60, simplified]


lemma steps_rfc: "md5_steps x a b c d = fold (rfc_step x) [0..<64] (a, b, c, d)"
  unfolding md5_steps_def quad_lets
  by (simp add: upt_quads quads md5_S_def md5_T_def case4)


section \<open>Words, blocks and the counter\<close>

lemma le_word_take: "4 \<le> length bs \<Longrightarrow> le_word (take 4 bs) = le_word bs"
  by (simp add: le_word_def)

lemma decode_words_spec:
  assumes "4 * n \<le> length input" "n \<le> length os" "i \<le> n"
  shows "decode_words os input (4 * n) i (4 * i) =
    Some (take i os @ map (\<lambda>k. le_word (take 4 (drop (4 * k) input))) [i..<n] @ drop n os)"
  using assms
proof (induction "n - i" arbitrary: i os)
  case 0
  then show ?case by (simp add: decode_words.simps)
next
  case (Suc r)
  then have i: "i < n" by simp
  let ?w = "le_word (take 4 (drop (4 * i) input))"
  have w: "?w = ucast (input ! (4 * i)) OR push_bit 8 (ucast (input ! (4 * i + 1))) OR push_bit 16 (ucast (input ! (4 * i + 2)))
      OR push_bit 24 (ucast (input ! (4 * i + 3)))"
    using Suc.prems i by (simp add: le_word_def)
  have IH: "decode_words (os[i := ?w]) input (4 * n) (i + 1) (4 * (i + 1)) =
     Some (take (i + 1) (os[i := ?w]) @ map (\<lambda>k. le_word (take 4 (drop (4 * k) input))) [i + 1..<n] @ drop n (os[i := ?w]))"
    using Suc i by (intro Suc.hyps(1)) auto
  have "decode_words os input (4 * n) i (4 * i) = decode_words (os[i := ?w]) input (4 * n) (i + 1) (4 * (i + 1))"
    using i Suc.prems unfolding w by (subst decode_words.simps) (simp add: mem_simps add.commute)
  also note IH
  finally show ?case using i Suc.prems by (simp add: take_Suc_update upt_conv_Cons)
qed

lemma decode_block: "length b = 64 \<Longrightarrow> MD5Decode (replicate 64 0) b 64 = Some (block_words b @ replicate 48 0)"
  using decode_words_spec [of 16 b "replicate 64 0" 0] by (simp add: MD5Decode_def block_words_def)

lemma ucast_and_FF: "(ucast (w AND 0xFF :: u32) :: u8) = ucast w"
  by (rule bit_word_eqI) (auto simp: bit_simps mask_bytes)

lemma encode_words_spec:
  assumes "n \<le> length input" "4 * n \<le> length os" "i \<le> n"
  shows "encode_words os input (4 * n) i (4 * i) =
    Some (take (4 * i) os @ concat (map le_bytes (take (n - i) (drop i input))) @ drop (4 * n) os)"
  using assms
proof (induction "n - i" arbitrary: i os)
  case 0
  then show ?case by (simp add: encode_words.simps)
next
  case (Suc r)
  then have i: "i < n" by simp
  define v where "v = input ! i"
  define out where "out = os[4 * i := ucast (v AND 0xFF), 4 * i + 1 := ucast (drop_bit 8 v AND 0xFF),
    4 * i + 2 := ucast (drop_bit 16 v AND 0xFF), 4 * i + 3 := ucast (drop_bit 24 v AND 0xFF)]"
  have "encode_words os input (4 * n) i (4 * i) = encode_words out input (4 * n) (i + 1) (4 * (i + 1))"
    using i Suc.prems unfolding out_def v_def by (subst encode_words.simps) (simp add: mem_simps add.commute)
  also have "\<dots> = Some (take (4 * (i + 1)) out @ concat (map le_bytes (take (n - (i + 1)) (drop (i + 1) input))) @ drop (4 * n) out)"
    using Suc i by (intro Suc.hyps(1)) (auto simp: out_def)
  also have "drop (4 * n) out = drop (4 * n) os" using i by (simp add: out_def)
  also have "take (4 * (i + 1)) out = take (4 * i) os @ le_bytes v"
  proof (rule nth_equalityI)
    fix j assume "j < length (take (4 * (i + 1)) out)"
    then consider "j < 4 * i" | "j = 4 * i" | "j = 4 * i + 1" | "j = 4 * i + 2" | "j = 4 * i + 3" by fastforce
    then show "take (4 * (i + 1)) out ! j = (take (4 * i) os @ le_bytes v) ! j"
      using i Suc.prems by cases (simp_all add: out_def le_bytes_def nth_append ucast_and_FF)
  qed (use i Suc.prems in \<open>simp add: out_def le_bytes_def\<close>)
  finally show ?case
    using i Suc.prems by (simp add: v_def Cons_nth_drop_Suc [symmetric] Suc_diff_Suc [symmetric])
qed

lemma length_block_words: "length (block_words b) = 16"
  by (simp add: block_words_def)

lemma rfc_step_words: "length w = 16 \<Longrightarrow> rfc_step (w @ r) i p = rfc_step w i p"
  by (cases p) (simp add: rfc_step_def nth_append Let_def)

lemma transform_spec:
  assumes "length b = 64" "length st = 4"
  shows "MD5Transform st b = Some (rfc_compress st b)"
proof -
  have "md5_steps (block_words b @ replicate 48 0) x y z w = fold (rfc_step (block_words b)) [0..<64] (x, y, z, w)" for x y z w
    unfolding steps_rfc by (intro fold_cong refl) (simp add: rfc_step_words length_block_words fun_eq_iff)
  then show ?thesis using assms by (simp add: MD5Transform_def decode_block mem_simps rfc_compress_def split: prod.splits)
qed


lemma blocks_short: "length xs < 64 \<Longrightarrow> blocks xs = []"
  by (simp add: blocks.simps)

lemma blocks_take: "64 \<le> length xs \<Longrightarrow> blocks xs = take 64 xs # blocks (drop 64 xs)"
  by (subst blocks.simps) simp

lemma blocks_append: "64 dvd length xs \<Longrightarrow> blocks (xs @ ys) = blocks xs @ blocks ys"
proof (induction xs rule: blocks.induct)
  case (1 xs)
  show ?case
  proof (cases "xs = []")
    case True
    then show ?thesis by (simp add: blocks_short)
  next
    case False
    then have l: "64 \<le> length xs" using 1(2) by (simp add: dvd_imp_le)
    then have "64 dvd length (drop 64 xs)" using 1(2) by (simp add: dvd_minus_self)
    then show ?thesis using 1(1) l by (simp add: blocks_take)
  qed
qed

lemma length_compress: "length (rfc_compress st b) = 4"
  by (simp add: rfc_compress_def split: prod.splits)

lemma length_compress_all: "length st = 4 \<Longrightarrow> length (foldl rfc_compress st bs) = 4"
  by (induction bs arbitrary: st) (simp_all add: length_compress)

lemma length_state: "length (foldl rfc_compress rfc_init bs) = 4"
  by (rule length_compress_all) (simp add: rfc_init_def)

lemma blocks_of_drop:
  "blocks xs = blocks (take (length xs - length xs mod 64) xs)"
proof -
  let ?k = "length xs - length xs mod 64"
  have "blocks (take ?k xs @ drop ?k xs) = blocks (take ?k xs) @ blocks (drop ?k xs)"
    by (rule blocks_append) (simp add: dvd_minus_mod)
  also have "blocks (drop ?k xs) = []" by (rule blocks_short) simp
  finally show ?thesis by simp
qed

lemma update_loop_spec:
  assumes "unat i \<le> unat n" "unat n + 64 < 2 ^ 32" "unat n \<le> length input" "length st = 4"
  shows "\<exists>j. update_loop st input n i = Some (foldl rfc_compress st (blocks (take (unat n - unat i) (drop (unat i) input))), j) \<and>
    unat j = unat n - (unat n - unat i) mod 64"
  using assms
proof (induction "unat n - unat i" arbitrary: st i rule: less_induct)
  case less
  have i64: "unat (i + 64) = unat i + 64" using less.prems by (subst unat_word_ariths) simp
  show ?case
  proof (cases "i + 64 \<le> n")
    case True
    then have le: "unat i + 64 \<le> unat n" using i64 by (simp add: word_le_nat_alt)
    let ?b = "take 64 (drop (unat i) input)"
    have "unat n - unat (i + 64) < unat n - unat i" using le i64 by simp
    from less.hyps [OF this, of "rfc_compress st ?b"] le i64 less.prems
    obtain j where j: "update_loop (rfc_compress st ?b) input n (i + 64) =
        Some (foldl rfc_compress (rfc_compress st ?b) (blocks (take (unat n - unat (i + 64)) (drop (unat (i + 64)) input))), j)"
      "unat j = unat n - (unat n - unat (i + 64)) mod 64"
      by (auto simp: length_compress)
    have 1: "update_loop st input n i = update_loop (rfc_compress st ?b) input n (i + 64)"
      using True le less.prems by (subst update_loop.simps) (simp add: mem_simps transform_spec)
    have 2: "blocks (take (unat n - unat i) (drop (unat i) input)) =
       ?b # blocks (take (unat n - unat (i + 64)) (drop (unat (i + 64)) input))"
      using le less.prems i64 by (subst blocks_take) (simp_all add: drop_take add.commute)
    have "unat n - unat i = unat n - unat (i + 64) + 64" using le i64 by linarith
    then have 3: "(unat n - unat i) mod 64 = (unat n - unat (i + 64)) mod 64" by (simp only: mod_add_self2)
    show ?thesis using j unfolding 1 2 3 foldl.simps by blast
  next
    case False
    then have "unat n - unat i < 64" using i64 by (simp add: word_le_nat_alt)
    then show ?thesis using False less.prems by (subst update_loop.simps) (simp add: blocks_short)
  qed
qed


text \<open>What a context holds after the bytes m.\<close>

definition md5_holds :: "MD5_CTX \<Rightarrow> u8 list \<Rightarrow> bool" where
  "md5_holds ctx m \<longleftrightarrow>
     count ctx = [of_nat (8 * length m), of_nat (8 * length m div 2 ^ 32)] \<and>
     state ctx = foldl rfc_compress rfc_init (blocks m) \<and>
     length (buffer ctx) = 64 \<and>
     take (length m mod 64) (buffer ctx) = drop (length m - length m mod 64) m"

lemma init_holds: "length (buffer ctx) = 64 \<Longrightarrow> md5_holds (MD5Init ctx) []"
  by (simp add: md5_holds_def MD5Init_def rfc_init_def blocks_short)

lemma mask_3F: "(0x3F :: u32) = mask 6"
  by (simp add: mask_eq_exp_minus_1)

lemma index_of_count: "unat (drop_bit 3 (of_nat (8 * n)) AND 0x3F :: u32) = n mod 64"
proof -
  have "unat (of_nat (8 * n) :: u32) = 8 * (n mod 2 ^ 29)"
    unfolding unat_of_nat using mult_mod_right [of 8 n "2 ^ 29"] by simp
  then have "unat (drop_bit 3 (of_nat (8 * n)) :: u32) = n mod 2 ^ 29"
    unfolding unat_drop_bit by simp
  then have "unat (drop_bit 3 (of_nat (8 * n)) AND 0x3F :: u32) = n mod 2 ^ 29 mod 2 ^ 6"
    unfolding mask_3F take_bit_eq_mask [symmetric] unsigned_take_bit_eq by (simp only: take_bit_eq_mod)
  then show ?thesis by (simp add: mod_mod_cancel)
qed

lemma div_carry:
  fixes x y m :: nat
  assumes "0 < m"
  shows "(x + y) div m = x div m + y div m + (if (x + y) mod m < y mod m then 1 else 0)"
proof -
  define a b where "a = x mod m" and "b = y mod m"
  have ab: "a < m" "b < m" using assms by (simp_all add: a_def b_def)
  have e: "(x + y) div m = x div m + y div m + (a + b) div m" "(x + y) mod m = (a + b) mod m"
    unfolding a_def b_def by (rule div_add1_eq) (simp only: mod_add_eq)
  show ?thesis
  proof (cases "a + b < m")
    case True
    then show ?thesis unfolding e b_def [symmetric] by simp
  next
    case False
    then have "(a + b) mod m = a + b - m" "(a + b) div m = 1"
      using ab by (simp_all add: le_mod_geq le_div_geq)
    then show ?thesis unfolding e b_def [symmetric] using ab False by simp
  qed
qed

lemma count_add:
  fixes a k :: nat and w :: u32
  assumes k: "unat w = k"
  defines "c0 \<equiv> of_nat (8 * a) + push_bit 3 w :: u32"
  shows "c0 = of_nat (8 * (a + k))"
    "(if of_nat (8 * (a + k)) < push_bit 3 w then of_nat (8 * a div 2 ^ 32) + 1 else of_nat (8 * a div 2 ^ 32)) + drop_bit 29 w = (of_nat (8 * (a + k) div 2 ^ 32) :: u32)"
proof -
  have w: "w = of_nat k" using k by auto
  have p: "push_bit 3 w = of_nat (8 * k)" by (simp add: w push_bit_eq_mult)
  show c0: "c0 = of_nat (8 * (a + k))" unfolding c0_def p by simp
  have lt: "of_nat (8 * (a + k)) < push_bit 3 w \<longleftrightarrow> (8 * a + 8 * k) mod 2 ^ 32 < 8 * k mod 2 ^ 32"
    unfolding p word_less_nat_alt unat_of_nat by (simp add: distrib_left)
  have f: "unat (drop_bit 29 w) = 8 * k div 2 ^ 32"
    unfolding unat_drop_bit k using div_mult2_eq [of "8 * k" 8 "2 ^ 29"] by simp
  have d: "drop_bit 29 w = of_nat (8 * k div 2 ^ 32)" unfolding f [symmetric] by simp
  have "(8 * (a + k)) div 2 ^ 32 = 8 * a div 2 ^ 32 + 8 * k div 2 ^ 32 + (if of_nat (8 * (a + k)) < push_bit 3 w then 1 else 0)"
    unfolding lt using div_carry [of "2 ^ 32" "8 * a" "8 * k"] by (simp only: distrib_left) simp
  then show "(if of_nat (8 * (a + k)) < push_bit 3 w then of_nat (8 * a div 2 ^ 32) + 1 else of_nat (8 * a div 2 ^ 32)) + drop_bit 29 w =
      (of_nat (8 * (a + k) div 2 ^ 32) :: u32)"
    unfolding d by (simp only: of_nat_add) simp
qed

lemma update_holds:
  assumes h: "md5_holds ctx m" and n: "unat n = length data" "data = take (unat n) input" "length data + 64 < 2 ^ 32"
  shows "\<exists>ctx'. MD5Update ctx input n = Some ctx' \<and> md5_holds ctx' (m @ data)"
proof -
  let ?L = "length m" and ?N = "length data"
  define r where "r = ?L mod 64"
  have r: "r < 64" "r \<le> ?L" by (simp_all add: r_def)
  define index where "index = drop_bit 3 (of_nat (8 * ?L) :: u32) AND 0x3F"
  have index: "unat index = r" unfolding index_def r_def by (rule index_of_count)
  have p: "unat (64 - index) = 64 - r" using r index by (subst unat_sub) (simp_all add: word_le_nat_alt)
  have Ni: "?N \<le> length input" using n by (metis length_take min.cobounded1)
  define M where "M = take (?L - r) m"
  define T where "T = drop (?L - r) m"
  have M: "64 dvd length M" unfolding M_def r_def by (simp add: dvd_minus_mod)
  have T: "length T = r" "m = M @ T" "take r (buffer ctx) = T"
    using h r by (simp_all add: T_def M_def md5_holds_def r_def)
  have st: "state ctx = foldl rfc_compress rfc_init (blocks M)"
    using h blocks_of_drop [of m] by (simp add: md5_holds_def M_def r_def)
  have bl: "length (buffer ctx) = 64" using h by (simp add: md5_holds_def)
  have LM: "length M = ?L - r" by (simp add: M_def)
  have cnt: "get_at (count ctx) 0 = Some (of_nat (8 * ?L))" "get_at (count ctx) 1 = Some (of_nat (8 * ?L div 2 ^ 32))"
    using h by (simp_all add: md5_holds_def get_at_def)
  note c = count_add [OF n(1), of ?L]
  have md: "(?L + ?N) mod 64 = (r + ?N) mod 64" by (simp add: r_def mod_add_left_eq)
  show ?thesis
  proof (cases "64 - index \<le> n")
    case False
    then have small: "?N < 64 - r" unfolding word_le_nat_alt p n(1) by simp
    have "get_block input 0 ?N = Some data" using n Ni by (simp add: mem_simps)
    moreover have "put_block (buffer ctx) r data = Some (T @ data @ drop (r + ?N) (buffer ctx))"
      using small bl T by (simp add: mem_simps)
    ultimately have "MD5Update ctx input n = Some (ctx \<lparr>count := [of_nat (8 * (?L + ?N)), of_nat (8 * (?L + ?N) div 2 ^ 32)],
        state := state ctx, buffer := T @ data @ drop (r + ?N) (buffer ctx)\<rparr>)"
      using False by (simp only: MD5Update_def cnt c Let_def bind.bind_lunit index_def [symmetric] index if_False case_prod_conv
          n(1) diff_zero unsigned_0)
    moreover have "blocks (m @ data) = blocks M"
      unfolding T(2) append_assoc blocks_append [OF M] using small T(1) by (simp add: blocks_short)
    moreover have e: "?L + ?N - (r + ?N) = length M" using LM r by linarith
    have "drop (?L + ?N - (r + ?N)) (m @ data) = T @ data" unfolding e using T(2) by simp
    ultimately show ?thesis using small st bl T(1) md by (simp add: md5_holds_def)
  next
    case True
    then have big: "64 - r \<le> ?N" unfolding word_le_nat_alt p n(1) .
    define part where "part = take (64 - r) data"
    have part: "length part = 64 - r" "data = part @ drop (64 - r) data" using big by (simp_all add: part_def)
    define q where "q = (?N - (64 - r)) mod 64"
    have q: "q < 64" "q \<le> ?N - (64 - r)" by (simp_all add: q_def)
    have b1: "length (T @ part) = 64" using part T(1) r by simp
    have g1: "get_block input 0 (64 - r) = Some part"
      using big Ni n(2) by (simp add: mem_simps part_def)
    have p1: "put_block (buffer ctx) r part = Some (T @ part)"
      using bl part T r by (simp add: mem_simps)
    define st1 where "st1 = rfc_compress (state ctx) (T @ part)"
    have l4: "length (state ctx) = 4" using st by (simp add: length_state)
    have t1: "MD5Transform (state ctx) (T @ part) = Some st1"
      unfolding st1_def by (rule transform_spec [OF b1 l4])
    have tl: "take (?N - (64 - r)) (drop (64 - r) input) = drop (64 - r) data"
      using n(1,2) big by (simp add: drop_take)
    have lim: "unat (64 - index) \<le> unat n" "unat n + 64 < 2 ^ 32" "unat n \<le> length input" "length st1 = 4"
      unfolding p n(1) using big n(3) Ni by (simp_all add: st1_def length_compress)
    from update_loop_spec [OF lim]
    obtain j where j: "update_loop st1 input n (64 - index) = Some (foldl rfc_compress st1 (blocks (drop (64 - r) data)), j)"
      "unat j = ?N - q"
      unfolding p n(1) tl q_def [symmetric] by blast
    have "j \<le> n" unfolding word_le_nat_alt j(2) n(1) by simp
    then have nj: "unat (n - j) = q" using q by (simp add: unat_sub j(2) n(1))
    have "drop (?N - q) data = take (?N - (?N - q)) (drop (?N - q) input)"
      by (subst n(2)) (simp only: n(1) drop_take)
    then have g2: "get_block input (?N - q) q = Some (drop (?N - q) data)"
      using Ni q by (simp add: mem_simps)
    have p2: "put_block (T @ part) 0 (drop (?N - q) data) = Some (drop (?N - q) data @ drop q (T @ part))"
      using q b1 by (simp add: mem_simps)
    have "MD5Update ctx input n = Some (ctx \<lparr>count := [of_nat (8 * (?L + ?N)), of_nat (8 * (?L + ?N) div 2 ^ 32)],
        state := foldl rfc_compress st1 (blocks (drop (64 - r) data)), buffer := drop (?N - q) data @ drop q (T @ part)\<rparr>)"
      using True by (simp only: MD5Update_def cnt c Let_def bind.bind_lunit index_def [symmetric] index if_True case_prod_conv
          p g1 p1 t1 j nj g2 p2 unsigned_0)
    moreover have "blocks (m @ data) = blocks M @ [T @ part] @ blocks (drop (64 - r) data)"
    proof -
      have "m @ data = M @ (T @ part) @ drop (64 - r) data" using T(2) part(2) by simp
      also have "blocks \<dots> = blocks M @ blocks (T @ part) @ blocks (drop (64 - r) data)"
        using blocks_append [OF M] blocks_append [of "T @ part"] b1 by simp
      finally show ?thesis using b1 by (simp add: blocks_take blocks_short)
    qed
    moreover have "r + ?N = 64 + (?N - (64 - r))" using big r by linarith
    then have "(?L + ?N) mod 64 = q" unfolding md q_def by (simp only: mod_add_self1)
    moreover have "drop (?L + ?N - q) (m @ data) = drop (?N - q) data" using q by simp
    ultimately show ?thesis using st b1 q by (simp add: md5_holds_def st1_def)
  qed
qed


section \<open>The digest\<close>

fun md5_feed :: "MD5_CTX \<Rightarrow> u8 list list \<Rightarrow> MD5_CTX option" where
  "md5_feed ctx [] = Some ctx"
| "md5_feed ctx (p # ps) = do { ctx \<leftarrow> MD5Update ctx p (of_nat (length p)); md5_feed ctx ps }"

lemma feed_holds:
  assumes "md5_holds ctx m" "\<forall>p \<in> set ps. length p + 64 < 2 ^ 32"
  shows "\<exists>ctx'. md5_feed ctx ps = Some ctx' \<and> md5_holds ctx' (m @ concat ps)"
  using assms
proof (induction ps arbitrary: ctx m)
  case Nil
  then show ?case by simp
next
  case (Cons p ps)
  have u: "unat (of_nat (length p) :: u32) = length p"
    using Cons.prems by (simp add: unat_of_nat)
  obtain c1 where c1: "MD5Update ctx p (of_nat (length p)) = Some c1" "md5_holds c1 (m @ p)"
    using update_holds [OF Cons.prems(1) u, of p] Cons.prems by (auto simp: u)
  then obtain c2 where "md5_feed c1 ps = Some c2" "md5_holds c2 ((m @ p) @ concat ps)"
    using Cons.IH [of c1 "m @ p"] Cons.prems by auto
  then show ?case using c1 by simp
qed

lemma padding_bytes:
  "(if n mod 64 < 56 then 56 - n mod 64 else 120 - n mod 64) = Suc (nat ((55 - int n) mod 64))"
proof -
  define k where "k = n mod 64"
  have k: "k < 64" by (simp add: k_def)
  have "(55 - int n) mod 64 = (55 - int k) mod 64"
    unfolding k_def by (simp add: zmod_int mod_diff_right_eq)
  also have "\<dots> = (if k < 56 then 55 - int k else 119 - int k)"
    using k mod_add_self2 [of "55 - int k" 64] by (auto simp: mod_pos_pos_trivial)
  finally show ?thesis using k unfolding k_def [symmetric] by auto
qed

lemma final_holds:
  assumes h: "md5_holds ctx m" and d: "length digest = 16"
  shows "\<exists>ctx'. MD5Final ctx digest = Some (rfc_md5 m, ctx')"
proof -
  let ?n = "length m"
  define index where "index = drop_bit 3 (of_nat (8 * ?n) :: u32) AND 0x3F"
  have index: "unat index = ?n mod 64" unfolding index_def by (rule index_of_count)
  define padlen where "padlen = (if index < 56 then 56 - index else 120 - index)"
  define z where "z = nat ((55 - int ?n) mod 64)"
  have z: "z < 64" by (simp add: z_def)
  have "unat padlen = (if ?n mod 64 < 56 then 56 - ?n mod 64 else 120 - ?n mod 64)"
    using index by (auto simp: padlen_def word_less_nat_alt unat_sub word_le_nat_alt)
  then have pl: "unat padlen = Suc z" unfolding padding_bytes z_def .
  have P: "take (Suc z) PADDING = 0x80 # replicate z 0" using z by (simp add: PADDING_def take_replicate min_def)
  have c: "count ctx = [of_nat (8 * ?n), of_nat (8 * ?n div 2 ^ 32)]" using h by (simp add: md5_holds_def)
  define bits where "bits = concat (map le_bytes (count ctx))"
  have b: "MD5Encode (replicate 8 0) (count ctx) 8 = Some bits" "length bits = 8"
    using encode_words_spec [of 2 "count ctx" "replicate 8 0" 0] c by (simp_all add: MD5Encode_def bits_def)
  obtain c1 where c1: "MD5Update ctx PADDING padlen = Some c1" "md5_holds c1 (m @ take (Suc z) PADDING)"
    using update_holds [OF h, of padlen "take (Suc z) PADDING" PADDING] pl z by (auto simp: PADDING_def)
  obtain c2 where c2: "MD5Update c1 bits 8 = Some c2" "md5_holds c2 ((m @ take (Suc z) PADDING) @ bits)"
    using update_holds [OF c1(2), of 8 bits bits] b by auto
  have M: "(m @ take (Suc z) PADDING) @ bits = m @ rfc_pad ?n"
    unfolding rfc_pad_def z_def [symmetric] P by (simp add: bits_def c)
  have st: "state c2 = foldl rfc_compress rfc_init (blocks (m @ rfc_pad ?n))"
    using c2(2) unfolding M by (simp add: md5_holds_def)
  have "MD5Encode digest (state c2) 16 = Some (rfc_md5 m)"
    using encode_words_spec [of 4 "state c2" digest 0] d st length_state by (simp add: MD5Encode_def rfc_md5_def)
  moreover have "get_at (count ctx) 0 = Some (of_nat (8 * ?n))" unfolding c by (simp add: get_at_def)
  ultimately have "MD5Final ctx digest = Some (rfc_md5 m, c2)"
    by (simp only: MD5Final_def Let_def bind.bind_lunit index_def [symmetric] padlen_def [symmetric] b(1) c1(1) c2(1))
  then show ?thesis by blast
qed

lemma md5_of_pieces:
  assumes "length (buffer ctx) = 64" "length digest = 16" "\<forall>p \<in> set ps. length p + 64 < 2 ^ 32"
  shows "\<exists>ctx'. do { c \<leftarrow> md5_feed (MD5Init ctx) ps; MD5Final c digest } = Some (rfc_md5 (concat ps), ctx')"
proof -
  obtain c where c: "md5_feed (MD5Init ctx) ps = Some c" "md5_holds c (concat ps)"
    using feed_holds [OF init_holds [OF assms(1)] assms(3)] by auto
  then show ?thesis using final_holds [OF c(2) assms(2)] by simp
qed

section \<open>Properties\<close>

text \<open>C32: Whatever the pieces a message is handed to MD5Update in, and whatever the context and the digest
  buffer held before, MD5Init, the updates and MD5Final write the MD5 digest of RFC 1321 of the whole
  message, and no access leaves an array. The equivalence covers the 64 unrolled steps, the buffering
  of part of a block, the 64-bit counter kept in two words and the padding.\<close>

theorem md5_streaming:
  assumes "length (buffer ctx) = 64" "length digest = 16" "\<forall>p \<in> set ps. length p + 64 < 2 ^ 32"
  shows "\<exists>ctx'. do { c \<leftarrow> md5_feed (MD5Init ctx) ps; MD5Final c digest } = Some (rfc_md5 (concat ps), ctx')"
  using md5_of_pieces [OF assms] .

section \<open>A concrete message\<close>

definition fresh_ctx :: MD5_CTX where
  "fresh_ctx = \<lparr>count = [7, 7], state = [1, 2, 3, 4], buffer = replicate 64 0xAA\<rparr>"

lemma md5_streaming_witness:
  "\<exists>ctx'. do { c \<leftarrow> md5_feed (MD5Init fresh_ctx) [[0x61], [], [0x62, 0x63]]; MD5Final c (replicate 16 0) } =
    Some (rfc_md5 [0x61, 0x62, 0x63], ctx')"
  using md5_streaming [of fresh_ctx "replicate 16 0" "[[0x61], [], [0x62, 0x63]]"] by (simp add: fresh_ctx_def)

end
