(* ===== verification/Platform_Flash.thy ===== *)
theory Platform_Flash
  imports LN_Prelude
begin

unbundle bit_operations_syntax

text \<open>
  platform/platform_flash.c: reading and writing the flash at any address and length on top of calls
  that need multiples of four. The SPI flash driver of the ESP-IDF is a parameter (a record of its
  three calls over a device state); malloc, the addresses of the buffers and what an uninitialised
  buffer holds are arguments. A buffer is the list of its bytes, and a block that does not fit in it
  is the value None.
\<close>

section \<open>The code\<close>

record 'd spi =
  spi_flash_read :: "'d \<Rightarrow> u32 \<Rightarrow> u32 \<Rightarrow> bool \<times> u8 list"
  spi_flash_write :: "'d \<Rightarrow> u32 \<Rightarrow> u8 list \<Rightarrow> bool \<times> 'd"
  spi_flash_erase_sector :: "'d \<Rightarrow> u32 \<Rightarrow> bool \<times> 'd"

definition INTERNAL_FLASH_SECTOR_SIZE :: u32 where "INTERNAL_FLASH_SECTOR_SIZE = 4096"

abbreviation (input) blksize :: u32 where "blksize \<equiv> 4"
abbreviation (input) blkmask :: u32 where "blkmask \<equiv> 3"

definition is_cache_flash_addr :: "u32 \<Rightarrow> bool" where
  "is_cache_flash_addr addr \<longleftrightarrow> addr \<ge> 0x3F400000 \<and> addr < 0x3FC00000"

definition flashh_find_sector :: "u32 \<Rightarrow> u32 \<times> u32 \<times> u32" where
  "flashh_find_sector address =
     (let sect_id = address div INTERNAL_FLASH_SECTOR_SIZE
      in (sect_id, sect_id * INTERNAL_FLASH_SECTOR_SIZE, (sect_id + 1) * INTERNAL_FLASH_SECTOR_SIZE - 1))"

definition platform_flash_get_sector_of_address :: "u32 \<Rightarrow> u32" where
  "platform_flash_get_sector_of_address addr = fst (flashh_find_sector addr)"

definition platform_s_flash_write ::
    "'d spi \<Rightarrow> (u32 \<Rightarrow> bool) \<Rightarrow> u32 \<Rightarrow> u8 list \<Rightarrow> u32 \<Rightarrow> 'd \<Rightarrow> u32 \<times> 'd" where
  "platform_s_flash_write io malloc src bytes toaddr d =
     (let sz = of_nat (length bytes)
      in if (src AND blkmask \<noteq> 0 \<or> is_cache_flash_addr src) \<and> \<not> malloc sz then (0, d)
         else case spi_flash_write io d toaddr bytes of (ok, d) \<Rightarrow> (if ok then sz else 0, d))"

text \<open>The result is the value returned and what is then in the buffer.\<close>

definition platform_s_flash_read ::
    "'d spi \<Rightarrow> u32 \<Rightarrow> u8 list \<Rightarrow> u32 \<Rightarrow> u32 \<Rightarrow> 'd \<Rightarrow> (u32 \<times> u8 list) option" where
  "platform_s_flash_read io to buf fromaddr sz d =
     (if sz = 0 then Some (0, buf)
      else if to AND blkmask \<noteq> 0 then
        let size2 = sz - blksize;
            to2 = (to AND NOT blkmask) + blksize;
            off = unat (to2 - to)
        in case spi_flash_read io d fromaddr size2 of (ok, bs) \<Rightarrow> do {
             buf \<leftarrow> put_block buf off bs;
             if ok then do {
               moved \<leftarrow> get_block buf off (unat size2);
               buf \<leftarrow> put_block buf 0 moved;
               case spi_flash_read io d (fromaddr + size2) blksize of (ok, back) \<Rightarrow> do {
                 buf \<leftarrow> put_block buf (unat size2) back;
                 Some (if ok then sz else 0, buf)
               }
             } else Some (0, buf)
           }
      else case spi_flash_read io d fromaddr sz of (ok, bs) \<Rightarrow> do {
             buf \<leftarrow> put_block buf 0 bs;
             Some (if ok then sz else 0, buf)
           })"

text \<open>
  Part of a block: it is read to tmpdata, the bytes from rest on are replaced, and it is written back.
  The values returned by the two calls are not looked at.
\<close>

definition patch_block ::
    "'d spi \<Rightarrow> (u32 \<Rightarrow> bool) \<Rightarrow> u32 \<Rightarrow> u8 list \<Rightarrow> nat \<Rightarrow> u8 list \<Rightarrow> u32 \<Rightarrow> 'd \<Rightarrow> 'd option" where
  "patch_block io malloc tmpaddr tmpdata rest new temp d = do {
     (_, tmpdata) \<leftarrow> platform_s_flash_read io tmpaddr tmpdata temp blksize d;
     tmpdata \<leftarrow> put_block tmpdata rest new;
     Some (snd (platform_s_flash_write io malloc tmpaddr tmpdata temp d))
   }"

text \<open>The part after the start address has been aligned: whole blocks at once, then part of a block.\<close>

definition write_blocks ::
    "'d spi \<Rightarrow> (u32 \<Rightarrow> bool) \<Rightarrow> u32 \<Rightarrow> u8 list \<Rightarrow> u32 \<Rightarrow> u8 list \<Rightarrow> u32 \<Rightarrow> 'd \<Rightarrow> 'd option" where
  "write_blocks io malloc tmpaddr tmpdata src data toaddr d =
     (let rest = unat (of_nat (length data) AND blkmask);
          temp = unat (of_nat (length data) AND NOT blkmask);
          d = (if temp \<noteq> 0 then snd (platform_s_flash_write io malloc src (take temp data) toaddr d) else d);
          toaddr = toaddr + of_nat temp
      in if rest \<noteq> 0 then patch_block io malloc tmpaddr tmpdata 0 (take rest (drop temp data)) toaddr d else Some d)"

definition platform_flash_write ::
    "'d spi \<Rightarrow> (u32 \<Rightarrow> bool) \<Rightarrow> u32 \<Rightarrow> u8 list \<Rightarrow> u32 \<Rightarrow> u8 list \<Rightarrow> u32 \<Rightarrow> 'd \<Rightarrow> (u32 \<times> 'd) option" where
  "platform_flash_write io malloc tmpaddr tmpdata src data toaddr d =
     (let ssize = of_nat (length data);
          rest = unat (toaddr AND blkmask);
          temp = toaddr AND NOT blkmask
      in if rest \<noteq> 0 then
           (let n = min (length data) (4 - rest)
            in do {
              d \<leftarrow> patch_block io malloc tmpaddr tmpdata rest (take n data) temp d;
              if n = length data then Some (ssize, d)
              else do {
                d \<leftarrow> write_blocks io malloc tmpaddr tmpdata (src + of_nat n) (drop n data) (temp + blksize) d;
                Some (ssize, d)
              }
            })
         else do {
           d \<leftarrow> write_blocks io malloc tmpaddr tmpdata src data toaddr d;
           Some (ssize, d)
         })"

definition part_block :: "'d spi \<Rightarrow> u32 \<Rightarrow> u8 list \<Rightarrow> nat \<Rightarrow> nat \<Rightarrow> u32 \<Rightarrow> 'd \<Rightarrow> u8 list option" where
  "part_block io tmpaddr tmpdata rest n temp d = do {
     (_, tmpdata) \<leftarrow> platform_s_flash_read io tmpaddr tmpdata temp blksize d;
     get_block tmpdata rest n
   }"

definition read_blocks ::
    "'d spi \<Rightarrow> u32 \<Rightarrow> u8 list \<Rightarrow> u32 \<Rightarrow> u8 list \<Rightarrow> u32 \<Rightarrow> u32 \<Rightarrow> 'd \<Rightarrow> u8 list option" where
  "read_blocks io tmpaddr tmpdata to buf fromaddr sz d = do {
     let rest = unat (sz AND blkmask);
     let temp = sz AND NOT blkmask;
     buf \<leftarrow> (if temp \<noteq> 0 then map_option snd (platform_s_flash_read io to buf fromaddr temp d) else Some buf);
     if rest \<noteq> 0 then do {
       bs \<leftarrow> part_block io tmpaddr tmpdata 0 rest (fromaddr + temp) d;
       put_block buf (unat temp) bs
     } else Some buf
   }"

definition platform_flash_read ::
    "'d spi \<Rightarrow> u32 \<Rightarrow> u8 list \<Rightarrow> u32 \<Rightarrow> u8 list \<Rightarrow> u32 \<Rightarrow> u32 \<Rightarrow> 'd \<Rightarrow> (u32 \<times> u8 list) option" where
  "platform_flash_read io tmpaddr tmpdata to buf fromaddr sz d =
     (let rest = unat (fromaddr AND blkmask);
          temp = fromaddr AND NOT blkmask
      in if rest \<noteq> 0 then
           (let n = min (unat sz) (4 - rest)
            in do {
              bs \<leftarrow> part_block io tmpaddr tmpdata rest n temp d;
              buf \<leftarrow> put_block buf 0 bs;
              if n = unat sz then Some (sz, buf)
              else do {
                buf2 \<leftarrow> read_blocks io tmpaddr tmpdata (to + of_nat n) (drop n buf) (temp + blksize) (sz - of_nat n) d;
                Some (sz, take n buf @ buf2)
              }
            })
         else do {
           buf \<leftarrow> read_blocks io tmpaddr tmpdata to buf fromaddr sz d;
           Some (sz, buf)
         })"

definition platform_flash_erase_sector :: "'d spi \<Rightarrow> u32 \<Rightarrow> 'd \<Rightarrow> bool \<times> 'd" where
  "platform_flash_erase_sector io sector_id d = spi_flash_erase_sector io d sector_id"

section \<open>What the driver promises\<close>

text \<open>Programming flash can only clear bits.\<close>

definition program :: "u8 list \<Rightarrow> nat \<Rightarrow> u8 list \<Rightarrow> u8 list" where
  "program xs a bs = take a xs @ map2 (AND) (take (length bs) (drop a xs)) bs @ drop (a + length bs) xs"

definition spi_laws :: "'d spi \<Rightarrow> ('d \<Rightarrow> u8 list) \<Rightarrow> bool" where
  "spi_laws io cont \<longleftrightarrow>
     (\<forall>d a n. 4 dvd unat a \<longrightarrow> 4 dvd unat n \<longrightarrow> unat a + unat n \<le> length (cont d) \<longrightarrow>
        spi_flash_read io d a n = (True, take (unat n) (drop (unat a) (cont d)))) \<and>
     (\<forall>d a bs. 4 dvd unat a \<longrightarrow> 4 dvd length bs \<longrightarrow> unat a + length bs \<le> length (cont d) \<longrightarrow>
        (\<exists>d'. spi_flash_write io d a bs = (True, d') \<and> cont d' = program (cont d) (unat a) bs)) \<and>
     (\<forall>d s. 4096 * unat s + 4096 \<le> length (cont d) \<longrightarrow>
        (\<exists>d'. spi_flash_erase_sector io d s = (True, d') \<and>
           cont d' = take (4096 * unat s) (cont d) @ replicate 4096 0xFF @ drop (4096 * unat s + 4096) (cont d)))"

lemma length_program: "a + length bs \<le> length xs \<Longrightarrow> length (program xs a bs) = length xs"
  by (simp add: program_def)

lemma nth_program:
  "a + length bs \<le> length xs \<Longrightarrow> i < length xs \<Longrightarrow>
     program xs a bs ! i = (if a \<le> i \<and> i < a + length bs then xs ! i AND bs ! (i - a) else xs ! i)"
  by (auto simp: program_def nth_append min_def not_less)

lemma program_Nil [simp]: "program xs a [] = xs"
  by (simp add: program_def)

lemma program_append:
  assumes "a + length bs + length cs \<le> length xs"
  shows "program (program xs a bs) (a + length bs) cs = program xs a (bs @ cs)"
  using assms by (intro nth_equalityI) (auto simp: length_program nth_program nth_append)

lemma nth_overlay:
  "r + length bs \<le> length C \<Longrightarrow> j < length C \<Longrightarrow>
     (take r C @ bs @ drop (r + length bs) C) ! j = (if r \<le> j \<and> j < r + length bs then bs ! (j - r) else C ! j)"
  by (auto simp: nth_append not_less)

text \<open>Writing back what was read, with some bytes replaced, programs just those bytes.\<close>

lemma program_patch:
  assumes "a + n \<le> length xs" "r + length bs \<le> n"
  shows "program xs a (take r (take n (drop a xs)) @ bs @ drop (r + length bs) (take n (drop a xs))) = program xs (a + r) bs"
    (is "program xs a ?B = _")
proof -
  have l: "length ?B = n" using assms by simp
  have p: "length (program xs a ?B) = length xs" by (rule length_program) (use l assms in simp)
  have nth: "?B ! j = (if r \<le> j \<and> j < r + length bs then bs ! (j - r) else xs ! (a + j))" if "j < n" for j
    using nth_overlay [of r bs "take n (drop a xs)" j] assms that by simp
  show ?thesis
  proof (rule nth_equalityI)
    show "length (program xs a ?B) = length (program xs (a + r) bs)"
      using p assms by (simp add: length_program)
    fix i assume i: "i < length (program xs a ?B)"
    then have "program xs a ?B ! i = (if a \<le> i \<and> i < a + n then xs ! i AND ?B ! (i - a) else xs ! i)"
      using nth_program [of a ?B xs i] l p assms by simp
    also have "\<dots> = program xs (a + r) bs ! i"
      using i p assms nth [of "i - a"] by (auto simp: nth_program not_less)
    finally show "program xs a ?B ! i = program xs (a + r) bs ! i" .
  qed
qed

section \<open>Writing and reading at any address\<close>

lemma mask_3: "(3 :: u32) = mask 2"
  by (simp add: mask_eq_exp_minus_1)

lemma unat_and_3: "unat (w AND 3) = unat w mod 4" for w :: u32
  unfolding mask_3 take_bit_eq_mask [symmetric] unsigned_take_bit_eq by (simp add: take_bit_eq_mod)

lemma unat_and_not_3: "unat (w AND NOT 3) = unat w - unat w mod 4" for w :: u32
proof -
  have "w = (w AND 3) + (w AND NOT 3)"
    by (subst disjunctive_add) (auto intro!: bit_word_eqI simp: bit_simps)
  moreover have "(w AND 3) AND (w AND NOT 3) = 0" by (rule bit_word_eqI) (auto simp: bit_simps)
  then have "unat ((w AND 3) OR (w AND NOT 3)) = unat (w AND 3) + unat (w AND NOT 3)" by (rule unat_or_disjoint)
  moreover have "(w AND 3) OR (w AND NOT 3) = w" by (rule bit_word_eqI) (auto simp: bit_simps)
  ultimately have "unat w = unat w mod 4 + unat (w AND NOT 3)" by (simp only: unat_and_3)
  then show ?thesis by simp
qed

lemma and_3_eq_0: "w AND 3 = 0 \<longleftrightarrow> 4 dvd unat w" for w :: u32
  by (metis dvd_eq_mod_eq_0 unat_and_3 unat_eq_0)

lemma s_read_spec:
  assumes laws: "spi_laws io cont" and a: "4 dvd unat a" "4 dvd unat n" "unat a + unat n \<le> length (cont d)"
    and b: "unat n \<le> length buf" and big: "length (cont d) < 2 ^ 32"
  shows "platform_s_flash_read io to buf a n d =
    Some (n, take (unat n) (drop (unat a) (cont d)) @ drop (unat n) buf)"
proof (cases "n = 0 \<or> to AND 3 = 0")
  case True
  then show ?thesis using laws a b by (auto simp: platform_s_flash_read_def spi_laws_def put_block_def)
next
  case False
  define r where "r = unat to mod 4"
  have r: "0 < r" "r < 4" using False and_3_eq_0 [of to] by (simp_all add: r_def dvd_eq_mod_eq_0)
  have n: "4 \<le> unat n" using False a(2) by (metis dvd_imp_le gr0I unat_eq_0)
  have "to = (to AND 3) + (to AND NOT 3)"
    by (subst disjunctive_add) (auto intro!: bit_word_eqI simp: bit_simps)
  then have e: "(to AND NOT 3) + 4 - to = 4 - (to AND 3)" by (simp add: algebra_simps)
  have "unat (4 - (to AND 3)) = 4 - r"
    using r by (subst unat_sub) (simp_all add: word_le_nat_alt unat_and_3 r_def)
  then have off: "unat ((to AND NOT 3) + 4 - to) = 4 - r" unfolding e .
  have n2: "unat (n - 4) = unat n - 4" using n by (subst unat_sub) (simp_all add: word_le_nat_alt)
  have a2: "unat (a + (n - 4)) = unat a + (unat n - 4)"
    using a(3) big n n2 by (subst unat_word_ariths) simp
  let ?C = "cont d"
  have rd1: "spi_flash_read io d a (n - 4) = (True, take (unat n - 4) (drop (unat a) ?C))"
    using laws a n n2 by (simp add: spi_laws_def)
  have rd2: "spi_flash_read io d (a + (n - 4)) 4 = (True, take 4 (drop (unat a + (unat n - 4)) ?C))"
    using laws a n a2 by (simp add: spi_laws_def)
  define bs tail4 where "bs = take (unat n - 4) (drop (unat a) ?C)" and "tail4 = take 4 (drop (unat a + (unat n - 4)) ?C)"
  define X where "X = take (4 - r) buf @ bs @ drop (unat n - r) buf"
  have l: "length bs = unat n - 4" "length tail4 = 4" using a n by (simp_all add: bs_def tail4_def)
  have X: "length X = length buf" "drop (unat n) X = drop (unat n) buf"
    using l b n r by (simp_all add: X_def)
  have p1: "put_block buf (4 - r) bs = Some X"
    using l b n r by (simp add: put_block_def X_def)
  have g: "get_block X (4 - r) (unat n - 4) = Some bs"
    using l b n r by (simp add: get_block_def X_def)
  have p2: "put_block X 0 bs = Some (bs @ drop (unat n - 4) X)"
    using l X b by (simp add: put_block_def)
  have p3: "put_block (bs @ drop (unat n - 4) X) (unat n - 4) tail4 = Some (bs @ tail4 @ drop (unat n) buf)"
    unfolding put_block_def using X b n l by simp
  have e: "bs @ tail4 = take (unat n) (drop (unat a) ?C)"
    using take_add [of "unat n - 4" 4 "drop (unat a) ?C"] n by (simp add: add.commute bs_def tail4_def)
  have "platform_s_flash_read io to buf a n d = Some (n, bs @ tail4 @ drop (unat n) buf)"
    using False by (simp only: platform_s_flash_read_def Let_def off n2 rd1 [folded bs_def] rd2 [folded tail4_def] p1 g p2 p3
        de_Morgan_disj if_False if_True case_prod_conv bind.bind_lunit simp_thms)
  then show ?thesis by (simp flip: e)
qed


lemma s_write_spec:
  assumes "spi_laws io cont" "\<forall>n. malloc n" "4 dvd unat a" "4 dvd length bs" "unat a + length bs \<le> length (cont d)"
  shows "\<exists>d'. platform_s_flash_write io malloc src bs a d = (of_nat (length bs), d') \<and> cont d' = program (cont d) (unat a) bs"
proof -
  obtain d' where "spi_flash_write io d a bs = (True, d')" "cont d' = program (cont d) (unat a) bs"
    using assms unfolding spi_laws_def by blast
  then show ?thesis using assms(2) by (simp add: platform_s_flash_write_def)
qed

lemma patch_spec:
  assumes laws: "spi_laws io cont" "\<forall>n. malloc n" and t: "4 dvd unat temp" "unat temp + 4 \<le> length (cont d)"
    and n: "rest + length new \<le> 4" and tmp: "length tmpdata = 4" and big: "length (cont d) < 2 ^ 32"
  shows "\<exists>d'. patch_block io malloc tmpaddr tmpdata rest new temp d = Some d' \<and> cont d' = program (cont d) (unat temp + rest) new"
proof -
  let ?b = "take 4 (drop (unat temp) (cont d))"
  have r: "platform_s_flash_read io tmpaddr tmpdata temp 4 d = Some (4, ?b)"
    using s_read_spec [OF laws(1) t(1), of 4] t(2) tmp big by simp
  have l: "length ?b = 4" using t(2) by simp
  define B where "B = take rest ?b @ new @ drop (rest + length new) ?b"
  have B: "put_block ?b rest new = Some B" "length B = 4" using l n by (simp_all add: put_block_def B_def)
  obtain d' where d': "snd (platform_s_flash_write io malloc tmpaddr B temp d) = d'" "cont d' = program (cont d) (unat temp) B"
    using s_write_spec [OF laws t(1), where bs = B and d = d and src = tmpaddr] B(2) t(2) by auto
  have "program (cont d) (unat temp) B = program (cont d) (unat temp + rest) new"
    unfolding B_def using t(2) n by (intro program_patch) simp_all
  then show ?thesis using r B(1) d' by (simp add: patch_block_def)
qed

lemma write_blocks_spec:
  assumes laws: "spi_laws io cont" "\<forall>n. malloc n" and a: "4 dvd unat a" "unat a + length data \<le> length (cont d)"
    and big: "length (cont d) < 2 ^ 32" "4 dvd length (cont d)" and tmp: "length tmpdata = 4"
  shows "\<exists>d'. write_blocks io malloc tmpaddr tmpdata src data a d = Some d' \<and> cont d' = program (cont d) (unat a) data"
proof -
  let ?L = "length data"
  define rest where "rest = ?L mod 4"
  define temp where "temp = ?L - rest"
  have u: "unat (of_nat ?L :: u32) = ?L" using a big by (simp add: unat_of_nat)
  have rt: "unat (of_nat ?L AND 3 :: u32) = rest" "unat (of_nat ?L AND NOT 3 :: u32) = temp"
    unfolding unat_and_3 unat_and_not_3 u by (simp_all add: rest_def temp_def)
  have t: "temp \<le> ?L" "4 dvd temp" "temp + rest = ?L" "rest < 4" by (simp_all add: temp_def rest_def dvd_minus_mod)
  define d1 where "d1 = (if temp \<noteq> 0 then snd (platform_s_flash_write io malloc src (take temp data) a d) else d)"
  have d1: "cont d1 = program (cont d) (unat a) (take temp data)"
    using s_write_spec [OF laws a(1), where bs = "take temp data" and d = d and src = "src"] t a by (auto simp: d1_def)
  have l1: "length (cont d1) = length (cont d)" unfolding d1 using a t by (intro length_program) simp
  have a2: "unat (a + of_nat temp) = unat a + temp" using a big t
    by (subst unat_word_ariths) (simp add: unat_of_nat)
  have W: "write_blocks io malloc tmpaddr tmpdata src data a d =
      (if rest \<noteq> 0 then patch_block io malloc tmpaddr tmpdata 0 (take rest (drop temp data)) (a + of_nat temp) d1 else Some d1)"
    unfolding write_blocks_def Let_def rt d1_def ..
  have D: "take temp data @ take rest (drop temp data) = data" using t by simp
  show ?thesis
  proof (cases "rest = 0")
    case True
    then show ?thesis using W d1 D by simp
  next
    case False
    have "unat a + temp + 4 \<le> length (cont d)"
    proof -
      have "4 dvd unat a + temp" using a t by simp
      moreover have "unat a + temp < length (cont d)" using a t False by simp
      ultimately show ?thesis using big(2) by presburger
    qed
    moreover have "?L - temp \<le> 4" using t by linarith
    ultimately obtain d' where "patch_block io malloc tmpaddr tmpdata 0 (take rest (drop temp data)) (a + of_nat temp) d1 = Some d'"
      "cont d' = program (cont d1) (unat a + temp) (take rest (drop temp data))"
      using patch_spec [OF laws, where temp = "a + of_nat temp" and d = d1 and rest = 0 and new = "take rest (drop temp data)"
          and tmpdata = tmpdata and tmpaddr = tmpaddr] a a2 t l1 big tmp by auto
    moreover have "program (cont d1) (unat a + temp) (take rest (drop temp data)) = program (cont d) (unat a) data"
      using program_append [of "unat a" "take temp data" "take rest (drop temp data)" "cont d"] a t D by (simp add: d1)
    ultimately show ?thesis using W False by simp
  qed
qed

lemma flash_write_spec:
  assumes laws: "spi_laws io cont" "\<forall>n. malloc n" and a: "unat a + length data \<le> length (cont d)"
    and big: "length (cont d) < 2 ^ 32" "4 dvd length (cont d)" and tmp: "length tmpdata = 4"
  shows "\<exists>d'. platform_flash_write io malloc tmpaddr tmpdata src data a d = Some (of_nat (length data), d') \<and>
    cont d' = program (cont d) (unat a) data"
proof (cases "unat a mod 4 = 0")
  case True
  then have r: "unat (a AND 3) = 0" and dv: "4 dvd unat a" by (simp_all add: unat_and_3 dvd_eq_mod_eq_0)
  obtain d' where "write_blocks io malloc tmpaddr tmpdata src data a d = Some d'" "cont d' = program (cont d) (unat a) data"
    using write_blocks_spec [OF laws dv a big tmp] by blast
  then show ?thesis unfolding platform_flash_write_def Let_def r by simp
next
  case False
  let ?L = "length data"
  define rest where "rest = unat a mod 4"
  define n where "n = min ?L (4 - rest)"
  have r: "unat (a AND 3) = rest" "unat (a AND NOT 3) = unat a - rest" "rest \<noteq> 0" "rest < 4" "rest \<le> unat a"
    using False unat_and_not_3 [of a] by (simp_all add: unat_and_3 rest_def)
  have t: "4 dvd unat (a AND NOT 3)" unfolding r by (simp add: rest_def dvd_minus_mod)
  have end4: "unat (a AND NOT 3) + 4 \<le> length (cont d)"
  proof -
    have "unat a - rest < length (cont d)" using a r by linarith
    then show ?thesis using t big(2) unfolding r(2) by (metis less_imp_le_nat dvd_minus_mod dvd_imp_le le_add_diff_inverse nat_add_left_cancel_le zero_less_diff dvd_diff_nat)
  qed
  have n4: "rest + length (take n data) \<le> 4" using r(4) by (simp add: n_def)
  have e: "unat (a AND NOT 3) + rest = unat a" unfolding r(2) using r(5) by linarith
  obtain d1 where d1: "patch_block io malloc tmpaddr tmpdata rest (take n data) (a AND NOT 3) d = Some d1"
    "cont d1 = program (cont d) (unat a) (take n data)"
    using patch_spec [OF laws t end4 n4 tmp big(1), of tmpaddr] unfolding e by blast
  show ?thesis
  proof (cases "n = ?L")
    case True
    then show ?thesis using d1 r by (auto simp: platform_flash_write_def Let_def n_def)
  next
    case more: False
    then have n: "n = 4 - rest" "n < ?L" by (auto simp: n_def min_def split: if_splits)
    have a2: "unat ((a AND NOT 3) + 4) = unat a + n"
      using r n a big by (subst unat_word_ariths) simp
    have l1: "length (cont d1) = length (cont d)" unfolding d1(2) using a n by (intro length_program) simp
    have "4 dvd unat a - rest + 4" using t unfolding r by simp
    then have dv: "4 dvd unat ((a AND NOT 3) + 4)" unfolding a2 using n r by (simp add: algebra_simps)
    obtain d' where d': "write_blocks io malloc tmpaddr tmpdata (src + of_nat n) (drop n data) ((a AND NOT 3) + 4) d1 = Some d'"
      "cont d' = program (cont d1) (unat a + n) (drop n data)"
      using write_blocks_spec [OF laws dv, where data = "drop n data" and d = d1 and tmpdata = tmpdata and tmpaddr = tmpaddr
          and src = "src + of_nat n"] a n l1 big tmp a2 by auto
    have "program (cont d1) (unat a + n) (drop n data) = program (cont d) (unat a) data"
      using program_append [of "unat a" "take n data" "drop n data" "cont d"] a n by (simp add: d1)
    then show ?thesis using d1(1) d' r more n
      by (auto simp: platform_flash_write_def Let_def n_def)
  qed
qed


lemma part_spec:
  assumes "spi_laws io cont" "4 dvd unat temp" "unat temp + 4 \<le> length (cont d)" "r + n \<le> 4" "length tmpdata = 4"
    and "length (cont d) < 2 ^ 32"
  shows "part_block io tmpaddr tmpdata r n temp d = Some (take n (drop (unat temp + r) (cont d)))"
proof -
  have "platform_s_flash_read io tmpaddr tmpdata temp 4 d = Some (4, take 4 (drop (unat temp) (cont d)))"
    using s_read_spec [OF assms(1,2), of 4] assms(3,5,6) by simp
  then show ?thesis using assms(3,4) by (simp add: part_block_def get_block_def drop_take add.commute)
qed

lemma read_blocks_spec:
  assumes laws: "spi_laws io cont" and a: "4 dvd unat a" "unat a + unat n \<le> length (cont d)" "unat n \<le> length buf"
    and big: "length (cont d) < 2 ^ 32" "4 dvd length (cont d)" and tmp: "length tmpdata = 4"
  shows "read_blocks io tmpaddr tmpdata to buf a n d = Some (take (unat n) (drop (unat a) (cont d)) @ drop (unat n) buf)"
proof -
  let ?C = "cont d"
  define rest where "rest = unat n mod 4"
  define temp where "temp = n AND NOT 3"
  have rt: "unat (n AND 3) = rest" "unat temp = unat n - rest"
    unfolding temp_def unat_and_3 unat_and_not_3 by (simp_all add: rest_def)
  have t: "4 dvd unat temp" "unat temp + rest = unat n" "rest < 4"
    unfolding rt by (simp_all add: rest_def dvd_minus_mod)
  have a2: "unat (a + temp) = unat a + unat temp" using a big t by (subst unat_word_ariths) simp
  define b1 where "b1 = take (unat temp) (drop (unat a) ?C) @ drop (unat temp) buf"
  have b1: "(if temp \<noteq> 0 then map_option snd (platform_s_flash_read io to buf a temp d) else Some buf) = Some b1"
    using s_read_spec [OF laws a(1) t(1), of d buf to] a t big by (auto simp: b1_def)
  have R: "read_blocks io tmpaddr tmpdata to buf a n d =
      (if rest \<noteq> 0 then do { bs \<leftarrow> part_block io tmpaddr tmpdata 0 rest (a + temp) d; put_block b1 (unat temp) bs } else Some b1)"
    unfolding read_blocks_def Let_def rt(1) temp_def [symmetric] b1 bind.bind_lunit ..
  show ?thesis
  proof (cases "rest = 0")
    case True
    then show ?thesis using R t by (simp add: b1_def)
  next
    case False
    have "unat a + unat temp + 4 \<le> length ?C"
    proof -
      have "4 dvd unat a + unat temp" using a t by simp
      moreover have "unat a + unat temp < length ?C" using a t False by linarith
      ultimately show ?thesis using big(2) by presburger
    qed
    then have p: "part_block io tmpaddr tmpdata 0 rest (a + temp) d = Some (take rest (drop (unat a + unat temp) ?C))"
      using part_spec [OF laws, of "a + temp" d 0 rest tmpdata tmpaddr] a a2 t big tmp by auto
    have l: "length (take rest (drop (unat a + unat temp) ?C)) = rest" using a t by simp
    have lt: "length (take (unat temp) (drop (unat a) ?C)) = unat temp" using a t by simp
    have "put_block b1 (unat temp) (take rest (drop (unat a + unat temp) ?C)) =
        Some (take (unat temp) (drop (unat a) ?C) @ take rest (drop (unat a + unat temp) ?C) @ drop (unat temp + rest) buf)"
      using l lt a t unfolding b1_def put_block_def by (simp add: add.commute)
    moreover have "take (unat temp) (drop (unat a) ?C) @ take rest (drop (unat a + unat temp) ?C) = take (unat n) (drop (unat a) ?C)"
      using take_add [of "unat temp" rest "drop (unat a) ?C"] t(2) by (simp add: add.commute)
    ultimately show ?thesis using R p False t(2) by (simp flip: append_assoc)
  qed
qed

lemma flash_read_spec:
  assumes laws: "spi_laws io cont" and a: "unat a + unat sz \<le> length (cont d)" "unat sz \<le> length buf"
    and big: "length (cont d) < 2 ^ 32" "4 dvd length (cont d)" and tmp: "length tmpdata = 4"
  shows "platform_flash_read io tmpaddr tmpdata to buf a sz d =
    Some (sz, take (unat sz) (drop (unat a) (cont d)) @ drop (unat sz) buf)"
proof (cases "unat a mod 4 = 0")
  case True
  then have r: "unat (a AND 3) = 0" and dv: "4 dvd unat a" by (simp_all add: unat_and_3 dvd_eq_mod_eq_0)
  show ?thesis using read_blocks_spec [OF laws dv a big tmp]
    unfolding platform_flash_read_def Let_def r by simp
next
  case False
  let ?C = "cont d"
  define rest where "rest = unat a mod 4"
  define n where "n = min (unat sz) (4 - rest)"
  have r: "unat (a AND 3) = rest" "unat (a AND NOT 3) = unat a - rest" "rest \<noteq> 0" "rest < 4" "rest \<le> unat a"
    using False unat_and_not_3 [of a] by (simp_all add: unat_and_3 rest_def)
  have t: "4 dvd unat (a AND NOT 3)" unfolding r by (simp add: rest_def dvd_minus_mod)
  have e: "unat (a AND NOT 3) + rest = unat a" unfolding r(2) using r(5) by linarith
  have end4: "unat (a AND NOT 3) + 4 \<le> length ?C"
  proof -
    have "unat (a AND NOT 3) < length ?C" using a(1) r(3) e by linarith
    then show ?thesis using t big(2) by presburger
  qed
  have n: "rest + n \<le> 4" "n \<le> unat sz" using r by (simp_all add: n_def)
  define bs where "bs = take n (drop (unat a) ?C)"
  have p: "part_block io tmpaddr tmpdata rest n (a AND NOT 3) d = Some bs"
    using part_spec [OF laws t end4 n(1) tmp big(1), of tmpaddr] unfolding e bs_def .
  have l: "length bs = n" using a n by (simp add: bs_def)
  have b: "put_block buf 0 bs = Some (bs @ drop n buf)" using l a n by (simp add: put_block_def)
  show ?thesis
  proof (cases "n = unat sz")
    case True
    have "platform_flash_read io tmpaddr tmpdata to buf a sz d = Some (sz, bs @ drop n buf)"
      unfolding platform_flash_read_def Let_def r(1) n_def [symmetric] p b bind.bind_lunit using r(3) True by simp
    then show ?thesis using True by (simp add: bs_def)
  next
    case more: False
    then have n4: "n = 4 - rest" "n < unat sz" using n by (auto simp: n_def min_def split: if_splits)
    have a2: "unat ((a AND NOT 3) + 4) = unat a + n"
      using r n4 a big by (subst unat_word_ariths) simp
    have "4 dvd unat a - rest + 4" using t unfolding r(2) by simp
    then have dv: "4 dvd unat ((a AND NOT 3) + 4)" unfolding a2 using n4 r by (simp add: algebra_simps)
    have s2: "unat (sz - of_nat n) = unat sz - n"
    proof -
      have u: "unat (of_nat n :: u32) = n" using n r by (simp add: unat_of_nat)
      have "of_nat n \<le> sz" unfolding word_le_nat_alt u by (rule n(2))
      then show ?thesis using u by (simp add: unat_sub)
    qed
    let ?rest = "take (unat sz - n) (drop (unat a + n) ?C)"
    have w: "read_blocks io tmpaddr tmpdata (to + of_nat n) (drop n (bs @ drop n buf)) ((a AND NOT 3) + 4) (sz - of_nat n) d =
        Some (?rest @ drop (unat sz) buf)"
    proof -
      have "drop n (bs @ drop n buf) = drop n buf" using l by simp
      moreover have "drop (unat sz - n) (drop n buf) = drop (unat sz) buf" using n by (simp add: add.commute)
      ultimately show ?thesis
        using read_blocks_spec [OF laws dv _ _ big tmp, of "sz - of_nat n" "drop n buf" tmpaddr "to + of_nat n"] a n s2 a2 by simp
    qed
    have "platform_flash_read io tmpaddr tmpdata to buf a sz d = Some (sz, take n (bs @ drop n buf) @ ?rest @ drop (unat sz) buf)"
      unfolding platform_flash_read_def Let_def r(1) n_def [symmetric] p b bind.bind_lunit w using r(3) more by simp
    moreover have "bs @ ?rest = take (unat sz) (drop (unat a) ?C)"
      using take_add [of n "unat sz - n" "drop (unat a) ?C"] n by (simp add: bs_def add.commute)
    ultimately show ?thesis using l by (simp flip: append_assoc)
  qed
qed


lemma erase_spec:
  assumes "spi_laws io cont" "4096 * unat s + 4096 \<le> length (cont d)"
  shows "\<exists>d'. platform_flash_erase_sector io s d = (True, d') \<and> length (cont d') = length (cont d) \<and>
    (\<forall>i < length (cont d). cont d' ! i = (if 4096 * unat s \<le> i \<and> i < 4096 * unat s + 4096 then 0xFF else cont d ! i))"
proof -
  obtain d' where d': "spi_flash_erase_sector io d s = (True, d')"
    "cont d' = take (4096 * unat s) (cont d) @ replicate 4096 0xFF @ drop (4096 * unat s + 4096) (cont d)"
    using assms unfolding spi_laws_def by blast
  have "cont d' ! i = (if 4096 * unat s \<le> i \<and> i < 4096 * unat s + 4096 then 0xFF else cont d ! i)"
    if "i < length (cont d)" for i
    using nth_overlay [of "4096 * unat s" "replicate 4096 (0xFF :: u8)" "cont d" i] that assms(2)
    unfolding d'(2) by auto
  then show ?thesis using d' assms(2) by (auto simp: platform_flash_erase_sector_def)
qed

text \<open>A sector that is erased and written whole holds what was written; the rest of the flash is as before.\<close>

lemma program_erased:
  assumes "a + length bs \<le> length xs"
  shows "program (take a xs @ replicate (length bs) 0xFF @ drop (a + length bs) xs) a bs = take a xs @ bs @ drop (a + length bs) xs"
proof -
  have e: "(0xFF :: u8) = NOT 0" by simp
  have ones: "map2 (AND) (replicate (length bs) (0xFF :: u8)) bs = bs"
    unfolding e by (intro nth_equalityI) simp_all
  show ?thesis using assms by (simp add: program_def ones)
qed

lemma rewrite_sector:
  assumes laws: "spi_laws io cont" and a: "4096 dvd unat a" "unat a + 4096 \<le> length (cont d)" and bs: "length bs = 4096"
  shows "\<exists>d1 d2. spi_flash_erase_sector io d (a div 4096) = (True, d1) \<and> spi_flash_write io d1 a bs = (True, d2) \<and>
    cont d2 = take (unat a) (cont d) @ bs @ drop (unat a + 4096) (cont d)"
proof -
  have s: "4096 * unat (a div 4096) = unat a" using a(1) by (simp add: unat_div_distrib)
  obtain d1 where d1: "spi_flash_erase_sector io d (a div 4096) = (True, d1)"
    "cont d1 = take (unat a) (cont d) @ replicate 4096 0xFF @ drop (unat a + 4096) (cont d)"
    using laws a(2) s unfolding spi_laws_def by metis
  have "4 dvd unat a" using a(1) by (rule dvd_trans [rotated]) simp
  moreover have "4 dvd length bs" "unat a + length bs \<le> length (cont d1)" unfolding d1(2) bs using a(2) by simp_all
  ultimately obtain d2 where d2: "spi_flash_write io d1 a bs = (True, d2)" "cont d2 = program (cont d1) (unat a) bs"
    using laws unfolding spi_laws_def by blast
  have "cont d2 = take (unat a) (cont d) @ bs @ drop (unat a + 4096) (cont d)"
    unfolding d2(2) d1(2) using program_erased [of "unat a" bs "cont d"] a(2) bs by (simp only:)
  then show ?thesis using d1(1) d2(1) by blast
qed

section \<open>Properties\<close>

text \<open>C37: With memory for the copies it makes, platform_flash_write at any address and of any length inside the flash
  programs exactly those bytes and no other, however it has to split them into blocks.\<close>

theorem flash_write_exact:
  assumes "spi_laws io cont" "\<forall>n. malloc n" "unat toaddr + length data \<le> length (cont d)"
    and "length (cont d) < 2 ^ 32" "4 dvd length (cont d)" "length tmpdata = 4"
  shows "\<exists>d'. platform_flash_write io malloc tmpaddr tmpdata src data toaddr d = Some (of_nat (length data), d') \<and>
    length (cont d') = length (cont d) \<and>
    (\<forall>i < length (cont d). cont d' ! i =
      (if unat toaddr \<le> i \<and> i < unat toaddr + length data then cont d ! i AND data ! (i - unat toaddr) else cont d ! i))"
proof -
  obtain d' where "platform_flash_write io malloc tmpaddr tmpdata src data toaddr d = Some (of_nat (length data), d')"
    "cont d' = program (cont d) (unat toaddr) data"
    using flash_write_spec [OF assms] by blast
  then show ?thesis using length_program [OF assms(3)] nth_program [OF assms(3)] by (intro exI [of _ d']) auto
qed

text \<open>platform_flash_read at any address and of any length inside the flash gives exactly those bytes, wherever the
  buffer lies, and leaves what follows them in the buffer.\<close>

lemma flash_read_exact:
  assumes "spi_laws io cont" "unat fromaddr + unat sz \<le> length (cont d)" "unat sz \<le> length buf"
    and "length (cont d) < 2 ^ 32" "4 dvd length (cont d)" "length tmpdata = 4"
  shows "platform_flash_read io tmpaddr tmpdata to buf fromaddr sz d =
    Some (sz, take (unat sz) (drop (unat fromaddr) (cont d)) @ drop (unat sz) buf)"
  using flash_read_spec [OF assms] .

text \<open>Data written into a sector after it has been erased, found by platform_flash_get_sector_of_address, is read back,
  and the bytes of the other sectors are as before.\<close>

lemma flash_store:
  assumes "spi_laws io cont" "\<forall>n. malloc n" "length (cont d) < 2 ^ 32" "4096 dvd length (cont d)" "length tmpdata = 4"
    and "unat a < length (cont d)" "unat a mod 4096 + length data \<le> 4096" "length data \<le> length buf"
  shows "\<exists>d1 d2. platform_flash_erase_sector io (platform_flash_get_sector_of_address a) d = (True, d1) \<and>
    platform_flash_write io malloc tmpaddr tmpdata src data a d1 = Some (of_nat (length data), d2) \<and>
    platform_flash_read io tmpaddr tmpdata to buf a (of_nat (length data)) d2 =
      Some (of_nat (length data), data @ drop (length data) buf) \<and>
    (\<forall>i < length (cont d). i div 4096 \<noteq> unat a div 4096 \<longrightarrow> cont d2 ! i = cont d ! i)"
proof -
  let ?s = "platform_flash_get_sector_of_address a" and ?L = "length data"
  have s: "unat ?s = unat a div 4096"
    by (simp add: platform_flash_get_sector_of_address_def flashh_find_sector_def Let_def INTERNAL_FLASH_SECTOR_SIZE_def unat_div_distrib)
  have sec: "4096 * unat ?s \<le> unat a" "unat a + ?L \<le> 4096 * unat ?s + 4096"
    unfolding s using assms(7) by (simp, metis add.assoc add_left_mono mult_div_mod_eq)
  have end4096: "4096 * unat ?s + 4096 \<le> length (cont d)"
  proof -
    obtain k where k: "length (cont d) = 4096 * k" using assms(4) by (rule dvdE)
    have "unat ?s < k" unfolding s using assms(6) k by (simp add: less_mult_imp_div_less mult.commute)
    then show ?thesis unfolding k by linarith
  qed
  obtain d1 where d1: "platform_flash_erase_sector io ?s d = (True, d1)" "length (cont d1) = length (cont d)"
    "\<forall>i < length (cont d). cont d1 ! i = (if 4096 * unat ?s \<le> i \<and> i < 4096 * unat ?s + 4096 then 0xFF else cont d ! i)"
    using erase_spec [OF assms(1) end4096] by blast
  have dv: "4 dvd length (cont d1)" unfolding d1(2) using assms(4) by (rule dvd_trans [rotated]) simp
  obtain d2 where d2: "platform_flash_write io malloc tmpaddr tmpdata src data a d1 = Some (of_nat ?L, d2)"
    "cont d2 = program (cont d1) (unat a) data"
    using flash_write_spec [OF assms(1,2) _ _ dv assms(5), of a data] sec end4096 assms(3) d1(2) by auto
  have in1: "unat a + ?L \<le> length (cont d1)" using sec end4096 d1(2) by linarith
  have "take ?L (drop (unat a) (cont d2)) = data"
  proof (rule nth_equalityI)
    show "length (take ?L (drop (unat a) (cont d2))) = ?L" using in1 by (simp add: d2(2) length_program)
    fix i assume "i < length (take ?L (drop (unat a) (cont d2)))"
    then have i: "i < ?L" by simp
    then have "cont d2 ! (unat a + i) = cont d1 ! (unat a + i) AND data ! i" using in1 by (simp add: d2(2) nth_program)
    also have "cont d1 ! (unat a + i) = 0xFF" using d1 i sec end4096 by simp
    also have "(0xFF :: u8) = NOT 0" by simp
    finally show "take ?L (drop (unat a) (cont d2)) ! i = data ! i" using i in1 by (simp add: d2(2) length_program)
  qed
  moreover have L: "unat (of_nat ?L :: u32) = ?L" using in1 d1(2) assms(3) by (simp add: unat_of_nat)
  moreover have "length (cont d2) = length (cont d)" unfolding d2(2) using in1 d1(2) by (simp add: length_program)
  ultimately have rd: "platform_flash_read io tmpaddr tmpdata to buf a (of_nat ?L) d2 = Some (of_nat ?L, data @ drop ?L buf)"
    using flash_read_spec [OF assms(1), of a "of_nat ?L" d2 buf tmpdata tmpaddr to] in1 assms(3,5,8) d1(2) dv by simp
  have "cont d2 ! i = cont d ! i" if i: "i < length (cont d)" "i div 4096 \<noteq> unat a div 4096" for i
  proof -
    have "\<not> (4096 * unat ?s \<le> i \<and> i < 4096 * unat ?s + 4096)"
      using i(2) s by (metis add.commute div_nat_eqI mult.commute mult_Suc)
    then have e: "cont d1 ! i = cont d ! i" using d1(3) i(1) by presburger
    have "\<not> (unat a \<le> i \<and> i < unat a + ?L)"
      using \<open>\<not> (4096 * unat ?s \<le> i \<and> i < 4096 * unat ?s + 4096)\<close> sec by linarith
    then show ?thesis using e nth_program [OF in1, of i] i(1) d1(2) by (auto simp: d2(2))
  qed
  then show ?thesis using d1(1) d2(1) rd by blast
qed

section \<open>Witnesses\<close>

text \<open>A flash chip as the list of its bytes.\<close>

definition list_spi :: "u8 list spi" where
  "list_spi = \<lparr>spi_flash_read = \<lambda>d a n. (True, take (unat n) (drop (unat a) d)),
     spi_flash_write = \<lambda>d a bs. (True, program d (unat a) bs),
     spi_flash_erase_sector = \<lambda>d s. (True, take (4096 * unat s) d @ replicate 4096 0xFF @ drop (4096 * unat s + 4096) d)\<rparr>"

lemma list_spi_laws: "spi_laws list_spi (\<lambda>d. d)"
  by (simp add: spi_laws_def list_spi_def)

lemma flash_write_exact_witness:
  "\<exists>d'. platform_flash_write list_spi (\<lambda>_. True) 0x1001 [0, 0, 0, 0] 0x2002 [1, 2, 3, 4, 5, 6] 3 (replicate 16 0xFF) = Some (6, d') \<and>
     length d' = 16 \<and> d' ! 2 = 0xFF \<and> d' ! 3 = 1 \<and> d' ! 8 = 6 \<and> d' ! 9 = 0xFF"
  using flash_write_exact [OF list_spi_laws, of "\<lambda>_. True" 3 "[1, 2, 3, 4, 5, 6]" "replicate 16 0xFF" "[0, 0, 0, 0]"
    "0x1001" "0x2002"] by fastforce

lemma flash_read_exact_witness:
  "platform_flash_read list_spi 0x1000 [0, 0, 0, 0] 0x2002 [9, 9, 9, 9] 3 3 (replicate 5 7 @ replicate 3 8) =
     Some (3, replicate 2 7 @ [8, 9])"
  using flash_read_exact [OF list_spi_laws, of 3 3 "replicate 5 7 @ replicate 3 8" "[9, 9, 9, 9]" "[0, 0, 0, 0]" "0x1000" "0x2002"]
  by simp

lemma flash_store_witness:
  "\<exists>d1 d2. platform_flash_erase_sector list_spi (platform_flash_get_sector_of_address 5) (replicate 4096 0) = (True, d1) \<and>
     platform_flash_write list_spi (\<lambda>_. True) 0x1000 [0, 0, 0, 0] 0x2002 [7, 8, 9] 5 d1 = Some (3, d2) \<and>
     platform_flash_read list_spi 0x1000 [0, 0, 0, 0] 0x2002 [1, 1, 1, 1] 5 3 d2 = Some (3, [7, 8, 9, 1])"
  using flash_store [OF list_spi_laws, of "\<lambda>_. True" "replicate 4096 0" "[0, 0, 0, 0]" 5 "[7, 8, 9]" "[1, 1, 1, 1]"
    "0x1000" "0x2002" "0x2002"] by auto

end
