(* ===== verification/Partition_Table.thy ===== *)
theory Partition_Table
  imports Platform_Flash
begin

unbundle bit_operations_syntax

text \<open>
  platform/platform_partition.c: reading an entry of the partition table in flash and appending one.
  The entry is a struct of the ESP-IDF, so its size, its magic number, the address of the table and
  the way it lies in memory (load_entry, store_entry) are a parameter; the flash driver is the one of
  the theory Platform_Flash.
\<close>

section \<open>The code\<close>

record partition_info =
  magic :: u16
  pi_type :: u8
  pi_subtype :: u8
  pos_offset :: u32
  pos_size :: u32
  pi_label :: "u8 list"
  flags :: u32

record platform_partition =
  label :: "u8 list"
  offs :: u32
  part_size :: u32
  part_type :: u8
  subtype :: u8

record entry_format =
  entry_bytes :: nat
  load_entry :: "u8 list \<Rightarrow> partition_info"
  store_entry :: "partition_info \<Rightarrow> u8 list"
  PARTITION_MAGIC :: u16
  PARTITION_ADD :: u32

definition possible_idx :: "entry_format \<Rightarrow> u8 \<Rightarrow> bool" where
  "possible_idx pt idx \<longleftrightarrow> (unat idx + 1) * entry_bytes pt < 4096"

text \<open>Whether there is such an entry, and what info then holds.\<close>

definition platform_partition_info ::
    "entry_format \<Rightarrow> 'd spi \<Rightarrow> u8 \<Rightarrow> platform_partition \<Rightarrow> 'd \<Rightarrow> bool \<times> platform_partition" where
  "platform_partition_info pt io idx info d =
     (if \<not> possible_idx pt idx then (False, info)
      else case spi_flash_read io d (PARTITION_ADD pt + of_nat (unat idx * entry_bytes pt)) (of_nat (entry_bytes pt)) of
        (ok, bs) \<Rightarrow>
          if \<not> ok then (False, info)
          else let pi = load_entry pt bs
               in if magic pi \<noteq> PARTITION_MAGIC pt then (False, info)
                  else (True, info \<lparr>label := pi_label pi, offs := pos_offset pi, part_size := pos_size pi,
                          part_type := pi_type pi, subtype := pi_subtype pi\<rparr>))"

text \<open>The loop of platform_partition_add; the counter is a byte.\<close>

partial_function (option) find_slot :: "entry_format \<Rightarrow> u8 list \<Rightarrow> u8 \<Rightarrow> u8 option" where
  "find_slot pt part_table idx =
     (if possible_idx pt idx then
        Option.bind (get_block part_table (unat idx * entry_bytes pt) (entry_bytes pt)) (\<lambda>bs.
          if magic (load_entry pt bs) \<noteq> PARTITION_MAGIC pt then Some idx else find_slot pt part_table (idx + 1))
      else Some idx)"

definition fill_slot :: "entry_format \<Rightarrow> platform_partition \<Rightarrow> partition_info \<Rightarrow> partition_info" where
  "fill_slot pt info slot =
     slot \<lparr>magic := PARTITION_MAGIC pt, pi_type := part_type info, pi_subtype := subtype info,
       pos_offset := offs info, pos_size := part_size info, pi_label := label info, flags := 0xFFFFFFFF\<rparr>"

definition platform_partition_add ::
    "entry_format \<Rightarrow> 'd spi \<Rightarrow> bool \<Rightarrow> platform_partition \<Rightarrow> 'd \<Rightarrow> (bool \<times> 'd) option" where
  "platform_partition_add pt io malloc_ok info d =
     (if \<not> malloc_ok then Some (False, d)
      else case spi_flash_read io d (PARTITION_ADD pt) 4096 of (ok, part_table) \<Rightarrow>
        if \<not> ok then Some (False, d)
        else do {
          idx \<leftarrow> find_slot pt part_table 0;
          if possible_idx pt idx then do {
            old \<leftarrow> get_block part_table (unat idx * entry_bytes pt) (entry_bytes pt);
            let slot = fill_slot pt info (load_entry pt old);
            part_table \<leftarrow> put_block part_table (unat idx * entry_bytes pt) (store_entry pt slot);
            case spi_flash_erase_sector io d (PARTITION_ADD pt div 4096) of (ok, d) \<Rightarrow>
              if ok then Some (spi_flash_write io d (PARTITION_ADD pt) part_table) else Some (False, d)
          } else Some (True, d)
        })"

section \<open>The table as a list of entries\<close>

text \<open>A struct is stored in its size, and what is stored is what is loaded; an index fits a byte.\<close>

definition format_laws :: "entry_format \<Rightarrow> bool" where
  "format_laws pt \<longleftrightarrow>
     4 dvd entry_bytes pt \<and> 16 \<le> entry_bytes pt \<and> 4096 dvd unat (PARTITION_ADD pt) \<and>
     (\<forall>bs. length bs = entry_bytes pt \<longrightarrow> length (pi_label (load_entry pt bs)) = 16) \<and>
     (\<forall>pi. length (pi_label pi) = 16 \<longrightarrow>
        length (store_entry pt pi) = entry_bytes pt \<and> load_entry pt (store_entry pt pi) = pi)"

definition table_of :: "entry_format \<Rightarrow> u8 list \<Rightarrow> u8 list" where
  "table_of pt C = take 4096 (drop (unat (PARTITION_ADD pt)) C)"

definition entry :: "entry_format \<Rightarrow> u8 list \<Rightarrow> nat \<Rightarrow> partition_info" where
  "entry pt C i = load_entry pt (take (entry_bytes pt) (drop (i * entry_bytes pt) (table_of pt C)))"

definition slot_ok :: "entry_format \<Rightarrow> nat \<Rightarrow> bool" where
  "slot_ok pt i \<longleftrightarrow> (i + 1) * entry_bytes pt < 4096"

text \<open>The table holds k entries and has room for another.\<close>

definition has_entries :: "entry_format \<Rightarrow> u8 list \<Rightarrow> nat \<Rightarrow> bool" where
  "has_entries pt C k \<longleftrightarrow> slot_ok pt k \<and> magic (entry pt C k) \<noteq> PARTITION_MAGIC pt \<and>
     (\<forall>i < k. magic (entry pt C i) = PARTITION_MAGIC pt)"

definition to_platform :: "partition_info \<Rightarrow> platform_partition" where
  "to_platform pi = \<lparr>label = pi_label pi, offs = pos_offset pi, part_size = pos_size pi,
     part_type = pi_type pi, subtype = pi_subtype pi\<rparr>"

lemma slot_ok_mono: "slot_ok pt k \<Longrightarrow> i \<le> k \<Longrightarrow> slot_ok pt i"
proof -
  assume k: "slot_ok pt k" "i \<le> k"
  then have "(i + 1) * entry_bytes pt \<le> (k + 1) * entry_bytes pt" by (intro mult_le_mono1) simp
  then show ?thesis using k(1) unfolding slot_ok_def by linarith
qed

lemma slot_ok_byte:
  assumes "format_laws pt" "slot_ok pt i"
  shows "i < 255" "i * entry_bytes pt + entry_bytes pt < 4096"
proof -
  have "(i + 1) * 16 \<le> (i + 1) * entry_bytes pt" using assms(1) by (intro mult_le_mono2) (simp add: format_laws_def)
  then show "i < 255" using assms(2) by (simp add: slot_ok_def)
  show "i * entry_bytes pt + entry_bytes pt < 4096" using assms(2) by (simp add: slot_ok_def algebra_simps)
qed

lemma possible_slot: "i < 256 \<Longrightarrow> possible_idx pt (of_nat i) = slot_ok pt i"
  by (simp add: possible_idx_def slot_ok_def unat_of_nat)

text \<open>Where an entry is in the flash.\<close>

lemma entry_address:
  assumes "format_laws pt" "slot_ok pt i" "unat (PARTITION_ADD pt) + 4096 < 2 ^ 32"
  shows "unat (PARTITION_ADD pt + of_nat (i * entry_bytes pt)) = unat (PARTITION_ADD pt) + i * entry_bytes pt"
    "unat (of_nat (entry_bytes pt) :: u32) = entry_bytes pt"
    "4 dvd unat (PARTITION_ADD pt) + i * entry_bytes pt" "4 dvd entry_bytes pt"
proof -
  let ?n = "entry_bytes pt" and ?a = "PARTITION_ADD pt"
  have ib: "i * ?n + ?n < 4096" using slot_ok_byte [OF assms(1,2)] by simp
  have u: "unat (of_nat (i * ?n) :: u32) = i * ?n"
    unfolding unat_of_nat using ib by simp
  show "unat (?a + of_nat (i * ?n)) = unat ?a + i * ?n"
    unfolding unat_word_ariths u using assms(3) ib by simp
  show "unat (of_nat ?n :: u32) = ?n" using ib by (simp add: unat_of_nat)
  show n: "4 dvd ?n" using assms(1) by (simp add: format_laws_def)
  have "4096 dvd unat ?a" using assms(1) by (simp add: format_laws_def)
  then have "4 dvd unat ?a" by (rule dvd_trans [rotated]) simp
  then show "4 dvd unat ?a + i * ?n" using n by simp
qed

lemma info_entry:
  assumes laws: "spi_laws io cont" "format_laws pt" and l: "unat (PARTITION_ADD pt) + 4096 \<le> length (cont d)" "length (cont d) < 2 ^ 32"
    and i: "slot_ok pt i"
  shows "platform_partition_info pt io (of_nat i) info d =
    (if magic (entry pt (cont d) i) = PARTITION_MAGIC pt then (True, to_platform (entry pt (cont d) i)) else (False, info))"
proof -
  let ?n = "entry_bytes pt" and ?a = "PARTITION_ADD pt"
  have ib: "i < 255" "i * ?n + ?n < 4096" using slot_ok_byte [OF laws(2) i] .
  have ui: "unat (of_nat i :: u8) = i" using ib by (simp add: unat_of_nat)
  have "unat ?a + 4096 < 2 ^ 32" using l by linarith
  note a = entry_address [OF laws(2) i this]
  have "take ?n (drop (i * ?n) (table_of pt (cont d))) = take ?n (drop (unat ?a + i * ?n) (cont d))"
    using ib by (simp add: table_of_def drop_take min_def add.commute)
  moreover have "spi_flash_read io d (?a + of_nat (i * ?n)) (of_nat ?n) = (True, take ?n (drop (unat ?a + i * ?n) (cont d)))"
    using laws(1) a l ib unfolding spi_laws_def by simp
  moreover have "possible_idx pt (of_nat i)" using i ib by (simp add: possible_slot)
  ultimately show ?thesis
    by (cases info) (simp add: platform_partition_info_def ui entry_def to_platform_def Let_def)
qed

text \<open>The loop stops at the first free entry.\<close>

lemma find_slot_free:
  assumes laws: "format_laws pt" and l: "length (table_of pt C) = 4096" and k: "has_entries pt C k" and i: "i \<le> k"
  shows "find_slot pt (table_of pt C) (of_nat i) = Some (of_nat k)"
  using i
proof (induction "k - i" arbitrary: i)
  case 0
  have s: "slot_ok pt k" using k by (simp add: has_entries_def)
  note b = slot_ok_byte [OF laws s]
  have "unat (of_nat k :: u8) = k" "possible_idx pt (of_nat k)" using b s by (simp_all add: unat_of_nat possible_slot)
  then show ?case using 0 b l k
    by (subst find_slot.simps) (simp add: mem_simps has_entries_def entry_def)
next
  case (Suc r)
  then have i: "i < k" by simp
  have s: "slot_ok pt i" using k i slot_ok_mono [of pt k i] by (simp add: has_entries_def)
  note b = slot_ok_byte [OF laws s]
  have "unat (of_nat i :: u8) = i" "possible_idx pt (of_nat i)" using b s by (simp_all add: unat_of_nat possible_slot)
  then have "find_slot pt (table_of pt C) (of_nat i) = find_slot pt (table_of pt C) (of_nat (i + 1))"
    using b l k i by (subst find_slot.simps) (simp add: mem_simps has_entries_def entry_def add.commute)
  also have "\<dots> = Some (of_nat k)" using Suc by (intro Suc.hyps(1)) simp_all
  finally show ?case .
qed

lemma take_drop_overlay:
  assumes "p + n \<le> q \<or> q + n \<le> p" "length x = n" "q + n \<le> length T"
  shows "take n (drop p (take q T @ x @ drop (q + n) T)) = take n (drop p T)"
  using assms(1)
proof
  assume "p + n \<le> q"
  then show ?thesis using assms(2,3) by (simp add: take_drop min_def)
next
  assume p: "q + n \<le> p"
  then have "drop p (take q T @ x @ drop (q + n) T) = drop (p - (q + n)) (drop (q + n) T)"
    using assms(2,3) by simp
  then show ?thesis using p by simp
qed

lemma add_entry:
  assumes laws: "spi_laws io cont" "format_laws pt" and l: "unat (PARTITION_ADD pt) + 4096 \<le> length (cont d)" "length (cont d) < 2 ^ 32"
    and k: "has_entries pt (cont d) k" and lab: "length (label info) = 16"
  shows "\<exists>d'. platform_partition_add pt io True info d = Some (True, d') \<and> length (cont d') = length (cont d) \<and>
    to_platform (entry pt (cont d') k) = info \<and> magic (entry pt (cont d') k) = PARTITION_MAGIC pt \<and>
    (\<forall>i. i \<noteq> k \<longrightarrow> slot_ok pt i \<longrightarrow> entry pt (cont d') i = entry pt (cont d) i) \<and>
    (\<forall>i < length (cont d). i < unat (PARTITION_ADD pt) + k * entry_bytes pt \<or>
       unat (PARTITION_ADD pt) + (k + 1) * entry_bytes pt \<le> i \<longrightarrow> cont d' ! i = cont d ! i)"
proof -
  let ?n = "entry_bytes pt" and ?a = "PARTITION_ADD pt" and ?C = "cont d"
  define T where "T = table_of pt ?C"
  have T: "length T = 4096" using l(1) by (simp add: T_def table_of_def)
  have s: "slot_ok pt k" using k by (simp add: has_entries_def)
  note b = slot_ok_byte [OF laws(2) s]
  have uk: "unat (of_nat k :: u8) = k" "possible_idx pt (of_nat k)" using b s by (simp_all add: unat_of_nat possible_slot)
  have "unat ?a + 4096 < 2 ^ 32 \<or> unat ?a + 4096 = 2 ^ 32" using l by linarith
  have a4: "4096 dvd unat ?a" using laws(2) by (simp add: format_laws_def)
  then have "4 dvd unat ?a" by (rule dvd_trans [rotated]) simp
  then have rd: "spi_flash_read io d ?a 4096 = (True, T)"
    using laws(1) l by (simp add: spi_laws_def T_def table_of_def)
  have fs: "find_slot pt T 0 = Some (of_nat k)"
    using find_slot_free [OF laws(2) _ k, of 0] T unfolding T_def by simp
  define old where "old = take ?n (drop (k * ?n) T)"
  have old: "get_block T (k * ?n) ?n = Some old" "length old = ?n" using b T by (simp_all add: mem_simps old_def)
  define slot where "slot = fill_slot pt info (load_entry pt old)"
  have st: "length (store_entry pt slot) = ?n" "load_entry pt (store_entry pt slot) = slot"
    using laws(2) lab by (simp_all add: format_laws_def slot_def fill_slot_def)
  define T' where "T' = take (k * ?n) T @ store_entry pt slot @ drop (k * ?n + ?n) T"
  have T': "put_block T (k * ?n) (store_entry pt slot) = Some T'" "length T' = 4096"
    using st b T by (simp_all add: mem_simps T'_def)
  obtain d1 d2 where d: "spi_flash_erase_sector io d (?a div 4096) = (True, d1)" "spi_flash_write io d1 ?a T' = (True, d2)"
    "cont d2 = take (unat ?a) ?C @ T' @ drop (unat ?a + 4096) ?C"
    using rewrite_sector [OF laws(1) a4 l(1) T'(2)] by blast
  have A: "platform_partition_add pt io True info d = Some (True, d2)"
    by (simp only: platform_partition_add_def rd case_prod_conv fs bind.bind_lunit uk old(1) Let_def slot_def [symmetric] T'(1) d
        simp_thms if_True if_False not_True_eq_False)
  have tab: "table_of pt (cont d2) = T'" using T'(2) l(1) d(3) by (simp add: table_of_def)
  have "entry pt (cont d2) k = slot" using st b T unfolding entry_def tab T'_def by simp
  then have e: "to_platform (entry pt (cont d2) k) = info" "magic (entry pt (cont d2) k) = PARTITION_MAGIC pt"
    by (simp_all add: slot_def fill_slot_def to_platform_def)
  have other: "entry pt (cont d2) i = entry pt ?C i" if i: "i \<noteq> k" "slot_ok pt i" for i
  proof -
    have "i * ?n + ?n \<le> k * ?n \<or> k * ?n + ?n \<le> i * ?n"
    proof (cases "i < k")
      case True
      then have "Suc i * ?n \<le> k * ?n" by (intro mult_le_mono1) simp
      then show ?thesis by simp
    next
      case False
      then have "Suc k * ?n \<le> i * ?n" using i(1) by (intro mult_le_mono1) simp
      then show ?thesis by simp
    qed
    then have "take ?n (drop (i * ?n) T') = take ?n (drop (i * ?n) T)"
      unfolding T'_def using st(1) b(2) T by (intro take_drop_overlay) simp_all
    then show ?thesis unfolding entry_def tab by (simp add: T_def)
  qed
  have split: "cont d2 = take (unat ?a + k * ?n) ?C @ store_entry pt slot @ drop (unat ?a + (k * ?n + ?n)) ?C"
  proof -
    have t: "take (k * ?n) T = take (k * ?n) (drop (unat ?a) ?C)"
      using b(2) by (simp add: T_def table_of_def min_def)
    have e: "drop (k * ?n + ?n) T @ drop (unat ?a + 4096) ?C = drop (unat ?a + (k * ?n + ?n)) ?C"
    proof -
      have "drop (k * ?n + ?n) T = take (4096 - (k * ?n + ?n)) (drop (unat ?a + (k * ?n + ?n)) ?C)"
        by (simp add: T_def table_of_def drop_take add.commute)
      moreover have "drop (unat ?a + 4096) ?C = drop (4096 - (k * ?n + ?n)) (drop (unat ?a + (k * ?n + ?n)) ?C)"
        using b(2) by (simp add: add.commute)
      ultimately show ?thesis by (simp only: append_take_drop_id)
    qed
    show ?thesis unfolding d(3) T'_def t take_add append_assoc e ..
  qed
  have "cont d2 ! i = ?C ! i" if i: "i < length ?C" "i < unat ?a + k * ?n \<or> unat ?a + (k + 1) * ?n \<le> i" for i
  proof (cases "i < unat ?a + k * ?n")
    case True
    then show ?thesis using b(2) l(1) unfolding split by (simp add: nth_append)
  next
    case False
    then have "unat ?a + (k * ?n + ?n) \<le> i" using i(2) by simp
    moreover have "length (take (unat ?a + k * ?n) ?C) = unat ?a + k * ?n" using b(2) l(1) by simp
    moreover have "\<not> i < unat ?a + k * ?n" "\<not> i - (unat ?a + k * ?n) < ?n"
      "i - (unat ?a + k * ?n) - ?n + (unat ?a + (k * ?n + ?n)) = i"
      using \<open>unat ?a + (k * ?n + ?n) \<le> i\<close> by linarith+
    ultimately show ?thesis using i(1) st(1) unfolding split nth_append by (simp add: add.commute)
  qed
  moreover have "length (cont d2) = length ?C" using l(1) T'(2) d(3) by simp
  ultimately show ?thesis using A e other by blast
qed

end
