(* ===== verification/Flash_Api.thy ===== *)
theory Flash_Api
  imports Platform_Flash
begin

unbundle bit_operations_syntax

text \<open>
  platform/flash_api.c: how large the flash is, by trying (flash_safe_...) and by what the image
  header says (flash_rom_...). The header is a struct of the ESP-IDF: its size, its fields and the
  codes of its enumerations are a parameter. The static variables that remember a size are passed
  and returned. None stands for the call of abort when the header cannot be read.
\<close>

section \<open>The code\<close>

record image_format =
  header_bytes :: u32
  spi_mode :: "u8 list \<Rightarrow> u8"
  spi_speed :: "u8 list \<Rightarrow> u8"
  spi_size :: "u8 list \<Rightarrow> u8"
  set_spi_size :: "u8 \<Rightarrow> u8 list \<Rightarrow> u8 list"
  ESP_IMAGE_FLASH_SIZE_1MB :: u8
  ESP_IMAGE_FLASH_SIZE_2MB :: u8
  ESP_IMAGE_FLASH_SIZE_4MB :: u8
  ESP_IMAGE_FLASH_SIZE_8MB :: u8
  ESP_IMAGE_FLASH_SIZE_16MB :: u8
  ESP_IMAGE_SPI_SPEED_40M :: u8
  ESP_IMAGE_SPI_SPEED_26M :: u8
  ESP_IMAGE_SPI_SPEED_20M :: u8
  ESP_IMAGE_SPI_SPEED_80M :: u8

abbreviation (input) FLASH_SIZE_1MBYTE :: u32 where "FLASH_SIZE_1MBYTE \<equiv> 0x100000"
abbreviation (input) FLASH_SIZE_2MBYTE :: u32 where "FLASH_SIZE_2MBYTE \<equiv> 0x200000"
abbreviation (input) FLASH_SIZE_4MBYTE :: u32 where "FLASH_SIZE_4MBYTE \<equiv> 0x400000"
abbreviation (input) FLASH_SIZE_8MBYTE :: u32 where "FLASH_SIZE_8MBYTE \<equiv> 0x800000"
abbreviation (input) FLASH_SIZE_16MBYTE :: u32 where "FLASH_SIZE_16MBYTE \<equiv> 0x1000000"
abbreviation (input) SPI_FLASH_SEC_SIZE :: u32 where "SPI_FLASH_SEC_SIZE \<equiv> 4096"

definition FLASH_HDR_ADDR :: u32 where "FLASH_HDR_ADDR = 0x1000"

definition flash_load_rom_header :: "image_format \<Rightarrow> 'd spi \<Rightarrow> 'd \<Rightarrow> u8 list option" where
  "flash_load_rom_header img io d =
     (case spi_flash_read io d FLASH_HDR_ADDR (header_bytes img) of (ok, hdr) \<Rightarrow> if \<not> ok then None else Some hdr)"

text \<open>
  The loop doubles the size until a read at that offset fails or gives what is at the start again.
  chip_size is the effect of esp_rom_spiflash_config_param on the driver, offs the address of the
  partition table.
\<close>

partial_function (option) detect_loop :: "'d spi \<Rightarrow> u32 \<Rightarrow> 'd \<Rightarrow> u8 list \<Rightarrow> u32 \<Rightarrow> u32 option" where
  "detect_loop io offs d data_orig detected_size =
     (if detected_size < FLASH_SIZE_16MBYTE then
        (case spi_flash_read io d (detected_size + offs) 32 of (ok, data_new) \<Rightarrow>
           if ok \<and> data_orig \<noteq> data_new then detect_loop io offs d data_orig (detected_size * 2)
           else Some detected_size)
      else Some detected_size)"

definition flash_detect_size_byte ::
    "'d spi \<Rightarrow> ('d \<Rightarrow> u32 \<Rightarrow> 'd) \<Rightarrow> u32 \<Rightarrow> 'd \<Rightarrow> (u32 \<times> 'd) option" where
  "flash_detect_size_byte io chip_size offs d =
     (case spi_flash_read io d offs 32 of (ok, data_orig) \<Rightarrow>
        if ok then do {
          let d = chip_size d FLASH_SIZE_16MBYTE;
          detected_size \<leftarrow> detect_loop io offs d data_orig FLASH_SIZE_1MBYTE;
          Some (detected_size, chip_size d detected_size)
        } else Some (FLASH_SIZE_1MBYTE, d))"

text \<open>The value, the static variable flash_size afterwards, and the flash.\<close>

definition flash_safe_get_size_byte ::
    "'d spi \<Rightarrow> ('d \<Rightarrow> u32 \<Rightarrow> 'd) \<Rightarrow> u32 \<Rightarrow> u32 \<Rightarrow> 'd \<Rightarrow> (u32 \<times> u32 \<times> 'd) option" where
  "flash_safe_get_size_byte io chip_size offs flash_size d =
     (if flash_size = 0 then do {
        (n, d) \<leftarrow> flash_detect_size_byte io chip_size offs d;
        Some (n, n, d)
      } else Some (flash_size, flash_size, d))"

definition flash_safe_get_sec_num ::
    "'d spi \<Rightarrow> ('d \<Rightarrow> u32 \<Rightarrow> 'd) \<Rightarrow> u32 \<Rightarrow> u32 \<Rightarrow> 'd \<Rightarrow> (u16 \<times> u32 \<times> 'd) option" where
  "flash_safe_get_sec_num io chip_size offs flash_size d = do {
     (n, flash_size, d) \<leftarrow> flash_safe_get_size_byte io chip_size offs flash_size d;
     Some (ucast (n div SPI_FLASH_SEC_SIZE), flash_size, d)
   }"

definition flash_rom_get_size_byte :: "image_format \<Rightarrow> 'd spi \<Rightarrow> u32 \<Rightarrow> 'd \<Rightarrow> (u32 \<times> u32) option" where
  "flash_rom_get_size_byte img io flash_size d =
     (if flash_size = 0 then do {
        hdr \<leftarrow> flash_load_rom_header img io d;
        let code = spi_size img hdr;
        let n = (if code = ESP_IMAGE_FLASH_SIZE_1MB img then FLASH_SIZE_1MBYTE
                 else if code = ESP_IMAGE_FLASH_SIZE_2MB img then FLASH_SIZE_2MBYTE
                 else if code = ESP_IMAGE_FLASH_SIZE_4MB img then FLASH_SIZE_4MBYTE
                 else if code = ESP_IMAGE_FLASH_SIZE_8MB img then FLASH_SIZE_8MBYTE
                 else if code = ESP_IMAGE_FLASH_SIZE_16MB img then FLASH_SIZE_16MBYTE
                 else FLASH_SIZE_1MBYTE);
        Some (n, n)
      } else Some (flash_size, flash_size))"

text \<open>Whether the sector could be erased and written is not looked at.\<close>

definition flash_rom_set_size_type :: "image_format \<Rightarrow> 'd spi \<Rightarrow> bool \<Rightarrow> u8 \<Rightarrow> 'd \<Rightarrow> bool \<times> 'd" where
  "flash_rom_set_size_type img io malloc_ok size_code d =
     (if \<not> malloc_ok then (False, d)
      else case spi_flash_read io d FLASH_HDR_ADDR SPI_FLASH_SEC_SIZE of (ok, hdr) \<Rightarrow>
        if ok then
          (let hdr = set_spi_size img size_code hdr;
               (_, d) = spi_flash_erase_sector io d (FLASH_HDR_ADDR div SPI_FLASH_SEC_SIZE);
               (_, d) = spi_flash_write io d FLASH_HDR_ADDR hdr
           in (True, d))
        else (True, d))"

definition size_code_of :: "image_format \<Rightarrow> u32 \<Rightarrow> u8 option" where
  "size_code_of img n =
     (if n = FLASH_SIZE_1MBYTE then Some (ESP_IMAGE_FLASH_SIZE_1MB img)
      else if n = FLASH_SIZE_2MBYTE then Some (ESP_IMAGE_FLASH_SIZE_2MB img)
      else if n = FLASH_SIZE_4MBYTE then Some (ESP_IMAGE_FLASH_SIZE_4MB img)
      else if n = FLASH_SIZE_8MBYTE then Some (ESP_IMAGE_FLASH_SIZE_8MB img)
      else if n = FLASH_SIZE_16MBYTE then Some (ESP_IMAGE_FLASH_SIZE_16MB img)
      else None)"

definition flash_rom_set_size_byte :: "image_format \<Rightarrow> 'd spi \<Rightarrow> bool \<Rightarrow> u32 \<Rightarrow> 'd \<Rightarrow> bool \<times> 'd" where
  "flash_rom_set_size_byte img io malloc_ok n d =
     (case size_code_of img n of
        Some size_code \<Rightarrow> flash_rom_set_size_type img io malloc_ok size_code d
      | None \<Rightarrow> (False, d))"

definition flash_rom_get_sec_num :: "image_format \<Rightarrow> 'd spi \<Rightarrow> u32 \<Rightarrow> 'd \<Rightarrow> (u16 \<times> u32) option" where
  "flash_rom_get_sec_num img io flash_size d = do {
     (n, flash_size) \<leftarrow> flash_rom_get_size_byte img io flash_size d;
     Some (ucast (n div SPI_FLASH_SEC_SIZE), flash_size)
   }"

definition flash_rom_get_mode :: "image_format \<Rightarrow> 'd spi \<Rightarrow> 'd \<Rightarrow> u8 option" where
  "flash_rom_get_mode img io d = map_option (spi_mode img) (flash_load_rom_header img io d)"

definition flash_rom_get_speed :: "image_format \<Rightarrow> 'd spi \<Rightarrow> 'd \<Rightarrow> u32 option" where
  "flash_rom_get_speed img io d = do {
     hdr \<leftarrow> flash_load_rom_header img io d;
     let code = spi_speed img hdr;
     Some (if code = ESP_IMAGE_SPI_SPEED_40M img then 40000000
           else if code = ESP_IMAGE_SPI_SPEED_26M img then 26700000
           else if code = ESP_IMAGE_SPI_SPEED_20M img then 20000000
           else if code = ESP_IMAGE_SPI_SPEED_80M img then 80000000
           else 0)
   }"

section \<open>What the driver and the header promise\<close>

text \<open>
  The enumerators of a C enumeration are distinct, the header lies at the start of its sector, and
  assigning a field of it changes no byte outside and makes the field read as assigned.
\<close>

definition image_laws :: "image_format \<Rightarrow> bool" where
  "image_laws img \<longleftrightarrow>
     4 dvd unat (header_bytes img) \<and> unat (header_bytes img) \<le> 4096 \<and>
     distinct [ESP_IMAGE_FLASH_SIZE_1MB img, ESP_IMAGE_FLASH_SIZE_2MB img, ESP_IMAGE_FLASH_SIZE_4MB img,
       ESP_IMAGE_FLASH_SIZE_8MB img, ESP_IMAGE_FLASH_SIZE_16MB img] \<and>
     (\<forall>code hdr. unat (header_bytes img) \<le> length hdr \<longrightarrow>
        length (set_spi_size img code hdr) = length hdr \<and>
        drop (unat (header_bytes img)) (set_spi_size img code hdr) = drop (unat (header_bytes img)) hdr \<and>
        (code \<in> {ESP_IMAGE_FLASH_SIZE_1MB img, ESP_IMAGE_FLASH_SIZE_2MB img, ESP_IMAGE_FLASH_SIZE_4MB img,
           ESP_IMAGE_FLASH_SIZE_8MB img, ESP_IMAGE_FLASH_SIZE_16MB img} \<longrightarrow>
         spi_size img (take (unat (header_bytes img)) (set_spi_size img code hdr)) = code))"

text \<open>
  A chip whose contents are C, told that it is larger than it is: an address past the end wraps
  round to the start, or the read fails.
\<close>

definition mirrors :: "'d spi \<Rightarrow> 'd \<Rightarrow> u8 list \<Rightarrow> bool" where
  "mirrors io d C \<longleftrightarrow>
     (\<forall>a. unat a + 32 \<le> length C \<longrightarrow> spi_flash_read io d a 32 = (True, take 32 (drop (unat a) C))) \<and>
     (\<forall>a. length C \<le> unat a \<longrightarrow> \<not> fst (spi_flash_read io d a 32) \<or>
        spi_flash_read io d a 32 = (True, take 32 (drop (unat a mod length C) C)))"

definition flash_sizes :: "u32 list" where
  "flash_sizes = [0x100000, 0x200000, 0x400000, 0x800000, 0x1000000]"

section \<open>Finding the size\<close>

lemma size_code_sizes: "(size_code_of img n = None) = (n \<notin> set flash_sizes)"
  by (simp add: size_code_of_def flash_sizes_def)

text \<open>One turn of the loop before the end of the chip, and the turn at its end.\<close>

lemma detect_step:
  assumes m: "mirrors io d C" and w: "w < 0x1000000" "unat w + unat offs + 32 \<le> length C" "length C < 2 ^ 32"
    and diff: "take 32 (drop (unat w + unat offs) C) \<noteq> orig"
  shows "detect_loop io offs d orig w = detect_loop io offs d orig (w * 2)"
proof -
  have a: "unat (w + offs) = unat w + unat offs" using w by (subst unat_word_ariths) simp
  then have "spi_flash_read io d (w + offs) 32 = (True, take 32 (drop (unat w + unat offs) C))"
    using m w unfolding mirrors_def by simp
  then show ?thesis using diff w(1) by (subst detect_loop.simps) auto
qed

lemma detect_end:
  assumes m: "mirrors io d C" and w: "length C = unat w" "unat w + unat offs < 2 ^ 32" "unat offs < unat w"
  shows "detect_loop io offs d (take 32 (drop (unat offs) C)) w = Some w"
proof (cases "w < 0x1000000")
  case True
  have a: "unat (w + offs) = unat w + unat offs" using w by (subst unat_word_ariths) simp
  have "(unat w + unat offs) mod unat w = unat offs" using w(3) by simp
  then have "\<not> fst (spi_flash_read io d (w + offs) 32) \<or>
      spi_flash_read io d (w + offs) 32 = (True, take 32 (drop (unat offs) C))"
    using m a w(1) unfolding mirrors_def by (metis le_add1)
  then show ?thesis by (subst detect_loop.simps) (auto split: prod.split)
next
  case False
  then show ?thesis by (subst detect_loop.simps) simp
qed

lemma detect_finds:
  assumes m: "mirrors io d C" and S: "length C = unat S" "S \<in> set flash_sizes" and offs: "unat offs + 32 \<le> 0x100000"
    and diff: "\<forall>j \<in> {0x100000, 0x200000, 0x400000, 0x800000}. j < length C \<longrightarrow>
        take 32 (drop (j + unat offs) C) \<noteq> take 32 (drop (unat offs) C)"
  shows "detect_loop io offs d (take 32 (drop (unat offs) C)) 0x100000 = Some S"
proof -
  let ?o = "take 32 (drop (unat offs) C)"
  have C: "length C \<in> {0x100000, 0x200000, 0x400000, 0x800000, 0x1000000}" using S by (auto simp: flash_sizes_def)
  have last: "detect_loop io offs d ?o S = Some S"
    using C offs by (intro detect_end [OF m S(1)]) (auto simp: S(1) [symmetric])
  have fits: "j + unat offs + 32 \<le> length C"
    if "j \<in> {0x100000, 0x200000, 0x400000, 0x800000}" "j < length C" for j
    using that C offs by (elim insertE emptyE) simp_all
  have big: "length C < 2 ^ 32" using C by (elim insertE emptyE) simp_all
  have step: "detect_loop io offs d ?o w = detect_loop io offs d ?o (w * 2)"
    if w: "unat w \<in> {0x100000, 0x200000, 0x400000, 0x800000}" "unat w < length C" for w
  proof (rule detect_step [OF m _ fits [OF w] big])
    show "w < 0x1000000" unfolding word_less_nat_alt using w(1) by (elim insertE emptyE) simp_all
    show "take 32 (drop (unat w + unat offs) C) \<noteq> ?o" using diff w by blast
  qed
  have "S = 0x100000 \<or> S = 0x200000 \<or> S = 0x400000 \<or> S = 0x800000 \<or> S = 0x1000000"
    using S(2) by (simp add: flash_sizes_def)
  then show ?thesis
    using last step [where w = "0x100000"] step [where w = "0x200000"] step [where w = "0x400000"] step [where w = "0x800000"] S(1) by (elim disjE) simp_all
qed

lemma detect_size:
  assumes "spi_flash_read io d offs 32 = (True, take 32 (drop (unat offs) C))" "mirrors io (chip_size d 0x1000000) C"
    and "length C = unat S" "S \<in> set flash_sizes" "unat offs + 32 \<le> 0x100000"
    and "\<forall>j \<in> {0x100000, 0x200000, 0x400000, 0x800000}. j < length C \<longrightarrow>
        take 32 (drop (j + unat offs) C) \<noteq> take 32 (drop (unat offs) C)"
  shows "flash_safe_get_size_byte io chip_size offs 0 d = Some (S, S, chip_size (chip_size d 0x1000000) S)"
  using detect_finds [OF assms(2-6)] assms(1) by (simp add: flash_safe_get_size_byte_def flash_detect_size_byte_def)

section \<open>Changing the size in the header\<close>

lemma size_code_back:
  assumes "image_laws img" "size_code_of img n = Some code" "spi_size img hdr = code"
    "spi_flash_read io d FLASH_HDR_ADDR (header_bytes img) = (True, hdr)"
  shows "flash_rom_get_size_byte img io 0 d = Some (n, n)"
  using assms
  by (auto simp: image_laws_def size_code_of_def flash_rom_get_size_byte_def flash_load_rom_header_def Let_def split: if_splits)

lemma set_size_type:
  assumes laws: "spi_laws io cont" "image_laws img" and l: "0x2000 \<le> length (cont d)"
    and code: "size_code_of img n = Some code"
  shows "\<exists>d'. flash_rom_set_size_type img io True code d = (True, d') \<and>
    flash_rom_get_size_byte img io 0 d' = Some (n, n) \<and> length (cont d') = length (cont d) \<and>
    (\<forall>i < length (cont d). i < 0x1000 \<or> 0x1000 + unat (header_bytes img) \<le> i \<longrightarrow> cont d' ! i = cont d ! i)"
proof -
  let ?C = "cont d" and ?h = "unat (header_bytes img)"
  define hdr where "hdr = set_spi_size img code (take 4096 (drop 0x1000 ?C))"
  have h: "4 dvd ?h" "?h \<le> 4096" using laws(2) by (simp_all add: image_laws_def)
  have lt: "length (take 4096 (drop 0x1000 ?C)) = 4096" using l by simp
  have hdr: "length hdr = 4096" "drop ?h hdr = drop ?h (take 4096 (drop 0x1000 ?C))"
    using laws(2) h lt unfolding hdr_def image_laws_def by metis+
  have inc: "code \<in> {ESP_IMAGE_FLASH_SIZE_1MB img, ESP_IMAGE_FLASH_SIZE_2MB img, ESP_IMAGE_FLASH_SIZE_4MB img,
      ESP_IMAGE_FLASH_SIZE_8MB img, ESP_IMAGE_FLASH_SIZE_16MB img}"
    using code by (auto simp: size_code_of_def split: if_splits)
  have c: "spi_size img (take ?h hdr) = code"
    using laws(2) h lt inc unfolding hdr_def image_laws_def by metis
  have rd: "spi_flash_read io d FLASH_HDR_ADDR 4096 = (True, take 4096 (drop 0x1000 ?C))"
    using laws(1) l by (simp add: spi_laws_def FLASH_HDR_ADDR_def)
  obtain d1 d2 where d: "spi_flash_erase_sector io d (FLASH_HDR_ADDR div 4096) = (True, d1)"
    "spi_flash_write io d1 FLASH_HDR_ADDR hdr = (True, d2)"
    "cont d2 = take 0x1000 ?C @ hdr @ drop 0x2000 ?C"
    using rewrite_sector [OF laws(1), of FLASH_HDR_ADDR d hdr] l hdr(1) by (auto simp: FLASH_HDR_ADDR_def)
  have "flash_rom_set_size_type img io True code d = (True, d2)"
    by (simp add: flash_rom_set_size_type_def rd hdr_def [symmetric] d)
  moreover have len: "length (cont d2) = length ?C" using d(3) l hdr(1) by simp
  moreover have "take ?h (drop 0x1000 (cont d2)) = take ?h hdr" using d(3) l h hdr(1) by simp
  then have "spi_flash_read io d2 FLASH_HDR_ADDR (header_bytes img) = (True, take ?h hdr)"
    using laws(1) l h len by (simp add: spi_laws_def FLASH_HDR_ADDR_def)
  then have "flash_rom_get_size_byte img io 0 d2 = Some (n, n)"
    by (rule size_code_back [OF laws(2) code c])
  moreover have "cont d2 ! i = ?C ! i" if i: "i < length ?C" "i < 0x1000 \<or> 0x1000 + ?h \<le> i" for i
  proof (cases "0x1000 \<le> i \<and> i < 0x2000")
    case True
    then have k: "?h \<le> i - 0x1000" "i - 0x1000 < 4096" using i by auto
    have "drop ?h hdr ! (i - 0x1000 - ?h) = drop ?h (take 4096 (drop 0x1000 ?C)) ! (i - 0x1000 - ?h)" by (simp only: hdr(2))
    then have "hdr ! (i - 0x1000) = take 4096 (drop 0x1000 ?C) ! (i - 0x1000)"
      using k h by (simp only: nth_drop hdr(1) lt le_add_diff_inverse)
    then show ?thesis using True k l unfolding d(3) by (simp add: nth_append hdr(1))
  next
    case False
    then show ?thesis using i l unfolding d(3) by (auto simp: nth_append hdr(1))
  qed
  ultimately show ?thesis by blast
qed

section \<open>Properties\<close>

text \<open>C38: On a chip of 1, 2, 4, 8 or 16 MB that wraps round (or fails) past its end, and whose bytes at the partition table
  do not occur again at a smaller power of two, flash_safe_get_size_byte returns exactly the size of the chip,
  and leaves the driver told that size.\<close>

theorem flash_size_detected:
  assumes "spi_flash_read io d offs 32 = (True, take 32 (drop (unat offs) C))" "mirrors io (chip_size d 0x1000000) C"
    and "length C = unat S" "S \<in> set flash_sizes" "unat offs + 32 \<le> 0x100000"
    and "\<forall>j \<in> {0x100000, 0x200000, 0x400000, 0x800000}. j < length C \<longrightarrow>
        take 32 (drop (j + unat offs) C) \<noteq> take 32 (drop (unat offs) C)"
  shows "flash_safe_get_size_byte io chip_size offs 0 d = Some (S, S, chip_size (chip_size d 0x1000000) S)"
  using detect_size [where chip_size = chip_size, OF assms] .

text \<open>A size flash_rom_set_size_byte accepts is the size flash_rom_get_size_byte reads after a restart, and no byte of the
  flash outside the image header has changed.\<close>

lemma flash_header_size:
  assumes "spi_laws io cont" "image_laws img" "0x2000 \<le> length (cont d)" "n \<in> set flash_sizes"
  shows "\<exists>d'. flash_rom_set_size_byte img io True n d = (True, d') \<and>
    flash_rom_get_size_byte img io 0 d' = Some (n, n) \<and> length (cont d') = length (cont d) \<and>
    (\<forall>i < length (cont d). i < 0x1000 \<or> 0x1000 + unat (header_bytes img) \<le> i \<longrightarrow> cont d' ! i = cont d ! i)"
proof -
  obtain code where code: "size_code_of img n = Some code" using assms(4) size_code_sizes [of img n] by auto
  show ?thesis using set_size_type [OF assms(1-3) code] code by (simp add: flash_rom_set_size_byte_def)
qed

section \<open>Witnesses\<close>

text \<open>A chip of two megabytes, which wraps round.\<close>

definition wrap_spi :: "u8 list spi" where
  "wrap_spi = list_spi \<lparr>spi_flash_read := \<lambda>d a n. (True, take (unat n) (drop (unat a mod length d) d))\<rparr>"

definition two_parts :: "nat \<Rightarrow> u8 list" where
  "two_parts n = replicate n 7 @ replicate n 8"

lemma length_two_parts: "length (two_parts n) = 2 * n"
  by (simp add: two_parts_def)

lemma two_parts_take:
  "k + 32 \<le> n \<Longrightarrow> take 32 (drop k (two_parts n)) = replicate 32 7"
  "k + 32 \<le> n \<Longrightarrow> take 32 (drop (n + k) (two_parts n)) = replicate 32 8"
  by (simp_all add: two_parts_def min_def)

lemma wrap_mirrors: "mirrors wrap_spi C C"
  by (auto simp: mirrors_def wrap_spi_def)

lemma flash_size_detected_witness:
  "flash_safe_get_size_byte wrap_spi (\<lambda>d _. d) 0x8000 0 (two_parts 0x100000) = Some (0x200000, 0x200000, two_parts 0x100000)"
proof (rule flash_size_detected [where C = "two_parts 0x100000"])
  show "spi_flash_read wrap_spi (two_parts 0x100000) 0x8000 32 = (True, take 32 (drop (unat (0x8000 :: u32)) (two_parts 0x100000)))"
    by (simp add: wrap_spi_def length_two_parts)
  show "\<forall>j \<in> {0x100000, 0x200000, 0x400000, 0x800000}. j < length (two_parts 0x100000) \<longrightarrow>
      take 32 (drop (j + unat (0x8000 :: u32)) (two_parts 0x100000)) \<noteq> take 32 (drop (unat (0x8000 :: u32)) (two_parts 0x100000))"
    using two_parts_take [of "0x8000" "0x100000"] by (simp add: length_two_parts)
qed (simp_all add: wrap_mirrors length_two_parts flash_sizes_def)

text \<open>A header of eight bytes with the size in the upper half of the fourth.\<close>

definition sample_image :: image_format where
  "sample_image = \<lparr>header_bytes = 8, spi_mode = \<lambda>h. h ! 2, spi_speed = \<lambda>h. h ! 3 AND 0xF, spi_size = \<lambda>h. drop_bit 4 (h ! 3),
     set_spi_size = \<lambda>c h. h[3 := (h ! 3 AND 0xF) OR push_bit 4 c],
     ESP_IMAGE_FLASH_SIZE_1MB = 0, ESP_IMAGE_FLASH_SIZE_2MB = 1, ESP_IMAGE_FLASH_SIZE_4MB = 2,
     ESP_IMAGE_FLASH_SIZE_8MB = 3, ESP_IMAGE_FLASH_SIZE_16MB = 4,
     ESP_IMAGE_SPI_SPEED_40M = 0, ESP_IMAGE_SPI_SPEED_26M = 1, ESP_IMAGE_SPI_SPEED_20M = 2, ESP_IMAGE_SPI_SPEED_80M = 15\<rparr>"

lemma sample_image_laws: "image_laws sample_image"
proof -
  have "(0xF :: u8) = mask 4" by (simp add: mask_eq_exp_minus_1)
  then have "drop_bit 4 ((x AND 0xF) OR push_bit 4 c) = drop_bit 4 (push_bit 4 c)" for x c :: u8
    by (auto intro!: bit_word_eqI simp: bit_simps)
  then show ?thesis by (auto simp: image_laws_def sample_image_def)
qed

definition blank_flash :: "nat \<Rightarrow> u8 list" where
  "blank_flash n = replicate n 0xFF"

lemma flash_header_size_witness:
  "\<exists>d'. flash_rom_set_size_byte sample_image list_spi True 0x400000 (blank_flash 0x4000) = (True, d') \<and>
     flash_rom_get_size_byte sample_image list_spi 0 d' = Some (0x400000, 0x400000)"
  using flash_header_size [OF list_spi_laws sample_image_laws, of "blank_flash 0x4000" "0x400000"]
  by (auto simp: blank_flash_def flash_sizes_def)

end
