(* ===== verification/Spiffs_Volume.thy ===== *)
theory Spiffs_Volume
  imports Partition_Table Flash_Api
begin

unbundle bit_operations_syntax

text \<open>
  The volume part of spiffs/spiffs.c: the flash access of the file system, the search for its
  partition, which is appended to the partition table when there is none, mounting and formatting.
  The SPIFFS library itself (spiffs_hydrogen.c and below) is a parameter, a record of the calls this
  file makes on a file system state and the flash. An outer None is a flash access the driver model
  does not allow, as in the theories imported.
\<close>

section \<open>The code\<close>

abbreviation (input) SPIFFS_OK :: int where "SPIFFS_OK \<equiv> 0"
abbreviation (input) SPIFFS_ERR_INTERNAL :: int where "SPIFFS_ERR_INTERNAL \<equiv> - 10050"
abbreviation (input) PLATFORM_PARTITION_TYPE_NODEMCU :: u8 where "PLATFORM_PARTITION_TYPE_NODEMCU \<equiv> 0xC2"
abbreviation (input) PLATFORM_PARTITION_SUBTYPE_NODEMCU_SPIFFS :: u8 where
  "PLATFORM_PARTITION_SUBTYPE_NODEMCU_SPIFFS \<equiv> 0"

definition my_spiffs_read ::
    "'d spi \<Rightarrow> u32 \<Rightarrow> u8 list \<Rightarrow> u32 \<Rightarrow> u32 \<Rightarrow> u32 \<Rightarrow> u8 list \<Rightarrow> 'd \<Rightarrow> (int \<times> u8 list) option" where
  "my_spiffs_read io tmpaddr tmpdata addr n dst buf d = do {
     (_, buf) \<leftarrow> platform_flash_read io tmpaddr tmpdata dst buf addr n d;
     Some (SPIFFS_OK, buf)
   }"

definition my_spiffs_write ::
    "'d spi \<Rightarrow> (u32 \<Rightarrow> bool) \<Rightarrow> u32 \<Rightarrow> u8 list \<Rightarrow> u32 \<Rightarrow> u32 \<Rightarrow> u8 list \<Rightarrow> 'd \<Rightarrow> (int \<times> 'd) option" where
  "my_spiffs_write io malloc tmpaddr tmpdata addr src data d = do {
     (_, d) \<leftarrow> platform_flash_write io malloc tmpaddr tmpdata src data addr d;
     Some (SPIFFS_OK, d)
   }"

partial_function (option) erase_loop :: "'d spi \<Rightarrow> u32 \<Rightarrow> u32 \<Rightarrow> 'd \<Rightarrow> (int \<times> 'd) option" where
  "erase_loop io sect_first sect_last d =
     (if sect_first \<le> sect_last then
        (case platform_flash_erase_sector io sect_first d of (ok, d) \<Rightarrow>
           if \<not> ok then Some (SPIFFS_ERR_INTERNAL, d) else erase_loop io (sect_first + 1) sect_last d)
      else Some (SPIFFS_OK, d))"

text \<open>The last sector is the first one, whatever the size.\<close>

definition my_spiffs_erase :: "'d spi \<Rightarrow> u32 \<Rightarrow> u32 \<Rightarrow> 'd \<Rightarrow> (int \<times> 'd) option" where
  "my_spiffs_erase io addr n d =
     (let sect_first = platform_flash_get_sector_of_address addr;
          sect_last = sect_first
      in erase_loop io sect_first sect_last d)"

record spiffs_config =
  phys_addr :: u32
  phys_size :: u32
  phys_erase_block :: u32
  log_page_size :: u32
  log_block_size :: u32

text \<open>
  The loop over the partitions: whether the file system's was found, the last entry read (info
  keeps it), and the end of the partitions before.
\<close>

partial_function (option) scan_partitions ::
    "entry_format \<Rightarrow> 'd spi \<Rightarrow> 'd \<Rightarrow> u8 \<Rightarrow> platform_partition \<Rightarrow> u32 \<Rightarrow> (bool \<times> platform_partition \<times> u32) option" where
  "scan_partitions pt io d i info next_free_offs =
     (case platform_partition_info pt io i info d of (ok, info) \<Rightarrow>
        if ok then
          if part_type info = PLATFORM_PARTITION_TYPE_NODEMCU \<and> subtype info = PLATFORM_PARTITION_SUBTYPE_NODEMCU_SPIFFS
          then Some (True, info, next_free_offs)
          else scan_partitions pt io d (i + 1) info
                 (if offs info + part_size info > next_free_offs then offs info + part_size info else next_free_offs)
        else Some (False, info, next_free_offs))"

text \<open>strcpy of "spiffs": seven bytes with the zero; the others of the label stay.\<close>

definition spiffs_label :: "u8 list \<Rightarrow> u8 list" where
  "spiffs_label old = [0x73, 0x70, 0x69, 0x66, 0x66, 0x73, 0] @ drop 7 old"

definition get_spiffs_partition ::
    "entry_format \<Rightarrow> 'd spi \<Rightarrow> ('d \<Rightarrow> u32 \<Rightarrow> 'd) \<Rightarrow> bool \<Rightarrow> platform_partition \<Rightarrow> u32 \<Rightarrow> spiffs_config \<Rightarrow> 'd \<Rightarrow>
      (bool \<times> spiffs_config \<times> u32 \<times> 'd) option" where
  "get_spiffs_partition pt io chip_size malloc_ok info flash_size cfg d = do {
     (found, info, next_free_offs) \<leftarrow> scan_partitions pt io d 0 info 0;
     if found then Some (True, cfg \<lparr>phys_addr := offs info, phys_size := part_size info\<rparr>, flash_size, d)
     else do {
       (total, flash_size, d) \<leftarrow> flash_safe_get_size_byte io chip_size (PARTITION_ADD pt) flash_size d;
       let info = info \<lparr>part_type := PLATFORM_PARTITION_TYPE_NODEMCU, subtype := PLATFORM_PARTITION_SUBTYPE_NODEMCU_SPIFFS,
         label := spiffs_label (label info), offs := next_free_offs, part_size := total - next_free_offs\<rparr>;
       let cfg = cfg \<lparr>phys_addr := next_free_offs, phys_size := total - next_free_offs\<rparr>;
       if part_size info \<le> 0 then Some (False, cfg, flash_size, d)
       else do {
         (ok, d) \<leftarrow> platform_partition_add pt io malloc_ok info d;
         Some (ok, cfg, flash_size, d)
       }
     }
   }"

text \<open>The library's calls, and the state of this file: fs, flash_size of flash_api.c, and the flash.\<close>

record ('f, 'd) spiffs_lib =
  SPIFFS_probe_fs :: "spiffs_config \<Rightarrow> 'd \<Rightarrow> int"
  SPIFFS_mount :: "spiffs_config \<Rightarrow> 'f \<Rightarrow> 'd \<Rightarrow> int \<times> 'f \<times> 'd"
  SPIFFS_unmount :: "'f \<Rightarrow> 'd \<Rightarrow> 'f \<times> 'd"
  SPIFFS_format :: "'f \<Rightarrow> 'd \<Rightarrow> int \<times> 'f \<times> 'd"
  clear_err_code :: "'f \<Rightarrow> 'f"

record ('f, 'd) volume =
  fs :: 'f
  chip_bytes :: u32
  flash :: 'd

definition LOG_PAGE_SIZE :: u32 where "LOG_PAGE_SIZE = 256"
definition LOG_BLOCK_SIZE :: u32 where "LOG_BLOCK_SIZE = INTERNAL_FLASH_SECTOR_SIZE * 2"

definition myspiffs_mount_internal ::
    "('f, 'd) spiffs_lib \<Rightarrow> entry_format \<Rightarrow> 'd spi \<Rightarrow> ('d \<Rightarrow> u32 \<Rightarrow> 'd) \<Rightarrow> bool \<Rightarrow> platform_partition \<Rightarrow> bool \<Rightarrow>
      ('f, 'd) volume \<Rightarrow> (bool \<times> ('f, 'd) volume) option" where
  "myspiffs_mount_internal lib pt io chip_size malloc_ok info force_mount v = do {
     let cfg = \<lparr>phys_addr = 0, phys_size = 0, phys_erase_block = INTERNAL_FLASH_SECTOR_SIZE,
       log_page_size = LOG_PAGE_SIZE, log_block_size = LOG_BLOCK_SIZE\<rparr>;
     (found, cfg, n, d) \<leftarrow> get_spiffs_partition pt io chip_size malloc_ok info (chip_bytes v) cfg (flash v);
     let v = v \<lparr>chip_bytes := n, flash := d\<rparr>;
     if \<not> found then Some (False, v)
     else if \<not> force_mount \<and> of_int (SPIFFS_probe_fs lib cfg d) \<noteq> phys_size cfg then Some (False, v)
     else case SPIFFS_mount lib cfg (clear_err_code lib (fs v)) d of (res, f, d) \<Rightarrow>
       Some (res = SPIFFS_OK, v \<lparr>fs := f, flash := d\<rparr>)
   }"

definition myspiffs_mount ::
    "('f, 'd) spiffs_lib \<Rightarrow> entry_format \<Rightarrow> 'd spi \<Rightarrow> ('d \<Rightarrow> u32 \<Rightarrow> 'd) \<Rightarrow> bool \<Rightarrow> platform_partition \<Rightarrow>
      ('f, 'd) volume \<Rightarrow> (bool \<times> ('f, 'd) volume) option" where
  "myspiffs_mount lib pt io chip_size malloc_ok info v = myspiffs_mount_internal lib pt io chip_size malloc_ok info False v"

definition myspiffs_unmount :: "('f, 'd) spiffs_lib \<Rightarrow> ('f, 'd) volume \<Rightarrow> ('f, 'd) volume" where
  "myspiffs_unmount lib v = (case SPIFFS_unmount lib (fs v) (flash v) of (f, d) \<Rightarrow> v \<lparr>fs := f, flash := d\<rparr>)"

definition myspiffs_format ::
    "('f, 'd) spiffs_lib \<Rightarrow> entry_format \<Rightarrow> 'd spi \<Rightarrow> ('d \<Rightarrow> u32 \<Rightarrow> 'd) \<Rightarrow> bool \<Rightarrow> platform_partition \<Rightarrow>
      ('f, 'd) volume \<Rightarrow> (bool \<times> ('f, 'd) volume) option" where
  "myspiffs_format lib pt io chip_size malloc_ok info v = do {
     let v = myspiffs_unmount lib v;
     (_, v) \<leftarrow> myspiffs_mount_internal lib pt io chip_size malloc_ok info True v;
     let v = myspiffs_unmount lib v;
     (case SPIFFS_format lib (fs v) (flash v) of (res, f, d) \<Rightarrow>
        let v = v \<lparr>fs := f, flash := d\<rparr>
        in if res < 0 then Some (False, v) else myspiffs_mount lib pt io chip_size malloc_ok info v)
   }"

section \<open>The partition of the file system\<close>

definition is_spiffs :: "partition_info \<Rightarrow> bool" where
  "is_spiffs pi \<longleftrightarrow> pi_type pi = 0xC2 \<and> pi_subtype pi = 0"

definition part_end :: "partition_info \<Rightarrow> u32" where
  "part_end pi = pos_offset pi + pos_size pi"

text \<open>The end of the entries from i to k, and of next.\<close>

definition max_end :: "entry_format \<Rightarrow> u8 list \<Rightarrow> nat \<Rightarrow> nat \<Rightarrow> u32 \<Rightarrow> u32" where
  "max_end pt C i k next = fold (\<lambda>j n. max n (part_end (entry pt C j))) [i..<k] next"

lemma max_end_step: "i < k \<Longrightarrow> max_end pt C i k next = max_end pt C (i + 1) k (max next (part_end (entry pt C i)))"
  by (simp add: max_end_def upt_conv_Cons)

lemma max_end_ge: "next \<le> max_end pt C i k next \<and> (\<forall>j. i \<le> j \<and> j < k \<longrightarrow> part_end (entry pt C j) \<le> max_end pt C i k next)"
proof (induction "k - i" arbitrary: i "next")
  case 0
  then show ?case by (auto simp: max_end_def)
next
  case (Suc r)
  then have i: "i < k" and r: "r = k - (i + 1)" by simp_all
  note IH = Suc.hyps(1) [OF r, of "max next (part_end (entry pt C i))"]
  show ?case unfolding max_end_step [OF i]
  proof (intro conjI allI impI)
    show "next \<le> max_end pt C (i + 1) k (max next (part_end (entry pt C i)))" using IH by auto
    fix j assume "i \<le> j \<and> j < k"
    then show "part_end (entry pt C j) \<le> max_end pt C (i + 1) k (max next (part_end (entry pt C i)))"
      using IH by (cases "j = i") auto
  qed
qed

lemma max_end_le:
  "next \<le> m \<Longrightarrow> (\<forall>j < k. part_end (entry pt C j) \<le> m) \<Longrightarrow> max_end pt C i k next \<le> m"
proof (induction "k - i" arbitrary: i "next")
  case 0
  then show ?case by (simp add: max_end_def)
next
  case (Suc r)
  then have i: "i < k" and r: "r = k - (i + 1)" by simp_all
  show ?case unfolding max_end_step [OF i] using Suc.prems i by (intro Suc.hyps(1) [OF r]) auto
qed

lemma scan_none:
  assumes laws: "spi_laws io cont" "format_laws pt"
    and l: "unat (PARTITION_ADD pt) + 4096 \<le> length (cont d)" "length (cont d) < 2 ^ 32"
    and k: "has_entries pt (cont d) k" and none: "\<forall>i < k. \<not> is_spiffs (entry pt (cont d) i)" and i: "i \<le> k"
  shows "scan_partitions pt io d (of_nat i) info next =
    Some (False, (if i < k then to_platform (entry pt (cont d) (k - 1)) else info), max_end pt (cont d) i k next)"
  using i
proof (induction "k - i" arbitrary: i info "next")
  case 0
  then have "i = k" by simp
  moreover have "slot_ok pt k" "magic (entry pt (cont d) k) \<noteq> PARTITION_MAGIC pt" using k by (simp_all add: has_entries_def)
  ultimately show ?case
    by (subst scan_partitions.simps) (simp add: info_entry [OF laws l] max_end_def)
next
  case (Suc r)
  then have i: "i < k" and r: "r = k - (i + 1)" "i + 1 \<le> k" by simp_all
  have s: "slot_ok pt i" "magic (entry pt (cont d) i) = PARTITION_MAGIC pt"
    using k i slot_ok_mono [of pt k i] by (simp_all add: has_entries_def)
  let ?e = "to_platform (entry pt (cont d) i)"
  have m: "(if offs ?e + part_size ?e > next then offs ?e + part_size ?e else next) = max next (part_end (entry pt (cont d) i))"
    by (auto simp: to_platform_def part_end_def max_def)
  have "scan_partitions pt io d (of_nat i) info next =
      scan_partitions pt io d (of_nat i + 1) ?e (max next (part_end (entry pt (cont d) i)))"
    using s none i unfolding m [symmetric]
    by (subst scan_partitions.simps) (auto simp: info_entry [OF laws l] is_spiffs_def to_platform_def)
  also have "of_nat i + 1 = (of_nat (i + 1) :: u8)" by simp
  also note Suc.hyps(1) [OF r, of ?e "max next (part_end (entry pt (cont d) i))"]
  finally show ?case using i r max_end_step [OF i] by (cases "i + 1 = k") auto
qed

lemma scan_found:
  assumes laws: "spi_laws io cont" "format_laws pt"
    and l: "unat (PARTITION_ADD pt) + 4096 \<le> length (cont d)" "length (cont d) < 2 ^ 32"
    and k: "slot_ok pt k" "\<forall>i \<le> k. magic (entry pt (cont d) i) = PARTITION_MAGIC pt"
    and none: "\<forall>i < k. \<not> is_spiffs (entry pt (cont d) i)" and this1: "is_spiffs (entry pt (cont d) k)" and i: "i \<le> k"
  shows "\<exists>n. scan_partitions pt io d (of_nat i) info next = Some (True, to_platform (entry pt (cont d) k), n)"
  using i
proof (induction "k - i" arbitrary: i info "next")
  case 0
  then have "i = k" by simp
  then show ?case using k this1
    by (subst scan_partitions.simps) (simp add: info_entry [OF laws l] is_spiffs_def to_platform_def)
next
  case (Suc r)
  then have i: "i < k" and r: "r = k - (i + 1)" "i + 1 \<le> k" by simp_all
  have s: "slot_ok pt i" "magic (entry pt (cont d) i) = PARTITION_MAGIC pt"
    using k i slot_ok_mono [of pt k i] by simp_all
  have e: "of_nat i + 1 = (of_nat (i + 1) :: u8)" by simp
  show ?case
    using s none i Suc.hyps(1) [OF r, folded e]
    by (subst scan_partitions.simps) (auto simp: info_entry [OF laws l] is_spiffs_def to_platform_def)
qed

lemma region_found:
  assumes laws: "spi_laws io cont" "format_laws pt"
    and l: "unat (PARTITION_ADD pt) + 4096 \<le> length (cont d)" "length (cont d) < 2 ^ 32"
    and k: "slot_ok pt k" "\<forall>i \<le> k. magic (entry pt (cont d) i) = PARTITION_MAGIC pt"
    and none: "\<forall>i < k. \<not> is_spiffs (entry pt (cont d) i)" and this1: "is_spiffs (entry pt (cont d) k)"
  shows "get_spiffs_partition pt io chip_size m info n cfg d =
    Some (True, cfg \<lparr>phys_addr := pos_offset (entry pt (cont d) k), phys_size := pos_size (entry pt (cont d) k)\<rparr>, n, d)"
proof -
  have "\<exists>e. scan_partitions pt io d 0 info 0 = Some (True, to_platform (entry pt (cont d) k), e)"
    using scan_found [OF laws l k none this1, of 0] by simp
  then show ?thesis by (auto simp: get_spiffs_partition_def to_platform_def)
qed

lemma region_created:
  assumes laws: "spi_laws io cont" "format_laws pt"
    and l: "unat (PARTITION_ADD pt) + 4096 \<le> length (cont d)" "length (cont d) < 2 ^ 32"
    and k: "has_entries pt (cont d) k" and none: "\<forall>i < k. \<not> is_spiffs (entry pt (cont d) i)"
    and sz: "\<forall>i < k. unat (pos_offset (entry pt (cont d) i)) + unat (pos_size (entry pt (cont d) i)) < unat n" "n \<noteq> 0"
    and size: "flash_safe_get_size_byte io chip_size (PARTITION_ADD pt) cached d = Some (n, cached', d1)" "cont d1 = cont d"
    and lab: "length (label info) = 16"
  shows "\<exists>a d'. get_spiffs_partition pt io chip_size True info cached cfg d =
      Some (True, cfg \<lparr>phys_addr := a, phys_size := n - a\<rparr>, cached', d') \<and>
    a < n \<and> (\<forall>i < k. unat (pos_offset (entry pt (cont d) i)) + unat (pos_size (entry pt (cont d) i)) \<le> unat a) \<and>
    length (cont d') = length (cont d) \<and>
    (\<forall>i < length (cont d). i < unat (PARTITION_ADD pt) + k * entry_bytes pt \<or>
       unat (PARTITION_ADD pt) + (k + 1) * entry_bytes pt \<le> i \<longrightarrow> cont d' ! i = cont d ! i) \<and>
    (\<forall>i < k. entry pt (cont d') i = entry pt (cont d) i) \<and>
    (\<forall>info2 c2 cfg2. get_spiffs_partition pt io chip_size True info2 c2 cfg2 d' =
       Some (True, cfg2 \<lparr>phys_addr := a, phys_size := n - a\<rparr>, c2, d'))"
proof -
  let ?e = "entry pt (cont d)"
  define a where "a = max_end pt (cont d) 0 k 0"
  define inf where "inf = (if 0 < k then to_platform (?e (k - 1)) else info)"
  have scan: "scan_partitions pt io d 0 info 0 = Some (False, inf, a)"
    using scan_none [OF laws l k none, of 0 info 0] by (simp add: inf_def a_def)
  have pe: "unat (part_end (?e i)) = unat (pos_offset (?e i)) + unat (pos_size (?e i))" if "i < k" for i
  proof -
    have "unat (pos_offset (?e i)) + unat (pos_size (?e i)) < 2 ^ 32" using sz(1) that unat_less_32 [of n] by fastforce
    then show ?thesis unfolding part_end_def by (subst unat_word_ariths) simp
  qed
  have lt: "a < n"
  proof -
    have n0: "unat n \<noteq> 0" using sz(2) by (simp add: unat_eq_0)
    have u: "unat (n - 1) = unat n - 1" using sz(2) by (rule unat_minus_one)
    have "\<forall>j < k. part_end (?e j) \<le> n - 1"
    proof (intro allI impI)
      fix j assume j: "j < k"
      have "unat (pos_offset (?e j)) + unat (pos_size (?e j)) < unat n" using sz(1) j by simp
      then show "part_end (?e j) \<le> n - 1" unfolding word_le_nat_alt pe [OF j] u by linarith
    qed
    then have "a \<le> n - 1" unfolding a_def by (intro max_end_le) auto
    moreover have "n - 1 < n" unfolding word_less_nat_alt u using n0 by simp
    ultimately show ?thesis by (rule le_less_trans)
  qed
  have below: "unat (pos_offset (?e i)) + unat (pos_size (?e i)) \<le> unat a" if "i < k" for i
  proof -
    have "part_end (?e i) \<le> a" unfolding a_def using max_end_ge [of 0 pt "cont d" 0 k] that by blast
    then show ?thesis using pe [OF that] by (simp add: word_le_nat_alt)
  qed
  have lab16: "length (label inf) = 16"
  proof (cases "0 < k")
    case True
    then have s: "slot_ok pt (k - 1)" using k slot_ok_mono [of pt k "k - 1"] by (simp add: has_entries_def)
    have "length (table_of pt (cont d)) = 4096" using l(1) by (simp add: table_of_def)
    then have "length (take (entry_bytes pt) (drop ((k - 1) * entry_bytes pt) (table_of pt (cont d)))) = entry_bytes pt"
      using slot_ok_byte(2) [OF laws(2) s] by simp
    then show ?thesis using laws(2) True by (simp add: inf_def to_platform_def entry_def format_laws_def)
  qed (simp add: inf_def lab)
  define inf2 where "inf2 = inf \<lparr>part_type := 0xC2, subtype := 0, label := spiffs_label (label inf), offs := a, part_size := n - a\<rparr>"
  have "length (label inf2) = 16" using lab16 by (simp add: inf2_def spiffs_label_def)
  from add_entry [OF laws l [folded size(2)] k [folded size(2)] this, unfolded size(2)]
  obtain d' where d': "platform_partition_add pt io True inf2 d1 = Some (True, d')" "length (cont d') = length (cont d)"
    "to_platform (entry pt (cont d') k) = inf2" "magic (entry pt (cont d') k) = PARTITION_MAGIC pt"
    "\<forall>i. i \<noteq> k \<longrightarrow> slot_ok pt i \<longrightarrow> entry pt (cont d') i = ?e i"
    "\<forall>i < length (cont d). i < unat (PARTITION_ADD pt) + k * entry_bytes pt \<or>
       unat (PARTITION_ADD pt) + (k + 1) * entry_bytes pt \<le> i \<longrightarrow> cont d' ! i = cont d ! i"
    by blast
  have "n - a \<noteq> 0" using lt by auto
  then have G: "get_spiffs_partition pt io chip_size True info cached cfg d =
      Some (True, cfg \<lparr>phys_addr := a, phys_size := n - a\<rparr>, cached', d')"
    using d'(1) sz(2) by (simp add: get_spiffs_partition_def scan size(1) inf2_def)
  have sk: "slot_ok pt k" using k by (simp add: has_entries_def)
  have same: "entry pt (cont d') i = ?e i" if "i < k" for i
    using d'(5) that slot_ok_mono [OF sk, of i] by auto
  have new: "is_spiffs (entry pt (cont d') k)" "pos_offset (entry pt (cont d') k) = a" "pos_size (entry pt (cont d') k) = n - a"
    using d'(3) by (cases inf; simp add: inf2_def to_platform_def is_spiffs_def)+
  have "\<forall>i \<le> k. magic (entry pt (cont d') i) = PARTITION_MAGIC pt"
    using k same d'(4) by (auto simp: has_entries_def le_less)
  then have "get_spiffs_partition pt io chip_size True info2 c2 cfg2 d' =
       Some (True, cfg2 \<lparr>phys_addr := a, phys_size := n - a\<rparr>, c2, d')" for info2 c2 cfg2
    using region_found [OF laws _ _ sk, of d'] l d'(2) none same new by auto
  then show ?thesis using G lt below same d'(2,6) by blast
qed

section \<open>Properties\<close>

text \<open>
  C31: The partition table lies inside a flash of fewer than 2^32 bytes, has k entries, none of them
  for SPIFFS, and room for another; flash_safe_get_size_byte, which returns the cached size or, where that
  is 0, detects it, returns the size of the flash and leaves its contents; every partition ends before
  the end of the flash; the driver keeps its laws and there is memory for the table. Then
  get_spiffs_partition appends a partition that starts at or after the end of every other and reaches exactly the
  end of the flash. Every byte of the flash outside the new entry is unchanged, the others of the
  table's sector with it, and every later call, with whatever cached size, finds this partition.
\<close>

theorem spiffs_region:
  assumes "spi_laws io cont" "format_laws pt"
    and "unat (PARTITION_ADD pt) + 4096 \<le> length (cont d)" "length (cont d) < 2 ^ 32"
    and "has_entries pt (cont d) k" "\<forall>i < k. \<not> is_spiffs (entry pt (cont d) i)"
    and "flash_safe_get_size_byte io chip_size (PARTITION_ADD pt) cached d = Some (n, cached', d1)" "cont d1 = cont d"
    and "unat n = length (cont d)"
    and "\<forall>i < k. unat (pos_offset (entry pt (cont d) i)) + unat (pos_size (entry pt (cont d) i)) < length (cont d)"
    and "length (label info) = 16"
  shows "\<exists>a d'. get_spiffs_partition pt io chip_size True info cached cfg d =
      Some (True, cfg \<lparr>phys_addr := a, phys_size := n - a\<rparr>, cached', d') \<and>
    a < n \<and> (\<forall>i < k. unat (pos_offset (entry pt (cont d) i)) + unat (pos_size (entry pt (cont d) i)) \<le> unat a) \<and>
    length (cont d') = length (cont d) \<and>
    (\<forall>i < length (cont d). i < unat (PARTITION_ADD pt) + k * entry_bytes pt \<or>
       unat (PARTITION_ADD pt) + (k + 1) * entry_bytes pt \<le> i \<longrightarrow> cont d' ! i = cont d ! i) \<and>
    (\<forall>i < k. entry pt (cont d') i = entry pt (cont d) i) \<and>
    (\<forall>info2 c2 cfg2. get_spiffs_partition pt io chip_size True info2 c2 cfg2 d' =
       Some (True, cfg2 \<lparr>phys_addr := a, phys_size := n - a\<rparr>, c2, d'))"
proof -
  have "n \<noteq> 0" using assms(3,9) by (auto simp: unat_eq_0 [symmetric])
  with assms(9,10) show ?thesis by (intro region_created [OF assms(1-6) _ _ assms(7,8,11)]) simp_all
qed

section \<open>Witnesses\<close>

text \<open>An entry of 32 bytes: magic, type, subtype, offset, size, label and flags; the table is at address 0 here.\<close>

definition le_u32 :: "u8 list \<Rightarrow> u32" where
  "le_u32 bs = ucast (bs ! 0) OR push_bit 8 (ucast (bs ! 1)) OR push_bit 16 (ucast (bs ! 2)) OR push_bit 24 (ucast (bs ! 3))"

definition sample_format :: entry_format where
  "sample_format = \<lparr>entry_bytes = 32,
     load_entry = \<lambda>bs. \<lparr>magic = be16 (bs ! 1) (bs ! 0), pi_type = bs ! 2, pi_subtype = bs ! 3,
       pos_offset = le_u32 (drop 4 bs), pos_size = le_u32 (drop 8 bs), pi_label = take 16 (drop 12 bs), flags = le_u32 (drop 28 bs)\<rparr>,
     store_entry = \<lambda>pi. [lo8 (magic pi), hi8 (magic pi), pi_type pi, pi_subtype pi] @ le_bytes (pos_offset pi) @
       le_bytes (pos_size pi) @ pi_label pi @ le_bytes (flags pi),
     PARTITION_MAGIC = 0x50AA, PARTITION_ADD = 0\<rparr>"

lemma le_u32_bytes: "le_u32 (le_bytes w @ xs) = w"
proof (rule bit_word_eqI)
  fix n :: nat assume "n < LENGTH(32)"
  then have "n < 32" by simp
  then show "bit (le_u32 (le_bytes w @ xs)) n = bit w n"
    by (rule byte_cases) (auto simp: le_u32_def le_bytes_def bit_simps dest: bit_imp_le_length)
qed

lemma sample_format_laws: "format_laws sample_format"
  unfolding format_laws_def
proof (intro conjI allI impI)
  fix pi :: partition_info assume l: "length (pi_label pi) = 16"
  have "le_u32 (le_bytes (flags pi)) = flags pi" using le_u32_bytes [of "flags pi" "[]"] by simp
  then show "load_entry sample_format (store_entry sample_format pi) = pi"
    using l by (cases pi) (simp add: sample_format_def le_u32_bytes byte_simps)
qed (simp_all add: sample_format_def)

text \<open>One partition of 0x100000 bytes at 0x10000, then erased flash.\<close>

definition sample_partition :: partition_info where
  "sample_partition = \<lparr>magic = 0x50AA, pi_type = 0, pi_subtype = 0, pos_offset = 0x10000, pos_size = 0x100000,
     pi_label = replicate 16 0x61, flags = 0\<rparr>"

definition sample_table :: "nat \<Rightarrow> u8 list" where
  "sample_table n = store_entry sample_format sample_partition @ replicate n 0xFF"

lemma sample_store: "length (store_entry sample_format sample_partition) = 32"
  "load_entry sample_format (store_entry sample_format sample_partition) = sample_partition"
proof -
  have l: "length (pi_label sample_partition) = 16" by (simp add: sample_partition_def)
  have "entry_bytes sample_format = 32" by (simp add: sample_format_def)
  then show "length (store_entry sample_format sample_partition) = 32"
    using sample_format_laws l unfolding format_laws_def by auto
  show "load_entry sample_format (store_entry sample_format sample_partition) = sample_partition"
    using sample_format_laws l unfolding format_laws_def by blast
qed

lemma sample_entries:
  assumes "4096 \<le> n"
  shows "entry sample_format (sample_table n) 0 = sample_partition"
    "magic (entry sample_format (sample_table n) 1) = 0xFFFF"
proof -
  have f: "entry_bytes sample_format = 32" "PARTITION_ADD sample_format = 0" by (simp_all add: sample_format_def)
  show "entry sample_format (sample_table n) 0 = sample_partition"
    unfolding entry_def table_of_def f using sample_store by (simp add: sample_table_def)
  have "take 32 (drop 32 (take 4096 (sample_table n))) = replicate 32 0xFF"
    using assms sample_store(1) by (simp add: sample_table_def drop_take min_def)
  moreover have "magic (load_entry sample_format (replicate 32 0xFF)) = 0xFFFF"
    by (simp add: sample_format_def be16_def)
  ultimately show "magic (entry sample_format (sample_table n) 1) = 0xFFFF"
    unfolding entry_def table_of_def f by simp
qed

lemma sample_has_entry:
  assumes "4096 \<le> n"
  shows "has_entries sample_format (sample_table n) 1"
  using sample_entries [OF assms]
  by (simp add: has_entries_def slot_ok_def sample_format_def [THEN arg_cong, of entry_bytes] sample_format_def [THEN arg_cong, of PARTITION_MAGIC]
    sample_partition_def)

definition sample_config :: spiffs_config where
  "sample_config = \<lparr>phys_addr = 0, phys_size = 0, phys_erase_block = 4096, log_page_size = 256, log_block_size = 8192\<rparr>"

text \<open>That partition on a flash of two megabytes, whose size is detected.\<close>

lemma wrap_spi_laws: "spi_laws wrap_spi (\<lambda>d. d)"
proof -
  have r: "take (unat n) (drop (unat a mod length d) d) = take (unat n) (drop (unat a) d)"
    if "unat a + unat n \<le> length d" for a n :: u32 and d :: "u8 list"
    using that by (cases "unat a = length d") simp_all
  show ?thesis
    using list_spi_laws r by (simp add: spi_laws_def wrap_spi_def list_spi_def)
qed

lemma sample_size_detected:
  "flash_safe_get_size_byte wrap_spi (\<lambda>d _. d) (PARTITION_ADD sample_format) 0 (sample_table 0x1FFFE0) =
     Some (0x200000, 0x200000, sample_table 0x1FFFE0)"
proof (rule detect_size [where C = "sample_table 0x1FFFE0"])
  have l: "length (sample_table 0x1FFFE0) = 0x200000" using sample_store(1) by (simp add: sample_table_def)
  then show "length (sample_table 0x1FFFE0) = unat (0x200000 :: u32)" by simp
  have z: "unat (PARTITION_ADD sample_format) = 0" by (simp add: sample_format_def)
  have "spi_flash_read wrap_spi d a n = (True, take (unat n) (drop (unat a mod length d) d))" for d a n
    by (simp add: wrap_spi_def)
  then show "spi_flash_read wrap_spi (sample_table 0x1FFFE0) (PARTITION_ADD sample_format) 32 =
      (True, take 32 (drop (unat (PARTITION_ADD sample_format)) (sample_table 0x1FFFE0)))"
    using z by simp
  have "take 32 (drop 0x100000 (sample_table 0x1FFFE0)) = replicate 32 0xFF"
    using sample_store(1) by (simp add: sample_table_def)
  moreover have "take 32 (sample_table 0x1FFFE0) = store_entry sample_format sample_partition"
    using sample_store(1) by (simp add: sample_table_def)
  moreover have "replicate 32 0xFF \<noteq> store_entry sample_format sample_partition"
  proof
    assume e: "replicate 32 0xFF = store_entry sample_format sample_partition"
    have "hd (store_entry sample_format sample_partition) = 0xAA"
      by (simp add: sample_format_def sample_partition_def lo8_def)
    then show False unfolding e [symmetric] by simp
  qed
  ultimately show "\<forall>j \<in> {0x100000, 0x200000, 0x400000, 0x800000}. j < length (sample_table 0x1FFFE0) \<longrightarrow>
      take 32 (drop (j + unat (PARTITION_ADD sample_format)) (sample_table 0x1FFFE0)) \<noteq>
      take 32 (drop (unat (PARTITION_ADD sample_format)) (sample_table 0x1FFFE0))"
    unfolding l z by auto
qed (simp_all add: wrap_mirrors flash_sizes_def sample_format_def)

lemma spiffs_region_witness:
  "\<exists>a d'. get_spiffs_partition sample_format wrap_spi (\<lambda>d _. d) True (to_platform sample_partition) 0 sample_config (sample_table 0x1FFFE0) =
     Some (True, sample_config \<lparr>phys_addr := a, phys_size := 0x200000 - a\<rparr>, 0x200000, d') \<and> 0x110000 \<le> unat a"
proof -
  have e: "pos_offset (entry sample_format (sample_table 0x1FFFE0) 0) = 0x10000"
    "pos_size (entry sample_format (sample_table 0x1FFFE0) 0) = 0x100000"
    "\<not> is_spiffs (entry sample_format (sample_table 0x1FFFE0) 0)"
    using sample_entries(1) [of "0x1FFFE0"] by (simp_all add: sample_partition_def is_spiffs_def)
  have l: "unat (PARTITION_ADD sample_format) + 4096 \<le> length (sample_table 0x1FFFE0)" "length (sample_table 0x1FFFE0) < 2 ^ 32"
    "unat (0x200000 :: u32) = length (sample_table 0x1FFFE0)"
    using sample_store(1) by (simp_all add: sample_table_def sample_format_def)
  have lab: "length (label (to_platform sample_partition)) = 16" by (simp add: to_platform_def sample_partition_def)
  show ?thesis
    using spiffs_region [OF wrap_spi_laws sample_format_laws l(1,2) sample_has_entry _ sample_size_detected refl l(3) _ lab,
        of sample_config] e l(3) by auto
qed

end
