(* ===== verification/Tmr.thy ===== *)
theory Tmr
  imports Lua_Registry
begin

unbundle bit_operations_syntax

text \<open>
  modules/tmr.c: the timer module for Lua. The table of timers is a list of seven records and an
  index outside it is the value None; the Lua registry is the table of references of the theory
  Lua_Registry, with its list of free slots, which this module resets. A Lua integer is 32 bits wide, a call
  that raises a Lua error is a value, and what a function does outside the module (delays, a restart,
  setting up the hardware timer) is returned as a list.
\<close>

section \<open>The code\<close>

abbreviation (input) TIMER_MODE_OFF :: u8 where "TIMER_MODE_OFF \<equiv> 3"
abbreviation (input) TIMER_MODE_SINGLE :: u8 where "TIMER_MODE_SINGLE \<equiv> 0"
abbreviation (input) TIMER_MODE_SEMI :: u8 where "TIMER_MODE_SEMI \<equiv> 2"
abbreviation (input) TIMER_MODE_AUTO :: u8 where "TIMER_MODE_AUTO \<equiv> 1"
abbreviation (input) TIMER_IDLE_FLAG :: u8 where "TIMER_IDLE_FLAG \<equiv> 0x80"
abbreviation (input) NUM_TMR :: nat where "NUM_TMR \<equiv> 7"

text \<open>L is NULL or the Lua state, of which there is one.\<close>

record timer_struct =
  has_L :: bool
  lua_ref :: int
  interval :: u32
  tmode :: u8

datatype lua_value = Nil | Boolean bool | Integer int

datatype 'f outcome = Lua_error | Returns "lua_value list" | Called "'f option"

datatype effect = Timer_init u32 | Task_delay u32 | Delay_us u32 | Restart

record 'f tmr_state =
  alarm_timers :: "timer_struct list"
  registry :: "'f ref_table"

definition set_timer :: "nat \<Rightarrow> timer_struct \<Rightarrow> 'f tmr_state \<Rightarrow> 'f tmr_state" where
  "set_timer i t s = s \<lparr>alarm_timers := (alarm_timers s)[i := t]\<rparr>"

definition alarm_timer_common :: "u32 \<Rightarrow> 'f tmr_state \<Rightarrow> ('f outcome \<times> 'f tmr_state) option" where
  "alarm_timer_common arg s = do {
     t \<leftarrow> get_at (alarm_timers s) (unat arg);
     if lua_ref t = LUA_NOREF \<or> \<not> has_L t then Some (Returns [], s)
     else
       let f = live (registry s) (lua_ref t)
       in if tmode t = TIMER_MODE_SINGLE then do {
            reg \<leftarrow> table_unref (lua_ref t) (registry s);
            Some (Called f, (set_timer (unat arg) (t \<lparr>lua_ref := LUA_NOREF, tmode := TIMER_MODE_OFF\<rparr>) s) \<lparr>registry := reg\<rparr>)
          } else if tmode t = TIMER_MODE_SEMI then
            Some (Called f, set_timer (unat arg) (t \<lparr>tmode := tmode t OR TIMER_IDLE_FLAG\<rparr>) s)
          else Some (Called f, s)
   }"

text \<open>
  The fourth argument is a function or, None, something else. The last component is the interval
  the hardware timer is set up with.
\<close>

definition tmr_register ::
    "u32 \<Rightarrow> u32 \<Rightarrow> u32 \<Rightarrow> 'f option \<Rightarrow> 'f tmr_state \<Rightarrow> ('f outcome \<times> 'f tmr_state \<times> effect list) option" where
  "tmr_register tid iv m fn s =
     (let md = ucast m :: u8
      in case fn of
           None \<Rightarrow> Some (Lua_error, s, [])
         | Some f \<Rightarrow>
             if sint iv \<le> 0 \<or> (md \<noteq> TIMER_MODE_SINGLE \<and> md \<noteq> TIMER_MODE_SEMI \<and> md \<noteq> TIMER_MODE_AUTO)
             then Some (Lua_error, s, [])
             else do {
               (ref, reg) \<leftarrow> table_ref f (registry s);
               t \<leftarrow> get_at (alarm_timers s) (unat tid);
               reg \<leftarrow> (if lua_ref t \<noteq> LUA_NOREF \<and> lua_ref t \<noteq> ref then table_unref (lua_ref t) reg else Some reg);
               let t = t \<lparr>lua_ref := ref, tmode := md OR TIMER_IDLE_FLAG, interval := iv, has_L := True\<rparr>;
               Some (Returns [], (set_timer (unat tid) t s) \<lparr>registry := reg\<rparr>, [Timer_init iv])
             })"

definition tmr_start :: "u32 \<Rightarrow> 'f tmr_state \<Rightarrow> ('f outcome \<times> 'f tmr_state) option" where
  "tmr_start n s = do {
     let tid = (ucast n :: u8);
     t \<leftarrow> get_at (alarm_timers s) (unat tid);
     if tmode t AND TIMER_IDLE_FLAG = 0 then Some (Returns [Boolean False], s)
     else Some (Returns [Boolean True], set_timer (unat tid) (t \<lparr>tmode := tmode t AND NOT TIMER_IDLE_FLAG\<rparr>) s)
   }"

definition tmr_alarm ::
    "u32 \<Rightarrow> u32 \<Rightarrow> u32 \<Rightarrow> 'f option \<Rightarrow> 'f tmr_state \<Rightarrow> ('f outcome \<times> 'f tmr_state \<times> effect list) option" where
  "tmr_alarm tid iv m fn s = do {
     (r, s, e) \<leftarrow> tmr_register tid iv m fn s;
     if r = Lua_error then Some (r, s, e)
     else do {
       (r, s) \<leftarrow> tmr_start tid s;
       Some (r, s, e)
     }
   }"

definition tmr_stop :: "u32 \<Rightarrow> 'f tmr_state \<Rightarrow> ('f outcome \<times> 'f tmr_state) option" where
  "tmr_stop n s = do {
     let tid = (ucast n :: u8);
     t \<leftarrow> get_at (alarm_timers s) (unat tid);
     if tmode t AND TIMER_IDLE_FLAG = 0 \<and> tmode t \<noteq> TIMER_MODE_OFF
     then Some (Returns [Boolean True], set_timer (unat tid) (t \<lparr>tmode := tmode t OR TIMER_IDLE_FLAG\<rparr>) s)
     else Some (Returns [Boolean False], s)
   }"

definition tmr_unregister :: "u32 \<Rightarrow> 'f tmr_state \<Rightarrow> ('f outcome \<times> 'f tmr_state) option" where
  "tmr_unregister n s = do {
     let tid = (ucast n :: u8);
     t \<leftarrow> get_at (alarm_timers s) (unat tid);
     reg \<leftarrow> (if lua_ref t \<noteq> LUA_NOREF then table_unref (lua_ref t) (registry s) else Some (registry s));
     Some (Returns [], (set_timer (unat tid) (t \<lparr>lua_ref := LUA_NOREF, tmode := TIMER_MODE_OFF\<rparr>) s) \<lparr>registry := reg\<rparr>)
   }"

definition tmr_interval :: "u32 \<Rightarrow> u32 \<Rightarrow> 'f tmr_state \<Rightarrow> ('f outcome \<times> 'f tmr_state) option" where
  "tmr_interval n iv s = do {
     let tid = (ucast n :: u8);
     if sint iv \<le> 0 then Some (Lua_error, s)
     else do {
       t \<leftarrow> get_at (alarm_timers s) (unat tid);
       if tmode t \<noteq> TIMER_MODE_OFF then Some (Returns [], set_timer (unat tid) (t \<lparr>interval := iv\<rparr>) s)
       else Some (Returns [], s)
     }
   }"

definition tmr_status :: "u32 \<Rightarrow> 'f tmr_state \<Rightarrow> ('f outcome \<times> 'f tmr_state) option" where
  "tmr_status n s = do {
     let tid = (ucast n :: u8);
     t \<leftarrow> get_at (alarm_timers s) (unat tid);
     if tmode t = TIMER_MODE_OFF then Some (Returns [Nil], s)
     else Some (Returns [Boolean (tmode t AND TIMER_IDLE_FLAG = 0), Integer (uint (tmode t AND NOT TIMER_IDLE_FLAG))], s)
   }"

text \<open>The table as the C runtime leaves it: zeros.\<close>

definition alarm_timers_0 :: "timer_struct list" where
  "alarm_timers_0 = replicate NUM_TMR \<lparr>has_L = False, lua_ref = 0, interval = 0, tmode = 0\<rparr>"

text \<open>The delays; tick is portTICK_RATE_MS, an unsigned number of milliseconds.\<close>

definition tmr_delay_msec :: "u32 \<Rightarrow> u32 \<Rightarrow> effect list" where
  "tmr_delay_msec tick ms = [Task_delay (ms div tick)]"

definition tmr_delay_s :: "u32 \<Rightarrow> u32 \<Rightarrow> 'f outcome \<times> effect list" where
  "tmr_delay_s tick period = (Returns [], [Task_delay (period * (1000 div tick))])"

definition tmr_delay_ms :: "u32 \<Rightarrow> u32 \<Rightarrow> 'f outcome \<times> effect list" where
  "tmr_delay_ms tick period = (Returns [], tmr_delay_msec tick period)"

function seconds_loop :: "u32 \<Rightarrow> int \<Rightarrow> effect list \<times> int" where
  "seconds_loop tick us =
     (if us \<ge> 1000000 then
        (case seconds_loop tick (us - 1000000) of (e, us) \<Rightarrow> (Task_delay (1000 div tick) # e, us))
      else ([], us))"
  by auto
termination by (relation "measure (\<lambda>(_, us). nat us)") auto

declare seconds_loop.simps [simp del]

definition tmr_delay :: "u32 \<Rightarrow> u32 \<Rightarrow> 'f outcome \<times> effect list" where
  "tmr_delay tick arg =
     (let us = sint arg
      in if us \<le> 0 then (Lua_error, [])
         else case seconds_loop tick us of (e, us) \<Rightarrow>
           let remain = us div 1000;
               us = (if remain > 0 then us mod 1000 else us)
           in (Returns [], e @ (if remain > 0 then [Task_delay (of_int remain div tick)] else []) @
                 (if us > 0 then [Delay_us (of_int us)] else [])))"

definition tmr_now :: "u32 \<Rightarrow> 'f outcome" where
  "tmr_now system_time = Returns [Integer (uint (0x7FFFFFFF AND system_time))]"

text \<open>The clock: rtc_time, whose two 32-bit parts are a 64-bit number, and the watchdog.\<close>

record rtc_state =
  rtc_low :: u32
  rtc_high :: u32
  soft_watchdog :: int

definition rtc_block :: "rtc_state \<Rightarrow> u64" where
  "rtc_block r = push_bit 32 (ucast (rtc_high r)) OR ucast (rtc_low r)"

definition rtc2sec :: "u32 \<Rightarrow> u64 \<Rightarrow> u32" where
  "rtc2sec system_rtc_time rtc = ucast (drop_bit 12 (ucast system_rtc_time * rtc) div 1000000)"

definition rtc_timer_update :: "u32 \<Rightarrow> rtc_state \<Rightarrow> rtc_state" where
  "rtc_timer_update current r =
     (if rtc_low r > current then r \<lparr>rtc_high := rtc_high r + 1, rtc_low := current\<rparr>
      else r \<lparr>rtc_low := current\<rparr>)"

definition rtc_callback :: "u32 \<Rightarrow> rtc_state \<Rightarrow> rtc_state \<times> effect list" where
  "rtc_callback current r =
     (let r = rtc_timer_update current r
      in if soft_watchdog r > 0 then
           (let r = r \<lparr>soft_watchdog := soft_watchdog r - 1\<rparr>
            in (r, if soft_watchdog r = 0 then [Restart] else []))
         else (r, []))"

definition tmr_time :: "u32 \<Rightarrow> u32 \<Rightarrow> rtc_state \<Rightarrow> 'f outcome \<times> rtc_state" where
  "tmr_time current later r =
     (let r = rtc_timer_update current r in (Returns [Integer (uint (rtc2sec later (rtc_block r)))], r))"

definition tmr_softwd :: "u32 \<Rightarrow> rtc_state \<Rightarrow> 'f outcome \<times> rtc_state" where
  "tmr_softwd arg r = (Returns [], r \<lparr>soft_watchdog := sint arg\<rparr>)"

text \<open>
  The hardware timer. A register is a field of the record; the counter is what it shows after it was
  latched by the write to update. The number of ticks of a time in seconds is a product of doubles
  in C and here a parameter, and so is the FreeRTOS queue of events.
\<close>

record timer_event =
  ev_type :: int
  ev_group :: int
  ev_idx :: int
  ev_counter :: u64

record hw_timer =
  cnt_high :: u32
  cnt_low :: u32
  alarm_high :: u32
  alarm_low :: u32
  alarm_en :: bool

record timer_group =
  int_st :: u32
  int_clr :: u32
  hw_timers :: "hw_timer list"

definition counter_value :: "hw_timer \<Rightarrow> u64" where
  "counter_value t = push_bit 32 (ucast (cnt_high t)) OR ucast (cnt_low t)"

definition timer_group0_isr ::
    "u64 \<Rightarrow> ('q \<Rightarrow> timer_event \<Rightarrow> 'q) \<Rightarrow> nat \<Rightarrow> timer_group \<Rightarrow> 'q \<Rightarrow> (timer_group \<times> 'q) option" where
  "timer_group0_isr interval0 qsend timer_idx g q = do {
     t \<leftarrow> get_at (hw_timers g) timer_idx;
     let intr_status = int_st g;
     let value = counter_value t;
     let (ty, t, clr) =
       (if bit intr_status timer_idx \<and> timer_idx = 0 then
          (let v = value + interval0
           in (0, t \<lparr>alarm_high := ucast (drop_bit 32 v), alarm_low := ucast v\<rparr>, int_clr g OR 1))
        else if bit intr_status timer_idx \<and> timer_idx = 1 then (1, t, int_clr g OR 2)
        else (- 1, t, int_clr g));
     let t = t \<lparr>alarm_en := True\<rparr>;
     Some (g \<lparr>int_clr := clr, hw_timers := (hw_timers g)[timer_idx := t]\<rparr>,
           qsend q \<lparr>ev_type = ty, ev_group = 0, ev_idx = int timer_idx, ev_counter = value\<rparr>)
   }"

datatype timer_call =
  Timer_setup nat bool | Set_counter nat u64 | Set_alarm nat u64 | Enable_intr nat | Isr_register nat | Timer_start nat

definition example_tg0_timer_init :: "(u32 \<Rightarrow> u64) \<Rightarrow> nat \<Rightarrow> bool \<Rightarrow> u32 \<Rightarrow> timer_call list" where
  "example_tg0_timer_init ticks timer_idx auto_reload timer_interval_sec =
     [Timer_setup timer_idx auto_reload, Set_counter timer_idx 0, Set_alarm timer_idx (ticks timer_interval_sec),
      Enable_intr timer_idx, Isr_register timer_idx, Timer_start timer_idx]"

lemma word64_parts:
  fixes v :: u64
  shows "push_bit 32 (ucast (ucast (drop_bit 32 v) :: u32)) OR ucast (ucast v :: u32) = v"
proof (rule bit_word_eqI)
  fix n assume "n < LENGTH(64)"
  then show "bit (push_bit 32 (ucast (ucast (drop_bit 32 v) :: u32)) OR ucast (ucast v :: u32) :: u64) n = bit v n"
    by (cases "n < 32") (auto simp: bit_or_iff bit_push_bit_iff bit_ucast_iff bit_drop_bit_eq)
qed

text \<open>
  An alarm of timer 0 sets the next one exactly one interval after the counter, clears its own
  interrupt, lets the timer raise the next and reports the counter; the other timer keeps its registers.
\<close>

lemma isr_rearms:
  assumes "timer_group0_isr interval0 qsend 0 g q = Some (g', q')" "bit (int_st g) 0"
  shows "\<exists>t t'. get_at (hw_timers g) 0 = Some t \<and> get_at (hw_timers g') 0 = Some t' \<and> alarm_en t' \<and>
    push_bit 32 (ucast (alarm_high t')) OR ucast (alarm_low t') = counter_value t + interval0 \<and>
    bit (int_clr g') 0 \<and> (\<forall>i > 0. get_at (hw_timers g') i = get_at (hw_timers g) i) \<and>
    q' = qsend q \<lparr>ev_type = 0, ev_group = 0, ev_idx = 0, ev_counter = counter_value t\<rparr>"
proof (cases "hw_timers g")
  case Nil
  then show ?thesis using assms(1) by (simp add: timer_group0_isr_def get_at_def)
next
  case (Cons t ts)
  have "g' = g \<lparr>int_clr := int_clr g OR 1, hw_timers := t \<lparr>alarm_high := ucast (drop_bit 32 (counter_value t + interval0)),
      alarm_low := ucast (counter_value t + interval0), alarm_en := True\<rparr> # ts\<rparr> \<and>
    q' = qsend q \<lparr>ev_type = 0, ev_group = 0, ev_idx = 0, ev_counter = counter_value t\<rparr>"
    using assms Cons by (simp add: timer_group0_isr_def get_at_def Let_def)
  then show ?thesis using Cons word64_parts by (auto simp: get_at_def bit_or_iff)
qed

section \<open>The documented timers\<close>

text \<open>
  The comment at the head of tmr.c: a timer is unregistered, as all are at first, or it has a mode, an
  interval and a function and runs or is stopped. The function doc_step is what the comment says of
  each call; a start or stop of an unregistered timer has no success to return.
\<close>

datatype kind = Single | Semi | Auto

datatype 'f alarm = Unregistered | Alarm kind u32 bool 'f

definition kind_of :: "u8 \<Rightarrow> kind" where
  "kind_of m = (if m AND NOT TIMER_IDLE_FLAG = TIMER_MODE_SINGLE then Single
     else if m AND NOT TIMER_IDLE_FLAG = TIMER_MODE_SEMI then Semi else Auto)"

definition mode_number :: "kind \<Rightarrow> int" where
  "mode_number k = (case k of Single \<Rightarrow> 0 | Auto \<Rightarrow> 1 | Semi \<Rightarrow> 2)"

datatype 'f tmr_op =
    Register u32 u32 u32 "'f option"
  | Start u32
  | Stop u32
  | Unregister u32
  | Set_interval u32 u32
  | Status u32

fun op_timer :: "'f tmr_op \<Rightarrow> u32" where
  "op_timer (Register i _ _ _) = i"
| "op_timer (Start i) = i"
| "op_timer (Stop i) = i"
| "op_timer (Unregister i) = i"
| "op_timer (Set_interval i _) = i"
| "op_timer (Status i) = i"

fun tmr_step :: "'f tmr_op \<Rightarrow> 'f tmr_state \<Rightarrow> ('f outcome \<times> 'f tmr_state) option" where
  "tmr_step (Register i iv m f) s = map_option (\<lambda>(r, s, e). (r, s)) (tmr_register i iv m f s)"
| "tmr_step (Start i) s = tmr_start i s"
| "tmr_step (Stop i) s = tmr_stop i s"
| "tmr_step (Unregister i) s = tmr_unregister i s"
| "tmr_step (Set_interval i iv) s = tmr_interval i iv s"
| "tmr_step (Status i) s = tmr_status i s"

text \<open>A registration with arguments in range, and the operations that bring a timer to a documented state.\<close>

definition valid_reg :: "u32 \<Rightarrow> u32 \<Rightarrow> 'f option \<Rightarrow> bool" where
  "valid_reg iv m f \<longleftrightarrow> f \<noteq> None \<and> 0 < sint iv \<and> (ucast m :: u8) \<in> {0, 1, 2}"

fun sets_up :: "'f tmr_op \<Rightarrow> bool" where
  "sets_up (Register i iv m f) = valid_reg iv m f"
| "sets_up (Unregister i) = True"
| "sets_up _ = False"

fun doc_step :: "'f tmr_op \<Rightarrow> 'f alarm \<Rightarrow> 'f outcome \<times> 'f alarm" where
  "doc_step (Register i iv m f) a =
     (if valid_reg iv m f then (Returns [], Alarm (kind_of (ucast m)) iv False (the f)) else (Lua_error, a))"
| "doc_step (Start i) a =
     (case a of Alarm k iv False f \<Rightarrow> (Returns [Boolean True], Alarm k iv True f) | _ \<Rightarrow> (Returns [Boolean False], a))"
| "doc_step (Stop i) a =
     (case a of Alarm k iv True f \<Rightarrow> (Returns [Boolean True], Alarm k iv False f) | _ \<Rightarrow> (Returns [Boolean False], a))"
| "doc_step (Unregister i) a = (Returns [], Unregistered)"
| "doc_step (Set_interval i iv) a =
     (if sint iv \<le> 0 then (Lua_error, a)
      else case a of Alarm k _ r f \<Rightarrow> (Returns [], Alarm k iv r f) | Unregistered \<Rightarrow> (Returns [], a))"
| "doc_step (Status i) a =
     (case a of Unregistered \<Rightarrow> (Returns [Nil], a)
      | Alarm k _ r _ \<Rightarrow> (Returns [Boolean r, Integer (mode_number k)], a))"

text \<open>
  A record of the table stands for such a timer, except one of the zeroed table that has not been
  registered or unregistered yet: it acts as a timer of mode single that runs until it is stopped.
\<close>

datatype 'f view = Documented "'f alarm" | Zeroed bool

fun doc_of :: "'f view \<Rightarrow> 'f alarm" where
  "doc_of (Documented a) = a"
| "doc_of (Zeroed r) = Unregistered"

fun view_step :: "'f tmr_op \<Rightarrow> 'f view \<Rightarrow> 'f outcome \<times> 'f view" where
  "view_step op (Documented a) = (case doc_step op a of (r, a) \<Rightarrow> (r, Documented a))"
| "view_step op (Zeroed run) =
     (case op of
        Start i \<Rightarrow> (Returns [Boolean (\<not> run)], Zeroed True)
      | Stop i \<Rightarrow> (Returns [Boolean run], Zeroed False)
      | Status i \<Rightarrow> (Returns [Boolean run, Integer 0], Zeroed run)
      | _ \<Rightarrow> (case doc_step op Unregistered of (r, a) \<Rightarrow> (r, if sets_up op then Documented a else Zeroed run)))"

section \<open>The module implements them\<close>

text \<open>What a record stands for, with the live references, and which records of the table mean something.\<close>

definition view_of :: "(int \<rightharpoonup> 'f) \<Rightarrow> timer_struct \<Rightarrow> 'f view" where
  "view_of reg t =
     (if tmode t = TIMER_MODE_OFF then Documented Unregistered
      else if \<not> has_L t then Zeroed (tmode t AND TIMER_IDLE_FLAG = 0)
      else Documented (Alarm (kind_of (tmode t)) (interval t) (tmode t AND TIMER_IDLE_FLAG = 0) (the (reg (lua_ref t)))))"

definition timer_ok :: "(int \<rightharpoonup> 'f) \<Rightarrow> timer_struct \<Rightarrow> bool" where
  "timer_ok reg t \<longleftrightarrow>
     (tmode t = TIMER_MODE_OFF \<and> lua_ref t = LUA_NOREF) \<or>
     (\<not> has_L t \<and> lua_ref t = 0 \<and> tmode t \<in> {0, 0x80}) \<or>
     (has_L t \<and> 0 < lua_ref t \<and> lua_ref t \<in> dom reg \<and> tmode t \<in> {0, 1, 2, 0x80, 0x81, 0x82})"

text \<open>
  The live references are those of the rest of the program, reg0, and one for each registered timer;
  the list of free slots is well formed.
\<close>

definition owned :: "'f tmr_state \<Rightarrow> int set" where
  "owned s = {lua_ref t | t. t \<in> set (alarm_timers s) \<and> 0 < lua_ref t}"

definition tmr_inv :: "(int \<rightharpoonup> 'f) \<Rightarrow> 'f tmr_state \<Rightarrow> bool" where
  "tmr_inv reg0 s \<longleftrightarrow> length (alarm_timers s) = NUM_TMR \<and> table_ok (registry s) \<and>
     (\<forall>t \<in> set (alarm_timers s). timer_ok (live (registry s)) t) \<and>
     (\<forall>i j. i < NUM_TMR \<longrightarrow> j < NUM_TMR \<longrightarrow> i \<noteq> j \<longrightarrow> 0 < lua_ref (alarm_timers s ! i) \<longrightarrow>
        lua_ref (alarm_timers s ! i) \<noteq> lua_ref (alarm_timers s ! j)) \<and>
     (\<forall>r. r \<notin> owned s \<longrightarrow> live (registry s) r = reg0 r) \<and> (\<forall>r \<in> owned s. reg0 r = None)"

lemma owned_iff: "length (alarm_timers s) = NUM_TMR \<Longrightarrow> r \<in> owned s \<longleftrightarrow> (\<exists>i < NUM_TMR. lua_ref (alarm_timers s ! i) = r \<and> 0 < r)"
  by (auto simp: owned_def in_set_conv_nth)

lemma ok_ref: "timer_ok reg t \<Longrightarrow> 0 < lua_ref t \<Longrightarrow> lua_ref t \<in> dom reg"
  by (auto simp: timer_ok_def)

text \<open>How the operations change one timer and the registry.\<close>

definition only_ref :: "(int \<rightharpoonup> 'f) \<Rightarrow> (int \<rightharpoonup> 'f) \<Rightarrow> timer_struct \<Rightarrow> timer_struct \<Rightarrow> bool" where
  "only_ref reg reg' t t' \<longleftrightarrow>
     (\<forall>r. r \<noteq> lua_ref t \<longrightarrow> r \<noteq> lua_ref t' \<longrightarrow> reg' r = reg r) \<and>
     (lua_ref t \<noteq> lua_ref t' \<longrightarrow> reg' (lua_ref t) = (if 0 < lua_ref t then None else reg (lua_ref t))) \<and>
     (lua_ref t' \<le> 0 \<longrightarrow> reg' (lua_ref t') = reg (lua_ref t')) \<and>
     (0 < lua_ref t' \<longrightarrow> lua_ref t' = lua_ref t \<or> reg (lua_ref t') = None)"

lemma other_alarm:
  assumes inv: "tmr_inv reg0 s" and i: "i < NUM_TMR" "j < NUM_TMR" "j \<noteq> i"
    and ch: "only_ref (live (registry s)) reg' (alarm_timers s ! i) t'"
  shows "lua_ref (alarm_timers s ! j) \<noteq> lua_ref t' \<or> lua_ref (alarm_timers s ! j) \<le> 0"
    "0 < lua_ref (alarm_timers s ! j) \<Longrightarrow> reg' (lua_ref (alarm_timers s ! j)) = live (registry s) (lua_ref (alarm_timers s ! j))"
    "view_of reg' (alarm_timers s ! j) = view_of (live (registry s)) (alarm_timers s ! j)"
    "timer_ok reg' (alarm_timers s ! j)"
proof -
  let ?t = "alarm_timers s ! i" and ?u = "alarm_timers s ! j" and ?reg = "live (registry s)"
  have ok: "timer_ok ?reg ?u" using inv i by (auto simp: tmr_inv_def)
  have d: "lua_ref ?u \<noteq> lua_ref ?t" if "0 < lua_ref ?u" using inv i that by (auto simp: tmr_inv_def)
  show n: "lua_ref ?u \<noteq> lua_ref t' \<or> lua_ref ?u \<le> 0"
  proof (rule ccontr)
    assume "\<not> ?thesis"
    then have u: "lua_ref ?u = lua_ref t'" "0 < lua_ref ?u" by auto
    then have "?reg (lua_ref ?u) = None" using ch d unfolding only_ref_def by auto
    then show False using ok_ref [OF ok u(2)] by auto
  qed
  show r: "reg' (lua_ref ?u) = ?reg (lua_ref ?u)" if "0 < lua_ref ?u"
    using ch d [OF that] n that unfolding only_ref_def by auto
  show "view_of reg' ?u = view_of ?reg ?u"
    using ok r by (auto simp: view_of_def timer_ok_def)
  show "timer_ok reg' ?u" using ok r by (auto simp: timer_ok_def dom_def)
qed

lemma inv_update:
  assumes inv: "tmr_inv reg0 s" and i: "i < NUM_TMR"
    and R: "table_ok R" and ch: "only_ref (live (registry s)) (live R) (alarm_timers s ! i) t'" and ok: "timer_ok (live R) t'"
    and s': "s' = s \<lparr>alarm_timers := (alarm_timers s)[i := t'], registry := R\<rparr>"
  shows "tmr_inv reg0 s'"
proof -
  let ?ts = "alarm_timers s" and ?t = "alarm_timers s ! i" and ?reg = "live (registry s)" and ?reg' = "live R"
  have l: "length ?ts = NUM_TMR" "length (alarm_timers s') = NUM_TMR" using inv by (simp_all add: tmr_inv_def s')
  have nth: "alarm_timers s' ! j = (if j = i then t' else ?ts ! j)" if "j < NUM_TMR" for j
    using that l i by (simp add: s' nth_list_update)
  note other = other_alarm [OF inv i _ _ ch]
  have 1: "\<forall>u \<in> set (alarm_timers s'). timer_ok (live (registry s')) u"
    using other(4) ok l i by (auto simp: in_set_conv_nth s' nth_list_update)
  have 2: "lua_ref (alarm_timers s' ! j) \<noteq> lua_ref (alarm_timers s' ! k)"
    if "j < NUM_TMR" "k < NUM_TMR" "j \<noteq> k" "0 < lua_ref (alarm_timers s' ! j)" for j k
    using that nth other(1) [of j] other(1) [of k] inv by (auto simp: tmr_inv_def split: if_splits)
  have oldown: "r \<in> owned s \<longleftrightarrow> (\<exists>j < NUM_TMR. lua_ref (?ts ! j) = r \<and> 0 < r)" for r using owned_iff [OF l(1)] .
  have newown: "r \<in> owned s' \<longleftrightarrow> (\<exists>j < NUM_TMR. lua_ref (alarm_timers s' ! j) = r \<and> 0 < r)" for r using owned_iff [OF l(2)] .
  have base: "live (registry s) r = reg0 r" if "r \<notin> owned s" for r using inv that by (simp add: tmr_inv_def)
  have base_own: "reg0 r = None" if "r \<in> owned s" for r using inv that by (simp add: tmr_inv_def)
  have 3: "?reg' r = reg0 r" if r: "r \<notin> owned s'" for r
  proof (cases "r = lua_ref ?t \<and> r \<noteq> lua_ref t'")
    case True
    then have e: "?reg' r = (if 0 < r then None else ?reg r)" using ch by (simp add: only_ref_def)
    show ?thesis
    proof (cases "0 < r")
      case True
      then have "r \<in> owned s" using oldown i \<open>r = lua_ref ?t \<and> r \<noteq> lua_ref t'\<close> by blast
      then show ?thesis using e True base_own by simp
    next
      case False
      then have "r \<notin> owned s" using oldown by auto
      then show ?thesis using e False base by simp
    qed
  next
    case other_ref: False
    show ?thesis
    proof (cases "r = lua_ref t'")
      case True
      have "alarm_timers s' ! i = t'" using nth [OF i] by simp
      then have "\<not> 0 < r" using r newown i True by blast
      then have "?reg' r = ?reg r" "r \<notin> owned s" using ch True oldown by (auto simp: only_ref_def)
      then show ?thesis using base by simp
    next
      case False
      then have "?reg' r = ?reg r" using ch other_ref by (simp add: only_ref_def)
      moreover have "r \<notin> owned s" using r False other_ref nth unfolding oldown newown by metis
      ultimately show ?thesis using base by simp
    qed
  qed
  have 4: "reg0 r = None" if r: "r \<in> owned s'" for r
  proof -
    obtain j where j: "j < NUM_TMR" "lua_ref (alarm_timers s' ! j) = r" "0 < r" using r newown by blast
    show ?thesis
    proof (cases "j = i")
      case True
      then have rt: "r = lua_ref t'" using j nth by simp
      then have "r = lua_ref ?t \<or> ?reg r = None" using ch j(3) by (simp add: only_ref_def)
      then show ?thesis using i j(3) oldown base base_own by metis
    next
      case False
      then have "r \<in> owned s" using j nth oldown by auto
      then show ?thesis by (rule base_own)
    qed
  qed
  show ?thesis unfolding tmr_inv_def using l(2) 1 2 3 4 R inv by (auto simp: s' tmr_inv_def)
qed

lemma byte_index: "unat (n :: u32) < 7 \<Longrightarrow> unat (ucast n :: u8) = unat n"
  by (simp add: unsigned_ucast_eq take_bit_eq_mod)

lemma same_only: "lua_ref t' = lua_ref t \<Longrightarrow> only_ref reg reg t t'"
  by (simp add: only_ref_def)

text \<open>Every mode with its flag.\<close>

lemma mode_bits:
  "(0x80 :: u8) AND 0x80 = 0x80" "(0x81 :: u8) AND 0x80 = 0x80" "(0x82 :: u8) AND 0x80 = 0x80" "(0 :: u8) AND 0x80 = 0"
  "(1 :: u8) AND 0x80 = 0" "(2 :: u8) AND 0x80 = 0" "(3 :: u8) AND 0x80 = 0"
  by simp_all

text \<open>What has to be shown of an operation on the timer t: a record and a table that fit its result.\<close>

definition effect_ok ::
    "('f outcome \<times> 'f tmr_state) option \<Rightarrow> 'f outcome \<times> 'f view \<Rightarrow> 'f tmr_state \<Rightarrow> u32 \<Rightarrow> timer_struct \<Rightarrow> timer_struct \<Rightarrow>
       'f ref_table \<Rightarrow> bool" where
  "effect_ok res rv s n t t' R \<longleftrightarrow>
     res = Some (fst rv, s \<lparr>alarm_timers := (alarm_timers s)[unat n := t'], registry := R\<rparr>) \<and>
     view_of (live R) t' = snd rv \<and> only_ref (live (registry s)) (live R) t t' \<and> timer_ok (live R) t' \<and> table_ok R"

definition timer_at :: "'f tmr_state \<Rightarrow> u32 \<Rightarrow> timer_struct \<Rightarrow> bool" where
  "timer_at s n t \<longleftrightarrow> get_at (alarm_timers s) (unat n) = Some t \<and> get_at (alarm_timers s) (unat (ucast n :: u8)) = Some t \<and>
     unat (ucast n :: u8) = unat n \<and> (alarm_timers s)[unat n := t] = alarm_timers s \<and> timer_ok (live (registry s)) t \<and>
     table_ok (registry s)"

lemma timer_at: "length (alarm_timers s) = NUM_TMR \<Longrightarrow> unat n < NUM_TMR \<Longrightarrow>
    timer_ok (live (registry s)) (alarm_timers s ! unat n) \<Longrightarrow> table_ok (registry s) \<Longrightarrow> timer_at s n (alarm_timers s ! unat n)"
  using byte_index [of n] list_update_id [of "alarm_timers s" "unat n"] by (simp add: timer_at_def mem_simps)

lemmas effect_defs = timer_at_def timer_ok_def effect_ok_def Let_def set_timer_def view_of_def kind_of_def mode_number_def same_only

lemma start_effect: "timer_at s n t \<Longrightarrow>
    effect_ok (tmr_start n s) (view_step (Start n) (view_of (live (registry s)) t)) s n t
      (t \<lparr>tmode := tmode t AND NOT TIMER_IDLE_FLAG\<rparr>) (registry s)"
  by (cases t) (auto simp: tmr_start_def effect_defs)

lemma stop_effect: "timer_at s n t \<Longrightarrow>
    effect_ok (tmr_stop n s) (view_step (Stop n) (view_of (live (registry s)) t)) s n t
      (if tmode t = TIMER_MODE_OFF then t else t \<lparr>tmode := tmode t OR TIMER_IDLE_FLAG\<rparr>) (registry s)"
proof (cases "tmode t = TIMER_MODE_OFF")
  case True
  then show "timer_at s n t \<Longrightarrow> ?thesis" by (cases t) (simp add: tmr_stop_def effect_defs)
next
  case False
  then show "timer_at s n t \<Longrightarrow> ?thesis" by (cases t) (auto simp: tmr_stop_def effect_defs)
qed

lemma interval_effect: "timer_at s n t \<Longrightarrow>
    effect_ok (tmr_interval n iv s) (view_step (Set_interval n iv) (view_of (live (registry s)) t)) s n t
      (if sint iv \<le> 0 \<or> tmode t = TIMER_MODE_OFF then t else t \<lparr>interval := iv\<rparr>) (registry s)"
  by (cases t) (auto simp: tmr_interval_def effect_defs)

lemma status_effect: "timer_at s n t \<Longrightarrow>
    effect_ok (tmr_status n s) (view_step (Status n) (view_of (live (registry s)) t)) s n t t (registry s)"
  by (cases t) (auto simp: tmr_status_def effect_defs)

text \<open>Releasing the reference of a timer: a live one, none, or the 0 of the zeroed table.\<close>

lemma release:
  assumes "table_ok R" "r \<le> 0 \<or> live R r \<noteq> None"
  obtains R' where "(if r \<noteq> LUA_NOREF then table_unref r R else Some R) = Some R'" "table_ok R'"
    "live R' = (if 0 < r then (live R)(r := None) else live R)"
proof (cases "0 < r")
  case True
  with assms(2) have "live R r \<noteq> None" by auto
  from table_unref_ok [OF assms(1) this] True that show thesis by auto
next
  case False
  then consider "r = 0" | "r < 0" by linarith
  then show thesis
  proof cases
    case 1
    then show thesis using that table_unref_zero [of R] by simp
  next
    case 2
    then show thesis using that [of R] assms(1) by (simp add: table_unref_def)
  qed
qed

lemma live_zero: "r \<le> 0 \<Longrightarrow> live R r = None"
  using live_positive [of R r] by (cases "live R r") auto

lemma unregister_effect:
  assumes "timer_at s n t"
  shows "\<exists>R. effect_ok (tmr_unregister n s) (view_step (Unregister n) (view_of (live (registry s)) t)) s n t
      (t \<lparr>lua_ref := LUA_NOREF, tmode := TIMER_MODE_OFF\<rparr>) R"
proof -
  have "table_ok (registry s)" "lua_ref t \<le> 0 \<or> live (registry s) (lua_ref t) \<noteq> None"
    using assms by (auto simp: timer_at_def timer_ok_def)
  then obtain R where R: "(if lua_ref t \<noteq> LUA_NOREF then table_unref (lua_ref t) (registry s) else Some (registry s)) = Some R"
      "table_ok R" "live R = (if 0 < lua_ref t then (live (registry s))(lua_ref t := None) else live (registry s))"
    by (rule release)
  have "tmr_unregister n s =
      Some (Returns [], s \<lparr>alarm_timers := (alarm_timers s)[unat n := t \<lparr>lua_ref := LUA_NOREF, tmode := TIMER_MODE_OFF\<rparr>], registry := R\<rparr>)"
    using assms R(1) by (simp add: tmr_unregister_def timer_at_def set_timer_def Let_def)
  moreover have "only_ref (live (registry s)) (live R) t (t \<lparr>lua_ref := LUA_NOREF, tmode := TIMER_MODE_OFF\<rparr>)"
    by (auto simp: only_ref_def R(3))
  moreover have "view_step (Unregister n) v = (Returns [], Documented Unregistered)" for v :: "'a view" by (cases v) simp_all
  ultimately show ?thesis using R(2) by (auto simp: effect_ok_def timer_ok_def view_of_def)
qed

lemma register_effect:
  assumes "timer_at s n t"
  shows "\<exists>t' R. effect_ok (tmr_step (Register n iv m f) s) (view_step (Register n iv m f) (view_of (live (registry s)) t)) s n t t' R"
proof (cases "valid_reg iv m f")
  case True
  then obtain g where g: "f = Some g" "0 < sint iv" "(ucast m :: u8) \<in> {0, 1, 2}" by (auto simp: valid_reg_def)
  have ok: "table_ok (registry s)" and t: "timer_ok (live (registry s)) t" using assms by (simp_all add: timer_at_def)
  obtain r R where r: "table_ref g (registry s) = Some (r, R)" "0 < r" "live (registry s) r = None"
      "live R = (live (registry s))(r \<mapsto> g)" "table_ok R"
    using table_ref_ok [OF ok, of g] by blast
  have tr: "lua_ref t \<noteq> r" using t r(2,3) by (auto simp: timer_ok_def)
  have "lua_ref t \<le> 0 \<or> live R (lua_ref t) \<noteq> None" using t r(4) by (auto simp: timer_ok_def)
  with r(5) obtain R' where R': "(if lua_ref t \<noteq> LUA_NOREF then table_unref (lua_ref t) R else Some R) = Some R'"
      "table_ok R'" "live R' = (if 0 < lua_ref t then (live R)(lua_ref t := None) else live R)"
    by (rule release)
  define t' where "t' = t \<lparr>lua_ref := r, tmode := ucast m OR TIMER_IDLE_FLAG, interval := iv, has_L := True\<rparr>"
  have step: "tmr_register n iv m f s =
      Some (Returns [], s \<lparr>alarm_timers := (alarm_timers s)[unat n := t'], registry := R'\<rparr>, [Timer_init iv])"
    using assms g tr r(1) R'(1) by (auto simp: tmr_register_def Let_def timer_at_def set_timer_def t'_def)
  have r': "live R' r = Some g" using r(4) tr by (simp add: R'(3))
  have o: "only_ref (live (registry s)) (live R') t t'"
    using r(2-4) tr by (auto simp: only_ref_def t'_def R'(3) live_zero)
  have "ucast m = (0 :: u8) \<or> ucast m = (1 :: u8) \<or> ucast m = (2 :: u8)" using g(3) by auto
  then have "timer_ok (live R') t'" "view_of (live R') t' = Documented (Alarm (kind_of (ucast m)) iv False g)"
    using r(2) r' by (auto simp: timer_ok_def view_of_def kind_of_def t'_def)
  moreover have "view_step (Register n iv m f) v = (Returns [], Documented (Alarm (kind_of (ucast m)) iv False g))" for v :: "'a view"
    using True g(1) by (cases v) simp_all
  ultimately have "effect_ok (tmr_step (Register n iv m f) s) (view_step (Register n iv m f) (view_of (live (registry s)) t)) s n t t' R'"
    using step o R'(2) by (simp add: effect_ok_def)
  then show ?thesis by blast
next
  case False
  then have "tmr_register n iv m f s = Some (Lua_error, s, [])"
    by (cases f) (auto simp: tmr_register_def valid_reg_def Let_def)
  moreover have "view_step (Register n iv m f) v = (Lua_error, v)" for v :: "'a view"
    using False by (cases v) simp_all
  ultimately have "effect_ok (tmr_step (Register n iv m f) s) (view_step (Register n iv m f) (view_of (live (registry s)) t)) s n t t (registry s)"
    using assms by (simp add: effect_ok_def timer_at_def same_only)
  then show ?thesis by blast
qed

lemma step_effect:
  assumes inv: "tmr_inv reg0 s" and n: "unat (op_timer op) < NUM_TMR"
  shows "\<exists>t' R. effect_ok (tmr_step op s) (view_step op (view_of (live (registry s)) (alarm_timers s ! unat (op_timer op)))) s
    (op_timer op) (alarm_timers s ! unat (op_timer op)) t' R"
proof -
  have "timer_at s (op_timer op) (alarm_timers s ! unat (op_timer op))"
    using inv n by (intro timer_at) (auto simp: tmr_inv_def)
  then show ?thesis
    by (cases op)
      (auto simp del: view_step.simps tmr_step.simps(1)
        intro: register_effect exI unregister_effect start_effect stop_effect interval_effect status_effect)
qed

text \<open>The timers, by their number, and one operation on them.\<close>

definition timers :: "'f tmr_state \<Rightarrow> nat \<Rightarrow> 'f view" where
  "timers s i = view_of (live (registry s)) (alarm_timers s ! i)"

lemma effect_sim:
  assumes inv: "tmr_inv reg0 s" and n: "unat n < NUM_TMR"
    and e: "effect_ok res rv s n (alarm_timers s ! unat n) t' R"
  shows "\<exists>s'. res = Some (fst rv, s') \<and> tmr_inv reg0 s' \<and>
    (\<forall>i < NUM_TMR. timers s' i = (if i = unat n then snd rv else timers s i))"
proof -
  let ?s = "s \<lparr>alarm_timers := (alarm_timers s)[unat n := t'], registry := R\<rparr>"
  have e: "res = Some (fst rv, ?s)" "view_of (live R) t' = snd rv" "table_ok R"
    "only_ref (live (registry s)) (live R) (alarm_timers s ! unat n) t'" "timer_ok (live R) t'"
    using e by (simp_all add: effect_ok_def)
  have l: "length (alarm_timers s) = NUM_TMR" using inv by (simp add: tmr_inv_def)
  have "timers ?s i = (if i = unat n then snd rv else timers s i)" if "i < NUM_TMR" for i
    using that l n e(2) other_alarm(3) [OF inv n that _ e(4)] by (auto simp: timers_def)
  then show ?thesis using e(1) inv_update [OF inv n e(3-5) refl] by blast
qed

lemma tmr_step_sim:
  assumes inv: "tmr_inv reg0 s" and n: "unat (op_timer op) < NUM_TMR"
  shows "\<exists>s'. tmr_step op s = Some (fst (view_step op (timers s (unat (op_timer op)))), s') \<and> tmr_inv reg0 s' \<and>
    (\<forall>i < NUM_TMR. timers s' i = (if i = unat (op_timer op) then snd (view_step op (timers s (unat (op_timer op)))) else timers s i))"
  using step_effect [OF assms] effect_sim [OF assms] unfolding timers_def by blast

text \<open>
  The callback of an alarm, which nothing calls in this program (os_timer_setfn and os_timer_arm are
  commented out): a registered timer has its function called, one of mode single is unregistered
  and a running one of mode semi is stopped. One that is stopped stays.
\<close>

fun fire :: "'f view \<Rightarrow> 'f outcome \<times> 'f view" where
  "fire (Documented (Alarm Single _ True f)) = (Called (Some f), Documented Unregistered)"
| "fire (Documented (Alarm Semi iv True f)) = (Called (Some f), Documented (Alarm Semi iv False f))"
| "fire (Documented (Alarm k iv r f)) = (Called (Some f), Documented (Alarm k iv r f))"
| "fire v = (Returns [], v)"

lemma fire_effect:
  assumes "timer_at s n t"
  shows "\<exists>t' R. effect_ok (alarm_timer_common n s) (fire (view_of (live (registry s)) t)) s n t t' R"
proof (cases "has_L t \<and> tmode t = TIMER_MODE_SINGLE")
  case True
  then have l: "live (registry s) (lua_ref t) \<noteq> None" "0 < lua_ref t" and ok: "table_ok (registry s)"
    using assms by (auto simp: timer_at_def timer_ok_def)
  from table_unref_ok [OF ok l(1)] obtain R where R: "table_unref (lua_ref t) (registry s) = Some R"
    "live R = (live (registry s))(lua_ref t := None)" "table_ok R" by blast
  have "effect_ok (alarm_timer_common n s) (fire (view_of (live (registry s)) t)) s n t (t \<lparr>lua_ref := LUA_NOREF, tmode := TIMER_MODE_OFF\<rparr>) R"
    using assms True R l by (cases t) (auto simp: alarm_timer_common_def effect_defs only_ref_def)
  then show ?thesis by blast
next
  case False
  then have "effect_ok (alarm_timer_common n s) (fire (view_of (live (registry s)) t)) s n t
      (if has_L t \<and> tmode t = TIMER_MODE_SEMI then t \<lparr>tmode := tmode t OR TIMER_IDLE_FLAG\<rparr> else t) (registry s)"
    using assms by (cases t) (auto simp: alarm_timer_common_def effect_defs)
  then show ?thesis by blast
qed

lemma alarm_fires:
  assumes inv: "tmr_inv reg0 s" and n: "unat n < NUM_TMR"
  shows "\<exists>s'. alarm_timer_common n s = Some (fst (fire (timers s (unat n))), s') \<and> tmr_inv reg0 s' \<and>
    (\<forall>i < NUM_TMR. timers s' i = (if i = unat n then snd (fire (timers s (unat n))) else timers s i))"
proof -
  have "timer_at s n (alarm_timers s ! unat n)" using inv n by (intro timer_at) (auto simp: tmr_inv_def)
  from fire_effect [OF this] effect_sim [OF inv n] show ?thesis unfolding timers_def by blast
qed

subsection \<open>Sequences of operations\<close>

fun tmr_run :: "'f tmr_op list \<Rightarrow> 'f tmr_state \<Rightarrow> ('f outcome list \<times> 'f tmr_state) option" where
  "tmr_run [] s = Some ([], s)"
| "tmr_run (op # ops) s = do {
     (r, s) \<leftarrow> tmr_step op s;
     (rs, s) \<leftarrow> tmr_run ops s;
     Some (r # rs, s)
   }"

fun view_run :: "'f tmr_op list \<Rightarrow> (nat \<Rightarrow> 'f view) \<Rightarrow> 'f outcome list \<times> (nat \<Rightarrow> 'f view)" where
  "view_run [] V = ([], V)"
| "view_run (op # ops) V =
     (case view_step op (V (unat (op_timer op))) of (r, v) \<Rightarrow>
        case view_run ops (V(unat (op_timer op) := v)) of (rs, V) \<Rightarrow> (r # rs, V))"

fun doc_run :: "'f tmr_op list \<Rightarrow> (nat \<Rightarrow> 'f alarm) \<Rightarrow> 'f outcome list \<times> (nat \<Rightarrow> 'f alarm)" where
  "doc_run [] A = ([], A)"
| "doc_run (op # ops) A =
     (case doc_step op (A (unat (op_timer op))) of (r, a) \<Rightarrow>
        case doc_run ops (A(unat (op_timer op) := a)) of (rs, A) \<Rightarrow> (r # rs, A))"

definition tmr_boot :: "'f ref_table \<Rightarrow> 'f tmr_state" where
  "tmr_boot reg = \<lparr>alarm_timers = alarm_timers_0, registry = reg\<rparr>"

lemma view_run_cong:
  "\<forall>i < NUM_TMR. V i = W i \<Longrightarrow> \<forall>op \<in> set ops. unat (op_timer op) < NUM_TMR \<Longrightarrow>
     fst (view_run ops V) = fst (view_run ops W) \<and> (\<forall>i < NUM_TMR. snd (view_run ops V) i = snd (view_run ops W) i)"
proof (induction ops arbitrary: V W)
  case Nil
  then show ?case by simp
next
  case (Cons op ops)
  let ?n = "unat (op_timer op)"
  have "V ?n = W ?n" using Cons.prems by simp
  moreover have "\<forall>i < NUM_TMR. (V(?n := a)) i = (W(?n := a)) i" for a using Cons.prems(1) by simp
  then have "fst (view_run ops (V(?n := a))) = fst (view_run ops (W(?n := a))) \<and>
      (\<forall>i < NUM_TMR. snd (view_run ops (V(?n := a))) i = snd (view_run ops (W(?n := a))) i)" for a
    using Cons.IH Cons.prems(2) by simp
  ultimately show ?case by (auto split: prod.split) (metis fst_conv, metis snd_conv)
qed

lemma tmr_run_sim:
  "tmr_inv reg0 s \<Longrightarrow> \<forall>op \<in> set ops. unat (op_timer op) < NUM_TMR \<Longrightarrow>
     \<exists>s'. tmr_run ops s = Some (fst (view_run ops (timers s)), s') \<and> tmr_inv reg0 s' \<and>
       (\<forall>i < NUM_TMR. timers s' i = snd (view_run ops (timers s)) i)"
proof (induction ops arbitrary: s)
  case Nil
  then show ?case by simp
next
  case (Cons op ops)
  let ?n = "unat (op_timer op)"
  have n: "?n < NUM_TMR" using Cons.prems(2) by simp
  obtain r v where rv: "view_step op (timers s ?n) = (r, v)" by fastforce
  obtain s1 where s1: "tmr_step op s = Some (r, s1)" "tmr_inv reg0 s1"
    "\<forall>i < NUM_TMR. timers s1 i = ((timers s)(?n := v)) i"
    using tmr_step_sim [OF Cons.prems(1) n] rv by auto
  obtain s2 where s2: "tmr_run ops s1 = Some (fst (view_run ops (timers s1)), s2)" "tmr_inv reg0 s2"
    "\<forall>i < NUM_TMR. timers s2 i = snd (view_run ops (timers s1)) i"
    using Cons.IH [OF s1(2)] Cons.prems(2) by auto
  have c: "fst (view_run ops (timers s1)) = fst (view_run ops ((timers s)(?n := v)))"
    "\<forall>i < NUM_TMR. snd (view_run ops (timers s1)) i = snd (view_run ops ((timers s)(?n := v))) i"
    using view_run_cong [of "timers s1" "(timers s)(?n := v)" ops, OF s1(3)] Cons.prems(2) by simp_all
  show ?case using s1(1) s2 c rv by (auto split: prod.split)
qed

lemma boot_inv: "table_ok reg \<Longrightarrow> tmr_inv (live reg) (tmr_boot reg)"
  by (auto simp: tmr_inv_def tmr_boot_def alarm_timers_0_def timer_ok_def owned_def)

lemma boot_timers: "i < NUM_TMR \<Longrightarrow> timers (tmr_boot reg) i = Zeroed True"
  by (simp add: timers_def tmr_boot_def alarm_timers_0_def view_of_def)

text \<open>Whether the timer of the operation at j was registered or unregistered before it.\<close>

definition set_up :: "'f tmr_op list \<Rightarrow> nat \<Rightarrow> bool" where
  "set_up ops j \<longleftrightarrow> (\<exists>i < j. sets_up (ops ! i) \<and> op_timer (ops ! i) = op_timer (ops ! j))"

lemma set_up_Cons: "set_up (op # ops) (Suc j) \<longleftrightarrow> (sets_up op \<and> op_timer op = op_timer (ops ! j)) \<or> set_up ops j"
  by (auto simp: set_up_def less_Suc_eq_0_disj)

lemma set_up_0: "\<not> set_up ops 0"
  by (simp add: set_up_def)

text \<open>The operations whose result shows the state of the timer.\<close>

fun asks :: "'f tmr_op \<Rightarrow> bool" where
  "asks (Start i) = True"
| "asks (Stop i) = True"
| "asks (Status i) = True"
| "asks _ = False"

definition documented :: "'f view \<Rightarrow> bool" where
  "documented v \<longleftrightarrow> (\<exists>a. v = Documented a)"

lemma view_doc:
  "documented v \<or> \<not> asks op \<Longrightarrow> fst (view_step op v) = fst (doc_step op (doc_of v))"
  "doc_of (snd (view_step op v)) = snd (doc_step op (doc_of v))"
  "documented (snd (view_step op v)) \<longleftrightarrow> documented v \<or> sets_up op"
  "\<not> documented v \<Longrightarrow> \<exists>b. fst (view_step (Status n) v) = Returns [Boolean b, Integer 0]"
  by (cases v; cases op; auto simp: documented_def split: prod.splits)+

lemma view_run_doc:
  "length (fst (view_run ops V)) = length ops \<and>
   (\<forall>j < length ops. documented (V (unat (op_timer (ops ! j)))) \<or> set_up ops j \<or> \<not> asks (ops ! j) \<longrightarrow>
      fst (view_run ops V) ! j = fst (doc_run ops (\<lambda>i. doc_of (V i))) ! j) \<and>
   (\<forall>j n. j < length ops \<longrightarrow> ops ! j = Status n \<longrightarrow> \<not> documented (V (unat n)) \<longrightarrow> \<not> set_up ops j \<longrightarrow>
      (\<exists>b. fst (view_run ops V) ! j = Returns [Boolean b, Integer 0])) \<and>
   (\<forall>i. doc_of (snd (view_run ops V) i) = snd (doc_run ops (\<lambda>i. doc_of (V i))) i)"
proof (induction ops arbitrary: V)
  case Nil
  then show ?case by simp
next
  case (Cons op ops)
  let ?n = "unat (op_timer op)"
  define W where "W = V(?n := snd (view_step op (V ?n)))"
  have d: "(\<lambda>i. doc_of (W i)) = (\<lambda>i. doc_of (V i))(?n := snd (doc_step op (doc_of (V ?n))))"
    by (auto simp: fun_eq_iff view_doc(2) W_def)
  have v: "view_run (op # ops) V = (fst (view_step op (V ?n)) # fst (view_run ops W), snd (view_run ops W))"
    unfolding W_def by (simp split: prod.split)
  have o: "doc_run (op # ops) (\<lambda>i. doc_of (V i)) =
      (fst (doc_step op (doc_of (V ?n))) # fst (doc_run ops (\<lambda>i. doc_of (W i))), snd (doc_run ops (\<lambda>i. doc_of (W i))))"
    unfolding d by (simp split: prod.split)
  have w: "documented (W (unat m)) \<longleftrightarrow> documented (V (unat m)) \<or> (sets_up op \<and> op_timer op = m)" for m
    using view_doc(3) [of op "V ?n"] by (auto simp: word_unat_eq_iff W_def)
  note IH = Cons.IH [of W]
  have 1: "fst (view_run (op # ops) V) ! j = fst (doc_run (op # ops) (\<lambda>i. doc_of (V i))) ! j"
    if j: "j < length (op # ops)" "documented (V (unat (op_timer ((op # ops) ! j)))) \<or> set_up (op # ops) j \<or> \<not> asks ((op # ops) ! j)" for j
  proof (cases j)
    case 0
    then show ?thesis using j(2) view_doc(1) [of "V ?n" op] unfolding v o by (simp add: set_up_0)
  next
    case (Suc i)
    then have "documented (W (unat (op_timer (ops ! i)))) \<or> set_up ops i \<or> \<not> asks (ops ! i)"
      using j(2) w [of "op_timer (ops ! i)"] by (auto simp: set_up_Cons)
    moreover have "i < length ops" using j(1) Suc by simp
    ultimately have "fst (view_run ops W) ! i = fst (doc_run ops (\<lambda>i. doc_of (W i))) ! i" using IH by blast
    then show ?thesis using Suc unfolding v o by simp
  qed
  have 2: "\<exists>b. fst (view_run (op # ops) V) ! j = Returns [Boolean b, Integer 0]"
    if "j < length (op # ops)" "(op # ops) ! j = Status n" "\<not> documented (V (unat n))" "\<not> set_up (op # ops) j" for j n
  proof (cases j)
    case 0
    then show ?thesis using that(2,3) view_doc(4) [of "V (unat n)" n] unfolding v by simp
  next
    case (Suc i)
    then have "\<not> documented (W (unat n))" "\<not> set_up ops i" using that(2-4) w [of n] by (auto simp: set_up_Cons)
    then show ?thesis using that(1,2) Suc IH unfolding v by auto
  qed
  have "length (fst (view_run (op # ops) V)) = length (op # ops)"
    "doc_of (snd (view_run (op # ops) V) i) = snd (doc_run (op # ops) (\<lambda>i. doc_of (V i))) i" for i
    using IH unfolding v o by simp_all
  then show ?case using 1 2 by blast
qed

lemma owned_bij:
  assumes inv: "tmr_inv reg0 s"
  shows "bij_betw (\<lambda>i. lua_ref (alarm_timers s ! i)) {i. i < NUM_TMR \<and> (\<exists>k iv r f. timers s i = Documented (Alarm k iv r f))} (owned s)"
proof -
  have l: "length (alarm_timers s) = NUM_TMR" using inv by (simp add: tmr_inv_def)
  have a: "(\<exists>k iv r f. timers s i = Documented (Alarm k iv r f)) \<longleftrightarrow> 0 < lua_ref (alarm_timers s ! i)" if "i < NUM_TMR" for i
  proof -
    have "timer_ok (live (registry s)) (alarm_timers s ! i)" using inv that by (auto simp: tmr_inv_def)
    then show ?thesis by (auto simp: timers_def view_of_def timer_ok_def)
  qed
  have s: "{i. i < NUM_TMR \<and> (\<exists>k iv r f. timers s i = Documented (Alarm k iv r f))} = {i. i < NUM_TMR \<and> 0 < lua_ref (alarm_timers s ! i)}"
    by (intro Collect_cong conj_cong refl a)
  have "inj_on (\<lambda>i. lua_ref (alarm_timers s ! i)) {i. i < NUM_TMR \<and> 0 < lua_ref (alarm_timers s ! i)}"
    using inv by (auto simp: inj_on_def tmr_inv_def)
  then show ?thesis unfolding s bij_betw_def using owned_iff [OF l] by auto
qed

lemma owned_dom:
  assumes "tmr_inv reg0 s"
  shows "owned s \<subseteq> dom (live (registry s))" "owned s \<inter> dom reg0 = {}" "\<forall>r. r \<notin> owned s \<longrightarrow> live (registry s) r = reg0 r"
proof -
  show "owned s \<subseteq> dom (live (registry s))"
  proof
    fix r assume "r \<in> owned s"
    then obtain t where "t \<in> set (alarm_timers s)" "lua_ref t = r" "0 < r" by (auto simp: owned_def)
    then show "r \<in> dom (live (registry s))" using assms ok_ref [of "live (registry s)" t] by (auto simp: tmr_inv_def)
  qed
qed (use assms in \<open>auto simp: tmr_inv_def\<close>)

section \<open>The clock, the watchdog and the delays\<close>

text \<open>Called at least once while the 32-bit counter wraps, the two parts are the 64-bit time.\<close>

lemma split_mult_add:
  fixes M h l q c T T' :: nat
  assumes "h * M + l = T" "q * M + c = T'" "l < M" "c < M" "T \<le> T'" "T' < T + M"
  shows "q = (if c < l then h + 1 else h)"
proof -
  have "h * M < (q + 1) * M" using assms by (simp add: algebra_simps)
  then have "h < q + 1" unfolding mult_less_cancel2 by blast
  have "q * M < (h + 2) * M" using assms by (simp add: algebra_simps)
  then have "q < h + 2" unfolding mult_less_cancel2 by blast
  with \<open>h < q + 1\<close> have "q = h \<or> q = h + 1" by linarith
  then show ?thesis using assms by (elim disjE) (auto simp: algebra_simps)
qed

lemma rtc_update_extends:
  assumes r: "unat (rtc_high r) * 2 ^ 32 + unat (rtc_low r) = T" and T': "T \<le> T'" "T' < T + 2 ^ 32" "T' < 2 ^ 64"
  shows "unat (rtc_high (rtc_timer_update (of_nat T') r)) * 2 ^ 32 + unat (rtc_low (rtc_timer_update (of_nat T') r)) = T'"
proof -
  let ?h = "unat (rtc_high r)" and ?l = "unat (rtc_low r)"
  define q c where "q = T' div 2 ^ 32" and "c = T' mod 2 ^ 32"
  have qc: "q * 2 ^ 32 + c = T'" "c < 2 ^ 32" by (simp_all add: q_def c_def)
  have u: "unat (of_nat T' :: u32) = c" by (simp add: unat_of_nat c_def)
  have q: "q = (if c < ?l then ?h + 1 else ?h)"
    by (rule split_mult_add [OF r qc(1) unat_less_32 qc(2) T'(1,2)])
  have q32: "q < 2 ^ 32" using T'(3) unfolding q_def by (simp add: less_mult_imp_div_less)
  have lt: "rtc_low r > of_nat T' \<longleftrightarrow> c < ?l" by (simp add: word_less_nat_alt u)
  show ?thesis
  proof (cases "c < ?l")
    case True
    then have "unat (rtc_high r + 1) = q" using q q32 by (subst unat_word_ariths) simp
    then show ?thesis using True lt u qc by (simp add: rtc_timer_update_def)
  next
    case False
    then show ?thesis using q lt u qc by (simp add: rtc_timer_update_def)
  qed
qed

text \<open>A watchdog of n seconds restarts the device at the n-th call and not before.\<close>

lemma watchdog_step:
  assumes "0 < soft_watchdog r"
  shows "soft_watchdog (fst (rtc_callback c r)) = soft_watchdog r - 1"
    "snd (rtc_callback c r) = (if soft_watchdog r = 1 then [Restart] else [])"
  using assms by (simp_all add: rtc_callback_def rtc_timer_update_def Let_def)

text \<open>With a tick of a millisecond the waits add up to the argument.\<close>

fun waited :: "effect \<Rightarrow> int" where
  "waited (Task_delay n) = 1000 * uint n"
| "waited (Delay_us n) = uint n"
| "waited _ = 0"

lemma seconds_loop_waited:
  "0 \<le> us \<Longrightarrow> seconds_loop 1 us = (e, r) \<Longrightarrow> sum_list (map waited e) + r = us \<and> 0 \<le> r \<and> r < 1000000"
proof (induction "nat us" arbitrary: us e rule: less_induct)
  case less
  show ?case
  proof (cases "1000000 \<le> us")
    case True
    obtain e' r' where e': "seconds_loop 1 (us - 1000000) = (e', r')" by fastforce
    have "seconds_loop 1 us = (Task_delay 1000 # e', r')" using True e' by (subst seconds_loop.simps) simp
    then have "e = Task_delay 1000 # e'" "r' = r" using less.prems(2) by simp_all
    then show ?thesis using less.hyps [of "us - 1000000" e'] e' True by auto
  next
    case False
    then have "seconds_loop 1 us = ([], us)" by (subst seconds_loop.simps) simp
    then show ?thesis using False less.prems by simp
  qed
qed

lemma delay_waited:
  assumes "0 < sint us"
  shows "\<exists>e. tmr_delay 1 us = (Returns [], e) \<and> sum_list (map waited e) = sint us"
proof -
  obtain e r where er: "seconds_loop 1 (sint us) = (e, r)" by fastforce
  have w: "sum_list (map waited e) + r = sint us" "0 \<le> r" "r < 1000000" using seconds_loop_waited [OF _ er] assms by auto
  define q m where "q = r div 1000" and "m = r mod 1000"
  have qm: "r = 1000 * q + m" "0 \<le> q" "q < 1000" "0 \<le> m" "m < 1000" using w by (simp_all add: q_def m_def)
  have u: "uint (of_int k :: u32) = k" if "0 \<le> k" "k < 1000" for k :: int
    unfolding uint_word_of_int using that by (simp add: mod_pos_pos_trivial)
  show ?thesis
  proof (cases "0 < q")
    case True
    then show ?thesis using assms er w qm u [of q] u [of m]
      by (auto simp: tmr_delay_def Let_def q_def [symmetric] m_def [symmetric])
  next
    case False
    then have "q = 0" "r = m" using qm by simp_all
    then show ?thesis using assms er w qm u [of m]
      by (auto simp: tmr_delay_def Let_def q_def [symmetric])
  qed
qed

section \<open>Properties\<close>

text \<open>
  C35: Any sequence of calls of register, start, stop, unregister, interval and state on the seven timers, from
  the zeroed table, gives the results that the comment at the head of tmr.c documents, and leaves the
  timers in the documented states, with one exception: on a timer that was neither registered with
  valid arguments nor unregistered before, start, stop and state answer for a running timer of mode
  single, so state gives a boolean and 0 where the comment says nil. The registry's list of free
  slots is well formed. That a started timer calls its function is not part of this: in this program
  nothing makes it.
\<close>

theorem tmr_documented:
  assumes "table_ok reg" "\<forall>op \<in> set ops. unat (op_timer op) < NUM_TMR"
  shows "\<exists>rs s'. tmr_run ops (tmr_boot reg) = Some (rs, s') \<and> length rs = length ops \<and>
    (\<forall>j < length ops. set_up ops j \<or> \<not> asks (ops ! j) \<longrightarrow> rs ! j = fst (doc_run ops (\<lambda>_. Unregistered)) ! j) \<and>
    (\<forall>j n. j < length ops \<longrightarrow> ops ! j = Status n \<longrightarrow> \<not> set_up ops j \<longrightarrow> (\<exists>b. rs ! j = Returns [Boolean b, Integer 0])) \<and>
    (\<forall>i < NUM_TMR. doc_of (timers s' i) = snd (doc_run ops (\<lambda>_. Unregistered)) i)"
proof -
  have b: "\<forall>i < NUM_TMR. timers (tmr_boot reg) i = (\<lambda>_. Zeroed True) i" by (auto simp: boot_timers)
  obtain s' where s': "tmr_run ops (tmr_boot reg) = Some (fst (view_run ops (\<lambda>_. Zeroed True)), s')"
    "\<forall>i < NUM_TMR. timers s' i = snd (view_run ops (\<lambda>_. Zeroed True)) i"
    using tmr_run_sim [OF boot_inv [OF assms(1)] assms(2)] view_run_cong [OF b assms(2)] by auto
  then show ?thesis using view_run_doc [of ops "\<lambda>_. Zeroed True"] by (auto simp: documented_def)
qed

text \<open>
  C36: After any such sequence, from a registry whose list of free slots is well formed, the live references
  are those there were, with the same values, plus exactly one for each registered timer, which holds a
  function: no live reference is leaked, overwritten or released twice. (Slots that were free may be
  lost: the first registration of a timer passes the reference 0 to luaL_unref; see tmr_drops_free_slots.)
\<close>

theorem tmr_registry:
  assumes "table_ok reg" "\<forall>op \<in> set ops. unat (op_timer op) < NUM_TMR"
  shows "\<exists>rs s'. tmr_run ops (tmr_boot reg) = Some (rs, s') \<and> table_ok (registry s') \<and>
    bij_betw (\<lambda>i. lua_ref (alarm_timers s' ! i)) {i. i < NUM_TMR \<and> (\<exists>k iv r f. timers s' i = Documented (Alarm k iv r f))} (owned s') \<and>
    owned s' \<subseteq> dom (live (registry s')) \<and> owned s' \<inter> dom (live reg) = {} \<and>
    (\<forall>r. r \<notin> owned s' \<longrightarrow> live (registry s') r = live reg r)"
proof -
  obtain rs s' where s': "tmr_run ops (tmr_boot reg) = Some (rs, s')" "tmr_inv (live reg) s'"
    using tmr_run_sim [OF boot_inv [OF assms(1)] assms(2)] by blast
  then have "table_ok (registry s')" by (simp add: tmr_inv_def)
  then show ?thesis using s'(1) owned_bij [OF s'(2)] owned_dom [OF s'(2)] by blast
qed

section \<open>Witnesses\<close>

text \<open>A registry with one value and one free slot.\<close>

definition sample_registry :: "string ref_table" where
  "sample_registry = \<lparr>free_list = 2, slots = [Value ''kept'', Next_free 0]\<rparr>"

lemma sample_registry: "table_ok sample_registry" "live sample_registry 1 = Some ''kept''"
  by (auto simp: table_ok_def sample_registry_def live_def intro: exI [of _ "[1]"])

definition sample_ops :: "string tmr_op list" where
  "sample_ops = [Register 2 1000 2 (Some ''blink''), Status 2, Start 2, Stop 2, Status 2, Register 0 0 1 (Some ''never''), Status 0]"

lemma sample_ops: "\<forall>op \<in> set sample_ops. unat (op_timer op) < 7"
  by (simp add: sample_ops_def)

lemma tmr_documented_witness:
  "\<exists>rs s'. tmr_run sample_ops (tmr_boot sample_registry) = Some (rs, s') \<and>
     rs ! 2 = Returns [Boolean True] \<and> rs ! 4 = Returns [Boolean False, Integer 2] \<and> rs ! 5 = Lua_error \<and>
     (\<exists>b. rs ! 6 = Returns [Boolean b, Integer 0]) \<and>
     doc_of (timers s' 2) = Alarm Semi 1000 False ''blink'' \<and> doc_of (timers s' 0) = Unregistered"
proof -
  have d: "doc_run sample_ops (\<lambda>_. Unregistered) =
      ([Returns [], Returns [Boolean False, Integer 2], Returns [Boolean True], Returns [Boolean True],
        Returns [Boolean False, Integer 2], Lua_error, Returns [Nil]], (\<lambda>_. Unregistered)(2 := Alarm Semi 1000 False ''blink''))"
    by (simp add: sample_ops_def kind_of_def mode_number_def valid_reg_def fun_eq_iff)
  have u: "set_up sample_ops 2" "set_up sample_ops 4" "\<not> asks (sample_ops ! 5)" "sample_ops ! 6 = Status 0" "length sample_ops = 7"
    by (auto simp: set_up_def sample_ops_def valid_reg_def intro: exI [of _ 0])
  have six: "i < 6 \<longleftrightarrow> i \<in> {0, 1, 2, 3, 4, 5}" for i :: nat by auto
  have "\<forall>i \<in> {0, 1, 2, 3, 4, 5 :: nat}. \<not> (sets_up (sample_ops ! i) \<and> op_timer (sample_ops ! i) = op_timer (sample_ops ! 6))"
    by (simp add: sample_ops_def valid_reg_def)
  then have n: "\<not> set_up sample_ops 6" unfolding set_up_def six by blast
  show ?thesis
    using tmr_documented [OF sample_registry(1) sample_ops] d u n by fastforce
qed

lemma tmr_registry_witness:
  "\<exists>rs s'. tmr_run sample_ops (tmr_boot sample_registry) = Some (rs, s') \<and> owned s' \<subseteq> dom (live (registry s')) \<and>
     live (registry s') 1 = Some ''kept''"
proof -
  obtain rs s' where "tmr_run sample_ops (tmr_boot sample_registry) = Some (rs, s')"
    "owned s' \<subseteq> dom (live (registry s'))" "owned s' \<inter> dom (live sample_registry) = {}"
    "\<forall>r. r \<notin> owned s' \<longrightarrow> live (registry s') r = live sample_registry r"
    using tmr_registry [OF sample_registry(1) sample_ops] by auto
  moreover from this have "1 \<notin> owned s'" using sample_registry(2) by auto
  ultimately show ?thesis using sample_registry(2) by auto
qed

text \<open>
  Two timers registered and unregistered leave two free slots. Registering a third takes one of them and drops
  the other: the list is empty, slot 1 is never used again, and the next reference is a new one.
\<close>

definition leak_ops :: "string tmr_op list" where
  "leak_ops = [Register 0 10 0 (Some ''a''), Register 1 10 0 (Some ''b''), Unregister 0, Unregister 1,
     Register 2 10 0 (Some ''c''), Register 3 10 0 (Some ''d'')]"

lemma seven_timers:
  "alarm_timers_0 = (let z = \<lparr>has_L = False, lua_ref = 0, interval = 0, tmode = 0\<rparr> in [z, z, z, z, z, z, z])"
  by (simp add: alarm_timers_0_def numeral_eq_Suc Let_def)

lemma tmr_drops_free_slots:
  "\<exists>rs s'. tmr_run leak_ops (tmr_boot \<lparr>free_list = 0, slots = []\<rparr>) = Some (rs, s') \<and>
     registry s' = \<lparr>free_list = 0, slots = [Next_free 0, Value ''c'', Value ''d'']\<rparr>"
  by (simp add: leak_ops_def tmr_boot_def seven_timers tmr_register_def tmr_unregister_def table_ref_def table_unref_def
      set_timer_def Let_def mem_simps)

end
