(* ===== verification/Vfs.thy ===== *)
theory Vfs
  imports Spiffs_Volume
begin

unbundle bit_operations_syntax

text \<open>
  The virtual file system: the file, directory and volume functions of spiffs/spiffs.c, the
  dispatch to them in platform/vfs.c and in the inline functions of vfs.h. The SPIFFS library is a
  parameter, a record of the calls made on its state; so is the choice malloc makes of an address.
  A descriptor is an object in a heap, the address 0 is NULL, and the use of an address that holds
  no such object is the value None. A C string is the list of its characters. CONFIG_BUILD_SPIFFS
  is set by platform/component.mk and CONFIG_BUILD_FATFS is not, so the only file system is SPIFFS.
\<close>

section \<open>The SPIFFS library and the state\<close>

record ('i, 'f) files_lib =
  SPIFFS_open :: "string \<Rightarrow> nat \<Rightarrow> 'f \<Rightarrow> int \<times> 'f"
  SPIFFS_close :: "int \<Rightarrow> 'f \<Rightarrow> int \<times> 'f"
  SPIFFS_read :: "int \<Rightarrow> nat \<Rightarrow> 'f \<Rightarrow> int \<times> string \<times> 'f"
  SPIFFS_write :: "int \<Rightarrow> string \<Rightarrow> 'f \<Rightarrow> int \<times> 'f"
  SPIFFS_lseek :: "int \<Rightarrow> int \<Rightarrow> nat \<Rightarrow> 'f \<Rightarrow> int \<times> 'f"
  SPIFFS_eof :: "int \<Rightarrow> 'f \<Rightarrow> int \<times> 'f"
  SPIFFS_tell :: "int \<Rightarrow> 'f \<Rightarrow> int \<times> 'f"
  SPIFFS_fflush :: "int \<Rightarrow> 'f \<Rightarrow> int \<times> 'f"
  SPIFFS_errno :: "'f \<Rightarrow> int"
  SPIFFS_clearerr :: "'f \<Rightarrow> 'f"
  SPIFFS_opendir :: "string \<Rightarrow> 'f \<Rightarrow> 'i option \<times> 'f"
  SPIFFS_closedir :: "'i \<Rightarrow> 'f \<Rightarrow> int \<times> 'f"
  SPIFFS_readdir :: "'i \<Rightarrow> 'f \<Rightarrow> (u32 \<times> string) option \<times> 'i \<times> 'f"
  SPIFFS_stat :: "string \<Rightarrow> 'f \<Rightarrow> int \<times> (u32 \<times> string) \<times> 'f"
  SPIFFS_remove :: "string \<Rightarrow> 'f \<Rightarrow> int \<times> 'f"
  SPIFFS_rename :: "string \<Rightarrow> string \<Rightarrow> 'f \<Rightarrow> int \<times> 'f"
  SPIFFS_info :: "'f \<Rightarrow> int \<times> u32 \<times> u32 \<times> 'f"

datatype vfs_type = VFS_FS_SPIFFS | VFS_FS_FATFS

datatype 'i descriptor = File vfs_type int | Dir vfs_type 'i | Item vfs_type u32 string

record ('i, 'f) file_sys =
  heap :: "nat \<rightharpoonup> 'i descriptor"
  spiffs :: 'f
  is_current_drive :: bool
  file_fd :: nat

type_synonym 'i allocator = "(nat \<rightharpoonup> 'i descriptor) \<Rightarrow> nat option"

definition free_desc :: "nat \<Rightarrow> ('i, 'f) file_sys \<Rightarrow> ('i, 'f) file_sys" where
  "free_desc a s = s \<lparr>heap := (heap s)(a := None)\<rparr>"

definition with_file :: "nat \<Rightarrow> ('i, 'f) file_sys \<Rightarrow> int option" where
  "with_file fd s = (case heap s fd of Some (File _ fh) \<Rightarrow> Some fh | _ \<Rightarrow> None)"

definition with_dir :: "nat \<Rightarrow> ('i, 'f) file_sys \<Rightarrow> (vfs_type \<times> 'i) option" where
  "with_dir dd s = (case heap s dd of Some (Dir ty d) \<Rightarrow> Some (ty, d) | _ \<Rightarrow> None)"

definition with_item :: "nat \<Rightarrow> ('i, 'f) file_sys \<Rightarrow> (u32 \<times> string) option" where
  "with_item di s = (case heap s di of Some (Item _ n name) \<Rightarrow> Some (n, name) | _ \<Rightarrow> None)"

section \<open>spiffs.c\<close>

abbreviation (input) VFS_RES_OK :: int where "VFS_RES_OK \<equiv> 0"
abbreviation (input) VFS_RES_ERR :: int where "VFS_RES_ERR \<equiv> - 1"
abbreviation (input) VFS_EOF :: int where "VFS_EOF \<equiv> - 1"
abbreviation (input) VFS_SEEK_SET :: int where "VFS_SEEK_SET \<equiv> 0"
abbreviation (input) VFS_SEEK_CUR :: int where "VFS_SEEK_CUR \<equiv> 1"
abbreviation (input) VFS_SEEK_END :: int where "VFS_SEEK_END \<equiv> 2"
abbreviation (input) SPIFFS_SEEK_SET :: nat where "SPIFFS_SEEK_SET \<equiv> 0"
abbreviation (input) SPIFFS_SEEK_CUR :: nat where "SPIFFS_SEEK_CUR \<equiv> 1"
abbreviation (input) SPIFFS_SEEK_END :: nat where "SPIFFS_SEEK_END \<equiv> 2"
abbreviation (input) SPIFFS_APPEND :: nat where "SPIFFS_APPEND \<equiv> 1"
abbreviation (input) SPIFFS_TRUNC :: nat where "SPIFFS_TRUNC \<equiv> 2"
abbreviation (input) SPIFFS_CREAT :: nat where "SPIFFS_CREAT \<equiv> 4"
abbreviation (input) SPIFFS_RDONLY :: nat where "SPIFFS_RDONLY \<equiv> 8"
abbreviation (input) SPIFFS_WRONLY :: nat where "SPIFFS_WRONLY \<equiv> 16"
abbreviation (input) SPIFFS_RDWR :: nat where "SPIFFS_RDWR \<equiv> 24"
abbreviation (input) SPIFFS_OBJ_NAME_LEN :: nat where "SPIFFS_OBJ_NAME_LEN \<equiv> 32"

definition fs_mode2flag :: "string \<Rightarrow> nat" where
  "fs_mode2flag m =
     (if length m = 1 then
        if m = ''w'' then SPIFFS_WRONLY OR SPIFFS_CREAT OR SPIFFS_TRUNC
        else if m = ''r'' then SPIFFS_RDONLY
        else if m = ''a'' then SPIFFS_WRONLY OR SPIFFS_CREAT OR SPIFFS_APPEND
        else SPIFFS_RDONLY
      else if length m = 2 then
        if m = ''r+'' then SPIFFS_RDWR
        else if m = ''w+'' then SPIFFS_RDWR OR SPIFFS_CREAT OR SPIFFS_TRUNC
        else if m = ''a+'' then SPIFFS_RDWR OR SPIFFS_CREAT OR SPIFFS_APPEND
        else SPIFFS_RDONLY
      else SPIFFS_RDONLY)"

definition myspiffs_vfs_iclose :: "nat \<Rightarrow> ('i, 'f) file_sys \<Rightarrow> ('i, 'f) file_sys" where
  "myspiffs_vfs_iclose di s = free_desc di s"

definition myspiffs_vfs_isize :: "nat \<Rightarrow> ('i, 'f) file_sys \<Rightarrow> u32 option" where
  "myspiffs_vfs_isize di s = map_option fst (with_item di s)"

text \<open>The name as a C string: a field of 32 characters without a terminator would be read past its end.\<close>

definition myspiffs_vfs_name :: "nat \<Rightarrow> ('i, 'f) file_sys \<Rightarrow> string option" where
  "myspiffs_vfs_name di s = do {
     (_, name) \<leftarrow> with_item di s;
     if length name < SPIFFS_OBJ_NAME_LEN then Some name else None
   }"

definition myspiffs_vfs_closedir :: "('i, 'f) files_lib \<Rightarrow> nat \<Rightarrow> ('i, 'f) file_sys \<Rightarrow> (int \<times> ('i, 'f) file_sys) option" where
  "myspiffs_vfs_closedir lib dd s = do {
     (_, d) \<leftarrow> with_dir dd s;
     case SPIFFS_closedir lib d (spiffs s) of (res, f) \<Rightarrow> Some (res, free_desc dd (s \<lparr>spiffs := f\<rparr>))
   }"

text \<open>The name is cut to the room for it by strncpy.\<close>

definition myspiffs_vfs_readdir ::
    "('i, 'f) files_lib \<Rightarrow> 'i allocator \<Rightarrow> nat \<Rightarrow> ('i, 'f) file_sys \<Rightarrow> (nat \<times> ('i, 'f) file_sys) option" where
  "myspiffs_vfs_readdir lib malloc dd s = do {
     (ty, d) \<leftarrow> with_dir dd s;
     case malloc (heap s) of
       None \<Rightarrow> Some (0, s)
     | Some a \<Rightarrow>
         (case SPIFFS_readdir lib d (spiffs s) of (dirent, d, f) \<Rightarrow>
            let s = s \<lparr>spiffs := f, heap := (heap s)(dd \<mapsto> Dir ty d)\<rparr>
            in case dirent of
                 Some (n, name) \<Rightarrow> Some (a, s \<lparr>heap := (heap s)(a \<mapsto> Item VFS_FS_FATFS n (take SPIFFS_OBJ_NAME_LEN name))\<rparr>)
               | None \<Rightarrow> Some (0, s))
   }"

definition myspiffs_vfs_close :: "('i, 'f) files_lib \<Rightarrow> nat \<Rightarrow> ('i, 'f) file_sys \<Rightarrow> (int \<times> ('i, 'f) file_sys) option" where
  "myspiffs_vfs_close lib fd s = do {
     fh \<leftarrow> with_file fd s;
     case SPIFFS_close lib fh (spiffs s) of (res, f) \<Rightarrow> Some (res, free_desc fd (s \<lparr>spiffs := f\<rparr>))
   }"

definition myspiffs_vfs_read :: "('i, 'f) files_lib \<Rightarrow> nat \<Rightarrow> nat \<Rightarrow> ('i, 'f) file_sys \<Rightarrow> (int \<times> string \<times> ('i, 'f) file_sys) option" where
  "myspiffs_vfs_read lib fd len s = do {
     fh \<leftarrow> with_file fd s;
     case SPIFFS_read lib fh len (spiffs s) of (res, bs, f) \<Rightarrow> Some (res, bs, s \<lparr>spiffs := f\<rparr>)
   }"

definition myspiffs_vfs_write :: "('i, 'f) files_lib \<Rightarrow> nat \<Rightarrow> string \<Rightarrow> ('i, 'f) file_sys \<Rightarrow> (int \<times> ('i, 'f) file_sys) option" where
  "myspiffs_vfs_write lib fd bs s = do {
     fh \<leftarrow> with_file fd s;
     case SPIFFS_write lib fh bs (spiffs s) of (res, f) \<Rightarrow> Some (res, s \<lparr>spiffs := f\<rparr>)
   }"

definition myspiffs_vfs_lseek :: "('i, 'f) files_lib \<Rightarrow> nat \<Rightarrow> int \<Rightarrow> int \<Rightarrow> ('i, 'f) file_sys \<Rightarrow> (int \<times> ('i, 'f) file_sys) option" where
  "myspiffs_vfs_lseek lib fd off whence s = do {
     fh \<leftarrow> with_file fd s;
     let spiffs_whence =
       (if whence = VFS_SEEK_SET then SPIFFS_SEEK_SET
        else if whence = VFS_SEEK_CUR then SPIFFS_SEEK_CUR
        else if whence = VFS_SEEK_END then SPIFFS_SEEK_END
        else SPIFFS_SEEK_SET);
     case SPIFFS_lseek lib fh off spiffs_whence (spiffs s) of (res, f) \<Rightarrow> Some (res, s \<lparr>spiffs := f\<rparr>)
   }"

definition myspiffs_vfs_eof :: "('i, 'f) files_lib \<Rightarrow> nat \<Rightarrow> ('i, 'f) file_sys \<Rightarrow> (int \<times> ('i, 'f) file_sys) option" where
  "myspiffs_vfs_eof lib fd s = do {
     fh \<leftarrow> with_file fd s;
     case SPIFFS_eof lib fh (spiffs s) of (res, f) \<Rightarrow> Some (res, s \<lparr>spiffs := f\<rparr>)
   }"

definition myspiffs_vfs_tell :: "('i, 'f) files_lib \<Rightarrow> nat \<Rightarrow> ('i, 'f) file_sys \<Rightarrow> (int \<times> ('i, 'f) file_sys) option" where
  "myspiffs_vfs_tell lib fd s = do {
     fh \<leftarrow> with_file fd s;
     case SPIFFS_tell lib fh (spiffs s) of (res, f) \<Rightarrow> Some (res, s \<lparr>spiffs := f\<rparr>)
   }"

definition myspiffs_vfs_flush :: "('i, 'f) files_lib \<Rightarrow> nat \<Rightarrow> ('i, 'f) file_sys \<Rightarrow> (int \<times> ('i, 'f) file_sys) option" where
  "myspiffs_vfs_flush lib fd s = do {
     fh \<leftarrow> with_file fd s;
     case SPIFFS_fflush lib fh (spiffs s) of (res, f) \<Rightarrow>
       Some (if res \<ge> 0 then VFS_RES_OK else VFS_RES_ERR, s \<lparr>spiffs := f\<rparr>)
   }"

definition myspiffs_vfs_ferrno :: "('i, 'f) files_lib \<Rightarrow> ('i, 'f) file_sys \<Rightarrow> int" where
  "myspiffs_vfs_ferrno lib s = SPIFFS_errno lib (spiffs s)"

definition myspiffs_vfs_open ::
    "('i, 'f) files_lib \<Rightarrow> 'i allocator \<Rightarrow> string \<Rightarrow> string \<Rightarrow> ('i, 'f) file_sys \<Rightarrow> nat \<times> ('i, 'f) file_sys" where
  "myspiffs_vfs_open lib malloc name m s =
     (let flags = fs_mode2flag m
      in case malloc (heap s) of
           None \<Rightarrow> (0, s)
         | Some a \<Rightarrow>
             (case SPIFFS_open lib name flags (spiffs s) of (fh, f) \<Rightarrow>
                let s = s \<lparr>spiffs := f\<rparr>
                in if 0 < fh then (a, s \<lparr>heap := (heap s)(a \<mapsto> File VFS_FS_SPIFFS fh)\<rparr>) else (0, s)))"

definition myspiffs_vfs_opendir ::
    "('i, 'f) files_lib \<Rightarrow> 'i allocator \<Rightarrow> string \<Rightarrow> ('i, 'f) file_sys \<Rightarrow> nat \<times> ('i, 'f) file_sys" where
  "myspiffs_vfs_opendir lib malloc name s =
     (case malloc (heap s) of
        None \<Rightarrow> (0, s)
      | Some a \<Rightarrow>
          (case SPIFFS_opendir lib name (spiffs s) of (dir, f) \<Rightarrow>
             let s = s \<lparr>spiffs := f\<rparr>
             in case dir of Some d \<Rightarrow> (a, s \<lparr>heap := (heap s)(a \<mapsto> Dir VFS_FS_SPIFFS d)\<rparr>) | None \<Rightarrow> (0, s)))"

definition myspiffs_vfs_stat ::
    "('i, 'f) files_lib \<Rightarrow> 'i allocator \<Rightarrow> string \<Rightarrow> ('i, 'f) file_sys \<Rightarrow> nat \<times> ('i, 'f) file_sys" where
  "myspiffs_vfs_stat lib malloc name s =
     (case malloc (heap s) of
        None \<Rightarrow> (0, s)
      | Some a \<Rightarrow>
          (case SPIFFS_stat lib name (spiffs s) of (res, (n, name), f) \<Rightarrow>
             let s = s \<lparr>spiffs := f\<rparr>
             in if 0 \<le> res then (a, s \<lparr>heap := (heap s)(a \<mapsto> Item VFS_FS_SPIFFS n name)\<rparr>) else (0, s)))"

definition myspiffs_vfs_remove :: "('i, 'f) files_lib \<Rightarrow> string \<Rightarrow> ('i, 'f) file_sys \<Rightarrow> int \<times> ('i, 'f) file_sys" where
  "myspiffs_vfs_remove lib name s = (case SPIFFS_remove lib name (spiffs s) of (res, f) \<Rightarrow> (res, s \<lparr>spiffs := f\<rparr>))"

definition myspiffs_vfs_rename :: "('i, 'f) files_lib \<Rightarrow> string \<Rightarrow> string \<Rightarrow> ('i, 'f) file_sys \<Rightarrow> int \<times> ('i, 'f) file_sys" where
  "myspiffs_vfs_rename lib oldname newname s =
     (case SPIFFS_rename lib oldname newname (spiffs s) of (res, f) \<Rightarrow> (res, s \<lparr>spiffs := f\<rparr>))"

definition myspiffs_vfs_fsinfo :: "('i, 'f) files_lib \<Rightarrow> ('i, 'f) file_sys \<Rightarrow> int \<times> u32 \<times> u32 \<times> ('i, 'f) file_sys" where
  "myspiffs_vfs_fsinfo lib s = (case SPIFFS_info lib (spiffs s) of (res, tot, occ, f) \<Rightarrow> (res, tot, occ, s \<lparr>spiffs := f\<rparr>))"

text \<open>What the configuration of the mounted file system says; cfg_of reads it from the library's object.\<close>

definition myspiffs_vfs_fscfg :: "('f \<Rightarrow> spiffs_config) \<Rightarrow> ('i, 'f) file_sys \<Rightarrow> int \<times> u32 \<times> u32" where
  "myspiffs_vfs_fscfg cfg_of s = (VFS_RES_OK, phys_addr (cfg_of (spiffs s)), phys_size (cfg_of (spiffs s)))"

text \<open>Unmounting a volume is not implemented.\<close>

definition myspiffs_vfs_umount :: int where "myspiffs_vfs_umount = VFS_RES_ERR"

text \<open>
  The self test: the text is written with its terminating zero to a new file, and the file is read
  into a buffer of twelve characters, whose first n the library overwrites. What it prints is the
  buffer up to its first zero; without one it reads past the buffer. Each call is made whatever the
  one before it returned.
\<close>

definition test_spiffs :: "('i, 'f) files_lib \<Rightarrow> string \<Rightarrow> ('i, 'f) file_sys \<Rightarrow> (string \<times> ('i, 'f) file_sys) option" where
  "test_spiffs lib buf s =
     (case SPIFFS_open lib ''my_file'' (SPIFFS_CREAT OR SPIFFS_TRUNC OR SPIFFS_RDWR) (spiffs s) of (fd, f) \<Rightarrow>
      case SPIFFS_write lib fd (''Hello world'' @ [CHR 0x00]) f of (_, f) \<Rightarrow>
      case SPIFFS_close lib fd f of (_, f) \<Rightarrow>
      case SPIFFS_open lib ''my_file'' SPIFFS_RDWR f of (fd, f) \<Rightarrow>
      case SPIFFS_read lib fd 12 f of (_, bs, f) \<Rightarrow>
      case SPIFFS_close lib fd f of (_, f) \<Rightarrow>
        let buf = bs @ drop (length bs) buf
        in if CHR 0x00 \<in> set buf then Some (takeWhile (\<lambda>c. c \<noteq> CHR 0x00) buf, s \<lparr>spiffs := f\<rparr>) else None)"

text \<open>Mounting and formatting are the operations of the volume; the record holds what they depend on.\<close>

record ('g, 'd) volume_io =
  vol_lib :: "('g, 'd) spiffs_lib"
  vol_table :: entry_format
  vol_spi :: "'d spi"
  vol_chip :: "'d \<Rightarrow> u32 \<Rightarrow> 'd"
  vol_malloc :: bool
  vol_info :: platform_partition

definition myspiffs_vfs_mount ::
    "('g, 'd) volume_io \<Rightarrow> ('i, ('g, 'd) volume) file_sys \<Rightarrow> (bool \<times> ('i, ('g, 'd) volume) file_sys) option" where
  "myspiffs_vfs_mount io s = do {
     (ok, v) \<leftarrow> myspiffs_mount (vol_lib io) (vol_table io) (vol_spi io) (vol_chip io) (vol_malloc io) (vol_info io) (spiffs s);
     Some (ok, s \<lparr>spiffs := v\<rparr>)
   }"

definition myspiffs_vfs_format ::
    "('g, 'd) volume_io \<Rightarrow> ('i, ('g, 'd) volume) file_sys \<Rightarrow> (int \<times> ('i, ('g, 'd) volume) file_sys) option" where
  "myspiffs_vfs_format io s = do {
     (ok, v) \<leftarrow> myspiffs_format (vol_lib io) (vol_table io) (vol_spi io) (vol_chip io) (vol_malloc io) (vol_info io) (spiffs s);
     Some (if ok then 1 else 0, s \<lparr>spiffs := v\<rparr>)
   }"

definition myspiffs_vfs_errno :: "('i, 'f) files_lib \<Rightarrow> ('i, 'f) file_sys \<Rightarrow> int" where
  "myspiffs_vfs_errno lib s = SPIFFS_errno lib (spiffs s)"

definition myspiffs_vfs_clearerr :: "('i, 'f) files_lib \<Rightarrow> ('i, 'f) file_sys \<Rightarrow> ('i, 'f) file_sys" where
  "myspiffs_vfs_clearerr lib s = s \<lparr>spiffs := SPIFFS_clearerr lib (spiffs s)\<rparr>"

text \<open>Whether the path is for this file system, and the name it has there.\<close>

definition MY_LDRV_ID :: string where "MY_LDRV_ID = ''FLASH''"

definition myspiffs_realm :: "string \<Rightarrow> bool \<Rightarrow> ('i, 'f) file_sys \<Rightarrow> string option \<times> ('i, 'f) file_sys" where
  "myspiffs_realm inname set_current_drive s =
     (let none = (None, if set_current_drive then s \<lparr>is_current_drive := False\<rparr> else s)
      in if inname \<noteq> [] \<and> hd inname = CHR ''/'' then
           (let idstr_len = length MY_LDRV_ID
            in if take idstr_len (tl inname) = MY_LDRV_ID then
                 (let outname = drop (1 + idstr_len) inname;
                      outname = (if outname \<noteq> [] \<and> hd outname = CHR ''/'' then tl outname else outname)
                  in (Some outname, if set_current_drive then s \<lparr>is_current_drive := True\<rparr> else s))
               else none)
         else if is_current_drive s then (Some inname, s) else none)"

section \<open>vfs.h: operations on descriptors\<close>

definition vfs_close :: "('i, 'f) files_lib \<Rightarrow> nat \<Rightarrow> ('i, 'f) file_sys \<Rightarrow> (int \<times> ('i, 'f) file_sys) option" where
  "vfs_close lib fd s = (if fd \<noteq> 0 then myspiffs_vfs_close lib fd s else Some (VFS_RES_ERR, s))"

definition vfs_read :: "('i, 'f) files_lib \<Rightarrow> nat \<Rightarrow> nat \<Rightarrow> ('i, 'f) file_sys \<Rightarrow> (int \<times> string \<times> ('i, 'f) file_sys) option" where
  "vfs_read lib fd len s = (if fd \<noteq> 0 then myspiffs_vfs_read lib fd len s else Some (VFS_RES_ERR, [], s))"

definition vfs_write :: "('i, 'f) files_lib \<Rightarrow> nat \<Rightarrow> string \<Rightarrow> ('i, 'f) file_sys \<Rightarrow> (int \<times> ('i, 'f) file_sys) option" where
  "vfs_write lib fd bs s = (if fd \<noteq> 0 then myspiffs_vfs_write lib fd bs s else Some (VFS_RES_ERR, s))"

definition vfs_lseek :: "('i, 'f) files_lib \<Rightarrow> nat \<Rightarrow> int \<Rightarrow> int \<Rightarrow> ('i, 'f) file_sys \<Rightarrow> (int \<times> ('i, 'f) file_sys) option" where
  "vfs_lseek lib fd off whence s = (if fd \<noteq> 0 then myspiffs_vfs_lseek lib fd off whence s else Some (VFS_RES_ERR, s))"

definition vfs_eof :: "('i, 'f) files_lib \<Rightarrow> nat \<Rightarrow> ('i, 'f) file_sys \<Rightarrow> (int \<times> ('i, 'f) file_sys) option" where
  "vfs_eof lib fd s = (if fd \<noteq> 0 then myspiffs_vfs_eof lib fd s else Some (VFS_RES_ERR, s))"

definition vfs_tell :: "('i, 'f) files_lib \<Rightarrow> nat \<Rightarrow> ('i, 'f) file_sys \<Rightarrow> (int \<times> ('i, 'f) file_sys) option" where
  "vfs_tell lib fd s = (if fd \<noteq> 0 then myspiffs_vfs_tell lib fd s else Some (VFS_RES_ERR, s))"

definition vfs_flush :: "('i, 'f) files_lib \<Rightarrow> nat \<Rightarrow> ('i, 'f) file_sys \<Rightarrow> (int \<times> ('i, 'f) file_sys) option" where
  "vfs_flush lib fd s = (if fd \<noteq> 0 then myspiffs_vfs_flush lib fd s else Some (VFS_RES_ERR, s))"

definition vfs_closedir :: "('i, 'f) files_lib \<Rightarrow> nat \<Rightarrow> ('i, 'f) file_sys \<Rightarrow> (int \<times> ('i, 'f) file_sys) option" where
  "vfs_closedir lib dd s = myspiffs_vfs_closedir lib dd s"

definition vfs_readdir ::
    "('i, 'f) files_lib \<Rightarrow> 'i allocator \<Rightarrow> nat \<Rightarrow> ('i, 'f) file_sys \<Rightarrow> (nat \<times> ('i, 'f) file_sys) option" where
  "vfs_readdir lib malloc dd s = myspiffs_vfs_readdir lib malloc dd s"

definition vfs_closeitem :: "nat \<Rightarrow> ('i, 'f) file_sys \<Rightarrow> ('i, 'f) file_sys option" where
  "vfs_closeitem di s = do { _ \<leftarrow> with_item di s; Some (myspiffs_vfs_iclose di s) }"

definition vfs_item_size :: "nat \<Rightarrow> ('i, 'f) file_sys \<Rightarrow> u32 option" where
  "vfs_item_size di s = myspiffs_vfs_isize di s"

definition vfs_item_name :: "nat \<Rightarrow> ('i, 'f) file_sys \<Rightarrow> string option" where
  "vfs_item_name di s = myspiffs_vfs_name di s"

text \<open>
  Queries whose entry in the tables of SPIFFS is NULL: the answer is that of the caller, after it
  has read the table through the descriptor.
\<close>

definition vfs_size :: "nat \<Rightarrow> ('i, 'f) file_sys \<Rightarrow> u32 option" where
  "vfs_size fd s = (if fd \<noteq> 0 then do { _ \<leftarrow> with_file fd s; Some 0 } else Some 0)"

definition item_query :: "int \<Rightarrow> nat \<Rightarrow> ('i, 'f) file_sys \<Rightarrow> int option" where
  "item_query otherwise di s = do { _ \<leftarrow> with_item di s; Some otherwise }"

definition vfs_item_time :: "nat \<Rightarrow> ('i, 'f) file_sys \<Rightarrow> int option" where "vfs_item_time = item_query VFS_RES_ERR"
definition vfs_item_is_dir :: "nat \<Rightarrow> ('i, 'f) file_sys \<Rightarrow> int option" where "vfs_item_is_dir = item_query 0"
definition vfs_item_is_rdonly :: "nat \<Rightarrow> ('i, 'f) file_sys \<Rightarrow> int option" where "vfs_item_is_rdonly = item_query 0"
definition vfs_item_is_hidden :: "nat \<Rightarrow> ('i, 'f) file_sys \<Rightarrow> int option" where "vfs_item_is_hidden = item_query 0"
definition vfs_item_is_sys :: "nat \<Rightarrow> ('i, 'f) file_sys \<Rightarrow> int option" where "vfs_item_is_sys = item_query 0"
definition vfs_item_is_arch :: "nat \<Rightarrow> ('i, 'f) file_sys \<Rightarrow> int option" where "vfs_item_is_arch = item_query 0"

section \<open>vfs.c: operations on names\<close>

definition normalize_path :: "string \<Rightarrow> string" where "normalize_path path = path"

definition vfs_mount ::
    "('g, 'd) volume_io \<Rightarrow> string \<Rightarrow> ('i, ('g, 'd) volume) file_sys \<Rightarrow> (bool \<times> ('i, ('g, 'd) volume) file_sys) option" where
  "vfs_mount io name s =
     (case myspiffs_realm (normalize_path name) False s of
        (Some _, s) \<Rightarrow> myspiffs_vfs_mount io s
      | (None, s) \<Rightarrow> Some (False, s))"

definition vfs_open ::
    "('i, 'f) files_lib \<Rightarrow> 'i allocator \<Rightarrow> string \<Rightarrow> string \<Rightarrow> ('i, 'f) file_sys \<Rightarrow> nat \<times> ('i, 'f) file_sys" where
  "vfs_open lib malloc name m s =
     (case myspiffs_realm (normalize_path name) False s of
        (Some outname, s) \<Rightarrow> myspiffs_vfs_open lib malloc outname m s
      | (None, s) \<Rightarrow> (0, s))"

definition vfs_opendir ::
    "('i, 'f) files_lib \<Rightarrow> 'i allocator \<Rightarrow> string \<Rightarrow> ('i, 'f) file_sys \<Rightarrow> nat \<times> ('i, 'f) file_sys" where
  "vfs_opendir lib malloc name s =
     (case myspiffs_realm (normalize_path name) False s of
        (Some outname, s) \<Rightarrow> myspiffs_vfs_opendir lib malloc outname s
      | (None, s) \<Rightarrow> (0, s))"

definition vfs_stat ::
    "('i, 'f) files_lib \<Rightarrow> 'i allocator \<Rightarrow> string \<Rightarrow> ('i, 'f) file_sys \<Rightarrow> nat \<times> ('i, 'f) file_sys" where
  "vfs_stat lib malloc name s =
     (case myspiffs_realm (normalize_path name) False s of
        (Some outname, s) \<Rightarrow> myspiffs_vfs_stat lib malloc outname s
      | (None, s) \<Rightarrow> (0, s))"

definition vfs_remove :: "('i, 'f) files_lib \<Rightarrow> string \<Rightarrow> ('i, 'f) file_sys \<Rightarrow> int \<times> ('i, 'f) file_sys" where
  "vfs_remove lib name s =
     (case myspiffs_realm (normalize_path name) False s of
        (Some outname, s) \<Rightarrow> myspiffs_vfs_remove lib outname s
      | (None, s) \<Rightarrow> (VFS_RES_ERR, s))"

definition vfs_rename :: "('i, 'f) files_lib \<Rightarrow> string \<Rightarrow> string \<Rightarrow> ('i, 'f) file_sys \<Rightarrow> int \<times> ('i, 'f) file_sys" where
  "vfs_rename lib oldname newname s =
     (case myspiffs_realm (normalize_path oldname) False s of
        (Some oldoutname, s) \<Rightarrow>
          (case myspiffs_realm (normalize_path newname) False s of
             (Some newoutname, s) \<Rightarrow> myspiffs_vfs_rename lib oldoutname newoutname s
           | (None, s) \<Rightarrow> (- 1, s))
      | (None, s) \<Rightarrow> (- 1, s))"

definition vfs_mkdir :: "string \<Rightarrow> int" where "vfs_mkdir name = VFS_RES_ERR"

text \<open>The two results keep their values when the name is on no drive.\<close>

definition vfs_fsinfo ::
    "('i, 'f) files_lib \<Rightarrow> string \<Rightarrow> u32 \<Rightarrow> u32 \<Rightarrow> ('i, 'f) file_sys \<Rightarrow> int \<times> u32 \<times> u32 \<times> ('i, 'f) file_sys" where
  "vfs_fsinfo lib name tot occ s =
     (case myspiffs_realm (normalize_path name) False s of
        (Some _, s) \<Rightarrow> myspiffs_vfs_fsinfo lib s
      | (None, s) \<Rightarrow> (VFS_RES_ERR, tot, occ, s))"

definition vfs_fscfg ::
    "('f \<Rightarrow> spiffs_config) \<Rightarrow> string \<Rightarrow> u32 \<Rightarrow> u32 \<Rightarrow> ('i, 'f) file_sys \<Rightarrow> int \<times> u32 \<times> u32" where
  "vfs_fscfg cfg_of name addr sz s =
     (case myspiffs_realm ''/FLASH'' False s of
        (Some _, s) \<Rightarrow> myspiffs_vfs_fscfg cfg_of s
      | (None, s) \<Rightarrow> (VFS_RES_ERR, addr, sz))"

definition vfs_format ::
    "('g, 'd) volume_io \<Rightarrow> ('i, ('g, 'd) volume) file_sys \<Rightarrow> (int \<times> ('i, ('g, 'd) volume) file_sys) option" where
  "vfs_format io s =
     (case myspiffs_realm ''/FLASH'' False s of
        (Some _, s) \<Rightarrow> myspiffs_vfs_format io s
      | (None, s) \<Rightarrow> Some (0, s))"

text \<open>SPIFFS has no directories: the current one can only be set to the drive itself.\<close>

definition vfs_chdir :: "string \<Rightarrow> ('i, 'f) file_sys \<Rightarrow> int \<times> ('i, 'f) file_sys" where
  "vfs_chdir path s =
     (case myspiffs_realm (normalize_path path) True s of
        (Some outname, s) \<Rightarrow> (if length outname = 0 then VFS_RES_OK else VFS_RES_ERR, s)
      | (None, s) \<Rightarrow> (VFS_RES_ERR, s))"

definition vfs_errno :: "('i, 'f) files_lib \<Rightarrow> string \<Rightarrow> ('i, 'f) file_sys \<Rightarrow> int" where
  "vfs_errno lib name s =
     (case myspiffs_realm (normalize_path name) False s of
        (Some _, s) \<Rightarrow> myspiffs_vfs_errno lib s
      | (None, s) \<Rightarrow> VFS_RES_ERR)"

definition vfs_ferrno :: "('i, 'f) files_lib \<Rightarrow> nat \<Rightarrow> ('i, 'f) file_sys \<Rightarrow> int option" where
  "vfs_ferrno lib fd s =
     (if fd \<noteq> 0 then do { _ \<leftarrow> with_file fd s; Some (myspiffs_vfs_ferrno lib s) }
      else (case myspiffs_realm [] False s of
              (Some _, s) \<Rightarrow> Some (myspiffs_vfs_errno lib s)
            | (None, s) \<Rightarrow> Some 0))"

definition vfs_clearerr :: "('i, 'f) files_lib \<Rightarrow> string \<Rightarrow> ('i, 'f) file_sys \<Rightarrow> ('i, 'f) file_sys" where
  "vfs_clearerr lib name s =
     (case myspiffs_realm (normalize_path name) False s of
        (Some _, s) \<Rightarrow> myspiffs_vfs_clearerr lib s
      | (None, s) \<Rightarrow> s)"

text \<open>The text after the last occurrence of a character: strrchr and the increment after it.\<close>

definition after_last :: "char \<Rightarrow> string \<Rightarrow> string option" where
  "after_last c path = (if c \<in> set path then Some (rev (takeWhile (\<lambda>x. x \<noteq> c) (rev path))) else None)"

definition vfs_basename :: "string \<Rightarrow> string" where
  "vfs_basename path =
     (case after_last (CHR ''/'') path of
        Some basename \<Rightarrow> basename
      | None \<Rightarrow> (case after_last (CHR '':'') path of Some basename \<Rightarrow> basename | None \<Rightarrow> path))"

text \<open>A character that was read successfully is the first of the bytes delivered.\<close>

definition vfs_getc :: "('i, 'f) files_lib \<Rightarrow> nat \<Rightarrow> ('i, 'f) file_sys \<Rightarrow> (int \<times> ('i, 'f) file_sys) option" where
  "vfs_getc lib fd s = do {
     (at_end, s) \<leftarrow> vfs_eof lib fd s;
     if at_end = 0 then do {
       (n, bs, s) \<leftarrow> vfs_read lib fd 1 s;
       if n \<noteq> 1 then Some (VFS_EOF, s)
       else do { c \<leftarrow> get_at bs 0; Some (of_char c, s) }
     } else Some (VFS_EOF, s)
   }"

definition vfs_ungetc :: "('i, 'f) files_lib \<Rightarrow> int \<Rightarrow> nat \<Rightarrow> ('i, 'f) file_sys \<Rightarrow> (int \<times> ('i, 'f) file_sys) option" where
  "vfs_ungetc lib c fd s = vfs_lseek lib fd (- 1) VFS_SEEK_CUR s"

text \<open>The clock callback of the operating system.\<close>

definition vfs_register_rtc_cb :: "('t \<Rightarrow> int \<times> 't) option \<Rightarrow> ('t \<Rightarrow> int \<times> 't) option \<Rightarrow> ('t \<Rightarrow> int \<times> 't) option" where
  "vfs_register_rtc_cb cb rtc_cb = cb"

definition vfs_get_rtc :: "('t \<Rightarrow> int \<times> 't) option \<Rightarrow> 't \<Rightarrow> int \<times> 't" where
  "vfs_get_rtc rtc_cb tm = (case rtc_cb of Some cb \<Rightarrow> cb tm | None \<Rightarrow> (VFS_RES_ERR, tm))"

end
