(* ===== verification/Lua_File.thy ===== *)
theory Lua_File
  imports Vfs Lua_Api "HOL-Library.AList"
begin

text \<open>
  The Lua module of modules/file.c on the virtual file system. A Lua call gets its arguments as
  values and returns the values it pushes or raises an error; both keep the state it left. The
  conversions between numbers and strings, the size of the buffer of lauxlib and malloc are parameters,
  and so is whether the interpreter has the memory for the table of file.list: where it has not, it
  raises an error that leaves the C function at once. (Such errors in the other functions of the
  module, from the strings they build, leave nothing behind but the open file, and are not modelled.)
  A char is eight bits without a sign, as on the Xtensa.
\<close>

section \<open>Arguments\<close>

record ('i, 'g, 'd) files_env =
  lib :: "('i, ('g, 'd) volume) files_lib"
  vol_io :: "('g, 'd) volume_io"
  malloc :: "'i allocator"
  number_text :: number_format
  text_number :: "string \<Rightarrow> int option"
  lua_memory :: "(string \<times> int) list \<Rightarrow> bool"
  LUAL_BUFFERSIZE :: nat

type_synonym ('i, 'g, 'd) file_state = "('i, ('g, 'd) volume) file_sys"
type_synonym ('i, 'g, 'd) lua_result = "((lua_error + lua_value list) \<times> ('i, 'g, 'd) file_state) option"

text \<open>luaL_checklstring and the test of a file name that follows it.\<close>

definition check_filename :: "('i, 'g, 'd) files_env \<Rightarrow> nat \<Rightarrow> lua_value \<Rightarrow> lua_error + string" where
  "check_filename env narg v =
     (case lua_tolstring (number_text env) v of
        None \<Rightarrow> Inl (Arg_error narg ''string expected'')
      | Some fname \<Rightarrow>
          let basename = vfs_basename (c_string fname)
          in if length basename \<le> 32 \<and> length (c_string fname) = length fname then Inr fname
             else Inl (Arg_error narg ''filename invalid''))"

section \<open>The functions of the module\<close>

definition close_open_file :: "('i, 'g, 'd) files_env \<Rightarrow> ('i, 'g, 'd) file_state \<Rightarrow> ('i, 'g, 'd) file_state option" where
  "close_open_file env s =
     (if file_fd s \<noteq> 0 then do {
        (_, s) \<leftarrow> vfs_close (lib env) (file_fd s) s;
        Some (s \<lparr>file_fd := 0\<rparr>)
      } else Some s)"

definition file_open :: "('i, 'g, 'd) files_env \<Rightarrow> lua_value \<Rightarrow> lua_value \<Rightarrow> ('i, 'g, 'd) file_state \<Rightarrow> ('i, 'g, 'd) lua_result" where
  "file_open env a1 a2 s = do {
     s \<leftarrow> close_open_file env s;
     case check_filename env 1 a1 of
       Inl e \<Rightarrow> Some (Inl e, s)
     | Inr fname \<Rightarrow>
         (case luaL_optstring (number_text env) a2 ''r'' of
            None \<Rightarrow> Some (Inl (Arg_error 2 ''string expected''), s)
          | Some m \<Rightarrow>
              (case vfs_open (lib env) (malloc env) fname (c_string m) s of (fd, s) \<Rightarrow>
                 Some (Inr [if fd = 0 then Lua_nil else Lua_boolean True], s \<lparr>file_fd := fd\<rparr>)))
   }"

definition file_close :: "('i, 'g, 'd) files_env \<Rightarrow> ('i, 'g, 'd) file_state \<Rightarrow> ('i, 'g, 'd) lua_result" where
  "file_close env s = do { s \<leftarrow> close_open_file env s; Some (Inr [], s) }"

definition file_format :: "('i, 'g, 'd) files_env \<Rightarrow> ('i, 'g, 'd) file_state \<Rightarrow> ('i, 'g, 'd) lua_result" where
  "file_format env s = do {
     (_, s) \<leftarrow> file_close env s;
     (ok, s) \<leftarrow> vfs_format (vol_io env) s;
     Some (if ok = 0 then Inl (Lua_error ''Failed to format file system'') else Inr [], s)
   }"

text \<open>
  The loop over the directory; it gives no table when there is no memory for one with the next
  entry. A directory that never ends is the value None.
\<close>

partial_function (option) list_loop ::
    "('i, 'g, 'd) files_env \<Rightarrow> nat \<Rightarrow> (string \<times> int) list \<Rightarrow> ('i, 'g, 'd) file_state \<Rightarrow>
       ((string \<times> int) list option \<times> ('i, 'g, 'd) file_state) option" where
  "list_loop env dir tbl s = do {
     (item, s) \<leftarrow> vfs_readdir (lib env) (malloc env) dir s;
     if item = 0 then Some (Some tbl, s)
     else do {
       n \<leftarrow> vfs_item_size item s;
       name \<leftarrow> vfs_item_name item s;
       let tbl = AList.update name (sint n) tbl;
       if \<not> lua_memory env tbl then Some (None, s)
       else do {
         s \<leftarrow> vfs_closeitem item s;
         list_loop env dir tbl s
       }
     }
   }"

definition file_list :: "('i, 'g, 'd) files_env \<Rightarrow> ('i, 'g, 'd) file_state \<Rightarrow> ('i, 'g, 'd) lua_result" where
  "file_list env s =
     (case vfs_opendir (lib env) (malloc env) [] s of (dir, s) \<Rightarrow>
        if dir \<noteq> 0 then
          if \<not> lua_memory env [] then Some (Inl (Lua_error ''not enough memory''), s)
          else do {
            (tbl, s) \<leftarrow> list_loop env dir [] s;
            case tbl of
              None \<Rightarrow> Some (Inl (Lua_error ''not enough memory''), s)
            | Some tbl \<Rightarrow> do {
                (_, s) \<leftarrow> vfs_closedir (lib env) dir s;
                Some (Inr [Lua_table tbl], s)
              }
          }
        else Some (Inr [], s))"

text \<open>
  luaL_checkoption on "set", "cur", "end" with "cur" as default: the value of the array mode at its
  index. The offset is a Lua integer, cast to long and to int32_t.
\<close>

definition seek_whence :: "('i, 'g, 'd) files_env \<Rightarrow> lua_value \<Rightarrow> lua_error + int" where
  "seek_whence env a =
     (case luaL_optstring (number_text env) a ''cur'' of
        None \<Rightarrow> Inl (Arg_error 1 ''string expected'')
      | Some name \<Rightarrow>
          if c_string name = ''set'' then Inr VFS_SEEK_SET
          else if c_string name = ''cur'' then Inr VFS_SEEK_CUR
          else if c_string name = ''end'' then Inr VFS_SEEK_END
          else Inl (Arg_error 1 ''invalid option''))"

definition file_seek :: "('i, 'g, 'd) files_env \<Rightarrow> lua_value \<Rightarrow> lua_value \<Rightarrow> ('i, 'g, 'd) file_state \<Rightarrow> ('i, 'g, 'd) lua_result" where
  "file_seek env a1 a2 s =
     (if file_fd s = 0 then Some (Inl (Lua_error ''open a file first''), s)
      else case seek_whence env a1 of
        Inl e \<Rightarrow> Some (Inl e, s)
      | Inr whence \<Rightarrow>
          (case luaL_optlong (text_number env) a2 0 of
             None \<Rightarrow> Some (Inl (Arg_error 2 ''number expected''), s)
           | Some offset \<Rightarrow> do {
               (op, s) \<leftarrow> vfs_lseek (lib env) (file_fd s) offset whence s;
               if op < 0 then Some (Inr [Lua_nil], s)
               else do {
                 (p, s) \<leftarrow> vfs_tell (lib env) (file_fd s) s;
                 Some (Inr [Lua_integer p], s)
               }
             }))"

definition file_remove :: "('i, 'g, 'd) files_env \<Rightarrow> lua_value \<Rightarrow> ('i, 'g, 'd) file_state \<Rightarrow> ('i, 'g, 'd) lua_result" where
  "file_remove env a1 s =
     (case check_filename env 1 a1 of
        Inl e \<Rightarrow> Some (Inl e, s)
      | Inr fname \<Rightarrow> do {
          (_, s) \<leftarrow> file_close env s;
          (case vfs_remove (lib env) fname s of (_, s) \<Rightarrow> Some (Inr [], s))
        })"

definition file_flush :: "('i, 'g, 'd) files_env \<Rightarrow> ('i, 'g, 'd) file_state \<Rightarrow> ('i, 'g, 'd) lua_result" where
  "file_flush env s =
     (if file_fd s = 0 then Some (Inl (Lua_error ''open a file first''), s)
      else do {
        (res, s) \<leftarrow> vfs_flush (lib env) (file_fd s) s;
        Some (Inr [if res = 0 then Lua_boolean True else Lua_nil], s)
      })"

definition file_rename :: "('i, 'g, 'd) files_env \<Rightarrow> lua_value \<Rightarrow> lua_value \<Rightarrow> ('i, 'g, 'd) file_state \<Rightarrow> ('i, 'g, 'd) lua_result" where
  "file_rename env a1 a2 s = do {
     s \<leftarrow> close_open_file env s;
     case check_filename env 1 a1 of
       Inl e \<Rightarrow> Some (Inl e, s)
     | Inr oldname \<Rightarrow>
         (case check_filename env 2 a2 of
            Inl e \<Rightarrow> Some (Inl e, s)
          | Inr newname \<Rightarrow>
              (case vfs_rename (lib env) oldname newname s of (res, s) \<Rightarrow>
                 Some (Inr [Lua_boolean (0 \<le> res)], s)))
   }"

text \<open>
  The locals total and used are not initialised; they are only read after vfs_fsinfo has returned 0,
  when the library has set them.
\<close>

definition file_fsinfo :: "('i, 'g, 'd) files_env \<Rightarrow> ('i, 'g, 'd) file_state \<Rightarrow> ('i, 'g, 'd) lua_result" where
  "file_fsinfo env s =
     (case vfs_fsinfo (lib env) [] 0 0 s of (res, tot, occ, s) \<Rightarrow>
        if res \<noteq> 0 then Some (Inl (Lua_error ''file system failed''), s)
        else if 0x7FFFFFFF < tot \<or> 0x7FFFFFFF < occ \<or> tot < occ then Some (Inl (Lua_error ''file system error''), s)
        else Some (Inr [Lua_integer (sint (tot - occ)), Lua_integer (sint occ), Lua_integer (sint tot)], s))"

text \<open>
  The loop that looks for the end character in the first n characters of the buffer, from i; it
  gives i after the loop. What vfs_read did not deliver is not in the list.
\<close>

function g_read_scan :: "string \<Rightarrow> int \<Rightarrow> int \<Rightarrow> int \<Rightarrow> int option" where
  "g_read_scan p n end_char i =
     (if i < n then do {
        c \<leftarrow> get_at p (nat i);
        if of_char c = end_char then Some (i + 1) else g_read_scan p n end_char (i + 1)
      } else Some i)"
  by auto
termination by (relation "measure (\<lambda>(p, n, e, i). nat (n - i))") auto

declare g_read_scan.simps [simp del]

definition file_g_read :: "('i, 'g, 'd) files_env \<Rightarrow> int \<Rightarrow> int \<Rightarrow> ('i, 'g, 'd) file_state \<Rightarrow> ('i, 'g, 'd) lua_result" where
  "file_g_read env n end_char s = do {
     let n = (if n \<le> 0 \<or> int (LUAL_BUFFERSIZE env) < n then int (LUAL_BUFFERSIZE env) else n);
     let end_char = (if end_char < 0 \<or> 255 < end_char then - 1 else end_char);
     if file_fd s = 0 then Some (Inl (Lua_error ''open a file first''), s)
     else do {
       (n, p, s) \<leftarrow> vfs_read (lib env) (file_fd s) (nat n) s;
       i \<leftarrow> g_read_scan p n end_char 0;
       if i = 0 then Some (Inr [], s)
       else do {
         (_, s) \<leftarrow> vfs_lseek (lib env) (file_fd s) (- (n - i)) VFS_SEEK_CUR s;
         Some (Inr [Lua_string (take (nat i) p)], s)
       }
     }
   }"

text \<open>file.read of a number: need_len is unsigned.\<close>

definition read_number :: "('i, 'g, 'd) files_env \<Rightarrow> int \<Rightarrow> ('i, 'g, 'd) file_state \<Rightarrow> ('i, 'g, 'd) lua_result" where
  "read_number env n s =
     (let need_len = uint (word_of_int n :: u32);
          need_len = (if int (LUAL_BUFFERSIZE env) < need_len then int (LUAL_BUFFERSIZE env) else need_len)
      in file_g_read env need_len (- 1) s)"

definition file_read :: "('i, 'g, 'd) files_env \<Rightarrow> lua_value \<Rightarrow> ('i, 'g, 'd) file_state \<Rightarrow> ('i, 'g, 'd) lua_result" where
  "file_read env a s =
     (case a of
        Lua_integer n \<Rightarrow> read_number env n s
      | Lua_fraction m n \<Rightarrow> read_number env (lua_trunc m n) s
      | Lua_string t \<Rightarrow>
          (if length t \<noteq> 1 then Some (Inl (Lua_error ''wrong arg range''), s)
           else file_g_read env (int (LUAL_BUFFERSIZE env)) (of_char (hd t)) s)
      | _ \<Rightarrow> file_g_read env (int (LUAL_BUFFERSIZE env)) (- 1) s)"

definition file_readline :: "('i, 'g, 'd) files_env \<Rightarrow> ('i, 'g, 'd) file_state \<Rightarrow> ('i, 'g, 'd) lua_result" where
  "file_readline env s = file_g_read env (int (LUAL_BUFFERSIZE env)) (of_char (CHR 0x0A)) s"

text \<open>The result of vfs_write is compared as a size_t.\<close>

definition file_write :: "('i, 'g, 'd) files_env \<Rightarrow> lua_value \<Rightarrow> ('i, 'g, 'd) file_state \<Rightarrow> ('i, 'g, 'd) lua_result" where
  "file_write env a s =
     (if file_fd s = 0 then Some (Inl (Lua_error ''open a file first''), s)
      else case lua_tolstring (number_text env) a of
        None \<Rightarrow> Some (Inl (Arg_error 1 ''string expected''), s)
      | Some t \<Rightarrow> do {
          (rl, s) \<leftarrow> vfs_write (lib env) (file_fd s) t s;
          Some (Inr [if (word_of_int rl :: u32) = of_nat (length t) then Lua_boolean True else Lua_nil], s)
        })"

definition file_writeline :: "('i, 'g, 'd) files_env \<Rightarrow> lua_value \<Rightarrow> ('i, 'g, 'd) file_state \<Rightarrow> ('i, 'g, 'd) lua_result" where
  "file_writeline env a s =
     (if file_fd s = 0 then Some (Inl (Lua_error ''open a file first''), s)
      else case lua_tolstring (number_text env) a of
        None \<Rightarrow> Some (Inl (Arg_error 1 ''string expected''), s)
      | Some t \<Rightarrow> do {
          (rl, s) \<leftarrow> vfs_write (lib env) (file_fd s) t s;
          if (word_of_int rl :: u32) = of_nat (length t) then do {
            (rl, s) \<leftarrow> vfs_write (lib env) (file_fd s) [CHR 0x0A] s;
            Some (Inr [if (word_of_int rl :: u32) = 1 then Lua_boolean True else Lua_nil], s)
          } else Some (Inr [Lua_nil], s)
        })"

text \<open>Sequences of calls.\<close>

datatype file_call =
  F_list | F_open lua_value lua_value | F_close | F_write lua_value | F_writeline lua_value
| F_read lua_value | F_readline | F_format | F_remove lua_value | F_seek lua_value lua_value
| F_flush | F_rename lua_value lua_value | F_fsinfo

definition file_map :: "('i, 'g, 'd) files_env \<Rightarrow> file_call \<Rightarrow> ('i, 'g, 'd) file_state \<Rightarrow> ('i, 'g, 'd) lua_result" where
  "file_map env c s =
     (case c of
        F_list \<Rightarrow> file_list env s
      | F_open a b \<Rightarrow> file_open env a b s
      | F_close \<Rightarrow> file_close env s
      | F_write a \<Rightarrow> file_write env a s
      | F_writeline a \<Rightarrow> file_writeline env a s
      | F_read a \<Rightarrow> file_read env a s
      | F_readline \<Rightarrow> file_readline env s
      | F_format \<Rightarrow> file_format env s
      | F_remove a \<Rightarrow> file_remove env a s
      | F_seek a b \<Rightarrow> file_seek env a b s
      | F_flush \<Rightarrow> file_flush env s
      | F_rename a b \<Rightarrow> file_rename env a b s
      | F_fsinfo \<Rightarrow> file_fsinfo env s)"

fun file_run :: "('i, 'g, 'd) files_env \<Rightarrow> file_call list \<Rightarrow> ('i, 'g, 'd) file_state \<Rightarrow>
    ((lua_error + lua_value list) list \<times> ('i, 'g, 'd) file_state) option" where
  "file_run env [] s = Some ([], s)"
| "file_run env (c # cs) s = do {
     (r, s) \<leftarrow> file_map env c s;
     (rs, s) \<leftarrow> file_run env cs s;
     Some (r # rs, s)
   }"

end
