(* ===== verification/Lua_File_Props.thy ===== *)
theory Lua_File_Props
  imports Lua_File
begin

text \<open>
  Properties of the Lua file module: what its calls leave allocated, how they fail, and what
  reading lines and writing them does to the contents of a file.
\<close>

section \<open>Descriptors\<close>

text \<open>malloc gives an address that is not NULL and not in use.\<close>

definition malloc_law :: "'i allocator \<Rightarrow> bool" where
  "malloc_law m \<longleftrightarrow> (\<forall>h a. m h = Some a \<longrightarrow> a \<noteq> 0 \<and> h a = None)"

text \<open>The entries the library gives until a directory ends; their names fit the field for them.\<close>

inductive dir_reads :: "('i, 'f) files_lib \<Rightarrow> 'i \<Rightarrow> 'f \<Rightarrow> (u32 \<times> string) list \<Rightarrow> bool" for l where
  dir_end: "SPIFFS_readdir l d f = (None, d', f') \<Longrightarrow> dir_reads l d f []"
| dir_entry: "SPIFFS_readdir l d f = (Some (n, name), d', f') \<Longrightarrow> length name < SPIFFS_OBJ_NAME_LEN \<Longrightarrow>
    dir_reads l d' f' es \<Longrightarrow> dir_reads l d f ((n, name) # es)"

definition dirs_end :: "('i, 'f) files_lib \<Rightarrow> bool" where
  "dirs_end l \<longleftrightarrow> (\<forall>d f. \<exists>es. dir_reads l d f es)"

text \<open>The heap holds the descriptor of the open file, if there is one, and nothing else.\<close>

definition files_inv :: "('i, 'f) file_sys \<Rightarrow> bool" where
  "files_inv s \<longleftrightarrow>
     (if file_fd s = 0 then heap s = Map.empty
      else \<exists>fh. heap s = [file_fd s \<mapsto> File VFS_FS_SPIFFS fh])"

named_theorems vfs_defs \<open>the functions of a descriptor down to the library call\<close>
lemmas [vfs_defs] =
  vfs_close_def myspiffs_vfs_close_def vfs_read_def myspiffs_vfs_read_def
  vfs_write_def myspiffs_vfs_write_def vfs_lseek_def myspiffs_vfs_lseek_def vfs_tell_def myspiffs_vfs_tell_def
  vfs_flush_def myspiffs_vfs_flush_def free_desc_def

lemma realm_state [simp]: "snd (myspiffs_realm path False s) = s"
  by (simp add: myspiffs_realm_def Let_def)

lemma realm_case [simp]:
  "(case myspiffs_realm path False s of (None, s) \<Rightarrow> f s | (Some n, s) \<Rightarrow> g n s)
     = (case fst (myspiffs_realm path False s) of None \<Rightarrow> f s | Some n \<Rightarrow> g n s)"
  by (cases "myspiffs_realm path False s") (use realm_state [of path s] in \<open>simp split: option.splits\<close>)

lemma with_file_inv: "files_inv s \<Longrightarrow> file_fd s \<noteq> 0 \<Longrightarrow> \<exists>fh. with_file (file_fd s) s = Some fh"
  by (auto simp: files_inv_def with_file_def)

lemma close_open_inv:
  assumes "files_inv s"
  obtains s' where "close_open_file env s = Some s'" "file_fd s' = 0" "heap s' = Map.empty"
    "is_current_drive s' = is_current_drive s"
proof (cases "file_fd s = 0")
  case True then show thesis using assms that [of s] by (simp add: close_open_file_def files_inv_def)
next
  case False
  with assms obtain fh where h: "heap s = [file_fd s \<mapsto> File VFS_FS_SPIFFS fh]" by (auto simp: files_inv_def)
  obtain r f where c: "SPIFFS_close (lib env) fh (spiffs s) = (r, f)" by fastforce
  show thesis
    using False h c that [of "s \<lparr>spiffs := f, heap := Map.empty, file_fd := 0\<rparr>"]
    by (simp add: close_open_file_def vfs_defs with_file_def)
qed

lemma open_inv:
  assumes "malloc_law (malloc env)" "file_fd s = 0" "heap s = Map.empty"
    and "vfs_open (lib env) (malloc env) name m s = (fd, s')"
  shows "files_inv (s' \<lparr>file_fd := fd\<rparr>)"
  using assms
  by (auto simp: vfs_open_def myspiffs_vfs_open_def Let_def files_inv_def malloc_law_def
      split: option.splits prod.splits if_splits)

section \<open>Listing a directory\<close>

definition add_entries :: "(u32 \<times> string) list \<Rightarrow> (string \<times> int) list \<Rightarrow> (string \<times> int) list" where
  "add_entries es tbl = fold (\<lambda>(n, name). AList.update name (sint n)) es tbl"

lemma add_entries_Cons [simp]:
  "add_entries [] tbl = tbl" "add_entries ((n, name) # es) tbl = add_entries es (AList.update name (sint n) tbl)"
  by (simp_all add: add_entries_def)

lemma same_state: "heap s dir = Some x \<Longrightarrow> s \<lparr>spiffs := spiffs s, heap := (heap s)(dir \<mapsto> x)\<rparr> = s"
  by (cases s) (simp add: fun_upd_idem)

lemma readdir_end:
  assumes "heap s dir = Some (Dir ty d)" "malloc env (heap s) = None"
  shows "list_loop env dir tbl s = Some (Some tbl, s)"
  using assms by (subst list_loop.simps) (simp add: vfs_readdir_def myspiffs_vfs_readdir_def with_dir_def)

lemma readdir_last:
  assumes "heap s dir = Some (Dir ty d)" "SPIFFS_readdir (lib env) d (spiffs s) = (None, d', f')"
    and "malloc env (heap s) = Some a"
  shows "list_loop env dir tbl s = Some (Some tbl, s \<lparr>spiffs := f', heap := (heap s)(dir \<mapsto> Dir ty d')\<rparr>)"
  using assms by (subst list_loop.simps) (simp add: vfs_readdir_def myspiffs_vfs_readdir_def with_dir_def)

lemma readdir_next:
  assumes "heap s dir = Some (Dir ty d)" "SPIFFS_readdir (lib env) d (spiffs s) = (Some (n, name), d', f')"
    and "length name < SPIFFS_OBJ_NAME_LEN" "malloc env (heap s) = Some a" "malloc_law (malloc env)"
    and "\<forall>t. lua_memory env t"
  shows "list_loop env dir tbl s =
    list_loop env dir (AList.update name (sint n) tbl) (s \<lparr>spiffs := f', heap := (heap s)(dir \<mapsto> Dir ty d')\<rparr>)"
proof -
  have a: "a \<noteq> 0" "heap s a = None" using assms(4,5) by (simp_all add: malloc_law_def)
  with assms(1) have "a \<noteq> dir" by auto
  with a have h: "((heap s)(dir \<mapsto> Dir ty d'))(a := None) = (heap s)(dir \<mapsto> Dir ty d')" by (auto simp: fun_eq_iff)
  show ?thesis
    using assms(1-4,6) a(1) h
    by (subst list_loop.simps)
      (simp add: vfs_readdir_def myspiffs_vfs_readdir_def with_dir_def with_item_def vfs_item_size_def myspiffs_vfs_isize_def
        vfs_item_name_def myspiffs_vfs_name_def vfs_closeitem_def myspiffs_vfs_iclose_def free_desc_def Let_def)
qed

lemma list_loop_ok:
  assumes "dir_reads (lib env) d f es" "malloc_law (malloc env)" "\<forall>t. lua_memory env t"
    and "heap s dir = Some (Dir ty d)" "spiffs s = f"
  shows "\<exists>k d' f'. list_loop env dir tbl s =
      Some (Some (add_entries (take k es) tbl), s \<lparr>spiffs := f', heap := (heap s)(dir \<mapsto> Dir ty d')\<rparr>) \<and>
    ((\<forall>h. malloc env h \<noteq> None) \<longrightarrow> k = length es)"
  using assms
proof (induction arbitrary: s tbl rule: dir_reads.induct)
  case (dir_end d f d' f')
  show ?case
  proof (cases "malloc env (heap s)")
    case None
    then have "list_loop env dir tbl s =
        Some (Some (add_entries (take 0 []) tbl), s \<lparr>spiffs := spiffs s, heap := (heap s)(dir \<mapsto> Dir ty d)\<rparr>)"
      using readdir_end [of s dir ty d env tbl] dir_end.prems(3) by (simp only: same_state take_0 add_entries_Cons)
    with None show ?thesis by blast
  next
    case (Some a)
    with readdir_last [of s dir ty d env d' f' a tbl] dir_end
    show ?thesis by (intro exI [of _ 0] exI [of _ d'] exI [of _ f']) (simp add: fun_upd_def)
  qed
next
  case (dir_entry d f n name d' f' es)
  show ?case
  proof (cases "malloc env (heap s)")
    case None
    then have "list_loop env dir tbl s =
        Some (Some (add_entries (take 0 ((n, name) # es)) tbl), s \<lparr>spiffs := spiffs s, heap := (heap s)(dir \<mapsto> Dir ty d)\<rparr>)"
      using readdir_end [of s dir ty d env tbl] dir_entry.prems(3) by (simp only: same_state take_0 add_entries_Cons)
    with None show ?thesis by blast
  next
    case (Some a)
    let ?s = "s \<lparr>spiffs := f', heap := (heap s)(dir \<mapsto> Dir ty d')\<rparr>"
    have "heap ?s dir = Some (Dir ty d')" "spiffs ?s = f'" by simp_all
    from dir_entry.IH [OF dir_entry.prems(1,2) this, of "AList.update name (sint n) tbl"] obtain k d'' f'' where
      "list_loop env dir (AList.update name (sint n) tbl) ?s =
         Some (Some (add_entries (take k es) (AList.update name (sint n) tbl)), ?s \<lparr>spiffs := f'', heap := (heap ?s)(dir \<mapsto> Dir ty d'')\<rparr>)"
      "(\<forall>h. malloc env h \<noteq> None) \<longrightarrow> k = length es"
      by blast
    with readdir_next [of s dir ty d env n name d' f' a tbl] dir_entry Some show ?thesis
      by (intro exI [of _ "Suc k"] exI [of _ d''] exI [of _ f'']) (simp add: fun_upd_def cong: if_cong)
  qed
qed

lemma opendir_cases:
  assumes o: "vfs_opendir l m name s = (dir, s')" and m: "malloc_law m"
  shows "(\<exists>f. dir = 0 \<and> s' = s \<lparr>spiffs := f\<rparr>) \<or>
    (\<exists>d f. dir \<noteq> 0 \<and> heap s dir = None \<and> s' = s \<lparr>spiffs := f, heap := (heap s)(dir \<mapsto> Dir VFS_FS_SPIFFS d)\<rparr>)"
proof (cases "fst (myspiffs_realm (normalize_path name) False s)")
  case None
  then have "dir = 0" "s' = s \<lparr>spiffs := spiffs s\<rparr>" using o by (simp_all add: vfs_opendir_def)
  then show ?thesis by blast
next
  case (Some n)
  show ?thesis
  proof (cases "m (heap s)")
    case None
    then have "dir = 0" "s' = s \<lparr>spiffs := spiffs s\<rparr>"
      using o Some by (simp_all add: vfs_opendir_def myspiffs_vfs_opendir_def)
    then show ?thesis by blast
  next
    case a: (Some a)
    obtain r f where r: "SPIFFS_opendir l n (spiffs s) = (r, f)" by fastforce
    show ?thesis
      using o Some a r m by (cases r) (auto simp: vfs_opendir_def myspiffs_vfs_opendir_def malloc_law_def Let_def)
  qed
qed

text \<open>
  The list of files, where the interpreter has the memory for the table: every entry of the
  directory, unless malloc failed for one of them; then the listing ends there without an error.
\<close>

lemma file_list_ok:
  assumes "dirs_end (lib env)" "malloc_law (malloc env)" "\<forall>t. lua_memory env t"
  shows "\<exists>r f. file_list env s = Some (Inr r, s \<lparr>spiffs := f\<rparr>) \<and>
    (r = [] \<or> (\<exists>d f es k. r = [Lua_table (add_entries (take k es) [])] \<and> dir_reads (lib env) d f es \<and>
       ((\<forall>h. malloc env h \<noteq> None) \<longrightarrow> k = length es)))"
proof -
  obtain dir s1 where o: "vfs_opendir (lib env) (malloc env) [] s = (dir, s1)" by fastforce
  consider (null) f where "dir = 0" "s1 = s \<lparr>spiffs := f\<rparr>"
    | (opened) d f where "dir \<noteq> 0" "heap s dir = None" "s1 = s \<lparr>spiffs := f, heap := (heap s)(dir \<mapsto> Dir VFS_FS_SPIFFS d)\<rparr>"
    using opendir_cases [OF o assms(2)] by blast
  then show ?thesis
  proof cases
    case null
    then show ?thesis using o by (auto simp: file_list_def)
  next
    case (opened d f)
    obtain es where es: "dir_reads (lib env) d (spiffs s1) es" using assms(1) by (auto simp: dirs_end_def)
    have "heap s1 dir = Some (Dir VFS_FS_SPIFFS d)" using opened(3) by simp
    from list_loop_ok [OF es assms(2,3) this refl, of "[]"] obtain k d' f' where
      l: "list_loop env dir [] s1 = Some (Some (add_entries (take k es) []), s1 \<lparr>spiffs := f', heap := (heap s1)(dir \<mapsto> Dir VFS_FS_SPIFFS d')\<rparr>)"
        "(\<forall>h. malloc env h \<noteq> None) \<longrightarrow> k = length es"
      by blast
    obtain r f'' where c: "SPIFFS_closedir (lib env) d' f' = (r, f'')" by fastforce
    have "(heap s)(dir := None) = heap s" using opened(2) by (simp add: fun_upd_idem)
    then have "file_list env s = Some (Inr [Lua_table (add_entries (take k es) [])], s \<lparr>spiffs := f''\<rparr>)"
      using opened o l c assms(3)
      by (simp add: file_list_def vfs_closedir_def myspiffs_vfs_closedir_def with_dir_def free_desc_def)
    then show ?thesis using es l(2) by blast
  qed
qed

section \<open>No descriptor is lost, whatever is called\<close>

lemma files_invI: "file_fd s = 0 \<Longrightarrow> heap s = Map.empty \<Longrightarrow> files_inv s"
  by (simp add: files_inv_def)

text \<open>A step that only touches the library's state or the current drive keeps the invariant.\<close>

lemma files_inv_frame [simp]:
  "files_inv (s \<lparr>spiffs := f\<rparr>) = files_inv s"
  by (simp add: files_inv_def)

definition call_ok :: "('i, 'g, 'd) lua_result \<Rightarrow> bool" where
  "call_ok r \<longleftrightarrow> (\<exists>v s. r = Some (v, s) \<and> files_inv s)"

lemma call_okI [intro]: "files_inv s \<Longrightarrow> call_ok (Some (v, s))"
  by (simp add: call_ok_def)

lemma open_ok:
  assumes "malloc_law (malloc env)" "files_inv s"
  shows "call_ok (file_open env a b s)"
proof -
  obtain s1 where s1: "close_open_file env s = Some s1" "file_fd s1 = 0" "heap s1 = Map.empty"
    using close_open_inv [OF assms(2)] by metis
  show ?thesis
  proof (cases "check_filename env 1 a")
    case (Inl e)
    then show ?thesis using s1 by (simp add: file_open_def call_ok_def files_invI)
  next
    case (Inr fname)
    show ?thesis
    proof (cases "luaL_optstring (number_text env) b ''r''")
      case None
      then show ?thesis using s1 Inr by (simp add: file_open_def call_ok_def files_invI)
    next
      case (Some m)
      obtain fd s2 where o: "vfs_open (lib env) (malloc env) fname (c_string m) s1 = (fd, s2)" by fastforce
      from open_inv [OF assms(1) s1(2,3) o] o Some Inr s1(1)
      show ?thesis by (simp add: file_open_def call_ok_def)
    qed
  qed
qed

lemma close_ok: "files_inv s \<Longrightarrow> call_ok (file_close env s)"
  by (rule close_open_inv [of s env]) (auto simp: file_close_def files_invI)

lemma remove_ok:
  assumes "files_inv s"
  shows "call_ok (file_remove env a s)"
proof -
  obtain s1 where s1: "close_open_file env s = Some s1" "file_fd s1 = 0" "heap s1 = Map.empty"
    using close_open_inv [OF assms] by metis
  show ?thesis
    using s1 assms
    by (auto simp: file_remove_def file_close_def vfs_remove_def myspiffs_vfs_remove_def call_ok_def files_invI
        split: sum.splits option.splits prod.splits)
qed

lemma rename_ok:
  assumes "files_inv s"
  shows "call_ok (file_rename env a b s)"
proof -
  obtain s1 where s1: "close_open_file env s = Some s1" "file_fd s1 = 0" "heap s1 = Map.empty"
    using close_open_inv [OF assms] by metis
  show ?thesis
    using s1
    by (auto simp: file_rename_def vfs_rename_def myspiffs_vfs_rename_def call_ok_def files_invI
        split: sum.splits option.splits prod.splits)
qed

lemma scan_ok:
  assumes "n \<le> int (length p)" "0 \<le> i"
  shows "\<exists>j. g_read_scan p n e i = Some j \<and> (i \<le> j \<and> (i < n \<longrightarrow> j \<le> n))"
  using assms
proof (induction p n e i rule: g_read_scan.induct)
  case (1 p n e i)
  show ?case
  proof (cases "i < n")
    case False
    then show ?thesis by (subst g_read_scan.simps) simp
  next
    case True
    then have l: "nat i < length p" using 1(2,3) by linarith
    show ?thesis
    proof (cases "of_char (p ! nat i) = e")
      case t: True
      then show ?thesis using True l by (subst g_read_scan.simps) (simp add: mem_simps)
    next
      case f: False
      have "\<exists>j. g_read_scan p n e (i + 1) = Some j \<and> i + 1 \<le> j \<and> (i + 1 < n \<longrightarrow> j \<le> n)"
        by (rule 1(1) [OF True, of "p ! nat i"]) (use l f 1(2,3) in \<open>auto simp: mem_simps\<close>)
      then obtain j where j: "g_read_scan p n e (i + 1) = Some j" "i + 1 \<le> j" "i + 1 < n \<longrightarrow> j \<le> n" by blast
      have "j \<le> n"
      proof (cases "i + 1 < n")
        case False
        then have "g_read_scan p n e (i + 1) = Some (i + 1)" by (subst g_read_scan.simps) simp
        with j(1) True show ?thesis by simp
      qed (use j(3) in blast)
      with j show ?thesis using True l f by (subst g_read_scan.simps) (simp add: mem_simps)
    qed
  qed
qed

text \<open>The library reports how many characters it has delivered.\<close>

definition read_law :: "('i, 'f) files_lib \<Rightarrow> bool" where
  "read_law l \<longleftrightarrow> (\<forall>fh n f. case SPIFFS_read l fh n f of (r, bs, _) \<Rightarrow> r \<le> int (length bs))"

lemma g_read_ok:
  assumes "files_inv s" "read_law (lib env)"
  shows "call_ok (file_g_read env n e s)"
proof (cases "file_fd s = 0")
  case True
  with assms show ?thesis by (auto simp: file_g_read_def Let_def)
next
  case False
  then obtain fh where fh: "with_file (file_fd s) s = Some fh" using with_file_inv assms(1) by blast
  define m where "m = (if n \<le> 0 \<or> int (LUAL_BUFFERSIZE env) < n then int (LUAL_BUFFERSIZE env) else n)"
  define c where "c = (if e < 0 \<or> 255 < e then - 1 else e)"
  obtain r bs f where r: "SPIFFS_read (lib env) fh (nat m) (spiffs s) = (r, bs, f)" by (metis prod_cases3)
  have "r \<le> int (length bs)"
    using assms(2) [unfolded read_law_def, rule_format, of fh "nat m" "spiffs s"] r by simp
  from scan_ok [OF this order_refl, of c] obtain i where i: "g_read_scan bs r c 0 = Some i" by blast
  obtain r' f' where k: "SPIFFS_lseek (lib env) fh (- (r - i)) SPIFFS_SEEK_CUR f = (r', f')" by fastforce
  show ?thesis
    using False fh r i k assms(1)
    by (auto simp: file_g_read_def Let_def vfs_defs with_file_def call_ok_def m_def [symmetric] c_def [symmetric]
        split: option.splits descriptor.splits)
qed

lemma read_ok: "files_inv s \<Longrightarrow> read_law (lib env) \<Longrightarrow> call_ok (file_read env a s)"
  by (cases a) (simp_all add: file_read_def read_number_def Let_def g_read_ok call_okI)

lemma readline_ok: "files_inv s \<Longrightarrow> read_law (lib env) \<Longrightarrow> call_ok (file_readline env s)"
  by (simp add: file_readline_def g_read_ok)

lemma vfs_write_ok:
  assumes "files_inv s" "file_fd s \<noteq> 0"
  obtains r f where "vfs_write (lib env) (file_fd s) t s = Some (r, s \<lparr>spiffs := f\<rparr>)"
proof -
  obtain fh where fh: "with_file (file_fd s) s = Some fh" using with_file_inv assms by blast
  obtain r f where "SPIFFS_write (lib env) fh t (spiffs s) = (r, f)" by fastforce
  with that fh assms(2) show thesis by (simp add: vfs_defs)
qed

lemma write_ok:
  assumes "files_inv s"
  shows "call_ok (file_write env a s)"
proof (cases "file_fd s = 0 \<or> lua_tolstring (number_text env) a = None")
  case True
  then show ?thesis using assms by (auto simp: file_write_def)
next
  case False
  then obtain t where t: "lua_tolstring (number_text env) a = Some t" and fd: "file_fd s \<noteq> 0" by auto
  obtain r f where "vfs_write (lib env) (file_fd s) t s = Some (r, s \<lparr>spiffs := f\<rparr>)"
    using vfs_write_ok [OF assms fd] .
  then show ?thesis using assms t fd by (auto simp: file_write_def)
qed

lemma writeline_ok:
  assumes "files_inv s"
  shows "call_ok (file_writeline env a s)"
proof (cases "file_fd s = 0 \<or> lua_tolstring (number_text env) a = None")
  case True
  then show ?thesis using assms by (auto simp: file_writeline_def)
next
  case False
  then obtain t where t: "lua_tolstring (number_text env) a = Some t" and fd: "file_fd s \<noteq> 0" by auto
  obtain r f where w: "vfs_write (lib env) (file_fd s) t s = Some (r, s \<lparr>spiffs := f\<rparr>)"
    using vfs_write_ok [OF assms fd] .
  have "files_inv (s \<lparr>spiffs := f\<rparr>)" "file_fd (s \<lparr>spiffs := f\<rparr>) \<noteq> 0" using assms fd by simp_all
  from vfs_write_ok [OF this, of env "[CHR 0x0A]"] obtain r' f' where
    "vfs_write (lib env) (file_fd s) [CHR 0x0A] (s \<lparr>spiffs := f\<rparr>) = Some (r', s \<lparr>spiffs := f'\<rparr>)" by auto
  then show ?thesis using assms t fd w by (auto simp: file_writeline_def)
qed

lemma seek_ok:
  assumes "files_inv s"
  shows "call_ok (file_seek env a b s)"
proof (cases "file_fd s = 0")
  case True
  then show ?thesis using assms by (auto simp: file_seek_def)
next
  case False
  then obtain fh where fh: "with_file (file_fd s) s = Some fh" using with_file_inv assms by blast
  have fh': "with_file (file_fd s) (s \<lparr>spiffs := f\<rparr>) = Some fh" for f using fh by (simp add: with_file_def)
  show ?thesis
    using False fh fh' assms
    by (auto simp: file_seek_def vfs_defs Let_def split: sum.splits option.splits prod.splits)
qed

lemma flush_ok:
  assumes "files_inv s"
  shows "call_ok (file_flush env s)"
proof (cases "file_fd s = 0")
  case True
  then show ?thesis using assms by (auto simp: file_flush_def)
next
  case False
  then obtain fh where fh: "with_file (file_fd s) s = Some fh" using with_file_inv assms by blast
  show ?thesis
    using False fh assms by (auto simp: file_flush_def vfs_defs split: prod.splits)
qed

lemma fsinfo_ok: "files_inv s \<Longrightarrow> call_ok (file_fsinfo env s)"
  by (auto simp: file_fsinfo_def vfs_fsinfo_def myspiffs_vfs_fsinfo_def split: option.splits prod.splits)

lemma list_ok:
  assumes "files_inv s" "dirs_end (lib env)" "malloc_law (malloc env)" "\<forall>t. lua_memory env t"
  shows "call_ok (file_list env s)"
proof -
  obtain r f where "file_list env s = Some (Inr r, s \<lparr>spiffs := f\<rparr>)"
    using file_list_ok [OF assms(2-4), of s] by blast
  then show ?thesis using assms(1) by (simp add: call_okI)
qed

lemma format_ok:
  assumes "files_inv s" "file_format env s = Some (r, s')"
  shows "files_inv s'"
proof -
  obtain s1 where s1: "close_open_file env s = Some s1" "file_fd s1 = 0" "heap s1 = Map.empty"
    using close_open_inv [OF assms(1)] by metis
  then show ?thesis
    using assms(2)
    by (auto simp: file_format_def file_close_def vfs_format_def myspiffs_vfs_format_def files_invI bind_eq_Some_conv
        split: option.splits if_splits)
qed

lemma file_map_ok:
  assumes "files_inv s" "malloc_law (malloc env)" "dirs_end (lib env)" "read_law (lib env)" "\<forall>t. lua_memory env t" "c \<noteq> F_format"
  shows "call_ok (file_map env c s)"
  using assms
  by (cases c) (simp_all add: file_map_def list_ok open_ok close_ok write_ok writeline_ok read_ok readline_ok remove_ok seek_ok
      flush_ok rename_ok fsinfo_ok)

lemma file_run_ok:
  assumes "files_inv s" "malloc_law (malloc env)" "dirs_end (lib env)" "read_law (lib env)" "\<forall>t. lua_memory env t"
  shows "(F_format \<notin> set cs \<longrightarrow> file_run env cs s \<noteq> None) \<and> (\<forall>rs s'. file_run env cs s = Some (rs, s') \<longrightarrow> files_inv s')"
  using assms(1)
proof (induction cs arbitrary: s)
  case Nil
  then show ?case by simp
next
  case (Cons c cs)
  show ?case
  proof (cases "file_map env c s")
    case None
    then have "c = F_format" using file_map_ok [OF Cons.prems assms(2-5), of c] by (auto simp: call_ok_def)
    with None show ?thesis by simp
  next
    case (Some vs)
    then obtain v s1 where v: "file_map env c s = Some (v, s1)" by (cases vs) auto
    have "files_inv s1"
    proof (cases "c = F_format")
      case True
      with v show ?thesis using format_ok [OF Cons.prems] by (simp add: file_map_def)
    next
      case False
      then show ?thesis using file_map_ok [OF Cons.prems assms(2-5), of c] v by (simp add: call_ok_def)
    qed
    from Cons.IH [OF this] v show ?thesis by (auto simp: bind_eq_Some_conv)
  qed
qed

section \<open>Reading and writing lines\<close>

text \<open>
  What the library documents about reading an open file: its contents and the position in them.
  Reading gives what there is from the position on, up to the length asked for, and fails at the
  end; seeking inside the contents and telling the position succeed.
\<close>

definition stream_laws :: "('i, 'f) files_lib \<Rightarrow> (int \<Rightarrow> 'f \<Rightarrow> (string \<times> nat) option) \<Rightarrow> bool" where
  "stream_laws l stream \<longleftrightarrow>
     (\<forall>fh f c p n r bs f'. stream fh f = Some (c, p) \<longrightarrow> 0 < n \<longrightarrow> SPIFFS_read l fh n f = (r, bs, f') \<longrightarrow>
        (if p < length c
         then bs = take n (drop p c) \<and> r = int (length bs) \<and> stream fh f' = Some (c, p + length bs)
         else r < 0 \<and> stream fh f' = Some (c, p))) \<and>
     (\<forall>fh f c p off r f'. stream fh f = Some (c, p) \<longrightarrow> 0 \<le> int p + off \<and> int p + off \<le> int (length c) \<longrightarrow>
        SPIFFS_lseek l fh off SPIFFS_SEEK_CUR f = (r, f') \<longrightarrow> stream fh f' = Some (c, nat (int p + off))) \<and>
     (\<forall>fh f c p off r f'. stream fh f = Some (c, p) \<longrightarrow> 0 \<le> off \<and> off \<le> int (length c) \<longrightarrow>
        SPIFFS_lseek l fh off SPIFFS_SEEK_SET f = (r, f') \<longrightarrow> r = off \<and> stream fh f' = Some (c, nat off)) \<and>
     (\<forall>fh f c p r f'. stream fh f = Some (c, p) \<longrightarrow>
        SPIFFS_tell l fh f = (r, f') \<longrightarrow> r = int p \<and> stream fh f' = Some (c, p))"

text \<open>
  A write that reports the full length has put the characters at the position. That holds of a
  library that writes through. It does not hold of SPIFFS with its write cache (SPIFFS_CACHE_WR): a
  write into the cache reports success, and what the flash then has no room for is lost when the
  cache is flushed. The library's s32_t results have 32 bits.
\<close>

definition write_law :: "('i, 'f) files_lib \<Rightarrow> (int \<Rightarrow> 'f \<Rightarrow> (string \<times> nat) option) \<Rightarrow> bool" where
  "write_law l stream \<longleftrightarrow>
     (\<forall>fh f c p bs r f'. stream fh f = Some (c, p) \<longrightarrow> SPIFFS_write l fh bs f = (r, f') \<longrightarrow>
        - (2 ^ 31) \<le> r \<and> r < 2 ^ 31 \<and>
        (r = int (length bs) \<longrightarrow> stream fh f' = Some (take p c @ bs @ drop (p + length bs) c, p + length bs)))"

lemma stream_read:
  assumes "stream_laws l stream" "stream fh f = Some (c, p)" "0 < n" "SPIFFS_read l fh n f = (r, bs, f')"
  shows "if p < length c
    then bs = take n (drop p c) \<and> r = int (length bs) \<and> stream fh f' = Some (c, p + length bs)
    else r < 0 \<and> stream fh f' = Some (c, p)"
  by (rule assms(1) [unfolded stream_laws_def, THEN conjunct1, THEN spec, THEN spec, THEN spec, THEN spec, THEN spec,
      THEN spec, THEN spec, THEN spec, THEN mp, THEN mp, THEN mp, OF assms(2-4)])

lemma stream_cur:
  assumes "stream_laws l stream" "stream fh f = Some (c, p)" "0 \<le> int p + off \<and> int p + off \<le> int (length c)"
    and "SPIFFS_lseek l fh off SPIFFS_SEEK_CUR f = (r, f')"
  shows "stream fh f' = Some (c, nat (int p + off))"
  using assms unfolding stream_laws_def by (elim conjE) meson

lemma stream_set:
  assumes "stream_laws l stream" "stream fh f = Some (c, p)" "0 \<le> off \<and> off \<le> int (length c)"
    and "SPIFFS_lseek l fh off SPIFFS_SEEK_SET f = (r, f')"
  shows "r = off \<and> stream fh f' = Some (c, nat off)"
  using assms unfolding stream_laws_def by (elim conjE) meson

lemma stream_tell:
  assumes "stream_laws l stream" "stream fh f = Some (c, p)" "SPIFFS_tell l fh f = (r, f')"
  shows "r = int p \<and> stream fh f' = Some (c, p)"
  using assms unfolding stream_laws_def by (elim conjE) meson

lemma stream_write:
  assumes "write_law l stream" "stream fh f = Some (c, p)" "SPIFFS_write l fh bs f = (r, f')"
  shows "- (2 ^ 31) \<le> r \<and> r < 2 ^ 31 \<and>
    (r = int (length bs) \<longrightarrow> stream fh f' = Some (take p c @ bs @ drop (p + length bs) c, p + length bs))"
  using assms unfolding write_law_def by blast

text \<open>A file is open on a stream.\<close>

definition reads_from ::
    "('i, 'g, 'd) files_env \<Rightarrow> (int \<Rightarrow> ('g, 'd) volume \<Rightarrow> (string \<times> nat) option) \<Rightarrow> ('i, 'g, 'd) file_state \<Rightarrow> int \<Rightarrow> string \<Rightarrow> nat \<Rightarrow> bool" where
  "reads_from env stream s fh c p \<longleftrightarrow>
     file_fd s \<noteq> 0 \<and> with_file (file_fd s) s = Some fh \<and> stream fh (spiffs s) = Some (c, p)"

lemma reads_from_step:
  "reads_from env stream s fh c p \<Longrightarrow> stream fh f = Some (c', p') \<Longrightarrow> reads_from env stream (s \<lparr>spiffs := f\<rparr>) fh c' p'"
  by (simp add: reads_from_def with_file_def)

text \<open>The characters up to and including the first that is wanted, or all of them.\<close>

definition piece :: "char \<Rightarrow> string \<Rightarrow> string" where
  "piece e d = (if e \<in> set d then takeWhile (\<lambda>x. x \<noteq> e) d @ [e] else d)"

lemma piece_Nil [simp]: "piece e [] = []" and piece_Cons: "piece e (x # d) = (if x = e then [x] else x # piece e d)"
  by (auto simp: piece_def)

lemma piece_prefix: "piece e d = take (length (piece e d)) d"
  by (induction d) (auto simp: piece_Cons)

lemma piece_length: "length (piece e d) \<le> length d"
  by (induction d) (auto simp: piece_Cons)

lemma piece_eq_Nil [simp]: "piece e d = [] \<longleftrightarrow> d = []"
  by (cases d) (simp_all add: piece_Cons)

lemma piece_butlast: "e \<notin> set (butlast (piece e d))"
  by (induction d) (auto simp: piece_Cons)

lemma piece_last: "length (piece e d) < length d \<Longrightarrow> last (piece e d) = e"
  by (induction d) (auto simp: piece_Cons split: if_splits)

lemma scan_piece:
  assumes "k \<le> length p"
  shows "g_read_scan p (int (length p)) (of_char e) (int k) = Some (int k + int (length (piece e (drop k p))))"
  using assms
proof (induction "length p - k" arbitrary: k)
  case 0
  then show ?case by (subst g_read_scan.simps) simp
next
  case (Suc m)
  then have k: "k < length p" by simp
  have "g_read_scan p (int (length p)) (of_char e) (int (Suc k)) =
      Some (int (Suc k) + int (length (piece e (drop (Suc k) p))))"
    by (rule Suc.hyps(1)) (use Suc.hyps(2) k in simp_all)
  moreover have "drop k p = p ! k # drop (Suc k) p" using k by (simp add: Cons_nth_drop_Suc)
  ultimately show ?case
    using k by (subst g_read_scan.simps) (simp add: mem_simps piece_Cons add.commute)
qed

lemma readline_step:
  assumes laws: "stream_laws (lib env) stream" and s: "reads_from env stream s fh c p"
    and b: "0 < LUAL_BUFFERSIZE env"
  defines "l \<equiv> piece (CHR 0x0A) (take (LUAL_BUFFERSIZE env) (drop p c))"
  shows "\<exists>f. file_readline env s = Some (if p < length c then Inr [Lua_string l] else Inr [], s \<lparr>spiffs := f\<rparr>) \<and>
    reads_from env stream (s \<lparr>spiffs := f\<rparr>) fh c (p + length l)"
proof -
  let ?B = "LUAL_BUFFERSIZE env"
  from s have fd: "file_fd s \<noteq> 0" "with_file (file_fd s) s = Some fh" and st: "stream fh (spiffs s) = Some (c, p)"
    by (simp_all add: reads_from_def)
  have fd': "with_file (file_fd s) (s \<lparr>spiffs := f\<rparr>) = Some fh" for f using fd(2) by (simp add: with_file_def)
  obtain r bs f where r: "SPIFFS_read (lib env) fh ?B (spiffs s) = (r, bs, f)" by (metis prod_cases3)
  from stream_read [OF laws st b r] have rd: "if p < length c
      then bs = take ?B (drop p c) \<and> r = int (length bs) \<and> stream fh f = Some (c, p + length bs)
      else r < 0 \<and> stream fh f = Some (c, p)" .
  have g: "file_readline env s = (do {
       i \<leftarrow> g_read_scan bs r 10 0;
       if i = 0 then Some (Inr [], s \<lparr>spiffs := f\<rparr>)
       else do {
         (_, s) \<leftarrow> vfs_lseek (lib env) (file_fd s) (- (r - i)) VFS_SEEK_CUR (s \<lparr>spiffs := f\<rparr>);
         Some (Inr [Lua_string (take (nat i) bs)], s)
       } })"
    using fd r b by (simp add: file_readline_def file_g_read_def vfs_read_def myspiffs_vfs_read_def of_char_def cong: if_cong)
  show ?thesis
  proof (cases "p < length c")
    case False
    with rd have "r < 0" "stream fh f = Some (c, p)" by simp_all
    moreover from this have "g_read_scan bs r 10 0 = Some 0" by (subst g_read_scan.simps) simp
    ultimately show ?thesis using g False reads_from_step [OF s] by (auto simp: l_def)
  next
    case True
    with rd have bs: "bs = take ?B (drop p c)" "r = int (length bs)" "stream fh f = Some (c, p + length bs)" by simp_all
    have l: "l = piece (CHR 0x0A) bs" "l \<noteq> []" "length l \<le> length bs"
      using True b piece_length [of "CHR 0x0A" bs] by (simp_all add: l_def bs(1))
    have sc: "g_read_scan bs r 10 0 = Some (int (length l))"
      using scan_piece [of 0 bs "CHR 0x0A"] by (simp add: bs(2) l(1) of_char_def)
    obtain r' f' where k: "SPIFFS_lseek (lib env) fh (- (r - int (length l))) SPIFFS_SEEK_CUR f = (r', f')" by fastforce
    have q: "int (p + length bs) + - (r - int (length l)) = int (p + length l)" using bs(2) by simp
    have "length bs \<le> length c - p" by (simp add: bs(1))
    then have "p + length l \<le> length c" using l(3) True by linarith
    then have "0 \<le> int (p + length bs) + - (r - int (length l)) \<and>
        int (p + length bs) + - (r - int (length l)) \<le> int (length c)" unfolding q by simp
    from stream_cur [OF laws bs(3) this k] have f': "stream fh f' = Some (c, p + length l)"
      unfolding q by simp
    have "take (length l) bs = l" unfolding l(1) by (rule piece_prefix [symmetric])
    then have "file_readline env s = Some (Inr [Lua_string l], s \<lparr>spiffs := f'\<rparr>)"
      using g sc l(2) fd(1) fd' k by (simp add: vfs_lseek_def myspiffs_vfs_lseek_def)
    then show ?thesis using True reads_from_step [OF s f'] by auto
  qed
qed

text \<open>The lines from the position on, one call after the other.\<close>

function lines_of :: "nat \<Rightarrow> string \<Rightarrow> string list" where
  "lines_of b d =
     (if d = [] \<or> b = 0 then []
      else let l = piece (CHR 0x0A) (take b d) in l # lines_of b (drop (length l) d))"
  by auto
termination
  by (relation "measure (\<lambda>(b, d). length d)") (auto simp: Let_def piece_eq_Nil)

declare lines_of.simps [simp del]

lemma lines_of_Nil [simp]: "lines_of b [] = []"
  by (subst lines_of.simps) simp

lemma lines_of_step:
  assumes "d \<noteq> []" "0 < b"
  shows "lines_of b d = piece (CHR 0x0A) (take b d) # lines_of b (drop (length (piece (CHR 0x0A) (take b d))) d)"
  using assms by (subst lines_of.simps) (simp add: Let_def)

lemma piece_take: "take (length (piece e (take b d))) d = piece e (take b d)"
proof -
  have "length (piece e (take b d)) \<le> b" using piece_length [of e "take b d"] by simp
  then show ?thesis using piece_prefix [of e "take b d"] by (simp add: min_def)
qed

lemma lines_of_spec:
  assumes "0 < b"
  shows "concat (lines_of b d) = d"
    and "\<forall>l \<in> set (lines_of b d). l \<noteq> [] \<and> length l \<le> b \<and> CHR 0x0A \<notin> set (butlast l)"
    and "\<forall>l \<in> set (butlast (lines_of b d)). last l = CHR 0x0A \<or> length l = b"
proof -
  let ?q = "\<lambda>l. l \<noteq> [] \<and> length l \<le> b \<and> CHR 0x0A \<notin> set (butlast l)"
  have "concat (lines_of b d) = d \<and> (\<forall>l \<in> set (lines_of b d). ?q l) \<and>
      (\<forall>l \<in> set (butlast (lines_of b d)). last l = CHR 0x0A \<or> length l = b)"
    using assms
  proof (induction b d rule: lines_of.induct)
    case (1 b d)
    show ?case
    proof (cases "d = [] \<or> b = 0")
      case True then show ?thesis using 1(2) by simp
    next
      case False
      define l where "l = piece (CHR 0x0A) (take b d)"
      have ls: "lines_of b d = l # lines_of b (drop (length l) d)"
        using False lines_of_step [of d b] by (simp add: l_def)
      have ih: "concat (lines_of b (drop (length l) d)) = drop (length l) d"
        "\<forall>l \<in> set (lines_of b (drop (length l) d)). l \<noteq> [] \<and> length l \<le> b \<and> CHR 0x0A \<notin> set (butlast l)"
        "\<forall>l \<in> set (butlast (lines_of b (drop (length l) d))). last l = CHR 0x0A \<or> length l = b"
        using 1(1) [OF False l_def 1(2)] by simp_all
      have l: "l \<noteq> []" "length l \<le> b" "CHR 0x0A \<notin> set (butlast l)" "take (length l) d = l"
        using False piece_length [of "CHR 0x0A" "take b d"] piece_butlast piece_take by (auto simp: l_def)
      have "last l = CHR 0x0A \<or> length l = b" if "lines_of b (drop (length l) d) \<noteq> []"
      proof -
        from that have "length l < length d" by (cases "length d \<le> length l") simp_all
        then show ?thesis
          using piece_last [of "CHR 0x0A" "take b d"] l(2) by (cases "length l < b") (auto simp: l_def)
      qed
      moreover have "l @ drop (length l) d = d" using l(4) by (metis append_take_drop_id)
      ultimately show ?thesis using ih l ls by (cases "lines_of b (drop (length l) d)") auto
    qed
  qed
  then show "concat (lines_of b d) = d"
    and "\<forall>l \<in> set (lines_of b d). ?q l"
    and "\<forall>l \<in> set (butlast (lines_of b d)). last l = CHR 0x0A \<or> length l = b" by blast+
qed

lemma readlines_ok:
  assumes laws: "stream_laws (lib env) stream" and s: "reads_from env stream s fh c p"
    and b: "0 < LUAL_BUFFERSIZE env"
  defines "ls \<equiv> lines_of (LUAL_BUFFERSIZE env) (drop p c)"
  shows "\<exists>s'. file_run env (replicate (length ls) F_readline @ [F_readline]) s =
    Some (map (\<lambda>l. Inr [Lua_string l]) ls @ [Inr []], s')"
  using s unfolding ls_def
proof (induction "length c - p" arbitrary: s p rule: less_induct)
  case less
  let ?B = "LUAL_BUFFERSIZE env"
  define l where "l = piece (CHR 0x0A) (take ?B (drop p c))"
  obtain f where f: "file_readline env s = Some (if p < length c then Inr [Lua_string l] else Inr [], s \<lparr>spiffs := f\<rparr>)"
      "reads_from env stream (s \<lparr>spiffs := f\<rparr>) fh c (p + length l)"
    using readline_step [OF laws less.prems b] by (auto simp: l_def)
  show ?case
  proof (cases "p < length c")
    case False
    then show ?thesis using f(1) by (simp add: file_map_def)
  next
    case True
    then have "0 < length l" using b by (simp add: l_def)
    then have "length c - (p + length l) < length c - p" using True by linarith
    from less.hyps [OF this f(2)] obtain s' where
      "file_run env (replicate (length (lines_of ?B (drop (p + length l) c))) F_readline @ [F_readline]) (s \<lparr>spiffs := f\<rparr>) =
         Some (map (\<lambda>l. Inr [Lua_string l]) (lines_of ?B (drop (p + length l) c)) @ [Inr []], s')" by blast
    moreover have "lines_of ?B (drop p c) = l # lines_of ?B (drop (p + length l) c)"
      using lines_of_step [of "drop p c" ?B] True b by (simp add: l_def add.commute)
    ultimately show ?thesis using f(1) True by (simp add: file_map_def)
  qed
qed

lemma file_run_append:
  "file_run env (xs @ ys) s =
     (case file_run env xs s of None \<Rightarrow> None
      | Some (rs, s) \<Rightarrow> (case file_run env ys s of None \<Rightarrow> None | Some (rs', s) \<Rightarrow> Some (rs @ rs', s)))"
proof (induction xs arbitrary: s)
  case Nil
  then show ?case by (auto split: option.splits)
next
  case (Cons c xs)
  then show ?case
    by (cases "file_map env c s") (auto split: option.splits Option.bind_splits)
qed

text \<open>Writing a line at the end of the contents, when the module reports success.\<close>

lemma s32_full:
  assumes "(word_of_int r :: u32) = of_nat n" "- (2 ^ 31) \<le> r" "r < 2 ^ 31" "n < 2 ^ 31"
  shows "r = int n"
proof -
  have "sint (word_of_int r :: u32) = r" using assms(2,3) by (simp add: signed_of_int signed_take_bit_int_eq_self)
  moreover have "sint (of_nat n :: u32) = int n"
    using assms(4) by (simp add: signed_of_nat signed_take_bit_int_eq_self)
  ultimately show ?thesis using assms(1) by simp
qed

lemma vfs_write_stream:
  assumes laws: "write_law (lib env) stream" and s: "reads_from env stream s fh c (length c)"
    and t: "length t < 2 ^ 31"
  obtains r f where "vfs_write (lib env) (file_fd s) t s = Some (r, s \<lparr>spiffs := f\<rparr>)"
    "(word_of_int r :: u32) = of_nat (length t) \<Longrightarrow> reads_from env stream (s \<lparr>spiffs := f\<rparr>) fh (c @ t) (length (c @ t))"
proof -
  from s have fd: "file_fd s \<noteq> 0" "with_file (file_fd s) s = Some fh" and st: "stream fh (spiffs s) = Some (c, length c)"
    by (simp_all add: reads_from_def)
  obtain r f where r: "SPIFFS_write (lib env) fh t (spiffs s) = (r, f)" by fastforce
  from stream_write [OF laws st r] have w: "- (2 ^ 31) \<le> r" "r < 2 ^ 31"
      "r = int (length t) \<Longrightarrow> stream fh f = Some (c @ t, length (c @ t))" by simp_all
  have "reads_from env stream (s \<lparr>spiffs := f\<rparr>) fh (c @ t) (length (c @ t))"
    if "(word_of_int r :: u32) = of_nat (length t)"
    using w(3) [OF s32_full [OF that w(1,2) t]] reads_from_step [OF s] by blast
  moreover have "vfs_write (lib env) (file_fd s) t s = Some (r, s \<lparr>spiffs := f\<rparr>)"
    using fd r by (simp add: vfs_write_def myspiffs_vfs_write_def)
  ultimately show thesis using that by blast
qed

lemma writeline_step:
  assumes laws: "write_law (lib env) stream" and s: "reads_from env stream s fh c (length c)"
    and t: "length t < 2 ^ 31" and ok: "file_writeline env (Lua_string t) s = Some (Inr [Lua_boolean True], s')"
  shows "reads_from env stream s' fh (c @ t @ [CHR 0x0A]) (length (c @ t @ [CHR 0x0A]))"
proof -
  have fd: "file_fd s \<noteq> 0" using s by (simp add: reads_from_def)
  obtain r f where r: "vfs_write (lib env) (file_fd s) t s = Some (r, s \<lparr>spiffs := f\<rparr>)"
    and w: "(word_of_int r :: u32) = of_nat (length t) \<Longrightarrow> reads_from env stream (s \<lparr>spiffs := f\<rparr>) fh (c @ t) (length (c @ t))"
    using vfs_write_stream [OF laws s t] by metis
  have e: "(word_of_int r :: u32) = of_nat (length t)"
    using ok fd r by (simp add: file_writeline_def lua_tolstring_def split: if_splits)
  obtain r' f' where r': "vfs_write (lib env) (file_fd s) [CHR 0x0A] (s \<lparr>spiffs := f\<rparr>) = Some (r', s \<lparr>spiffs := f'\<rparr>)"
    and w': "(word_of_int r' :: u32) = of_nat (length [CHR 0x0A]) \<Longrightarrow>
      reads_from env stream (s \<lparr>spiffs := f'\<rparr>) fh ((c @ t) @ [CHR 0x0A]) (length ((c @ t) @ [CHR 0x0A]))"
    by (rule vfs_write_stream [OF laws w [OF e], of "[CHR 0x0A]"]) simp_all
  have "(word_of_int r' :: u32) = 1" "s' = s \<lparr>spiffs := f'\<rparr>"
    using ok fd r r' e by (simp_all add: file_writeline_def lua_tolstring_def split: if_splits)
  with w' show ?thesis by simp
qed

lemma writelines_ok:
  assumes laws: "write_law (lib env) stream"
  shows "reads_from env stream s fh c (length c) \<Longrightarrow> \<forall>t \<in> set ts. length t < 2 ^ 31 \<Longrightarrow>
    file_run env (map (\<lambda>t. F_writeline (Lua_string t)) ts) s = Some (replicate (length ts) (Inr [Lua_boolean True]), s') \<Longrightarrow>
    \<exists>p. reads_from env stream s' fh (c @ concat (map (\<lambda>t. t @ [CHR 0x0A]) ts)) p"
proof (induction ts arbitrary: s c)
  case Nil
  then show ?case by auto
next
  case (Cons t ts)
  from Cons.prems(3) obtain s1 where
    w: "file_writeline env (Lua_string t) s = Some (Inr [Lua_boolean True], s1)"
    and r: "file_run env (map (\<lambda>t. F_writeline (Lua_string t)) ts) s1 = Some (replicate (length ts) (Inr [Lua_boolean True]), s')"
    by (auto simp: file_map_def bind_eq_Some_conv)
  from Cons.IH [OF writeline_step [OF laws Cons.prems(1) _ w] _ r] Cons.prems(2)
  show ?case by simp
qed

text \<open>Lines that fit the buffer are the pieces that are read.\<close>

lemma takeWhile_until: "x \<notin> set t \<Longrightarrow> takeWhile (\<lambda>y. y \<noteq> x) (t @ x # r) = t"
  by (induction t) auto

lemma lines_of_join:
  assumes "\<forall>t \<in> set ts. CHR 0x0A \<notin> set t \<and> length t < b"
  shows "lines_of b (concat (map (\<lambda>t. t @ [CHR 0x0A]) ts)) = map (\<lambda>t. t @ [CHR 0x0A]) ts"
  using assms
proof (induction ts)
  case Nil
  then show ?case by simp
next
  case (Cons t ts)
  let ?r = "concat (map (\<lambda>t. t @ [CHR 0x0A]) ts)"
  have b: "length t < b" "CHR 0x0A \<notin> set t" using Cons.prems by simp_all
  have "take b ((t @ [CHR 0x0A]) @ ?r) = t @ CHR 0x0A # take (b - Suc (length t)) ?r"
  proof -
    have "b - length t = Suc (b - Suc (length t))" using b(1) by linarith
    then show ?thesis using b(1) by simp
  qed
  then have "piece (CHR 0x0A) (take b ((t @ [CHR 0x0A]) @ ?r)) = t @ [CHR 0x0A]"
    using b(2) takeWhile_until [of "CHR 0x0A" t] by (simp add: piece_def)
  with Cons b show ?case by (subst lines_of_step) auto
qed

lemma seek_set_ok:
  assumes laws: "stream_laws (lib env) stream" and s: "reads_from env stream s fh c p"
  shows "\<exists>s'. file_seek env (Lua_string ''set'') Lua_nil s = Some (Inr [Lua_integer 0], s') \<and> reads_from env stream s' fh c 0"
proof -
  from s have fd: "file_fd s \<noteq> 0" "with_file (file_fd s) s = Some fh" and st: "stream fh (spiffs s) = Some (c, p)"
    by (simp_all add: reads_from_def)
  have fd': "with_file (file_fd s) (s \<lparr>spiffs := f\<rparr>) = Some fh" for f using fd(2) by (simp add: with_file_def)
  obtain r f where r: "SPIFFS_lseek (lib env) fh 0 SPIFFS_SEEK_SET (spiffs s) = (r, f)" by fastforce
  with stream_set [OF laws st _ r] have f: "r = 0" "stream fh f = Some (c, 0)" by simp_all
  obtain r' f' where r': "SPIFFS_tell (lib env) fh f = (r', f')" by fastforce
  with stream_tell [OF laws f(2) r'] have f': "r' = 0" "stream fh f' = Some (c, 0)" by simp_all
  have "file_seek env (Lua_string ''set'') Lua_nil s = Some (Inr [Lua_integer 0], s \<lparr>spiffs := f'\<rparr>)"
    using fd fd' r r' f(1) f'(1)
    by (simp add: file_seek_def seek_whence_def luaL_optstring_def lua_tolstring_def c_string_def luaL_optlong_def
        vfs_lseek_def myspiffs_vfs_lseek_def vfs_tell_def myspiffs_vfs_tell_def)
  then show ?thesis using reads_from_step [OF s f'(2)] by blast
qed

section \<open>Errors\<close>









section \<open>A file system of one file\<close>

text \<open>
  For the witnesses: a library with a single file ''a'' in memory, whose contents and position are
  the state of the library.
\<close>

definition ram_files :: "(nat, (string \<times> nat, u8 list) volume) files_lib" where
  "ram_files = \<lparr>
     SPIFFS_open = (\<lambda>name flags v. if name = ''a'' then (1, v \<lparr>fs := (if bit flags 1 then [] else fst (fs v), 0)\<rparr>) else (- 10002, v)),
     SPIFFS_close = (\<lambda>fh v. (0, v)),
     SPIFFS_read = (\<lambda>fh n v. case fs v of (c, p) \<Rightarrow>
       if p < length c then (int (length (take n (drop p c))), take n (drop p c), v \<lparr>fs := (c, p + length (take n (drop p c)))\<rparr>)
       else (- 10003, [], v)),
     SPIFFS_write = (\<lambda>fh bs v. case fs v of (c, p) \<Rightarrow>
       if length bs < 2 ^ 31 then (int (length bs), v \<lparr>fs := (take p c @ bs @ drop (p + length bs) c, p + length bs)\<rparr>) else (- 10001, v)),
     SPIFFS_lseek = (\<lambda>fh off whence v. case fs v of (c, p) \<Rightarrow>
       let q = (if whence = SPIFFS_SEEK_CUR then int p else if whence = SPIFFS_SEEK_END then int (length c) else 0) + off
       in if 0 \<le> q \<and> q \<le> int (length c) then (q, v \<lparr>fs := (c, nat q)\<rparr>) else (- 10003, v)),
     SPIFFS_eof = (\<lambda>fh v. (if snd (fs v) < length (fst (fs v)) then 0 else 1, v)),
     SPIFFS_tell = (\<lambda>fh v. (int (snd (fs v)), v)),
     SPIFFS_fflush = (\<lambda>fh v. (0, v)),
     SPIFFS_errno = (\<lambda>v. 0),
     SPIFFS_clearerr = (\<lambda>v. v),
     SPIFFS_opendir = (\<lambda>name v. (Some 1, v)),
     SPIFFS_closedir = (\<lambda>d v. (0, v)),
     SPIFFS_readdir = (\<lambda>d v. (if d = 0 then None else Some (of_nat (length (fst (fs v))), ''a''), d - 1, v)),
     SPIFFS_stat = (\<lambda>name v. (0, (of_nat (length (fst (fs v))), ''a''), v)),
     SPIFFS_remove = (\<lambda>name v. (0, v)),
     SPIFFS_rename = (\<lambda>old_name new_name v. (0, v)),
     SPIFFS_info = (\<lambda>v. (0, 1000, of_nat (length (fst (fs v))), v))\<rparr>"

definition ram_stream :: "int \<Rightarrow> (string \<times> nat, u8 list) volume \<Rightarrow> (string \<times> nat) option" where
  "ram_stream fh v = (if snd (fs v) \<le> length (fst (fs v)) then Some (fs v) else None)"

definition ram_env :: "(nat, string \<times> nat, u8 list) files_env" where
  "ram_env = \<lparr>lib = ram_files,
     vol_io = \<lparr>vol_lib = \<lparr>SPIFFS_probe_fs = \<lambda>_ _. 0, SPIFFS_mount = \<lambda>_ f d. (0, f, d), SPIFFS_unmount = \<lambda>f d. (f, d),
         SPIFFS_format = \<lambda>f d. (0, ([], 0), d), clear_err_code = \<lambda>f. f\<rparr>,
       vol_table = sample_format, vol_spi = list_spi, vol_chip = \<lambda>d _. d, vol_malloc = True, vol_info = to_platform sample_partition\<rparr>,
     malloc = (\<lambda>h. if h 4 = None then Some 4 else if h 8 = None then Some 8 else None),
     number_text = (\<lambda>n. ''0''), text_number = (\<lambda>t. None), lua_memory = (\<lambda>t. True), LUAL_BUFFERSIZE = 8\<rparr>"

definition ram_start :: "(nat, string \<times> nat, u8 list) file_state" where
  "ram_start = \<lparr>heap = Map.empty, spiffs = \<lparr>fs = ([], 0), chip_bytes = 0, flash = []\<rparr>, is_current_drive = True, file_fd = 0\<rparr>"

lemma ram_write: "write_law ram_files ram_stream"
  unfolding write_law_def
  by (intro allI impI; auto simp: ram_files_def ram_stream_def split: if_splits)

lemma ram_laws: "stream_laws ram_files ram_stream"
  unfolding stream_laws_def
  by (intro conjI allI impI; auto simp: ram_files_def ram_stream_def Let_def split: if_splits)

lemma ram_env_laws:
  "malloc_law (malloc ram_env)" "dirs_end (lib ram_env)" "read_law (lib ram_env)" "\<forall>t. lua_memory ram_env t"
    "files_inv ram_start"
proof -
  have "dir_reads ram_files d f (replicate d (of_nat (length (fst (fs f))), ''a''))" for d f
  proof (induction d)
    case 0
    show ?case by (simp, rule dir_end [of _ _ _ 0 f]) (simp add: ram_files_def)
  next
    case (Suc d)
    show ?case by (simp, rule dir_entry [OF _ _ Suc]) (simp_all add: ram_files_def)
  qed
  then show "dirs_end (lib ram_env)" by (auto simp: dirs_end_def ram_env_def)
qed (auto simp: malloc_law_def read_law_def files_inv_def ram_env_def ram_files_def ram_start_def split: prod.splits)

section \<open>Properties\<close>



text \<open>
  C23: Whatever sequence of calls a Lua program makes, with whatever arguments, from a state in which the
  heap holds the descriptor of the open file, if one is open, and no other, that holds again after it:
  no descriptor is lost, on the error paths either; a call that does not return leaves nothing to be
  said. Without file.format in the sequence every call returns and uses no descriptor that is not
  allocated. It is assumed that malloc gives addresses that are not in use, that the library's
  directories end with names that fit, that it delivers the characters it reports as read, and that
  the interpreter has memory for the table of file.list, without which the directory stays
  open (file_list_leak).
\<close>

theorem file_descriptors_safe:
  assumes "malloc_law (malloc env)" "dirs_end (lib env)" "read_law (lib env)" "\<forall>t. lua_memory env t" "files_inv s"
  shows "(F_format \<notin> set cs \<longrightarrow> file_run env cs s \<noteq> None) \<and> (\<forall>rs s'. file_run env cs s = Some (rs, s') \<longrightarrow> files_inv s')"
  by (rule file_run_ok [OF assms(5,1,2,3,4)])

lemma file_descriptors_safe_witness:
  "\<exists>rs s'. file_run ram_env [F_open (Lua_string ''a'') (Lua_string ''w+''), F_list, F_read Lua_nil, F_open (Lua_integer 5) Lua_nil, F_close]
     ram_start = Some (rs, s') \<and> files_inv s'"
  using file_descriptors_safe [OF ram_env_laws,
      of "[F_open (Lua_string ''a'') (Lua_string ''w+''), F_list, F_read Lua_nil, F_open (Lua_integer 5) Lua_nil, F_close]"]
  by fastforce

text \<open>
  Without memory for the table the error leaves the loop past vfs_closedir: the descriptor of the
  directory stays allocated and nothing refers to it.
\<close>

lemma file_list_leak:
  "\<exists>s'. file_list (ram_env \<lparr>lua_memory := \<lambda>_. False\<rparr>) ram_start = Some (Inl (Lua_error ''not enough memory''), s') \<and>
     file_fd s' = 0 \<and> heap s' = [4 \<mapsto> Dir VFS_FS_SPIFFS 1] \<and> \<not> files_inv s'"
  by (simp add: file_list_def vfs_opendir_def myspiffs_vfs_opendir_def myspiffs_realm_def normalize_path_def ram_env_def
      ram_files_def ram_start_def files_inv_def)

text \<open>
  C24: Calling file.readline until it returns nothing gives the rest of the file from the current
  position: the pieces joined are exactly what was left, none is empty or longer than the buffer,
  a newline is only at the end of a piece, and every piece but the last ends with one or fills the
  buffer.
\<close>

theorem file_readlines:
  assumes "stream_laws (lib env) stream" "reads_from env stream s fh c p" "0 < LUAL_BUFFERSIZE env"
  shows "\<exists>ls s'. file_run env (replicate (length ls) F_readline @ [F_readline]) s =
      Some (map (\<lambda>l. Inr [Lua_string l]) ls @ [Inr []], s') \<and>
    concat ls = drop p c \<and>
    (\<forall>l \<in> set ls. l \<noteq> [] \<and> length l \<le> LUAL_BUFFERSIZE env \<and> CHR 0x0A \<notin> set (butlast l)) \<and>
    (\<forall>l \<in> set (butlast ls). last l = CHR 0x0A \<or> length l = LUAL_BUFFERSIZE env)"
  using readlines_ok [OF assms] lines_of_spec [OF assms(3), of "drop p c"]
  by (intro exI [of _ "lines_of (LUAL_BUFFERSIZE env) (drop p c)"]) blast

text \<open>The file of the witnesses, open on some contents.\<close>

definition ram_open :: "string \<Rightarrow> (nat, string \<times> nat, u8 list) file_state" where
  "ram_open c = ram_start \<lparr>heap := [4 \<mapsto> File VFS_FS_SPIFFS 1], file_fd := 4, spiffs := spiffs ram_start \<lparr>fs := (c, 0)\<rparr>\<rparr>"

lemma ram_reads: "reads_from ram_env ram_stream (ram_open c) 1 c 0"
  by (simp add: reads_from_def ram_open_def with_file_def ram_stream_def)

lemma ram_env_stream: "stream_laws (lib ram_env) ram_stream" "0 < LUAL_BUFFERSIZE ram_env"
  using ram_laws by (simp_all add: ram_env_def)

lemma file_readlines_witness:
  "\<exists>ls s'. file_run ram_env (replicate (length ls) F_readline @ [F_readline]) (ram_open ''one, and more'') =
      Some (map (\<lambda>l. Inr [Lua_string l]) ls @ [Inr []], s') \<and> concat ls = ''one, and more''"
  using file_readlines [OF ram_env_stream(1) ram_reads ram_env_stream(2), of "''one, and more''"] by auto

text \<open>
  Lines written with file.writeline to a file from its start, each reported as written, are
  read back with file.readline after file.seek("set"): the same lines in the same order, each
  with its newline, and then nothing, if no line holds a newline or fills the buffer. This is for a
  library with write_law, so not for SPIFFS with its write cache on a flash that fills up.
\<close>

lemma file_lines_roundtrip:
  assumes "stream_laws (lib env) stream" "write_law (lib env) stream" "reads_from env stream s fh [] 0"
    and "LUAL_BUFFERSIZE env < 2 ^ 31"
    and "\<forall>t \<in> set ts. CHR 0x0A \<notin> set t \<and> length t < LUAL_BUFFERSIZE env"
    and "ts \<noteq> []"
    and "file_run env (map (\<lambda>t. F_writeline (Lua_string t)) ts) s = Some (replicate (length ts) (Inr [Lua_boolean True]), s')"
  shows "\<exists>s''. file_run env (F_seek (Lua_string ''set'') Lua_nil # replicate (length ts) F_readline @ [F_readline]) s' =
    Some (Inr [Lua_integer 0] # map (\<lambda>t. Inr [Lua_string (t @ [CHR 0x0A])]) ts @ [Inr []], s'')"
proof -
  let ?c = "concat (map (\<lambda>t. t @ [CHR 0x0A]) ts)"
  have b: "0 < LUAL_BUFFERSIZE env" using assms(5,6) by (cases ts) auto
  have "\<forall>t \<in> set ts. length t < 2 ^ 31" using assms(4,5) by fastforce
  from writelines_ok [OF assms(2) _ this assms(7), of fh "[]"] assms(3)
  obtain p where w: "reads_from env stream s' fh ?c p" by auto
  obtain s1 where s1: "file_seek env (Lua_string ''set'') Lua_nil s' = Some (Inr [Lua_integer 0], s1)"
    "reads_from env stream s1 fh ?c 0"
    using seek_set_ok [OF assms(1) w] by blast
  have "lines_of (LUAL_BUFFERSIZE env) (drop 0 ?c) = map (\<lambda>t. t @ [CHR 0x0A]) ts"
    using lines_of_join [OF assms(5)] by simp
  with readlines_ok [OF assms(1) s1(2) b] obtain s'' where
    "file_run env (replicate (length ts) F_readline @ [F_readline]) s1 =
       Some (map (\<lambda>t. Inr [Lua_string (t @ [CHR 0x0A])]) ts @ [Inr []], s'')" by (auto simp: comp_def)
  with s1(1) show ?thesis by (simp add: file_map_def)
qed

lemma file_lines_roundtrip_witness:
  "\<exists>s' s''. file_run ram_env [F_writeline (Lua_string ''one''), F_writeline (Lua_string ''two'')] (ram_open []) =
      Some ([Inr [Lua_boolean True], Inr [Lua_boolean True]], s') \<and>
    file_run ram_env [F_seek (Lua_string ''set'') Lua_nil, F_readline, F_readline, F_readline] s' =
      Some ([Inr [Lua_integer 0], Inr [Lua_string (''one'' @ [CHR 0x0A])], Inr [Lua_string (''two'' @ [CHR 0x0A])], Inr []], s'')"
proof -
  let ?s = "ram_open [] \<lparr>spiffs := spiffs ram_start \<lparr>fs := (''one'' @ [CHR 0x0A] @ ''two'' @ [CHR 0x0A], 8)\<rparr>\<rparr>"
  have w: "file_run ram_env (map (\<lambda>t. F_writeline (Lua_string t)) [''one'', ''two'']) (ram_open []) =
      Some (replicate (length [''one'', ''two'']) (Inr [Lua_boolean True]), ?s)"
    by (simp add: file_map_def file_writeline_def lua_tolstring_def vfs_write_def myspiffs_vfs_write_def with_file_def
        ram_open_def ram_start_def ram_env_def ram_files_def)
  have "\<forall>t \<in> set [''one'', ''two'']. CHR 0x0A \<notin> set t \<and> length t < LUAL_BUFFERSIZE ram_env" "LUAL_BUFFERSIZE ram_env < 2 ^ 31"
    by (simp_all add: ram_env_def)
  moreover have "write_law (lib ram_env) ram_stream" using ram_write by (simp add: ram_env_def)
  ultimately show ?thesis
    using file_lines_roundtrip [OF ram_env_stream(1) _ ram_reads _ _ _ w] w
    by (auto simp del: file_run.simps simp: numeral_2_eq_2)
qed

end
