(* ===== verification/Lua_Nvs.thy ===== *)
theory Lua_Nvs
  imports Lua_Api
begin

text \<open>
  The Lua module of modules/nvs.c, which keeps settings by key in the non-volatile storage of the
  ESP-IDF. That library is a parameter, a record of its calls on its state; what a call wrote to an
  output argument is part of its result. The arguments of a Lua call are the list of their values.
\<close>

section \<open>The code\<close>

datatype esp_err =
  ESP_OK | ESP_ERR_NVS_NOT_FOUND | ESP_ERR_NVS_INVALID_HANDLE | ESP_ERR_NVS_INVALID_NAME
| ESP_ERR_NVS_INVALID_LENGTH | ESP_ERR_NVS_READ_ONLY | ESP_ERR_OTHER

record 'n nvs_lib =
  nvs_open :: "'n \<Rightarrow> esp_err \<times> nat \<times> 'n"
  nvs_close :: "nat \<Rightarrow> 'n \<Rightarrow> 'n"
  nvs_get_i32 :: "nat \<Rightarrow> string \<Rightarrow> 'n \<Rightarrow> esp_err \<times> int"
  nvs_get_str :: "nat \<Rightarrow> string \<Rightarrow> nat \<Rightarrow> 'n \<Rightarrow> esp_err \<times> string \<times> nat"
  nvs_set_i32 :: "nat \<Rightarrow> string \<Rightarrow> int \<Rightarrow> 'n \<Rightarrow> esp_err \<times> 'n"
  nvs_set_str :: "nat \<Rightarrow> string \<Rightarrow> string \<Rightarrow> 'n \<Rightarrow> esp_err \<times> 'n"
  nvs_commit :: "nat \<Rightarrow> 'n \<Rightarrow> esp_err \<times> 'n"
  nvs_erase_key :: "nat \<Rightarrow> string \<Rightarrow> 'n \<Rightarrow> esp_err \<times> 'n"
  nvs_erase_all :: "nat \<Rightarrow> 'n \<Rightarrow> esp_err \<times> 'n"

text \<open>The static variables handle and is_open, and the storage.\<close>

record 'n nvs_state =
  storage :: 'n
  nvs_handle :: nat
  is_open :: int

type_synonym 'n nvs_result = "((lua_error + lua_value list) \<times> 'n nvs_state) option"

definition OUT_STR :: nat where "OUT_STR = 128"

definition key_exist :: "'n nvs_lib \<Rightarrow> string \<Rightarrow> 'n nvs_state \<Rightarrow> bool" where
  "key_exist lib key s =
     (let res = (case fst (nvs_get_i32 lib (nvs_handle s) key (storage s)) of
                   ESP_ERR_NVS_NOT_FOUND \<Rightarrow> False
                 | ESP_OK \<Rightarrow> True
                 | _ \<Rightarrow> False)
      in case fst (nvs_get_str lib (nvs_handle s) key OUT_STR (storage s)) of
           ESP_ERR_NVS_NOT_FOUND \<Rightarrow> False
         | ESP_OK \<Rightarrow> True
         | _ \<Rightarrow> res)"


definition lnvs_open :: "'n nvs_lib \<Rightarrow> 'n nvs_state \<Rightarrow> 'n nvs_result" where
  "lnvs_open lib s =
     (case nvs_open lib (storage s) of (err, h, n) \<Rightarrow>
        let s = s \<lparr>storage := n, nvs_handle := h\<rparr>
        in if err \<noteq> ESP_OK then Some (Inr [Lua_integer 1], s \<lparr>is_open := 0\<rparr>)
           else Some (Inr [Lua_integer 0], s \<lparr>is_open := 1\<rparr>))"

definition lnvs_close :: "'n nvs_lib \<Rightarrow> 'n nvs_state \<Rightarrow> 'n nvs_result" where
  "lnvs_close lib s = Some (Inr [], s \<lparr>storage := nvs_close lib (nvs_handle s) (storage s), is_open := 0\<rparr>)"

text \<open>Setting and committing, with the value 1 for a failure of either.\<close>

definition put_commit :: "'n nvs_lib \<Rightarrow> esp_err \<times> 'n \<Rightarrow> 'n nvs_state \<Rightarrow> 'n nvs_result" where
  "put_commit lib r s =
     (case r of (err, n) \<Rightarrow>
        let s = s \<lparr>storage := n\<rparr>
        in if err \<noteq> ESP_OK then Some (Inr [Lua_integer 1], s)
           else (case nvs_commit lib (nvs_handle s) (storage s) of (err, n) \<Rightarrow>
             Some (Inr [Lua_integer (if err \<noteq> ESP_OK then 1 else 0)], s \<lparr>storage := n\<rparr>)))"

definition lnvs_put :: "'n nvs_lib \<Rightarrow> number_format \<Rightarrow> lua_value list \<Rightarrow> 'n nvs_state \<Rightarrow> 'n nvs_result" where
  "lnvs_put lib text args s =
     (if is_open s \<noteq> 1 then Some (Inl (Lua_error ''call nvs.open first''), s)
      else if length args < 2 then Some (Inl (Lua_error ''expected 2 args''), s)
      else case lua_tolstring text (lua_arg args 1) of
        None \<Rightarrow> Some (Inl (Arg_error 1 ''string expected''), s)
      | Some k \<Rightarrow>
          let key = c_string k
          in if key_exist lib key s then Some (Inl (Lua_error ''key exist! call nvs.remove to remove it first''), s)
             else case lua_arg args 2 of
                    Lua_string v \<Rightarrow> put_commit lib (nvs_set_str lib (nvs_handle s) key (c_string v) (storage s)) s
                  | Lua_integer n \<Rightarrow> do {
                      val \<leftarrow> i32 n;
                      put_commit lib (nvs_set_i32 lib (nvs_handle s) key val (storage s)) s
                    }
                  | Lua_fraction m n \<Rightarrow> do {
                      val \<leftarrow> i32 (lua_trunc m n);
                      put_commit lib (nvs_set_i32 lib (nvs_handle s) key val (storage s)) s
                    }
                  | Lua_boolean b \<Rightarrow>
                      put_commit lib (nvs_set_i32 lib (nvs_handle s) key (if b then 1 else 0) (storage s)) s
                  | _ \<Rightarrow> Some (Inr [Lua_integer 1], s))"

text \<open>
  Where nothing was pushed, the one value returned is the one at the top of the stack: the last
  argument, and if that is the key, the string to which luaL_checklstring converted it in place. A
  string returned is cut out of out_str, which holds what the library wrote to it.
\<close>

definition lnvs_get :: "'n nvs_lib \<Rightarrow> number_format \<Rightarrow> lua_value list \<Rightarrow> 'n nvs_state \<Rightarrow> 'n nvs_result" where
  "lnvs_get lib text args s =
     (if is_open s \<noteq> 1 then Some (Inl (Lua_error ''call nvs.open first''), s)
      else if length args < 1 then Some (Inl (Lua_error ''expected at least 1 args''), s)
      else case lua_tolstring text (lua_arg args 1) of
        None \<Rightarrow> Some (Inl (Arg_error 1 ''string expected''), s)
      | Some k \<Rightarrow>
          let key = c_string k;
              try_str =
                (case nvs_get_str lib (nvs_handle s) key OUT_STR (storage s) of (err, out_str, n) \<Rightarrow>
                   (case err of
                      ESP_ERR_NVS_NOT_FOUND \<Rightarrow> Some (Inr [Lua_nil], s)
                    | ESP_ERR_NVS_INVALID_HANDLE \<Rightarrow> Some (Inl (Lua_error ''invalid nvs handle''), s)
                    | ESP_ERR_NVS_INVALID_NAME \<Rightarrow> Some (Inl (Lua_error ''invalid name''), s)
                    | ESP_OK \<Rightarrow> do { v \<leftarrow> get_block out_str 0 n; Some (Inr [Lua_string v], s) }
                    | _ \<Rightarrow> Some (Inr [if length args = 1 then Lua_string k else last args], s)))
          in case nvs_get_i32 lib (nvs_handle s) key (storage s) of (err, v) \<Rightarrow>
               (case err of
                  ESP_ERR_NVS_INVALID_HANDLE \<Rightarrow> Some (Inl (Lua_error ''invalid nvs handle''), s)
                | ESP_ERR_NVS_INVALID_NAME \<Rightarrow> Some (Inl (Lua_error ''invalid name''), s)
                | ESP_OK \<Rightarrow> Some (Inr [Lua_integer v], s)
                | _ \<Rightarrow> try_str))"


definition lnvs_clearall :: "'n nvs_lib \<Rightarrow> 'n nvs_state \<Rightarrow> 'n nvs_result" where
  "lnvs_clearall lib s =
     (case nvs_erase_all lib (nvs_handle s) (storage s) of (err, n) \<Rightarrow>
        Some (Inr [Lua_integer (if err \<noteq> ESP_OK then 1 else 0)], s \<lparr>storage := n\<rparr>))"

section \<open>What the storage promises\<close>

text \<open>
  An open handle gives access to a map from keys to integers and strings, for the names that are keys:
  not empty and of at most 15 characters (nothing is said of other names, which the ESP-IDF refuses
  with ESP_ERR_NVS_INVALID_NAME). Reading a value as the
  other type is answered with one error code, mism: releases of the ESP-IDF differ in it. A string
  is delivered with its terminating zero, which is counted, if it fits. Setting a key that has no
  value of the other type, and erasing one, do that or change nothing.
\<close>

datatype nvs_value = NI int | NS string

definition nvs_key :: "string \<Rightarrow> bool" where
  "nvs_key k \<longleftrightarrow> k \<noteq> [] \<and> length k \<le> 15 \<and> CHR 0x00 \<notin> set k"

definition reads_value :: "'n nvs_lib \<Rightarrow> esp_err \<Rightarrow> nat \<Rightarrow> string \<Rightarrow> 'n \<Rightarrow> nvs_value option \<Rightarrow> bool" where
  "reads_value lib mism h k n v \<longleftrightarrow>
     (case v of
        None \<Rightarrow> fst (nvs_get_i32 lib h k n) = ESP_ERR_NVS_NOT_FOUND \<and>
          (\<forall>sz. fst (nvs_get_str lib h k sz n) = ESP_ERR_NVS_NOT_FOUND)
      | Some (NI i) \<Rightarrow> nvs_get_i32 lib h k n = (ESP_OK, i) \<and> (\<forall>sz. fst (nvs_get_str lib h k sz n) = mism)
      | Some (NS t) \<Rightarrow> fst (nvs_get_i32 lib h k n) = mism \<and>
          (\<forall>sz. if length t < sz then nvs_get_str lib h k sz n = (ESP_OK, t @ [CHR 0x00], Suc (length t))
             else fst (nvs_get_str lib h k sz n) = ESP_ERR_NVS_INVALID_LENGTH))"

definition changes_to :: "(nat \<Rightarrow> 'n \<Rightarrow> bool) \<Rightarrow> ('n \<Rightarrow> string \<rightharpoonup> nvs_value) \<Rightarrow> nat \<Rightarrow> 'n \<Rightarrow> (string \<rightharpoonup> nvs_value) \<Rightarrow> esp_err \<times> 'n \<Rightarrow> bool" where
  "changes_to opened store h n m r \<longleftrightarrow>
     opened h (snd r) \<and> store (snd r) = (if fst r = ESP_OK then m else store n)"

definition nvs_laws :: "'n nvs_lib \<Rightarrow> (nat \<Rightarrow> 'n \<Rightarrow> bool) \<Rightarrow> ('n \<Rightarrow> string \<rightharpoonup> nvs_value) \<Rightarrow> esp_err \<Rightarrow> bool" where
  "nvs_laws lib opened store mism \<longleftrightarrow>
     mism \<in> {ESP_ERR_NVS_NOT_FOUND, ESP_ERR_OTHER} \<and>
     (\<forall>h n. opened h n \<longrightarrow>
        (\<forall>k. nvs_key k \<longrightarrow> reads_value lib mism h k n (store n k)) \<and>
        (\<forall>k i. nvs_key k \<longrightarrow> (\<forall>t. store n k \<noteq> Some (NS t)) \<longrightarrow>
           changes_to opened store h n ((store n)(k \<mapsto> NI i)) (nvs_set_i32 lib h k i n)) \<and>
        (\<forall>k t. nvs_key k \<longrightarrow> (\<forall>i. store n k \<noteq> Some (NI i)) \<longrightarrow>
           changes_to opened store h n ((store n)(k \<mapsto> NS t)) (nvs_set_str lib h k t n)) \<and>
        (\<forall>k. nvs_key k \<longrightarrow> changes_to opened store h n ((store n)(k := None)) (nvs_erase_key lib h k n)) \<and>
        changes_to opened store h n (store n) (nvs_commit lib h n))"

text \<open>The value nvs.get returns for what is stored.\<close>

definition get_value :: "string \<Rightarrow> nvs_value option \<Rightarrow> lua_value" where
  "get_value k v =
     (case v of
        None \<Rightarrow> Lua_nil
      | Some (NI i) \<Rightarrow> Lua_integer i
      | Some (NS t) \<Rightarrow> if length t < OUT_STR then Lua_string (t @ [CHR 0x00]) else Lua_string k)"

lemma lnvs_get_ok:
  assumes "nvs_laws lib opened store mism" "is_open s = 1" "opened (nvs_handle s) (storage s)" "nvs_key k"
  shows "lnvs_get lib text [Lua_string k] s = Some (Inr [get_value k (store (storage s) k)], s)"
proof -
  have r: "reads_value lib mism (nvs_handle s) k (storage s) (store (storage s) k)"
    and m: "mism = ESP_ERR_NVS_NOT_FOUND \<or> mism = ESP_ERR_OTHER"
    using assms(1,3,4) by (simp_all add: nvs_laws_def)
  have z: "CHR 0x00 \<notin> set k" using assms(4) by (simp add: nvs_key_def)
  obtain e1 v1 where i: "nvs_get_i32 lib (nvs_handle s) k (storage s) = (e1, v1)" by fastforce
  obtain e2 o2 n2 where t: "nvs_get_str lib (nvs_handle s) k OUT_STR (storage s) = (e2, o2, n2)"
    using prod_cases3 by blast
  show ?thesis
  proof (cases "store (storage s) k")
    case None
    have "e1 = ESP_ERR_NVS_NOT_FOUND" "e2 = ESP_ERR_NVS_NOT_FOUND"
      using r i t None by (simp_all add: reads_value_def) (metis fst_conv)
    then show ?thesis using assms(2) z i t None
      by (simp add: lnvs_get_def lua_tolstring_def c_string_id get_value_def)
  next
    case (Some v)
    show ?thesis
    proof (cases v)
      case (NI w)
      then show ?thesis using r i Some assms(2) z
        by (simp add: reads_value_def lnvs_get_def lua_tolstring_def c_string_id get_value_def)
    next
      case (NS x)
      have e1: "e1 = mism" using r i Some NS by (simp add: reads_value_def)
      have x: "if length x < OUT_STR then e2 = ESP_OK \<and> o2 = x @ [CHR 0x00] \<and> n2 = Suc (length x)
          else e2 = ESP_ERR_NVS_INVALID_LENGTH"
        using r t Some NS by (simp add: reads_value_def split: if_splits) (metis Pair_inject fst_conv)+
      show ?thesis
        using m e1 x i t Some NS assms(2) z
        by (auto simp: lnvs_get_def lua_tolstring_def c_string_id get_value_def get_block_def split: if_splits)
    qed
  qed
qed

lemma key_exist_ok:
  assumes "nvs_laws lib opened store mism" "opened (nvs_handle s) (storage s)" "nvs_key k"
  shows "key_exist lib k s =
    (case store (storage s) k of None \<Rightarrow> False | Some (NI i) \<Rightarrow> mism \<noteq> ESP_ERR_NVS_NOT_FOUND | Some (NS t) \<Rightarrow> length t < OUT_STR)"
proof -
  have r: "reads_value lib mism (nvs_handle s) k (storage s) (store (storage s) k)"
    and m: "mism = ESP_ERR_NVS_NOT_FOUND \<or> mism = ESP_ERR_OTHER"
    using assms by (simp_all add: nvs_laws_def)
  show ?thesis
    using r m
    by (auto simp: key_exist_def reads_value_def Let_def split: option.splits nvs_value.splits if_splits)
qed

lemma put_commit_ok:
  assumes laws: "nvs_laws lib opened store mism" and ch: "changes_to opened store (nvs_handle s) (storage s) m r"
    and p: "put_commit lib r s = Some (Inr [Lua_integer 0], s')"
  shows "is_open s' = is_open s" "opened (nvs_handle s') (storage s')" "store (storage s') = m" "nvs_handle s' = nvs_handle s"
proof -
  obtain e n where r: "r = (e, n)" by fastforce
  from p r have e: "e = ESP_OK" by (auto simp: put_commit_def Let_def split: if_splits)
  obtain e' n' where c: "nvs_commit lib (nvs_handle s) n = (e', n')" by fastforce
  have "opened (nvs_handle s) n" "store n = m" using ch r e by (simp_all add: changes_to_def)
  with laws have "changes_to opened store (nvs_handle s) n m (e', n')" by (auto simp: nvs_laws_def c [symmetric])
  then have n': "opened (nvs_handle s) n'" "store n' = m" using \<open>store n = m\<close> by (auto simp: changes_to_def split: if_splits)
  have "s' = s \<lparr>storage := n'\<rparr>" using p r e c by (simp add: put_commit_def Let_def)
  with n' show "is_open s' = is_open s" "opened (nvs_handle s') (storage s')" "store (storage s') = m" "nvs_handle s' = nvs_handle s"
    by simp_all
qed

text \<open>The value put; a fraction is truncated.\<close>

definition put_value :: "lua_value \<Rightarrow> nvs_value" where
  "put_value v = (case v of Lua_string t \<Rightarrow> NS (c_string t) | Lua_integer i \<Rightarrow> NI i
    | Lua_fraction m n \<Rightarrow> NI (lua_trunc m n) | Lua_boolean b \<Rightarrow> NI (if b then 1 else 0) | _ \<Rightarrow> NI 0)"

lemma lnvs_put_ok:
  assumes laws: "nvs_laws lib opened store mism" and s: "is_open s = 1" "opened (nvs_handle s) (storage s)"
    and key: "nvs_key k" and n: "store (storage s) k = None"
    and p: "lnvs_put lib text [Lua_string k, v] s = Some (Inr [Lua_integer 0], s')"
  shows "is_open s' = 1 \<and> opened (nvs_handle s') (storage s') \<and> store (storage s') = (store (storage s))(k \<mapsto> put_value v)"
proof -
  let ?h = "nvs_handle s"
  have a: "lua_arg [Lua_string k, v] 1 = Lua_string k" "lua_arg [Lua_string k, v] 2 = v"
    by (simp_all add: lua_arg_def)
  have k: "CHR 0x00 \<notin> set k" "store (storage s) k = None" using key n by (simp_all add: nvs_key_def)
  have ne: "\<not> key_exist lib k s" using key_exist_ok [OF laws s(2) key] k(2) by simp
  have si: "changes_to opened store ?h (storage s) ((store (storage s))(k \<mapsto> NI i)) (nvs_set_i32 lib ?h k i (storage s))" for i
    using laws s(2) key k(2) unfolding nvs_laws_def by auto
  have ss: "changes_to opened store ?h (storage s) ((store (storage s))(k \<mapsto> NS t)) (nvs_set_str lib ?h k t (storage s))" for t
    using laws s(2) key k(2) unfolding nvs_laws_def by auto
  show ?thesis
  proof (cases v)
    case (Lua_string t)
    then have "put_commit lib (nvs_set_str lib ?h k (c_string t) (storage s)) s = Some (Inr [Lua_integer 0], s')"
      using p s(1) k(1) ne a by (simp add: lnvs_put_def lua_tolstring_def c_string_id Let_def)
    from put_commit_ok [OF laws ss this] s(1) Lua_string show ?thesis by (simp add: put_value_def)
  next
    case (Lua_integer i)
    then have "put_commit lib (nvs_set_i32 lib ?h k i (storage s)) s = Some (Inr [Lua_integer 0], s')"
      using p s(1) k(1) ne a by (simp add: lnvs_put_def lua_tolstring_def c_string_id Let_def i32_def split: if_splits)
    from put_commit_ok [OF laws si this] s(1) Lua_integer show ?thesis by (simp add: put_value_def)
  next
    case (Lua_fraction m n)
    then have "put_commit lib (nvs_set_i32 lib ?h k (lua_trunc m n) (storage s)) s = Some (Inr [Lua_integer 0], s')"
      using p s(1) k(1) ne a by (simp add: lnvs_put_def lua_tolstring_def c_string_id Let_def i32_def split: if_splits)
    from put_commit_ok [OF laws si this] s(1) Lua_fraction show ?thesis by (simp add: put_value_def)
  next
    case (Lua_boolean b)
    then have "put_commit lib (nvs_set_i32 lib ?h k (if b then 1 else 0) (storage s)) s = Some (Inr [Lua_integer 0], s')"
      using p s(1) k(1) ne a by (simp add: lnvs_put_def lua_tolstring_def c_string_id Let_def)
    from put_commit_ok [OF laws si this] s(1) Lua_boolean show ?thesis by (simp add: put_value_def)
  qed (use p s(1) k(1) ne a in \<open>simp_all add: lnvs_put_def lua_tolstring_def c_string_id Let_def\<close>)
qed


text \<open>A storage in memory, for the witnesses.\<close>

definition ram_nvs :: "(string \<times> nvs_value) list nvs_lib" where
  "ram_nvs = \<lparr>
     nvs_open = (\<lambda>n. (ESP_OK, 1, n)),
     nvs_close = (\<lambda>h n. n),
     nvs_get_i32 = (\<lambda>h k n. case map_of n k of Some (NI i) \<Rightarrow> (ESP_OK, i) | _ \<Rightarrow> (ESP_ERR_NVS_NOT_FOUND, 0)),
     nvs_get_str = (\<lambda>h k sz n. case map_of n k of
        Some (NS t) \<Rightarrow> if length t < sz then (ESP_OK, t @ [CHR 0x00], Suc (length t)) else (ESP_ERR_NVS_INVALID_LENGTH, [], Suc (length t))
      | _ \<Rightarrow> (ESP_ERR_NVS_NOT_FOUND, [], 0)),
     nvs_set_i32 = (\<lambda>h k i n. (ESP_OK, (k, NI i) # n)),
     nvs_set_str = (\<lambda>h k t n. (ESP_OK, (k, NS t) # n)),
     nvs_commit = (\<lambda>h n. (ESP_OK, n)),
     nvs_erase_key = (\<lambda>h k n. (ESP_OK, filter (\<lambda>e. fst e \<noteq> k) n)),
     nvs_erase_all = (\<lambda>h n. (ESP_OK, []))\<rparr>"

definition ram_opened :: "nat \<Rightarrow> (string \<times> nvs_value) list \<Rightarrow> bool" where "ram_opened h n \<longleftrightarrow> h = 1"

definition ram_settings :: "(string \<times> nvs_value) list nvs_state" where
  "ram_settings = \<lparr>storage = [(''ssid'', NS ''home'')], nvs_handle = 1, is_open = 1\<rparr>"

lemma ram_nvs_laws: "nvs_laws ram_nvs ram_opened map_of ESP_ERR_NVS_NOT_FOUND"
proof -
  have "map_of (filter (\<lambda>e. fst e \<noteq> k) n) = (map_of n)(k := None)" for k :: string and n :: "(string \<times> nvs_value) list"
    by (induction n) (auto simp: fun_eq_iff)
  then show ?thesis
    by (auto simp: nvs_laws_def reads_value_def changes_to_def ram_opened_def ram_nvs_def split: option.splits nvs_value.splits)
qed

section \<open>Properties\<close>

text \<open>
  C26: On an open handle, a value that nvs.put has stored (result 0) under a key that had none is what
  nvs.get returns for the key from then on, and get of any other key returns what it did. A number is
  returned without its fraction, a boolean as 0 or 1, a string of up to 127 characters, which ends at
  its first zero, with that terminating zero as one more character. For a longer string get returns
  the key. Keys have 1 to 15 characters, none of them zero; the storage keeps the laws nvs_laws.
\<close>

theorem nvs_put_get:
  assumes "nvs_laws lib opened store mism" "is_open s = 1" "opened (nvs_handle s) (storage s)"
    and "nvs_key k" "store (storage s) k = None"
    and "lnvs_put lib text [Lua_string k, v] s = Some (Inr [Lua_integer 0], s')"
  shows "lnvs_get lib text [Lua_string k] s' = Some (Inr [case v of
      Lua_string t \<Rightarrow> (if length (c_string t) < 128 then Lua_string (c_string t @ [CHR 0x00]) else Lua_string k)
    | Lua_integer i \<Rightarrow> Lua_integer i
    | Lua_fraction m n \<Rightarrow> Lua_integer (if m < 0 then - ((- m) div 2 ^ n) else m div 2 ^ n)
    | Lua_boolean b \<Rightarrow> Lua_integer (if b then 1 else 0)
    | _ \<Rightarrow> Lua_integer 0], s') \<and>
    (\<forall>k'. k' \<noteq> k \<longrightarrow> nvs_key k' \<longrightarrow>
      map_option fst (lnvs_get lib text [Lua_string k'] s') = map_option fst (lnvs_get lib text [Lua_string k'] s))"
proof -
  from lnvs_put_ok [OF assms] have s': "is_open s' = 1" "opened (nvs_handle s') (storage s')"
    and st: "store (storage s') = (store (storage s))(k \<mapsto> put_value v)" by simp_all
  show ?thesis
    using lnvs_get_ok [OF assms(1) s' assms(4), of "text"] lnvs_get_ok [OF assms(1) s', of _ "text"] lnvs_get_ok [OF assms(1-3), of _ "text"]
    by (auto simp: st get_value_def put_value_def OUT_STR_def lua_trunc_def split: lua_value.splits)
qed

text \<open>The number 1.5 comes back as 1.\<close>

lemma nvs_put_get_witness:
  "\<exists>s'. lnvs_put ram_nvs (\<lambda>_. []) [Lua_string ''scale'', Lua_fraction 3 1] ram_settings = Some (Inr [Lua_integer 0], s') \<and>
     lnvs_get ram_nvs (\<lambda>_. []) [Lua_string ''scale''] s' = Some (Inr [Lua_integer 1], s')"
proof -
  let ?s' = "ram_settings \<lparr>storage := (''scale'', NI 1) # storage ram_settings\<rparr>"
  have p: "lnvs_put ram_nvs (\<lambda>_. []) [Lua_string ''scale'', Lua_fraction 3 1] ram_settings = Some (Inr [Lua_integer 0], ?s')"
    by (simp add: lnvs_put_def lua_arg_def lua_tolstring_def c_string_def key_exist_def put_commit_def ram_nvs_def ram_settings_def
        i32_def lua_trunc_def)
  have "is_open ram_settings = 1" "ram_opened (nvs_handle ram_settings) (storage ram_settings)" "nvs_key ''scale''"
    "map_of (storage ram_settings) ''scale'' = None"
    by (simp_all add: ram_settings_def ram_opened_def nvs_key_def)
  from nvs_put_get [OF ram_nvs_laws this p] p show ?thesis by simp
qed



end
