(* ===== verification/Lua_Utils.thy ===== *)
theory Lua_Utils
  imports Lua_Api Utils_Base64 Utils_Datetime
begin

text \<open>
  The Lua module of modules/utils.c: base64 and the leap year test for scripts, with the buffers it
  gives the functions of utils/. The memory that malloc returned is the list of its bytes; a write
  past it, a string without its zero and a NULL pointer are the value None.
\<close>

section \<open>The code\<close>

definition chars_bytes :: "string \<Rightarrow> u8 list" where
  "chars_bytes s = map (\<lambda>c. of_nat (of_char c)) s"

definition bytes_chars :: "u8 list \<Rightarrow> string" where
  "bytes_chars bs = map (\<lambda>b. char_of (unat b)) bs"

text \<open>The digits of one byte: letters follow the decimal digits after a gap of seven characters.\<close>

definition hex_digit :: "u8 \<Rightarrow> u8" where
  "hex_digit d = (let c = 48 + d in if c > 57 then c + 7 else c)"

fun hex_loop :: "u8 list \<Rightarrow> nat \<Rightarrow> nat \<Rightarrow> u8 list \<Rightarrow> u8 list option" where
  "hex_loop src i 0 dest = Some dest"
| "hex_loop src i (Suc n) dest = do {
     b \<leftarrow> get_at src i;
     dest \<leftarrow> set_at dest (i * 2) (hex_digit (b div 16));
     dest \<leftarrow> set_at dest (i * 2 + 1) (hex_digit (b mod 16));
     hex_loop src (i + 1) n dest
   }"

definition HexToStr :: "u8 list \<Rightarrow> u8 list \<Rightarrow> nat \<Rightarrow> u8 list option" where
  "HexToStr dest src n = do {
     dest \<leftarrow> hex_loop src 0 n dest;
     set_at dest (n * 2) 0
   }"

text \<open>The string in a buffer up to its first zero, as lua_pushstring reads it.\<close>

definition read_string :: "string \<Rightarrow> string option" where
  "read_string buff = (if CHR 0x00 \<in> set buff then Some (c_string buff) else None)"

definition base64_encode0 :: "number_format \<Rightarrow> bool \<Rightarrow> lua_value list \<Rightarrow> lua_value list option" where
  "base64_encode0 text malloc_ok args = do {
     t \<leftarrow> lua_tolstring text (lua_arg args 1);
     let str = c_string t;
     if malloc_ok then do {
       (_, out) \<leftarrow> base64_encode (chars_bytes str) (int (length str)) True;
       buff \<leftarrow> put_block (replicate (length str * 2) (CHR 0x00)) 0 out;
       res \<leftarrow> read_string buff;
       Some [Lua_string res]
     } else None
   }"

definition base64_decode0 :: "number_format \<Rightarrow> bool \<Rightarrow> lua_value list \<Rightarrow> lua_value list option" where
  "base64_decode0 text malloc_ok args = do {
     t \<leftarrow> lua_tolstring text (lua_arg args 1);
     let str = c_string t;
     if malloc_ok then do {
       buff \<leftarrow> put_block (replicate (length str * 2) (CHR 0x00)) 0 (bytes_chars (snd (base64_decode str)));
       res \<leftarrow> read_string buff;
       Some [Lua_string res]
     } else None
   }"

text \<open>What is not a number counts as 0.\<close>

definition leapyear0 :: "(string \<Rightarrow> int option) \<Rightarrow> lua_value list \<Rightarrow> lua_value list" where
  "leapyear0 num args =
     (let year = (case luaL_checkinteger num (lua_arg args 1) of Some n \<Rightarrow> n | None \<Rightarrow> 0)
      in [Lua_boolean (isLeapyear year \<noteq> 0)])"

section \<open>Properties\<close>

lemma bytes_chars_bytes [simp]: "bytes_chars (chars_bytes s) = s"
proof -
  have "char_of (unat (of_nat (of_char c) :: u8)) = c" for c by (simp add: unat_of_nat)
  then show ?thesis by (simp add: bytes_chars_def chars_bytes_def o_def)
qed

lemma length_chars_bytes [simp]: "length (chars_bytes s) = length s"
  by (simp add: chars_bytes_def)

lemma read_string_app: "CHR 0x00 \<notin> set s \<Longrightarrow> read_string (s @ CHR 0x00 # xs) = Some s"
  by (induction s) (auto simp: read_string_def c_string_def)

text \<open>The text of n characters needs four for every three begun and a zero; the buffer has 2n.\<close>

lemma encoded_fits: "4 * ((n + 2) div 3) + 1 \<le> n * 2 \<longleftrightarrow> n \<notin> {0, 1, 2, 4 :: nat}"
  by auto presburger+

text \<open>
  A script gets back from utils.base64_decode what it gave utils.base64_encode, unless the text has
  0, 1, 2 or 4 characters: then the encoder writes past its buffer.
\<close>

lemma utils_base64:
  assumes "CHR 0x00 \<notin> set s"
  shows "if length s \<in> {0, 1, 2, 4} then base64_encode0 text True [Lua_string s] = None
    else (\<exists>e. base64_encode0 text True [Lua_string s] = Some [Lua_string e] \<and>
      base64_decode0 text True [Lua_string e] = Some [Lua_string s])"
proof -
  let ?b = "chars_bytes s"
  have l: "length ?b = length s" by simp
  obtain e where e: "e = padded ?b" "length e = 4 * ((length s + 2) div 3)" "CHR 0x00 \<notin> set e"
  proof -
    have "set (padded ?b) \<subseteq> set base64_chars \<union> {CHR ''=''}" using body_chars [of ?b] by (auto simp: padded_def)
    then have "CHR 0x00 \<notin> set (padded ?b)" by (auto simp: base64_chars_def)
    moreover have "length (padded ?b) = 4 * ((length s + 2) div 3)" using length_body [of ?b] by (simp add: padded_def)
    ultimately show ?thesis using that by blast
  qed
  have enc: "base64_encode ?b (int (length s)) True = Some (length e, e @ [CHR 0x00])"
    using encode_padded [of ?b] e(1,2) by simp
  have dec: "base64_decode e = (int (length s), ?b)"
    using decode_padded [of ?b "[]"] by (simp add: base64_decode_def e(1))
  have arg: "lua_tolstring text (lua_arg [Lua_string x] 1) = Some x" for x by (simp add: lua_tolstring_def)
  have run: "base64_encode0 text True [Lua_string s] = do {
      buff \<leftarrow> put_block (replicate (length s * 2) (CHR 0x00)) 0 (e @ [CHR 0x00]);
      res \<leftarrow> read_string buff;
      Some [Lua_string res] }"
    by (simp only: base64_encode0_def arg bind.bind_lunit Let_def c_string_id [OF assms] enc prod.case if_True)
  show ?thesis
  proof (cases "length s \<in> {0, 1, 2, 4}")
    case True
    then have "\<not> length (e @ [CHR 0x00]) \<le> length s * 2" using encoded_fits [of "length s"] e(2) by simp
    then have "put_block (replicate (length s * 2) (CHR 0x00)) 0 (e @ [CHR 0x00]) = None"
      by (simp add: put_block_def)
    then have "base64_encode0 text True [Lua_string s] = None" unfolding run by (simp only: bind.bind_lzero)
    then show ?thesis by (simp only: if_P [OF True])
  next
    case False
    then have fit: "length e + 1 \<le> length s * 2" using encoded_fits [of "length s"] e(2) by simp
    then have "put_block (replicate (length s * 2) (CHR 0x00)) 0 (e @ [CHR 0x00]) =
        Some (e @ CHR 0x00 # drop (Suc (length e)) (replicate (length s * 2) (CHR 0x00)))"
      by (simp add: put_block_def)
    then have "base64_encode0 text True [Lua_string s] = Some [Lua_string e]"
      unfolding run by (simp only: bind.bind_lunit read_string_app [OF e(3)])
    moreover have "base64_decode0 text True [Lua_string e] = Some [Lua_string s]"
    proof -
      have "length s < length e * 2"
        using e(2) fit div_mult_mod_eq [of "length s + 2" 3] mod_less_divisor [of 3 "length s + 2"] by linarith
      then obtain k where k: "length e * 2 = length s + Suc k" using less_imp_Suc_add by (metis add_Suc_right)
      have "put_block (replicate (length e * 2) (CHR 0x00)) 0 s = Some (s @ CHR 0x00 # replicate k (CHR 0x00))"
        unfolding put_block_def drop_replicate length_replicate k by simp
      then show ?thesis
        unfolding base64_decode0_def arg bind.bind_lunit Let_def c_string_id [OF e(3)] dec
        by (simp add: read_string_app [OF assms])
    qed
    ultimately show ?thesis unfolding if_not_P [OF False] by blast
  qed
qed

end
