(* ===== verification/Lua_Net.thy ===== *)
theory Lua_Net
  imports Lua_Api Lua_Registry
begin

text \<open>
  The Lua module for sockets, modules/net.c, and the texts of addresses, modules/ip_fmt.c. A socket is
  a userdata of Lua at an address of the heap; 0 is NULL. lwIP is a parameter: its state is of
  any type, its calls are functions on that state, and the fields of its control blocks that the module
  reads are a view of it. What the module has handed to its resolver and not got back is kept in
  resolving. The calls into Lua end a function: what it does when the called function has returned is
  a frame, since a script, a callback of lwIP or the collector may run before. None is the use of a freed object, of a
  freed control block or of memory that was not written.
\<close>

section \<open>Data\<close>

datatype net_type = TYPE_TCP_SERVER | TYPE_TCP_CLIENT | TYPE_UDP_SOCKET

abbreviation (input) TYPE_TCP :: int where "TYPE_TCP \<equiv> 1"
abbreviation (input) TYPE_UDP :: int where "TYPE_UDP \<equiv> 2"

text \<open>
  The userdata. The union of server and client is the fields of the client; cb_accept_ref lies at its
  first field.
\<close>

record lnet_userdata =
  type :: net_type
  self_ref :: int
  pcb :: nat
  wait_dns :: int
  cb_dns_ref :: int
  cb_receive_ref :: int
  cb_sent_ref :: int
  hold :: int
  cb_connect_ref :: int
  cb_disconnect_ref :: int
  cb_reconnect_ref :: int

abbreviation (input) cb_accept_ref :: "lnet_userdata \<Rightarrow> int" where "cb_accept_ref ud \<equiv> wait_dns ud"

datatype ip_addr = IP4 u32 | IP6 u32 u32 u32 u32

datatype err =
  ERR_OK | ERR_MEM | ERR_BUF | ERR_TIMEOUT | ERR_RTE | ERR_INPROGRESS | ERR_VAL | ERR_WOULDBLOCK
| ERR_ABRT | ERR_RST | ERR_CLSD | ERR_CONN | ERR_ARG | ERR_USE | ERR_IF | ERR_ISCONN | ERR_other int

text \<open>
  An event. A sender of data without an address leaves src_ip unwritten; the second argument of SENTDATA is
  accept_newpcb, which only post_net_accept writes.
\<close>

datatype net_event =
  DNSFOUND nat ip_addr
| DNSSTATIC int ip_addr
| CONNECTED nat
| ACCEPT nat nat
| RECVDATA nat "ip_addr option" u16 string
| SENTDATA nat "nat option"
| ERR nat err

text \<open>The argument of a request to the resolver, and of the registration of a callback.\<close>

datatype dns_request = Dns_for nat | Dns_static int

datatype registration = Reg_arg nat | Reg_err | Reg_recv | Reg_sent | Reg_accept

record 'w net_state =
  heap :: "nat \<rightharpoonup> lnet_userdata"
  registry :: "int \<rightharpoonup> lua_value"
  myref :: int
  medium :: "net_event list"
  high :: "net_event list"
  resolving :: "dns_request list"
  lwip :: 'w

record tcp_pcb =
  state_closed :: bool
  remote_port :: u16
  remote_ip :: ip_addr
  local_port :: u16
  local_ip :: ip_addr

record 'w net_env =
  new_ref :: "(int \<rightharpoonup> lua_value) \<Rightarrow> int"
  new_userdata :: "(nat \<rightharpoonup> lnet_userdata) \<Rightarrow> nat option"
  unwritten :: lnet_userdata
  num_text :: number_format
  text_num :: "string \<Rightarrow> int option"
  malloc_ok :: "'w net_state \<Rightarrow> bool"
  post_ok :: "'w net_state \<Rightarrow> bool"
  err_code :: "err \<Rightarrow> int"
  ip_addr_any :: ip_addr
  ip_addr_isany :: "ip_addr \<Rightarrow> bool"
  ip4addr_ntoa :: "u32 \<Rightarrow> string"
  ip6addr_ntoa :: "u32 \<times> u32 \<times> u32 \<times> u32 \<Rightarrow> string"
  ipaddr_aton :: "string \<Rightarrow> ip_addr option"
  ip4addr_aton :: "string \<Rightarrow> u32 option"
  tcp_pcb_at :: "'w \<Rightarrow> nat \<Rightarrow> tcp_pcb option"
  udp_pcb_at :: "'w \<Rightarrow> nat \<Rightarrow> (ip_addr \<times> u16) option"
  tcp_new :: "'w \<Rightarrow> nat \<times> 'w"
  tcp_register :: "nat \<Rightarrow> registration \<Rightarrow> 'w \<Rightarrow> 'w"
  set_remote_port :: "nat \<Rightarrow> u16 \<Rightarrow> 'w \<Rightarrow> 'w"
  tcp_bind :: "nat \<Rightarrow> ip_addr \<Rightarrow> u16 \<Rightarrow> 'w \<Rightarrow> err \<times> 'w"
  tcp_listen :: "nat \<Rightarrow> 'w \<Rightarrow> nat \<times> 'w"
  tcp_connect :: "nat \<Rightarrow> ip_addr \<Rightarrow> u16 \<Rightarrow> 'w \<Rightarrow> 'w"
  tcp_write :: "nat \<Rightarrow> string \<Rightarrow> 'w \<Rightarrow> err \<times> 'w"
  tcp_recved :: "nat \<Rightarrow> u16 \<Rightarrow> 'w \<Rightarrow> 'w"
  tcp_accepted :: "nat \<Rightarrow> 'w \<Rightarrow> 'w"
  tcp_close :: "nat \<Rightarrow> 'w \<Rightarrow> err \<times> 'w"
  tcp_abort :: "nat \<Rightarrow> 'w \<Rightarrow> 'w"
  udp_new :: "'w \<Rightarrow> nat \<times> 'w"
  udp_recv :: "nat \<Rightarrow> nat \<Rightarrow> 'w \<Rightarrow> 'w"
  udp_bind :: "nat \<Rightarrow> ip_addr \<Rightarrow> u16 \<Rightarrow> 'w \<Rightarrow> err \<times> 'w"
  udp_remove :: "nat \<Rightarrow> 'w \<Rightarrow> 'w"
  udp_sendto :: "nat \<Rightarrow> string \<Rightarrow> ip_addr \<Rightarrow> u16 \<Rightarrow> 'w \<Rightarrow> err \<times> 'w"
  pbuf_alloc_ok :: "'w \<Rightarrow> u16 \<Rightarrow> bool"
  pbuf_free :: "nat \<Rightarrow> 'w \<Rightarrow> 'w"
  dns_gethostbyname :: "string \<Rightarrow> dns_request \<Rightarrow> 'w \<Rightarrow> err \<times> ip_addr \<times> 'w"
  dns_setserver :: "int \<Rightarrow> ip_addr \<Rightarrow> 'w \<Rightarrow> 'w"
  dns_getserver :: "int \<Rightarrow> 'w \<Rightarrow> ip_addr"
  dns_max_servers :: int
  igmp_joingroup :: "u32 \<Rightarrow> u32 \<Rightarrow> 'w \<Rightarrow> 'w"
  igmp_leavegroup :: "u32 \<Rightarrow> u32 \<Rightarrow> 'w \<Rightarrow> 'w"

text \<open>What is left to do after a call into Lua, and how a function ends.\<close>

datatype frame =
  After_dns nat ip_addr
| After_err nat
| After_send err
| After_event
| After_pcall

datatype outcome = Return "lua_value list" | Raise lua_error | Call lua_value "lua_value list" frame

type_synonym 'w net_result = "(outcome \<times> 'w net_state) option"

abbreviation raise :: "string \<Rightarrow> 'w net_state \<Rightarrow> 'w net_result" where
  "raise msg s \<equiv> Some (Raise (Lua_error msg), s)"

text \<open>What lua_rawgeti pushes, and the object at an address.\<close>

definition rawgeti :: "'w net_state \<Rightarrow> int \<Rightarrow> lua_value" where
  "rawgeti s r = (case registry s r of Some v \<Rightarrow> v | None \<Rightarrow> Lua_nil)"

definition put_ud :: "nat \<Rightarrow> lnet_userdata \<Rightarrow> 'w net_state \<Rightarrow> 'w net_state" where
  "put_ud a ud s = s\<lparr>heap := (heap s)(a \<mapsto> ud)\<rparr>"

definition upd_lwip :: "('w \<Rightarrow> 'w) \<Rightarrow> 'w net_state \<Rightarrow> 'w net_state" where
  "upd_lwip f s = s\<lparr>lwip := f (lwip s)\<rparr>"

text \<open>luaL_ref of nil gives LUA_REFNIL and no entry.\<close>

definition add_ref :: "'w net_env \<Rightarrow> lua_value \<Rightarrow> 'w net_state \<Rightarrow> int \<times> 'w net_state" where
  "add_ref env v s =
     (if v = Lua_nil then (- 1, s)
      else (case luaL_ref (new_ref env) v (registry s) of (r, reg) \<Rightarrow> (r, s\<lparr>registry := reg\<rparr>)))"

definition unref :: "int \<Rightarrow> 'w net_state \<Rightarrow> 'w net_state" where
  "unref r s = s\<lparr>registry := luaL_unref r (registry s)\<rparr>"

section \<open>The texts of addresses\<close>

definition hex_char :: "nat \<Rightarrow> char" where
  "hex_char n = (''0123456789abcdef'' ! n)"

definition hex2 :: "u8 \<Rightarrow> string" where
  "hex2 b = [hex_char (unat b div 16), hex_char (unat b mod 16)]"

definition macstr :: "u8 list \<Rightarrow> string option" where
  "macstr mac = do {
     a \<leftarrow> get_at mac 0; b \<leftarrow> get_at mac 1; c \<leftarrow> get_at mac 2;
     d \<leftarrow> get_at mac 3; e \<leftarrow> get_at mac 4; f \<leftarrow> get_at mac 5;
     Some (hex2 a @ '':'' @ hex2 b @ '':'' @ hex2 c @ '':'' @ hex2 d @ '':'' @ hex2 e @ '':'' @ hex2 f) }"

definition ip4str :: "'w net_env \<Rightarrow> u32 \<Rightarrow> string" where "ip4str env ip = ip4addr_ntoa env ip"

definition ip6str :: "'w net_env \<Rightarrow> u32 \<times> u32 \<times> u32 \<times> u32 \<Rightarrow> string" where "ip6str env ip = ip6addr_ntoa env ip"

definition ipstr :: "'w net_env \<Rightarrow> ip_addr \<Rightarrow> string" where
  "ipstr env ip = (case ip of IP4 w \<Rightarrow> ip4str env w | IP6 a b c d \<Rightarrow> ip6str env (a, b, c, d))"

section \<open>Errors, creation and the callbacks of lwIP\<close>

definition net_mycall :: "'w net_state \<Rightarrow> 'w net_result" where
  "net_mycall s =
     (if myref s \<noteq> LUA_NOREF then Some (Call (rawgeti s (myref s)) [] After_pcall, s) else Some (Return [], s))"

definition net_myregistrer :: "'w net_env \<Rightarrow> lua_value list \<Rightarrow> 'w net_state \<Rightarrow> 'w net_result" where
  "net_myregistrer env args s = (case add_ref env (lua_arg args 1) s of (r, s) \<Rightarrow> Some (Return [], s\<lparr>myref := r\<rparr>))"

definition lwip_lua_checkerr :: "err \<Rightarrow> 'w net_state \<Rightarrow> 'w net_result" where
  "lwip_lua_checkerr e s =
     (case e of
        ERR_OK \<Rightarrow> Some (Return [], s)
      | ERR_MEM \<Rightarrow> raise ''out of memory'' s
      | ERR_BUF \<Rightarrow> raise ''buffer error'' s
      | ERR_TIMEOUT \<Rightarrow> raise ''timeout'' s
      | ERR_RTE \<Rightarrow> raise ''routing problem'' s
      | ERR_INPROGRESS \<Rightarrow> raise ''in progress'' s
      | ERR_VAL \<Rightarrow> raise ''illegal value'' s
      | ERR_WOULDBLOCK \<Rightarrow> raise ''would block'' s
      | ERR_ABRT \<Rightarrow> raise ''connection aborted'' s
      | ERR_RST \<Rightarrow> raise ''connection reset'' s
      | ERR_CLSD \<Rightarrow> raise ''connection closed'' s
      | ERR_CONN \<Rightarrow> raise ''not connected'' s
      | ERR_ARG \<Rightarrow> raise ''illegal argument'' s
      | ERR_USE \<Rightarrow> raise ''address in use'' s
      | ERR_IF \<Rightarrow> raise ''netif error'' s
      | ERR_ISCONN \<Rightarrow> raise ''already connected'' s
      | ERR_other _ \<Rightarrow> raise ''unknown error'' s)"

text \<open>The fields that the type does not use keep what the memory held.\<close>

definition init_ud :: "net_type \<Rightarrow> lnet_userdata \<Rightarrow> lnet_userdata" where
  "init_ud t m =
     (let ud = m\<lparr>type := t, self_ref := LUA_NOREF, pcb := 0\<rparr>;
          sock = (\<lambda>ud. ud\<lparr>wait_dns := 0, cb_dns_ref := LUA_NOREF, cb_receive_ref := LUA_NOREF, cb_sent_ref := LUA_NOREF\<rparr>)
      in case t of
           TYPE_TCP_CLIENT \<Rightarrow>
             sock (ud\<lparr>cb_connect_ref := LUA_NOREF, cb_reconnect_ref := LUA_NOREF, cb_disconnect_ref := LUA_NOREF, hold := 0\<rparr>)
         | TYPE_UDP_SOCKET \<Rightarrow> sock ud
         | TYPE_TCP_SERVER \<Rightarrow> ud\<lparr>wait_dns := LUA_NOREF\<rparr>)"

text \<open>lua_newuserdata does not return without memory: it raises an error.\<close>

definition net_create :: "'w net_env \<Rightarrow> net_type \<Rightarrow> 'w net_state \<Rightarrow> 'w net_result" where
  "net_create env t s =
     (case new_userdata env (heap s) of
        None \<Rightarrow> raise ''not enough memory'' s
      | Some a \<Rightarrow> Some (Return [Lua_userdata a], put_ud a (init_ud t (unwritten env)) s))"

text \<open>An event is posted if there is memory for it and room in the queue, else it is freed.\<close>

definition post :: "'w net_env \<Rightarrow> (net_event \<Rightarrow> 'w net_state \<Rightarrow> 'w net_state) \<Rightarrow> net_event \<Rightarrow> 'w net_state \<Rightarrow> bool \<times> 'w net_state" where
  "post env queue ev s = (if malloc_ok env s \<and> post_ok env s then (True, queue ev s) else (False, s))"

definition to_medium :: "net_event \<Rightarrow> 'w net_state \<Rightarrow> 'w net_state" where
  "to_medium ev s = s\<lparr>medium := medium s @ [ev]\<rparr>"

definition to_high :: "net_event \<Rightarrow> 'w net_state \<Rightarrow> 'w net_state" where
  "to_high ev s = s\<lparr>high := high s @ [ev]\<rparr>"

definition post_net_err :: "'w net_env \<Rightarrow> nat \<Rightarrow> err \<Rightarrow> 'w net_state \<Rightarrow> bool \<times> 'w net_state" where
  "post_net_err env a e s = post env to_medium (ERR a e) s"

definition net_err_cb :: "'w net_env \<Rightarrow> nat \<Rightarrow> err \<Rightarrow> 'w net_state \<Rightarrow> 'w net_state option" where
  "net_err_cb env a e s =
     (if a = 0 then Some s
      else do {
        ud \<leftarrow> heap s a;
        if type ud \<noteq> TYPE_TCP_CLIENT \<or> self_ref ud = LUA_NOREF then Some s
        else Some (snd (post_net_err env a e (put_ud a (ud\<lparr>pcb := 0\<rparr>) s))) })"

definition post_net_connected :: "'w net_env \<Rightarrow> nat \<Rightarrow> 'w net_state \<Rightarrow> bool \<times> 'w net_state" where
  "post_net_connected env a s = post env to_medium (CONNECTED a) s"

definition net_connected_cb :: "'w net_env \<Rightarrow> nat \<Rightarrow> nat \<Rightarrow> err \<Rightarrow> 'w net_state \<Rightarrow> (err \<times> 'w net_state) option" where
  "net_connected_cb env a tpcb e s =
     (if a = 0 then Some (ERR_ABRT, s)
      else do {
        ud \<leftarrow> heap s a;
        if pcb ud \<noteq> tpcb then Some (ERR_ABRT, s)
        else if e \<noteq> ERR_OK then map_option (\<lambda>s. (ERR_ABRT, s)) (net_err_cb env a e s)
        else Some (ERR_OK, snd (post_net_connected env a s)) })"

definition post_net_dns :: "'w net_env \<Rightarrow> nat \<Rightarrow> ip_addr \<Rightarrow> 'w net_state \<Rightarrow> bool \<times> 'w net_state" where
  "post_net_dns env a addr s = post env to_medium (DNSFOUND a addr) s"

text \<open>Without an answer the address is that of any host.\<close>

definition net_dns_cb :: "'w net_env \<Rightarrow> ip_addr option \<Rightarrow> nat \<Rightarrow> 'w net_state \<Rightarrow> 'w net_state" where
  "net_dns_cb env ipaddr a s =
     (let addr = (case ipaddr of Some i \<Rightarrow> i | None \<Rightarrow> ip_addr_any env)
      in if a = 0 then s else snd (post_net_dns env a addr s))"

text \<open>A packet is its address and the bytes of its first buffer, whose length is p->len.\<close>

definition post_net_recv ::
    "'w net_env \<Rightarrow> nat \<Rightarrow> string \<Rightarrow> ip_addr option \<Rightarrow> u16 \<Rightarrow> 'w net_state \<Rightarrow> bool \<times> 'w net_state" where
  "post_net_recv env a payload ip port s = post env to_high (RECVDATA a ip port payload) s"

definition net_udp_recv_cb ::
    "'w net_env \<Rightarrow> nat \<Rightarrow> (nat \<times> string) option \<Rightarrow> ip_addr \<Rightarrow> u16 \<Rightarrow> 'w net_state \<Rightarrow> 'w net_state option" where
  "net_udp_recv_cb env a p addr port s = do {
     refuse \<leftarrow> (if a = 0 then Some True
       else do { ud \<leftarrow> heap s a; Some (pcb ud = 0 \<or> type ud \<noteq> TYPE_UDP_SOCKET \<or> self_ref ud = LUA_NOREF) });
     if refuse then (case p of Some (b, _) \<Rightarrow> Some (upd_lwip (pbuf_free env b) s) | None \<Rightarrow> Some s)
     else do { (_, payload) \<leftarrow> p; Some (snd (post_net_recv env a payload (Some addr) port s)) } }"

text \<open>The packet is not freed when its data has been copied.\<close>

definition net_tcp_recv_cb ::
    "'w net_env \<Rightarrow> nat \<Rightarrow> nat \<Rightarrow> (nat \<times> string) option \<Rightarrow> err \<Rightarrow> 'w net_state \<Rightarrow> (err \<times> 'w net_state) option" where
  "net_tcp_recv_cb env a tpcb p e s =
     (if a = 0 then Some (ERR_ABRT, s)
      else do {
        ud \<leftarrow> heap s a;
        if pcb ud = 0 \<or> type ud \<noteq> TYPE_TCP_CLIENT \<or> self_ref ud = LUA_NOREF then Some (ERR_ABRT, s)
        else (case p of
            None \<Rightarrow> do {
              s \<leftarrow> net_err_cb env a e s;
              let (r, w) = tcp_close env tpcb (lwip s);
              Some (r, s\<lparr>lwip := w\<rparr>) }
          | Some (_, payload) \<Rightarrow>
              (case post_net_recv env a payload None 0 s of
                 (ok, s) \<Rightarrow> Some (ERR_OK, if ok then upd_lwip (tcp_recved env tpcb (of_nat (length payload))) s else s))) })"

definition post_net_sent :: "'w net_env \<Rightarrow> nat \<Rightarrow> 'w net_state \<Rightarrow> bool \<times> 'w net_state" where
  "post_net_sent env a s = post env to_medium (SENTDATA a None) s"

definition net_sent_cb :: "'w net_env \<Rightarrow> nat \<Rightarrow> 'w net_state \<Rightarrow> (err \<times> 'w net_state) option" where
  "net_sent_cb env a s =
     (if a = 0 then Some (ERR_ABRT, s)
      else do {
        ud \<leftarrow> heap s a;
        if pcb ud = 0 \<or> type ud \<noteq> TYPE_TCP_CLIENT \<or> self_ref ud = LUA_NOREF then Some (ERR_ABRT, s)
        else if cb_sent_ref ud = LUA_NOREF then Some (ERR_OK, s)
        else Some (ERR_OK, snd (post_net_sent env a s)) })"

text \<open>The event of a new connection is posted as SENTDATA, with the new block in it.\<close>

definition post_net_accept :: "'w net_env \<Rightarrow> nat \<Rightarrow> nat \<Rightarrow> 'w net_state \<Rightarrow> bool \<times> 'w net_state" where
  "post_net_accept env a newpcb s = post env to_medium (SENTDATA a (Some newpcb)) s"

definition net_accept_cb :: "'w net_env \<Rightarrow> nat \<Rightarrow> nat \<Rightarrow> 'w net_state \<Rightarrow> (err \<times> 'w net_state) option" where
  "net_accept_cb env a newpcb s =
     (if a = 0 then Some (ERR_ABRT, s)
      else do {
        ud \<leftarrow> heap s a;
        if type ud \<noteq> TYPE_TCP_SERVER \<or> pcb ud = 0 then Some (ERR_ABRT, s)
        else if self_ref ud = LUA_NOREF \<or> cb_accept_ref ud = LUA_NOREF then Some (ERR_ABRT, s)
        else (case post_net_accept env a newpcb s of (ok, s) \<Rightarrow> Some (if ok then ERR_OK else ERR_ABRT, s)) })"

section \<open>The functions a script calls\<close>

definition net_createUDPSocket :: "'w net_env \<Rightarrow> 'w net_state \<Rightarrow> 'w net_result" where
  "net_createUDPSocket env s = net_create env TYPE_UDP_SOCKET s"

definition net_createServer :: "'w net_env \<Rightarrow> lua_value list \<Rightarrow> 'w net_state \<Rightarrow> 'w net_result" where
  "net_createServer env args s =
     (case luaL_optlong (text_num env) (lua_arg args 1) TYPE_TCP of
        None \<Rightarrow> Some (Raise (Arg_error 1 ''number expected''), s)
      | Some t \<Rightarrow>
     (case luaL_optlong (text_num env) (lua_arg args 2) 30 of
        None \<Rightarrow> Some (Raise (Arg_error 2 ''number expected''), s)
      | Some timeout \<Rightarrow>
          if t = TYPE_UDP then net_createUDPSocket env s
          else if t \<noteq> TYPE_TCP then raise ''invalid type'' s
          else net_create env TYPE_TCP_SERVER s))"

definition net_createConnection :: "'w net_env \<Rightarrow> lua_value list \<Rightarrow> 'w net_state \<Rightarrow> 'w net_result" where
  "net_createConnection env args s =
     (case luaL_optlong (text_num env) (lua_arg args 1) TYPE_TCP of
        None \<Rightarrow> Some (Raise (Arg_error 1 ''number expected''), s)
      | Some t \<Rightarrow>
     (case luaL_optlong (text_num env) (lua_arg args 2) 0 of
        None \<Rightarrow> Some (Raise (Arg_error 2 ''number expected''), s)
      | Some secure \<Rightarrow>
          if t = TYPE_UDP then net_createUDPSocket env s
          else if t \<noteq> TYPE_TCP then raise ''invalid type'' s
          else if secure \<noteq> 0 then raise ''secure connections not enabled'' s
          else net_create env TYPE_TCP_CLIENT s))"

text \<open>
  The object in the first argument. The only userdata there are are those of this module, and the
  metatable of each is that of its type.
\<close>

definition net_get_udata :: "lua_value list \<Rightarrow> 'w net_state \<Rightarrow> (nat \<times> lnet_userdata) option option" where
  "net_get_udata args s =
     (case lua_arg args 1 of
        Lua_userdata a \<Rightarrow> do { ud \<leftarrow> heap s a; Some (Some (a, ud)) }
      | _ \<Rightarrow> Some None)"

definition with_ud ::
    "lua_value list \<Rightarrow> (net_type \<Rightarrow> bool) \<Rightarrow> 'w net_state \<Rightarrow> (nat \<Rightarrow> lnet_userdata \<Rightarrow> 'w net_result) \<Rightarrow> 'w net_result" where
  "with_ud args ok s f = do {
     u \<leftarrow> net_get_udata args s;
     (case u of
        Some (a, ud) \<Rightarrow> if ok (type ud) then f a ud else raise ''invalid user data'' s
      | None \<Rightarrow> raise ''invalid user data'' s) }"

definition is_function :: "lua_value \<Rightarrow> bool" where
  "is_function v = (case v of Lua_function _ \<Rightarrow> True | _ \<Rightarrow> False)"

definition with_integer ::
    "'w net_env \<Rightarrow> lua_value list \<Rightarrow> nat \<Rightarrow> 'w net_state \<Rightarrow> (int \<Rightarrow> 'w net_result) \<Rightarrow> 'w net_result" where
  "with_integer env args i s f =
     (case luaL_checkinteger (text_num env) (lua_arg args i) of
        None \<Rightarrow> Some (Raise (Arg_error i ''number expected''), s)
      | Some n \<Rightarrow> f n)"

definition with_text ::
    "'w net_env \<Rightarrow> lua_value list \<Rightarrow> nat \<Rightarrow> 'w net_state \<Rightarrow> (string \<Rightarrow> 'w net_result) \<Rightarrow> 'w net_result" where
  "with_text env args i s f =
     (case lua_tolstring (num_text env) (lua_arg args i) of
        None \<Rightarrow> Some (Raise (Arg_error i ''string expected''), s)
      | Some t \<Rightarrow> f t)"

text \<open>The object gets a reference of its own, if it has none.\<close>

definition keep_self :: "'w net_env \<Rightarrow> nat \<Rightarrow> lnet_userdata \<Rightarrow> 'w net_state \<Rightarrow> lnet_userdata \<times> 'w net_state" where
  "keep_self env a ud s =
     (if self_ref ud = LUA_NOREF
      then (case add_ref env (Lua_userdata a) s of (r, s) \<Rightarrow> (ud\<lparr>self_ref := r\<rparr>, put_ud a (ud\<lparr>self_ref := r\<rparr>) s))
      else (ud, s))"

text \<open>The old reference is given back before the new one is taken.\<close>

definition renew_ref :: "'w net_env \<Rightarrow> int \<Rightarrow> lua_value \<Rightarrow> 'w net_state \<Rightarrow> int \<times> 'w net_state" where
  "renew_ref env old v s = add_ref env v (unref old s)"

text \<open>The address of net_listen: a port if there is a number, and a name if there is a text next.\<close>

definition listen_args ::
    "'w net_env \<Rightarrow> lua_value list \<Rightarrow> u16 \<times> string \<times> nat" where
  "listen_args env args =
     (let (port, stack) = (case luaL_checkinteger (text_num env) (lua_arg args 2) of
             Some n \<Rightarrow> (word_of_int n, 3) | None \<Rightarrow> (0, 2));
          (domain, stack) = (case lua_tolstring (num_text env) (lua_arg args stack) of
             Some t \<Rightarrow> (c_string t, stack + 1) | None \<Rightarrow> (''0.0.0.0'', stack))
      in (port, domain, stack))"

definition listen_tcp ::
    "'w net_env \<Rightarrow> nat \<Rightarrow> lnet_userdata \<Rightarrow> ip_addr \<Rightarrow> u16 \<Rightarrow> 'w net_state \<Rightarrow> 'w net_result" where
  "listen_tcp env a ud addr port s =
     (case tcp_new env (lwip s) of (p, w) \<Rightarrow>
        let s = s\<lparr>lwip := w\<rparr>
        in if p = 0 then raise ''cannot allocate PCB'' s
        else (case tcp_bind env p addr port (lwip s) of (e, w) \<Rightarrow>
          (case (if e \<noteq> ERR_OK then (p, e, w)
                 else (let w = tcp_register env p (Reg_arg a) w
                       in case tcp_listen env p w of (q, w) \<Rightarrow>
                            if q = 0 then (p, ERR_MEM, w) else (q, ERR_OK, tcp_register env q Reg_accept w))) of
             (p, e, w) \<Rightarrow>
               if e \<noteq> ERR_OK
               then (case tcp_close env p w of (_, w) \<Rightarrow> lwip_lua_checkerr e (put_ud a (ud\<lparr>pcb := 0\<rparr>) (s\<lparr>lwip := w\<rparr>)))
               else (case keep_self env a (ud\<lparr>pcb := p\<rparr>) (put_ud a (ud\<lparr>pcb := p\<rparr>) (s\<lparr>lwip := w\<rparr>)) of
                       (_, s) \<Rightarrow> Some (Return [], s)))))"

definition listen_udp ::
    "'w net_env \<Rightarrow> nat \<Rightarrow> lnet_userdata \<Rightarrow> ip_addr \<Rightarrow> u16 \<Rightarrow> 'w net_state \<Rightarrow> 'w net_result" where
  "listen_udp env a ud addr port s =
     (case udp_new env (lwip s) of (p, w) \<Rightarrow>
        let s = s\<lparr>lwip := w\<rparr>
        in if p = 0 then raise ''cannot allocate PCB'' s
        else (case udp_bind env p addr port (udp_recv env p a (lwip s)) of (e, w) \<Rightarrow>
          if e \<noteq> ERR_OK
          then lwip_lua_checkerr e (put_ud a (ud\<lparr>pcb := 0\<rparr>) (s\<lparr>lwip := udp_remove env p w\<rparr>))
          else (case keep_self env a (ud\<lparr>pcb := p\<rparr>) (put_ud a (ud\<lparr>pcb := p\<rparr>) (s\<lparr>lwip := w\<rparr>)) of
                  (_, s) \<Rightarrow> Some (Return [], s))))"

definition net_listen :: "'w net_env \<Rightarrow> lua_value list \<Rightarrow> 'w net_state \<Rightarrow> 'w net_result" where
  "net_listen env args s =
     with_ud args (\<lambda>t. t \<noteq> TYPE_TCP_CLIENT) s (\<lambda>a ud.
       if pcb ud \<noteq> 0 then raise ''already listening'' s
       else (case listen_args env args of (port, domain, stack) \<Rightarrow>
         case ipaddr_aton env domain of
           None \<Rightarrow> raise ''invalid IP address'' s
         | Some addr \<Rightarrow>
             if type ud = TYPE_TCP_SERVER then
               (if \<not> is_function (lua_arg args stack) then raise ''need callback'' s
                else (case renew_ref env (cb_accept_ref ud) (lua_arg args stack) s of
                  (r, s) \<Rightarrow> listen_tcp env a (ud\<lparr>wait_dns := r\<rparr>) addr port (put_ud a (ud\<lparr>wait_dns := r\<rparr>) s)))
             else listen_udp env a ud addr port s))"

text \<open>
  The request to the resolver, common to net_connect and net_dns: an answer at once is the event, a
  late one comes by net_dns_cb, and an error undoes what was done for it; failed is what else the
  caller undoes, on the object as it is in memory then.
\<close>

definition resolve ::
    "'w net_env \<Rightarrow> nat \<Rightarrow> lnet_userdata \<Rightarrow> string \<Rightarrow> ('w net_state \<Rightarrow> 'w net_state option) \<Rightarrow>
       'w net_state \<Rightarrow> 'w net_result" where
  "resolve env a ud domain failed s =
     (let ud = ud\<lparr>wait_dns := wait_dns ud + 1\<rparr>;
          unref_self = (self_ref ud = LUA_NOREF)
      in case keep_self env a ud (put_ud a ud s) of (ud, s) \<Rightarrow>
         case dns_gethostbyname env domain (Dns_for a) (lwip s) of (e, addr, w) \<Rightarrow>
           let s = s\<lparr>lwip := w\<rparr>
           in if e = ERR_OK then Some (Return [], net_dns_cb env (Some addr) a s)
           else if e = ERR_INPROGRESS then Some (Return [], s\<lparr>resolving := resolving s @ [Dns_for a]\<rparr>)
           else (let ud = ud\<lparr>wait_dns := wait_dns ud - 1\<rparr>;
                     (ud, s) = (if unref_self then (ud\<lparr>self_ref := LUA_NOREF\<rparr>, unref (self_ref ud) s) else (ud, s))
                 in do { s \<leftarrow> failed (put_ud a ud s); lwip_lua_checkerr e s }))"

text \<open>
  What net_connect undoes: tcp_abort frees the block and calls net_err_cb with ERR_ABRT before it returns; that does
  nothing when the object has no reference of its own, and posts an event otherwise.
\<close>

definition abort_connect :: "'w net_env \<Rightarrow> nat \<Rightarrow> nat \<Rightarrow> 'w net_state \<Rightarrow> 'w net_state option" where
  "abort_connect env a p s = do {
     s \<leftarrow> net_err_cb env a ERR_ABRT (upd_lwip (tcp_abort env p) s);
     ud \<leftarrow> heap s a;
     Some (put_ud a (ud\<lparr>pcb := 0\<rparr>) s) }"

definition net_connect :: "'w net_env \<Rightarrow> lua_value list \<Rightarrow> 'w net_state \<Rightarrow> 'w net_result" where
  "net_connect env args s =
     with_ud args (\<lambda>t. t = TYPE_TCP_CLIENT) s (\<lambda>a ud.
       if pcb ud \<noteq> 0 then raise ''already connected'' s
       else with_integer env args 2 s (\<lambda>n.
         let port = word_of_int n :: u16
         in if port = 0 then raise ''specify port'' s
         else let domain = (case lua_tolstring (num_text env) (lua_arg args 3) of Some t \<Rightarrow> c_string t | None \<Rightarrow> ''127.0.0.1'')
         in case tcp_new env (lwip s) of (p, w) \<Rightarrow>
           let s = s\<lparr>lwip := w\<rparr>
           in if p = 0 then raise ''cannot allocate PCB'' s
           else let w = tcp_register env p Reg_sent (tcp_register env p Reg_recv
                          (tcp_register env p Reg_err (tcp_register env p (Reg_arg a) (lwip s))));
                    s = s\<lparr>lwip := set_remote_port env p port w\<rparr>
                in resolve env a (ud\<lparr>pcb := p\<rparr>) domain (abort_connect env a p) s))"

text \<open>The field a name stands for: for a client also those of its connection.\<close>

definition cb_field :: "net_type \<Rightarrow> string \<Rightarrow> ((lnet_userdata \<Rightarrow> int) \<times> (int \<Rightarrow> lnet_userdata \<Rightarrow> lnet_userdata)) option" where
  "cb_field t name =
     (if t = TYPE_TCP_CLIENT \<and> name = ''connection'' then Some (cb_connect_ref, \<lambda>r ud. ud\<lparr>cb_connect_ref := r\<rparr>)
      else if t = TYPE_TCP_CLIENT \<and> name = ''disconnection'' then Some (cb_disconnect_ref, \<lambda>r ud. ud\<lparr>cb_disconnect_ref := r\<rparr>)
      else if t = TYPE_TCP_CLIENT \<and> name = ''reconnection'' then Some (cb_reconnect_ref, \<lambda>r ud. ud\<lparr>cb_reconnect_ref := r\<rparr>)
      else if name = ''dns'' then Some (cb_dns_ref, \<lambda>r ud. ud\<lparr>cb_dns_ref := r\<rparr>)
      else if name = ''receive'' then Some (cb_receive_ref, \<lambda>r ud. ud\<lparr>cb_receive_ref := r\<rparr>)
      else if name = ''sent'' then Some (cb_sent_ref, \<lambda>r ud. ud\<lparr>cb_sent_ref := r\<rparr>)
      else None)"

definition net_on :: "'w net_env \<Rightarrow> lua_value list \<Rightarrow> 'w net_state \<Rightarrow> 'w net_result" where
  "net_on env args s =
     with_ud args (\<lambda>t. t \<noteq> TYPE_TCP_SERVER) s (\<lambda>a ud.
       with_text env args 2 s (\<lambda>name.
         case cb_field (type ud) (c_string name) of
           None \<Rightarrow> raise ''invalid callback name'' s
         | Some (get, put) \<Rightarrow>
             if is_function (lua_arg args 3) then
               (case renew_ref env (get ud) (lua_arg args 3) s of (r, s) \<Rightarrow> Some (Return [], put_ud a (put r ud) s))
             else if lua_arg args 3 = Lua_nil then
               Some (Return [], put_ud a (put LUA_NOREF ud) (unref (get ud) s))
             else raise ''invalid callback function'' s))"

text \<open>
  lwIP takes the length of what it sends in 16 bits. A UDP socket that has no control block gets one
  bound to any port, and calls back when it has sent.
\<close>

definition sent_part :: "string \<Rightarrow> string" where
  "sent_part data = take (unat (of_nat (length data) :: u16)) data"

definition open_udp ::
    "'w net_env \<Rightarrow> nat \<Rightarrow> lnet_userdata \<Rightarrow> 'w net_state \<Rightarrow> 'w net_result + (lnet_userdata \<times> 'w net_state)" where
  "open_udp env a ud s =
     (case udp_new env (lwip s) of (p, w) \<Rightarrow>
        let s = s\<lparr>lwip := w\<rparr>
        in if p = 0 then Inl (raise ''cannot allocate PCB'' s)
        else (case udp_bind env p (ip_addr_any env) 0 (udp_recv env p a (lwip s)) of (e, w) \<Rightarrow>
          if e \<noteq> ERR_OK
          then Inl (lwip_lua_checkerr e (put_ud a (ud\<lparr>pcb := 0\<rparr>) (s\<lparr>lwip := udp_remove env p w\<rparr>)))
          else Inr (keep_self env a (ud\<lparr>pcb := p\<rparr>) (put_ud a (ud\<lparr>pcb := p\<rparr>) (s\<lparr>lwip := w\<rparr>)))))"

definition send_udp ::
    "'w net_env \<Rightarrow> lnet_userdata \<Rightarrow> string \<Rightarrow> ip_addr \<Rightarrow> u16 \<Rightarrow> 'w net_state \<Rightarrow> 'w net_result" where
  "send_udp env ud data addr port s =
     (if \<not> pbuf_alloc_ok env (lwip s) (of_nat (length data)) then raise ''cannot allocate message buffer'' s
      else (case udp_sendto env (pcb ud) (sent_part data) addr port (lwip s) of (e, w) \<Rightarrow>
        let s = s\<lparr>lwip := w\<rparr>
        in if cb_sent_ref ud \<noteq> LUA_NOREF
           then Some (Call (rawgeti s (cb_sent_ref ud)) [rawgeti s (self_ref ud)] (After_send e), s)
           else lwip_lua_checkerr e s))"

definition send_data ::
    "'w net_env \<Rightarrow> lua_value list \<Rightarrow> nat \<Rightarrow> nat \<Rightarrow> lnet_userdata \<Rightarrow> ip_addr \<Rightarrow> u16 \<Rightarrow> 'w net_state \<Rightarrow> 'w net_result" where
  "send_data env args stack a ud addr port s =
     with_text env args stack s (\<lambda>data.
       if length data = 0 then raise ''no data to send'' s
       else
         let (ud, s) = (if is_function (lua_arg args (stack + 1))
               then (case renew_ref env (cb_sent_ref ud) (lua_arg args (stack + 1)) s of
                       (r, s) \<Rightarrow> (ud\<lparr>cb_sent_ref := r\<rparr>, put_ud a (ud\<lparr>cb_sent_ref := r\<rparr>) s))
               else (ud, s))
         in case (if type ud = TYPE_UDP_SOCKET \<and> pcb ud = 0 then open_udp env a ud s else Inr (ud, s)) of
              Inl stop \<Rightarrow> stop
            | Inr (ud, s) \<Rightarrow>
                if pcb ud = 0 \<or> self_ref ud = LUA_NOREF then raise ''not connected'' s
                else if type ud = TYPE_UDP_SOCKET then send_udp env ud data addr port s
                else (case tcp_write env (pcb ud) (sent_part data) (lwip s) of
                        (e, w) \<Rightarrow> lwip_lua_checkerr e (s\<lparr>lwip := w\<rparr>)))"

definition net_send :: "'w net_env \<Rightarrow> lua_value list \<Rightarrow> 'w net_state \<Rightarrow> 'w net_result" where
  "net_send env args s =
     with_ud args (\<lambda>t. t \<noteq> TYPE_TCP_SERVER) s (\<lambda>a ud.
       if type ud = TYPE_UDP_SOCKET then
         with_integer env args 2 s (\<lambda>n.
           if (word_of_int n :: u16) = 0 then raise ''need port'' s
           else with_text env args 3 s (\<lambda>domain.
             case ipaddr_aton env (c_string domain) of
               None \<Rightarrow> raise ''invalid IP address'' s
             | Some addr \<Rightarrow> send_data env args 4 a ud addr (word_of_int n) s))
       else send_data env args 2 a ud (ip_addr_any env) 0 s)"

definition net_hold :: "lua_value list \<Rightarrow> 'w net_state \<Rightarrow> 'w net_result" where
  "net_hold args s =
     with_ud args (\<lambda>t. t = TYPE_TCP_CLIENT) s (\<lambda>a ud. Some (Return [], put_ud a (ud\<lparr>hold := 1\<rparr>) s))"

definition net_unhold :: "lua_value list \<Rightarrow> 'w net_state \<Rightarrow> 'w net_result" where
  "net_unhold args s =
     with_ud args (\<lambda>t. t = TYPE_TCP_CLIENT) s (\<lambda>a ud. Some (Return [], put_ud a (ud\<lparr>hold := 0\<rparr>) s))"

definition net_dns :: "'w net_env \<Rightarrow> lua_value list \<Rightarrow> 'w net_state \<Rightarrow> 'w net_result" where
  "net_dns env args s =
     with_ud args (\<lambda>t. t \<noteq> TYPE_TCP_SERVER) s (\<lambda>a ud.
       with_text env args 2 s (\<lambda>domain.
         let (ud, s) = (if is_function (lua_arg args 3)
               then (case renew_ref env (cb_dns_ref ud) (lua_arg args 3) s of
                       (r, s) \<Rightarrow> (ud\<lparr>cb_dns_ref := r\<rparr>, put_ud a (ud\<lparr>cb_dns_ref := r\<rparr>) s))
               else (ud, s))
         in if cb_dns_ref ud = LUA_NOREF then raise ''no callback specified'' s
            else resolve env a ud (c_string domain) Some s))"

definition net_getpeer :: "'w net_env \<Rightarrow> lua_value list \<Rightarrow> 'w net_state \<Rightarrow> 'w net_result" where
  "net_getpeer env args s =
     with_ud args (\<lambda>t. t = TYPE_TCP_CLIENT) s (\<lambda>a ud.
       if pcb ud = 0 then Some (Return [Lua_nil, Lua_nil], s)
       else do {
         c \<leftarrow> tcp_pcb_at env (lwip s) (pcb ud);
         if remote_port c = 0 then Some (Return [Lua_nil, Lua_nil], s)
         else Some (Return [Lua_integer (uint (remote_port c)), Lua_string (ipstr env (remote_ip c))], s) })"

definition net_getaddr :: "'w net_env \<Rightarrow> lua_value list \<Rightarrow> 'w net_state \<Rightarrow> 'w net_result" where
  "net_getaddr env args s =
     with_ud args (\<lambda>t. True) s (\<lambda>a ud.
       if pcb ud = 0 then Some (Return [Lua_nil, Lua_nil], s)
       else do {
         (addr, port) \<leftarrow> (if type ud = TYPE_UDP_SOCKET then udp_pcb_at env (lwip s) (pcb ud)
           else map_option (\<lambda>c. (local_ip c, local_port c)) (tcp_pcb_at env (lwip s) (pcb ud)));
         if port = 0 then Some (Return [Lua_nil, Lua_nil], s)
         else Some (Return [Lua_integer (uint port), Lua_string (ipstr env addr)], s) })"

text \<open>The object's own reference is given back.\<close>

definition drop_self :: "nat \<Rightarrow> lnet_userdata \<Rightarrow> 'w net_state \<Rightarrow> 'w net_state" where
  "drop_self a ud s = put_ud a (ud\<lparr>self_ref := LUA_NOREF\<rparr>) (unref (self_ref ud) s)"

definition net_close :: "'w net_env \<Rightarrow> lua_value list \<Rightarrow> 'w net_state \<Rightarrow> 'w net_result" where
  "net_close env args s =
     with_ud args (\<lambda>t. True) s (\<lambda>a ud.
       if pcb ud = 0 then raise ''not connected'' s
       else
         let w = (case type ud of
               TYPE_TCP_CLIENT \<Rightarrow>
                 (case tcp_close env (pcb ud) (lwip s) of (e, w) \<Rightarrow>
                    if e \<noteq> ERR_OK then tcp_abort env (pcb ud) (tcp_register env (pcb ud) (Reg_arg 0) w) else w)
             | TYPE_TCP_SERVER \<Rightarrow> snd (tcp_close env (pcb ud) (lwip s))
             | TYPE_UDP_SOCKET \<Rightarrow> udp_remove env (pcb ud) (lwip s));
             ud = ud\<lparr>pcb := 0\<rparr>;
             s = put_ud a ud (s\<lparr>lwip := w\<rparr>)
         in if type ud = TYPE_TCP_SERVER \<or> wait_dns ud = 0 then Some (Return [], drop_self a ud s)
            else Some (Return [], s))"

definition close_pcb :: "'w net_env \<Rightarrow> lnet_userdata \<Rightarrow> 'w \<Rightarrow> 'w" where
  "close_pcb env ud w =
     (if pcb ud = 0 then w
      else case type ud of
        TYPE_TCP_CLIENT \<Rightarrow> tcp_abort env (pcb ud) (tcp_register env (pcb ud) (Reg_arg 0) w)
      | TYPE_TCP_SERVER \<Rightarrow> snd (tcp_close env (pcb ud) w)
      | TYPE_UDP_SOCKET \<Rightarrow> udp_remove env (pcb ud) w)"

definition drop_callbacks :: "lnet_userdata \<Rightarrow> 'w net_state \<Rightarrow> lnet_userdata \<times> 'w net_state" where
  "drop_callbacks ud s =
     (let sock = (\<lambda>(ud, s). (ud\<lparr>cb_dns_ref := LUA_NOREF, cb_receive_ref := LUA_NOREF, cb_sent_ref := LUA_NOREF\<rparr>,
            unref (cb_sent_ref ud) (unref (cb_receive_ref ud) (unref (cb_dns_ref ud) s))))
      in case type ud of
           TYPE_TCP_CLIENT \<Rightarrow>
             sock (ud\<lparr>cb_connect_ref := LUA_NOREF, cb_disconnect_ref := LUA_NOREF, cb_reconnect_ref := LUA_NOREF\<rparr>,
               unref (cb_reconnect_ref ud) (unref (cb_disconnect_ref ud) (unref (cb_connect_ref ud) s)))
         | TYPE_UDP_SOCKET \<Rightarrow> sock (ud, s)
         | TYPE_TCP_SERVER \<Rightarrow> (ud\<lparr>wait_dns := LUA_NOREF\<rparr>, unref (cb_accept_ref ud) s))"

definition net_delete :: "'w net_env \<Rightarrow> lua_value list \<Rightarrow> 'w net_state \<Rightarrow> 'w net_result" where
  "net_delete env args s = do {
     u \<leftarrow> net_get_udata args s;
     (case u of
        None \<Rightarrow> raise ''no user data'' s
      | Some (a, ud) \<Rightarrow>
          (case drop_callbacks (ud\<lparr>pcb := 0\<rparr>) (upd_lwip (close_pcb env ud) s) of
             (ud, s) \<Rightarrow> Some (Return [], drop_self a ud s))) }"

text \<open>
  The results of ip4addr_aton are not looked at: an address that it did not write is read all the
  same.
\<close>

definition lower :: "char \<Rightarrow> char" where
  "lower c = (if 65 \<le> (of_char c :: nat) \<and> (of_char c :: nat) \<le> 90 then char_of (of_char c + 32 :: nat) else c)"

definition net_multicastJoinLeave :: "'w net_env \<Rightarrow> bool \<Rightarrow> lua_value list \<Rightarrow> 'w net_state \<Rightarrow> 'w net_result" where
  "net_multicastJoinLeave env join args s =
     (case lua_tolstring (num_text env) (lua_arg args 1) of
        None \<Rightarrow> raise ''wrong arg type'' s
      | Some if_ip \<Rightarrow>
          let if_ip = (if c_string if_ip = [] \<or> map lower (c_string if_ip) = ''any'' then ''0.0.0.0'' else if_ip)
          in if length if_ip > 15 \<or> length if_ip < 7 then raise ''invalid if ip'' s
          else (case lua_tolstring (num_text env) (lua_arg args 2) of
             None \<Rightarrow> raise ''wrong arg type'' s
           | Some multicast_ip \<Rightarrow>
               if length multicast_ip > 15 \<or> length multicast_ip < 7 then raise ''invalid multicast ip'' s
               else do {
                 if_addr \<leftarrow> ip4addr_aton env (c_string if_ip);
                 multicast_addr \<leftarrow> ip4addr_aton env (c_string multicast_ip);
                 Some (Return [], upd_lwip ((if join then igmp_joingroup else igmp_leavegroup) env if_addr multicast_addr) s) }))"

definition net_multicastJoin :: "'w net_env \<Rightarrow> lua_value list \<Rightarrow> 'w net_state \<Rightarrow> 'w net_result" where
  "net_multicastJoin env args s = net_multicastJoinLeave env True args s"

definition net_multicastLeave :: "'w net_env \<Rightarrow> lua_value list \<Rightarrow> 'w net_state \<Rightarrow> 'w net_result" where
  "net_multicastLeave env args s = net_multicastJoinLeave env False args s"

definition net_dns_static_cb :: "'w net_env \<Rightarrow> ip_addr option \<Rightarrow> int \<Rightarrow> 'w net_state \<Rightarrow> 'w net_state" where
  "net_dns_static_cb env ipaddr cb s =
     (let addr = (case ipaddr of Some i \<Rightarrow> i | None \<Rightarrow> ip_addr_any env)
      in if post_ok env s then to_medium (DNSSTATIC cb addr) s else s)"

text \<open>The test of the name asks for a NULL name longer than 128, which there is not.\<close>

definition net_dns_static :: "'w net_env \<Rightarrow> lua_value list \<Rightarrow> 'w net_state \<Rightarrow> 'w net_result" where
  "net_dns_static env args s =
     with_text env args 1 s (\<lambda>domain.
       if \<not> malloc_ok env s then raise ''out of memory'' s
       else if \<not> is_function (lua_arg args 2) then Some (Raise (Arg_error 2 ''function expected''), s)
       else case add_ref env (lua_arg args 2) s of (cb, s) \<Rightarrow>
         case dns_gethostbyname env (c_string domain) (Dns_static cb) (lwip s) of (e, addr, w) \<Rightarrow>
           let s = s\<lparr>lwip := w\<rparr>
           in if e = ERR_OK then Some (Return [], net_dns_static_cb env (Some addr) cb s)
              else if e = ERR_INPROGRESS then Some (Return [], s\<lparr>resolving := resolving s @ [Dns_static cb]\<rparr>)
              else lwip_lua_checkerr e s)"

definition dns_index :: "'w net_env \<Rightarrow> lua_value list \<Rightarrow> nat \<Rightarrow> 'w net_state \<Rightarrow> (int \<Rightarrow> 'w net_result) \<Rightarrow> 'w net_result" where
  "dns_index env args i s f =
     (case luaL_optlong (text_num env) (lua_arg args i) 0 of
        None \<Rightarrow> Some (Raise (Arg_error i ''number expected''), s)
      | Some numdns \<Rightarrow>
          if numdns \<ge> dns_max_servers env
          then raise (''server index out of range [0-'' @ num_text env (dns_max_servers env - 1, 0) @ '']'') s
          else f numdns)"

definition net_setdnsserver :: "'w net_env \<Rightarrow> lua_value list \<Rightarrow> 'w net_state \<Rightarrow> 'w net_result" where
  "net_setdnsserver env args s =
     with_text env args 1 s (\<lambda>server.
       if length server > 16 then raise ''invalid dns server ip'' s
       else (case ipaddr_aton env (c_string server) of
          None \<Rightarrow> raise ''invalid dns server ip'' s
        | Some ipaddr \<Rightarrow>
            if ip_addr_isany env ipaddr then raise ''invalid dns server ip'' s
            else dns_index env args 2 s (\<lambda>numdns. Some (Return [], upd_lwip (dns_setserver env numdns ipaddr) s))))"

definition addr_value :: "'w net_env \<Rightarrow> ip_addr \<Rightarrow> lua_value" where
  "addr_value env addr = (if ip_addr_isany env addr then Lua_nil else Lua_string (ipstr env addr))"

definition net_getdnsserver :: "'w net_env \<Rightarrow> lua_value list \<Rightarrow> 'w net_state \<Rightarrow> 'w net_result" where
  "net_getdnsserver env args s =
     dns_index env args 1 s (\<lambda>numdns. Some (Return [addr_value env (dns_getserver env numdns (lwip s))], s))"

section \<open>The dispatch of events to Lua\<close>

text \<open>What ldnsfound_cb does before its call, which it may not make, and what it does after it.\<close>

definition ldnsfound_rest :: "'w net_env \<Rightarrow> nat \<Rightarrow> ip_addr \<Rightarrow> 'w net_state \<Rightarrow> 'w net_result" where
  "ldnsfound_rest env a addr s = do {
     ud \<leftarrow> heap s a;
     let ud = ud\<lparr>wait_dns := wait_dns ud - 1\<rparr>;
     let s = put_ud a ud s;
     idle \<leftarrow> (if pcb ud \<noteq> 0 \<and> type ud = TYPE_TCP_CLIENT
       then map_option state_closed (tcp_pcb_at env (lwip s) (pcb ud)) else Some False);
     if idle then do {
       c \<leftarrow> tcp_pcb_at env (lwip s) (pcb ud);
       Some (Return [], upd_lwip (tcp_connect env (pcb ud) addr (remote_port c)) s) }
     else if pcb ud = 0 \<and> wait_dns ud = 0 then Some (Return [], drop_self a ud s)
     else Some (Return [], s) }"

definition ldnsfound_cb :: "'w net_env \<Rightarrow> nat \<Rightarrow> ip_addr \<Rightarrow> 'w net_state \<Rightarrow> 'w net_result" where
  "ldnsfound_cb env a addr s = do {
     ud \<leftarrow> heap s a;
     if self_ref ud \<noteq> LUA_NOREF \<and> cb_dns_ref ud \<noteq> LUA_NOREF
     then Some (Call (rawgeti s (cb_dns_ref ud)) [rawgeti s (self_ref ud), addr_value env addr] (After_dns a addr), s)
     else ldnsfound_rest env a addr s }"

definition ldnsstatic_cb :: "'w net_env \<Rightarrow> int \<Rightarrow> ip_addr \<Rightarrow> 'w net_state \<Rightarrow> 'w net_result" where
  "ldnsstatic_cb env cb addr s =
     (if cb = LUA_NOREF then Some (Return [], s)
      else Some (Call (rawgeti s cb) [addr_value env addr] After_event, unref cb s))"

definition lconnected_cb :: "nat \<Rightarrow> 'w net_state \<Rightarrow> 'w net_result" where
  "lconnected_cb a s = do {
     ud \<leftarrow> heap s a;
     if self_ref ud \<noteq> LUA_NOREF \<and> cb_connect_ref ud \<noteq> LUA_NOREF
     then Some (Call (rawgeti s (cb_connect_ref ud)) [rawgeti s (self_ref ud)] After_event, s)
     else Some (Return [], s) }"

text \<open>A new client for the new connection; the stack of the task is empty before.\<close>

definition laccept_cb :: "'w net_env \<Rightarrow> nat \<Rightarrow> nat \<Rightarrow> 'w net_state \<Rightarrow> 'w net_result" where
  "laccept_cb env a newpcb s = do {
     ud \<leftarrow> heap s a;
     (r, s') \<leftarrow> net_create env TYPE_TCP_CLIENT s;
     (case r of
        Return [Lua_userdata b] \<Rightarrow> do {
          nud \<leftarrow> heap s' b;
          let (ref, s') = add_ref env (Lua_userdata b) s';
          let s' = put_ud b (nud\<lparr>self_ref := ref, pcb := newpcb\<rparr>) s';
          let w = tcp_register env newpcb Reg_sent (tcp_register env newpcb Reg_recv
                    (tcp_register env newpcb Reg_err (tcp_register env newpcb (Reg_arg b) (lwip s'))));
          Some (Call (rawgeti s (cb_accept_ref ud)) [Lua_userdata b] After_event,
            s'\<lparr>lwip := tcp_accepted env (pcb ud) w\<rparr>) }
      | _ \<Rightarrow> Some (r, s')) }"

definition lrecv_cb :: "'w net_env \<Rightarrow> nat \<Rightarrow> ip_addr option \<Rightarrow> u16 \<Rightarrow> string \<Rightarrow> 'w net_state \<Rightarrow> 'w net_result" where
  "lrecv_cb env a src_ip src_port payload s = do {
     ud \<leftarrow> heap s a;
     if cb_receive_ref ud \<noteq> LUA_NOREF then do {
       extra \<leftarrow> (if type ud = TYPE_UDP_SOCKET
         then map_option (\<lambda>ip. [Lua_integer (uint src_port), Lua_string (ipstr env ip)]) src_ip else Some []);
       Some (Call (rawgeti s (cb_receive_ref ud)) ([rawgeti s (self_ref ud), Lua_string payload] @ extra) After_event, s) }
     else Some (Return [], s) }"

definition lsent_cb :: "nat \<Rightarrow> 'w net_state \<Rightarrow> 'w net_result" where
  "lsent_cb a s = do {
     ud \<leftarrow> heap s a;
     if cb_sent_ref ud \<noteq> LUA_NOREF
     then Some (Call (rawgeti s (cb_sent_ref ud)) [rawgeti s (self_ref ud)] After_event, s)
     else Some (Return [], s) }"

definition lerr_rest :: "nat \<Rightarrow> 'w net_state \<Rightarrow> 'w net_result" where
  "lerr_rest a s = do {
     ud \<leftarrow> heap s a;
     Some (Return [], if wait_dns ud = 0 then drop_self a ud s else s) }"

definition lerr_cb :: "'w net_env \<Rightarrow> nat \<Rightarrow> err \<Rightarrow> 'w net_state \<Rightarrow> 'w net_result" where
  "lerr_cb env a e s = do {
     ud \<leftarrow> heap s a;
     let ref = (if e \<noteq> ERR_OK \<and> cb_reconnect_ref ud \<noteq> LUA_NOREF then cb_reconnect_ref ud else cb_disconnect_ref ud);
     if ref \<noteq> LUA_NOREF
     then Some (Call (rawgeti s ref) [rawgeti s (self_ref ud), Lua_integer (err_code env e)] (After_err a), s)
     else lerr_rest a s }"

definition handle_net_event :: "'w net_env \<Rightarrow> net_event \<Rightarrow> 'w net_state \<Rightarrow> 'w net_result" where
  "handle_net_event env ev s =
     (case ev of
        DNSFOUND a addr \<Rightarrow> ldnsfound_cb env a addr s
      | DNSSTATIC cb addr \<Rightarrow> ldnsstatic_cb env cb addr s
      | CONNECTED a \<Rightarrow> lconnected_cb a s
      | ACCEPT a newpcb \<Rightarrow> laccept_cb env a newpcb s
      | RECVDATA a ip port payload \<Rightarrow> lrecv_cb env a ip port payload s
      | SENTDATA a _ \<Rightarrow> lsent_cb a s
      | ERR a e \<Rightarrow> lerr_cb env a e s)"

text \<open>What is left after the call of a frame.\<close>

definition run_frame :: "'w net_env \<Rightarrow> frame \<Rightarrow> 'w net_state \<Rightarrow> 'w net_result" where
  "run_frame env f s =
     (case f of
        After_dns a addr \<Rightarrow> ldnsfound_rest env a addr s
      | After_err a \<Rightarrow> lerr_rest a s
      | After_send e \<Rightarrow> lwip_lua_checkerr e s
      | After_event \<Rightarrow> Some (Return [], s)
      | After_pcall \<Rightarrow> Some (Return [], s))"

section \<open>The calls by name\<close>

datatype net_function =
  N_createServer | N_createConnection | N_createUDPSocket | N_multicastJoin | N_multicastLeave | N_mycall | N_myregister
| N_setdnsserver | N_getdnsserver | N_resolve
| N_listen | N_connect | N_on | N_send | N_hold | N_unhold | N_dns | N_getpeer | N_getaddr | N_close | N_gc

definition call_net :: "'w net_env \<Rightarrow> net_function \<Rightarrow> lua_value list \<Rightarrow> 'w net_state \<Rightarrow> 'w net_result" where
  "call_net env c args s =
     (case c of
        N_createServer \<Rightarrow> net_createServer env args s
      | N_createConnection \<Rightarrow> net_createConnection env args s
      | N_createUDPSocket \<Rightarrow> net_createUDPSocket env s
      | N_multicastJoin \<Rightarrow> net_multicastJoin env args s
      | N_multicastLeave \<Rightarrow> net_multicastLeave env args s
      | N_mycall \<Rightarrow> net_mycall s
      | N_myregister \<Rightarrow> net_myregistrer env args s
      | N_setdnsserver \<Rightarrow> net_setdnsserver env args s
      | N_getdnsserver \<Rightarrow> net_getdnsserver env args s
      | N_resolve \<Rightarrow> net_dns_static env args s
      | N_listen \<Rightarrow> net_listen env args s
      | N_connect \<Rightarrow> net_connect env args s
      | N_on \<Rightarrow> net_on env args s
      | N_send \<Rightarrow> net_send env args s
      | N_hold \<Rightarrow> net_hold args s
      | N_unhold \<Rightarrow> net_unhold args s
      | N_dns \<Rightarrow> net_dns env args s
      | N_getpeer \<Rightarrow> net_getpeer env args s
      | N_getaddr \<Rightarrow> net_getaddr env args s
      | N_close \<Rightarrow> net_close env args s
      | N_gc \<Rightarrow> net_delete env args s)"

end
