(* ===== verification/Lua_Net_Inv.thy ===== *)
theory Lua_Net_Inv
  imports Lua_Net
begin

text \<open>
  The runs of the socket module and their invariant. A run interleaves the calls of scripts, the
  dispatch of events, the returns of functions called, the callbacks of lwIP and the collector. The
  invariant has two parts: net_refs, the typing of the references that objects and events hold in the
  registry, and net_work, what may be outstanding for an object while it has a reference of its own.
\<close>

section \<open>What lwIP promises\<close>

text \<open>Whether each control block there is, is in the state CLOSED, and the UDP blocks there are.\<close>

definition tcp_states :: "'w net_env \<Rightarrow> 'w \<Rightarrow> nat \<rightharpoonup> bool" where
  "tcp_states env w = (\<lambda>p. map_option state_closed (tcp_pcb_at env w p))"

definition udp_live :: "'w net_env \<Rightarrow> 'w \<Rightarrow> nat \<Rightarrow> bool" where
  "udp_live env w = (\<lambda>p. udp_pcb_at env w p \<noteq> None)"

definition keeps :: "'w net_env \<Rightarrow> 'w \<Rightarrow> 'w \<Rightarrow> bool" where
  "keeps env w w' \<longleftrightarrow> tcp_states env w' = tcp_states env w \<and> udp_live env w' = udp_live env w"

definition lwip_keeps :: "'w net_env \<Rightarrow> bool" where
  "lwip_keeps env \<longleftrightarrow>
     (\<forall>w p r. keeps env w (tcp_register env p r w)) \<and> (\<forall>w p n. keeps env w (set_remote_port env p n w)) \<and>
     (\<forall>w p ip n. keeps env w (snd (tcp_bind env p ip n w))) \<and> (\<forall>w p d. keeps env w (snd (tcp_write env p d w))) \<and>
     (\<forall>w p n. keeps env w (tcp_recved env p n w)) \<and> (\<forall>w p. keeps env w (tcp_accepted env p w)) \<and>
     (\<forall>w p a. keeps env w (udp_recv env p a w)) \<and> (\<forall>w p ip n. keeps env w (snd (udp_bind env p ip n w))) \<and>
     (\<forall>w p d ip n. keeps env w (snd (udp_sendto env p d ip n w))) \<and> (\<forall>w b. keeps env w (pbuf_free env b w)) \<and>
     (\<forall>w d r. keeps env w (snd (snd (dns_gethostbyname env d r w)))) \<and>
     (\<forall>w n ip. keeps env w (dns_setserver env n ip w)) \<and>
     (\<forall>w i m. keeps env w (igmp_joingroup env i m w)) \<and> (\<forall>w i m. keeps env w (igmp_leavegroup env i m w))"

text \<open>
  A new control block is closed and was not one before; tcp_listen replaces a block by another, closing
  and aborting free it, and connecting may leave it closed.
\<close>

definition lwip_blocks :: "'w net_env \<Rightarrow> bool" where
  "lwip_blocks env \<longleftrightarrow>
     (\<forall>w p w'. tcp_new env w = (p, w') \<longrightarrow> udp_live env w' = udp_live env w \<and>
        (if p = 0 then tcp_states env w' = tcp_states env w
         else tcp_states env w p = None \<and> tcp_states env w' = (tcp_states env w)(p \<mapsto> True))) \<and>
     (\<forall>w p q w'. tcp_listen env p w = (q, w') \<longrightarrow> udp_live env w' = udp_live env w \<and>
        (if q = 0 then tcp_states env w' = tcp_states env w
         else (q = p \<or> tcp_states env w q = None) \<and> (\<exists>b. tcp_states env w' = (tcp_states env w)(p := None, q \<mapsto> b)))) \<and>
     (\<forall>w p ip n. udp_live env (tcp_connect env p ip n w) = udp_live env w \<and>
        (\<exists>b. tcp_states env (tcp_connect env p ip n w) = (tcp_states env w)(p \<mapsto> b))) \<and>
     (\<forall>w p e w'. tcp_close env p w = (e, w') \<longrightarrow> udp_live env w' = udp_live env w \<and>
        tcp_states env w' = (if e = ERR_OK then (tcp_states env w)(p := None) else tcp_states env w)) \<and>
     (\<forall>w p. udp_live env (tcp_abort env p w) = udp_live env w \<and>
        tcp_states env (tcp_abort env p w) = (tcp_states env w)(p := None)) \<and>
     (\<forall>w p w'. udp_new env w = (p, w') \<longrightarrow> tcp_states env w' = tcp_states env w \<and>
        (if p = 0 then udp_live env w' = udp_live env w
         else \<not> udp_live env w p \<and> udp_live env w' = (udp_live env w)(p := True))) \<and>
     (\<forall>w p. tcp_states env (udp_remove env p w) = tcp_states env w \<and>
        udp_live env (udp_remove env p w) = (udp_live env w)(p := False))"

definition net_laws :: "'w net_env \<Rightarrow> bool" where
  "net_laws env \<longleftrightarrow> new_ref_laws (new_ref env) \<and> (\<forall>h a. new_userdata env h = Some a \<longrightarrow> a \<noteq> 0 \<and> h a = None) \<and>
     lwip_keeps env \<and> lwip_blocks env"

section \<open>What is outstanding for an object\<close>

fun ev_obj :: "net_event \<Rightarrow> nat option" where
  "ev_obj (DNSFOUND a _) = Some a"
| "ev_obj (DNSSTATIC _ _) = None"
| "ev_obj (CONNECTED a) = Some a"
| "ev_obj (ACCEPT a _) = Some a"
| "ev_obj (RECVDATA a _ _ _) = Some a"
| "ev_obj (SENTDATA a _) = Some a"
| "ev_obj (ERR a _) = Some a"

text \<open>The order in which the events of an object are: data, then an error, then answers of the resolver.\<close>

fun rank :: "net_event \<Rightarrow> nat" where
  "rank (DNSFOUND _ _) = 2"
| "rank (ERR _ _) = 1"
| "rank _ = 0"

definition own_events :: "nat \<Rightarrow> 'w net_state \<Rightarrow> net_event list" where
  "own_events a s = filter (\<lambda>e. ev_obj e = Some a) (high s @ medium s)"

definition requests :: "nat \<Rightarrow> 'w net_state \<Rightarrow> nat" where
  "requests a s = length (filter (\<lambda>r. r = Dns_for a) (resolving s))"

fun dns_frame :: "nat \<Rightarrow> frame \<Rightarrow> bool" where
  "dns_frame a (After_dns b _) = (a = b)"
| "dns_frame a _ = False"

definition dns_frames :: "nat \<Rightarrow> frame list \<Rightarrow> nat" where
  "dns_frames a fs = length (filter (dns_frame a) fs)"

definition err_frames :: "nat \<Rightarrow> frame list \<Rightarrow> nat" where
  "err_frames a fs = length (filter (\<lambda>f. f = After_err a) fs)"

definition answers :: "net_event list \<Rightarrow> nat" where
  "answers es = length (filter (\<lambda>e. rank e = 2) es)"

definition dns_work :: "nat \<Rightarrow> 'w net_state \<Rightarrow> frame list \<Rightarrow> nat" where
  "dns_work a s fs = requests a s + dns_frames a fs + answers (own_events a s)"

definition busy :: "nat \<Rightarrow> 'w net_state \<Rightarrow> frame list \<Rightarrow> bool" where
  "busy a s fs \<longleftrightarrow> own_events a s \<noteq> [] \<or> dns_work a s fs > 0 \<or> err_frames a fs > 0"

section \<open>Runs\<close>

text \<open>
  How scripts have to use a socket: they do not close it while something is outstanding for it, they do not
  ask the resolver for a client that has a connection or another request, they connect a client for which something is
  outstanding only if the resolver refuses no name (else the error of the aborted connection is queued beside it), they do
  not call __gc, and the addresses of groups are addresses.
\<close>

definition resolver_accepts :: "'w net_env \<Rightarrow> bool" where
  "resolver_accepts env \<longleftrightarrow> (\<forall>d r w. fst (dns_gethostbyname env d r w) \<in> {ERR_OK, ERR_INPROGRESS})"

definition group_arg :: "'w net_env \<Rightarrow> lua_value \<Rightarrow> bool" where
  "group_arg env v = (case lua_tolstring (num_text env) v of Some t \<Rightarrow> ip4addr_aton env (c_string t) \<noteq> None | None \<Rightarrow> True)"

definition disciplined :: "'w net_env \<Rightarrow> net_function \<Rightarrow> lua_value list \<Rightarrow> 'w net_state \<Rightarrow> frame list \<Rightarrow> bool" where
  "disciplined env c args s fs \<longleftrightarrow>
     (\<forall>a ud. lua_arg args 1 = Lua_userdata a \<and> heap s a = Some ud \<longrightarrow>
        (c = N_close \<longrightarrow> pcb ud = 0 \<or> \<not> busy a s fs) \<and>
        (c = N_connect \<longrightarrow> dns_work a s fs = 0 \<and> (\<not> busy a s fs \<or> resolver_accepts env)) \<and>
        (c = N_dns \<and> type ud = TYPE_TCP_CLIENT \<longrightarrow> dns_work a s fs = 0 \<and> pcb ud = 0)) \<and>
     c \<noteq> N_gc \<and>
     (c = N_multicastJoin \<or> c = N_multicastLeave \<longrightarrow>
        ip4addr_aton env ''0.0.0.0'' \<noteq> None \<and> group_arg env (lua_arg args 1) \<and> group_arg env (lua_arg args 2))"

definition push :: "outcome \<Rightarrow> frame list \<Rightarrow> frame list" where
  "push r fs = (case r of Call (Lua_function f) _ k \<Rightarrow> k # fs | _ \<Rightarrow> fs)"

text \<open>The pump takes the events of high priority first.\<close>

definition next_net_event :: "'w net_state \<Rightarrow> (net_event \<times> 'w net_state) option" where
  "next_net_event s =
     (case high s of e # es \<Rightarrow> Some (e, s\<lparr>high := es\<rparr>)
      | [] \<Rightarrow> (case medium s of e # es \<Rightarrow> Some (e, s\<lparr>medium := es\<rparr>) | [] \<Rightarrow> None))"

text \<open>
  What lwIP does by itself: the state of a closed block does not change, and no block is freed but the one
  whose connection failed, if there is one.
\<close>

definition lwip_moves :: "'w net_env \<Rightarrow> nat option \<Rightarrow> 'w \<Rightarrow> 'w \<Rightarrow> bool" where
  "lwip_moves env freed w w' \<longleftrightarrow> udp_live env w' = udp_live env w \<and>
     (\<forall>p. freed \<noteq> Some p \<longrightarrow> (tcp_states env w p = Some True \<longrightarrow> tcp_states env w' p = Some True) \<and>
        (tcp_states env w p \<noteq> None \<longrightarrow> tcp_states env w' p \<noteq> None))"

definition in_registry :: "'w net_state \<Rightarrow> nat \<Rightarrow> bool" where
  "in_registry s a \<longleftrightarrow> (\<exists>r. registry s r = Some (Lua_userdata a))"

type_synonym 'w net_config = "'w net_state \<times> frame list"

text \<open>The connection of a client that lwIP is working on.\<close>

definition connection :: "'w net_env \<Rightarrow> 'w net_state \<Rightarrow> nat \<Rightarrow> nat \<Rightarrow> bool" where
  "connection env s a p \<longleftrightarrow> (\<exists>ud. heap s a = Some ud \<and> type ud = TYPE_TCP_CLIENT \<and> pcb ud = p \<and> p \<noteq> 0) \<and>
     tcp_states env (lwip s) p = Some False"

definition has_type :: "net_type \<Rightarrow> 'w net_state \<Rightarrow> nat \<Rightarrow> bool" where
  "has_type t s a \<longleftrightarrow> (\<exists>ud. heap s a = Some ud \<and> type ud = t \<and> pcb ud \<noteq> 0)"

text \<open>The references to callbacks that an object holds, and those of the requests without an object.\<close>

definition cb_refs :: "lnet_userdata \<Rightarrow> int list" where
  "cb_refs ud =
     (case type ud of
        TYPE_TCP_SERVER \<Rightarrow> [cb_accept_ref ud]
      | TYPE_UDP_SOCKET \<Rightarrow> [cb_dns_ref ud, cb_receive_ref ud, cb_sent_ref ud]
      | TYPE_TCP_CLIENT \<Rightarrow> [cb_dns_ref ud, cb_receive_ref ud, cb_sent_ref ud,
          cb_connect_ref ud, cb_disconnect_ref ud, cb_reconnect_ref ud])"

fun static_ref :: "net_event \<Rightarrow> int list" where
  "static_ref (DNSSTATIC cb _) = [cb]"
| "static_ref _ = []"

fun request_ref :: "dns_request \<Rightarrow> int list" where
  "request_ref (Dns_static cb) = [cb]"
| "request_ref _ = []"

definition statics :: "'w net_state \<Rightarrow> int list" where
  "statics s = concat (map static_ref (high s @ medium s)) @ concat (map request_ref (resolving s))"

definition ref_owned :: "'w net_state \<Rightarrow> int \<Rightarrow> bool" where
  "ref_owned s r \<longleftrightarrow> (\<exists>a ud. heap s a = Some ud \<and> r \<in> set (self_ref ud # cb_refs ud)) \<or> r \<in> set (statics s)"

inductive net_step ::
    "'w net_env \<Rightarrow> (net_function \<Rightarrow> lua_value list \<Rightarrow> 'w net_state \<Rightarrow> frame list \<Rightarrow> bool) \<Rightarrow> 'w net_config \<Rightarrow> 'w net_config \<Rightarrow> bool"
  for env use where
  script: "use c args s fs \<Longrightarrow> \<forall>a. Lua_userdata a \<in> set args \<longrightarrow> heap s a \<noteq> None \<Longrightarrow>
    call_net env c args s = Some (r, s') \<Longrightarrow> net_step env use (s, fs) (s', push r fs)"
| dispatch: "next_net_event s = Some (ev, s1) \<Longrightarrow> handle_net_event env ev s1 = Some (r, s') \<Longrightarrow>
    net_step env use (s, []) (s', push r [])"
| returned: "run_frame env f s = Some (r, s') \<Longrightarrow> net_step env use (s, f # fs) (s', fs)"
| raised: "f = After_pcall \<or> f = After_send e \<Longrightarrow> net_step env use (s, f # fs) (s, fs)"
| elsewhere: "finite (dom reg) \<Longrightarrow> \<forall>r. ref_owned s r \<longrightarrow> reg r = registry s r \<Longrightarrow>
    net_step env use (s, fs) (s\<lparr>registry := reg\<rparr>, fs)"
| works: "lwip_moves env None (lwip s) w \<Longrightarrow> net_step env use (s, fs) (s\<lparr>lwip := w\<rparr>, fs)"
| failed: "connection env s a p \<Longrightarrow> lwip_moves env (Some p) (lwip s) w \<Longrightarrow>
    net_err_cb env a e (s\<lparr>lwip := w\<rparr>) = Some s' \<Longrightarrow> net_step env use (s, fs) (s', fs)"
| connected: "connection env s a p \<Longrightarrow> net_connected_cb env a p e s = Some (e', s') \<Longrightarrow> net_step env use (s, fs) (s', fs)"
| received: "connection env s a p \<Longrightarrow> net_tcp_recv_cb env a p b e s = Some (e', s') \<Longrightarrow> net_step env use (s, fs) (s', fs)"
| sent: "connection env s a p \<Longrightarrow> net_sent_cb env a s = Some (e, s') \<Longrightarrow> net_step env use (s, fs) (s', fs)"
| datagram: "has_type TYPE_UDP_SOCKET s a \<Longrightarrow> net_udp_recv_cb env a (Some b) ip n s = Some s' \<Longrightarrow>
    net_step env use (s, fs) (s', fs)"
| accepted: "has_type TYPE_TCP_SERVER s a \<Longrightarrow> net_accept_cb env a p s = Some (e', s') \<Longrightarrow>
    net_step env use (s, fs) (s', fs)"
| answered: "resolving s = rs @ Dns_for a # rs' \<Longrightarrow>
    net_step env use (s, fs) (net_dns_cb env ip a (s\<lparr>resolving := rs @ rs'\<rparr>), fs)"
| resolved: "resolving s = rs @ Dns_static cb # rs' \<Longrightarrow>
    net_step env use (s, fs) (net_dns_static_cb env ip cb (s\<lparr>resolving := rs @ rs'\<rparr>), fs)"
| collected: "heap s a \<noteq> None \<Longrightarrow> \<not> in_registry s a \<Longrightarrow> net_delete env [Lua_userdata a] s = Some (r, s') \<Longrightarrow>
    net_step env use (s, fs) (s'\<lparr>heap := (heap s')(a := None)\<rparr>, fs)"

definition net_init :: "'w \<Rightarrow> 'w net_config" where
  "net_init w = (\<lparr>heap = (\<lambda>_. None), registry = (\<lambda>_. None), myref = 0, medium = [], high = [], resolving = [], lwip = w\<rparr>, [])"

definition net_reachable ::
    "'w net_env \<Rightarrow> (net_function \<Rightarrow> lua_value list \<Rightarrow> 'w net_state \<Rightarrow> frame list \<Rightarrow> bool) \<Rightarrow> 'w net_config \<Rightarrow> bool" where
  "net_reachable env use c \<longleftrightarrow> (\<exists>w. (net_step env use)\<^sup>*\<^sup>* (net_init w) c)"

section \<open>The references\<close>

definition callable :: "'w net_state \<Rightarrow> int \<Rightarrow> bool" where
  "callable s r \<longleftrightarrow> 0 < r \<and> (\<exists>f. registry s r = Some (Lua_function f))"

definition live_refs :: "lnet_userdata \<Rightarrow> int list" where
  "live_refs ud = filter (\<lambda>r. r \<noteq> LUA_NOREF) (cb_refs ud)"

definition ud_refs :: "'w net_state \<Rightarrow> nat \<Rightarrow> lnet_userdata \<Rightarrow> bool" where
  "ud_refs s a ud \<longleftrightarrow>
     (self_ref ud = LUA_NOREF \<or> 0 < self_ref ud \<and> registry s (self_ref ud) = Some (Lua_userdata a)) \<and>
     (\<forall>r \<in> set (live_refs ud). callable s r \<and> r \<notin> set (statics s)) \<and> distinct (live_refs ud)"

definition net_refs :: "'w net_state \<Rightarrow> bool" where
  "net_refs s \<longleftrightarrow> finite (dom (registry s)) \<and>
     (\<forall>a ud. heap s a = Some ud \<longrightarrow> ud_refs s a ud) \<and>
     (\<forall>a b ud ud'. heap s a = Some ud \<and> heap s b = Some ud' \<and> a \<noteq> b \<longrightarrow> set (live_refs ud) \<inter> set (live_refs ud') = {}) \<and>
     (\<forall>r \<in> set (statics s). callable s r) \<and> distinct (statics s)"

lemma net_refsD:
  assumes "net_refs s"
  shows "finite (dom (registry s))" "heap s a = Some ud \<Longrightarrow> ud_refs s a ud"
    "heap s a = Some ud \<Longrightarrow> heap s b = Some ud' \<Longrightarrow> a \<noteq> b \<Longrightarrow> set (live_refs ud) \<inter> set (live_refs ud') = {}"
    "r \<in> set (statics s) \<Longrightarrow> callable s r" "distinct (statics s)"
  using assms by (auto simp: net_refs_def)

text \<open>The invariant depends on the registry only at the references that are ref_owned.\<close>

lemma ud_refs_cong:
  assumes "ud_refs s a ud" "set (statics s') \<subseteq> set (statics s) \<union> X" "set (live_refs ud) \<inter> X = {}"
    "\<And>r. r \<in> set (live_refs ud) \<Longrightarrow> registry s' r = registry s r"
    "self_ref ud \<noteq> LUA_NOREF \<Longrightarrow> registry s' (self_ref ud) = registry s (self_ref ud)"
  shows "ud_refs s' a ud"
  using assms by (auto simp: ud_refs_def callable_def)

lemma net_refs_update:
  assumes refs: "net_refs s" and fin: "finite (dom (registry s'))"
    and other: "\<And>b. b \<noteq> a \<Longrightarrow> heap s' b = heap s b"
    and self: "\<And>ud. heap s' a = Some ud \<Longrightarrow> ud_refs s' a ud"
    and cb: "\<And>ud b ud'. heap s' a = Some ud \<Longrightarrow> heap s b = Some ud' \<Longrightarrow> b \<noteq> a \<Longrightarrow> set (live_refs ud) \<inter> set (live_refs ud') = {}"
    and reg: "\<And>b ud r. heap s b = Some ud \<Longrightarrow> b \<noteq> a \<Longrightarrow> r \<in> set (self_ref ud # live_refs ud) \<Longrightarrow> r \<noteq> LUA_NOREF \<Longrightarrow>
      registry s' r = registry s r"
    and st: "set (statics s') \<subseteq> set (statics s)" "distinct (statics s')"
    and call: "\<And>r. r \<in> set (statics s') \<Longrightarrow> callable s' r"
  shows "net_refs s'"
  unfolding net_refs_def
proof (intro conjI allI impI ballI fin st(2) call)
  fix b ud assume b: "heap s' b = Some ud"
  show "ud_refs s' b ud"
  proof (cases "b = a")
    case False
    then have h: "heap s b = Some ud" using b other by simp
    show ?thesis
    proof (rule ud_refs_cong [OF net_refsD(2) [OF refs h], where X = "{}"])
      show "r \<in> set (live_refs ud) \<Longrightarrow> registry s' r = registry s r" for r
        using reg [OF h False] by (auto simp: live_refs_def)
      show "self_ref ud \<noteq> LUA_NOREF \<Longrightarrow> registry s' (self_ref ud) = registry s (self_ref ud)" using reg [OF h False] by simp
    qed (use st in auto)
  qed (use b self in simp)
next
  fix b c ud ud' assume h: "heap s' b = Some ud \<and> heap s' c = Some ud' \<and> b \<noteq> c"
  then consider "b = a" "c \<noteq> a" | "c = a" "b \<noteq> a" | "b \<noteq> a" "c \<noteq> a" by blast
  then show "set (live_refs ud) \<inter> set (live_refs ud') = {}"
  proof cases
    case 3 then show ?thesis using h other net_refsD(3) [OF refs, of b ud c ud'] by simp
  qed (use h other cb in fastforce)+
qed auto

text \<open>Changes that leave the references alone.\<close>

lemma net_refs_same:
  assumes "net_refs s" "registry s' = registry s" "set (statics s') \<subseteq> set (statics s)" "distinct (statics s')"
    "\<And>b. b \<noteq> a \<Longrightarrow> heap s' b = heap s b"
    "\<And>ud'. heap s' a = Some ud' \<Longrightarrow> \<exists>ud. heap s a = Some ud \<and> (self_ref ud' = LUA_NOREF \<or> self_ref ud' = self_ref ud) \<and>
       live_refs ud' = live_refs ud"
  shows "net_refs s'"
proof (rule net_refs_update [OF assms(1), where a = a])
  show "finite (dom (registry s'))" using net_refsD(1) [OF assms(1)] assms(2) by simp
next
  fix ud' assume h: "heap s' a = Some ud'"
  obtain ud where u: "heap s a = Some ud" "self_ref ud' = LUA_NOREF \<or> self_ref ud' = self_ref ud" "live_refs ud' = live_refs ud"
    using assms(6) [OF h] by blast
  show "ud_refs s' a ud'"
    using net_refsD(2) [OF assms(1) u(1)] u assms(2,3) by (auto simp: ud_refs_def callable_def)
next
  fix ud' b ud2 assume h: "heap s' a = Some ud'" "heap s b = Some ud2" "b \<noteq> a"
  then show "set (live_refs ud') \<inter> set (live_refs ud2) = {}"
    using assms(6) [OF h(1)] net_refsD(3) [OF assms(1), of a _ b ud2] by force
next
  fix r assume "r \<in> set (statics s')"
  then show "callable s' r" using net_refsD(4) [OF assms(1), of r] assms(2,3) by (auto simp: callable_def)
qed (use assms in auto)

lemma filter_update:
  assumes "i < length xs" "distinct (filter P xs)" "P r \<Longrightarrow> r \<notin> set (filter P xs) - {xs ! i}"
  shows "distinct (filter P (xs[i := r]))"
    "set (filter P (xs[i := r])) = (if P r then {r} else {}) \<union> (set (filter P xs) - {xs ! i})"
proof -
  have u: "filter P (xs[i := r]) = filter P (take i xs) @ (if P r then [r] else []) @ filter P (drop (Suc i) xs)"
    by (simp add: upd_conv_take_nth_drop assms(1))
  have x: "filter P xs = filter P (take i xs) @ (if P (xs ! i) then [xs ! i] else []) @ filter P (drop (Suc i) xs)"
    using arg_cong [OF id_take_nth_drop [OF assms(1)], of "filter P"] by simp
  have d: "distinct (filter P (take i xs) @ filter P (drop (Suc i) xs))"
    and n: "xs ! i \<notin> set (filter P (take i xs) @ filter P (drop (Suc i) xs))"
    using assms(2) unfolding x by (auto split: if_splits)
  have s: "set (filter P xs) - {xs ! i} = set (filter P (take i xs) @ filter P (drop (Suc i) xs))"
    unfolding x using n by (auto split: if_splits)
  have r: "P r \<Longrightarrow> r \<notin> set (filter P (take i xs) @ filter P (drop (Suc i) xs))" using assms(3) unfolding s .
  show "distinct (filter P (xs[i := r]))" unfolding u using d r by auto
  show "set (filter P (xs[i := r])) = (if P r then {r} else {}) \<union> (set (filter P xs) - {xs ! i})"
    unfolding u s by auto
qed

text \<open>A reference that is owned is registered, and references to callbacks are not those to objects.\<close>

lemma net_refs_self:
  assumes "net_refs s" "heap s b = Some ud" "self_ref ud \<noteq> LUA_NOREF"
  shows "0 < self_ref ud" "registry s (self_ref ud) = Some (Lua_userdata b)"
  using net_refsD(2) [OF assms(1,2)] assms(3) by (auto simp: ud_refs_def)

lemma net_refs_cb:
  assumes "net_refs s" "heap s b = Some ud" "r \<in> set (live_refs ud)"
  shows "callable s r" "r \<notin> set (statics s)"
  using net_refsD(2) [OF assms(1,2)] assms(3) by (auto simp: ud_refs_def)

lemma net_refs_in_registry:
  assumes "net_refs s" "heap s b = Some ud" "self_ref ud \<noteq> LUA_NOREF"
  shows "in_registry s b"
  using net_refs_self [OF assms] by (auto simp: in_registry_def)

text \<open>A reference that is given back, and perhaps replaced by a new one.\<close>

definition fresh_in :: "(int \<rightharpoonup> lua_value) \<Rightarrow> int \<Rightarrow> bool" where
  "fresh_in reg r \<longleftrightarrow> 0 < r \<and> reg r = None"

lemma unref_registry: "registry (unref r s) = (if 0 \<le> r then (registry s)(r := None) else registry s)"
  by (simp add: unref_def luaL_unref_def)

lemma unref_simps [simp]: "heap (unref r s) = heap s" "medium (unref r s) = medium s" "high (unref r s) = high s"
    "resolving (unref r s) = resolving s" "lwip (unref r s) = lwip s" "statics (unref r s) = statics s"
  by (simp_all add: unref_def statics_def)

lemma put_ud_simps [simp]: "heap (put_ud a ud s) = (heap s)(a \<mapsto> ud)" "registry (put_ud a ud s) = registry s"
    "medium (put_ud a ud s) = medium s" "high (put_ud a ud s) = high s" "resolving (put_ud a ud s) = resolving s"
    "lwip (put_ud a ud s) = lwip s" "statics (put_ud a ud s) = statics s" "put_ud a ud (put_ud a ud' s) = put_ud a ud s"
  by (simp_all add: put_ud_def statics_def)

lemma upd_lwip_simps [simp]: "heap (upd_lwip f s) = heap s" "registry (upd_lwip f s) = registry s"
    "medium (upd_lwip f s) = medium s" "high (upd_lwip f s) = high s" "resolving (upd_lwip f s) = resolving s"
    "lwip (upd_lwip f s) = f (lwip s)" "statics (upd_lwip f s) = statics s"
  by (simp_all add: upd_lwip_def statics_def)

lemma statics_cong [simp]: "statics (s\<lparr>lwip := w\<rparr>) = statics s" "statics (s\<lparr>registry := reg\<rparr>) = statics s"
    "statics (s\<lparr>heap := h\<rparr>) = statics s" "statics (s\<lparr>myref := r\<rparr>) = statics s"
  by (simp_all add: statics_def)

lemma add_ref_fresh:
  assumes "add_ref env v s = (r, s1)" "new_ref_laws (new_ref env)" "finite (dom (registry s))" "v \<noteq> Lua_nil"
  shows "fresh_in (registry s) r" "s1 = s\<lparr>registry := (registry s)(r \<mapsto> v)\<rparr>"
  using assms by (auto simp: add_ref_def luaL_ref_def new_ref_laws_def fresh_in_def)

lemma renew_ref_fresh:
  assumes "renew_ref env old v s = (r, s1)" "new_ref_laws (new_ref env)" "finite (dom (registry s))" "v \<noteq> Lua_nil"
  shows "fresh_in (registry (unref old s)) r" "s1 = s\<lparr>registry := (registry (unref old s))(r \<mapsto> v)\<rparr>"
proof -
  have f: "finite (dom (registry (unref old s)))"
    using assms(3) by (auto simp: unref_registry intro: finite_subset [rotated])
  from add_ref_fresh [OF assms(1) [unfolded renew_ref_def] assms(2) f assms(4)]
  show "fresh_in (registry (unref old s)) r" "s1 = s\<lparr>registry := (registry (unref old s))(r \<mapsto> v)\<rparr>"
    by (auto simp: unref_def)
qed

text \<open>The callbacks of other objects, and the references of requests, outlive the change of one slot.\<close>

lemma unref_cb_others:
  assumes refs: "net_refs s" and h: "heap s a = Some ud" and old: "old = LUA_NOREF \<or> old \<in> set (live_refs ud)"
    and b: "heap s b = Some ud'" "r \<in> set (self_ref ud' # live_refs ud')" "r \<noteq> LUA_NOREF" "b \<noteq> a \<or> r \<noteq> old"
  shows "registry (unref old s) r = registry s r" "registry (unref old s) r \<noteq> None"
proof -
  have reg: "registry s r \<noteq> None"
    using net_refs_self [OF refs b(1)] net_refs_cb [OF refs b(1), of r] b(2,3) by (auto simp: callable_def)
  have "r \<noteq> old"
  proof
    assume e: "r = old"
    then have o: "r \<in> set (live_refs ud)" using old b(3) by auto
    then obtain f where f: "registry s r = Some (Lua_function f)" using net_refs_cb [OF refs h] by (auto simp: callable_def)
    have "r \<noteq> self_ref ud'" using f net_refs_self [OF refs b(1)] b(3) by auto
    then have "r \<in> set (live_refs ud')" using b(2) by simp
    then show False using net_refsD(3) [OF refs h b(1)] o b(4) e by blast
  qed
  then show "registry (unref old s) r = registry s r" by (simp add: unref_registry)
  then show "registry (unref old s) r \<noteq> None" using reg by simp
qed

lemma unref_cb_statics:
  assumes refs: "net_refs s" and h: "heap s a = Some ud" and old: "old = LUA_NOREF \<or> old \<in> set (live_refs ud)"
    and r: "r \<in> set (statics s)"
  shows "registry (unref old s) r = registry s r" "callable (unref old s) r"
proof -
  have c: "callable s r" using net_refsD(4) [OF refs r] .
  have "r \<noteq> old" using old net_refs_cb(2) [OF refs h] r c by (auto simp: callable_def)
  then show "registry (unref old s) r = registry s r" by (simp add: unref_registry)
  then show "callable (unref old s) r" using c by (simp add: callable_def)
qed

lemma net_refs_slot:
  assumes refs: "net_refs s" and h: "heap s a = Some ud" and i: "i < length (cb_refs ud)"
    and self: "self_ref ud' = self_ref ud" and cbs: "cb_refs ud' = (cb_refs ud)[i := r]"
    and new: "r = LUA_NOREF \<and> reg = registry (unref (cb_refs ud ! i) s) \<or>
      fresh_in (registry (unref (cb_refs ud ! i) s)) r \<and> reg = (registry (unref (cb_refs ud ! i) s))(r \<mapsto> Lua_function f)"
  shows "net_refs (put_ud a ud' (s\<lparr>registry := reg\<rparr>))"
proof -
  let ?old = "cb_refs ud ! i" and ?s = "put_ud a ud' (s\<lparr>registry := reg\<rparr>)"
  note u = net_refsD(2) [OF refs h, unfolded ud_refs_def]
  have old: "?old = LUA_NOREF \<or> ?old \<in> set (live_refs ud)" using nth_mem [OF i] by (auto simp: live_refs_def)
  have new1: "reg q = registry (unref ?old s) q" if "q \<noteq> r \<or> r = LUA_NOREF" for q
    using new by (rule disjE) (use that in \<open>auto simp: fresh_in_def\<close>)
  have new2: "0 < r" "registry (unref ?old s) r = None" "reg r = Some (Lua_function f)" if "r \<noteq> LUA_NOREF"
    using new that by (simp_all add: fresh_in_def)
  have obj: "reg q = registry s q" "r = q \<Longrightarrow> r = LUA_NOREF"
    if "heap s b = Some ud2" "q \<in> set (self_ref ud2 # live_refs ud2)" "q \<noteq> LUA_NOREF" "b \<noteq> a \<or> q \<noteq> ?old" for b ud2 q
    using new1 [of q] new2(2) unref_cb_others [OF refs h old that] by metis+
  have stat: "reg q = registry s q" "callable ?s q" "r \<noteq> q" if "q \<in> set (statics s)" for q
  proof -
    note c = unref_cb_statics [OF refs h old that]
    show ne: "r \<noteq> q" using c(2) new2(2) by (force simp: callable_def)
    then have e: "reg q = registry (unref ?old s) q" by (intro new1) simp
    show "reg q = registry s q" using e c(1) by simp
    show "callable ?s q" using c(2) e by (simp add: callable_def)
  qed
  have fresh: "r \<noteq> LUA_NOREF \<Longrightarrow> r \<notin> set (live_refs ud) - {?old}" using obj(2) [OF h] by auto
  have live: "distinct (live_refs ud')"
    "set (live_refs ud') = (if r \<noteq> LUA_NOREF then {r} else {}) \<union> (set (live_refs ud) - {?old})"
    using filter_update [OF i, of "\<lambda>q. q \<noteq> LUA_NOREF" r] u fresh unfolding live_refs_def cbs by simp_all
  have call: "callable ?s q" if "q \<in> set (live_refs ud')" for q
  proof (cases "q = r")
    case True then show ?thesis using new2 that by (auto simp: callable_def live_refs_def)
  next
    case False
    then have q: "q \<in> set (live_refs ud)" "q \<noteq> ?old" "q \<noteq> LUA_NOREF" using that unfolding live(2) by (auto simp: live_refs_def split: if_splits)
    then show ?thesis using obj(1) [OF h, of q] u by (auto simp: callable_def)
  qed
  have self_ne: "self_ref ud \<noteq> ?old" if "self_ref ud \<noteq> LUA_NOREF"
    using net_refs_self [OF refs h that] old u that by (auto simp: callable_def)
  have "finite (dom (registry (unref ?old s)))" using net_refsD(1) [OF refs] by (auto simp: unref_registry)
  then have fin: "finite (dom reg)" using new by (elim disjE conjE) simp_all
  show ?thesis
  proof (rule net_refs_update [OF refs, where a = a])
    fix ud2 assume "heap ?s a = Some ud2"
    then have e: "ud2 = ud'" by simp
    have "self_ref ud = LUA_NOREF \<or> reg (self_ref ud) = registry s (self_ref ud)"
      using obj(1) [OF h, of "self_ref ud"] self_ne by auto
    then show "ud_refs ?s a ud2" unfolding e ud_refs_def using u self call live stat(3) by (auto split: if_splits)
  next
    fix ud2 b ud3 assume b: "heap ?s a = Some ud2" "heap s b = Some ud3" "b \<noteq> a"
    have "r \<noteq> LUA_NOREF \<Longrightarrow> r \<notin> set (live_refs ud3)" using obj(2) [OF b(2), of r] b(3) by auto
    then show "set (live_refs ud2) \<inter> set (live_refs ud3) = {}"
      using b live(2) net_refsD(3) [OF refs h b(2)] by (auto split: if_splits)
  next
    fix b ud2 q assume "heap s b = Some ud2" "b \<noteq> a" "q \<in> set (self_ref ud2 # live_refs ud2)" "q \<noteq> LUA_NOREF"
    then show "registry ?s q = registry s q" using obj(1) by simp
  qed (use fin stat net_refsD(5) [OF refs] in auto)
qed

lemma keep_self_cases:
  assumes "keep_self env a ud s = (ud', s')" "heap s a = Some ud" "new_ref_laws (new_ref env)" "finite (dom (registry s))"
  shows "ud' = ud \<and> s' = s \<and> self_ref ud \<noteq> LUA_NOREF \<or>
    (\<exists>r. ud' = ud\<lparr>self_ref := r\<rparr> \<and> fresh_in (registry s) r \<and> self_ref ud = LUA_NOREF \<and>
       s' = put_ud a ud' (s\<lparr>registry := (registry s)(r \<mapsto> Lua_userdata a)\<rparr>))"
proof (cases "self_ref ud = LUA_NOREF")
  case True
  obtain r s1 where r: "add_ref env (Lua_userdata a) s = (r, s1)" by fastforce
  show ?thesis using assms(1) True add_ref_fresh [OF r assms(3,4)] by (auto simp: keep_self_def r)
qed (use assms(1) in \<open>simp add: keep_self_def\<close>)

lemma live_refs_self [simp]: "live_refs (ud\<lparr>self_ref := r\<rparr>) = live_refs ud"
    "live_refs (ud\<lparr>pcb := p\<rparr>) = live_refs ud" "live_refs (ud\<lparr>hold := h\<rparr>) = live_refs ud"
  by (simp_all add: live_refs_def cb_refs_def split: net_type.splits)

lemma net_refs_keep_self:
  assumes refs: "net_refs s" and h: "heap s a = Some ud" and k: "keep_self env a ud s = (ud', s')"
    and law: "new_ref_laws (new_ref env)"
  shows "net_refs s'"
proof -
  consider "s' = s" | r where "ud' = ud\<lparr>self_ref := r\<rparr>" "fresh_in (registry s) r" "self_ref ud = LUA_NOREF"
      "s' = put_ud a ud' (s\<lparr>registry := (registry s)(r \<mapsto> Lua_userdata a)\<rparr>)"
    using keep_self_cases [OF k h law net_refsD(1) [OF refs]] by blast
  then show ?thesis
  proof cases
    case 2
    have other: "q \<noteq> r" if "callable s q" for q using that 2(2) by (auto simp: callable_def fresh_in_def)
    have self: "r \<noteq> self_ref ud2" if "heap s b = Some ud2" "self_ref ud2 \<noteq> LUA_NOREF" for b ud2
      using net_refs_self [OF refs that] 2(2) by (auto simp: fresh_in_def)
    note u = net_refsD(2) [OF refs h, unfolded ud_refs_def]
    show ?thesis unfolding 2(4)
    proof (rule net_refs_update [OF refs, where a = a])
      fix ud2 assume "heap (put_ud a ud' (s\<lparr>registry := (registry s)(r \<mapsto> Lua_userdata a)\<rparr>)) a = Some ud2"
      then show "ud_refs (put_ud a ud' (s\<lparr>registry := (registry s)(r \<mapsto> Lua_userdata a)\<rparr>)) a ud2"
        using u other [unfolded callable_def] 2(1,2) by (fastforce simp: ud_refs_def callable_def fresh_in_def)
    next
      fix b ud2 q assume "heap s b = Some ud2" "b \<noteq> a" "q \<in> set (self_ref ud2 # live_refs ud2)" "q \<noteq> LUA_NOREF"
      then show "registry (put_ud a ud' (s\<lparr>registry := (registry s)(r \<mapsto> Lua_userdata a)\<rparr>)) q = registry s q"
        using self other net_refs_cb(1) [OF refs] by fastforce
    next
      fix q assume "q \<in> set (statics (put_ud a ud' (s\<lparr>registry := (registry s)(r \<mapsto> Lua_userdata a)\<rparr>)))"
      then show "callable (put_ud a ud' (s\<lparr>registry := (registry s)(r \<mapsto> Lua_userdata a)\<rparr>)) q"
        using net_refsD(4) [OF refs, of q] other [of q] by (simp add: callable_def)
    qed (use net_refsD(1,5) [OF refs] net_refsD(3) [OF refs h] 2(1) in \<open>auto simp: disjoint_iff\<close>)
  qed (use refs in simp)
qed

lemma net_refs_drop_self:
  assumes refs: "net_refs s" and h: "heap s a = Some ud"
  shows "net_refs (drop_self a ud s)"
proof (cases "self_ref ud = LUA_NOREF")
  case True
  have "ud\<lparr>self_ref := LUA_NOREF\<rparr> = ud" using True by (cases ud) simp
  moreover have "drop_self a ud s = put_ud a (ud\<lparr>self_ref := LUA_NOREF\<rparr>) s"
    using True by (simp add: drop_self_def unref_def luaL_unref_def)
  ultimately have "drop_self a ud s = put_ud a ud s" by (simp only:)
  then show ?thesis by (auto intro: net_refs_same [OF refs, where a = a] simp: h net_refsD(5) [OF refs])
next
  case False
  note self = net_refs_self [OF refs h False]
  have other: "q \<noteq> self_ref ud" if "callable s q" for q using that self by (auto simp: callable_def)
  have reg: "registry (drop_self a ud s) = (registry s)(self_ref ud := None)"
    using self(1) by (simp add: drop_self_def unref_registry)
  have stat: "statics (drop_self a ud s) = statics s" by (simp add: drop_self_def)
  note u = net_refsD(2) [OF refs h, unfolded ud_refs_def]
  show ?thesis
  proof (rule net_refs_update [OF refs, where a = a])
    fix ud2 assume "heap (drop_self a ud s) a = Some ud2"
    then show "ud_refs (drop_self a ud s) a ud2"
      using u False other [unfolded callable_def] reg by (fastforce simp: ud_refs_def callable_def drop_self_def)
  next
    fix b ud2 q assume b: "heap s b = Some ud2" "b \<noteq> a" "q \<in> set (self_ref ud2 # live_refs ud2)" "q \<noteq> LUA_NOREF"
    have "self_ref ud2 \<noteq> LUA_NOREF \<Longrightarrow> self_ref ud2 \<noteq> self_ref ud"
      using net_refs_self [OF refs b(1)] self(2) b(2) by auto
    then show "registry (drop_self a ud s) q = registry s q"
      using b other net_refs_cb(1) [OF refs b(1)] unfolding reg by auto
  next
    fix q assume "q \<in> set (statics (drop_self a ud s))"
    then show "callable (drop_self a ud s) q"
      using net_refsD(4) [OF refs, of q] other [of q] unfolding stat by (simp add: callable_def reg)
  qed (use net_refsD(1,5) [OF refs] net_refsD(3) [OF refs h] reg in \<open>auto simp: drop_self_def disjoint_iff\<close>)
qed

text \<open>An object that is freed, with the references it held.\<close>

lemma net_refs_free:
  assumes refs: "net_refs s" and h: "heap s a = Some ud"
    and heap: "heap s' = (heap s)(a := None)" and stat: "statics s' = statics s"
    and reg: "\<And>q. registry s' q = (if q \<noteq> LUA_NOREF \<and> q \<in> set (self_ref ud # live_refs ud) then None else registry s q)"
  shows "net_refs s'"
proof -
  note u = net_refsD(2) [OF refs h, unfolded ud_refs_def]
  have self: "q \<noteq> self_ref ud" if "callable s q" for q using u that by (auto simp: callable_def)
  have fin: "dom (registry s') \<subseteq> dom (registry s)" using reg by (auto split: if_splits)
  show ?thesis
  proof (rule net_refs_update [OF refs, where a = a])
    fix b ud2 q assume b: "heap s b = Some ud2" "b \<noteq> a" "q \<in> set (self_ref ud2 # live_refs ud2)" "q \<noteq> LUA_NOREF"
    have live: "q \<in> set (live_refs ud2) \<Longrightarrow> q \<notin> set (live_refs ud)" using net_refsD(3) [OF refs h b(1)] b(2) by auto
    have "q \<in> set (live_refs ud2) \<Longrightarrow> q \<noteq> self_ref ud" using self net_refs_cb(1) [OF refs b(1)] by blast
    moreover have "q = self_ref ud2 \<Longrightarrow> q \<noteq> self_ref ud \<and> q \<notin> set (live_refs ud)"
      using net_refs_self [OF refs b(1)] b(2,4) u by (auto simp: callable_def)
    ultimately show "registry s' q = registry s q" using reg live b(3) by auto
  next
    fix q assume q: "q \<in> set (statics s')"
    have c: "callable s q" using net_refsD(4) [OF refs] q stat by simp
    have "q \<notin> set (live_refs ud)" using u q stat by auto
    then show "callable s' q" using c self [OF c] reg by (simp add: callable_def)
  qed (use fin net_refsD(1,5) [OF refs] stat heap in \<open>auto intro: finite_subset\<close>)
qed

section \<open>The work outstanding\<close>

definition errors :: "net_event list \<Rightarrow> nat" where
  "errors es = length (filter (\<lambda>e. rank e = 1) es)"

text \<open>The events an object of each type gets; a new connection of a server comes as SENTDATA.\<close>

fun fits :: "net_type \<Rightarrow> net_event \<Rightarrow> bool" where
  "fits TYPE_TCP_SERVER (SENTDATA _ _) = True"
| "fits TYPE_TCP_SERVER _ = False"
| "fits TYPE_UDP_SOCKET (DNSFOUND _ _) = True"
| "fits TYPE_UDP_SOCKET (RECVDATA _ ip _ _) = (ip \<noteq> None)"
| "fits TYPE_UDP_SOCKET _ = False"
| "fits TYPE_TCP_CLIENT (ACCEPT _ _) = False"
| "fits TYPE_TCP_CLIENT _ = True"

definition idle :: "'w net_env \<Rightarrow> 'w \<Rightarrow> lnet_userdata \<Rightarrow> bool" where
  "idle env w ud \<longleftrightarrow> pcb ud = 0 \<or> type ud \<noteq> TYPE_UDP_SOCKET \<and> tcp_states env w (pcb ud) = Some True"

definition has_block :: "'w net_env \<Rightarrow> 'w \<Rightarrow> lnet_userdata \<Rightarrow> bool" where
  "has_block env w ud \<longleftrightarrow>
     (if type ud = TYPE_UDP_SOCKET then udp_live env w (pcb ud) else tcp_states env w (pcb ud) \<noteq> None)"

text \<open>
  What holds of an object with the events es, nr requests, nd frames of ldnsfound_cb and ne frames of
  lerr_cb outstanding; i says that it has no connection under way, h that its block is there.
\<close>

definition work_ok :: "lnet_userdata \<Rightarrow> net_event list \<Rightarrow> nat \<Rightarrow> nat \<Rightarrow> nat \<Rightarrow> bool \<Rightarrow> bool \<Rightarrow> bool" where
  "work_ok ud es nr nd ne i h \<longleftrightarrow>
     sorted (map rank es) \<and> (\<forall>e \<in> set es. fits (type ud) e) \<and>
     (nr + nd + answers es > 0 \<longrightarrow> type ud \<noteq> TYPE_TCP_SERVER) \<and>
     (type ud \<noteq> TYPE_TCP_SERVER \<longrightarrow> int (nr + nd + answers es) \<le> wait_dns ud) \<and>
     (type ud = TYPE_TCP_CLIENT \<longrightarrow> nr + nd + answers es \<le> 1) \<and>
     (es \<noteq> [] \<or> nr + nd + ne > 0 \<or> pcb ud \<noteq> 0 \<longrightarrow> self_ref ud \<noteq> LUA_NOREF) \<and>
     (ne + errors es > 0 \<longrightarrow> type ud = TYPE_TCP_CLIENT \<and> i \<and> (pcb ud = 0 \<or> wait_dns ud > 0)) \<and>
     ne + errors es \<le> 1 \<and>
     (ne > 0 \<longrightarrow> (\<forall>e \<in> set es. rank e = 2)) \<and> (nd > 0 \<longrightarrow> ne = 0) \<and>
     (type ud = TYPE_TCP_CLIENT \<and> nr + nd + answers es > 0 \<longrightarrow> i) \<and>
     (type ud = TYPE_TCP_CLIENT \<and> nd > 0 \<longrightarrow> (\<forall>e \<in> set es. rank e = 2)) \<and>
     (type ud \<noteq> TYPE_TCP_CLIENT \<and> pcb ud = 0 \<longrightarrow> (\<forall>e \<in> set es. rank e = 2)) \<and>
     (pcb ud \<noteq> 0 \<longrightarrow> h)"

definition ud_work ::
    "'w net_env \<Rightarrow> 'w \<Rightarrow> lnet_userdata \<Rightarrow> net_event list \<Rightarrow> nat \<Rightarrow> nat \<Rightarrow> nat \<Rightarrow> bool" where
  "ud_work env w ud es nr nd ne \<longleftrightarrow> work_ok ud es nr nd ne (idle env w ud) (has_block env w ud)"

definition net_work :: "'w net_env \<Rightarrow> 'w net_state \<Rightarrow> frame list \<Rightarrow> bool" where
  "net_work env s fs \<longleftrightarrow>
     (\<forall>a ud. heap s a = Some ud \<longrightarrow>
        ud_work env (lwip s) ud (own_events a s) (requests a s) (dns_frames a fs) (err_frames a fs)) \<and>
     (\<forall>a. heap s a = None \<longrightarrow> \<not> busy a s fs) \<and>
     (\<forall>a b ud ud'. heap s a = Some ud \<and> heap s b = Some ud' \<and> a \<noteq> b \<and> pcb ud = pcb ud' \<and> pcb ud \<noteq> 0 \<longrightarrow>
        (type ud = TYPE_UDP_SOCKET) \<noteq> (type ud' = TYPE_UDP_SOCKET)) \<and>
     (\<forall>e \<in> set (high s). rank e = 0) \<and> heap s 0 = None"

definition net_inv :: "'w net_env \<Rightarrow> 'w net_config \<Rightarrow> bool" where
  "net_inv env c \<longleftrightarrow> (case c of (s, fs) \<Rightarrow> net_refs s \<and> net_work env s fs)"

lemma net_workD:
  assumes "net_work env s fs"
  shows "heap s a = Some ud \<Longrightarrow>
      ud_work env (lwip s) ud (own_events a s) (requests a s) (dns_frames a fs) (err_frames a fs)"
    "heap s a = None \<Longrightarrow> \<not> busy a s fs"
    "heap s a = Some ud \<Longrightarrow> heap s b = Some ud' \<Longrightarrow> a \<noteq> b \<Longrightarrow> pcb ud = pcb ud' \<Longrightarrow> pcb ud \<noteq> 0 \<Longrightarrow>
       (type ud = TYPE_UDP_SOCKET) \<noteq> (type ud' = TYPE_UDP_SOCKET)"
    "e \<in> set (high s) \<Longrightarrow> rank e = 0" "heap s 0 = None"
  using assms unfolding net_work_def by blast+

text \<open>A block that stays: closed if it was.\<close>

definition block_stays :: "'w net_env \<Rightarrow> 'w \<Rightarrow> 'w \<Rightarrow> lnet_userdata \<Rightarrow> bool" where
  "block_stays env w w' ud \<longleftrightarrow> (has_block env w ud \<longrightarrow> has_block env w' ud) \<and> (idle env w ud \<longrightarrow> idle env w' ud)"

lemma work_ok_mono:
  assumes "work_ok ud es nr nd ne i h" "i \<Longrightarrow> i'" "pcb ud \<noteq> 0 \<Longrightarrow> h \<Longrightarrow> h'"
  shows "work_ok ud es nr nd ne i' h'"
  using assms by (cases "pcb ud = 0"; cases i; cases i'; cases h; cases h') (simp_all add: work_ok_def)

lemma ud_work_stays:
  assumes "ud_work env w ud es nr nd ne" "pcb ud \<noteq> 0 \<Longrightarrow> block_stays env w w' ud"
  shows "ud_work env w' ud es nr nd ne"
  unfolding ud_work_def
proof (rule work_ok_mono [OF assms(1) [unfolded ud_work_def]])
  show "idle env w ud \<Longrightarrow> idle env w' ud" using assms(2) by (cases "pcb ud = 0") (simp_all add: idle_def block_stays_def)
qed (use assms(2) in \<open>simp add: block_stays_def\<close>)

lemma net_work_update:
  assumes work: "net_work env s fs"
    and heap: "\<And>b. b \<noteq> a \<Longrightarrow> heap s' b = heap s b"
    and out: "\<And>b. b \<noteq> a \<Longrightarrow> own_events b s' = own_events b s \<and> requests b s' = requests b s \<and>
      dns_frames b fs' = dns_frames b fs \<and> err_frames b fs' = err_frames b fs"
    and stays: "\<And>b ud. b \<noteq> a \<Longrightarrow> heap s b = Some ud \<Longrightarrow> pcb ud \<noteq> 0 \<Longrightarrow> block_stays env (lwip s) (lwip s') ud"
    and self: "\<And>ud. heap s' a = Some ud \<Longrightarrow>
      ud_work env (lwip s') ud (own_events a s') (requests a s') (dns_frames a fs') (err_frames a fs')"
    and none: "heap s' a = None \<Longrightarrow> \<not> busy a s' fs'"
    and block: "\<And>ud b ud'. heap s' a = Some ud \<Longrightarrow> b \<noteq> a \<Longrightarrow> heap s b = Some ud' \<Longrightarrow> pcb ud = pcb ud' \<Longrightarrow> pcb ud \<noteq> 0 \<Longrightarrow>
      (type ud = TYPE_UDP_SOCKET) \<noteq> (type ud' = TYPE_UDP_SOCKET)"
    and high: "\<And>e. e \<in> set (high s') \<Longrightarrow> rank e = 0"
    and null: "a = 0 \<Longrightarrow> heap s' 0 = None"
  shows "net_work env s' fs'"
  unfolding net_work_def
proof (intro conjI allI impI ballI high)
  fix b ud assume b: "heap s' b = Some ud"
  show "ud_work env (lwip s') ud (own_events b s') (requests b s') (dns_frames b fs') (err_frames b fs')"
  proof (cases "b = a")
    case False
    then have h: "heap s b = Some ud" using b heap by simp
    show ?thesis using ud_work_stays [OF net_workD(1) [OF work h] stays [OF False h]] out [OF False] by simp
  qed (use b self in simp)
next
  fix b assume b: "heap s' b = None"
  show "\<not> busy b s' fs'"
  proof (cases "b = a")
    case False
    then show ?thesis using net_workD(2) [OF work, of b] b heap [OF False] out [OF False]
      by (simp add: busy_def dns_work_def)
  qed (use b none in simp)
next
  fix b c ud ud'
  assume h: "heap s' b = Some ud \<and> heap s' c = Some ud' \<and> b \<noteq> c \<and> pcb ud = pcb ud' \<and> pcb ud \<noteq> 0"
  then consider "b = a" "c \<noteq> a" | "c = a" "b \<noteq> a" | "b \<noteq> a" "c \<noteq> a" by blast
  then show "(type ud = TYPE_UDP_SOCKET) \<noteq> (type ud' = TYPE_UDP_SOCKET)"
  proof cases
    case 1
    then have "heap s c = Some ud'" using h heap [of c] by metis
    then show ?thesis using block [of ud c ud'] 1 h by blast
  next
    case 2
    then have "heap s b = Some ud" using h heap [of b] by metis
    then show ?thesis using block [of ud' b ud] 2 h by metis
  next
    case 3
    then have "heap s b = Some ud" "heap s c = Some ud'" using h heap by simp_all
    then show ?thesis using net_workD(3) [OF work, of b ud c ud'] h by blast
  qed
next
  show "heap s' 0 = None" using null heap [of 0] net_workD(5) [OF work] by (cases "a = 0") simp_all
qed

lemma own_events_simps [simp]:
  "own_events b (put_ud a ud s) = own_events b s" "own_events b (upd_lwip f s) = own_events b s"
  "own_events b (unref r s) = own_events b s" "own_events b (s\<lparr>registry := reg\<rparr>) = own_events b s"
  "own_events b (s\<lparr>lwip := w\<rparr>) = own_events b s" "own_events b (s\<lparr>heap := h\<rparr>) = own_events b s"
  "own_events b (s\<lparr>resolving := rs\<rparr>) = own_events b s" "own_events b (s\<lparr>myref := r\<rparr>) = own_events b s"
  "own_events b (to_medium ev s) = own_events b s @ (if ev_obj ev = Some b then [ev] else [])"
  by (simp_all add: own_events_def put_ud_def upd_lwip_def unref_def to_medium_def)

lemma requests_simps [simp]:
  "requests b (put_ud a ud s) = requests b s" "requests b (upd_lwip f s) = requests b s"
  "requests b (unref r s) = requests b s" "requests b (s\<lparr>registry := reg\<rparr>) = requests b s"
  "requests b (s\<lparr>lwip := w\<rparr>) = requests b s" "requests b (s\<lparr>heap := h\<rparr>) = requests b s"
  "requests b (s\<lparr>myref := r\<rparr>) = requests b s" "requests b (to_medium ev s) = requests b s"
  "requests b (to_high ev s) = requests b s"
  "requests b (s\<lparr>medium := m\<rparr>) = requests b s" "requests b (s\<lparr>high := m\<rparr>) = requests b s"
  by (simp_all add: requests_def put_ud_def upd_lwip_def unref_def to_medium_def to_high_def)

lemma to_medium_simps [simp]: "heap (to_medium ev s) = heap s" "registry (to_medium ev s) = registry s"
    "high (to_medium ev s) = high s" "resolving (to_medium ev s) = resolving s" "lwip (to_medium ev s) = lwip s"
    "statics (to_medium ev s) = concat (map static_ref (high s @ medium s @ [ev])) @ concat (map request_ref (resolving s))"
  by (simp_all add: to_medium_def statics_def)

lemma to_high_simps [simp]: "heap (to_high ev s) = heap s" "registry (to_high ev s) = registry s"
    "high (to_high ev s) = high s @ [ev]" "medium (to_high ev s) = medium s"
    "resolving (to_high ev s) = resolving s" "lwip (to_high ev s) = lwip s"
  by (simp_all add: to_high_def)

lemma frames_simps [simp]:
  "dns_frames a [] = 0" "err_frames a [] = 0"
  "dns_frames a (f # fs) = (if dns_frame a f then 1 else 0) + dns_frames a fs"
  "err_frames a (f # fs) = (if f = After_err a then 1 else 0) + err_frames a fs"
  by (simp_all add: dns_frames_def err_frames_def)

lemma answers_simps [simp]: "answers [] = 0" "answers (e # es) = (if rank e = 2 then 1 else 0) + answers es"
    "answers (es @ es') = answers es + answers es'"
  by (simp_all add: answers_def)

lemma errors_simps [simp]: "errors [] = 0" "errors (e # es) = (if rank e = 1 then 1 else 0) + errors es"
    "errors (es @ es') = errors es + errors es'"
  by (simp_all add: errors_def)

lemma answers_all: "\<forall>e \<in> set es. rank e = 2 \<Longrightarrow> answers es = length es"
  by (simp add: answers_def)

end
