(* ===== verification/Lua_Net_Calls.thy ===== *)
theory Lua_Net_Calls
  imports Lua_Net_Inv
begin

text \<open>
  The changes of the state that keep the invariant of the socket module, and the calls that register
  callbacks and ask the resolver.
\<close>

section \<open>Results that keep the invariant\<close>

definition keeps_inv :: "'w net_env \<Rightarrow> frame list \<Rightarrow> 'w net_result \<Rightarrow> bool" where
  "keeps_inv env fs res \<longleftrightarrow> (case res of Some (r, s) \<Rightarrow> net_inv env (s, push r fs) | None \<Rightarrow> False)"

named_theorems inv_intros \<open>results that keep the invariant\<close>

lemma net_invD:
  assumes "net_inv env (s, fs)"
  shows "net_refs s" "net_work env s fs"
  using assms by (simp_all add: net_inv_def)

lemma keeps_inv_Return [inv_intros]: "net_inv env (s, fs) \<Longrightarrow> keeps_inv env fs (Some (Return vs, s))"
  by (simp add: keeps_inv_def push_def)

lemma keeps_inv_Raise [inv_intros]: "net_inv env (s, fs) \<Longrightarrow> keeps_inv env fs (Some (Raise e, s))"
  by (simp add: keeps_inv_def push_def)

lemma keeps_inv_checkerr [inv_intros]: "net_inv env (s, fs) \<Longrightarrow> keeps_inv env fs (lwip_lua_checkerr e s)"
  by (cases e) (simp_all add: lwip_lua_checkerr_def keeps_inv_def push_def)

text \<open>A frame that does not refer to an object does not count.\<close>

definition plain_frame :: "frame \<Rightarrow> bool" where
  "plain_frame k \<longleftrightarrow> (case k of After_dns _ _ \<Rightarrow> False | After_err _ \<Rightarrow> False | _ \<Rightarrow> True)"

lemma plain_frames: "plain_frame k \<Longrightarrow> dns_frames a (k # fs) = dns_frames a fs \<and> err_frames a (k # fs) = err_frames a fs"
  by (cases k) (simp_all add: plain_frame_def)

lemma net_inv_plain: "plain_frame k \<Longrightarrow> net_inv env (s, k # fs) \<longleftrightarrow> net_inv env (s, fs)"
  using plain_frames [of k] by (simp add: net_inv_def net_work_def busy_def dns_work_def)

lemma keeps_inv_Call [inv_intros]:
  "net_inv env (s, fs) \<Longrightarrow> plain_frame k \<Longrightarrow> keeps_inv env fs (Some (Call v vs k, s))"
  by (cases v) (simp_all add: keeps_inv_def push_def net_inv_plain)

lemma keeps_inv_with_ud:
  assumes "net_inv env (s, fs)" "\<forall>a. Lua_userdata a \<in> set args \<longrightarrow> heap s a \<noteq> None"
    "\<And>a ud. lua_arg args 1 = Lua_userdata a \<Longrightarrow> heap s a = Some ud \<Longrightarrow> ok (type ud) \<Longrightarrow> keeps_inv env fs (f a ud)"
  shows "keeps_inv env fs (with_ud args ok s f)"
proof (cases "\<exists>a. lua_arg args 1 = Lua_userdata a")
  case True
  then obtain a where a: "lua_arg args 1 = Lua_userdata a" by blast
  then have "Lua_userdata a \<in> set args" by (cases args) (auto simp: lua_arg_def split: if_splits)
  then obtain ud where h: "heap s a = Some ud" using assms(2) by auto
  show ?thesis
    using assms(3) [OF a h] keeps_inv_Raise [OF assms(1)] a h by (simp add: with_ud_def net_get_udata_def)
qed (use keeps_inv_Raise [OF assms(1)] in \<open>simp add: with_ud_def net_get_udata_def split: lua_value.splits\<close>)

lemma keeps_inv_with_integer [inv_intros]:
  "net_inv env (s, fs) \<Longrightarrow> (\<And>n. keeps_inv env fs (f n)) \<Longrightarrow> keeps_inv env fs (with_integer env args i s f)"
  by (simp add: with_integer_def keeps_inv_Raise split: option.splits)

lemma keeps_inv_with_text [inv_intros]:
  "net_inv env (s, fs) \<Longrightarrow>
     (\<And>t. lua_tolstring (num_text env) (lua_arg args i) = Some t \<Longrightarrow> keeps_inv env fs (f t)) \<Longrightarrow>
     keeps_inv env fs (with_text env args i s f)"
  by (simp add: with_text_def keeps_inv_Raise split: option.splits)

section \<open>Changes of the state\<close>

lemma block_stays_keeps: "keeps env w w' \<Longrightarrow> block_stays env w w' ud"
  by (simp add: keeps_def block_stays_def has_block_def idle_def)

lemma keeps_trans [trans]: "keeps env w w' \<Longrightarrow> keeps env w' w'' \<Longrightarrow> keeps env w w''"
  by (simp add: keeps_def)

lemma lwip_keepsD:
  assumes "net_laws env"
  shows "keeps env w (tcp_register env p r w)" "keeps env w (set_remote_port env p n w)"
    "keeps env w (snd (tcp_bind env p ip n w))" "keeps env w (snd (tcp_write env p d w))"
    "keeps env w (tcp_recved env p n w)" "keeps env w (tcp_accepted env p w)" "keeps env w (udp_recv env p a w)"
    "keeps env w (snd (udp_bind env p ip n w))" "keeps env w (snd (udp_sendto env p d ip n w))"
    "keeps env w (pbuf_free env b w)" "keeps env w (snd (snd (dns_gethostbyname env d q w)))"
    "keeps env w (dns_setserver env i ip w)" "keeps env w (igmp_joingroup env g m w)" "keeps env w (igmp_leavegroup env g m w)"
  using assms by (simp_all add: net_laws_def lwip_keeps_def)

lemma lwip_blocksD:
  assumes "net_laws env"
  shows "tcp_new env w = (p, w') \<Longrightarrow> udp_live env w' = udp_live env w \<and>
        (if p = 0 then tcp_states env w' = tcp_states env w
         else tcp_states env w p = None \<and> tcp_states env w' = (tcp_states env w)(p \<mapsto> True))"
    "tcp_listen env p w = (q, w') \<Longrightarrow> udp_live env w' = udp_live env w \<and>
        (if q = 0 then tcp_states env w' = tcp_states env w
         else (q = p \<or> tcp_states env w q = None) \<and> (\<exists>b. tcp_states env w' = (tcp_states env w)(p := None, q \<mapsto> b)))"
    "udp_live env (tcp_connect env p ip n w) = udp_live env w"
    "\<exists>b. tcp_states env (tcp_connect env p ip n w) = (tcp_states env w)(p \<mapsto> b)"
    "tcp_close env p w = (e, w') \<Longrightarrow> udp_live env w' = udp_live env w \<and>
        tcp_states env w' = (if e = ERR_OK then (tcp_states env w)(p := None) else tcp_states env w)"
    "udp_live env (tcp_abort env p w) = udp_live env w" "tcp_states env (tcp_abort env p w) = (tcp_states env w)(p := None)"
    "udp_new env w = (p, w') \<Longrightarrow> tcp_states env w' = tcp_states env w \<and>
        (if p = 0 then udp_live env w' = udp_live env w
         else \<not> udp_live env w p \<and> udp_live env w' = (udp_live env w)(p := True))"
    "tcp_states env (udp_remove env p w) = tcp_states env w"
    "udp_live env (udp_remove env p w) = (udp_live env w)(p := False)"
proof -
  have L: "lwip_blocks env" using assms by (simp add: net_laws_def)
  note L1 = L [unfolded lwip_blocks_def]
  note L2 = L1 [THEN conjunct2]
  note L3 = L2 [THEN conjunct2]
  note L4 = L3 [THEN conjunct2]
  note L5 = L4 [THEN conjunct2]
  note L6 = L5 [THEN conjunct2]
  note L7 = L6 [THEN conjunct2]
  show "tcp_new env w = (p, w') \<Longrightarrow> udp_live env w' = udp_live env w \<and>
        (if p = 0 then tcp_states env w' = tcp_states env w
         else tcp_states env w p = None \<and> tcp_states env w' = (tcp_states env w)(p \<mapsto> True))"
    using L1 [THEN conjunct1] by simp
  show "tcp_listen env p w = (q, w') \<Longrightarrow> udp_live env w' = udp_live env w \<and>
        (if q = 0 then tcp_states env w' = tcp_states env w
         else (q = p \<or> tcp_states env w q = None) \<and> (\<exists>b. tcp_states env w' = (tcp_states env w)(p := None, q \<mapsto> b)))"
    using L2 [THEN conjunct1] by simp
  show "udp_live env (tcp_connect env p ip n w) = udp_live env w"
    "\<exists>b. tcp_states env (tcp_connect env p ip n w) = (tcp_states env w)(p \<mapsto> b)"
    using L3 [THEN conjunct1] by simp_all
  show "tcp_close env p w = (e, w') \<Longrightarrow> udp_live env w' = udp_live env w \<and>
        tcp_states env w' = (if e = ERR_OK then (tcp_states env w)(p := None) else tcp_states env w)"
    using L4 [THEN conjunct1] by simp
  show "udp_live env (tcp_abort env p w) = udp_live env w" "tcp_states env (tcp_abort env p w) = (tcp_states env w)(p := None)"
    using L5 [THEN conjunct1] by simp_all
  show "udp_new env w = (p, w') \<Longrightarrow> tcp_states env w' = tcp_states env w \<and>
        (if p = 0 then udp_live env w' = udp_live env w
         else \<not> udp_live env w p \<and> udp_live env w' = (udp_live env w)(p := True))"
    using L6 [THEN conjunct1] by simp
  show "tcp_states env (udp_remove env p w) = tcp_states env w"
    "udp_live env (udp_remove env p w) = (udp_live env w)(p := False)"
    using L7 by simp_all
qed

lemma net_laws_refs: "net_laws env \<Longrightarrow> new_ref_laws (new_ref env)"
  by (simp add: net_laws_def)

lemma net_work_moves:
  assumes "net_work env s fs" "\<And>ud a. heap s a = Some ud \<Longrightarrow> pcb ud \<noteq> 0 \<Longrightarrow> block_stays env (lwip s) w ud"
  shows "net_work env (s\<lparr>lwip := w\<rparr>) fs"
  unfolding net_work_def
proof (intro conjI allI impI ballI)
  fix a ud assume "heap (s\<lparr>lwip := w\<rparr>) a = Some ud"
  then have h: "heap s a = Some ud" by simp
  show "ud_work env (lwip (s\<lparr>lwip := w\<rparr>)) ud (own_events a (s\<lparr>lwip := w\<rparr>)) (requests a (s\<lparr>lwip := w\<rparr>)) (dns_frames a fs) (err_frames a fs)"
    using ud_work_stays [OF net_workD(1) [OF assms(1) h] assms(2) [OF h]] by simp
next
  fix a b ud ud'
  assume "heap (s\<lparr>lwip := w\<rparr>) a = Some ud \<and> heap (s\<lparr>lwip := w\<rparr>) b = Some ud' \<and> a \<noteq> b \<and> pcb ud = pcb ud' \<and> pcb ud \<noteq> 0"
  then show "(type ud = TYPE_UDP_SOCKET) \<noteq> (type ud' = TYPE_UDP_SOCKET)" using net_workD(3) [OF assms(1), of a ud b ud'] by simp
qed (use net_workD(2,4,5) [OF assms(1)] in \<open>auto simp: busy_def dns_work_def\<close>)

lemma net_inv_lwip [inv_intros]:
  assumes "net_inv env (s, fs)" "keeps env (lwip s) w"
  shows "net_inv env (s\<lparr>lwip := w\<rparr>, fs)"
proof -
  have "net_refs (s\<lparr>lwip := w\<rparr>)"
    using net_refsD(5) [OF net_invD(1) [OF assms(1)]] by (intro net_refs_same [OF net_invD(1) [OF assms(1)], where a = 0]) auto
  moreover have "net_work env (s\<lparr>lwip := w\<rparr>) fs" using net_invD(2) [OF assms(1)] block_stays_keeps [OF assms(2)]
    by (intro net_work_moves) auto
  ultimately show ?thesis by (simp add: net_inv_def)
qed

text \<open>The invariant after a change of one object and of lwIP; the object's events stay.\<close>

lemma work_ok_cong:
  assumes "type ud' = type ud" "pcb ud' = pcb ud" "self_ref ud' = self_ref ud"
    "type ud \<noteq> TYPE_TCP_SERVER \<Longrightarrow> wait_dns ud' = wait_dns ud"
  shows "work_ok ud' es nr nd ne i h = work_ok ud es nr nd ne i h"
proof (cases "type ud = TYPE_TCP_SERVER")
  case True
  then show ?thesis using assms(1-3) by (simp add: work_ok_def)
next
  case False
  then show ?thesis using assms by (simp add: work_ok_def)
qed

lemma ud_work_cong:
  assumes "type ud' = type ud" "pcb ud' = pcb ud" "self_ref ud' = self_ref ud"
    "type ud \<noteq> TYPE_TCP_SERVER \<Longrightarrow> wait_dns ud' = wait_dns ud"
  shows "ud_work env w ud' es nr nd ne = ud_work env w ud es nr nd ne"
  using work_ok_cong [OF assms] by (simp add: ud_work_def idle_def has_block_def assms)

lemma net_work_ud:
  assumes work: "net_work env s fs" and h: "heap s a = Some ud"
    and s': "heap s' = (heap s)(a \<mapsto> ud')" "medium s' = medium s" "high s' = high s" "resolving s' = resolving s"
    and stays: "\<And>b ud2. b \<noteq> a \<Longrightarrow> heap s b = Some ud2 \<Longrightarrow> pcb ud2 \<noteq> 0 \<Longrightarrow> block_stays env (lwip s) (lwip s') ud2"
    and self: "ud_work env (lwip s') ud' (own_events a s) (requests a s) (dns_frames a fs') (err_frames a fs')"
    and block: "\<And>b ud2. b \<noteq> a \<Longrightarrow> heap s b = Some ud2 \<Longrightarrow> pcb ud' = pcb ud2 \<Longrightarrow> pcb ud' \<noteq> 0 \<Longrightarrow>
      (type ud' = TYPE_UDP_SOCKET) \<noteq> (type ud2 = TYPE_UDP_SOCKET)"
    and fs: "\<And>b. b \<noteq> a \<Longrightarrow> dns_frames b fs' = dns_frames b fs \<and> err_frames b fs' = err_frames b fs"
  shows "net_work env s' fs'"
proof (rule net_work_update [OF work, where a = a])
  have e: "own_events b s' = own_events b s" "requests b s' = requests b s" for b
    using s' by (simp_all add: own_events_def requests_def)
  show "b \<noteq> a \<Longrightarrow> own_events b s' = own_events b s \<and> requests b s' = requests b s \<and>
      dns_frames b fs' = dns_frames b fs \<and> err_frames b fs' = err_frames b fs" for b
    using e fs by simp
  show "heap s' a = Some ud2 \<Longrightarrow>
      ud_work env (lwip s') ud2 (own_events a s') (requests a s') (dns_frames a fs') (err_frames a fs')" for ud2
    using self e s'(1) by simp
next
  fix e assume "e \<in> set (high s')"
  then show "rank e = 0" using net_workD(4) [OF work] s'(3) by simp
next
  show "a = 0 \<Longrightarrow> heap s' 0 = None" using h net_workD(5) [OF work] by simp
qed (use s'(1) stays block in auto)

text \<open>One callback of an object is replaced or taken away.\<close>

lemma net_inv_slot:
  assumes inv: "net_inv env (s, fs)" and h: "heap s a = Some ud" and i: "i < length (cb_refs ud)" "cb_refs ud ! i = old"
    and cbs: "cb_refs ud' = (cb_refs ud)[i := r]"
    and same: "type ud' = type ud" "pcb ud' = pcb ud" "self_ref ud' = self_ref ud"
      "type ud \<noteq> TYPE_TCP_SERVER \<Longrightarrow> wait_dns ud' = wait_dns ud"
    and reg: "r = LUA_NOREF \<and> reg = registry (unref old s) \<or>
      fresh_in (registry (unref old s)) r \<and> reg = (registry (unref old s))(r \<mapsto> Lua_function f)"
  shows "net_inv env (put_ud a ud' (s\<lparr>registry := reg\<rparr>), fs)"
proof -
  note work = net_invD(2) [OF inv]
  have "net_work env (put_ud a ud' (s\<lparr>registry := reg\<rparr>)) fs"
    using net_workD(1) [OF work h] net_workD(3) [OF work h] same
    by (intro net_work_ud [OF work h, of _ ud']) (auto simp: ud_work_cong [OF same] block_stays_def)
  then show ?thesis
    using net_refs_slot [OF net_invD(1) [OF inv] h i(1) same(3) cbs] reg unfolding i(2) net_inv_def by simp
qed

lemma is_function_eq: "is_function v \<longleftrightarrow> (\<exists>f. v = Lua_function f)"
  by (cases v) (simp_all add: is_function_def)

lemma net_inv_replace:
  assumes inv: "net_inv env (s, fs)" and law: "net_laws env" and h: "heap s a = Some ud"
    and i: "i < length (cb_refs ud)" "cb_refs ud ! i = old" and f: "is_function v"
    and r: "renew_ref env old v s = (r, s1)"
    and cbs: "cb_refs ud' = (cb_refs ud)[i := r]"
    and same: "type ud' = type ud" "pcb ud' = pcb ud" "self_ref ud' = self_ref ud"
      "type ud \<noteq> TYPE_TCP_SERVER \<Longrightarrow> wait_dns ud' = wait_dns ud"
  shows "net_inv env (put_ud a ud' s1, fs)"
proof -
  obtain g where g: "v = Lua_function g" using f is_function_eq by blast
  note fr = renew_ref_fresh [OF r net_laws_refs [OF law] net_refsD(1) [OF net_invD(1) [OF inv]], unfolded g, simplified]
  show ?thesis unfolding fr(2) by (rule net_inv_slot [OF inv h i cbs same]) (use fr(1) in auto)
qed

lemma net_work_eq:
  assumes "heap s' = heap s" "medium s' = medium s" "high s' = high s" "resolving s' = resolving s" "lwip s' = lwip s"
  shows "net_work env s' fs = net_work env s fs"
proof -
  have e: "own_events a s' = own_events a s" "requests a s' = requests a s" for a
    by (simp_all add: own_events_def requests_def assms)
  show ?thesis unfolding net_work_def busy_def dns_work_def e assms by (rule refl)
qed

text \<open>References that the module does not own may change.\<close>

lemma net_inv_registry:
  assumes inv: "net_inv env (s, fs)" and fin: "finite (dom reg)" and own: "\<And>r. ref_owned s r \<Longrightarrow> reg r = registry s r"
  shows "net_inv env (s\<lparr>registry := reg\<rparr>, fs)"
proof -
  note refs = net_invD(1) [OF inv] and work = net_invD(2) [OF inv]
  have cb: "reg r = registry s r" if "heap s a = Some ud" "r \<in> set (self_ref ud # live_refs ud)" for a ud r
    using own [of r] that by (auto simp: ref_owned_def live_refs_def)
  have st: "reg r = registry s r" if "r \<in> set (statics s)" for r using own [of r] that by (simp add: ref_owned_def)
  have "net_refs (s\<lparr>registry := reg\<rparr>)"
    unfolding net_refs_def
  proof (intro conjI allI impI ballI)
    fix a ud assume "heap (s\<lparr>registry := reg\<rparr>) a = Some ud"
    then have h: "heap s a = Some ud" by simp
    show "ud_refs (s\<lparr>registry := reg\<rparr>) a ud"
      by (rule ud_refs_cong [OF net_refsD(2) [OF refs h], where X = "{}"]) (use cb [OF h] in auto)
  next
    fix a b ud ud' assume "heap (s\<lparr>registry := reg\<rparr>) a = Some ud \<and> heap (s\<lparr>registry := reg\<rparr>) b = Some ud' \<and> a \<noteq> b"
    then show "set (live_refs ud) \<inter> set (live_refs ud') = {}" using net_refsD(3) [OF refs, of a ud b ud'] by simp
  next
    fix r assume "r \<in> set (statics (s\<lparr>registry := reg\<rparr>))"
    then show "callable (s\<lparr>registry := reg\<rparr>) r" using net_refsD(4) [OF refs, of r] st [of r] by (simp add: callable_def)
  qed (use fin net_refsD(5) [OF refs] in simp_all)
  moreover have "net_work env (s\<lparr>registry := reg\<rparr>) fs" using work by (subst net_work_eq) auto
  ultimately show ?thesis by (simp add: net_inv_def)
qed

lemma owned_registered:
  assumes "net_refs s" "ref_owned s r" "r \<noteq> LUA_NOREF"
  shows "registry s r \<noteq> None"
proof -
  from assms(2) consider a ud where "heap s a = Some ud" "r \<in> set (self_ref ud # cb_refs ud)" | "r \<in> set (statics s)"
    by (auto simp: ref_owned_def)
  then show ?thesis
  proof cases
    case 1
    then show ?thesis using net_refs_self(2) [OF assms(1) 1(1)] net_refs_cb(1) [OF assms(1) 1(1), of r] assms(3)
      by (auto simp: callable_def live_refs_def)
  qed (use net_refsD(4) [OF assms(1)] in \<open>auto simp: callable_def\<close>)
qed

lemma net_inv_add:
  assumes inv: "net_inv env (s, fs)" and law: "net_laws env" and r: "add_ref env v s = (r, s1)"
  shows "net_inv env (s1, fs)"
proof (cases "v = Lua_nil")
  case False
  note fr = add_ref_fresh [OF r net_laws_refs [OF law] net_refsD(1) [OF net_invD(1) [OF inv]] False]
  have "q \<noteq> r" if "ref_owned s q" for q
    using fr(1) owned_registered [OF net_invD(1) [OF inv] that] by (auto simp: fresh_in_def)
  then show ?thesis unfolding fr(2)
    by (intro net_inv_registry [OF inv]) (use net_refsD(1) [OF net_invD(1) [OF inv]] in auto)
qed (use inv r in \<open>simp add: add_ref_def\<close>)

lemma net_inv_myref [simp]: "net_inv env (s\<lparr>myref := r\<rparr>, fs) = net_inv env (s, fs)"
  using net_work_eq [of "s\<lparr>myref := r\<rparr>" s] by (simp add: net_inv_def net_refs_def ud_refs_def callable_def)

text \<open>A new object.\<close>

lemma init_ud_simps [simp]: "type (init_ud t m) = t" "pcb (init_ud t m) = 0" "self_ref (init_ud t m) = LUA_NOREF"
    "live_refs (init_ud t m) = []" "t \<noteq> TYPE_TCP_SERVER \<Longrightarrow> wait_dns (init_ud t m) = 0"
  by (cases t; simp add: init_ud_def live_refs_def cb_refs_def)+

lemma keeps_inv_create:
  assumes inv: "net_inv env (s, fs)" and law: "net_laws env"
  shows "keeps_inv env fs (net_create env t s)"
proof (cases "new_userdata env (heap s)")
  case None
  then show ?thesis using keeps_inv_Raise [OF inv] by (simp add: net_create_def)
next
  case (Some a)
  let ?ud = "init_ud t (unwritten env)"
  note refs = net_invD(1) [OF inv] and work = net_invD(2) [OF inv]
  have a: "heap s a = None" "a \<noteq> 0" using Some law by (simp_all add: net_laws_def)
  have "net_refs (put_ud a ?ud s)"
    by (rule net_refs_update [OF refs, where a = a])
      (use net_refsD(1,4,5) [OF refs] in \<open>auto simp: ud_refs_def callable_def\<close>)
  moreover have "net_work env (put_ud a ?ud s) fs"
    by (rule net_work_update [OF work, where a = a])
      (use net_workD(2) [OF work a(1)] net_workD(4) [OF work] a(2) in
        \<open>auto simp: ud_work_def work_ok_def busy_def dns_work_def block_stays_def\<close>)
  ultimately show ?thesis
    using Some by (simp add: net_create_def keeps_inv_def push_def net_inv_def)
qed

section \<open>Objects that get a reference of their own\<close>

lemma net_refs_put:
  assumes refs: "net_refs s" and h: "heap s a = Some ud"
    and same: "live_refs ud' = live_refs ud" "self_ref ud' = self_ref ud \<or> self_ref ud' = LUA_NOREF"
  shows "net_refs (put_ud a ud' (s\<lparr>lwip := w\<rparr>))"
  by (rule net_refs_same [OF refs, where a = a]) (use net_refsD(5) [OF refs] h same in auto)

lemma keep_self_fields:
  assumes "keep_self env a ud s = (ud', s')"
  shows "medium s' = medium s" "high s' = high s" "resolving s' = resolving s" "lwip s' = lwip s"
    "own_events b s' = own_events b s" "requests b s' = requests b s"
  using assms by (auto simp: keep_self_def add_ref_def split: if_splits prod.splits)

lemma net_inv_open:
  assumes inv: "net_inv env (s, fs)" and law: "net_laws env" and h: "heap s a = Some ud"
    and same: "live_refs ud1 = live_refs ud" "self_ref ud1 = self_ref ud"
    and stays: "\<And>b ud2. b \<noteq> a \<Longrightarrow> heap s b = Some ud2 \<Longrightarrow> pcb ud2 \<noteq> 0 \<Longrightarrow> block_stays env (lwip s) w ud2"
    and work: "\<And>r. r \<noteq> LUA_NOREF \<Longrightarrow>
      ud_work env w (ud1\<lparr>self_ref := r\<rparr>) (own_events a s) (requests a s) (dns_frames a fs) (err_frames a fs)"
    and block: "\<And>b ud2. b \<noteq> a \<Longrightarrow> heap s b = Some ud2 \<Longrightarrow> pcb ud1 = pcb ud2 \<Longrightarrow> pcb ud1 \<noteq> 0 \<Longrightarrow>
      (type ud1 = TYPE_UDP_SOCKET) \<noteq> (type ud2 = TYPE_UDP_SOCKET)"
    and k: "keep_self env a ud1 (put_ud a ud1 (s\<lparr>lwip := w\<rparr>)) = (ud2, s2)"
  shows "net_inv env (s2, fs)" "\<exists>r. r \<noteq> LUA_NOREF \<and> ud2 = ud1\<lparr>self_ref := r\<rparr>" "heap s2 = (heap s)(a \<mapsto> ud2)"
proof -
  let ?s1 = "put_ud a ud1 (s\<lparr>lwip := w\<rparr>)"
  note refs = net_refs_put [OF net_invD(1) [OF inv] h same(1) disjI1 [OF same(2)], of w]
  have h1: "heap ?s1 a = Some ud1" by simp
  have "ud1 = ud1\<lparr>self_ref := self_ref ud1\<rparr>" by (cases ud1) simp
  then consider "ud2 = ud1\<lparr>self_ref := self_ref ud1\<rparr>" "ud2 = ud1" "s2 = ?s1" "self_ref ud1 \<noteq> LUA_NOREF"
    | r where "ud2 = ud1\<lparr>self_ref := r\<rparr>" "r \<noteq> LUA_NOREF"
        "s2 = put_ud a ud2 (?s1\<lparr>registry := (registry ?s1)(r \<mapsto> Lua_userdata a)\<rparr>)"
    using keep_self_cases [OF k h1 net_laws_refs [OF law] net_refsD(1) [OF refs]] by (auto simp: fresh_in_def)
  then show r: "\<exists>r. r \<noteq> LUA_NOREF \<and> ud2 = ud1\<lparr>self_ref := r\<rparr>" and hp: "heap s2 = (heap s)(a \<mapsto> ud2)"
    by (cases; auto)+
  have "net_work env s2 fs"
    by (rule net_work_ud [OF net_invD(2) [OF inv] h hp])
      (use keep_self_fields [OF k] stays r work block in auto)
  then show "net_inv env (s2, fs)"
    using net_refs_keep_self [OF refs h1 k net_laws_refs [OF law]] by (simp add: net_inv_def)
qed

text \<open>An event or a request more for an object.\<close>

lemma statics_post: "static_ref ev = [] \<Longrightarrow> statics (to_medium ev s) = statics s"
    "static_ref ev = [] \<Longrightarrow> statics (to_high ev s) = statics s"
  by (simp_all add: statics_def to_medium_def to_high_def)

lemma net_inv_medium:
  assumes inv: "net_inv env (s, fs)" and h: "heap s a = Some ud" and ev: "ev_obj ev = Some a"
    and work: "ud_work env (lwip s) ud (own_events a s @ [ev]) (requests a s) (dns_frames a fs) (err_frames a fs)"
  shows "net_inv env (to_medium ev s, fs)"
proof -
  note refs = net_invD(1) [OF inv] and w = net_invD(2) [OF inv]
  have st: "static_ref ev = []" using ev by (cases ev) simp_all
  have "net_refs (to_medium ev s)"
    by (rule net_refs_same [OF refs, where a = a]) (use net_refsD(5) [OF refs] in \<open>auto simp: statics_post [OF st] simp del: to_medium_simps(6)\<close>)
  moreover have "net_work env (to_medium ev s) fs"
    by (rule net_work_update [OF w, where a = a])
      (use h ev work net_workD(3) [OF w h] net_workD(4,5) [OF w] in \<open>auto simp: block_stays_def\<close>)
  ultimately show ?thesis by (simp add: net_inv_def)
qed

lemma net_inv_request:
  assumes inv: "net_inv env (s, fs)" and h: "heap s a = Some ud"
    and work: "ud_work env (lwip s) ud (own_events a s) (Suc (requests a s)) (dns_frames a fs) (err_frames a fs)"
  shows "net_inv env (s\<lparr>resolving := resolving s @ [Dns_for a]\<rparr>, fs)"
proof -
  note refs = net_invD(1) [OF inv] and w = net_invD(2) [OF inv]
  let ?s = "s\<lparr>resolving := resolving s @ [Dns_for a]\<rparr>"
  have st: "statics ?s = statics s" by (simp add: statics_def)
  have rq: "requests b ?s = requests b s + (if b = a then 1 else 0)" for b by (simp add: requests_def)
  have "net_refs ?s"
    by (rule net_refs_same [OF refs, where a = a]) (use net_refsD(5) [OF refs] st in auto)
  moreover have "net_work env ?s fs"
    by (rule net_work_update [OF w, where a = a])
      (use h work net_workD(3) [OF w h] net_workD(4,5) [OF w] rq in \<open>auto simp: block_stays_def\<close>)
  ultimately show ?thesis by (simp add: net_inv_def)
qed

section \<open>Requests to the resolver\<close>

lemma live_refs_wait [simp]: "type ud \<noteq> TYPE_TCP_SERVER \<Longrightarrow> live_refs (ud\<lparr>wait_dns := n\<rparr>) = live_refs ud"
  by (simp add: live_refs_def cb_refs_def split: net_type.splits)

text \<open>What a failed request leaves: the object as it was, but for what g undoes.\<close>

lemma net_inv_undo:
  assumes inv: "net_inv env (s, fs)" and h: "heap s a = Some ud0"
    and inv2: "net_inv env (s2, fs)" and h2: "heap s2 = (heap s)(a \<mapsto> ud2)"
    and k: "medium s2 = medium s" "high s2 = high s" "resolving s2 = resolving s"
    and s': "s' = put_ud a ud' (upd_lwip f (if self_ref ud0 = LUA_NOREF then unref (self_ref ud2) (s2\<lparr>lwip := w\<rparr>) else s2\<lparr>lwip := w\<rparr>))"
    and same: "live_refs ud' = live_refs ud2" "self_ref ud' = self_ref ud0"
      "self_ref ud0 \<noteq> LUA_NOREF \<Longrightarrow> self_ref ud2 = self_ref ud0"
    and stays: "\<And>b ud3. b \<noteq> a \<Longrightarrow> heap s b = Some ud3 \<Longrightarrow> pcb ud3 \<noteq> 0 \<Longrightarrow> block_stays env (lwip s) (f w) ud3"
    and work: "ud_work env (f w) ud' (own_events a s) (requests a s) (dns_frames a fs) (err_frames a fs)"
    and block: "\<And>b ud3. b \<noteq> a \<Longrightarrow> heap s b = Some ud3 \<Longrightarrow> pcb ud' = pcb ud3 \<Longrightarrow> pcb ud' \<noteq> 0 \<Longrightarrow>
      (type ud' = TYPE_UDP_SOCKET) \<noteq> (type ud3 = TYPE_UDP_SOCKET)"
  shows "net_inv env (s', fs)"
proof -
  have h2': "heap s2 a = Some ud2" using h2 by simp
  have "net_refs s'"
  proof (cases "self_ref ud0 = LUA_NOREF")
    case True
    have e: "s' = put_ud a ud' ((drop_self a ud2 s2)\<lparr>lwip := f w\<rparr>)"
      using True by (simp add: s' drop_self_def put_ud_def upd_lwip_def unref_def)
    show ?thesis unfolding e
      by (rule net_refs_put [OF net_refs_drop_self [OF net_invD(1) [OF inv2] h2'], of _ "ud2\<lparr>self_ref := LUA_NOREF\<rparr>"])
        (use same True in \<open>simp_all add: drop_self_def\<close>)
  next
    case False
    have e: "s' = put_ud a ud' (s2\<lparr>lwip := f w\<rparr>)" using False by (simp add: s' put_ud_def upd_lwip_def)
    show ?thesis unfolding e
      by (rule net_refs_put [OF net_invD(1) [OF inv2] h2']) (use same False in simp_all)
  qed
  moreover have "net_work env s' fs"
    by (rule net_work_ud [OF net_invD(2) [OF inv] h, of s' ud']) (use s' h2 k stays work block in auto)
  ultimately show ?thesis by (simp add: net_inv_def)
qed

lemma keeps_inv_resolve:
  assumes inv: "net_inv env (s, fs)" and law: "net_laws env" and h: "heap s a = Some ud0" and t: "type ud0 \<noteq> TYPE_TCP_SERVER"
    and ud: "live_refs ud = live_refs ud0" "self_ref ud = self_ref ud0" "type ud = type ud0"
    and a0: "a \<noteq> 0"
    and stays: "\<And>b ud3. b \<noteq> a \<Longrightarrow> heap s b = Some ud3 \<Longrightarrow> pcb ud3 \<noteq> 0 \<Longrightarrow> block_stays env (lwip s) w ud3"
    and block: "\<And>b ud3. b \<noteq> a \<Longrightarrow> heap s b = Some ud3 \<Longrightarrow> pcb ud = pcb ud3 \<Longrightarrow> pcb ud \<noteq> 0 \<Longrightarrow>
      (type ud = TYPE_UDP_SOCKET) \<noteq> (type ud3 = TYPE_UDP_SOCKET)"
    and work: "\<And>r es nr. r \<noteq> LUA_NOREF \<Longrightarrow>
      (es, nr) \<in> {(own_events a s, requests a s), (own_events a s, Suc (requests a s))} \<or>
      (\<exists>ip. es = own_events a s @ [DNSFOUND a ip] \<and> nr = requests a s) \<Longrightarrow>
      ud_work env w (ud\<lparr>wait_dns := wait_dns ud + 1, self_ref := r\<rparr>) es nr (dns_frames a fs) (err_frames a fs)"
    and failed: "\<And>x s'. heap s' a = Some x \<Longrightarrow> type x = type ud \<Longrightarrow>
        failed s' = Some (told (self_ref x) (put_ud a (g x) (upd_lwip f s')))"
      "live_refs (g ud) = live_refs ud" "self_ref (g ud) = self_ref ud" "type (g ud) = type ud" "pcb (g ud) = 0 \<or> pcb (g ud) = pcb ud"
    and told: "\<And>s'. \<not> resolver_accepts env \<Longrightarrow> net_inv env (s', fs) \<Longrightarrow> heap s' a = Some (g ud) \<Longrightarrow>
        own_events a s' = own_events a s \<Longrightarrow> requests a s' = requests a s \<Longrightarrow> net_inv env (told (self_ref ud) s', fs)"
    and undo: "\<And>w'. keeps env w w' \<Longrightarrow> ud_work env (f w') (g ud) (own_events a s) (requests a s) (dns_frames a fs) (err_frames a fs)"
      "\<And>w' b ud3. keeps env w w' \<Longrightarrow> b \<noteq> a \<Longrightarrow> heap s b = Some ud3 \<Longrightarrow> pcb ud3 \<noteq> 0 \<Longrightarrow> block_stays env (lwip s) (f w') ud3"
  shows "keeps_inv env fs (resolve env a ud domain failed (s\<lparr>lwip := w\<rparr>))"
proof -
  let ?ud1 = "ud\<lparr>wait_dns := wait_dns ud + 1\<rparr>"
  obtain ud2 s2 where k: "keep_self env a ?ud1 (put_ud a ?ud1 (s\<lparr>lwip := w\<rparr>)) = (ud2, s2)" by fastforce
  obtain e addr w1 where d: "dns_gethostbyname env domain (Dns_for a) w = (e, addr, w1)" using prod_cases3 by blast
  have kw: "keeps env w w1" using lwip_keepsD(11) [OF law, of w domain "Dns_for a"] d by simp
  have k1: "keep_self env a ?ud1 (put_ud a ?ud1 (s\<lparr>lwip := w\<rparr>)) = (ud2, s2) \<and> live_refs ?ud1 = live_refs ud0 \<and> self_ref ?ud1 = self_ref ud0"
    using k ud t by simp
  have wk: "r \<noteq> LUA_NOREF \<Longrightarrow>
      ud_work env w (?ud1\<lparr>self_ref := r\<rparr>) (own_events a s) (requests a s) (dns_frames a fs) (err_frames a fs)" for r
    using work by simp
  have bl: "b \<noteq> a \<Longrightarrow> heap s b = Some ud3 \<Longrightarrow> pcb ?ud1 = pcb ud3 \<Longrightarrow> pcb ?ud1 \<noteq> 0 \<Longrightarrow>
      (type ?ud1 = TYPE_UDP_SOCKET) \<noteq> (type ud3 = TYPE_UDP_SOCKET)" for b ud3
    using block [of b ud3] by simp
  have op: "net_inv env (s2, fs)" "\<exists>r. r \<noteq> LUA_NOREF \<and> ud2 = ?ud1\<lparr>self_ref := r\<rparr>" "heap s2 = (heap s)(a \<mapsto> ud2)"
    subgoal by (rule net_inv_open(1) [OF inv law h _ _ _ _ _ k]) (use k1 stays wk bl in blast)+
    subgoal by (rule net_inv_open(2) [OF inv law h _ _ _ _ _ k]) (use k1 stays wk bl in blast)+
    subgoal by (rule net_inv_open(3) [OF inv law h _ _ _ _ _ k]) (use k1 stays wk bl in blast)+
    done
  note kf = keep_self_fields [OF k]
  obtain r where r: "r \<noteq> LUA_NOREF" "ud2 = ?ud1\<lparr>self_ref := r\<rparr>" using op(2) by blast
  let ?s = "s2\<lparr>lwip := w1\<rparr>"
  have inv1: "net_inv env (?s, fs)" using net_inv_lwip [OF op(1)] kf(4) kw by simp
  have h1: "heap ?s a = Some ud2" using op(3) by simp
  have wk1: "ud_work env w1 ud2 es nr (dns_frames a fs) (err_frames a fs)"
    if "(es, nr) \<in> {(own_events a s, requests a s), (own_events a s, Suc (requests a s))} \<or>
      (\<exists>ip. es = own_events a s @ [DNSFOUND a ip] \<and> nr = requests a s)" for es nr
    using ud_work_stays [OF work [OF r(1) that] block_stays_keeps [OF kw]] r(2) by simp
  consider "e = ERR_OK" | "e = ERR_INPROGRESS" | "e \<noteq> ERR_OK" "e \<noteq> ERR_INPROGRESS" by blast
  then show ?thesis
  proof cases
    case 1
    have "net_inv env (to_medium (DNSFOUND a addr) ?s, fs)"
      by (rule net_inv_medium [OF inv1 h1]) (use wk1 kf in auto)
    then have "net_inv env (net_dns_cb env (Some addr) a ?s, fs)"
      using inv1 by (simp add: net_dns_cb_def post_net_dns_def post_def Let_def)
    then show ?thesis using 1 kf(4) by (simp add: resolve_def k d keeps_inv_Return)
  next
    case 2
    have "net_inv env (?s\<lparr>resolving := resolving ?s @ [Dns_for a]\<rparr>, fs)"
      by (rule net_inv_request [OF inv1 h1]) (use wk1 kf in auto)
    then show ?thesis using 2 kf(4) by (simp add: resolve_def k d keeps_inv_Return)
  next
    case 3
    let ?s' = "put_ud a (g ud) (upd_lwip f (if self_ref ud0 = LUA_NOREF then unref (self_ref ud2) ?s else ?s))"
    have self2: "self_ref ud0 \<noteq> LUA_NOREF \<Longrightarrow> self_ref ud2 = self_ref ud0 \<and> r = self_ref ud0"
    proof -
      assume n: "self_ref ud0 \<noteq> LUA_NOREF"
      then have "ud2 = ?ud1" using k ud(2) by (simp add: keep_self_def)
      then show "self_ref ud2 = self_ref ud0 \<and> r = self_ref ud0" using arg_cong [OF r(2), of self_ref] ud(2) by simp
    qed
    have "net_inv env (?s', fs)"
      by (rule net_inv_undo [OF inv h op(1) op(3), where f = f and w = w1 and ud' = "g ud"])
        (use kf failed undo kw ud t self2 r(2) block in auto)
    moreover have "heap ?s' a = Some (g ud)" "own_events a ?s' = own_events a s" "requests a ?s' = requests a s"
      using kf by (auto simp: own_events_def requests_def upd_lwip_def unref_def)
    moreover have "\<not> resolver_accepts env"
      using 3 d by (auto simp: resolver_accepts_def) (metis fst_conv)
    ultimately have "net_inv env (told (self_ref ud) ?s', fs)" by (intro told)
    moreover have "resolve env a ud domain failed (s\<lparr>lwip := w\<rparr>) = lwip_lua_checkerr e (told (self_ref ud) ?s')"
    proof -
      have u: "ud\<lparr>self_ref := self_ref ud0\<rparr> = ud" using ud(2) by (cases ud) simp
      have put: "put_ud a (g ud) (upd_lwip f (put_ud a x s')) = put_ud a (g ud) (upd_lwip f s')" for x s'
        by (simp add: put_ud_def upd_lwip_def)
      have fl: "failed (put_ud a ud s') = Some (told (self_ref ud) (put_ud a (g ud) (upd_lwip f s')))" for s'
        using failed(1) [of "put_ud a ud s'" ud] put by simp
      show ?thesis
      proof (cases "self_ref ud0 = LUA_NOREF")
        case True
        have gu: "ud\<lparr>self_ref := LUA_NOREF\<rparr> = ud" using u unfolding True .
        show ?thesis using 3 kf(4) ud(2) r(2) True by (simp add: resolve_def k d gu fl)
      next
        case False
        show ?thesis using 3 kf(4) self2 [OF False] ud(2) r(2) False by (simp add: resolve_def k d u fl)
      qed
    qed
    ultimately show ?thesis by (simp only: keeps_inv_checkerr)
  qed
qed

lemma rank_le: "rank e \<le> 2"
  by (cases e) simp_all

lemma net_work_block:
  assumes "net_work env s fs" "heap s b = Some ud" "pcb ud \<noteq> 0"
  shows "has_block env (lwip s) ud"
  using net_workD(1) [OF assms(1,2)] assms(3) by (simp add: ud_work_def work_ok_def)

lemma net_work_open:
  assumes "net_work env s fs" "heap s b = Some ud" "pcb ud \<noteq> 0"
  shows "self_ref ud \<noteq> LUA_NOREF"
  using net_workD(1) [OF assms(1,2)] assms(3) by (simp add: ud_work_def work_ok_def)

text \<open>A control block that was not there is none of another object.\<close>

lemma new_block:
  assumes work: "net_work env s fs" and law: "net_laws env" and new: "tcp_new env (lwip s) = (p, w)" "p \<noteq> 0" and k: "keeps env w w'"
  shows "tcp_states env w' = (tcp_states env (lwip s))(p \<mapsto> True)" "udp_live env w' = udp_live env (lwip s)"
    "block_stays env (lwip s) w' ud"
    "heap s b = Some ud2 \<Longrightarrow> pcb ud2 = p \<Longrightarrow> type ud2 = TYPE_UDP_SOCKET"
    "tcp_states env (tcp_abort env p w') = tcp_states env (lwip s)" "udp_live env (tcp_abort env p w') = udp_live env (lwip s)"
    "block_stays env (lwip s) (tcp_abort env p w') ud"
proof -
  note n = lwip_blocksD(1) [OF law new(1)]
  show t: "tcp_states env w' = (tcp_states env (lwip s))(p \<mapsto> True)" and u: "udp_live env w' = udp_live env (lwip s)"
    using n new(2) k by (simp_all add: keeps_def)
  have none: "tcp_states env (lwip s) p = None" using n new(2) by simp
  show "block_stays env (lwip s) w' ud" using t u none by (auto simp: block_stays_def has_block_def idle_def)
  show "heap s b = Some ud2 \<Longrightarrow> pcb ud2 = p \<Longrightarrow> type ud2 = TYPE_UDP_SOCKET"
    using net_work_block [OF work, of b ud2] none new(2) by (auto simp: has_block_def split: if_splits)
  show t': "tcp_states env (tcp_abort env p w') = tcp_states env (lwip s)"
    using lwip_blocksD(7) [OF law, of p w'] t none by (simp add: fun_eq_iff)
  show u': "udp_live env (tcp_abort env p w') = udp_live env (lwip s)" using lwip_blocksD(6) [OF law, of p w'] u by simp
  show "block_stays env (lwip s) (tcp_abort env p w') ud" using t' u' by (simp add: block_stays_def has_block_def idle_def)
qed

lemma keeps_inv_connect:
  assumes inv: "net_inv env (s, fs)" and law: "net_laws env"
    and args: "\<forall>a. Lua_userdata a \<in> set args \<longrightarrow> heap s a \<noteq> None"
    and use: "\<And>a ud. lua_arg args 1 = Lua_userdata a \<Longrightarrow> heap s a = Some ud \<Longrightarrow>
      dns_work a s fs = 0 \<and> (\<not> busy a s fs \<or> resolver_accepts env)"
  shows "keeps_inv env fs (net_connect env args s)"
  unfolding net_connect_def
proof (rule keeps_inv_with_ud [OF inv args])
  fix a ud0 assume la: "lua_arg args 1 = Lua_userdata a" and h: "heap s a = Some ud0" and t: "type ud0 = TYPE_TCP_CLIENT"
  have w0: "dns_work a s fs = 0" and idle: "\<not> busy a s fs \<or> resolver_accepts env" using use [OF la h] by simp_all
  have wk: "ud_work env (lwip s) ud0 (own_events a s) (requests a s) (dns_frames a fs) (err_frames a fs)"
    by (rule net_workD(1) [OF net_invD(2) [OF inv] h])
  have nz: "a \<noteq> 0" using h net_workD(5) [OF net_invD(2) [OF inv]] by (cases "a = 0") simp_all
  have resolve: "keeps_inv env fs (resolve env a (ud0\<lparr>pcb := p\<rparr>) domain
        (abort_connect env a p) (s\<lparr>lwip := w'\<rparr>))"
    if p: "pcb ud0 = 0" "tcp_new env (lwip s) = (p, w)" "p \<noteq> 0" "keeps env w w'" for p w w' domain
  proof (rule keeps_inv_resolve [OF inv law h, where f = "tcp_abort env p" and g = "\<lambda>ud. ud\<lparr>pcb := 0\<rparr>"
        and told = "\<lambda>r s. if r = LUA_NOREF then s else snd (post env to_medium (ERR a ERR_ABRT) s)"])
    show "abort_connect env a p s' = Some (if self_ref x = LUA_NOREF then put_ud a (x\<lparr>pcb := 0\<rparr>) (upd_lwip (tcp_abort env p) s')
        else snd (post env to_medium (ERR a ERR_ABRT) (put_ud a (x\<lparr>pcb := 0\<rparr>) (upd_lwip (tcp_abort env p) s'))))"
      if "heap s' a = Some x" "type x = type (ud0\<lparr>pcb := p\<rparr>)" for x s'
      using that t nz
      by (auto simp: abort_connect_def net_err_cb_def post_net_err_def post_def to_medium_def put_ud_def upd_lwip_def)
    show "net_inv env (if self_ref (ud0\<lparr>pcb := p\<rparr>) = LUA_NOREF then s'
        else snd (post env to_medium (ERR a ERR_ABRT) s'), fs)"
      if n: "\<not> resolver_accepts env" and s': "net_inv env (s', fs)" "heap s' a = Some (ud0\<lparr>pcb := p, pcb := 0\<rparr>)"
        "own_events a s' = own_events a s" "requests a s' = requests a s" for s'
    proof (cases "self_ref ud0 = LUA_NOREF")
      case False
      have out: "own_events a s = []" "requests a s = 0" "dns_frames a fs = 0" "err_frames a fs = 0"
        using idle n by (auto simp: busy_def dns_work_def)
      have "ud_work env (lwip s') (ud0\<lparr>pcb := p, pcb := 0\<rparr>) (own_events a s') (requests a s') (dns_frames a fs) (err_frames a fs)"
        by (rule net_workD(1) [OF net_invD(2) [OF s'(1)] s'(2)])
      then have "net_inv env (to_medium (ERR a ERR_ABRT) s', fs)"
        using out s'(3,4) t False
        by (intro net_inv_medium [OF s'(1,2)]) (auto simp: ud_work_def work_ok_def idle_def answers_def errors_def)
      then show ?thesis using s'(1) by (simp add: post_def)
    qed (use s'(1) in simp)
    note nb = new_block [OF net_invD(2) [OF inv] law p(2,3)]
    show "block_stays env (lwip s) w' ud" for ud by (rule nb(3) [OF p(4)])
    show "(type (ud0\<lparr>pcb := p\<rparr>) = TYPE_UDP_SOCKET) \<noteq> (type ud3 = TYPE_UDP_SOCKET)"
      if "heap s b = Some ud3" "pcb (ud0\<lparr>pcb := p\<rparr>) = pcb ud3" for b ud3
      using nb(4) [OF p(4) that(1)] that(2) t by simp
    show "ud_work env w' ((ud0\<lparr>pcb := p\<rparr>)\<lparr>wait_dns := wait_dns (ud0\<lparr>pcb := p\<rparr>) + 1, self_ref := r\<rparr>) es nr (dns_frames a fs) (err_frames a fs)"
      if r: "r \<noteq> LUA_NOREF" and es: "(es, nr) \<in> {(own_events a s, requests a s), (own_events a s, Suc (requests a s))} \<or>
        (\<exists>ip. es = own_events a s @ [DNSFOUND a ip] \<and> nr = requests a s)" for r es nr
      using wk w0 es r t p(1,3) nb(1) [OF p(4)]
      by (auto simp: ud_work_def work_ok_def idle_def has_block_def dns_work_def sorted_append rank_le)
    show "ud_work env (tcp_abort env p w'') ((ud0\<lparr>pcb := p\<rparr>)\<lparr>pcb := 0\<rparr>) (own_events a s) (requests a s) (dns_frames a fs) (err_frames a fs)"
      if k: "keeps env w' w''" for w''
    proof -
      have "ud_work env (tcp_abort env p w'') ud0 (own_events a s) (requests a s) (dns_frames a fs) (err_frames a fs)"
        by (rule ud_work_stays [OF wk nb(7) [OF keeps_trans [OF p(4) k]]])
      then show ?thesis by (subst ud_work_cong [of _ ud0]) (use p(1) in simp_all)
    qed
    show "block_stays env (lwip s) (tcp_abort env p w'') ud3" if "keeps env w' w''" for w'' ud3
      by (rule nb(7) [OF keeps_trans [OF p(4) that]])
  qed (use t nz in auto)
  have reg: "keeps env w (set_remote_port env p n (tcp_register env p Reg_sent (tcp_register env p Reg_recv
      (tcp_register env p Reg_err (tcp_register env p (Reg_arg a) w)))))" for w p n
    by (intro keeps_trans [OF _ lwip_keepsD(2) [OF law]] keeps_trans [OF _ lwip_keepsD(1) [OF law]] lwip_keepsD(1) [OF law])
  have new0: "keeps env (lwip s) w" if "tcp_new env (lwip s) = (0, w)" for w
    using lwip_blocksD(1) [OF law that] by (simp add: keeps_def)
  show "keeps_inv env fs (if pcb ud0 \<noteq> 0 then raise ''already connected'' s
       else with_integer env args 2 s (\<lambda>n.
         let port = word_of_int n :: u16
         in if port = 0 then raise ''specify port'' s
         else let domain = (case lua_tolstring (num_text env) (lua_arg args 3) of Some t \<Rightarrow> c_string t | None \<Rightarrow> ''127.0.0.1'')
         in case tcp_new env (lwip s) of (p, w) \<Rightarrow>
           let s = s\<lparr>lwip := w\<rparr>
           in if p = 0 then raise ''cannot allocate PCB'' s
           else let w = tcp_register env p Reg_sent (tcp_register env p Reg_recv
                          (tcp_register env p Reg_err (tcp_register env p (Reg_arg a) (lwip s))));
                    s = s\<lparr>lwip := set_remote_port env p port w\<rparr>
                in resolve env a (ud0\<lparr>pcb := p\<rparr>) domain (abort_connect env a p) s))"
    using inv resolve reg new0
    by (auto simp: Let_def intro!: keeps_inv_Raise keeps_inv_with_integer net_inv_lwip split: prod.split)
qed

section \<open>The other calls\<close>

lemma cb_field_slot:
  assumes "cb_field (type ud) name = Some (get, put)" "type ud \<noteq> TYPE_TCP_SERVER"
  shows "\<exists>i. i < length (cb_refs ud) \<and> cb_refs ud ! i = get ud \<and> (\<forall>r. cb_refs (put r ud) = (cb_refs ud)[i := r])"
    "type (put r ud) = type ud" "pcb (put r ud) = pcb ud" "self_ref (put r ud) = self_ref ud" "wait_dns (put r ud) = wait_dns ud"
proof -
  have n: "0 < Suc n" "Suc 0 < Suc (Suc n)" "Suc (Suc 0) < Suc (Suc (Suc n))" for n by simp_all
  have "type ud = TYPE_TCP_CLIENT \<or> type ud = TYPE_UDP_SOCKET" using assms(2) by (cases "type ud") simp_all
  then show "\<exists>i. i < length (cb_refs ud) \<and> cb_refs ud ! i = get ud \<and> (\<forall>r. cb_refs (put r ud) = (cb_refs ud)[i := r])"
    using assms(1)
    by (elim disjE; simp add: cb_field_def cb_refs_def split: if_splits)
      (rule exI [of _ 3] exI [of _ 4] exI [of _ 5] exI [of _ 0] exI [of _ 1] exI [of _ 2], force)+
qed (use assms in \<open>auto simp: cb_field_def split: if_splits\<close>)

lemma keeps_inv_on:
  assumes inv: "net_inv env (s, fs)" and law: "net_laws env" and args: "\<forall>a. Lua_userdata a \<in> set args \<longrightarrow> heap s a \<noteq> None"
  shows "keeps_inv env fs (net_on env args s)"
  unfolding net_on_def
proof (rule keeps_inv_with_ud [OF inv args], rule keeps_inv_with_text [OF inv])
  fix a ud name assume h: "heap s a = Some ud" and t: "type ud \<noteq> TYPE_TCP_SERVER"
  show "keeps_inv env fs (case cb_field (type ud) (c_string name) of
           None \<Rightarrow> raise ''invalid callback name'' s
         | Some (get, put) \<Rightarrow>
             if is_function (lua_arg args 3) then
               (case renew_ref env (get ud) (lua_arg args 3) s of (r, s) \<Rightarrow> Some (Return [], put_ud a (put r ud) s))
             else if lua_arg args 3 = Lua_nil then
               Some (Return [], put_ud a (put LUA_NOREF ud) (unref (get ud) s))
             else raise ''invalid callback function'' s)"
  proof (cases "cb_field (type ud) (c_string name)")
    case (Some c)
    obtain get put where c: "cb_field (type ud) (c_string name) = Some (get, put)" using Some by (cases c) simp
    note f = cb_field_slot(2-5) [OF c t]
    obtain i where i: "i < length (cb_refs ud)" "cb_refs ud ! i = get ud" "\<And>r. cb_refs (put r ud) = (cb_refs ud)[i := r]"
      using cb_field_slot(1) [OF c t] by blast
    have nil: "net_inv env (put_ud a (put LUA_NOREF ud) (s\<lparr>registry := registry (unref (get ud) s)\<rparr>), fs)"
      by (rule net_inv_slot [OF inv h i(1,2,3)]) (use f in simp_all)
    have e: "s\<lparr>registry := registry (unref (get ud) s)\<rparr> = unref (get ud) s" by (simp add: unref_def)
    show ?thesis
    proof (cases "is_function (lua_arg args 3)")
      case True
      obtain r s1 where r: "renew_ref env (get ud) (lua_arg args 3) s = (r, s1)" by fastforce
      have "net_inv env (put_ud a (put r ud) s1, fs)"
        by (rule net_inv_replace [OF inv law h i(1,2) True r i(3)]) (use f in simp_all)
      then show ?thesis using True by (simp add: c r keeps_inv_Return)
    next
      case False
      then show ?thesis using nil inv by (simp add: c e keeps_inv_Return keeps_inv_Raise)
    qed
  qed (use keeps_inv_Raise [OF inv] in simp)
qed

lemma keeps_inv_hold:
  assumes inv: "net_inv env (s, fs)" and args: "\<forall>a. Lua_userdata a \<in> set args \<longrightarrow> heap s a \<noteq> None"
  shows "keeps_inv env fs (net_hold args s)" "keeps_inv env fs (net_unhold args s)"
proof -
  have "net_inv env (put_ud a (ud\<lparr>hold := n\<rparr>) s, fs)" if h: "heap s a = Some ud" for a ud n
  proof -
    have "net_refs (put_ud a (ud\<lparr>hold := n\<rparr>) (s\<lparr>lwip := lwip s\<rparr>))"
      by (rule net_refs_put [OF net_invD(1) [OF inv] h]) simp_all
    moreover have "net_work env (put_ud a (ud\<lparr>hold := n\<rparr>) s) fs"
      using net_workD(1,3) [OF net_invD(2) [OF inv] h] ud_work_cong [of "ud\<lparr>hold := n\<rparr>" ud env "lwip s"]
      by (intro net_work_ud [OF net_invD(2) [OF inv] h, of _ "ud\<lparr>hold := n\<rparr>"]) (auto simp: block_stays_def)
    ultimately show ?thesis by (simp add: net_inv_def)
  qed
  then show "keeps_inv env fs (net_hold args s)" "keeps_inv env fs (net_unhold args s)"
    unfolding net_hold_def net_unhold_def by (intro keeps_inv_with_ud [OF inv args] keeps_inv_Return; simp)+
qed

lemma keeps_inv_dns:
  assumes inv: "net_inv env (s, fs)" and law: "net_laws env"
    and args: "\<forall>a. Lua_userdata a \<in> set args \<longrightarrow> heap s a \<noteq> None"
    and use: "\<And>a ud. lua_arg args 1 = Lua_userdata a \<Longrightarrow> heap s a = Some ud \<Longrightarrow> type ud = TYPE_TCP_CLIENT \<Longrightarrow>
      dns_work a s fs = 0 \<and> pcb ud = 0"
  shows "keeps_inv env fs (net_dns env args s)"
  unfolding net_dns_def
proof (rule keeps_inv_with_ud [OF inv args], rule keeps_inv_with_text [OF inv])
  fix a ud domain assume la: "lua_arg args 1 = Lua_userdata a" and h: "heap s a = Some ud" and t: "type ud \<noteq> TYPE_TCP_SERVER"
  have resolve: "keeps_inv env fs (resolve env a ud1 (c_string domain) Some s1)"
    if inv1: "net_inv env (s1, fs)" and h1: "heap s1 a = Some ud1" and same: "type ud1 = type ud" "pcb ud1 = pcb ud"
      "dns_work a s1 fs = dns_work a s fs" for ud1 s1
  proof -
    have wk: "ud_work env (lwip s1) ud1 (own_events a s1) (requests a s1) (dns_frames a fs) (err_frames a fs)"
      by (rule net_workD(1) [OF net_invD(2) [OF inv1] h1])
    have w0: "type ud1 = TYPE_TCP_CLIENT \<Longrightarrow> dns_work a s1 fs = 0 \<and> pcb ud1 = 0"
      using use [OF la h] same by simp
    have nz: "a \<noteq> 0" using h1 net_workD(5) [OF net_invD(2) [OF inv1]] by (cases "a = 0") simp_all
    have "keeps_inv env fs (resolve env a ud1 (c_string domain) Some (s1\<lparr>lwip := lwip s1\<rparr>))"
    proof (rule keeps_inv_resolve [OF inv1 law h1, where g = "\<lambda>ud. ud" and f = "\<lambda>w. w" and told = "\<lambda>r s. s"])
      show "Some s' = Some (put_ud a x (upd_lwip (\<lambda>w. w) s'))" if "heap s' a = Some x" for x s'
        using that by (simp add: put_ud_def upd_lwip_def fun_upd_idem)
      show "ud_work env (lwip s1) (ud1\<lparr>wait_dns := wait_dns ud1 + 1, self_ref := r\<rparr>) es nr (dns_frames a fs) (err_frames a fs)"
        if r: "r \<noteq> LUA_NOREF" and es: "(es, nr) \<in> {(own_events a s1, requests a s1), (own_events a s1, Suc (requests a s1))} \<or>
          (\<exists>ip. es = own_events a s1 @ [DNSFOUND a ip] \<and> nr = requests a s1)" for r es nr
      proof (cases "type ud1")
        case TYPE_TCP_CLIENT
        then show ?thesis using wk w0 es r
          by (auto simp: ud_work_def work_ok_def idle_def has_block_def dns_work_def sorted_append rank_le)
      next
        case TYPE_UDP_SOCKET
        then show ?thesis using wk es r
          by (auto simp: ud_work_def work_ok_def idle_def has_block_def sorted_append rank_le)
      qed (use t same in simp)
      show "block_stays env (lwip s1) (lwip s1) ud3" for ud3 by (simp add: block_stays_def)
      show "ud_work env w' ud1 (own_events a s1) (requests a s1) (dns_frames a fs) (err_frames a fs)"
        if "keeps env (lwip s1) w'" for w' by (rule ud_work_stays [OF wk block_stays_keeps [OF that]])
      show "block_stays env (lwip s1) w' ud3" if "keeps env (lwip s1) w'" for w' ud3 by (rule block_stays_keeps [OF that])
    qed (use t same nz net_workD(3) [OF net_invD(2) [OF inv1] h1] in \<open>auto simp: upd_lwip_def\<close>)
    then show ?thesis by simp
  qed
  obtain r s1 where r: "renew_ref env (cb_dns_ref ud) (lua_arg args 3) s = (r, s1)" by fastforce
  have slot: "0 < length (cb_refs ud)" "cb_refs ud ! 0 = cb_dns_ref ud"
      "cb_refs (ud\<lparr>cb_dns_ref := q\<rparr>) = (cb_refs ud)[0 := q]" for q
    using t by (cases "type ud"; simp add: cb_refs_def)+
  have cb: "net_inv env (put_ud a (ud\<lparr>cb_dns_ref := r\<rparr>) s1, fs)" if f: "is_function (lua_arg args 3)"
    by (rule net_inv_replace [OF inv law h slot(1,2) f r slot(3)]) simp_all
  have out: "own_events b s1 = own_events b s" "requests b s1 = requests b s" for b
    using r by (auto simp: renew_ref_def add_ref_def split: if_splits prod.splits)
  show "keeps_inv env fs (let (ud, s) = (if is_function (lua_arg args 3)
               then (case renew_ref env (cb_dns_ref ud) (lua_arg args 3) s of
                       (r, s) \<Rightarrow> (ud\<lparr>cb_dns_ref := r\<rparr>, put_ud a (ud\<lparr>cb_dns_ref := r\<rparr>) s))
               else (ud, s))
         in if cb_dns_ref ud = LUA_NOREF then raise ''no callback specified'' s
            else resolve env a ud (c_string domain) Some s)"
  proof (cases "is_function (lua_arg args 3)")
    case True
    then show ?thesis
      using keeps_inv_Raise [OF cb [OF True]] resolve [OF cb [OF True], of "ud\<lparr>cb_dns_ref := r\<rparr>"] out
      by (cases "r = LUA_NOREF") (simp_all add: r dns_work_def)
  next
    case False
    then show ?thesis using resolve [OF inv h] inv by (simp add: keeps_inv_Raise)
  qed
qed

end
