(* ===== verification/Lua_Net_Steps.thy ===== *)
theory Lua_Net_Steps
  imports Lua_Net_Calls
begin

text \<open>
  The calls that open and close sockets, the dispatch of events and the callbacks of lwIP keep the
  invariant of the socket module, and so does the collector.
\<close>

section \<open>Opening\<close>

lemma keeps_inv_keep_self:
  assumes inv: "net_inv env (s, fs)" and law: "net_laws env" and h: "heap s a = Some ud" and t: "type ud \<noteq> TYPE_TCP_CLIENT"
    and p: "pcb ud = 0" "q \<noteq> 0" "has_block env w (ud\<lparr>pcb := q\<rparr>)"
    and stays: "\<And>b ud2. b \<noteq> a \<Longrightarrow> heap s b = Some ud2 \<Longrightarrow> pcb ud2 \<noteq> 0 \<Longrightarrow> block_stays env (lwip s) w ud2"
    and block: "\<And>b ud2. b \<noteq> a \<Longrightarrow> heap s b = Some ud2 \<Longrightarrow> pcb ud2 = q \<Longrightarrow>
      (type ud = TYPE_UDP_SOCKET) \<noteq> (type ud2 = TYPE_UDP_SOCKET)"
    and k: "keep_self env a (ud\<lparr>pcb := q\<rparr>) (put_ud a (ud\<lparr>pcb := q\<rparr>) (s\<lparr>lwip := w\<rparr>)) = (ud2, s2)"
  shows "net_inv env (s2, fs)" "\<exists>r. r \<noteq> LUA_NOREF \<and> ud2 = ud\<lparr>pcb := q, self_ref := r\<rparr>" "heap s2 = (heap s)(a \<mapsto> ud2)"
proof -
  have wk: "ud_work env w ((ud\<lparr>pcb := q\<rparr>)\<lparr>self_ref := r\<rparr>) (own_events a s) (requests a s) (dns_frames a fs) (err_frames a fs)"
    if "r \<noteq> LUA_NOREF" for r
  proof -
    have "has_block env w ((ud\<lparr>pcb := q\<rparr>)\<lparr>self_ref := r\<rparr>)" using p(3) by (simp add: has_block_def split: if_splits)
    then show ?thesis using net_workD(1) [OF net_invD(2) [OF inv] h] that t p(2)
      by (cases "type ud") (auto simp: ud_work_def work_ok_def)
  qed
  show "net_inv env (s2, fs)"
    by (rule net_inv_open(1) [OF inv law h _ _ _ _ _ k]) (use wk stays block p in auto)
  show "\<exists>r. r \<noteq> LUA_NOREF \<and> ud2 = ud\<lparr>pcb := q, self_ref := r\<rparr>"
    by (rule net_inv_open(2) [OF inv law h _ _ _ _ _ k]) (use wk stays block p in auto)
  show "heap s2 = (heap s)(a \<mapsto> ud2)"
    by (rule net_inv_open(3) [OF inv law h _ _ _ _ _ k]) (use wk stays block p in auto)
qed

text \<open>lwIP alone changes, and the object is as it was.\<close>

lemma net_inv_moved:
  assumes inv: "net_inv env (s, fs)" and stays: "\<And>b ud2. heap s b = Some ud2 \<Longrightarrow> pcb ud2 \<noteq> 0 \<Longrightarrow> block_stays env (lwip s) w ud2"
  shows "net_inv env (s\<lparr>lwip := w\<rparr>, fs)"
proof -
  have "net_refs (s\<lparr>lwip := w\<rparr>)"
    using net_refsD(5) [OF net_invD(1) [OF inv]] by (intro net_refs_same [OF net_invD(1) [OF inv], where a = 0]) auto
  then show ?thesis using net_work_moves [OF net_invD(2) [OF inv] stays] by (simp add: net_inv_def)
qed

lemma put_same: "heap s a = Some ud \<Longrightarrow> put_ud a ud s = s"
  by (simp add: put_ud_def fun_upd_idem)

lemma pcb_same: "pcb ud = 0 \<Longrightarrow> ud\<lparr>pcb := 0\<rparr> = ud"
  by (cases ud) simp

lemma keeps_inv_listen_tcp:
  assumes inv: "net_inv env (s, fs)" and law: "net_laws env" and h: "heap s a = Some ud"
    and t: "type ud = TYPE_TCP_SERVER" and p0: "pcb ud = 0"
  shows "keeps_inv env fs (listen_tcp env a ud addr port s)"
proof -
  note work = net_invD(2) [OF inv]
  obtain p w where n: "tcp_new env (lwip s) = (p, w)" by fastforce
  show ?thesis
  proof (cases "p = 0")
    case True
    have "keeps env (lwip s) w" using lwip_blocksD(1) [OF law n] True by (simp add: keeps_def)
    then show ?thesis using net_inv_lwip [OF inv] by (simp add: listen_tcp_def n True keeps_inv_Raise)
  next
    case False
    obtain e w2 where b: "tcp_bind env p addr port w = (e, w2)" by fastforce
    have k2: "keeps env w w2" using lwip_keepsD(3) [OF law, of w p addr port] b by simp
    note nb = new_block [OF work law n False]
    have fail: "keeps_inv env fs (lwip_lua_checkerr e' (put_ud a (ud\<lparr>pcb := 0\<rparr>) (s\<lparr>lwip := snd (tcp_close env p w')\<rparr>)))"
      if k: "keeps env w w'" for w' e'
    proof -
      obtain e2 w3 where c: "tcp_close env p w' = (e2, w3)" by fastforce
      have "block_stays env (lwip s) w3 ud2" for ud2
        using lwip_blocksD(5) [OF law c] nb(1) [OF k] nb(2) [OF k] nb(3) [OF k, of ud2] lwip_blocksD(1) [OF law n] False
        by (auto simp: block_stays_def has_block_def idle_def split: if_splits)
      then have "net_inv env (s\<lparr>lwip := w3\<rparr>, fs)" by (intro net_inv_moved [OF inv])
      then show ?thesis using put_same [of "s\<lparr>lwip := w3\<rparr>" a ud] h by (simp add: c pcb_same [OF p0] keeps_inv_checkerr)
    qed
    show ?thesis
    proof (cases "e = ERR_OK")
      case False
      then show ?thesis using fail [OF k2] \<open>p \<noteq> 0\<close> by (simp add: listen_tcp_def n b case_prod_beta)
    next
      case True
      let ?w3 = "tcp_register env p (Reg_arg a) w2"
      have k3: "keeps env w ?w3" by (rule keeps_trans [OF k2 lwip_keepsD(1) [OF law]])
      obtain q w4 where l: "tcp_listen env p ?w3 = (q, w4)" by fastforce
      show ?thesis
      proof (cases "q = 0")
        case q0: True
        have "keeps env w w4" using keeps_trans [OF k3, of w4] lwip_blocksD(2) [OF law l] q0 by (simp add: keeps_def)
        from fail [OF this, of ERR_MEM] show ?thesis
          using \<open>p \<noteq> 0\<close> True q0 by (simp add: listen_tcp_def n b l case_prod_beta)
      next
        case qn: False
        let ?w5 = "tcp_register env q Reg_accept w4"
        have k5: "keeps env w4 ?w5" by (rule lwip_keepsD(1) [OF law])
        obtain bb where q: "q = p \<or> tcp_states env ?w3 q = None" "tcp_states env ?w5 = (tcp_states env ?w3)(p := None, q \<mapsto> bb)"
            "udp_live env ?w5 = udp_live env ?w3"
          using lwip_blocksD(2) [OF law l] qn k5 by (auto simp: keeps_def)
        have none: "tcp_states env (lwip s) p = None" using lwip_blocksD(1) [OF law n] \<open>p \<noteq> 0\<close> by simp
        have none_q: "tcp_states env (lwip s) q = None" using q(1) nb(1) [OF k3] none by (auto split: if_splits)
        have st: "tcp_states env ?w5 = (tcp_states env (lwip s))(q \<mapsto> bb)" "udp_live env ?w5 = udp_live env (lwip s)"
          using q nb(1,2) [OF k3] none by (auto simp: fun_eq_iff)
        obtain ud2 s2 where ks: "keep_self env a (ud\<lparr>pcb := q\<rparr>) (put_ud a (ud\<lparr>pcb := q\<rparr>) (s\<lparr>lwip := ?w5\<rparr>)) = (ud2, s2)" by fastforce
        have "net_inv env (s2, fs)"
        proof (rule keeps_inv_keep_self(1) [OF inv law h _ p0 qn _ _ _ ks])
          show "has_block env ?w5 (ud\<lparr>pcb := q\<rparr>)" using st t by (simp add: has_block_def)
          show "block_stays env (lwip s) ?w5 ud3" for ud3
            using st none_q by (auto simp: block_stays_def has_block_def idle_def)
          show "(type ud = TYPE_UDP_SOCKET) \<noteq> (type ud3 = TYPE_UDP_SOCKET)" if "heap s b = Some ud3" "pcb ud3 = q" for b ud3
            using net_work_block [OF work that(1)] that(2) qn none_q t by (auto simp: has_block_def split: if_splits)
        qed (use t in simp)
        then show ?thesis using \<open>p \<noteq> 0\<close> True qn
          by (simp add: listen_tcp_def n b l ks keeps_inv_Return)
      qed
    qed
  qed
qed

text \<open>A UDP control block that was not there, and its removal.\<close>

lemma new_udp:
  assumes work: "net_work env s fs" and law: "net_laws env" and new: "udp_new env (lwip s) = (p, w)" "p \<noteq> 0" and k: "keeps env w w'"
  shows "block_stays env (lwip s) w' ud" "udp_live env w' p" "block_stays env (lwip s) (udp_remove env p w') ud"
    "heap s b = Some ud2 \<Longrightarrow> pcb ud2 = p \<Longrightarrow> type ud2 \<noteq> TYPE_UDP_SOCKET"
proof -
  note n = lwip_blocksD(8) [OF law new(1)]
  have t: "tcp_states env w' = tcp_states env (lwip s)" and u: "udp_live env w' = (udp_live env (lwip s))(p := True)"
    and none: "\<not> udp_live env (lwip s) p" using n new(2) k by (simp_all add: keeps_def)
  show "udp_live env w' p" using u by simp
  show "block_stays env (lwip s) w' ud" using t u by (auto simp: block_stays_def has_block_def idle_def)
  show "block_stays env (lwip s) (udp_remove env p w') ud"
    using t u none lwip_blocksD(9,10) [OF law, of p w'] by (auto simp: block_stays_def has_block_def idle_def)
  show "heap s b = Some ud2 \<Longrightarrow> pcb ud2 = p \<Longrightarrow> type ud2 \<noteq> TYPE_UDP_SOCKET"
    using net_work_block [OF work, of b ud2] none new(2) by (auto simp: has_block_def split: if_splits)
qed

lemma udp_bound:
  assumes inv: "net_inv env (s, fs)" and law: "net_laws env" and h: "heap s a = Some ud"
    and t: "type ud = TYPE_UDP_SOCKET" and p0: "pcb ud = 0" and n: "udp_new env (lwip s) = (p, w)" "p \<noteq> 0"
    and b: "udp_bind env p addr port (udp_recv env p a w) = (e, w2)"
  shows "keeps_inv env fs (lwip_lua_checkerr e' (put_ud a (ud\<lparr>pcb := 0\<rparr>) (s\<lparr>lwip := udp_remove env p w2\<rparr>)))"
    "keep_self env a (ud\<lparr>pcb := p\<rparr>) (put_ud a (ud\<lparr>pcb := p\<rparr>) (s\<lparr>lwip := w2\<rparr>)) = (ud2, s2) \<Longrightarrow>
       net_inv env (s2, fs) \<and> (\<exists>r. r \<noteq> LUA_NOREF \<and> ud2 = ud\<lparr>pcb := p, self_ref := r\<rparr>) \<and> heap s2 = (heap s)(a \<mapsto> ud2)"
proof -
  have k: "keeps env w w2"
    using keeps_trans [OF lwip_keepsD(7) [OF law, of w p a] lwip_keepsD(8) [OF law, of _ p addr port]] b by simp
  note nu = new_udp [OF net_invD(2) [OF inv] law n k]
  have "net_inv env (s\<lparr>lwip := udp_remove env p w2\<rparr>, fs)" by (rule net_inv_moved [OF inv nu(3)])
  then show "keeps_inv env fs (lwip_lua_checkerr e' (put_ud a (ud\<lparr>pcb := 0\<rparr>) (s\<lparr>lwip := udp_remove env p w2\<rparr>)))"
    using put_same [of "s\<lparr>lwip := udp_remove env p w2\<rparr>" a ud] h by (simp add: pcb_same [OF p0] keeps_inv_checkerr)
  assume ks: "keep_self env a (ud\<lparr>pcb := p\<rparr>) (put_ud a (ud\<lparr>pcb := p\<rparr>) (s\<lparr>lwip := w2\<rparr>)) = (ud2, s2)"
  have hb: "has_block env w2 (ud\<lparr>pcb := p\<rparr>)" using nu(2) t by (simp add: has_block_def)
  have bl: "(type ud = TYPE_UDP_SOCKET) \<noteq> (type ud3 = TYPE_UDP_SOCKET)" if "heap s b = Some ud3" "pcb ud3 = p" for b ud3
    using nu(4) [OF that] t by simp
  have nt: "type ud \<noteq> TYPE_TCP_CLIENT" using t by simp
  show "net_inv env (s2, fs) \<and> (\<exists>r. r \<noteq> LUA_NOREF \<and> ud2 = ud\<lparr>pcb := p, self_ref := r\<rparr>) \<and> heap s2 = (heap s)(a \<mapsto> ud2)"
    using keeps_inv_keep_self [OF inv law h nt p0 n(2) hb nu(1) _ ks] bl by blast
qed

lemma keeps_inv_listen_udp:
  assumes inv: "net_inv env (s, fs)" and law: "net_laws env" and h: "heap s a = Some ud"
    and t: "type ud = TYPE_UDP_SOCKET" and p0: "pcb ud = 0"
  shows "keeps_inv env fs (listen_udp env a ud addr port s)"
proof -
  obtain p w where n: "udp_new env (lwip s) = (p, w)" by fastforce
  show ?thesis
  proof (cases "p = 0")
    case True
    have "keeps env (lwip s) w" using lwip_blocksD(8) [OF law n] True by (simp add: keeps_def)
    then show ?thesis using net_inv_lwip [OF inv] by (simp add: listen_udp_def n True keeps_inv_Raise)
  next
    case False
    obtain e w2 where b: "udp_bind env p addr port (udp_recv env p a w) = (e, w2)" by fastforce
    obtain ud2 s2 where ks: "keep_self env a (ud\<lparr>pcb := p\<rparr>) (put_ud a (ud\<lparr>pcb := p\<rparr>) (s\<lparr>lwip := w2\<rparr>)) = (ud2, s2)" by fastforce
    note ub = udp_bound [OF inv law h t p0 n False b]
    show ?thesis using False ub(1) [of e] ub(2) [OF ks] by (auto simp: listen_udp_def n b ks Let_def keeps_inv_Return)
  qed
qed

lemma keeps_inv_listen:
  assumes inv: "net_inv env (s, fs)" and law: "net_laws env" and args: "\<forall>a. Lua_userdata a \<in> set args \<longrightarrow> heap s a \<noteq> None"
  shows "keeps_inv env fs (net_listen env args s)"
  unfolding net_listen_def
proof (rule keeps_inv_with_ud [OF inv args])
  fix a ud assume h: "heap s a = Some ud" and t: "type ud \<noteq> TYPE_TCP_CLIENT"
  obtain port domain stack where l: "listen_args env args = (port, domain, stack)" using prod_cases3 by blast
  have tcp: "keeps_inv env fs (case renew_ref env (cb_accept_ref ud) (lua_arg args stack) s of
      (r, s) \<Rightarrow> listen_tcp env a (ud\<lparr>wait_dns := r\<rparr>) addr port (put_ud a (ud\<lparr>wait_dns := r\<rparr>) s))"
    if s: "type ud = TYPE_TCP_SERVER" "is_function (lua_arg args stack)" "pcb ud = 0" for addr
  proof -
    obtain r s1 where r: "renew_ref env (cb_accept_ref ud) (lua_arg args stack) s = (r, s1)" by fastforce
    have "net_inv env (put_ud a (ud\<lparr>wait_dns := r\<rparr>) s1, fs)"
      by (rule net_inv_replace [OF inv law h _ _ s(2) r, where i = 0]) (use s(1) in \<open>simp_all add: cb_refs_def\<close>)
    from keeps_inv_listen_tcp [OF this law] show ?thesis using s by (simp add: r)
  qed
  have udp: "type ud = TYPE_UDP_SOCKET" if "type ud \<noteq> TYPE_TCP_SERVER" using t that by (cases "type ud") simp_all
  show "keeps_inv env fs (if pcb ud \<noteq> 0 then raise ''already listening'' s
       else (case listen_args env args of (port, domain, stack) \<Rightarrow>
         case ipaddr_aton env domain of
           None \<Rightarrow> raise ''invalid IP address'' s
         | Some addr \<Rightarrow>
             if type ud = TYPE_TCP_SERVER then
               (if \<not> is_function (lua_arg args stack) then raise ''need callback'' s
                else (case renew_ref env (cb_accept_ref ud) (lua_arg args stack) s of
                  (r, s) \<Rightarrow> listen_tcp env a (ud\<lparr>wait_dns := r\<rparr>) addr port (put_ud a (ud\<lparr>wait_dns := r\<rparr>) s)))
             else listen_udp env a ud addr port s))"
    using keeps_inv_Raise [OF inv] tcp keeps_inv_listen_udp [OF inv law h udp] by (simp add: l split: option.split)
qed

section \<open>Sending\<close>

lemma keeps_inv_send_udp:
  assumes "net_inv env (s, fs)" "net_laws env"
  shows "keeps_inv env fs (send_udp env ud data addr port s)"
proof -
  obtain e w where w: "udp_sendto env (pcb ud) (sent_part data) addr port (lwip s) = (e, w)" by fastforce
  have "keeps env (lwip s) w" using lwip_keepsD(9) [OF assms(2), of "lwip s" "pcb ud" "sent_part data" addr port] w by simp
  then have "net_inv env (s\<lparr>lwip := w\<rparr>, fs)" by (rule net_inv_lwip [OF assms(1)])
  then show ?thesis using assms(1)
    by (simp add: send_udp_def w Let_def keeps_inv_Raise keeps_inv_checkerr keeps_inv_Call plain_frame_def)
qed

lemma keeps_inv_send_data:
  assumes inv: "net_inv env (s, fs)" and law: "net_laws env" and h: "heap s a = Some ud" and t: "type ud \<noteq> TYPE_TCP_SERVER"
  shows "keeps_inv env fs (send_data env args stack a ud addr port s)"
  unfolding send_data_def
proof (rule keeps_inv_with_text [OF inv])
  fix data
  have send: "keeps_inv env fs (case (if type ud1 = TYPE_UDP_SOCKET \<and> pcb ud1 = 0 then open_udp env a ud1 s1 else Inr (ud1, s1)) of
              Inl stop \<Rightarrow> stop
            | Inr (ud, s) \<Rightarrow>
                if pcb ud = 0 \<or> self_ref ud = LUA_NOREF then raise ''not connected'' s
                else if type ud = TYPE_UDP_SOCKET then send_udp env ud data addr port s
                else (case tcp_write env (pcb ud) (sent_part data) (lwip s) of
                        (e, w) \<Rightarrow> lwip_lua_checkerr e (s\<lparr>lwip := w\<rparr>)))"
    if i1: "net_inv env (s1, fs)" and h1: "heap s1 a = Some ud1" for ud1 s1
  proof (cases "type ud1 = TYPE_UDP_SOCKET \<and> pcb ud1 = 0")
    case True
    then have t1: "type ud1 = TYPE_UDP_SOCKET" and p0: "pcb ud1 = 0" by simp_all
    obtain p w where n: "udp_new env (lwip s1) = (p, w)" by fastforce
    show ?thesis
    proof (cases "p = 0")
      case p: True
      have "keeps env (lwip s1) w" using lwip_blocksD(8) [OF law n] p by (simp add: keeps_def)
      then show ?thesis using net_inv_lwip [OF i1] t1 p0 by (simp add: open_udp_def n p keeps_inv_Raise)
    next
      case p: False
      obtain e w2 where b: "udp_bind env p (ip_addr_any env) 0 (udp_recv env p a w) = (e, w2)" by fastforce
      obtain ud2 s2 where ks: "keep_self env a (ud1\<lparr>pcb := p\<rparr>) (put_ud a (ud1\<lparr>pcb := p\<rparr>) (s1\<lparr>lwip := w2\<rparr>)) = (ud2, s2)" by fastforce
      note ub = udp_bound [OF i1 law h1 t1 p0 n p b]
      show ?thesis using p ub(1) [of e] ub(2) [OF ks] t1 p0
        by (auto simp: open_udp_def n b ks Let_def keeps_inv_Raise keeps_inv_send_udp law)
    qed
  next
    case False
    obtain e w where w: "tcp_write env (pcb ud1) (sent_part data) (lwip s1) = (e, w)" by fastforce
    have "keeps env (lwip s1) w" using lwip_keepsD(4) [OF law, of "lwip s1" "pcb ud1" "sent_part data"] w by simp
    then have "net_inv env (s1\<lparr>lwip := w\<rparr>, fs)" by (rule net_inv_lwip [OF i1])
    then show ?thesis using False i1 by (auto simp: w keeps_inv_Raise keeps_inv_checkerr keeps_inv_send_udp law)
  qed
  obtain r s1 where r: "renew_ref env (cb_sent_ref ud) (lua_arg args (stack + 1)) s = (r, s1)" by fastforce
  have slot: "2 < length (cb_refs ud)" "cb_refs ud ! 2 = cb_sent_ref ud"
      "cb_refs (ud\<lparr>cb_sent_ref := q\<rparr>) = (cb_refs ud)[2 := q]" for q
    using t by (cases "type ud"; simp add: cb_refs_def numeral_2_eq_2)+
  have cb: "net_inv env (put_ud a (ud\<lparr>cb_sent_ref := r\<rparr>) s1, fs)" if f: "is_function (lua_arg args (stack + 1))"
    by (rule net_inv_replace [OF inv law h slot(1,2) f r slot(3)]) simp_all
  show "keeps_inv env fs (if length data = 0 then raise ''no data to send'' s
       else
         let (ud, s) = (if is_function (lua_arg args (stack + 1))
               then (case renew_ref env (cb_sent_ref ud) (lua_arg args (stack + 1)) s of
                       (r, s) \<Rightarrow> (ud\<lparr>cb_sent_ref := r\<rparr>, put_ud a (ud\<lparr>cb_sent_ref := r\<rparr>) s))
               else (ud, s))
         in case (if type ud = TYPE_UDP_SOCKET \<and> pcb ud = 0 then open_udp env a ud s else Inr (ud, s)) of
              Inl stop \<Rightarrow> stop
            | Inr (ud, s) \<Rightarrow>
                if pcb ud = 0 \<or> self_ref ud = LUA_NOREF then raise ''not connected'' s
                else if type ud = TYPE_UDP_SOCKET then send_udp env ud data addr port s
                else (case tcp_write env (pcb ud) (sent_part data) (lwip s) of
                        (e, w) \<Rightarrow> lwip_lua_checkerr e (s\<lparr>lwip := w\<rparr>)))"
  proof (cases "data = []")
    case False
    show ?thesis
    proof (cases "is_function (lua_arg args (stack + 1))")
      case True
      have "heap (put_ud a (ud\<lparr>cb_sent_ref := r\<rparr>) s1) a = Some (ud\<lparr>cb_sent_ref := r\<rparr>)" by simp
      from send [OF cb [OF True] this] show ?thesis using False True r by simp
    next
      case nf: False
      from send [OF inv h] show ?thesis using False nf by simp
    qed
  qed (use keeps_inv_Raise [OF inv] in simp)
qed

lemma keeps_inv_send:
  assumes inv: "net_inv env (s, fs)" and law: "net_laws env" and args: "\<forall>a. Lua_userdata a \<in> set args \<longrightarrow> heap s a \<noteq> None"
  shows "keeps_inv env fs (net_send env args s)"
  unfolding net_send_def
  by (rule keeps_inv_with_ud [OF inv args])
    (auto intro!: keeps_inv_with_integer keeps_inv_with_text keeps_inv_Raise keeps_inv_send_data inv law split: option.split)

section \<open>Closing\<close>

lemma net_inv_drop_self:
  assumes inv: "net_inv env (s, fs)" and h: "heap s a = Some ud" and idle: "\<not> busy a s fs" and p0: "pcb ud = 0"
  shows "net_inv env (drop_self a ud s, fs)"
proof -
  have "net_work env (drop_self a ud s) fs"
    by (rule net_work_ud [OF net_invD(2) [OF inv] h, of _ "ud\<lparr>self_ref := LUA_NOREF\<rparr>"])
      (use net_workD(1) [OF net_invD(2) [OF inv] h] idle p0 in
        \<open>auto simp: drop_self_def block_stays_def ud_work_def work_ok_def busy_def dns_work_def idle_def\<close>)
  then show ?thesis using net_refs_drop_self [OF net_invD(1) [OF inv] h] by (simp add: net_inv_def)
qed

text \<open>Another object keeps its block when the block of this one is freed.\<close>

lemma freed_block:
  assumes work: "net_work env s fs" and h: "heap s a = Some ud" "pcb ud \<noteq> 0"
    and b: "b \<noteq> a" "heap s b = Some ud2" "pcb ud2 \<noteq> 0"
    and w: "tcp_states env w = tcp_states env (lwip s) \<or> type ud \<noteq> TYPE_UDP_SOCKET \<and> tcp_states env w = (tcp_states env (lwip s))(pcb ud := None)"
      "udp_live env w = udp_live env (lwip s) \<or> type ud = TYPE_UDP_SOCKET \<and> udp_live env w = (udp_live env (lwip s))(pcb ud := False)"
  shows "block_stays env (lwip s) w ud2"
proof -
  note own = net_workD(3) [OF work h(1) b(2)]
  have i: "idle env w ud2" if "idle env (lwip s) ud2"
    using that own b(1) w(1) h(2) by (cases "pcb ud2 = pcb ud") (auto simp: idle_def)
  show ?thesis unfolding block_stays_def using i own b(1) w h(2) by (auto simp: has_block_def split: if_splits)
qed

definition freed_in :: "'w net_env \<Rightarrow> lnet_userdata \<Rightarrow> 'w \<Rightarrow> 'w \<Rightarrow> bool" where
  "freed_in env ud w w' \<longleftrightarrow>
     (tcp_states env w' = tcp_states env w \<or> type ud \<noteq> TYPE_UDP_SOCKET \<and> tcp_states env w' = (tcp_states env w)(pcb ud := None)) \<and>
     (udp_live env w' = udp_live env w \<or> type ud = TYPE_UDP_SOCKET \<and> udp_live env w' = (udp_live env w)(pcb ud := False))"

lemma freed_in_close:
  assumes law: "net_laws env"
  shows "freed_in env ud w (case type ud of
               TYPE_TCP_CLIENT \<Rightarrow>
                 (case tcp_close env (pcb ud) w of (e, w) \<Rightarrow>
                    if e \<noteq> ERR_OK then tcp_abort env (pcb ud) (tcp_register env (pcb ud) (Reg_arg 0) w) else w)
             | TYPE_TCP_SERVER \<Rightarrow> snd (tcp_close env (pcb ud) w)
             | TYPE_UDP_SOCKET \<Rightarrow> udp_remove env (pcb ud) w)"
proof -
  obtain e w2 where c: "tcp_close env (pcb ud) w = (e, w2)" by fastforce
  note cl = lwip_blocksD(5) [OF law c]
  have r: "keeps env w2 (tcp_register env (pcb ud) (Reg_arg 0) w2)" by (rule lwip_keepsD(1) [OF law])
  note ab = lwip_blocksD(6,7) [OF law, of "pcb ud" "tcp_register env (pcb ud) (Reg_arg 0) w2"]
  note rm = lwip_blocksD(9,10) [OF law, of "pcb ud" w]
  show ?thesis
  proof (cases "type ud")
    case TYPE_TCP_CLIENT
    then show ?thesis using c cl r ab by (auto simp: freed_in_def keeps_def)
  next
    case TYPE_TCP_SERVER
    then show ?thesis using c cl by (auto simp: freed_in_def)
  next
    case TYPE_UDP_SOCKET
    then show ?thesis using rm by (auto simp: freed_in_def)
  qed
qed

text \<open>An object without work loses its control block.\<close>

lemma net_inv_closed:
  assumes inv: "net_inv env (s, fs)" and h: "heap s a = Some ud" "pcb ud \<noteq> 0"
    and idle: "\<not> busy a s fs" and w: "freed_in env ud (lwip s) w"
  shows "net_inv env (put_ud a (ud\<lparr>pcb := 0\<rparr>) (s\<lparr>lwip := w\<rparr>), fs)"
proof -
  note work = net_invD(2) [OF inv]
  have "net_refs (put_ud a (ud\<lparr>pcb := 0\<rparr>) (s\<lparr>lwip := w\<rparr>))"
    by (rule net_refs_put [OF net_invD(1) [OF inv] h(1)]) simp_all
  moreover have "net_work env (put_ud a (ud\<lparr>pcb := 0\<rparr>) (s\<lparr>lwip := w\<rparr>)) fs"
  proof (rule net_work_ud [OF work h(1), of _ "ud\<lparr>pcb := 0\<rparr>"])
    show "block_stays env (lwip s) (lwip (put_ud a (ud\<lparr>pcb := 0\<rparr>) (s\<lparr>lwip := w\<rparr>))) ud2"
      if "b \<noteq> a" "heap s b = Some ud2" "pcb ud2 \<noteq> 0" for b ud2
      using freed_block [OF work h that] w by (simp add: freed_in_def)
  qed (use net_workD(1) [OF work h(1)] idle in \<open>auto simp: ud_work_def work_ok_def busy_def dns_work_def idle_def\<close>)
  ultimately show ?thesis by (simp add: net_inv_def)
qed

lemma busy_eq [simp]: "busy a (put_ud b ud s) fs = busy a s fs" "busy a (s\<lparr>lwip := w\<rparr>) fs = busy a s fs"
    "busy a (unref r s) fs = busy a s fs"
  by (simp_all add: busy_def dns_work_def)

lemma keeps_inv_close:
  assumes inv: "net_inv env (s, fs)" and law: "net_laws env" and args: "\<forall>a. Lua_userdata a \<in> set args \<longrightarrow> heap s a \<noteq> None"
    and use: "\<And>a ud. lua_arg args 1 = Lua_userdata a \<Longrightarrow> heap s a = Some ud \<Longrightarrow> pcb ud = 0 \<or> \<not> busy a s fs"
  shows "keeps_inv env fs (net_close env args s)"
  unfolding net_close_def
proof (rule keeps_inv_with_ud [OF inv args])
  fix a ud assume la: "lua_arg args 1 = Lua_userdata a" and h: "heap s a = Some ud"
  let ?w = "case type ud of
               TYPE_TCP_CLIENT \<Rightarrow>
                 (case tcp_close env (pcb ud) (lwip s) of (e, w) \<Rightarrow>
                    if e \<noteq> ERR_OK then tcp_abort env (pcb ud) (tcp_register env (pcb ud) (Reg_arg 0) w) else w)
             | TYPE_TCP_SERVER \<Rightarrow> snd (tcp_close env (pcb ud) (lwip s))
             | TYPE_UDP_SOCKET \<Rightarrow> udp_remove env (pcb ud) (lwip s)"
  have "net_inv env (put_ud a (ud\<lparr>pcb := 0\<rparr>) (s\<lparr>lwip := ?w\<rparr>), fs)"
    "net_inv env (drop_self a (ud\<lparr>pcb := 0\<rparr>) (put_ud a (ud\<lparr>pcb := 0\<rparr>) (s\<lparr>lwip := ?w\<rparr>)), fs)" if p: "pcb ud \<noteq> 0"
  proof -
    have idle: "\<not> busy a s fs" using use [OF la h] p by simp
    show c: "net_inv env (put_ud a (ud\<lparr>pcb := 0\<rparr>) (s\<lparr>lwip := ?w\<rparr>), fs)"
      by (rule net_inv_closed [OF inv h p idle freed_in_close [OF law]])
    show "net_inv env (drop_self a (ud\<lparr>pcb := 0\<rparr>) (put_ud a (ud\<lparr>pcb := 0\<rparr>) (s\<lparr>lwip := ?w\<rparr>)), fs)"
      by (rule net_inv_drop_self [OF c]) (use idle in simp_all)
  qed
  note c = this
  have i: "keeps_inv env fs (if C then Some (Return [], A) else Some (Return [], B))"
    if "net_inv env (B, fs)" "net_inv env (A, fs)" for C A B
    using that by (simp add: keeps_inv_Return)
  show "keeps_inv env fs (if pcb ud = 0 then raise ''not connected'' s
       else
         let w = ?w; ud = ud\<lparr>pcb := 0\<rparr>; s = put_ud a ud (s\<lparr>lwip := w\<rparr>)
         in if type ud = TYPE_TCP_SERVER \<or> wait_dns ud = 0 then Some (Return [], drop_self a ud s)
            else Some (Return [], s))"
  proof (cases "pcb ud = 0")
    case False
    show ?thesis unfolding Let_def if_not_P [OF False] by (rule i [OF c [OF False]])
  qed (use keeps_inv_Raise [OF inv] in simp)
qed

section \<open>Calls that change no object\<close>

lemma keeps_inv_getpeer:
  assumes inv: "net_inv env (s, fs)" and args: "\<forall>a. Lua_userdata a \<in> set args \<longrightarrow> heap s a \<noteq> None"
  shows "keeps_inv env fs (net_getpeer env args s)" "keeps_inv env fs (net_getaddr env args s)"
proof -
  have b: "pcb ud \<noteq> 0 \<Longrightarrow> has_block env (lwip s) ud" if "heap s a = Some ud" for a ud
    using net_work_block [OF net_invD(2) [OF inv] that] .
  show "keeps_inv env fs (net_getpeer env args s)" unfolding net_getpeer_def
  proof (rule keeps_inv_with_ud [OF inv args])
    fix a ud assume h: "heap s a = Some ud" and t: "type ud = TYPE_TCP_CLIENT"
    have "pcb ud \<noteq> 0 \<Longrightarrow> \<exists>c. tcp_pcb_at env (lwip s) (pcb ud) = Some c"
      using b [OF h] t by (auto simp: has_block_def tcp_states_def)
    then show "keeps_inv env fs (if pcb ud = 0 then Some (Return [Lua_nil, Lua_nil], s)
       else do {
         c \<leftarrow> tcp_pcb_at env (lwip s) (pcb ud);
         if remote_port c = 0 then Some (Return [Lua_nil, Lua_nil], s)
         else Some (Return [Lua_integer (uint (remote_port c)), Lua_string (ipstr env (remote_ip c))], s) })"
      using keeps_inv_Return [OF inv] by auto
  qed
  show "keeps_inv env fs (net_getaddr env args s)" unfolding net_getaddr_def
  proof (rule keeps_inv_with_ud [OF inv args])
    fix a ud assume h: "heap s a = Some ud"
    have "pcb ud \<noteq> 0 \<Longrightarrow> \<exists>c. (if type ud = TYPE_UDP_SOCKET then udp_pcb_at env (lwip s) (pcb ud)
           else map_option (\<lambda>c. (local_ip c, local_port c)) (tcp_pcb_at env (lwip s) (pcb ud))) = Some c"
      using b [OF h] by (auto simp: has_block_def tcp_states_def udp_live_def)
    then show "keeps_inv env fs (if pcb ud = 0 then Some (Return [Lua_nil, Lua_nil], s)
       else do {
         (addr, port) \<leftarrow> (if type ud = TYPE_UDP_SOCKET then udp_pcb_at env (lwip s) (pcb ud)
           else map_option (\<lambda>c. (local_ip c, local_port c)) (tcp_pcb_at env (lwip s) (pcb ud)));
         if port = 0 then Some (Return [Lua_nil, Lua_nil], s)
         else Some (Return [Lua_integer (uint port), Lua_string (ipstr env addr)], s) })"
      using keeps_inv_Return [OF inv] by (cases "pcb ud = 0") auto
  qed
qed

lemma net_inv_upd_lwip: "net_inv env (s, fs) \<Longrightarrow> keeps env (lwip s) (f (lwip s)) \<Longrightarrow> net_inv env (upd_lwip f s, fs)"
  unfolding upd_lwip_def by (rule net_inv_lwip)

lemma keeps_inv_multicast:
  assumes inv: "net_inv env (s, fs)" and law: "net_laws env"
    and "ip4addr_aton env ''0.0.0.0'' \<noteq> None" "group_arg env (lua_arg args 1)" "group_arg env (lua_arg args 2)"
  shows "keeps_inv env fs (net_multicastJoinLeave env join args s)"
proof -
  have l: "net_inv env (upd_lwip ((if join then igmp_joingroup else igmp_leavegroup) env i m) s, fs)" for i m
    using lwip_keepsD(13,14) [OF law] by (intro net_inv_upd_lwip [OF inv]) simp
  have z: "c_string ''0.0.0.0'' = ''0.0.0.0''" by (simp add: c_string_def)
  show ?thesis
    using assms(3-5) keeps_inv_Raise [OF inv] keeps_inv_Return [OF l]
    by (auto simp: net_multicastJoinLeave_def group_arg_def z Let_def split: option.split)
qed

end
