(* ===== verification/Lua_Net_Events.thy ===== *)
theory Lua_Net_Events
  imports Lua_Net_Steps
begin

text \<open>
  The requests to the resolver without an object, the dispatch of events, the callbacks of lwIP and the
  collector keep the invariant of the socket module.
\<close>

section \<open>Requests without an object\<close>

lemma net_work_out:
  assumes "net_work env s fs" "heap s' = heap s" "lwip s' = lwip s" "set (high s') \<subseteq> set (high s)"
    "\<And>a. own_events a s' = own_events a s" "\<And>a. requests a s' = requests a s"
  shows "net_work env s' fs"
proof (rule net_work_update [OF assms(1), where a = 0])
  show "heap s' 0 = Some ud \<Longrightarrow>
      ud_work env (lwip s') ud (own_events 0 s') (requests 0 s') (dns_frames 0 fs) (err_frames 0 fs)" for ud
    using net_workD(5) [OF assms(1)] assms(2) by simp
  show "e \<in> set (high s') \<Longrightarrow> rank e = 0" for e using net_workD(4) [OF assms(1), of e] assms(4) by auto
qed (use assms net_workD(2,5) [OF assms(1)] in \<open>auto simp: block_stays_def busy_def dns_work_def\<close>)

lemma net_refs_static:
  assumes refs: "net_refs s" and same: "heap s' = heap s" "registry s' = registry s"
    and cb: "callable s cb" "\<not> ref_owned s cb" and st: "set (statics s') \<subseteq> insert cb (set (statics s))" "distinct (statics s')"
  shows "net_refs s'"
  unfolding net_refs_def
proof (intro conjI allI impI ballI st(2))
  fix a ud assume "heap s' a = Some ud"
  then have h: "heap s a = Some ud" using same by simp
  have "cb \<notin> set (live_refs ud)" using cb(2) h by (auto simp: ref_owned_def live_refs_def)
  then show "ud_refs s' a ud" using same st(1) by (intro ud_refs_cong [OF net_refsD(2) [OF refs h], where X = "{cb}"]) auto
next
  fix a b ud ud' assume "heap s' a = Some ud \<and> heap s' b = Some ud' \<and> a \<noteq> b"
  then show "set (live_refs ud) \<inter> set (live_refs ud') = {}" using net_refsD(3) [OF refs, of a ud b ud'] same by simp
next
  fix r assume "r \<in> set (statics s')"
  then have "r = cb \<or> r \<in> set (statics s)" using st(1) by auto
  then show "callable s' r" using cb(1) net_refsD(4) [OF refs] same by (auto simp: callable_def)
qed (use net_refsD(1) [OF refs] same in simp)

lemma medium_to_medium [simp]: "medium (to_medium ev s) = medium s @ [ev]"
  by (simp add: to_medium_def)

lemma owned_simps [simp]: "ref_owned (s\<lparr>lwip := w\<rparr>) r = ref_owned s r" "ref_owned (s\<lparr>registry := reg\<rparr>) r = ref_owned s r"
  by (simp_all add: ref_owned_def)

lemma keeps_inv_dns_static:
  assumes inv: "net_inv env (s, fs)" and law: "net_laws env"
  shows "keeps_inv env fs (net_dns_static env args s)"
  unfolding net_dns_static_def
proof (rule keeps_inv_with_text [OF inv])
  fix domain
  obtain cb s1 where r: "add_ref env (lua_arg args 2) s = (cb, s1)" by fastforce
  obtain e addr w where d: "dns_gethostbyname env (c_string domain) (Dns_static cb) (lwip s1) = (e, addr, w)"
    using prod_cases3 by blast
  have kw: "keeps env (lwip s1) w" using lwip_keepsD(11) [OF law, of "lwip s1" "c_string domain" "Dns_static cb"] d by simp
  let ?s = "s1\<lparr>lwip := w\<rparr>"
  have i1: "net_inv env (?s, fs)" by (rule net_inv_lwip [OF net_inv_add [OF inv law r] kw])
  have cb: "callable ?s cb \<and> \<not> ref_owned ?s cb" if fn: "is_function (lua_arg args 2)"
  proof -
    obtain f where f: "lua_arg args 2 = Lua_function f" using fn is_function_eq by blast
    note fr = add_ref_fresh [OF r net_laws_refs [OF law] net_refsD(1) [OF net_invD(1) [OF inv]], unfolded f, simplified]
    have "\<not> ref_owned s cb" using owned_registered [OF net_invD(1) [OF inv], of cb] fr(1) by (auto simp: fresh_in_def)
    then show ?thesis using fr by (simp add: callable_def fresh_in_def)
  qed
  have new: "net_inv env (s2, fs)"
    if f: "is_function (lua_arg args 2)" and s2: "heap s2 = heap ?s" "registry s2 = registry ?s" "lwip s2 = lwip ?s" "high s2 = high ?s"
      "\<And>a. own_events a s2 = own_events a ?s" "\<And>a. requests a s2 = requests a ?s"
      "set (statics s2) \<subseteq> insert cb (set (statics ?s))" "distinct (statics s2)" for s2
  proof -
    have "net_refs s2" by (rule net_refs_static [OF net_invD(1) [OF i1] s2(1,2) _ _ s2(7,8)]) (use cb [OF f] in blast)+
    moreover have "net_work env s2 fs" by (rule net_work_out [OF net_invD(2) [OF i1] s2(1,3) _ s2(5,6)]) (simp add: s2(4))
    ultimately show ?thesis by (simp add: net_inv_def)
  qed
  have nst: "cb \<notin> set (statics ?s)" if "is_function (lua_arg args 2)" using cb [OF that] by (simp add: ref_owned_def)
  have dist: "distinct (statics ?s)" by (rule net_refsD(5) [OF net_invD(1) [OF i1]])
  have post: "net_inv env (to_medium (DNSSTATIC cb addr) ?s, fs)" if f: "is_function (lua_arg args 2)"
    by (rule new [OF f]) (use nst [OF f] dist in \<open>auto simp: statics_def\<close>)
  have req: "net_inv env (?s\<lparr>resolving := resolving ?s @ [Dns_static cb]\<rparr>, fs)" if f: "is_function (lua_arg args 2)"
    by (rule new [OF f]) (use nst [OF f] dist in \<open>auto simp: statics_def requests_def\<close>)
  show "keeps_inv env fs (if \<not> malloc_ok env s then raise ''out of memory'' s
       else if \<not> is_function (lua_arg args 2) then Some (Raise (Arg_error 2 ''function expected''), s)
       else case add_ref env (lua_arg args 2) s of (cb, s) \<Rightarrow>
         case dns_gethostbyname env (c_string domain) (Dns_static cb) (lwip s) of (e, addr, w) \<Rightarrow>
           let s = s\<lparr>lwip := w\<rparr>
           in if e = ERR_OK then Some (Return [], net_dns_static_cb env (Some addr) cb s)
              else if e = ERR_INPROGRESS then Some (Return [], s\<lparr>resolving := resolving s @ [Dns_static cb]\<rparr>)
              else lwip_lua_checkerr e s)"
    using keeps_inv_Raise [OF inv] keeps_inv_Return [OF i1] keeps_inv_Return [OF post] keeps_inv_Return [OF req]
      keeps_inv_checkerr [OF i1]
    by (auto simp: r d Let_def net_dns_static_cb_def)
qed

lemma keeps_inv_dns_server:
  assumes inv: "net_inv env (s, fs)" and law: "net_laws env"
  shows "keeps_inv env fs (net_setdnsserver env args s)" "keeps_inv env fs (net_getdnsserver env args s)"
proof -
  have i: "keeps_inv env fs (dns_index env args i s f)" if "\<And>n. keeps_inv env fs (f n)" for i f
    using that keeps_inv_Raise [OF inv] by (simp add: dns_index_def split: option.split)
  show "keeps_inv env fs (net_setdnsserver env args s)" unfolding net_setdnsserver_def
    by (auto intro!: keeps_inv_with_text [OF inv] i keeps_inv_Raise [OF inv] keeps_inv_Return net_inv_upd_lwip [OF inv]
      lwip_keepsD(12) [OF law] split: option.split)
  show "keeps_inv env fs (net_getdnsserver env args s)" unfolding net_getdnsserver_def
    by (intro i keeps_inv_Return [OF inv])
qed

section \<open>Every call of a script\<close>

lemma keeps_inv_call:
  assumes inv: "net_inv env (s, fs)" and law: "net_laws env" and args: "\<forall>a. Lua_userdata a \<in> set args \<longrightarrow> heap s a \<noteq> None"
    and use: "disciplined env c args s fs"
  shows "keeps_inv env fs (call_net env c args s)"
proof (cases c)
  case N_createServer
  then show ?thesis using keeps_inv_Raise [OF inv] keeps_inv_create [OF inv law]
    by (simp add: call_net_def net_createServer_def net_createUDPSocket_def split: option.split)
next
  case N_createConnection
  then show ?thesis using keeps_inv_Raise [OF inv] keeps_inv_create [OF inv law]
    by (simp add: call_net_def net_createConnection_def net_createUDPSocket_def split: option.split)
next
  case N_createUDPSocket
  then show ?thesis using keeps_inv_create [OF inv law] by (simp add: call_net_def net_createUDPSocket_def)
next
  case N_mycall
  then show ?thesis using keeps_inv_Return [OF inv] keeps_inv_Call [OF inv]
    by (simp add: call_net_def net_mycall_def plain_frame_def)
next
  case N_myregister
  obtain r s1 where r: "add_ref env (lua_arg args 1) s = (r, s1)" by fastforce
  have "net_inv env (s1\<lparr>myref := r\<rparr>, fs)" using net_inv_add [OF inv law r] by simp
  then show ?thesis using N_myregister r by (simp add: call_net_def net_myregistrer_def keeps_inv_Return)
next
  case N_multicastJoin
  then show ?thesis using use keeps_inv_multicast [OF inv law]
    by (simp add: call_net_def net_multicastJoin_def disciplined_def)
next
  case N_multicastLeave
  then show ?thesis using use keeps_inv_multicast [OF inv law]
    by (simp add: call_net_def net_multicastLeave_def disciplined_def)
next
  case N_connect
  then show ?thesis using use by (auto simp: call_net_def disciplined_def intro!: keeps_inv_connect [OF inv law args])
next
  case N_dns
  then show ?thesis using use unfolding call_net_def disciplined_def by (simp, intro keeps_inv_dns [OF inv law args]) auto
next
  case N_close
  then show ?thesis using use unfolding call_net_def disciplined_def by (simp, intro keeps_inv_close [OF inv law args]) auto
next
  case N_gc
  then show ?thesis using use by (simp add: disciplined_def)
qed (simp_all add: call_net_def keeps_inv_dns_server [OF inv law] keeps_inv_dns_static [OF inv law] keeps_inv_listen [OF inv law args]
  keeps_inv_on [OF inv law args] keeps_inv_send [OF inv law args] keeps_inv_hold [OF inv args] keeps_inv_getpeer [OF inv args])

section \<open>The dispatch\<close>

lemma next_event_cases:
  assumes "next_net_event s = Some (ev, s1)"
  shows "heap s1 = heap s" "registry s1 = registry s" "lwip s1 = lwip s" "requests a s1 = requests a s"
    "own_events a s = (if ev_obj ev = Some a then [ev] else []) @ own_events a s1"
    "statics s = static_ref ev @ statics s1" "set (high s1) \<subseteq> set (high s)"
  using assms
  by (auto simp: next_net_event_def own_events_def statics_def requests_def split: list.splits)

lemma work_okD:
  assumes "work_ok ud es nr nd ne i h"
  shows "sorted (map rank es)"
    "e \<in> set es \<Longrightarrow> fits (type ud) e"
    "nr + nd + answers es > 0 \<Longrightarrow> type ud \<noteq> TYPE_TCP_SERVER"
    "type ud \<noteq> TYPE_TCP_SERVER \<Longrightarrow> int (nr + nd + answers es) \<le> wait_dns ud"
    "type ud = TYPE_TCP_CLIENT \<Longrightarrow> nr + nd + answers es \<le> 1"
    "es \<noteq> [] \<or> nr + nd + ne > 0 \<or> pcb ud \<noteq> 0 \<Longrightarrow> self_ref ud \<noteq> LUA_NOREF"
    "ne + errors es > 0 \<Longrightarrow> type ud = TYPE_TCP_CLIENT \<and> i \<and> (pcb ud = 0 \<or> wait_dns ud > 0)"
    "ne + errors es \<le> 1"
    "ne > 0 \<Longrightarrow> e \<in> set es \<Longrightarrow> rank e = 2"
    "nd > 0 \<Longrightarrow> ne = 0"
    "type ud = TYPE_TCP_CLIENT \<Longrightarrow> nr + nd + answers es > 0 \<Longrightarrow> i"
    "type ud = TYPE_TCP_CLIENT \<Longrightarrow> nd > 0 \<Longrightarrow> e \<in> set es \<Longrightarrow> rank e = 2"
    "type ud \<noteq> TYPE_TCP_CLIENT \<Longrightarrow> pcb ud = 0 \<Longrightarrow> e \<in> set es \<Longrightarrow> rank e = 2"
    "pcb ud \<noteq> 0 \<Longrightarrow> h"
  using assms by (simp_all add: work_ok_def)

lemma work_okI:
  assumes "sorted (map rank es)"
    "\<And>e. e \<in> set es \<Longrightarrow> fits (type ud) e"
    "nr + nd + answers es > 0 \<Longrightarrow> type ud \<noteq> TYPE_TCP_SERVER"
    "type ud \<noteq> TYPE_TCP_SERVER \<Longrightarrow> int (nr + nd + answers es) \<le> wait_dns ud"
    "type ud = TYPE_TCP_CLIENT \<Longrightarrow> nr + nd + answers es \<le> 1"
    "es \<noteq> [] \<or> nr + nd + ne > 0 \<or> pcb ud \<noteq> 0 \<Longrightarrow> self_ref ud \<noteq> LUA_NOREF"
    "ne + errors es > 0 \<Longrightarrow> type ud = TYPE_TCP_CLIENT \<and> i \<and> (pcb ud = 0 \<or> wait_dns ud > 0)"
    "ne + errors es \<le> 1"
    "\<And>e. ne > 0 \<Longrightarrow> e \<in> set es \<Longrightarrow> rank e = 2"
    "nd > 0 \<Longrightarrow> ne = 0"
    "type ud = TYPE_TCP_CLIENT \<Longrightarrow> nr + nd + answers es > 0 \<Longrightarrow> i"
    "\<And>e. type ud = TYPE_TCP_CLIENT \<Longrightarrow> nd > 0 \<Longrightarrow> e \<in> set es \<Longrightarrow> rank e = 2"
    "\<And>e. type ud \<noteq> TYPE_TCP_CLIENT \<Longrightarrow> pcb ud = 0 \<Longrightarrow> e \<in> set es \<Longrightarrow> rank e = 2"
    "pcb ud \<noteq> 0 \<Longrightarrow> h"
  shows "work_ok ud es nr nd ne i h"
  unfolding work_ok_def by (intro conjI impI ballI; (elim conjE)?;
    (rule assms assms(7) [THEN conjunct1] assms(7) [THEN conjunct2, THEN conjunct1] assms(7) [THEN conjunct2, THEN conjunct2]; assumption))

lemma work_ok_pop:
  assumes "work_ok ud (e # es) nr nd ne i h"
  shows "work_ok ud es nr nd ne i h"
proof -
  note d = work_okD [OF assms]
  have r: "answers es \<le> answers (e # es)" "errors es \<le> errors (e # es)" by simp_all
  show ?thesis
  proof (rule work_okI)
    show "sorted (map rank es)" using d(1) by simp
    show "int (nr + nd + answers es) \<le> wait_dns ud" if "type ud \<noteq> TYPE_TCP_SERVER" using d(4) [OF that] r(1) by linarith
    show "nr + nd + answers es \<le> 1" if "type ud = TYPE_TCP_CLIENT" using d(5) [OF that] r(1) by linarith
    show "type ud = TYPE_TCP_CLIENT \<and> i \<and> (pcb ud = 0 \<or> wait_dns ud > 0)" if "ne + errors es > 0"
      using d(7) that r(2) by linarith
    show "ne + errors es \<le> 1" using d(8) r(2) by linarith
  qed (use d(2,3,6,9-14) r in auto)
qed

lemma ranks_above:
  assumes "sorted (map rank (e # es))" "x \<in> set es"
  shows "rank e \<le> rank x"
  using assms by simp

lemma work_ok_dns_frame:
  assumes "work_ok ud (e # es) nr 0 0 i h" "rank e = 2"
  shows "work_ok ud es nr (Suc 0) 0 i h"
proof -
  note d = work_okD [OF assms(1)]
  have all: "rank x = 2" if "x \<in> set es" for x using ranks_above [OF d(1) that] rank_le [of x] assms(2) by simp
  have er: "errors es = 0" using all by (simp add: errors_def)
  show ?thesis by (rule work_okI) (use d all er assms(2) in \<open>auto simp: sorted_iff_nth_mono\<close>)
qed

lemma work_ok_err_frame:
  assumes "work_ok ud (e # es) nr 0 0 i h" "rank e = 1"
  shows "work_ok ud es nr 0 (Suc 0) i h"
proof -
  note d = work_okD [OF assms(1)]
  have er: "errors es = 0" using d(8) assms(2) by simp
  have all: "rank x = 2" if "x \<in> set es" for x
  proof -
    have "rank x \<noteq> 1" using er that by (auto simp: errors_def filter_empty_conv)
    then show ?thesis using ranks_above [OF d(1) that] rank_le [of x] assms(2) by simp
  qed
  show ?thesis by (rule work_okI) (use d all er assms(2) in auto)
qed

text \<open>The state after an event of an object has been taken, with the frame of its function.\<close>

lemma net_inv_taken:
  assumes inv: "net_inv env (s, [])" and n: "next_net_event s = Some (ev, s1)" and ev: "ev_obj ev = Some a"
  shows "net_inv env (s1, [])" "\<exists>ud. heap s1 a = Some ud \<and> fits (type ud) ev"
    "rank ev = 2 \<Longrightarrow> net_inv env (s1, [After_dns a addr])" "rank ev = 1 \<Longrightarrow> net_inv env (s1, [After_err a])"
proof -
  note c = next_event_cases [OF n] and work = net_invD(2) [OF inv]
  have st: "static_ref ev = []" using ev by (cases ev) simp_all
  have own: "own_events a s = ev # own_events a s1" using c(5) [of a] ev by simp
  have "heap s a \<noteq> None" using net_workD(2) [OF work, of a] own by (auto simp: busy_def)
  then obtain ud where h: "heap s a = Some ud" by blast
  have wk: "work_ok ud (ev # own_events a s1) (requests a s1) 0 0 (idle env (lwip s) ud) (has_block env (lwip s) ud)"
    using net_workD(1) [OF work h] own c(4) [of a] by (simp add: ud_work_def)
  show "\<exists>ud. heap s1 a = Some ud \<and> fits (type ud) ev" using h c(1) work_okD(2) [OF wk, of ev] by simp
  have refs: "net_refs s1"
    by (rule net_refs_same [OF net_invD(1) [OF inv], where a = a]) (use c st net_refsD(5) [OF net_invD(1) [OF inv]] in auto)
  have upd: "net_work env s1 fs'" if w: "work_ok ud (own_events a s1) (requests a s1) (dns_frames a fs') (err_frames a fs')
      (idle env (lwip s) ud) (has_block env (lwip s) ud)"
    and f: "\<And>b. b \<noteq> a \<Longrightarrow> dns_frames b fs' = 0 \<and> err_frames b fs' = 0" for fs'
  proof (rule net_work_update [OF work, where a = a])
    show "heap s1 a = Some ud2 \<Longrightarrow>
      ud_work env (lwip s1) ud2 (own_events a s1) (requests a s1) (dns_frames a fs') (err_frames a fs')" for ud2
      using w c(1,3) h by (simp add: ud_work_def)
    show "b \<noteq> a \<Longrightarrow> own_events b s1 = own_events b s \<and> requests b s1 = requests b s \<and>
      dns_frames b fs' = dns_frames b [] \<and> err_frames b fs' = err_frames b []" for b
      using c(4) [of b] c(5) [of b] ev f [of b] by simp
    show "e \<in> set (high s1) \<Longrightarrow> rank e = 0" for e using net_workD(4) [OF work, of e] c(7) by auto
    show "(type ud2 = TYPE_UDP_SOCKET) \<noteq> (type ud3 = TYPE_UDP_SOCKET)"
      if "heap s1 a = Some ud2" "b \<noteq> a" "heap s b = Some ud3" "pcb ud2 = pcb ud3" "pcb ud2 \<noteq> 0" for ud2 b ud3
      using net_workD(3) [OF work, of a ud2 b ud3] that c(1) by auto
  qed (use c h net_workD(5) [OF work] in \<open>auto simp: block_stays_def\<close>)
  show "net_inv env (s1, [])" using refs upd [of "[]"] work_ok_pop [OF wk] by (simp add: net_inv_def)
  show "rank ev = 2 \<Longrightarrow> net_inv env (s1, [After_dns a addr])"
    using refs upd [of "[After_dns a addr]"] work_ok_dns_frame [OF wk] by (simp add: net_inv_def)
  show "rank ev = 1 \<Longrightarrow> net_inv env (s1, [After_err a])"
    using refs upd [of "[After_err a]"] work_ok_err_frame [OF wk] by (simp add: net_inv_def)
qed

text \<open>The rest of a function, with its frame on the stack.\<close>

lemma net_inv_frame:
  assumes inv: "net_inv env (s, f # fs)" and f: "f = After_dns a addr \<or> f = After_err a"
  shows "\<exists>ud. heap s a = Some ud"
  using net_workD(2) [OF net_invD(2) [OF inv], of a] f by (cases "heap s a") (auto simp: busy_def dns_work_def)

lemma net_inv_pop:
  assumes inv: "net_inv env (s, f # fs)" and f: "f = After_dns a addr \<or> f = After_err a" and h: "heap s a = Some ud"
    and same: "live_refs ud' = live_refs ud" "self_ref ud' = self_ref ud"
    and stays: "\<And>b ud2. b \<noteq> a \<Longrightarrow> heap s b = Some ud2 \<Longrightarrow> pcb ud2 \<noteq> 0 \<Longrightarrow> block_stays env (lwip s) w ud2"
    and work: "ud_work env w ud' (own_events a s) (requests a s) (dns_frames a fs) (err_frames a fs)"
    and block: "type ud' = type ud" "pcb ud' = pcb ud"
  shows "net_inv env (put_ud a ud' (s\<lparr>lwip := w\<rparr>), fs)"
proof -
  have "net_work env (put_ud a ud' (s\<lparr>lwip := w\<rparr>)) fs"
  proof (rule net_work_ud [OF net_invD(2) [OF inv] h, of _ ud'])
    show "b \<noteq> a \<Longrightarrow> dns_frames b fs = dns_frames b (f # fs) \<and> err_frames b fs = err_frames b (f # fs)" for b
      using f by auto
    show "(type ud' = TYPE_UDP_SOCKET) \<noteq> (type ud2 = TYPE_UDP_SOCKET)"
      if "b \<noteq> a" "heap s b = Some ud2" "pcb ud' = pcb ud2" "pcb ud' \<noteq> 0" for b ud2
      using net_workD(3) [OF net_invD(2) [OF inv] h that(2)] that block by auto
  qed (use stays work in auto)
  then show ?thesis using net_refs_put [OF net_invD(1) [OF inv] h same(1) disjI1 [OF same(2)], of w] by (simp add: net_inv_def)
qed

lemma keeps_inv_err_rest:
  assumes inv: "net_inv env (s, After_err a # fs)"
  shows "keeps_inv env fs (lerr_rest a s)"
proof -
  obtain ud where h: "heap s a = Some ud" using net_inv_frame [OF inv] by blast
  note wk = net_workD(1) [OF net_invD(2) [OF inv] h]
  note d = work_okD [OF wk [unfolded ud_work_def], simplified]
  have ne: "err_frames a fs = 0" using d(8) by simp
  have "ud_work env (lwip s) ud (own_events a s) (requests a s) (dns_frames a fs) (err_frames a fs)"
    unfolding ud_work_def ne by (rule work_okI) (use d in auto)
  from net_inv_pop [OF inv _ h refl refl _ this]
  have i: "net_inv env (s, fs)" using put_same [of "s\<lparr>lwip := lwip s\<rparr>" a ud] h by (simp add: block_stays_def)
  have "net_inv env (drop_self a ud s, fs)" if "wait_dns ud = 0"
  proof (rule net_inv_drop_self [OF i h])
    have all: "\<forall>e \<in> set (own_events a s). rank e = 2" and p: "pcb ud = 0"
      and k: "requests a s + dns_frames a fs + answers (own_events a s) = 0"
      using d(4,7,9) that by auto
    then show "\<not> busy a s fs" using answers_all [OF all] ne by (auto simp: busy_def dns_work_def)
    show "pcb ud = 0" by (rule p)
  qed
  then show ?thesis using i h by (simp add: lerr_rest_def keeps_inv_Return)
qed

lemma keeps_inv_dns_rest:
  assumes inv: "net_inv env (s, After_dns a addr # fs)" and law: "net_laws env"
  shows "keeps_inv env fs (ldnsfound_rest env a addr s)"
proof -
  obtain ud where h: "heap s a = Some ud" using net_inv_frame [OF inv] by blast
  note work = net_invD(2) [OF inv]
  note wk = net_workD(1) [OF work h]
  have t: "type ud \<noteq> TYPE_TCP_SERVER" using wk by (simp add: ud_work_def work_ok_def)
  let ?ud = "ud\<lparr>wait_dns := wait_dns ud - 1\<rparr>"
  have i: "net_inv env (put_ud a ?ud (s\<lparr>lwip := w\<rparr>), fs)"
    if stays: "\<And>b ud2. b \<noteq> a \<Longrightarrow> heap s b = Some ud2 \<Longrightarrow> pcb ud2 \<noteq> 0 \<Longrightarrow> block_stays env (lwip s) w ud2"
      and blk: "pcb ud \<noteq> 0 \<Longrightarrow> has_block env w ud" and id: "type ud = TYPE_TCP_CLIENT \<or> (idle env (lwip s) ud \<longrightarrow> idle env w ud)" for w
  proof (rule net_inv_pop [OF inv _ h])
    have ne: "err_frames a fs = 0" "type ud = TYPE_TCP_CLIENT \<Longrightarrow> errors (own_events a s) = 0"
      using wk by (auto simp: ud_work_def work_ok_def errors_def)
    then show "ud_work env w ?ud (own_events a s) (requests a s) (dns_frames a fs) (err_frames a fs)"
      using wk t blk id by (auto simp: ud_work_def work_ok_def idle_def has_block_def)
  qed (use t stays in auto)
  show ?thesis
  proof (cases "pcb ud \<noteq> 0 \<and> type ud = TYPE_TCP_CLIENT")
    case True
    then have p: "pcb ud \<noteq> 0" and c: "type ud = TYPE_TCP_CLIENT" by simp_all
    have cl: "tcp_states env (lwip s) (pcb ud) = Some True" using wk p c by (simp add: ud_work_def work_ok_def idle_def)
    then obtain b where b: "tcp_pcb_at env (lwip s) (pcb ud) = Some b" "state_closed b" by (auto simp: tcp_states_def)
    let ?w = "tcp_connect env (pcb ud) addr (remote_port b) (lwip s)"
    obtain bb where w: "tcp_states env ?w = (tcp_states env (lwip s))(pcb ud \<mapsto> bb)" using lwip_blocksD(4) [OF law] by blast
    have u: "udp_live env ?w = udp_live env (lwip s)" by (rule lwip_blocksD(3) [OF law])
    have "net_inv env (put_ud a ?ud (s\<lparr>lwip := ?w\<rparr>), fs)"
    proof (rule i)
      show "block_stays env (lwip s) ?w ud2" if "x \<noteq> a" "heap s x = Some ud2" "pcb ud2 \<noteq> 0" for x ud2
      proof -
        have ne: "pcb ud2 \<noteq> pcb ud \<or> type ud2 = TYPE_UDP_SOCKET"
          using net_workD(3) [OF work h that(2)] that(1) p c by auto
        then show ?thesis using w u by (auto simp: block_stays_def has_block_def idle_def)
      qed
      show "has_block env ?w ud" using w c by (simp add: has_block_def)
    qed (use c in simp)
    moreover have "put_ud a ?ud (s\<lparr>lwip := ?w\<rparr>) = upd_lwip (tcp_connect env (pcb ud) addr (remote_port b)) (put_ud a ?ud s)"
      by (cases s) (simp add: upd_lwip_def put_ud_def)
    ultimately have "net_inv env (upd_lwip (tcp_connect env (pcb ud) addr (remote_port b)) (put_ud a ?ud s), fs)"
      by (simp only:)
    then show ?thesis using h b p c by (simp add: ldnsfound_rest_def Let_def keeps_inv_Return)
  next
    case False
    have j: "net_inv env (put_ud a ?ud s, fs)"
      using i [of "lwip s"] net_work_block [OF work h] by (simp add: block_stays_def)
    have "net_inv env (drop_self a ?ud (put_ud a ?ud s), fs)" if p: "pcb ud = 0" and z: "wait_dns ud = 1"
    proof (rule net_inv_drop_self [OF j])
      have all: "\<forall>e \<in> set (own_events a s). rank e = 2"
        and k: "requests a s + dns_frames a fs + answers (own_events a s) = 0" and ne: "err_frames a fs = 0"
        using wk p z t by (auto simp: ud_work_def work_ok_def)
      then show "\<not> busy a (put_ud a ?ud s) fs" using answers_all [OF all] by (auto simp: busy_def dns_work_def)
    qed (use p in simp_all)
    then show ?thesis using h j False by (auto simp: ldnsfound_rest_def Let_def keeps_inv_Return)
  qed
qed

lemma rawgeti_callable: "callable s r \<Longrightarrow> \<exists>f. rawgeti s r = Lua_function f"
  by (auto simp: callable_def rawgeti_def)

lemma keeps_inv_Call_frame:
  "net_inv env (s, k # fs) \<Longrightarrow> callable s r \<Longrightarrow> keeps_inv env fs (Some (Call (rawgeti s r) vs k, s))"
  using rawgeti_callable [of s r] by (auto simp: keeps_inv_def push_def)

lemma keeps_inv_dispatch:
  assumes inv: "net_inv env (s, [])" and law: "net_laws env" and n: "next_net_event s = Some (ev, s1)"
  shows "keeps_inv env [] (handle_net_event env ev s1)"
proof (cases ev)
  case (DNSFOUND a addr)
  then have ev: "ev_obj ev = Some a" "rank ev = 2" by simp_all
  note i = net_inv_taken(1) [OF inv n ev(1)] and f = net_inv_taken(3) [OF inv n ev, of addr]
  obtain ud where h: "heap s1 a = Some ud" "fits (type ud) ev" using net_inv_taken(2) [OF inv n ev(1)] by blast
  have t: "type ud \<noteq> TYPE_TCP_SERVER" using h(2) DNSFOUND by (cases "type ud") simp_all
  have "callable s1 (cb_dns_ref ud)" if "cb_dns_ref ud \<noteq> LUA_NOREF"
    using net_refs_cb(1) [OF net_invD(1) [OF i] h(1), of "cb_dns_ref ud"] that t
    by (cases "type ud") (auto simp: live_refs_def cb_refs_def)
  then show ?thesis using keeps_inv_Call_frame [OF f] keeps_inv_dns_rest [OF f law] h(1) DNSFOUND
    by (simp add: handle_net_event_def ldnsfound_cb_def)
next
  case (DNSSTATIC cb addr)
  note c = next_event_cases [OF n] and refs = net_invD(1) [OF inv]
  have own: "own_events a s1 = own_events a s" for a using c(5) [of a] DNSSTATIC by simp
  have st: "statics s = cb # statics s1" using c(6) DNSSTATIC by simp
  have d: "distinct (statics s)" by (rule net_refsD(5) [OF refs])
  have "net_refs s1" by (rule net_refs_same [OF refs, where a = 0]) (use c st d in auto)
  moreover have "net_work env s1 []" using net_work_out [OF net_invD(2) [OF inv] c(1,3,7) own] c(4) by simp
  ultimately have i: "net_inv env (s1, [])" by (simp add: net_inv_def)
  have cb: "callable s cb" using net_refsD(4) [OF refs] st by simp
  have "\<not> ref_owned s1 cb"
  proof
    assume "ref_owned s1 cb"
    then obtain a ud where h: "heap s a = Some ud" "cb \<in> set (self_ref ud # cb_refs ud)"
      using st d c(1) by (auto simp: ref_owned_def)
    have "cb \<noteq> self_ref ud"
      using net_refs_self [OF refs h(1)] cb by (auto simp: callable_def)
    then have "cb \<in> set (live_refs ud)" using h(2) cb by (auto simp: live_refs_def callable_def)
    then show False using net_refs_cb(2) [OF refs h(1), of cb] st by simp
  qed
  then have "net_inv env (s1\<lparr>registry := (registry s1)(cb := None)\<rparr>, [])"
    using net_refsD(1) [OF net_invD(1) [OF i]] by (intro net_inv_registry [OF i]) auto
  moreover have "unref cb s1 = s1\<lparr>registry := (registry s1)(cb := None)\<rparr>"
    using cb by (simp add: unref_def luaL_unref_def callable_def)
  ultimately have "net_inv env (unref cb s1, [])" by simp
  then show ?thesis using i DNSSTATIC
    by (simp add: handle_net_event_def ldnsstatic_cb_def keeps_inv_Return keeps_inv_Call plain_frame_def)
next
  case (CONNECTED a)
  then have ev: "ev_obj ev = Some a" by simp
  note i = net_inv_taken(1) [OF inv n ev]
  obtain ud where h: "heap s1 a = Some ud" using net_inv_taken(2) [OF inv n ev] by blast
  show ?thesis using i h CONNECTED
    by (simp add: handle_net_event_def lconnected_cb_def keeps_inv_Return keeps_inv_Call plain_frame_def)
next
  case (ACCEPT a p)
  then have ev: "ev_obj ev = Some a" by simp
  obtain ud where "heap s1 a = Some ud" "fits (type ud) ev" using net_inv_taken(2) [OF inv n ev] by blast
  then show ?thesis using ACCEPT by (cases "type ud") simp_all
next
  case (RECVDATA a ip port payload)
  then have ev: "ev_obj ev = Some a" by simp
  note i = net_inv_taken(1) [OF inv n ev]
  obtain ud where h: "heap s1 a = Some ud" "fits (type ud) ev" using net_inv_taken(2) [OF inv n ev] by blast
  have "type ud = TYPE_UDP_SOCKET \<Longrightarrow> \<exists>x. ip = Some x" using h(2) RECVDATA by auto
  then show ?thesis using i h(1) RECVDATA
    by (auto simp: handle_net_event_def lrecv_cb_def keeps_inv_Return keeps_inv_Call plain_frame_def)
next
  case (SENTDATA a np)
  then have ev: "ev_obj ev = Some a" by simp
  note i = net_inv_taken(1) [OF inv n ev]
  obtain ud where h: "heap s1 a = Some ud" using net_inv_taken(2) [OF inv n ev] by blast
  show ?thesis using i h SENTDATA
    by (simp add: handle_net_event_def lsent_cb_def keeps_inv_Return keeps_inv_Call plain_frame_def)
next
  case (ERR a e)
  then have ev: "ev_obj ev = Some a" "rank ev = 1" by simp_all
  note i = net_inv_taken(1) [OF inv n ev(1)] and f = net_inv_taken(4) [OF inv n ev]
  obtain ud where h: "heap s1 a = Some ud" "fits (type ud) ev" using net_inv_taken(2) [OF inv n ev(1)] by blast
  have t: "type ud = TYPE_TCP_CLIENT" using h(2) ERR by (cases "type ud") simp_all
  have "callable s1 r" if "r \<noteq> LUA_NOREF" "r = cb_reconnect_ref ud \<or> r = cb_disconnect_ref ud" for r
    using net_refs_cb(1) [OF net_invD(1) [OF i] h(1), of r] that t by (auto simp: live_refs_def cb_refs_def)
  then show ?thesis using keeps_inv_Call_frame [OF f] keeps_inv_err_rest [OF f] h(1) ERR
    by (simp add: handle_net_event_def lerr_cb_def Let_def)
qed

lemma keeps_inv_frame:
  assumes inv: "net_inv env (s, f # fs)" and law: "net_laws env"
  shows "keeps_inv env fs (run_frame env f s)"
proof (cases f)
  case (After_dns a addr)
  then show ?thesis using keeps_inv_dns_rest [OF inv [unfolded After_dns] law] by (simp add: run_frame_def)
next
  case (After_err a)
  then show ?thesis using keeps_inv_err_rest [OF inv [unfolded After_err]] by (simp add: run_frame_def)
next
  case (After_send e)
  then have "net_inv env (s, fs)" using inv by (simp add: net_inv_plain plain_frame_def)
  then show ?thesis using After_send by (simp add: run_frame_def keeps_inv_checkerr)
qed (use inv in \<open>simp_all add: run_frame_def net_inv_plain plain_frame_def keeps_inv_Return\<close>)

section \<open>The callbacks of lwIP and the collector\<close>

text \<open>The connection of a client that is under way has only data outstanding.\<close>

lemma connection_work:
  assumes work: "net_work env s fs" and con: "connection env s a p"
  shows "\<exists>ud. heap s a = Some ud \<and> type ud = TYPE_TCP_CLIENT \<and> pcb ud = p \<and> p \<noteq> 0 \<and> a \<noteq> 0 \<and> self_ref ud \<noteq> LUA_NOREF \<and>
    requests a s = 0 \<and> dns_frames a fs = 0 \<and> err_frames a fs = 0 \<and> errors (own_events a s) = 0 \<and>
    (\<forall>e \<in> set (own_events a s). rank e = 0 \<and> fits TYPE_TCP_CLIENT e) \<and> tcp_states env (lwip s) p = Some False"
proof -
  obtain ud where ud: "heap s a = Some ud" "type ud = TYPE_TCP_CLIENT" "pcb ud = p" "p \<noteq> 0"
    and st: "tcp_states env (lwip s) p = Some False" using con by (auto simp: connection_def)
  note d = work_okD [OF net_workD(1) [OF work ud(1), unfolded ud_work_def]]
  have ni: "\<not> idle env (lwip s) ud" using ud st by (simp add: idle_def)
  have k: "requests a s + dns_frames a fs + answers (own_events a s) = 0" using d(11) [OF ud(2)] ni by (metis neq0_conv)
  have e: "err_frames a fs + errors (own_events a s) = 0" using d(7) ni by (metis neq0_conv)
  have "rank x = 0" if "x \<in> set (own_events a s)" for x
  proof -
    have "rank x \<noteq> 2" "rank x \<noteq> 1" using k e that by (auto simp: answers_def errors_def filter_empty_conv)
    then show ?thesis using rank_le [of x] by linarith
  qed
  moreover have "a \<noteq> 0" using ud(1) net_workD(5) [OF work] by (cases "a = 0") simp_all
  ultimately show ?thesis using ud st k e d(2) d(6) by auto
qed

lemma moves_stays:
  assumes "lwip_moves env freed w w'" "freed \<noteq> Some (pcb ud) \<or> type ud = TYPE_UDP_SOCKET"
  shows "block_stays env w w' ud"
  using assms by (auto simp: lwip_moves_def block_stays_def has_block_def idle_def)

text \<open>An error of a connection, whose block may be freed.\<close>

lemma net_inv_failed:
  assumes inv: "net_inv env (s, fs)" and con: "connection env s a p" and w: "lwip_moves env (Some p) (lwip s) w"
  shows "\<exists>s'. net_err_cb env a e (s\<lparr>lwip := w\<rparr>) = Some s' \<and> net_inv env (s', fs) \<and> lwip s' = w \<and>
    (\<forall>b ud. heap s' b = Some ud \<and> pcb ud = p \<and> p \<noteq> 0 \<longrightarrow> type ud = TYPE_UDP_SOCKET)"
proof -
  note work = net_invD(2) [OF inv]
  obtain ud where ud: "heap s a = Some ud" "type ud = TYPE_TCP_CLIENT" "pcb ud = p" "p \<noteq> 0" "a \<noteq> 0" "self_ref ud \<noteq> LUA_NOREF"
    and k: "requests a s = 0" "dns_frames a fs = 0" "err_frames a fs = 0" "errors (own_events a s) = 0"
      "\<forall>e \<in> set (own_events a s). rank e = 0 \<and> fits TYPE_TCP_CLIENT e"
    using connection_work [OF work con] by blast
  have ans: "answers (own_events a s) = 0" using k(5) by (simp add: answers_def)
  note d = work_okD [OF net_workD(1) [OF work ud(1), unfolded ud_work_def]]
  have other: "type ud2 = TYPE_UDP_SOCKET" if "b \<noteq> a" "heap s b = Some ud2" "pcb ud2 = p" for b ud2
    using net_workD(3) [OF work ud(1) that(2)] that ud by auto
  let ?ud = "ud\<lparr>pcb := 0\<rparr>" and ?s = "put_ud a (ud\<lparr>pcb := 0\<rparr>) (s\<lparr>lwip := w\<rparr>)"
  have wk: "ud_work env w ?ud es 0 0 0" if "es = own_events a s \<or> es = own_events a s @ [ERR a e]" for es
    unfolding ud_work_def
    by (rule work_okI)
      (use that ud k ans d(1,4) in \<open>auto simp: idle_def sorted_append\<close>)
  have "net_work env ?s fs"
    by (rule net_work_ud [OF work ud(1), of _ ?ud]) (use wk k moves_stays [OF w] other in auto)
  then have i: "net_inv env (?s, fs)"
    using net_refs_put [OF net_invD(1) [OF inv] ud(1)] by (simp add: net_inv_def)
  have "net_inv env (to_medium (ERR a e) ?s, fs)"
    by (rule net_inv_medium [OF i]) (use wk k in auto)
  then show ?thesis using i ud other by (auto simp: net_err_cb_def post_net_err_def post_def)
qed

lemma keeps_connected:
  assumes inv: "net_inv env (s, fs)" and con: "connection env s a p"
  shows "\<exists>e' s'. net_connected_cb env a p e s = Some (e', s') \<and> net_inv env (s', fs)"
proof -
  note work = net_invD(2) [OF inv]
  obtain ud where ud: "heap s a = Some ud" "type ud = TYPE_TCP_CLIENT" "pcb ud = p" "p \<noteq> 0" "a \<noteq> 0" "self_ref ud \<noteq> LUA_NOREF"
    and k: "requests a s = 0" "dns_frames a fs = 0" "err_frames a fs = 0" "errors (own_events a s) = 0"
      "\<forall>e \<in> set (own_events a s). rank e = 0 \<and> fits TYPE_TCP_CLIENT e"
    using connection_work [OF work con] by blast
  show ?thesis
  proof (cases "e = ERR_OK")
    case True
    note d = work_okD [OF net_workD(1) [OF work ud(1), unfolded ud_work_def]]
    have "net_inv env (to_medium (CONNECTED a) s, fs)"
    proof (rule net_inv_medium [OF inv ud(1)])
      show "ud_work env (lwip s) ud (own_events a s @ [CONNECTED a]) (requests a s) (dns_frames a fs) (err_frames a fs)"
        unfolding ud_work_def by (rule work_okI) (use d ud k in \<open>auto simp: sorted_append\<close>)
    qed simp
    then show ?thesis using True inv ud by (simp add: net_connected_cb_def post_net_connected_def post_def)
  next
    case False
    have "lwip_moves env (Some p) (lwip s) (lwip s)" by (simp add: lwip_moves_def)
    from net_inv_failed [OF inv con this, of e] show ?thesis using False ud by (auto simp: net_connected_cb_def)
  qed
qed

lemma keeps_sent:
  assumes inv: "net_inv env (s, fs)" and con: "connection env s a p"
  shows "\<exists>e' s'. net_sent_cb env a s = Some (e', s') \<and> net_inv env (s', fs)"
proof -
  note work = net_invD(2) [OF inv]
  obtain ud where ud: "heap s a = Some ud" "type ud = TYPE_TCP_CLIENT" "pcb ud = p" "p \<noteq> 0" "a \<noteq> 0" "self_ref ud \<noteq> LUA_NOREF"
    and k: "requests a s = 0" "dns_frames a fs = 0" "err_frames a fs = 0" "errors (own_events a s) = 0"
      "\<forall>e \<in> set (own_events a s). rank e = 0 \<and> fits TYPE_TCP_CLIENT e"
    using connection_work [OF work con] by blast
  note d = work_okD [OF net_workD(1) [OF work ud(1), unfolded ud_work_def]]
  have "net_inv env (to_medium (SENTDATA a None) s, fs)"
  proof (rule net_inv_medium [OF inv ud(1)])
    show "ud_work env (lwip s) ud (own_events a s @ [SENTDATA a None]) (requests a s) (dns_frames a fs) (err_frames a fs)"
      unfolding ud_work_def by (rule work_okI) (use d ud k in \<open>auto simp: sorted_append\<close>)
  qed simp
  then show ?thesis using inv ud by (simp add: net_sent_cb_def post_net_sent_def post_def)
qed

lemma net_inv_high:
  assumes inv: "net_inv env (s, fs)" and h: "heap s a = Some ud" and p: "pcb ud \<noteq> 0"
    and fit: "fits (type ud) (RECVDATA a ip port payload)"
    and k: "err_frames a fs = 0" "type ud = TYPE_TCP_CLIENT \<Longrightarrow> dns_frames a fs = 0"
  shows "net_inv env (to_high (RECVDATA a ip port payload) s, fs)"
proof -
  note refs = net_invD(1) [OF inv] and work = net_invD(2) [OF inv]
  let ?ev = "RECVDATA a ip port payload" and ?f = "\<lambda>e. ev_obj e = Some a"
  note d = work_okD [OF net_workD(1) [OF work h, unfolded ud_work_def]]
  have o: "own_events a s = filter ?f (high s) @ filter ?f (medium s)" by (simp add: own_events_def)
  have o': "own_events a (to_high ?ev s) = filter ?f (high s) @ ?ev # filter ?f (medium s)"
    by (simp add: own_events_def)
  have hi: "\<forall>e \<in> set (filter ?f (high s)). rank e = 0" using net_workD(4) [OF work] by auto
  have zero: "sorted (map rank xs)" if "\<forall>e \<in> set xs. rank e = 0" for xs using that by (induction xs) auto
  have ae: "answers (own_events a (to_high ?ev s)) = answers (own_events a s)"
    "errors (own_events a (to_high ?ev s)) = errors (own_events a s)" unfolding o o' by simp_all
  have st: "set (own_events a (to_high ?ev s)) = insert ?ev (set (own_events a s))" unfolding o o' by auto
  have so: "sorted (map rank (own_events a (to_high ?ev s)))"
    unfolding o' using d(1) zero [OF hi] hi unfolding o by (auto simp: sorted_append)
  have wk: "ud_work env (lwip s) ud (own_events a (to_high ?ev s)) (requests a s) (dns_frames a fs) (err_frames a fs)"
    unfolding ud_work_def
  proof (rule work_okI)
    show "sorted (map rank (own_events a (to_high ?ev s)))" by (rule so)
    show "fits (type ud) e" if "e \<in> set (own_events a (to_high ?ev s))" for e using that st d(2) fit by auto
  qed (use d p k fit in \<open>simp_all add: ae st\<close>)
  have ob: "own_events b (to_high ?ev s) = own_events b s" if "b \<noteq> a" for b using that by (simp add: own_events_def)
  have "net_refs (to_high ?ev s)"
    by (rule net_refs_same [OF refs, where a = a]) (use net_refsD(5) [OF refs] in \<open>auto simp: statics_post(2)\<close>)
  moreover have "net_work env (to_high ?ev s) fs"
    by (rule net_work_update [OF work, where a = a])
      (use h wk ob net_workD(3) [OF work h] net_workD(4,5) [OF work] in \<open>auto simp: block_stays_def\<close>)
  ultimately show ?thesis by (simp add: net_inv_def)
qed

lemma keeps_received:
  assumes inv: "net_inv env (s, fs)" and law: "net_laws env" and con: "connection env s a p"
  shows "\<exists>e' s'. net_tcp_recv_cb env a p b e s = Some (e', s') \<and> net_inv env (s', fs)"
proof -
  note work = net_invD(2) [OF inv]
  obtain ud where ud: "heap s a = Some ud" "type ud = TYPE_TCP_CLIENT" "pcb ud = p" "p \<noteq> 0" "a \<noteq> 0" "self_ref ud \<noteq> LUA_NOREF"
    and k: "requests a s = 0" "dns_frames a fs = 0" "err_frames a fs = 0"
    using connection_work [OF work con] by blast
  show ?thesis
  proof (cases b)
    case None
    have "lwip_moves env (Some p) (lwip s) (lwip s)" by (simp add: lwip_moves_def)
    from net_inv_failed [OF inv con this, of e] obtain s' where
      s': "net_err_cb env a e s = Some s'" "net_inv env (s', fs)" "lwip s' = lwip s"
      and other: "\<forall>b ud. heap s' b = Some ud \<and> pcb ud = p \<and> p \<noteq> 0 \<longrightarrow> type ud = TYPE_UDP_SOCKET" by auto
    obtain r w where c: "tcp_close env p (lwip s') = (r, w)" by fastforce
    have "net_inv env (s'\<lparr>lwip := w\<rparr>, fs)"
    proof (rule net_inv_moved [OF s'(2)])
      fix x ud2 assume "heap s' x = Some ud2" "pcb ud2 \<noteq> 0"
      then have "pcb ud2 \<noteq> p \<or> type ud2 = TYPE_UDP_SOCKET" using other by auto
      then show "block_stays env (lwip s') w ud2"
        using lwip_blocksD(5) [OF law c] by (auto simp: block_stays_def has_block_def idle_def split: if_splits)
    qed
    then show ?thesis using None ud s' c by (simp add: net_tcp_recv_cb_def)
  next
    case (Some x)
    obtain q payload where x: "x = (q, payload)" by (cases x)
    have i: "net_inv env (to_high (RECVDATA a None 0 payload) s, fs)"
      by (rule net_inv_high [OF inv ud(1)]) (use ud k in simp_all)
    then have "net_inv env (upd_lwip (tcp_recved env p (of_nat (length payload))) (to_high (RECVDATA a None 0 payload) s), fs)"
      by (rule net_inv_upd_lwip) (rule lwip_keepsD(5) [OF law])
    then show ?thesis using Some x ud inv by (simp add: net_tcp_recv_cb_def post_net_recv_def post_def)
  qed
qed

lemma keeps_datagram:
  assumes inv: "net_inv env (s, fs)" and law: "net_laws env" and u: "has_type TYPE_UDP_SOCKET s a"
  shows "\<exists>s'. net_udp_recv_cb env a (Some b) ip n s = Some s' \<and> net_inv env (s', fs)"
proof -
  note work = net_invD(2) [OF inv]
  obtain ud where ud: "heap s a = Some ud" "type ud = TYPE_UDP_SOCKET" "pcb ud \<noteq> 0" using u by (auto simp: has_type_def)
  obtain q payload where b: "b = (q, payload)" by (cases b)
  note d = work_okD [OF net_workD(1) [OF work ud(1), unfolded ud_work_def]]
  have a0: "a \<noteq> 0" using ud(1) net_workD(5) [OF work] by (cases "a = 0") simp_all
  have ne: "err_frames a fs = 0" using d(7) ud(2) by (cases "err_frames a fs") auto
  have sr: "self_ref ud \<noteq> LUA_NOREF" using d(6) ud(3) by simp
  have "net_inv env (to_high (RECVDATA a (Some ip) n payload) s, fs)"
    by (rule net_inv_high [OF inv ud(1,3)]) (use ud ne in simp_all)
  then show ?thesis using inv ud a0 sr b by (simp add: net_udp_recv_cb_def post_net_recv_def post_def)
qed

lemma keeps_accepted:
  assumes inv: "net_inv env (s, fs)" and u: "has_type TYPE_TCP_SERVER s a"
  shows "\<exists>e' s'. net_accept_cb env a p s = Some (e', s') \<and> net_inv env (s', fs)"
proof -
  note work = net_invD(2) [OF inv]
  obtain ud where ud: "heap s a = Some ud" "type ud = TYPE_TCP_SERVER" "pcb ud \<noteq> 0" using u by (auto simp: has_type_def)
  note d = work_okD [OF net_workD(1) [OF work ud(1), unfolded ud_work_def]]
  have a0: "a \<noteq> 0" using ud(1) net_workD(5) [OF work] by (cases "a = 0") simp_all
  have ne: "err_frames a fs = 0" using d(7) ud(2) by (cases "err_frames a fs") auto
  have k: "requests a s = 0" "dns_frames a fs = 0" using d(3) ud(2) by (metis add_is_0 neq0_conv)+
  have sr: "self_ref ud \<noteq> LUA_NOREF" using d(6) ud(3) by simp
  have z: "rank e = 0" if "e \<in> set (own_events a s)" for e using d(2) [OF that] ud(2) by (cases e) simp_all
  have ans: "answers (own_events a s) = 0" "errors (own_events a s) = 0" using z by (auto simp: answers_def errors_def filter_empty_conv)
  have "net_inv env (to_medium (SENTDATA a (Some p)) s, fs)"
  proof (rule net_inv_medium [OF inv ud(1)])
    show "ud_work env (lwip s) ud (own_events a s @ [SENTDATA a (Some p)]) (requests a s) (dns_frames a fs) (err_frames a fs)"
      unfolding ud_work_def by (rule work_okI) (use d(1,2,14) ud k ne sr z ans in \<open>auto simp: sorted_append\<close>)
  qed simp
  then show ?thesis using inv ud a0 sr by (simp add: net_accept_cb_def post_net_accept_def post_def)
qed

lemma keeps_answered:
  assumes inv: "net_inv env (s, fs)" and r: "resolving s = rs @ Dns_for a # rs'"
  shows "net_inv env (net_dns_cb env ip a (s\<lparr>resolving := rs @ rs'\<rparr>), fs)"
proof -
  note refs = net_invD(1) [OF inv] and work = net_invD(2) [OF inv]
  let ?s = "s\<lparr>resolving := rs @ rs'\<rparr>"
  have rq: "requests b s = requests b ?s + (if b = a then 1 else 0)" for b using r by (simp add: requests_def)
  have "heap s a \<noteq> None" using net_workD(2) [OF work, of a] rq [of a] by (auto simp: busy_def dns_work_def)
  then obtain ud where h: "heap s a = Some ud" by blast
  note d = work_okD [OF net_workD(1) [OF work h, unfolded ud_work_def rq [of a], simplified]]
  have t: "type ud \<noteq> TYPE_TCP_SERVER" and sr: "self_ref ud \<noteq> LUA_NOREF" using d(3,6) by simp_all
  have st: "statics ?s = statics s" using r by (simp add: statics_def)
  have ud: "ud_work env (lwip s) ud (own_events a s) (requests a ?s) (dns_frames a fs) (err_frames a fs)"
    unfolding ud_work_def by (rule work_okI) (use d t sr in auto)
  have ud2: "ud_work env (lwip s) ud (own_events a s @ [DNSFOUND a ip']) (requests a ?s) (dns_frames a fs) (err_frames a fs)" for ip'
    unfolding ud_work_def
  proof (rule work_okI)
    show "fits (type ud) e" if "e \<in> set (own_events a s @ [DNSFOUND a ip'])" for e
      using that d(2) t by (cases "type ud") auto
  qed (use d t sr in \<open>auto simp: sorted_append rank_le\<close>)
  have "net_refs ?s" by (rule net_refs_same [OF refs, where a = a]) (use st net_refsD(5) [OF refs] in auto)
  moreover have "net_work env ?s fs"
    by (rule net_work_update [OF work, where a = a])
      (use h ud rq net_workD(3) [OF work h] net_workD(4,5) [OF work] in \<open>auto simp: block_stays_def\<close>)
  ultimately have i: "net_inv env (?s, fs)" by (simp add: net_inv_def)
  have "net_inv env (to_medium (DNSFOUND a ip') ?s, fs)" for ip'
    by (rule net_inv_medium [OF i, of a ud]) (use h ud2 in simp_all)
  then show ?thesis using i by (simp add: net_dns_cb_def post_net_dns_def post_def Let_def)
qed

lemma keeps_resolved:
  assumes inv: "net_inv env (s, fs)" and r: "resolving s = rs @ Dns_static cb # rs'"
  shows "net_inv env (net_dns_static_cb env ip cb (s\<lparr>resolving := rs @ rs'\<rparr>), fs)"
proof -
  note refs = net_invD(1) [OF inv] and work = net_invD(2) [OF inv]
  have i: "net_inv env (s', fs)" if s': "heap s' = heap s" "registry s' = registry s" "lwip s' = lwip s" "high s' = high s"
      "\<And>a. own_events a s' = own_events a s" "\<And>a. requests a s' = requests a s"
      "set (statics s') \<subseteq> set (statics s)" "distinct (statics s')" for s'
  proof -
    have "net_refs s'" by (rule net_refs_same [OF refs, where a = 0]) (use s' in auto)
    moreover have "net_work env s' fs" by (rule net_work_out [OF work s'(1,3) _ s'(5,6)]) (simp add: s'(4))
    ultimately show ?thesis by (simp add: net_inv_def)
  qed
  have d: "distinct (statics s)" by (rule net_refsD(5) [OF refs])
  let ?s = "s\<lparr>resolving := rs @ rs'\<rparr>"
  have i1: "net_inv env (?s, fs)" by (rule i) (use r d in \<open>auto simp: requests_def statics_def\<close>)
  have "net_inv env (to_medium (DNSSTATIC cb ip') ?s, fs)" for ip'
    by (rule i) (use r d in \<open>auto simp: requests_def statics_def\<close>)
  then show ?thesis using i1 by (simp add: net_dns_static_cb_def Let_def)
qed

lemma drop_callbacks_facts:
  "self_ref (fst (drop_callbacks ud s)) = self_ref ud" "heap (snd (drop_callbacks ud s)) = heap s"
  "statics (snd (drop_callbacks ud s)) = statics s" "lwip (snd (drop_callbacks ud s)) = lwip s"
  "medium (snd (drop_callbacks ud s)) = medium s" "high (snd (drop_callbacks ud s)) = high s"
  "resolving (snd (drop_callbacks ud s)) = resolving s"
  by (cases "type ud"; simp add: drop_callbacks_def Let_def unref_def statics_def)+

lemma fold_unref_registry: "registry (fold unref rs s) q = (if 0 \<le> q \<and> q \<in> set rs then None else registry s q)"
  by (induction rs arbitrary: s) (auto simp: unref_registry)

lemma drop_callbacks_registry:
  "registry (snd (drop_callbacks ud s)) q = (if 0 \<le> q \<and> q \<in> set (cb_refs ud) then None else registry s q)"
proof -
  obtain rs where "snd (drop_callbacks ud s) = fold unref rs s" "set rs = set (cb_refs ud)"
  proof (cases "type ud")
    case TYPE_TCP_SERVER
    then show thesis by (intro that [of "[cb_accept_ref ud]"]) (simp_all add: drop_callbacks_def Let_def cb_refs_def)
  next
    case TYPE_TCP_CLIENT
    then show thesis
      by (intro that [of "[cb_connect_ref ud, cb_disconnect_ref ud, cb_reconnect_ref ud, cb_dns_ref ud, cb_receive_ref ud, cb_sent_ref ud]"])
        (auto simp: drop_callbacks_def Let_def cb_refs_def)
  next
    case TYPE_UDP_SOCKET
    then show thesis
      by (intro that [of "[cb_dns_ref ud, cb_receive_ref ud, cb_sent_ref ud]"]) (simp_all add: drop_callbacks_def Let_def cb_refs_def)
  qed
  then show ?thesis by (simp add: fold_unref_registry)
qed

text \<open>What is collected has no reference of its own, so nothing is outstanding for it.\<close>

lemma keeps_collected:
  assumes inv: "net_inv env (s, fs)" and h: "heap s a \<noteq> None" and reg: "\<not> in_registry s a"
  shows "\<exists>r s'. net_delete env [Lua_userdata a] s = Some (r, s') \<and> net_inv env (s'\<lparr>heap := (heap s')(a := None)\<rparr>, fs)"
proof -
  note refs = net_invD(1) [OF inv] and work = net_invD(2) [OF inv]
  obtain ud where ud: "heap s a = Some ud" using h by blast
  have sr: "self_ref ud = LUA_NOREF" using net_refs_in_registry [OF refs ud] reg by blast
  note d = work_okD [OF net_workD(1) [OF work ud, unfolded ud_work_def]]
  have p0: "pcb ud = 0" and idle: "own_events a s = []" "requests a s = 0" "dns_frames a fs = 0" "err_frames a fs = 0"
    using d(6) sr by (metis add_is_0 neq0_conv)+
  have pos: "0 < q" if "q \<in> set (live_refs ud)" for q using net_refs_cb(1) [OF refs ud that] by (simp add: callable_def)
  have pos': "q = LUA_NOREF \<or> 0 < q" if "q \<in> set (cb_refs ud)" for q using pos [of q] that by (auto simp: live_refs_def)
  define ud' s1 where "ud' = fst (drop_callbacks (ud\<lparr>pcb := 0\<rparr>) s)" and "s1 = snd (drop_callbacks (ud\<lparr>pcb := 0\<rparr>) s)"
  then have dc: "drop_callbacks (ud\<lparr>pcb := 0\<rparr>) s = (ud', s1)" by simp
  have cl: "upd_lwip (close_pcb env ud) s = s" using p0 by (simp add: close_pcb_def upd_lwip_def)
  have s1: "heap s1 = heap s" "statics s1 = statics s" "lwip s1 = lwip s" "medium s1 = medium s" "high s1 = high s"
      "resolving s1 = resolving s" "self_ref ud' = LUA_NOREF"
    using sr by (simp_all add: s1_def ud'_def drop_callbacks_facts)
  have r1: "registry s1 q = (if 0 \<le> q \<and> q \<in> set (cb_refs ud) then None else registry s q)" for q
    using drop_callbacks_registry [of "ud\<lparr>pcb := 0\<rparr>" s q] by (simp add: s1_def cb_refs_def cong: net_type.case_cong)
  let ?s = "(drop_self a ud' s1)\<lparr>heap := (heap (drop_self a ud' s1))(a := None)\<rparr>"
  have reg1: "registry ?s q = (if q \<noteq> LUA_NOREF \<and> q \<in> set (self_ref ud # live_refs ud) then None else registry s q)" for q
    using r1 [of q] s1(7) sr pos' [of q] by (auto simp: drop_self_def unref_registry live_refs_def)
  have "net_refs ?s"
    by (rule net_refs_free [OF refs ud _ _ reg1]) (use s1 in \<open>auto simp: drop_self_def\<close>)
  moreover have "net_work env ?s fs"
    by (rule net_work_update [OF work, where a = a])
      (use s1 idle net_workD(4,5) [OF work] in \<open>auto simp: drop_self_def busy_def dns_work_def block_stays_def own_events_def requests_def\<close>)
  ultimately have "net_inv env (?s, fs)" by (simp add: net_inv_def)
  then show ?thesis using ud dc cl by (simp add: net_delete_def net_get_udata_def lua_arg_def)
qed

end
