(* ===== verification/Lua_Net_Props.thy ===== *)
theory Lua_Net_Props
  imports Lua_Net_Events
begin

text \<open>
  The properties of the socket module: every reachable state satisfies the invariant, so that what is
  outstanding refers to objects that are there, the references have the types the code takes them to have, and
  events reach the functions registered for them.
\<close>

section \<open>Every step keeps the invariant\<close>

lemma net_inv_init: "net_inv env (net_init w)"
  by (simp add: net_inv_def net_init_def net_refs_def net_work_def statics_def busy_def dns_work_def own_events_def requests_def)

lemma keeps_invD: "keeps_inv env fs res \<Longrightarrow> res = Some (r, s') \<Longrightarrow> net_inv env (s', push r fs)"
  by (auto simp: keeps_inv_def)

lemma run_frame_ends: "run_frame env f s = Some (r, s') \<Longrightarrow> push r fs = fs"
  by (cases f; cases r)
    (auto simp: run_frame_def push_def ldnsfound_rest_def lerr_rest_def lwip_lua_checkerr_def Let_def
      split: bind_splits if_splits err.splits)

lemma net_inv_step:
  assumes step: "net_step env (disciplined env) c c'" and inv: "net_inv env c" and law: "net_laws env"
  shows "net_inv env c'"
  using step inv
proof cases
  case (script n args s fs r s')
  then show ?thesis using keeps_invD [OF keeps_inv_call [OF _ law]] inv by blast
next
  case (dispatch s ev s1 r s')
  then show ?thesis using keeps_invD [OF keeps_inv_dispatch [OF _ law]] inv by blast
next
  case (returned f s r s' fs)
  then show ?thesis using keeps_invD [OF keeps_inv_frame [OF _ law]] inv run_frame_ends by metis
next
  case (raised f e s fs)
  then show ?thesis using inv by (auto simp: net_inv_plain plain_frame_def)
next
  case (elsewhere reg s fs)
  then show ?thesis using net_inv_registry inv by blast
next
  case (works s w fs)
  then show ?thesis using net_inv_moved [of env s fs w] moves_stays [of env None "lwip s" w] inv by blast
next
  case (failed s a p w e s' fs)
  then show ?thesis using net_inv_failed [of env s fs a p w e] inv by force
next
  case (connected s a p e e' s' fs)
  then show ?thesis using keeps_connected [of env s fs a p e] inv by force
next
  case (received s a p b e e' s' fs)
  then show ?thesis using keeps_received [OF _ law, of s fs a p b e] inv by force
next
  case (sent s a p e s' fs)
  then show ?thesis using keeps_sent [of env s fs a p] inv by force
next
  case (datagram s a b ip n s' fs)
  then show ?thesis using keeps_datagram [OF _ law, of s fs a b ip n] inv by force
next
  case (accepted s a p e' s' fs)
  then show ?thesis using keeps_accepted [of env s fs a p] inv by force
next
  case (answered s rs a rs' ip fs)
  then show ?thesis using keeps_answered inv by blast
next
  case (resolved s rs cb rs' ip fs)
  then show ?thesis using keeps_resolved inv by blast
next
  case (collected s a r s' fs)
  then show ?thesis using keeps_collected [of env s fs a] inv by force
qed

lemma net_inv_reachable:
  assumes "net_laws env" "net_reachable env (disciplined env) c"
  shows "net_inv env c"
proof -
  obtain w where "(net_step env (disciplined env))\<^sup>*\<^sup>* (net_init w) c" using assms(2) by (auto simp: net_reachable_def)
  then show ?thesis
  proof (rule rtranclp_induct [of _ _ _ "net_inv env"])
    show "net_inv env (net_init w)" by (rule net_inv_init)
    show "net_inv env c'" if "net_step env (disciplined env) b c'" "net_inv env b" for b c'
      by (rule net_inv_step [OF that assms(1)])
  qed
qed


section \<open>What is outstanding is there\<close>








section \<open>The types of references\<close>

text \<open>
  C17: In every state reached while scripts keep to the discipline (\<open>disciplined\<close>: no close while something is
  outstanding, no call of __gc, and the other rules there), in the registry the reference an object has to itself is to that object, each callback reference is none or to a
  function, and no reference is held twice: by two objects, two fields or two requests.
\<close>

theorem net_typed:
  assumes "net_laws env" "net_reachable env (disciplined env) (s, fs)" "heap s a = Some ud"
  shows "(self_ref ud \<noteq> LUA_NOREF \<longrightarrow> registry s (self_ref ud) = Some (Lua_userdata a)) \<and>
    (\<forall>r \<in> set (cb_refs ud). r \<noteq> LUA_NOREF \<longrightarrow> (\<exists>f. registry s r = Some (Lua_function f)) \<and> r \<notin> set (statics s) \<and>
       (\<forall>b ud'. heap s b = Some ud' \<and> b \<noteq> a \<longrightarrow> r \<notin> set (cb_refs ud'))) \<and>
    distinct (filter (\<lambda>r. r \<noteq> LUA_NOREF) (cb_refs ud)) \<and>
    (\<forall>r \<in> set (statics s). \<exists>f. registry s r = Some (Lua_function f)) \<and> distinct (statics s)"
proof -
  note refs = net_invD(1) [OF net_inv_reachable [OF assms(1,2)]]
  have self: "registry s (self_ref ud) = Some (Lua_userdata a)" if "self_ref ud \<noteq> LUA_NOREF"
    by (rule net_refs_self(2) [OF refs assms(3) that])
  have cb: "(\<exists>f. registry s r = Some (Lua_function f)) \<and> r \<notin> set (statics s) \<and>
      (\<forall>b ud'. heap s b = Some ud' \<and> b \<noteq> a \<longrightarrow> r \<notin> set (cb_refs ud'))"
    if r: "r \<in> set (cb_refs ud)" "r \<noteq> LUA_NOREF" for r
  proof -
    have live: "r \<in> set (live_refs ud)" using r by (simp add: live_refs_def)
    have "r \<notin> set (cb_refs ud')" if b: "heap s b = Some ud'" "b \<noteq> a" for b ud'
    proof -
      have "r \<notin> set (live_refs ud')" using net_refsD(3) [OF refs assms(3) b(1)] b(2) live by auto
      then show ?thesis using r(2) by (simp add: live_refs_def)
    qed
    then show ?thesis using net_refs_cb [OF refs assms(3) live] by (auto simp: callable_def)
  qed
  have "distinct (live_refs ud)" using net_refsD(2) [OF refs assms(3)] by (simp add: ud_refs_def)
  then have "distinct (filter (\<lambda>r. r \<noteq> LUA_NOREF) (cb_refs ud))" by (simp add: live_refs_def)
  then show ?thesis using self cb net_refsD(4,5) [OF refs] unfolding callable_def by blast
qed

section \<open>The functions registered and the functions called\<close>

text \<open>The function registered for an object under a name.\<close>

definition registered :: "'w net_state \<Rightarrow> nat \<Rightarrow> string \<Rightarrow> lua_value option" where
  "registered s a name =
     (case heap s a of
        Some ud \<Rightarrow>
          if type ud = TYPE_TCP_SERVER then None
          else (case cb_field (type ud) name of
            Some (get, _) \<Rightarrow> if get ud = LUA_NOREF then None else Some (rawgeti s (get ud))
          | None \<Rightarrow> None)
      | None \<Rightarrow> None)"

lemma cb_field_other:
  "cb_field t n = Some (get, put) \<Longrightarrow> cb_field t n' = Some (get', put') \<Longrightarrow> n \<noteq> n' \<Longrightarrow> get' (put r ud) = get' ud"
  by (auto simp: cb_field_def split: if_splits)

lemma cb_field_same: "cb_field t n = Some (get, put) \<Longrightarrow> get (put r ud) = r"
  by (auto simp: cb_field_def split: if_splits)

lemma cb_field_live:
  assumes "cb_field (type ud) n = Some (get, put)" "type ud \<noteq> TYPE_TCP_SERVER" "get ud \<noteq> LUA_NOREF"
  shows "get ud \<in> set (live_refs ud)"
proof -
  obtain i where "i < length (cb_refs ud)" "cb_refs ud ! i = get ud" using cb_field_slot(1) [OF assms(1,2)] by blast
  then have "get ud \<in> set (cb_refs ud)" by (metis nth_mem)
  then show ?thesis using assms(3) by (simp add: live_refs_def)
qed

lemma cb_field_distinct:
  assumes "cb_field (type ud) n = Some (get, put)" "cb_field (type ud) n' = Some (get', put')" "n \<noteq> n'"
    "type ud \<noteq> TYPE_TCP_SERVER" "distinct (live_refs ud)" "get' ud \<noteq> LUA_NOREF"
  shows "get' ud \<noteq> get ud"
proof
  assume e: "get' ud = get ud"
  let ?P = "\<lambda>r. r \<noteq> LUA_NOREF" and ?ud = "put LUA_NOREF ud"
  obtain i where i: "i < length (cb_refs ud)" "cb_refs ud ! i = get ud" "cb_refs ?ud = (cb_refs ud)[i := LUA_NOREF]"
    using cb_field_slot(1) [OF assms(1,4)] by blast
  have g: "get' ?ud = get ud" using cb_field_other [OF assms(1-3)] e by simp
  have "get' ?ud \<in> set (live_refs ?ud)"
    by (rule cb_field_live) (use assms(2,4,6) g e cb_field_slot(2) [OF assms(1,4)] in auto)
  then have "get ud \<in> set (filter ?P ((cb_refs ud)[i := LUA_NOREF]))" using g i(3) by (simp add: live_refs_def)
  moreover have "set (filter ?P ((cb_refs ud)[i := LUA_NOREF])) = {} \<union> (set (filter ?P (cb_refs ud)) - {cb_refs ud ! i})"
    by (subst filter_update(2) [OF i(1)]) (use assms(5) in \<open>simp_all add: live_refs_def\<close>)
  ultimately show False unfolding i(2) by blast
qed

text \<open>A change of one field leaves every other callback: no two share a reference.\<close>

lemma callback_replaced:
  assumes refs: "net_refs s" and h: "heap s a = Some ud" and t: "type ud \<noteq> TYPE_TCP_SERVER"
    and c: "cb_field (type ud) name = Some (get, put)"
    and r: "r = LUA_NOREF \<or> fresh_in (registry (unref (get ud) s)) r"
    and reg: "\<And>q. q \<noteq> r \<Longrightarrow> reg q = registry (unref (get ud) s) q"
    and bn: "b \<noteq> a \<or> n \<noteq> name"
  shows "registered (put_ud a (put r ud) (s\<lparr>registry := reg\<rparr>)) b n = registered s b n"
proof -
  have same: "reg q = registry s q"
    if q: "heap s b = Some ud2" "q \<in> set (live_refs ud2)" "b \<noteq> a \<or> q \<noteq> get ud" for q ud2
  proof -
    have ne: "q \<noteq> LUA_NOREF" using q(2) by (simp add: live_refs_def)
    have old: "get ud = LUA_NOREF \<or> get ud \<in> set (live_refs ud)" using cb_field_live [OF c t] by blast
    have "q \<in> set (self_ref ud2 # live_refs ud2)" using q(2) by simp
    note o = unref_cb_others [OF refs h old q(1) this ne q(3)]
    have "q \<noteq> r" using o(2) r ne by (auto simp: fresh_in_def)
    then show ?thesis using reg o(1) by simp
  qed
  show ?thesis
  proof (cases "b = a")
    case True
    then have n: "n \<noteq> name" using bn by simp
    have dist: "distinct (live_refs ud)" using net_refsD(2) [OF refs h] by (simp add: ud_refs_def)
    have "reg (get' ud) = registry s (get' ud)" if "cb_field (type ud) n = Some (get', put')" "get' ud \<noteq> LUA_NOREF" for get' put'
      by (rule same) (use True h cb_field_live [OF that(1) t that(2)] cb_field_distinct [OF c that(1) n [symmetric] t dist that(2)] in auto)
    moreover have "get' (put r ud) = get' ud" if "cb_field (type ud) n = Some (get', put')" for get' put'
      by (rule cb_field_other [OF c that n [symmetric]])
    ultimately show ?thesis
      using True h t cb_field_slot(2) [OF c t]
      by (cases "cb_field (type ud) n") (auto simp: registered_def rawgeti_def)
  next
    case False
    have "reg (get' ud2) = registry s (get' ud2)"
      if "heap s b = Some ud2" "type ud2 \<noteq> TYPE_TCP_SERVER" "cb_field (type ud2) n = Some (get', put')" "get' ud2 \<noteq> LUA_NOREF"
      for get' put' ud2
      using same [OF that(1) cb_field_live [OF that(3,2,4)]] False by simp
    then show ?thesis using False by (auto simp: registered_def rawgeti_def put_ud_def split: option.split)
  qed
qed

text \<open>
  C16: Registering a function for an object under a name, or none with nil, changes what is registered for
  that object and name, and nothing else.
\<close>

theorem net_on_registers:
  assumes "net_laws env" "net_reachable env (disciplined env) (s, fs)" "heap s a = Some ud" "type ud \<noteq> TYPE_TCP_SERVER"
    "cb_field (type ud) (c_string name) \<noteq> None" "v = Lua_nil \<or> (\<exists>f. v = Lua_function f)"
  shows "\<exists>s'. net_on env [Lua_userdata a, Lua_string name, v] s = Some (Return [], s') \<and>
    (\<forall>b n. registered s' b n =
       (if b = a \<and> n = c_string name then (if v = Lua_nil then None else Some v) else registered s b n))"
proof -
  note refs = net_invD(1) [OF net_inv_reachable [OF assms(1,2)]]
  obtain get put where c: "cb_field (type ud) (c_string name) = Some (get, put)" using assms(5) by auto
  define r where "r = (if v = Lua_nil then LUA_NOREF else fst (renew_ref env (get ud) v s))"
  define reg where "reg = (if v = Lua_nil then registry (unref (get ud) s) else registry (snd (renew_ref env (get ud) v s)))"
  let ?s = "put_ud a (put r ud) (s\<lparr>registry := reg\<rparr>)"
  have fr: "r = LUA_NOREF \<or> fresh_in (registry (unref (get ud) s)) r" and reg: "\<And>q. q \<noteq> r \<Longrightarrow> reg q = registry (unref (get ud) s) q"
    and new: "v \<noteq> Lua_nil \<Longrightarrow> 0 < r \<and> reg r = Some v \<and> renew_ref env (get ud) v s = (r, s\<lparr>registry := reg\<rparr>)"
    using renew_ref_fresh [where old = "get ud" and v = v, OF prod.collapse [symmetric] net_laws_refs [OF assms(1)] net_refsD(1) [OF refs]]
    by (cases "v = Lua_nil"; simp add: r_def reg_def fresh_in_def prod_eq_iff)+
  have run: "net_on env [Lua_userdata a, Lua_string name, v] s = Some (Return [], ?s)"
  proof (cases "v = Lua_nil")
    case True
    then show ?thesis using assms(3,4) c
      by (simp add: net_on_def with_ud_def with_text_def net_get_udata_def lua_arg_def lua_tolstring_def is_function_def
        r_def reg_def unref_def)
  next
    case False
    then show ?thesis using assms(3,4,6) new c
      by (auto simp: net_on_def with_ud_def with_text_def net_get_udata_def lua_arg_def lua_tolstring_def is_function_def)
  qed
  have nil: "r = LUA_NOREF" if "v = Lua_nil" using that by (simp add: r_def)
  have "registered ?s b n = (if b = a \<and> n = c_string name then (if v = Lua_nil then None else Some v) else registered s b n)" for b n
  proof (cases "b = a \<and> n = c_string name")
    case True
    then show ?thesis using assms(4) c cb_field_slot(2) [OF c assms(4)] cb_field_same [OF c] new
      by (cases "v = Lua_nil") (auto simp: registered_def rawgeti_def nil)
  next
    case False
    then show ?thesis using callback_replaced [OF refs assms(3,4) c fr reg] by auto
  qed
  then show ?thesis using run by blast
qed






text \<open>
  C19: A connection that a server accepts is lost. In the states reached while scripts keep to the discipline no ACCEPT
  event is ever queued; the callback of lwIP that takes the connection queues SENTDATA with the new block; and the dispatch of that
  event, whatever block it has, changes nothing at all, so that no client is made for the connection and lwIP is not told that it was
  accepted: all it can do is call what the field cb_sent_ref of the object names.
\<close>

theorem net_accept_lost:
  assumes "net_laws env" "net_reachable env (disciplined env) (s, fs)"
  shows "(\<forall>a p. ACCEPT a p \<notin> set (high s @ medium s)) \<and>
    (\<forall>b p s'. net_accept_cb env b p s = Some (ERR_OK, s') \<longrightarrow> s' = s\<lparr>medium := medium s @ [SENTDATA b (Some p)]\<rparr>) \<and>
    (\<forall>b block r s1. handle_net_event env (SENTDATA b block) s = Some (r, s1) \<longrightarrow> s1 = s \<and>
       (\<exists>ud. heap s b = Some ud \<and>
          r = (if cb_sent_ref ud = LUA_NOREF then Return []
               else Call (rawgeti s (cb_sent_ref ud)) [rawgeti s (self_ref ud)] After_event)))"
proof -
  note work = net_invD(2) [OF net_inv_reachable [OF assms]]
  have "ACCEPT a p \<notin> set (high s @ medium s)" for a p
  proof
    assume "ACCEPT a p \<in> set (high s @ medium s)"
    then have e: "ACCEPT a p \<in> set (own_events a s)" by (simp add: own_events_def)
    then have "busy a s fs" by (auto simp: busy_def)
    then obtain ud where h: "heap s a = Some ud" using net_workD(2) [OF work] by blast
    have "fits (type ud) (ACCEPT a p)" by (rule work_okD(2) [OF net_workD(1) [OF work h, unfolded ud_work_def] e])
    then show False by (cases "type ud") simp_all
  qed
  moreover have "s' = s\<lparr>medium := medium s @ [SENTDATA b (Some p)]\<rparr>" if "net_accept_cb env b p s = Some (ERR_OK, s')" for b p s'
    using that by (auto simp: net_accept_cb_def post_net_accept_def post_def to_medium_def split: if_splits bind_splits)
  moreover have "s1 = s \<and> (\<exists>ud. heap s b = Some ud \<and> r = (if cb_sent_ref ud = LUA_NOREF then Return []
      else Call (rawgeti s (cb_sent_ref ud)) [rawgeti s (self_ref ud)] After_event))"
    if "handle_net_event env (SENTDATA b block) s = Some (r, s1)" for b block r s1
    using that by (auto simp: handle_net_event_def lsent_cb_def split: if_splits bind_splits)
  ultimately show ?thesis by blast
qed

section \<open>A connection\<close>

text \<open>A stack with room for one connection and one datagram socket, whose resolver answers later.\<close>

type_synonym small_stack = "(nat \<rightharpoonup> tcp_pcb) \<times> (nat \<rightharpoonup> (ip_addr \<times> u16))"

definition small_pcb :: "bool \<Rightarrow> u16 \<Rightarrow> tcp_pcb" where
  "small_pcb closed port =
     \<lparr>state_closed = closed, remote_port = port, remote_ip = IP4 0, local_port = 0, local_ip = IP4 0\<rparr>"

definition small_ud :: "int \<Rightarrow> nat \<Rightarrow> int \<Rightarrow> int \<Rightarrow> lnet_userdata" where
  "small_ud self p wait con =
     \<lparr>type = TYPE_TCP_CLIENT, self_ref = self, pcb = p, wait_dns = wait, cb_dns_ref = LUA_NOREF, cb_receive_ref = LUA_NOREF,
      cb_sent_ref = LUA_NOREF, hold = 0, cb_connect_ref = con, cb_disconnect_ref = LUA_NOREF, cb_reconnect_ref = LUA_NOREF\<rparr>"

definition small_env :: "small_stack net_env" where
  "small_env =
     \<lparr>new_ref = next_ref,
      new_userdata = (\<lambda>h. if h 1 = None then Some 1 else None),
      unwritten = small_ud 0 0 0 0,
      num_text = (\<lambda>_. ''0''),
      text_num = (\<lambda>_. None),
      malloc_ok = (\<lambda>_. True),
      post_ok = (\<lambda>_. True),
      err_code = (\<lambda>_. - 1),
      ip_addr_any = IP4 0,
      ip_addr_isany = (\<lambda>a. a = IP4 0),
      ip4addr_ntoa = (\<lambda>_. ''''),
      ip6addr_ntoa = (\<lambda>_. ''''),
      ipaddr_aton = (\<lambda>_. Some (IP4 0)),
      ip4addr_aton = (\<lambda>_. None),
      tcp_pcb_at = (\<lambda>w. fst w),
      udp_pcb_at = (\<lambda>w. snd w),
      tcp_new = (\<lambda>w. if fst w 1 = None then (1, (fst w)(1 \<mapsto> small_pcb True 0), snd w) else (0, w)),
      tcp_register = (\<lambda>_ _ w. w),
      set_remote_port = (\<lambda>p n w. ((fst w)(p := map_option (\<lambda>c. c\<lparr>remote_port := n\<rparr>) (fst w p)), snd w)),
      tcp_bind = (\<lambda>_ _ _ w. (ERR_OK, w)),
      tcp_listen = (\<lambda>p w. if p = 0 then (0, w) else (p, (fst w)(p \<mapsto> small_pcb False 0), snd w)),
      tcp_connect = (\<lambda>p _ n w. ((fst w)(p \<mapsto> small_pcb False n), snd w)),
      tcp_write = (\<lambda>_ _ w. (ERR_OK, w)),
      tcp_recved = (\<lambda>_ _ w. w),
      tcp_accepted = (\<lambda>_ w. w),
      tcp_close = (\<lambda>p w. (ERR_OK, (fst w)(p := None), snd w)),
      tcp_abort = (\<lambda>p w. ((fst w)(p := None), snd w)),
      udp_new = (\<lambda>w. if snd w 1 = None then (1, fst w, (snd w)(1 \<mapsto> (IP4 0, 0))) else (0, w)),
      udp_recv = (\<lambda>_ _ w. w),
      udp_bind = (\<lambda>_ _ _ w. (ERR_OK, w)),
      udp_remove = (\<lambda>p w. (fst w, (snd w)(p := None))),
      udp_sendto = (\<lambda>_ _ _ _ w. (ERR_OK, w)),
      pbuf_alloc_ok = (\<lambda>_ _. True),
      pbuf_free = (\<lambda>_ w. w),
      dns_gethostbyname = (\<lambda>_ _ w. (ERR_INPROGRESS, IP4 0, w)),
      dns_setserver = (\<lambda>_ _ w. w),
      dns_getserver = (\<lambda>_ _. IP4 0),
      dns_max_servers = 2,
      igmp_joingroup = (\<lambda>_ _ w. w),
      igmp_leavegroup = (\<lambda>_ _ w. w)\<rparr>"

lemma small_laws: "net_laws small_env"
  unfolding net_laws_def
proof (intro conjI)
  show "new_ref_laws (new_ref small_env)" by (simp add: small_env_def next_ref_laws)
  show "\<forall>h a. new_userdata small_env h = Some a \<longrightarrow> a \<noteq> 0 \<and> h a = None" by (simp add: small_env_def)
  have tcp: "tcp_states small_env w = map_option state_closed \<circ> fst w" for w by (simp add: tcp_states_def small_env_def comp_def)
  have udp: "udp_live small_env w = (\<lambda>b. b \<noteq> None) \<circ> snd w" for w by (simp add: udp_live_def small_env_def comp_def)
  have same: "map_option state_closed \<circ> m(p := map_option (\<lambda>c. c\<lparr>remote_port := n\<rparr>) (m p)) = map_option state_closed \<circ> m"
    for m :: "nat \<rightharpoonup> tcp_pcb" and p n by (auto simp: fun_eq_iff option.map_comp comp_def)
  show "lwip_keeps small_env" unfolding lwip_keeps_def keeps_def tcp udp by (simp add: small_env_def same)
  show "lwip_blocks small_env" unfolding lwip_blocks_def tcp udp
    by (auto simp: small_env_def small_pcb_def fun_upd_comp split: if_splits)
qed

text \<open>A client that registers a function, asks for a name, connects and is closed.\<close>

definition small_state ::
    "lnet_userdata \<Rightarrow> (int \<rightharpoonup> lua_value) \<Rightarrow> net_event list \<Rightarrow> dns_request list \<Rightarrow> (nat \<rightharpoonup> tcp_pcb) \<Rightarrow> small_stack net_state" where
  "small_state ud reg es rs tcp =
     \<lparr>heap = [1 \<mapsto> ud], registry = reg, myref = 0, medium = es, high = [], resolving = rs, lwip = (tcp, Map.empty)\<rparr>"

lemma next_ref_small: "next_ref Map.empty = 1" "next_ref [1 \<mapsto> v] = 2"
  by (simp_all add: next_ref_def)

lemma small_create:
  "call_net small_env N_createConnection [] (fst (net_init (Map.empty, Map.empty))) =
     Some (Return [Lua_userdata 1], small_state (small_ud LUA_NOREF 0 0 LUA_NOREF) Map.empty [] [] Map.empty)"
  by (simp add: call_net_def net_createConnection_def net_create_def lua_arg_def luaL_optlong_def small_env_def net_init_def
      init_ud_def small_ud_def put_ud_def small_state_def)

lemma small_on:
  "call_net small_env N_on [Lua_userdata 1, Lua_string ''connection'', Lua_function 7]
       (small_state (small_ud LUA_NOREF 0 0 LUA_NOREF) Map.empty [] [] Map.empty) =
     Some (Return [], small_state (small_ud LUA_NOREF 0 0 1) [1 \<mapsto> Lua_function 7] [] [] Map.empty)"
  by (simp add: call_net_def net_on_def with_ud_def net_get_udata_def with_text_def lua_arg_def lua_tolstring_def
      cb_field_def c_string_def is_function_def renew_ref_def add_ref_def unref_def luaL_unref_def luaL_ref_def
      small_env_def next_ref_small small_ud_def put_ud_def small_state_def)

lemma small_connect:
  "call_net small_env N_connect [Lua_userdata 1, Lua_integer 80, Lua_string ''host'']
       (small_state (small_ud LUA_NOREF 0 0 1) [1 \<mapsto> Lua_function 7] [] [] Map.empty) =
     Some (Return [], small_state (small_ud 2 1 1 1) [1 \<mapsto> Lua_function 7, 2 \<mapsto> Lua_userdata 1] [] [Dns_for 1] [1 \<mapsto> small_pcb True 80])"
  by (simp add: call_net_def net_connect_def with_ud_def net_get_udata_def with_integer_def luaL_checkinteger_def lua_arg_def lua_tolstring_def
      c_string_def resolve_def keep_self_def add_ref_def luaL_ref_def Let_def
      small_env_def next_ref_small small_ud_def small_pcb_def put_ud_def small_state_def)

lemma small_answer:
  "net_dns_cb small_env (Some (IP4 5)) 1
       ((small_state (small_ud 2 1 1 1) reg [] [Dns_for 1] tcp)\<lparr>resolving := []\<rparr>) =
     small_state (small_ud 2 1 1 1) reg [DNSFOUND 1 (IP4 5)] [] tcp"
  by (simp add: net_dns_cb_def post_net_dns_def post_def to_medium_def small_env_def small_state_def)

lemma small_found:
  "next_net_event (small_state ud reg [ev] rs tcp) = Some (ev, small_state ud reg [] rs tcp)"
  "handle_net_event small_env (DNSFOUND 1 (IP4 5)) (small_state (small_ud 2 1 1 1) reg [] [] [1 \<mapsto> small_pcb True 80]) =
     Some (Return [], small_state (small_ud 2 1 0 1) reg [] [] [1 \<mapsto> small_pcb False 80])"
  by (simp_all add: next_net_event_def handle_net_event_def ldnsfound_cb_def ldnsfound_rest_def upd_lwip_def Let_def
      small_env_def small_ud_def small_pcb_def put_ud_def small_state_def)

lemma small_connected:
  "net_connected_cb small_env 1 1 ERR_OK (small_state (small_ud 2 1 0 1) reg [] [] tcp) =
     Some (ERR_OK, small_state (small_ud 2 1 0 1) reg [CONNECTED 1] [] tcp)"
  by (simp add: net_connected_cb_def post_net_connected_def post_def to_medium_def small_env_def small_state_def small_ud_def)

abbreviation small_start :: "small_stack net_config" where "small_start \<equiv> net_init (Map.empty, Map.empty)"

abbreviation small_open :: "small_stack net_state" where
  "small_open \<equiv> small_state (small_ud 2 1 0 1) [1 \<mapsto> Lua_function 7, 2 \<mapsto> Lua_userdata 1] [] [] [1 \<mapsto> small_pcb False 80]"

abbreviation small_conn :: "small_stack net_state" where
  "small_conn \<equiv> small_state (small_ud 2 1 0 1) [1 \<mapsto> Lua_function 7, 2 \<mapsto> Lua_userdata 1] [CONNECTED 1] [] [1 \<mapsto> small_pcb False 80]"

lemma small_fields: "heap (small_state ud reg es rs tcp) = [1 \<mapsto> ud]" "registry (small_state ud reg es rs tcp) = reg"
    "medium (small_state ud reg es rs tcp) = es" "high (small_state ud reg es rs tcp) = []"
    "resolving (small_state ud reg es rs tcp) = rs" "lwip (small_state ud reg es rs tcp) = (tcp, Map.empty)"
  by (simp_all add: small_state_def)

lemma small_connection: "connection small_env (small_state (small_ud self 1 w r) reg es rs [1 \<mapsto> small_pcb False n]) 1 1"
  by (simp add: connection_def small_fields small_ud_def small_pcb_def tcp_states_def small_env_def)

lemma small_reach:
  assumes use: "\<And>c args s fs. disciplined small_env c args s fs \<Longrightarrow> use c args s fs"
  shows "(net_step small_env use)\<^sup>*\<^sup>* small_start (small_open, [])" (is "?P small_open")
    "net_step small_env use (small_open, []) (small_conn, [])"
proof -
  let ?R = "net_step small_env use"
  let ?s1 = "small_state (small_ud LUA_NOREF 0 0 LUA_NOREF) Map.empty [] [] Map.empty"
  let ?s2 = "small_state (small_ud LUA_NOREF 0 0 1) [1 \<mapsto> Lua_function 7] [] [] Map.empty"
  let ?reg = "[1 \<mapsto> Lua_function 7, 2 \<mapsto> Lua_userdata 1]" and ?tcp = "[1 \<mapsto> small_pcb True 80]"
  have init: "small_start = (fst small_start, [])" by (simp add: net_init_def)
  have push: "push (Return vs) fs = fs" for vs fs by (simp add: push_def)
  have "?R (fst small_start, []) (?s1, push (Return [Lua_userdata 1]) [])"
    by (rule net_step.script [OF use _ small_create]) (simp_all add: disciplined_def lua_arg_def)
  then have 1: "?R small_start (?s1, [])" using init push by metis
  have "?R (?s1, []) (?s2, push (Return []) [])"
    by (rule net_step.script [OF use _ small_on]) (simp_all add: disciplined_def small_fields)
  then have 2: "?R (?s1, []) (?s2, [])" using push by metis
  have "?R (?s2, []) (small_state (small_ud 2 1 1 1) ?reg [] [Dns_for 1] ?tcp, push (Return []) [])"
    by (rule net_step.script [OF use _ small_connect])
      (simp_all add: disciplined_def small_fields busy_def dns_work_def own_events_def requests_def err_frames_def)
  then have 3: "?R (?s2, []) (small_state (small_ud 2 1 1 1) ?reg [] [Dns_for 1] ?tcp, [])" using push by metis
  have "?R (small_state (small_ud 2 1 1 1) ?reg [] [Dns_for 1] ?tcp, [])
      (net_dns_cb small_env (Some (IP4 5)) 1 ((small_state (small_ud 2 1 1 1) ?reg [] [Dns_for 1] ?tcp)\<lparr>resolving := [] @ []\<rparr>), [])"
    by (rule net_step.answered) (simp add: small_fields)
  then have 4: "?R (small_state (small_ud 2 1 1 1) ?reg [] [Dns_for 1] ?tcp, [])
      (small_state (small_ud 2 1 1 1) ?reg [DNSFOUND 1 (IP4 5)] [] ?tcp, [])"
    using small_answer [of ?reg ?tcp] by (simp only: append_Nil)
  have "?R (small_state (small_ud 2 1 1 1) ?reg [DNSFOUND 1 (IP4 5)] [] ?tcp, []) (small_open, push (Return []) [])"
    by (rule net_step.dispatch [OF small_found(1,2)])
  then have 5: "?R (small_state (small_ud 2 1 1 1) ?reg [DNSFOUND 1 (IP4 5)] [] ?tcp, []) (small_open, [])" using push by metis
  show "?R\<^sup>*\<^sup>* small_start (small_open, [])"
    by (rule converse_rtranclp_into_rtranclp, rule 1, rule converse_rtranclp_into_rtranclp, rule 2,
      rule converse_rtranclp_into_rtranclp, rule 3, rule converse_rtranclp_into_rtranclp, rule 4, rule r_into_rtranclp, rule 5)
  show "?R (small_open, []) (small_conn, [])"
    by (rule net_step.connected [OF small_connection small_connected])
qed

lemma small_reachable: "net_reachable small_env (disciplined small_env) (small_conn, [])"
  unfolding net_reachable_def using rtranclp.rtrancl_into_rtrancl [OF small_reach] by blast

section \<open>The properties at the connection\<close>

lemma small_heap: "heap small_conn 1 = Some (small_ud 2 1 0 1)"
  by (simp add: small_fields)


lemma net_typed_witness:
  "registry small_conn 2 = Some (Lua_userdata 1) \<and> (\<exists>f. registry small_conn 1 = Some (Lua_function f))"
  using net_typed [OF small_laws small_reachable small_heap] by (simp add: small_ud_def cb_refs_def)

lemma net_on_registers_witness:
  "\<exists>s'. net_on small_env [Lua_userdata 1, Lua_string ''sent'', Lua_function 9] small_conn = Some (Return [], s') \<and>
     registered s' 1 ''sent'' = Some (Lua_function 9) \<and> registered s' 1 ''connection'' = Some (Lua_function 7)"
proof -
  have "registered small_conn 1 ''connection'' = Some (Lua_function 7)"
    by (simp add: registered_def cb_field_def small_fields small_ud_def rawgeti_def)
  moreover have "c_string ''sent'' = ''sent''" by (simp add: c_string_def)
  moreover have "type (small_ud 2 1 0 1) \<noteq> TYPE_TCP_SERVER" "cb_field (type (small_ud 2 1 0 1)) (c_string ''sent'') \<noteq> None"
    by (simp_all add: small_ud_def cb_field_def c_string_def)
  ultimately show ?thesis
    using net_on_registers [OF small_laws small_reachable small_heap, of "''sent''" "Lua_function 9"] by fastforce
qed


text \<open>A server that listens, with a function for its connections, and is given one.\<close>

abbreviation small_server :: "int \<Rightarrow> nat \<Rightarrow> int \<Rightarrow> lnet_userdata" where
  "small_server self p accept \<equiv> (small_ud self p accept 0)\<lparr>type := TYPE_TCP_SERVER\<rparr>"

abbreviation small_listening :: "net_event list \<Rightarrow> small_stack net_state" where
  "small_listening es \<equiv>
     small_state (small_server 2 1 1) [1 \<mapsto> Lua_function 7, 2 \<mapsto> Lua_userdata 1] es [] [1 \<mapsto> small_pcb False 0]"

lemma small_create_server:
  "call_net small_env N_createServer [] (fst small_start) =
     Some (Return [Lua_userdata 1], small_state (small_server LUA_NOREF 0 LUA_NOREF) Map.empty [] [] Map.empty)"
  by (simp add: call_net_def net_createServer_def net_create_def lua_arg_def luaL_optlong_def small_env_def net_init_def
      init_ud_def small_ud_def put_ud_def small_state_def)

lemma small_listen:
  "call_net small_env N_listen [Lua_userdata 1, Lua_integer 80, Lua_function 7]
       (small_state (small_server LUA_NOREF 0 LUA_NOREF) Map.empty [] [] Map.empty) =
     Some (Return [], small_listening [])"
  by (simp add: call_net_def net_listen_def with_ud_def net_get_udata_def listen_args_def luaL_checkinteger_def lua_arg_def
      lua_tolstring_def is_function_def renew_ref_def listen_tcp_def keep_self_def add_ref_def unref_def luaL_unref_def
      luaL_ref_def Let_def small_env_def next_ref_small small_ud_def small_pcb_def put_ud_def small_state_def)

lemma small_accept:
  "net_accept_cb small_env 1 5 (small_listening []) = Some (ERR_OK, small_listening [SENTDATA 1 (Some 5)])"
  by (simp add: net_accept_cb_def post_net_accept_def post_def to_medium_def small_env_def small_state_def small_ud_def)

lemma small_server_reachable:
  "net_reachable small_env (disciplined small_env) (small_listening [], [])"
  "net_reachable small_env (disciplined small_env) (small_listening [SENTDATA 1 (Some 5)], [])"
proof -
  let ?R = "net_step small_env (disciplined small_env)"
  let ?s1 = "small_state (small_server LUA_NOREF 0 LUA_NOREF) Map.empty [] [] Map.empty"
  have init: "small_start = (fst small_start, [])" by (simp add: net_init_def)
  have push: "push (Return vs) fs = fs" for vs fs by (simp add: push_def)
  have "?R (fst small_start, []) (?s1, push (Return [Lua_userdata 1]) [])"
    by (rule net_step.script [OF _ _ small_create_server]) (simp_all add: disciplined_def lua_arg_def)
  then have 1: "?R small_start (?s1, [])" using init push by metis
  have "?R (?s1, []) (small_listening [], push (Return []) [])"
    by (rule net_step.script [OF _ _ small_listen]) (simp_all add: disciplined_def small_fields)
  then have 2: "?R (?s1, []) (small_listening [], [])" using push by metis
  have "has_type TYPE_TCP_SERVER (small_listening []) 1" by (simp add: has_type_def small_fields small_ud_def)
  then have 3: "?R (small_listening [], []) (small_listening [SENTDATA 1 (Some 5)], [])"
    by (rule net_step.accepted [OF _ small_accept])
  show "net_reachable small_env (disciplined small_env) (small_listening [], [])"
    "net_reachable small_env (disciplined small_env) (small_listening [SENTDATA 1 (Some 5)], [])"
    unfolding net_reachable_def using 1 2 3 by (meson rtranclp.rtrancl_into_rtrancl rtranclp.rtrancl_refl)+
qed

lemma net_accept_lost_witness:
  "registry (small_listening []) (cb_accept_ref (small_server 2 1 1)) = Some (Lua_function 7) \<and>
   net_accept_cb small_env 1 5 (small_listening []) = Some (ERR_OK, small_listening [SENTDATA 1 (Some 5)]) \<and>
   (\<forall>p. ACCEPT 1 p \<notin> set (medium (small_listening [SENTDATA 1 (Some 5)]))) \<and>
   next_net_event (small_listening [SENTDATA 1 (Some 5)]) = Some (SENTDATA 1 (Some 5), small_listening []) \<and>
   handle_net_event small_env (SENTDATA 1 (Some 5)) (small_listening []) = Some (Return [], small_listening [])"
proof -
  note lost = net_accept_lost [OF small_laws small_server_reachable(1)] net_accept_lost [OF small_laws small_server_reachable(2)]
  have "handle_net_event small_env (SENTDATA 1 (Some 5)) (small_listening []) \<noteq> None"
    by (simp add: handle_net_event_def lsent_cb_def small_fields small_ud_def)
  then obtain r s1 where h: "handle_net_event small_env (SENTDATA 1 (Some 5)) (small_listening []) = Some (r, s1)" by auto
  with lost(1) obtain ud where s1: "s1 = small_listening []" and ud: "heap (small_listening []) 1 = Some ud"
      "r = (if cb_sent_ref ud = LUA_NOREF then Return []
         else Call (rawgeti (small_listening []) (cb_sent_ref ud)) [rawgeti (small_listening []) (self_ref ud)] After_event)"
    by blast
  then have "r = Return []" by (auto simp: small_fields small_ud_def)
  moreover have "\<forall>p. ACCEPT 1 p \<notin> set (medium (small_listening [SENTDATA 1 (Some 5)]))" using lost(2) by auto
  ultimately show ?thesis using h s1 small_accept small_found(1) by (simp add: small_fields small_ud_def)
qed

section \<open>Runs that use a freed object\<close>

text \<open>
  A client that is closed while an event is queued for it: its own reference is given back, it is
  collected, and the event is dispatched to the freed object.
\<close>

lemma small_close:
  "call_net small_env N_close [Lua_userdata 1] small_conn =
     Some (Return [], small_state (small_ud LUA_NOREF 0 0 1) [1 \<mapsto> Lua_function 7] [CONNECTED 1] [] Map.empty)"
  by (simp add: call_net_def net_close_def with_ud_def net_get_udata_def lua_arg_def drop_self_def unref_def luaL_unref_def Let_def
      small_env_def small_ud_def put_ud_def small_state_def fun_upd_twist)

lemma small_collect:
  "net_delete small_env [Lua_userdata 1] (small_state (small_ud LUA_NOREF 0 0 con) reg es rs tcp) =
     Some (Return [], small_state (small_ud LUA_NOREF 0 0 LUA_NOREF) (luaL_unref con reg) es rs tcp)"
  by (simp add: net_delete_def net_get_udata_def lua_arg_def drop_callbacks_def drop_self_def close_pcb_def upd_lwip_def
      unref_def luaL_unref_def Let_def small_ud_def put_ud_def small_state_def)

lemma small_freed:
  assumes run: "(net_step env use)\<^sup>*\<^sup>* (net_init w) (s, [])" and free: "heap s a \<noteq> None" "\<not> in_registry s a"
    "net_delete env [Lua_userdata a] s = Some (r, s')" and ev: "high s' = []" "medium s' = ev # es" "ev = CONNECTED a \<or> ev = ERR a e"
  shows "\<exists>s ev s1. net_reachable env use (s, []) \<and> next_net_event s = Some (ev, s1) \<and> handle_net_event env ev s1 = None"
proof -
  let ?s = "s'\<lparr>heap := (heap s')(a := None)\<rparr>"
  have "net_reachable env use (?s, [])"
    unfolding net_reachable_def using rtranclp.rtrancl_into_rtrancl [OF run net_step.collected [OF free]] by blast
  moreover have "next_net_event ?s = Some (ev, ?s\<lparr>medium := es\<rparr>)" using ev by (simp add: next_net_event_def)
  moreover have "handle_net_event env ev (?s\<lparr>medium := es\<rparr>) = None"
    using ev(3) by (auto simp: handle_net_event_def lconnected_cb_def lerr_cb_def)
  ultimately show ?thesis by blast
qed

lemma net_close_fault:
  "\<exists>s ev s1. net_reachable small_env (\<lambda>c args s fs. disciplined small_env c args s fs \<or> c = N_close) (s, []) \<and>
     next_net_event s = Some (ev, s1) \<and> handle_net_event small_env ev s1 = None"
proof -
  let ?use = "\<lambda>c args s fs. disciplined small_env c args s fs \<or> c = N_close"
  note r = small_reach [of ?use]
  have "net_step small_env ?use (small_conn, [])
      (small_state (small_ud LUA_NOREF 0 0 1) [1 \<mapsto> Lua_function 7] [CONNECTED 1] [] Map.empty, push (Return []) [])"
    by (rule net_step.script [OF _ _ small_close]) (simp_all add: small_fields)
  then have "(net_step small_env ?use)\<^sup>*\<^sup>* small_start
      (small_state (small_ud LUA_NOREF 0 0 1) [1 \<mapsto> Lua_function 7] [CONNECTED 1] [] Map.empty, [])"
    using r by (simp add: push_def)
  then show ?thesis
    by (rule small_freed [OF _ _ _ small_collect]) (auto simp: small_fields in_registry_def split: if_splits)
qed

text \<open>
  A client that asks for a name while it is connected, and whose connection fails after the answer: the
  answer gives its reference back before the error is dispatched.
\<close>

abbreviation small_asked :: "int \<Rightarrow> nat \<Rightarrow> int \<Rightarrow> lnet_userdata" where
  "small_asked self p wait \<equiv> (small_ud self p wait 1)\<lparr>cb_dns_ref := 3\<rparr>"

abbreviation small_reg :: "int \<rightharpoonup> lua_value" where
  "small_reg \<equiv> [1 \<mapsto> Lua_function 7, 2 \<mapsto> Lua_userdata 1, 3 \<mapsto> Lua_function 8]"

lemma small_dns:
  "call_net small_env N_dns [Lua_userdata 1, Lua_string ''name'', Lua_function 8] small_open =
     Some (Return [], small_state (small_asked 2 1 1) small_reg [] [Dns_for 1] [1 \<mapsto> small_pcb False 80])"
proof -
  have n: "next_ref [1 \<mapsto> v, 2 \<mapsto> v'] = 3" for v v' :: lua_value by (simp add: next_ref_def)
  show ?thesis
    by (simp add: call_net_def net_dns_def with_ud_def net_get_udata_def with_text_def lua_arg_def lua_tolstring_def
        c_string_def is_function_def renew_ref_def add_ref_def unref_def luaL_unref_def luaL_ref_def resolve_def keep_self_def Let_def
        small_env_def n small_ud_def put_ud_def small_state_def)
qed

lemma small_late_answer:
  "net_dns_cb small_env (Some (IP4 5)) 1 ((small_state ud reg [] [Dns_for 1] tcp)\<lparr>resolving := []\<rparr>) =
     small_state ud reg [DNSFOUND 1 (IP4 5)] [] tcp"
  by (simp add: net_dns_cb_def post_net_dns_def post_def to_medium_def small_env_def small_state_def)

lemma small_failed:
  "net_err_cb small_env 1 ERR_RST ((small_state (small_asked 2 1 1) reg es rs tcp)\<lparr>lwip := (Map.empty, Map.empty)\<rparr>) =
     Some (small_state (small_asked 2 0 1) reg (es @ [ERR 1 ERR_RST]) rs Map.empty)"
  by (simp add: net_err_cb_def post_net_err_def post_def to_medium_def put_ud_def small_env_def small_state_def small_ud_def)

lemma small_told:
  "next_net_event (small_state ud reg (ev # es) rs tcp) = Some (ev, small_state ud reg es rs tcp)"
  "handle_net_event small_env (DNSFOUND 1 (IP4 5)) (small_state (small_asked 2 0 1) small_reg es rs tcp) =
     Some (Call (Lua_function 8) [Lua_userdata 1, addr_value small_env (IP4 5)] (After_dns 1 (IP4 5)),
       small_state (small_asked 2 0 1) small_reg es rs tcp)"
  "run_frame small_env (After_dns 1 (IP4 5)) (small_state (small_asked 2 0 1) small_reg es rs tcp) =
     Some (Return [], small_state (small_asked LUA_NOREF 0 0) (small_reg(2 := None)) es rs tcp)"
  by (simp_all add: next_net_event_def handle_net_event_def ldnsfound_cb_def run_frame_def ldnsfound_rest_def rawgeti_def drop_self_def
      unref_def luaL_unref_def Let_def put_ud_def small_state_def small_ud_def)

lemma net_dns_fault:
  "\<exists>s ev s1. net_reachable small_env (\<lambda>c args s fs. disciplined small_env c args s fs \<or> c = N_dns) (s, []) \<and>
     next_net_event s = Some (ev, s1) \<and> handle_net_event small_env ev s1 = None"
proof -
  let ?use = "\<lambda>c args s fs. disciplined small_env c args s fs \<or> c = N_dns"
  let ?R = "net_step small_env ?use" and ?tcp = "[1 \<mapsto> small_pcb False 80]"
  let ?s1 = "small_state (small_asked 2 1 1) small_reg [] [Dns_for 1] ?tcp"
  let ?s2 = "small_state (small_asked 2 1 1) small_reg [DNSFOUND 1 (IP4 5)] [] ?tcp"
  let ?s3 = "small_state (small_asked 2 0 1) small_reg [DNSFOUND 1 (IP4 5), ERR 1 ERR_RST] [] Map.empty"
  let ?s4 = "small_state (small_asked 2 0 1) small_reg [ERR 1 ERR_RST] [] Map.empty"
  let ?s5 = "small_state (small_asked LUA_NOREF 0 0) (small_reg(2 := None)) [ERR 1 ERR_RST] [] Map.empty"
  have 0: "?R\<^sup>*\<^sup>* small_start (small_open, [])" by (rule small_reach) simp
  have "?R (small_open, []) (?s1, push (Return []) [])"
    by (rule net_step.script [OF _ _ small_dns]) (simp_all add: small_fields)
  then have 1: "?R (small_open, []) (?s1, [])" by (simp add: push_def)
  have "?R (?s1, []) (net_dns_cb small_env (Some (IP4 5)) 1 (?s1\<lparr>resolving := [] @ []\<rparr>), [])"
    by (rule net_step.answered) (simp add: small_fields)
  then have 2: "?R (?s1, []) (?s2, [])" by (simp only: append_Nil small_late_answer)
  have c: "connection small_env ?s2 1 1"
    by (simp add: connection_def small_fields small_ud_def small_pcb_def tcp_states_def small_env_def)
  have m: "lwip_moves small_env (Some 1) (lwip ?s2) (Map.empty, Map.empty)"
    by (simp add: lwip_moves_def small_fields tcp_states_def udp_live_def small_env_def)
  have 3: "?R (?s2, []) (?s3, [])" by (rule net_step.failed [OF c m small_failed [of _ "[DNSFOUND 1 (IP4 5)]", unfolded append.simps]])
  have "?R (?s3, []) (?s4, push (Call (Lua_function 8) [Lua_userdata 1, addr_value small_env (IP4 5)] (After_dns 1 (IP4 5))) [])"
    by (rule net_step.dispatch [OF small_told(1,2)])
  then have 4: "?R (?s3, []) (?s4, [After_dns 1 (IP4 5)])" by (simp add: push_def)
  have 5: "?R (?s4, [After_dns 1 (IP4 5)]) (?s5, [])" by (rule net_step.returned [OF small_told(3)])
  have run: "?R\<^sup>*\<^sup>* small_start (?s5, [])"
    using 0 1 2 3 4 5 by (meson rtranclp.rtrancl_into_rtrancl)
  have del: "net_delete small_env [Lua_userdata 1] ?s5 =
      Some (Return [], small_state (small_ud LUA_NOREF 0 0 LUA_NOREF) (small_reg(2 := None, 1 := None, 3 := None)) [ERR 1 ERR_RST] [] Map.empty)"
    by (simp add: net_delete_def net_get_udata_def lua_arg_def drop_callbacks_def drop_self_def close_pcb_def upd_lwip_def
      unref_def luaL_unref_def Let_def small_ud_def put_ud_def small_state_def)
  show ?thesis
    by (rule small_freed [OF run _ _ del]) (auto simp: small_fields in_registry_def split: if_splits)
qed

text \<open>
  C18: The discipline is needed: when scripts may also close a client while an event is queued for it, or ask
  for a name on a connected client, a reachable state has a next event whose dispatch uses a freed object.
\<close>

theorem net_use_after_free:
  "(\<exists>s ev s1. net_reachable small_env (\<lambda>c args s fs. disciplined small_env c args s fs \<or> c = N_close) (s, []) \<and>
      next_net_event s = Some (ev, s1) \<and> handle_net_event small_env ev s1 = None) \<and>
   (\<exists>s ev s1. net_reachable small_env (\<lambda>c args s fs. disciplined small_env c args s fs \<or> c = N_dns) (s, []) \<and>
      next_net_event s = Some (ev, s1) \<and> handle_net_event small_env ev s1 = None)"
  by (rule conjI [OF net_close_fault net_dns_fault])

end
